(* ===== verification/Bridge_Prelude.thy ===== *)
theory Bridge_Prelude
  imports Main "HOL-Library.Word" "HOL-Library.Monad_Syntax"
begin

text \<open>
  Types, constants and helper lemmas shared by every component of the JTAG bridge
  (\<^verbatim>\<open>src/hardware/cores/adv_debug_sys/Software/adv_jtag_bridge\<close>).

  The C types are kept at their width: \<open>uint8_t\<close>, \<open>uint32_t\<close> and the 64-bit
  \<open>unsigned long\<close> are words. A C function that returns an error code and changes global
  state is a function from the state to the pair of code and new state; \<open>err_seq\<close> is the
  C idiom \<open>err |= f(); err |= g();\<close>. What the C standard leaves to the host machine (the
  result of a shift by the width of the operand or more, the size of \<open>unsigned long\<close>, the
  bytes that lie behind an array, and whether \<open>malloc\<close> finds memory) is a field of
  \<open>host\<close>, so that every definition is total and no theorem silently assumes one machine.
\<close>

unbundle bit_operations_syntax

type_synonym u8 = "8 word"
type_synonym u16 = "16 word"
type_synonym u32 = "32 word"
type_synonym u64 = "64 word"

text \<open>Facts that unfold operations on the JTAG clock level; grown by the component theories.\<close>

named_theorems clock_simps

text \<open>Facts that unfold the bridge's integer constants.\<close>

named_theorems const_simps

section \<open>Error codes (errcodes.h, errcodes.c)\<close>

definition APP_ERR_NONE :: u32 where [const_simps]: "APP_ERR_NONE = 0x0"
definition APP_ERR_COMM :: u32 where [const_simps]: "APP_ERR_COMM = 0x1"
definition APP_ERR_MALLOC :: u32 where [const_simps]: "APP_ERR_MALLOC = 0x2"
definition APP_ERR_MAX_RETRY :: u32 where [const_simps]: "APP_ERR_MAX_RETRY = 0x4"
definition APP_ERR_CRC :: u32 where [const_simps]: "APP_ERR_CRC = 0x08"
definition APP_ERR_MAX_BUS_ERR :: u32 where [const_simps]: "APP_ERR_MAX_BUS_ERR = 0x10"
definition APP_ERR_CABLE_INVALID :: u32 where [const_simps]: "APP_ERR_CABLE_INVALID = 0x20"
definition APP_ERR_INIT_FAILED :: u32 where [const_simps]: "APP_ERR_INIT_FAILED = 0x40"
definition APP_ERR_BAD_PARAM :: u32 where [const_simps]: "APP_ERR_BAD_PARAM = 0x080"
definition APP_ERR_CONNECT :: u32 where [const_simps]: "APP_ERR_CONNECT = 0x100"
definition APP_ERR_USB :: u32 where [const_simps]: "APP_ERR_USB = 0x200"
definition APP_ERR_CABLENOTFOUND :: u32 where [const_simps]: "APP_ERR_CABLENOTFOUND = 0x400"
definition APP_ERR_TEST_FAIL :: u32 where [const_simps]: "APP_ERR_TEST_FAIL = 0x0800"

lemma err_or_none [simp]: "APP_ERR_NONE OR e = e" "e OR APP_ERR_NONE = e"
  by (simp_all add: APP_ERR_NONE_def)

lemma err_none_zero [simp]: "APP_ERR_NONE = 0 \<longleftrightarrow> True" "0 = APP_ERR_NONE \<longleftrightarrow> True"
  by (simp_all add: APP_ERR_NONE_def)

text \<open>
  \<open>get_err_string\<close> appends one phrase per set bit to the 256-byte buffer \<open>errstr\<close>; the
  model returns the characters before the terminating NUL.
\<close>

definition err_phrase :: "u32 \<Rightarrow> u32 \<Rightarrow> string \<Rightarrow> string" where
  "err_phrase err code s = (if err AND code \<noteq> 0 then s else [])"

definition get_err_string :: "u32 \<Rightarrow> string" where
  "get_err_string err = concat
     [err_phrase err APP_ERR_COMM (CHR 0x27 # ''JTAG comm error'' @ [CHR 0x27, CHR '' '']),
      err_phrase err APP_ERR_MALLOC (CHR 0x27 # ''malloc failed'' @ [CHR 0x27, CHR '' '']),
      err_phrase err APP_ERR_MAX_RETRY (CHR 0x27 # ''max retries'' @ [CHR 0x27, CHR '' '']),
      err_phrase err APP_ERR_CRC (CHR 0x27 # ''CRC mismatch'' @ [CHR 0x27, CHR '' '']),
      err_phrase err APP_ERR_MAX_BUS_ERR
        (CHR 0x27 # ''max WishBone bus errors'' @ [CHR 0x27, CHR '' '']),
      err_phrase err APP_ERR_CABLE_INVALID (CHR 0x27 # ''Invalid cable'' @ [CHR 0x27, CHR '' '']),
      err_phrase err APP_ERR_INIT_FAILED (CHR 0x27 # ''init failed'' @ [CHR 0x27, CHR '' '']),
      err_phrase err APP_ERR_BAD_PARAM
        (CHR 0x27 # ''bad command line parameter'' @ [CHR 0x27, CHR '' '']),
      err_phrase err APP_ERR_CONNECT (CHR 0x27 # ''connection failed'' @ [CHR 0x27, CHR '' '']),
      err_phrase err APP_ERR_USB (CHR 0x27 # ''USB'' @ [CHR 0x27, CHR '' '']),
      err_phrase err APP_ERR_CABLENOTFOUND
        (CHR 0x27 # ''cable not found'' @ [CHR 0x27, CHR '' ''])]"

lemma length_err_phrase: "length (err_phrase err c s) \<le> length s"
  by (simp add: err_phrase_def)

section \<open>How a call ends\<close>

text \<open>For the parts that may end the process: it loops for ever or does something undefined, it
  calls \<open>exit\<close>, or it returns.\<close>

datatype 'a outcome = Hangs | Exits int | Returns 'a

primrec and_then :: "'a outcome \<Rightarrow> ('a \<Rightarrow> 'b outcome) \<Rightarrow> 'b outcome" where
  "and_then Hangs f = Hangs"
| "and_then (Exits code) f = Exits code"
| "and_then (Returns x) f = f x"

definition if_returns :: "'a option \<Rightarrow> 'a outcome" where
  "if_returns r = (case r of None \<Rightarrow> Hangs | Some x \<Rightarrow> Returns x)"

lemma if_returns_simps [simp]: "if_returns None = Hangs" "if_returns (Some x) = Returns x"
  by (simp_all add: if_returns_def)

lemma and_then_Returns: "and_then m f = Returns y \<longleftrightarrow> (\<exists>x. m = Returns x \<and> f x = Returns y)"
  by (cases m) simp_all

lemma if_returns_Returns [simp]: "if_returns r = Returns x \<longleftrightarrow> r = Some x"
  by (cases r) simp_all

section \<open>The host machine\<close>

record host =
  shr_over :: "u32 \<Rightarrow> int \<Rightarrow> u32"    \<comment> \<open>\<open>x >> n\<close> for \<open>n < 0\<close> or \<open>n \<ge> 32\<close>\<close>
  shl_over :: "u32 \<Rightarrow> int \<Rightarrow> u32"    \<comment> \<open>\<open>x << n\<close> for \<open>n < 0\<close> or \<open>n \<ge> 32\<close>\<close>
  sar_over :: "u32 \<Rightarrow> int \<Rightarrow> u32"    \<comment> \<open>the same for a signed \<open>x >> n\<close>\<close>
  sizeof_ulong :: nat                \<comment> \<open>4 (ILP32) or 8 (LP64)\<close>
  stray :: "nat \<Rightarrow> u8"               \<comment> \<open>the bytes an over-read finds\<close>
  malloc_ok :: "int \<Rightarrow> bool"

definition c_shr :: "host \<Rightarrow> u32 \<Rightarrow> int \<Rightarrow> u32" where
  "c_shr h x n = (if 0 \<le> n \<and> n < 32 then drop_bit (nat n) x else shr_over h x n)"

definition c_shl :: "host \<Rightarrow> u32 \<Rightarrow> int \<Rightarrow> u32" where
  "c_shl h x n = (if 0 \<le> n \<and> n < 32 then push_bit (nat n) x else shl_over h x n)"

definition c_sar :: "host \<Rightarrow> u32 \<Rightarrow> int \<Rightarrow> u32" where
  "c_sar h x n = (if 0 \<le> n \<and> n < 32 then signed_drop_bit (nat n) x else sar_over h x n)"

text \<open>Division of C integers rounds towards zero.\<close>

definition c_div :: "int \<Rightarrow> int \<Rightarrow> int" where
  "c_div a b = sgn a * sgn b * (\<bar>a\<bar> div \<bar>b\<bar>)"

lemma c_div_nonneg: "0 \<le> a \<Longrightarrow> 0 < b \<Longrightarrow> c_div a b = a div b"
  by (cases "a = 0") (simp_all add: c_div_def)

text \<open>Two kinds of processor: those that take the shift count modulo 32, as x86 does, and
  those that shift every bit out, as ARM does.\<close>

definition masks_shifts :: "host \<Rightarrow> bool" where
  "masks_shifts h \<longleftrightarrow> (\<forall>x n. n < 0 \<or> 32 \<le> n \<longrightarrow>
     shr_over h x n = drop_bit (nat (n mod 32)) x \<and>
     shl_over h x n = push_bit (nat (n mod 32)) x)"

definition saturates_shifts :: "host \<Rightarrow> bool" where
  "saturates_shifts h \<longleftrightarrow> (\<forall>x n. 32 \<le> n \<longrightarrow> shr_over h x n = 0 \<and> shl_over h x n = 0)"

definition x86_32 :: host where
  "x86_32 = \<lparr>shr_over = \<lambda>x n. drop_bit (nat (n mod 32)) x,
             shl_over = \<lambda>x n. push_bit (nat (n mod 32)) x,
             sar_over = \<lambda>x n. signed_drop_bit (nat (n mod 32)) x,
             sizeof_ulong = 4, stray = \<lambda>_. 0, malloc_ok = \<lambda>_. True\<rparr>"

definition x86_64 :: host where
  "x86_64 = x86_32\<lparr>sizeof_ulong := 8\<rparr>"

definition arm_32 :: host where
  "arm_32 = x86_32\<lparr>shr_over := \<lambda>_ _. 0, shl_over := \<lambda>_ _. 0\<rparr>"

lemma masks_shifts_x86: "masks_shifts x86_32" "masks_shifts x86_64"
  by (simp_all add: masks_shifts_def x86_64_def x86_32_def)

lemma saturates_shifts_arm: "saturates_shifts arm_32"
  by (simp add: saturates_shifts_def arm_32_def)

lemma c_shr_small [simp]: "0 \<le> n \<Longrightarrow> n < 32 \<Longrightarrow> c_shr h x n = drop_bit (nat n) x"
  and c_shl_small [simp]: "0 \<le> n \<Longrightarrow> n < 32 \<Longrightarrow> c_shl h x n = push_bit (nat n) x"
  by (simp_all add: c_shr_def c_shl_def)

lemma c_shr_masked: "masks_shifts h \<Longrightarrow> c_shr h x n = drop_bit (nat (n mod 32)) x"
  and c_shl_masked: "masks_shifts h \<Longrightarrow> c_shl h x n = push_bit (nat (n mod 32)) x"
  by (auto simp: masks_shifts_def c_shr_def c_shl_def not_le)

section \<open>Sequencing\<close>

type_synonym 's act = "'s \<Rightarrow> u32 \<times> 's"

primrec err_seq :: "'s act list \<Rightarrow> 's act" where
  "err_seq [] s = (APP_ERR_NONE, s)"
| "err_seq (f # fs) s = (let (e, s') = f s; (es, s'') = err_seq fs s' in (e OR es, s''))"

lemma err_seq_append:
  "err_seq (fs @ gs) s =
     (let (e, s') = err_seq fs s; (e', s'') = err_seq gs s' in (e OR e', s''))"
  by (induction fs arbitrary: s) (auto simp: Let_def split_beta const_simps or.assoc)

lemma snd_err_seq_Cons: "snd (err_seq (f # fs) s) = snd (err_seq fs (snd (f s)))"
  by (simp add: Let_def split_beta)

lemma snd_err_seq_Nil: "snd (err_seq [] s) = s"
  by simp

lemmas snd_err_seq [clock_simps] = snd_err_seq_Nil snd_err_seq_Cons

lemma err_seq_pres:
  assumes "\<And>f s. f \<in> set fs \<Longrightarrow> P s \<Longrightarrow> P (snd (f s))" and "P s"
  shows "P (snd (err_seq fs s))"
  using assms by (induction fs arbitrary: s) (auto simp: Let_def split_beta)

section \<open>Bits and bytes of words\<close>

lemma bit_and_1_iff: "(x AND 1 \<noteq> (0 :: 'a::len word)) = bit x 0"
  by (simp add: and_one_eq bit_0 odd_iff_mod_2_eq_one)

lemma and_1_cases: "x AND (1 :: 'a::len word) = (if bit x 0 then 1 else 0)"
  by (simp add: and_one_eq bit_0 odd_iff_mod_2_eq_one)

lemma bit_word_above:
  assumes "uint (x :: 'a::len word) < 2 ^ n" "n \<le> j"
  shows "\<not> bit x j"
proof
  assume "bit x j"
  then have b: "bit (uint x) j" by (simp add: bit_uint_iff bit_imp_le_length)
  have "take_bit n (uint x) = uint x" using assms(1) by (simp add: take_bit_int_eq_self)
  with b have "bit (take_bit n (uint x)) j" by simp
  then show False using assms(2) by (simp add: bit_take_bit_iff)
qed

text \<open>A stream of 32-bit words, sent from the LSB of the first word on. An array is read with
  \<open>rd\<close>; the bridge's calls never read past the words they pass, where \<open>rd\<close> is 0.\<close>

definition rd :: "'a::zero list \<Rightarrow> nat \<Rightarrow> 'a" where
  "rd xs i = (if i < length xs then xs ! i else 0)"

definition stream_bit :: "u32 list \<Rightarrow> nat \<Rightarrow> bool" where
  "stream_bit ws k = bit (rd ws (k div 32)) (k mod 32)"

definition stream_bits :: "u32 list \<Rightarrow> nat \<Rightarrow> bool list" where
  "stream_bits ws n = map (stream_bit ws) [0..<n]"

lemma length_stream_bits [simp]: "length (stream_bits ws n) = n"
  by (simp add: stream_bits_def)

lemma stream_bits_Suc: "stream_bits ws (Suc n) = stream_bits ws n @ [stream_bit ws n]"
  by (simp add: stream_bits_def)

text \<open>The low bits of one word, LSB first, and the number a bit list stands for.\<close>

definition word_bits :: "nat \<Rightarrow> u32 \<Rightarrow> bool list" where
  "word_bits n w = map (bit w) [0..<n]"

lemma stream_bits_one: "n \<le> 32 \<Longrightarrow> stream_bits (w # ws) n = word_bits n w"
  by (auto simp: stream_bits_def word_bits_def stream_bit_def rd_def)

lemma length_word_bits [simp]: "length (word_bits n w) = n"
  by (simp add: word_bits_def)

text \<open>Received bits as the words of a stream; the bits behind the last one are 0.\<close>

definition bits_word :: "bool list \<Rightarrow> u32" where
  "bits_word bs = horner_sum of_bool 2 bs"

definition bits_to_words :: "bool list \<Rightarrow> u32 list" where
  "bits_to_words bs =
     map (\<lambda>j. bits_word (take 32 (drop (32 * j) bs))) [0..<(length bs + 31) div 32]"

lemma bit_bits_word: "bit (bits_word bs) n \<longleftrightarrow> n < 32 \<and> n < length bs \<and> bs ! n"
  by (auto simp: bits_word_def bit_horner_sum_bit_word_iff)

lemma bits_word_word_bits: "bits_word (word_bits 32 w) = w"
  by (rule bit_word_eqI) (simp add: bit_bits_word word_bits_def)

lemma length_bits_to_words [simp]: "length (bits_to_words bs) = (length bs + 31) div 32"
  by (simp add: bits_to_words_def)

lemma stream_bits_bits_to_words: "stream_bits (bits_to_words bs) (length bs) = bs"
proof (rule nth_equalityI)
  fix i assume "i < length (stream_bits (bits_to_words bs) (length bs))"
  then have i: "i < length bs" by simp
  then have "i div 32 < (length bs + 31) div 32" by linarith
  moreover have e: "32 * (i div 32) + i mod 32 = i" by simp
  moreover from e i have "i mod 32 < length bs - 32 * (i div 32)" by linarith
  ultimately show "stream_bits (bits_to_words bs) (length bs) ! i = bs ! i"
    using i by (simp add: stream_bits_def stream_bit_def rd_def bits_to_words_def bit_bits_word
        add.commute)
qed simp

text \<open>Bytes of a buffer as the words of a stream (little-endian host), and back. A final
  partial word is filled up with zero bytes; no bit of them is ever sent.\<close>

fun bytes_to_words :: "u8 list \<Rightarrow> u32 list" where
  "bytes_to_words [] = []"
| "bytes_to_words [a] = [ucast a]"
| "bytes_to_words [a, b] = [ucast a OR push_bit 8 (ucast b)]"
| "bytes_to_words [a, b, c] = [ucast a OR push_bit 8 (ucast b) OR push_bit 16 (ucast c)]"
| "bytes_to_words (a # b # c # d # bs) =
     (ucast a OR push_bit 8 (ucast b) OR push_bit 16 (ucast c) OR push_bit 24 (ucast d))
       # bytes_to_words bs"

definition word_to_bytes :: "u32 \<Rightarrow> u8 list" where
  "word_to_bytes w = [ucast w, ucast (drop_bit 8 w), ucast (drop_bit 16 w), ucast (drop_bit 24 w)]"

definition words_to_bytes :: "u32 list \<Rightarrow> u8 list" where
  "words_to_bytes ws = concat (map word_to_bytes ws)"

lemma length_word_to_bytes [simp]: "length (word_to_bytes w) = 4"
  by (simp add: word_to_bytes_def)

lemma bytes_to_words_word:
  "bytes_to_words (word_to_bytes w @ bs) = w # bytes_to_words bs"
proof -
  have "ucast (ucast w :: u8) OR push_bit 8 (ucast (ucast (drop_bit 8 w) :: u8))
      OR push_bit 16 (ucast (ucast (drop_bit 16 w) :: u8))
      OR push_bit 24 (ucast (ucast (drop_bit 24 w) :: u8)) = w"
  proof (rule bit_word_eqI)
    fix n assume "n < LENGTH(32)"
    then show "bit (ucast (ucast w :: u8) OR push_bit 8 (ucast (ucast (drop_bit 8 w) :: u8))
      OR push_bit 16 (ucast (ucast (drop_bit 16 w) :: u8))
      OR push_bit 24 (ucast (ucast (drop_bit 24 w) :: u8)) :: u32) n = bit w n"
      by (cases "n < 8"; cases "n < 16"; cases "n < 24") (auto simp: bit_simps)
  qed
  then show ?thesis by (simp add: word_to_bytes_def)
qed

lemma bytes_to_words_words: "bytes_to_words (words_to_bytes ws) = ws"
  by (induction ws) (simp_all add: words_to_bytes_def bytes_to_words_word)

text \<open>The bits of bytes, each from the LSB on.\<close>

definition byte_bits :: "u8 \<Rightarrow> bool list" where
  "byte_bits b = map (bit b) [0..<8]"

definition bytes_bits :: "u8 list \<Rightarrow> bool list" where
  "bytes_bits bs = concat (map byte_bits bs)"

lemma length_byte_bits [simp]: "length (byte_bits b) = 8"
  by (simp add: byte_bits_def)

lemma length_bytes_bits [simp]: "length (bytes_bits bs) = 8 * length bs"
  by (induction bs) (simp_all add: bytes_bits_def)

lemma bytes_bits_append [simp]: "bytes_bits (as @ bs) = bytes_bits as @ bytes_bits bs"
  by (simp add: bytes_bits_def)

lemma nth_bytes_bits: "k < 8 * length bs \<Longrightarrow> bytes_bits bs ! k = bit (bs ! (k div 8)) (k mod 8)"
proof (induction bs arbitrary: k)
  case (Cons b bs)
  show ?case
  proof (cases "k < 8")
    case True
    then show ?thesis by (simp add: bytes_bits_def byte_bits_def nth_append)
  next
    case False
    with Cons.IH [of "k - 8"] Cons.prems show ?thesis
      by (simp add: bytes_bits_def nth_append le_div_geq le_mod_geq)
  qed
qed simp

lemma length_words_to_bytes [simp]: "length (words_to_bytes ws) = 4 * length ws"
  by (induction ws) (simp_all add: words_to_bytes_def)

lemma nth_words_to_bytes:
  "k < 4 * length ws \<Longrightarrow> words_to_bytes ws ! k = ucast (drop_bit (8 * (k mod 4)) (ws ! (k div 4)))"
proof (induction ws arbitrary: k)
  case (Cons w ws)
  show ?case
  proof (cases "k < 4")
    case True
    then consider "k = 0" | "k = 1" | "k = 2" | "k = 3" by linarith
    then show ?thesis
      by cases (simp_all add: words_to_bytes_def word_to_bytes_def)
  next
    case False
    with Cons.IH [of "k - 4"] Cons.prems show ?thesis
      by (simp add: words_to_bytes_def nth_append le_div_geq le_mod_geq)
  qed
qed simp

end
