(* ===== verification/Cable_Common.thy ===== *)
theory Cable_Common
  imports Bridge_Prelude
begin

text \<open>
  The cable layer (\<^verbatim>\<open>cable_common.c\<close>, \<^verbatim>\<open>cable_common.h\<close>): the table of drivers,
  the calls that go through the selected driver, and the bit-bang routines that drivers
  without a faster transfer mode use. A driver is the record \<open>jtag_cable\<close> of its functions, as
  \<open>jtag_cable_t\<close> is, over the driver's own state.

  The locale \<open>clocked_cable\<close> is the contract of a driver: every bit it is given becomes one
  TCK cycle of the device at the other end, with TMS, TDI and TRST as the packet says, and
  every bit it returns is the TDO value before that cycle.
\<close>

section \<open>Drivers and packets\<close>

definition TRST :: u8 where [const_simps]: "TRST = 0x04"
definition TMS :: u8 where [const_simps]: "TMS = 0x02"
definition TDO :: u8 where [const_simps]: "TDO = 0x01"

definition TCLK_BIT :: u8 where [const_simps]: "TCLK_BIT = 0x01"
definition TRST_BIT :: u8 where [const_simps]: "TRST_BIT = 0x02"
definition TDI_BIT :: u8 where [const_simps]: "TDI_BIT = 0x04"
definition TMS_BIT :: u8 where [const_simps]: "TMS_BIT = 0x08"

record 'c jtag_cable =
  cable_name :: string
  inout_func :: "u8 \<Rightarrow> 'c \<Rightarrow> (u32 \<times> u8) \<times> 'c"
  out_func :: "u8 \<Rightarrow> 'c act"
  init_func :: "'c act"
  opt_func :: "char \<Rightarrow> string \<Rightarrow> 'c act"
  bit_out_func :: "u8 \<Rightarrow> 'c act"
  bit_inout_func :: "u8 \<Rightarrow> 'c \<Rightarrow> (u32 \<times> u8) \<times> 'c"
  stream_out_func :: "u32 list \<Rightarrow> int \<Rightarrow> bool \<Rightarrow> 'c act"
  stream_inout_func :: "u32 list \<Rightarrow> int \<Rightarrow> bool \<Rightarrow> 'c \<Rightarrow> (u32 \<times> u32 list) \<times> 'c"
  flush_func :: "'c act option"
  cable_opts :: string
  cable_help :: "string option"

section \<open>The cable subsystem\<close>

definition JTAG_MAX_CABLES :: nat where [const_simps]: "JTAG_MAX_CABLES = 16"

text \<open>The driver files, in the order \<open>cable_setup\<close> asks for them, and the build options.\<close>

datatype driver = Rtl | Vpi | Xpc3 | Bb2 | Xess | Usbblaster | Xpcusb | Ftdi | Ft245

record cable_build =
  support_parallel_cables :: bool
  support_usb_cables :: bool
  support_ftdi_cables :: bool

text \<open>\<open>jtag_cables\<close> up to its first NULL entry; \<open>get_driver\<close> is the family of the drivers'
  \<^verbatim>\<open>cable_*_get_driver\<close> functions.\<close>

definition cable_setup :: "cable_build \<Rightarrow> (driver \<Rightarrow> 'c jtag_cable) \<Rightarrow> 'c jtag_cable list" where
  "cable_setup b get_driver = map get_driver
     ([Rtl, Vpi]
      @ (if support_parallel_cables b then [Xpc3, Bb2, Xess] else [])
      @ (if support_usb_cables b
         then [Usbblaster, Xpcusb] @ (if support_ftdi_cables b then [Ftdi, Ft245] else [])
         else []))"

text \<open>\<open>cable_select\<close> leaves \<open>jtag_cable_in_use\<close> alone when no driver has the name.\<close>

fun cable_select :: "string \<Rightarrow> 'c jtag_cable list \<Rightarrow> 'c jtag_cable option
    \<Rightarrow> u32 \<times> 'c jtag_cable option" where
  "cable_select cable [] in_use = (APP_ERR_CABLE_INVALID, in_use)"
| "cable_select cable (d # ds) in_use =
     (if cable = cable_name d then (APP_ERR_NONE, Some d) else cable_select cable ds in_use)"

definition cable_get_args :: "'c jtag_cable option \<Rightarrow> string option" where
  "cable_get_args in_use = map_option cable_opts in_use"

lemma length_cable_setup: "length (cable_setup b get_driver) < JTAG_MAX_CABLES"
  by (simp add: cable_setup_def const_simps)

lemma cable_select_Some:
  "cable_select cable ds in_use = (APP_ERR_NONE, r) \<Longrightarrow>
     \<exists>d \<in> set ds. r = Some d \<and> cable_name d = cable"
  by (induction ds) (auto simp: const_simps split: if_splits)

section \<open>Calls through the selected driver\<close>

definition cable_init :: "'c jtag_cable \<Rightarrow> 'c act" where
  "cable_init cb = init_func cb"

definition cable_parse_opt :: "'c jtag_cable \<Rightarrow> char \<Rightarrow> string \<Rightarrow> 'c act" where
  "cable_parse_opt cb c str = opt_func cb c str"

definition cable_write_stream :: "'c jtag_cable \<Rightarrow> u32 list \<Rightarrow> int \<Rightarrow> bool \<Rightarrow> 'c act" where
  "cable_write_stream cb stream len_bits set_last_bit = stream_out_func cb stream len_bits set_last_bit"

definition cable_read_write_stream ::
    "'c jtag_cable \<Rightarrow> u32 list \<Rightarrow> int \<Rightarrow> bool \<Rightarrow> 'c \<Rightarrow> (u32 \<times> u32 list) \<times> 'c" where
  "cable_read_write_stream cb outstream len_bits set_last_bit =
     stream_inout_func cb outstream len_bits set_last_bit"

definition cable_write_bit :: "'c jtag_cable \<Rightarrow> u8 \<Rightarrow> 'c act" where
  "cable_write_bit cb packet = bit_out_func cb packet"

definition cable_read_write_bit :: "'c jtag_cable \<Rightarrow> u8 \<Rightarrow> 'c \<Rightarrow> (u32 \<times> u8) \<times> 'c" where
  "cable_read_write_bit cb packet_out = bit_inout_func cb packet_out"

definition cable_flush :: "'c jtag_cable \<Rightarrow> 'c act" where
  "cable_flush cb s = (case flush_func cb of Some f \<Rightarrow> f s | None \<Rightarrow> (APP_ERR_NONE, s))"

section \<open>Common bit-bang functions\<close>

definition packet_data :: "u8 \<Rightarrow> u8" where
  "packet_data packet =
     (let data = TRST_BIT;
          data = (if packet AND TDO \<noteq> 0 then data OR TDI_BIT else data);
          data = (if packet AND TMS \<noteq> 0 then data OR TMS_BIT else data);
          data = (if packet AND TRST \<noteq> 0 then data AND NOT TRST_BIT else data)
      in data)"

definition cable_common_write_bit :: "'c jtag_cable \<Rightarrow> u8 \<Rightarrow> 'c act" where
  "cable_common_write_bit cb packet =
     (let data = packet_data packet
      in err_seq [out_func cb data, out_func cb (data OR TCLK_BIT)])"

definition cable_common_read_write_bit :: "'c jtag_cable \<Rightarrow> u8 \<Rightarrow> 'c \<Rightarrow> (u32 \<times> u8) \<times> 'c" where
  "cable_common_read_write_bit cb packet_out s =
     (let data = packet_data packet_out;
          (e1, s1) = out_func cb data s;
          ((e2, bit_in), s2) = inout_func cb (data OR TCLK_BIT) s1
      in ((e1 OR e2, bit_in), s2))"

text \<open>The loop of \<open>cable_common_write_stream\<close>: \<open>n\<close> bits are still to be written before the
  last one, from bit \<open>bits_this_index\<close> of \<open>stream[index]\<close> on.\<close>

fun write_stream_loop :: "'c jtag_cable \<Rightarrow> u32 list \<Rightarrow> nat \<Rightarrow> nat \<Rightarrow> nat \<Rightarrow> u32 \<Rightarrow> 'c
    \<Rightarrow> (u32 \<times> nat) \<times> 'c" where
  "write_stream_loop cb stream 0 index bits_this_index err s = ((err, index), s)"
| "write_stream_loop cb stream (Suc n) index bits_this_index err s =
     (let out = ucast (drop_bit bits_this_index (rd stream index) AND 1);
          (e, s) = cable_write_bit cb out s;
          bits_this_index = bits_this_index + 1
      in if 32 \<le> bits_this_index
         then write_stream_loop cb stream n (index + 1) 0 (err OR e) s
         else write_stream_loop cb stream n index bits_this_index (err OR e) s)"

definition cable_common_write_stream ::
    "host \<Rightarrow> 'c jtag_cable \<Rightarrow> u32 list \<Rightarrow> int \<Rightarrow> bool \<Rightarrow> 'c act" where
  "cable_common_write_stream h cb stream len_bits set_last_bit s =
     (let ((err, index), s) = write_stream_loop cb stream (nat (len_bits - 1)) 0 0 APP_ERR_NONE s;
          out = ucast (c_shr h (rd stream index) (len_bits - 1) AND 1);
          out = (if set_last_bit then out OR TMS else out);
          (e, s) = cable_write_bit cb out s
      in (err OR e, s))"

text \<open>\<open>instream\<close> is the part of the caller's array written so far.\<close>

fun read_stream_loop :: "'c jtag_cable \<Rightarrow> u32 list \<Rightarrow> nat \<Rightarrow> u32 list \<Rightarrow> nat \<Rightarrow> nat \<Rightarrow> u32 \<Rightarrow> 'c
    \<Rightarrow> (u32 \<times> u32 list \<times> nat \<times> nat) \<times> 'c" where
  "read_stream_loop cb outstream 0 instream index bits_this_index err s =
     ((err, instream, index, bits_this_index), s)"
| "read_stream_loop cb outstream (Suc n) instream index bits_this_index err s =
     (let outval = ucast (drop_bit bits_this_index (rd outstream index) AND 1);
          ((e, inval), s) = cable_read_write_bit cb outval s;
          instream = instream[index := rd instream index OR push_bit bits_this_index (ucast inval)];
          bits_this_index = bits_this_index + 1
      in if 32 \<le> bits_this_index
         then read_stream_loop cb outstream n (instream @ [0]) (index + 1) 0 (err OR e) s
         else read_stream_loop cb outstream n instream index bits_this_index (err OR e) s)"

definition cable_common_read_stream ::
    "host \<Rightarrow> 'c jtag_cable \<Rightarrow> u32 list \<Rightarrow> int \<Rightarrow> bool \<Rightarrow> 'c \<Rightarrow> (u32 \<times> u32 list) \<times> 'c" where
  "cable_common_read_stream h cb outstream len_bits set_last_bit s =
     (let ((err, instream, index, bits_this_index), s) =
            read_stream_loop cb outstream (nat (len_bits - 1)) [0] 0 0 APP_ERR_NONE s;
          outval = ucast (c_shr h (rd outstream index) (len_bits - 1) AND 1);
          outval = (if set_last_bit then outval OR TMS else outval);
          ((e, inval), s) = cable_read_write_bit cb outval s;
          instream = instream[index := rd instream index OR push_bit bits_this_index (ucast inval)]
      in ((err OR e, instream), s))"

text \<open>
  The last bit of a stream is fetched by a shift of its word by \<open>len_bits - 1\<close>, which for a
  stream of more than one word exceeds the width of the word. On a host that shifts every bit
  out, the last bit is therefore sent as 0, whatever the stream holds.
\<close>

lemma write_stream_last_bit_lost:
  assumes "saturates_shifts h" and "32 < n"
  shows "cable_common_write_stream h cb ws n l s =
    (let ((err, index), s) = write_stream_loop cb ws (nat (n - 1)) 0 0 APP_ERR_NONE s;
         (e, s) = cable_write_bit cb (if l then TMS else 0) s
     in (err OR e, s))"
proof -
  have "c_shr h x (n - 1) = 0" for x
    using assms by (simp add: c_shr_def saturates_shifts_def)
  then show ?thesis by (simp add: cable_common_write_stream_def Let_def split_beta)
qed

section \<open>The contract of a cable driver\<close>

text \<open>One TCK cycle as the device sees it.\<close>

datatype pin = Pin (pin_tms: bool) (pin_tdi: bool) (pin_trst: bool)

definition packet_pin :: "u8 \<Rightarrow> pin" where
  "packet_pin p = Pin (bit p 1) (bit p 0) (bit p 2)"

definition stream_pins :: "u32 list \<Rightarrow> nat \<Rightarrow> bool \<Rightarrow> pin list" where
  "stream_pins ws n set_last_bit =
     map (\<lambda>k. Pin (set_last_bit \<and> Suc k = n) (stream_bit ws k) False) [0..<n]"

text \<open>The TDO values a device shows while it is clocked with a list of pins.\<close>

primrec tdo_run :: "(pin \<Rightarrow> 'd \<Rightarrow> 'd) \<Rightarrow> ('d \<Rightarrow> bool) \<Rightarrow> pin list \<Rightarrow> 'd \<Rightarrow> bool list" where
  "tdo_run dstep dtdo [] d = []"
| "tdo_run dstep dtdo (p # ps) d = dtdo d # tdo_run dstep dtdo ps (dstep p d)"

lemma length_tdo_run [simp]: "length (tdo_run dstep dtdo ps d) = length ps"
  by (induction ps arbitrary: d) auto

lemma tdo_run_append:
  "tdo_run dstep dtdo (ps @ qs) d = tdo_run dstep dtdo ps d @ tdo_run dstep dtdo qs (fold dstep ps d)"
  by (induction ps arbitrary: d) auto

lemma length_stream_pins [simp]: "length (stream_pins ws n l) = n"
  by (simp add: stream_pins_def)

locale clocked_cable =
  fixes cb :: "'c jtag_cable"
    and dev :: "'c \<Rightarrow> 'd"
    and dstep :: "pin \<Rightarrow> 'd \<Rightarrow> 'd"
    and dtdo :: "'d \<Rightarrow> bool"
  assumes bit_out: "dev (snd (bit_out_func cb p c)) = dstep (packet_pin p) (dev c)"
    and bit_inout: "dev (snd (bit_inout_func cb p c)) = dstep (packet_pin p) (dev c)"
    and bit_inout_tdo: "snd (fst (bit_inout_func cb p c)) = of_bool (dtdo (dev c))"
    and stream_out: "0 < n \<Longrightarrow> n \<le> 32 * length ws \<Longrightarrow>
       dev (snd (stream_out_func cb ws (int n) l c)) = fold dstep (stream_pins ws n l) (dev c)"
    and stream_inout: "0 < n \<Longrightarrow> n \<le> 32 * length ws \<Longrightarrow>
       dev (snd (stream_inout_func cb ws (int n) l c)) = fold dstep (stream_pins ws n l) (dev c)"
    and stream_inout_tdo: "0 < n \<Longrightarrow> n \<le> 32 * length ws \<Longrightarrow>
       snd (fst (stream_inout_func cb ws (int n) l c)) =
         bits_to_words (tdo_run dstep dtdo (stream_pins ws n l) (dev c))"
    and flush_dev: "flush_func cb = Some f \<Longrightarrow> dev (snd (f c)) = dev c"

text \<open>A driver on which no operation fails.\<close>

locale reliable_cable = clocked_cable +
  assumes bit_out_ok: "fst (bit_out_func cb p c) = APP_ERR_NONE"
    and bit_inout_ok: "fst (fst (bit_inout_func cb p c)) = APP_ERR_NONE"
    and stream_out_ok: "fst (stream_out_func cb ws n l c) = APP_ERR_NONE"
    and stream_inout_ok: "fst (fst (stream_inout_func cb ws n l c)) = APP_ERR_NONE"

section \<open>Bit-bang drivers keep the contract\<close>

text \<open>
  What a driver that uses the common functions has to provide: \<open>out_func\<close> with TCK low
  leaves the device alone, and \<open>out_func\<close> or \<open>inout_func\<close> with TCK high right after it
  clocks the device once. The streams longer than one word rely on a host that takes shift
  counts modulo 32 (see \<open>write_stream_last_bit_lost\<close>).
\<close>

definition data_pin :: "u8 \<Rightarrow> pin" where
  "data_pin v = Pin (bit v 3) (bit v 2) (\<not> bit v 1)"

locale bitbang_driver =
  fixes h :: host
    and cb :: "'c jtag_cable"
    and dev :: "'c \<Rightarrow> 'd"
    and dstep :: "pin \<Rightarrow> 'd \<Rightarrow> 'd"
    and dtdo :: "'d \<Rightarrow> bool"
  assumes shifts: "masks_shifts h"
    and out_low: "\<not> bit v 0 \<Longrightarrow> dev (snd (out_func cb v c)) = dev c"
    and out_rise: "\<not> bit v 0 \<Longrightarrow>
       dev (snd (out_func cb (v OR TCLK_BIT) (snd (out_func cb v c)))) = dstep (data_pin v) (dev c)"
    and inout_rise: "\<not> bit v 0 \<Longrightarrow>
       dev (snd (inout_func cb (v OR TCLK_BIT) (snd (out_func cb v c)))) = dstep (data_pin v) (dev c)"
    and inout_tdo: "\<not> bit v 0 \<Longrightarrow>
       snd (fst (inout_func cb (v OR TCLK_BIT) (snd (out_func cb v c)))) = of_bool (dtdo (dev c))"
    and out_ok: "fst (out_func cb v c) = APP_ERR_NONE"
    and inout_ok: "fst (fst (inout_func cb v c)) = APP_ERR_NONE"
    and funcs: "bit_out_func cb = cable_common_write_bit cb"
      "bit_inout_func cb = cable_common_read_write_bit cb"
      "stream_out_func cb = cable_common_write_stream h cb"
      "stream_inout_func cb = cable_common_read_stream h cb"
      "flush_func cb = None"

lemma packet_data_low: "\<not> bit (packet_data p) 0"
  and packet_data_pin: "data_pin (packet_data p) = packet_pin p"
proof -
  have f: "(p AND 1 \<noteq> 0) = bit p 0" "(p AND 2 \<noteq> 0) = bit p 1" "(p AND 4 \<noteq> 0) = bit p 2"
    using and_exp_eq_0_iff_not_bit [of p 0] and_exp_eq_0_iff_not_bit [of p 1]
      and_exp_eq_0_iff_not_bit [of p 2] by simp_all
  show "\<not> bit (packet_data p) 0" "data_pin (packet_data p) = packet_pin p"
    by (auto simp: packet_data_def const_simps f data_pin_def packet_pin_def Let_def)
qed

lemma packet_pin_bit: "packet_pin (ucast (drop_bit b (w :: u32) AND 1)) = Pin False (bit w b) False"
  by (auto simp: packet_pin_def and_1_cases bit_simps)

lemma packet_pin_bit_TMS:
  "packet_pin (ucast (drop_bit b (w :: u32) AND 1) OR TMS) = Pin True (bit w b) False"
  by (auto simp: packet_pin_def and_1_cases bit_simps const_simps)

lemma stream_pins_split:
  "0 < n \<Longrightarrow> stream_pins ws n l =
     map (\<lambda>j. Pin False (stream_bit ws j) False) [0..<n - 1] @ [Pin l (stream_bit ws (n - 1)) False]"
  by (cases n) (auto simp: stream_pins_def)

lemma div_mod_32_step:
  fixes k :: nat
  shows "\<not> 32 \<le> k mod 32 + 1 \<Longrightarrow> Suc k div 32 = k div 32 \<and> Suc k mod 32 = k mod 32 + 1"
    and "32 \<le> k mod 32 + 1 \<Longrightarrow> Suc k div 32 = k div 32 + 1 \<and> Suc k mod 32 = 0"
  using mod_less_divisor [of 32 k] by (auto simp: div_Suc mod_Suc simp del: mod_less_divisor)

text \<open>The words that hold the first bits received while more are to come.\<close>

definition partial_words :: "bool list \<Rightarrow> u32 list" where
  "partial_words bs = map (\<lambda>j. bits_word (take 32 (drop (32 * j) bs))) [0..<length bs div 32 + 1]"

lemma partial_words_Nil: "partial_words [] = [0]"
  by (simp add: partial_words_def bits_word_def)

lemma bit_chunk:
  "bit (bits_word (take 32 (drop (32 * j) bs))) i \<longleftrightarrow>
     i < 32 \<and> 32 * j + i < length bs \<and> bs ! (32 * j + i)"
  by (auto simp: bit_bits_word less_diff_conv add.commute)

lemma nth_partial_words:
  "j \<le> length bs div 32 \<Longrightarrow> partial_words bs ! j = bits_word (take 32 (drop (32 * j) bs))"
  by (simp add: partial_words_def del: upt_Suc)

lemma nth_bits_to_words:
  "j < (length bs + 31) div 32 \<Longrightarrow> bits_to_words bs ! j = bits_word (take 32 (drop (32 * j) bs))"
  by (simp add: bits_to_words_def)

lemma length_partial_words [simp]: "length (partial_words bs) = length bs div 32 + 1"
  by (simp add: partial_words_def)

lemma chunk_snoc_old:
  assumes "j < length bs div 32"
  shows "bits_word (take 32 (drop (32 * j) (bs @ [b]))) = bits_word (take 32 (drop (32 * j) bs))"
proof (rule bit_word_eqI)
  fix i
  have "32 * j + 32 \<le> length bs" using assms by linarith
  then show "bit (bits_word (take 32 (drop (32 * j) (bs @ [b])))) i =
     bit (bits_word (take 32 (drop (32 * j) bs))) i"
    unfolding bit_chunk by (auto simp: nth_append)
qed

lemma chunk_snoc_new:
  fixes bs :: "bool list"
  assumes i: "i = length bs div 32"
  shows "bits_word (take 32 (drop (32 * i) bs)) OR push_bit (length bs mod 32) (of_bool b) =
     bits_word (take 32 (drop (32 * i) (bs @ [b])))"
proof (rule bit_word_eqI)
  fix m assume m: "m < LENGTH(32)"
  have l: "length bs = 32 * i + length bs mod 32" using i by simp
  have "bit (push_bit (length bs mod 32) (of_bool b :: u32)) m \<longleftrightarrow> m = length bs mod 32 \<and> b"
    using m by (auto simp: bit_simps)
  then show "bit (bits_word (take 32 (drop (32 * i) bs)) OR push_bit (length bs mod 32) (of_bool b)) m =
     bit (bits_word (take 32 (drop (32 * i) (bs @ [b])))) m"
    unfolding bit_or_iff bit_chunk using l m by (auto simp: nth_append)
qed

lemma partial_words_snoc:
  assumes "i = length bs div 32"
  shows "(partial_words bs)[i := rd (partial_words bs) i OR push_bit (length bs mod 32) (of_bool b)] =
     bits_to_words (bs @ [b])"
    (is "?l = ?r")
proof (rule nth_equalityI)
  have l: "(length bs + 1 + 31) div 32 = length bs div 32 + 1" by simp
  then show "length ?l = length ?r" by simp
  fix j assume "j < length ?l"
  then have j: "j \<le> length bs div 32" by simp
  show "?l ! j = ?r ! j"
  proof (cases "j = i")
    case True
    with assms show ?thesis
      using chunk_snoc_new [OF assms, of b]
      by (simp add: rd_def nth_partial_words nth_bits_to_words)
  next
    case False
    with j assms have "j < length bs div 32" by simp
    with False show ?thesis
      by (simp add: nth_partial_words nth_bits_to_words chunk_snoc_old)
  qed
qed

lemma partial_words_next:
  "partial_words (bs @ [b]) =
     (if 32 \<le> length bs mod 32 + 1 then bits_to_words (bs @ [b]) @ [0] else bits_to_words (bs @ [b]))"
proof (cases "32 \<le> length bs mod 32 + 1")
  case True
  from div_mod_32_step(2) [OF this]
  have d: "Suc (length bs) div 32 = length bs div 32 + 1" and m: "Suc (length bs) mod 32 = 0" by auto
  have "32 * (Suc (length bs) div 32) = Suc (length bs)"
    using m mult_div_mod_eq [of 32 "Suc (length bs)"] by linarith
  moreover have "(32 + length bs) div 32 = Suc (length bs div 32)" by simp
  ultimately show ?thesis
    using True d by (simp add: partial_words_def bits_to_words_def bits_word_def)
next
  case False
  have "(32 + length bs) div 32 = Suc (length bs div 32)" by simp
  with False div_mod_32_step(1) [OF False] show ?thesis
    by (simp add: partial_words_def bits_to_words_def)
qed

text \<open>
  The laws of one bit are all that the stream functions need. They are stated for the states
  that satisfy a condition \<open>inv\<close>, so that they also fit drivers with a state of their own.
  A stream of at most 32 bits does not depend on the host's shifts.
\<close>

locale bit_cable =
  fixes h :: host
    and cb :: "'c jtag_cable"
    and dev :: "'c \<Rightarrow> 'd"
    and dstep :: "pin \<Rightarrow> 'd \<Rightarrow> 'd"
    and dtdo :: "'d \<Rightarrow> bool"
    and inv :: "'c \<Rightarrow> bool"
  assumes write_bit: "inv c \<Longrightarrow> fst (bit_out_func cb p c) = APP_ERR_NONE \<and> inv (snd (bit_out_func cb p c)) \<and>
       dev (snd (bit_out_func cb p c)) = dstep (packet_pin p) (dev c)"
    and read_write_bit: "inv c \<Longrightarrow> fst (bit_inout_func cb p c) = (APP_ERR_NONE, of_bool (dtdo (dev c))) \<and>
       inv (snd (bit_inout_func cb p c)) \<and>
       dev (snd (bit_inout_func cb p c)) = dstep (packet_pin p) (dev c)"

lemma c_shr_in_word:
  assumes "masks_shifts h \<or> m < 32"
  shows "c_shr h x (int m) = drop_bit (m mod 32) x"
proof -
  have "nat (int m mod 32) = m mod 32"
    by (metis nat_int of_nat_mod of_nat_numeral)
  with assms show ?thesis
    by (cases "m < 32") (auto simp: c_shr_masked)
qed

context bit_cable
begin

lemma write_loop:
  assumes "inv c" and "c' = snd (write_stream_loop cb st n (k div 32) (k mod 32) err c)"
  shows "write_stream_loop cb st n (k div 32) (k mod 32) err c = ((err, (k + n) div 32), c') \<and> inv c' \<and>
   dev c' = fold dstep (map (\<lambda>j. Pin False (stream_bit st j) False) [k..<k + n]) (dev c)"
  using assms
proof (induction n arbitrary: k c)
  case 0
  then show ?case by simp
next
  case (Suc n)
  let ?p = "ucast (drop_bit (k mod 32) (rd st (k div 32)) AND 1)"
  obtain c1 where c1: "cable_write_bit cb ?p c = (0, c1)" and i: "inv c1"
      and d: "dev c1 = dstep (Pin False (stream_bit st k) False) (dev c)"
    using write_bit [OF Suc.prems(1), of ?p]
    by (cases "cable_write_bit cb ?p c")
       (auto simp: const_simps cable_write_bit_def packet_pin_bit stream_bit_def)
  have u: "[k..<k + Suc n] = k # [Suc k..<Suc k + n]"
    by (simp add: upt_conv_Cons)
  have step: "write_stream_loop cb st (Suc n) (k div 32) (k mod 32) err c =
     write_stream_loop cb st n (Suc k div 32) (Suc k mod 32) err c1"
    using div_mod_32_step [of k] by (simp add: Let_def c1)
  with Suc.IH [of c1 "Suc k"] Suc.prems i u d show ?case
    by simp
qed

lemma write_stream:
  assumes "inv c" "masks_shifts h \<or> m < 32"
  shows "fst (cable_common_write_stream h cb ws (int (Suc m)) l c) = APP_ERR_NONE"
    and "inv (snd (cable_common_write_stream h cb ws (int (Suc m)) l c))"
    and "dev (snd (cable_common_write_stream h cb ws (int (Suc m)) l c)) =
      fold dstep (stream_pins ws (Suc m) l) (dev c)"
proof -
  obtain c1 where w: "write_stream_loop cb ws m 0 0 APP_ERR_NONE c = ((APP_ERR_NONE, m div 32), c1)"
    and i: "inv c1"
    and d: "dev c1 = fold dstep (map (\<lambda>j. Pin False (stream_bit ws j) False) [0..<m]) (dev c)"
    using write_loop [OF assms(1) refl, of ws m 0 APP_ERR_NONE]
    by (metis add_0 div_0 mod_0)
  show "fst (cable_common_write_stream h cb ws (int (Suc m)) l c) = APP_ERR_NONE"
    "inv (snd (cable_common_write_stream h cb ws (int (Suc m)) l c))"
    "dev (snd (cable_common_write_stream h cb ws (int (Suc m)) l c)) =
      fold dstep (stream_pins ws (Suc m) l) (dev c)"
    using write_bit [OF i] c_shr_in_word [OF assms(2)]
    by (auto simp: cable_common_write_stream_def cable_write_bit_def Let_def split_beta w
        packet_pin_bit packet_pin_bit_TMS stream_pins_split d stream_bit_def)
qed

lemma read_loop:
  assumes "inv c" and "c' = snd (read_stream_loop cb st n (partial_words bs) (k div 32) (k mod 32) err c)"
    and "k = length bs"
    and "ps = map (\<lambda>j. Pin False (stream_bit st j) False) [k..<k + n]"
  shows "read_stream_loop cb st n (partial_words bs) (k div 32) (k mod 32) err c =
      ((err, partial_words (bs @ tdo_run dstep dtdo ps (dev c)), (k + n) div 32, (k + n) mod 32), c') \<and>
    inv c' \<and> dev c' = fold dstep ps (dev c)"
  using assms
proof (induction n arbitrary: k c bs ps)
  case 0
  then show ?case by simp
next
  case (Suc n)
  let ?p = "ucast (drop_bit (k mod 32) (rd st (k div 32)) AND 1)"
  let ?t = "dtdo (dev c)"
  obtain c1 where c1: "cable_read_write_bit cb ?p c = ((APP_ERR_NONE, of_bool ?t), c1)" and i: "inv c1"
      and d: "dev c1 = dstep (Pin False (stream_bit st k) False) (dev c)"
    using read_write_bit [OF Suc.prems(1), of ?p]
    by (cases "cable_read_write_bit cb ?p c")
       (auto simp: cable_read_write_bit_def packet_pin_bit stream_bit_def)
  have ps: "ps = Pin False (stream_bit st k) False #
      map (\<lambda>j. Pin False (stream_bit st j) False) [Suc k..<Suc k + n]"
    using Suc.prems(4) by (simp add: upt_conv_Cons del: upt_Suc)
  have b: "ucast (of_bool ?t :: u8) = (of_bool ?t :: u32)" by (simp add: of_bool_def)
  have step: "read_stream_loop cb st (Suc n) (partial_words bs) (k div 32) (k mod 32) err c =
     read_stream_loop cb st n (partial_words (bs @ [?t])) (Suc k div 32) (Suc k mod 32) err c1"
    using div_mod_32_step [of k] partial_words_snoc [OF refl, of bs ?t, folded Suc.prems(3)]
      partial_words_next [of bs ?t, folded Suc.prems(3)]
    by (simp add: Let_def c1 b)
  from Suc.prems(2) have "c' = snd (read_stream_loop cb st n (partial_words (bs @ [?t]))
      (Suc k div 32) (Suc k mod 32) err c1)"
    unfolding step .
  from Suc.IH [OF i this _ refl] Suc.prems(3) show ?case
    unfolding step ps by (simp add: d)
qed

lemma read_stream:
  fixes m :: nat
  defines "ps \<equiv> \<lambda>ws l. stream_pins ws (Suc m) l"
  assumes "inv c" "masks_shifts h \<or> m < 32"
  shows "fst (cable_common_read_stream h cb ws (int (Suc m)) l c) =
      (APP_ERR_NONE, bits_to_words (tdo_run dstep dtdo (ps ws l) (dev c)))"
    and "inv (snd (cable_common_read_stream h cb ws (int (Suc m)) l c))"
    and "dev (snd (cable_common_read_stream h cb ws (int (Suc m)) l c)) = fold dstep (ps ws l) (dev c)"
proof -
  let ?qs = "map (\<lambda>j. Pin False (stream_bit ws j) False) [0..<m]"
  let ?bs = "tdo_run dstep dtdo ?qs (dev c)"
  obtain c1 where w: "read_stream_loop cb ws m [0] 0 0 APP_ERR_NONE c =
      ((APP_ERR_NONE, partial_words ?bs, m div 32, m mod 32), c1)"
    and i: "inv c1" and d: "dev c1 = fold dstep ?qs (dev c)"
    using read_loop [where k = 0 and bs = "[]" and ps = ?qs and n = m and st = ws
        and err = APP_ERR_NONE, OF assms(2) refl]
    by (auto simp: partial_words_Nil)
  have b: "ucast (of_bool t :: u8) = (of_bool t :: u32)" for t by (simp add: of_bool_def)
  note bit = read_write_bit [OF i] c_shr_in_word [OF assms(3)]
  show "fst (cable_common_read_stream h cb ws (int (Suc m)) l c) =
      (APP_ERR_NONE, bits_to_words (tdo_run dstep dtdo (ps ws l) (dev c)))"
    using partial_words_snoc [of "m div 32" ?bs "dtdo (dev c1)"] bit
    by (simp add: cable_common_read_stream_def cable_read_write_bit_def Let_def split_beta w
        stream_pins_split tdo_run_append d b ps_def)
  show "inv (snd (cable_common_read_stream h cb ws (int (Suc m)) l c))"
    "dev (snd (cable_common_read_stream h cb ws (int (Suc m)) l c)) = fold dstep (ps ws l) (dev c)"
    using bit
    by (auto simp: cable_common_read_stream_def cable_read_write_bit_def Let_def split_beta w
        packet_pin_bit packet_pin_bit_TMS stream_pins_split d stream_bit_def ps_def)
qed

lemma write_loop_ok: "inv c \<Longrightarrow> fst (fst (write_stream_loop cb st n i b err c)) = err \<and>
    inv (snd (write_stream_loop cb st n i b err c))"
  using write_bit by (induction n arbitrary: i b c) (simp_all add: Let_def split_beta cable_write_bit_def)

lemma read_loop_ok: "inv c \<Longrightarrow> fst (fst (read_stream_loop cb st n ins i b err c)) = err \<and>
    inv (snd (read_stream_loop cb st n ins i b err c))"
  using read_write_bit
  by (induction n arbitrary: ins i b c) (simp_all add: Let_def split_beta cable_read_write_bit_def)

lemma stream_ok:
  assumes "inv c"
  shows "fst (cable_common_write_stream h cb ws n l c) = APP_ERR_NONE"
    and "fst (fst (cable_common_read_stream h cb ws n l c)) = APP_ERR_NONE"
  using write_loop_ok [OF assms] read_loop_ok [OF assms] write_bit read_write_bit
  by (simp_all add: cable_common_write_stream_def cable_common_read_stream_def Let_def split_beta
      cable_write_bit_def cable_read_write_bit_def)

end

text \<open>A bit-bang driver keeps the laws of one bit in every state, so it is a cable.\<close>

sublocale bitbang_driver \<subseteq> bit_cable h cb dev dstep dtdo "\<lambda>_. True"
  by unfold_locales
    (simp_all add: funcs cable_common_write_bit_def cable_common_read_write_bit_def Let_def split_beta
      out_rise [OF packet_data_low] inout_rise [OF packet_data_low] inout_tdo [OF packet_data_low]
      packet_data_pin out_ok inout_ok prod_eq_iff)

sublocale bitbang_driver \<subseteq> reliable_cable cb dev dstep dtdo
proof unfold_locales
  fix p c
  show "dev (snd (bit_out_func cb p c)) = dstep (packet_pin p) (dev c)"
    "dev (snd (bit_inout_func cb p c)) = dstep (packet_pin p) (dev c)"
    "snd (fst (bit_inout_func cb p c)) = of_bool (dtdo (dev c))"
    "fst (bit_out_func cb p c) = APP_ERR_NONE"
    "fst (fst (bit_inout_func cb p c)) = APP_ERR_NONE"
    using write_bit [of p c] read_write_bit [of p c] by simp_all
next
  fix n :: nat and ws l c
  assume "0 < n"
  then obtain m where n: "n = Suc m" by (cases n) auto
  show "dev (snd (stream_out_func cb ws (int n) l c)) = fold dstep (stream_pins ws n l) (dev c)"
    "dev (snd (stream_inout_func cb ws (int n) l c)) = fold dstep (stream_pins ws n l) (dev c)"
    "snd (fst (stream_inout_func cb ws (int n) l c)) =
       bits_to_words (tdo_run dstep dtdo (stream_pins ws n l) (dev c))"
    unfolding n funcs using write_stream [OF TrueI disjI1 [OF shifts]] read_stream [OF TrueI disjI1 [OF shifts]]
    by simp_all
qed (simp_all add: funcs stream_ok)

end
