(* ===== verification/Chain_Commands.thy ===== *)
theory Chain_Commands
  imports Cable_Common
begin

text \<open>
  Mid-level JTAG transactions (\<^verbatim>\<open>chain_commands.c\<close>): configuration of the scan chain, the
  operations on the TAP, the streams with their adjustment for the other devices of the
  chain, the enumeration of the chain, and the retry counter. \<open>chain\<close> holds the globals of
  \<^verbatim>\<open>chain_commands.c\<close>, \<^verbatim>\<open>adv_dbg_commands.c\<close> and \<^verbatim>\<open>legacy_dbg_commands.c\<close> and the
  state of the cable in use. Waiting (\<open>usleep\<close>) and the messages on the terminal are left out.
\<close>

section \<open>State\<close>

record jtag_conf =
  global_IR_size :: int
  global_IR_prefix_bits :: int
  global_IR_postfix_bits :: int
  global_DR_prefix_bits :: int
  global_DR_postfix_bits :: int
  global_jtag_cmd_debug :: u32
  global_altera_virtual_jtag :: bool
  vjtag_cmd_vir :: u32
  vjtag_cmd_vdr :: u32
  global_xilinx_bscan :: bool

record 'c chain =
  conf :: jtag_conf
  current_chain :: int
  desired_chain :: int
  soft_retry_no :: nat
  ir_chain_allocated :: bool
  current_reg_idx :: "int \<Rightarrow> int"
  input_scratchpad_size :: int
  output_scratchpad_size :: int
  legacy_crc_r :: u32
  legacy_crc_w :: u32
  cable :: 'c

definition ALTERA_CYCLONE_CMD_VIR :: u32 where [const_simps]: "ALTERA_CYCLONE_CMD_VIR = 0x0E"
definition ALTERA_CYCLONE_CMD_VDR :: u32 where [const_simps]: "ALTERA_CYCLONE_CMD_VDR = 0x0C"
definition ALT_VJTAG_IR_SIZE :: nat where [const_simps]: "ALT_VJTAG_IR_SIZE = 4"
definition ALT_VJTAG_CMD_DEBUG :: u32 where [const_simps]: "ALT_VJTAG_CMD_DEBUG = 0x8"
definition DBG_MAX_MODULES :: nat where [const_simps]: "DBG_MAX_MODULES = 4"
definition NUM_SOFT_RETRIES :: nat where [const_simps]: "NUM_SOFT_RETRIES = 0"

text \<open>The initial values of the globals; \<open>current_reg_idx\<close> is a zeroed static array.\<close>

definition init_conf :: jtag_conf where
  "init_conf = \<lparr>global_IR_size = 0, global_IR_prefix_bits = 0, global_IR_postfix_bits = 0,
     global_DR_prefix_bits = 0, global_DR_postfix_bits = 0, global_jtag_cmd_debug = 0,
     global_altera_virtual_jtag = False, vjtag_cmd_vir = ALTERA_CYCLONE_CMD_VIR,
     vjtag_cmd_vdr = ALTERA_CYCLONE_CMD_VDR, global_xilinx_bscan = False\<rparr>"

definition init_chain :: "'c \<Rightarrow> 'c chain" where
  "init_chain c = \<lparr>conf = init_conf, current_chain = -1, desired_chain = -1, soft_retry_no = 0,
     ir_chain_allocated = False, current_reg_idx = \<lambda>_. 0, input_scratchpad_size = 0,
     output_scratchpad_size = 0, legacy_crc_r = 0, legacy_crc_w = 0, cable = c\<rparr>"

section \<open>Configuration\<close>

definition config_set_IR_size :: "int \<Rightarrow> 'c chain \<Rightarrow> 'c chain" where
  "config_set_IR_size sz s = s\<lparr>conf := (conf s)\<lparr>global_IR_size := sz\<rparr>\<rparr>"

definition config_set_IR_prefix_bits :: "int \<Rightarrow> 'c chain \<Rightarrow> 'c chain" where
  "config_set_IR_prefix_bits bits s = s\<lparr>conf := (conf s)\<lparr>global_IR_prefix_bits := bits\<rparr>\<rparr>"

definition config_set_IR_postfix_bits :: "int \<Rightarrow> 'c chain \<Rightarrow> 'c chain" where
  "config_set_IR_postfix_bits bits s = s\<lparr>conf := (conf s)\<lparr>global_IR_postfix_bits := bits\<rparr>\<rparr>"

definition config_set_DR_prefix_bits :: "int \<Rightarrow> 'c chain \<Rightarrow> 'c chain" where
  "config_set_DR_prefix_bits bits s = s\<lparr>conf := (conf s)\<lparr>global_DR_prefix_bits := bits\<rparr>\<rparr>"

definition config_set_DR_postfix_bits :: "int \<Rightarrow> 'c chain \<Rightarrow> 'c chain" where
  "config_set_DR_postfix_bits bits s = s\<lparr>conf := (conf s)\<lparr>global_DR_postfix_bits := bits\<rparr>\<rparr>"

definition config_set_debug_cmd :: "u32 \<Rightarrow> 'c chain \<Rightarrow> 'c chain" where
  "config_set_debug_cmd cmd s = s\<lparr>conf := (conf s)\<lparr>global_jtag_cmd_debug := cmd\<rparr>\<rparr>"

definition config_set_alt_vjtag :: "u8 \<Rightarrow> 'c chain \<Rightarrow> 'c chain" where
  "config_set_alt_vjtag enable s = s\<lparr>conf := (conf s)\<lparr>global_altera_virtual_jtag := enable \<noteq> 0\<rparr>\<rparr>"

definition config_set_vjtag_cmd_vir :: "u32 \<Rightarrow> 'c chain \<Rightarrow> 'c chain" where
  "config_set_vjtag_cmd_vir cmd s = s\<lparr>conf := (conf s)\<lparr>vjtag_cmd_vir := cmd\<rparr>\<rparr>"

definition config_set_vjtag_cmd_vdr :: "u32 \<Rightarrow> 'c chain \<Rightarrow> 'c chain" where
  "config_set_vjtag_cmd_vdr cmd s = s\<lparr>conf := (conf s)\<lparr>vjtag_cmd_vdr := cmd\<rparr>\<rparr>"

definition config_set_xilinx_bscan :: "u8 \<Rightarrow> 'c chain \<Rightarrow> 'c chain" where
  "config_set_xilinx_bscan enable s = s\<lparr>conf := (conf s)\<lparr>global_xilinx_bscan := enable \<noteq> 0\<rparr>\<rparr>"

section \<open>Bits and streams\<close>

definition on_cable :: "('c \<Rightarrow> 'r \<times> 'c) \<Rightarrow> 'c chain \<Rightarrow> 'r \<times> 'c chain" where
  "on_cable f s = (let (r, c) = f (cable s) in (r, s\<lparr>cable := c\<rparr>))"

definition jtag_write_bit :: "'c jtag_cable \<Rightarrow> u8 \<Rightarrow> 'c chain act" where
  "jtag_write_bit cb packet = on_cable (cable_write_bit cb packet)"

definition jtag_read_write_bit :: "'c jtag_cable \<Rightarrow> u8 \<Rightarrow> 'c chain \<Rightarrow> (u32 \<times> u8) \<times> 'c chain" where
  "jtag_read_write_bit cb packet = on_cable (cable_read_write_bit cb packet)"

text \<open>The bits that take written data past the other devices: \<open>prefix - 1\<close> bits and TMS.\<close>

definition prefix_bits :: "'c jtag_cable \<Rightarrow> int \<Rightarrow> 'c chain act list" where
  "prefix_bits cb n = replicate (nat (n - 1)) (jtag_write_bit cb 0) @ [jtag_write_bit cb TMS]"

definition jtag_write_stream :: "'c jtag_cable \<Rightarrow> u32 list \<Rightarrow> int \<Rightarrow> bool \<Rightarrow> 'c chain act" where
  "jtag_write_stream cb out_data length_bits set_TMS s =
     (if \<not> set_TMS then on_cable (cable_write_stream cb out_data length_bits False) s
      else if global_DR_prefix_bits (conf s) = 0
      then on_cable (cable_write_stream cb out_data length_bits True) s
      else err_seq (on_cable (cable_write_stream cb out_data length_bits False)
             # prefix_bits cb (global_DR_prefix_bits (conf s))) s)"

definition jtag_read_write_stream :: "'c jtag_cable \<Rightarrow> u32 list \<Rightarrow> int \<Rightarrow> bool \<Rightarrow> bool \<Rightarrow> 'c chain
    \<Rightarrow> (u32 \<times> u32 list) \<times> 'c chain" where
  "jtag_read_write_stream cb out_data length_bits adjust set_TMS s =
     (let (e1, s1) = (if adjust \<and> 0 < global_DR_postfix_bits (conf s)
            then err_seq (replicate (nat (global_DR_postfix_bits (conf s)))
                   (on_cable (cable_write_bit cb 0))) s
            else (APP_ERR_NONE, s))
      in if \<not> set_TMS
         then let ((e2, d), s2) =
                    on_cable (cable_read_write_stream cb out_data length_bits False) s1
              in ((e1 OR e2, d), s2)
         else if global_DR_prefix_bits (conf s) = 0
         then let ((e2, d), s2) =
                    on_cable (cable_read_write_stream cb out_data length_bits True) s1
              in ((e1 OR e2, d), s2)
         else let ((e2, d), s2) =
                    on_cable (cable_read_write_stream cb out_data length_bits False) s1;
                  (e3, s3) = err_seq (prefix_bits cb (global_DR_prefix_bits (conf s))) s2
              in ((e1 OR e2 OR e3, d), s3))"

section \<open>Operations on the TAP\<close>

definition tap_reset :: "'c jtag_cable \<Rightarrow> 'c chain act" where
  "tap_reset cb s =
     (let (err, s) = err_seq ([jtag_write_bit cb 0] @ replicate 8 (jtag_write_bit cb TMS)
            @ [jtag_write_bit cb TRST, jtag_write_bit cb 0]) s
      in (err, s\<lparr>current_chain := -1,
             current_reg_idx := \<lambda>i. if 0 \<le> i \<and> i < int DBG_MAX_MODULES then -1
               else current_reg_idx s i\<rparr>))"

text \<open>
  The words \<open>tap_set_ir\<close> shifts out: the command \<open>ir\<close> above the postfix bits, ones
  (BYPASS) everywhere else.
\<close>

definition ir_chain_fill :: "host \<Rightarrow> u32 \<Rightarrow> int \<Rightarrow> nat \<Rightarrow> int \<Rightarrow> u32 list \<Rightarrow> u32 list" where
  "ir_chain_fill h ir ir_size startoffset startshift ir_chain =
     (let o0 = startoffset;
          ir_chain = ir_chain[o0 := rd ir_chain o0 AND c_shl h ir startshift];
          ir_chain = ir_chain[o0 := rd ir_chain o0 OR NOT (c_shl h 0xFFFFFFFF startshift)];
          ir_chain = ir_chain[o0 := rd ir_chain o0 OR c_shl h 0xFFFFFFFF (startshift + ir_size)]
      in if startshift + ir_size > 32
         then let ir_chain = ir_chain[o0 + 1 := rd ir_chain (o0 + 1) AND c_sar h ir (32 - startshift)]
              in ir_chain[o0 + 1 := rd ir_chain (o0 + 1)
                   OR c_shl h 0xFFFFFFFF (ir_size - (32 - startshift))]
         else ir_chain)"

definition ir_chain_words :: "host \<Rightarrow> jtag_conf \<Rightarrow> u32 \<Rightarrow> u32 list" where
  "ir_chain_words h cf ir =
     (let chain_size = global_IR_size cf + global_IR_prefix_bits cf + global_IR_postfix_bits cf;
          chain_size_words = c_div chain_size 32 + 1;
          startoffset = c_div (global_IR_postfix_bits cf) 32;
          startshift = global_IR_postfix_bits cf - startoffset * 32
      in ir_chain_fill h ir (global_IR_size cf) (nat startoffset) startshift
           (replicate (nat chain_size_words) 0xFFFFFFFF))"

definition tap_set_ir :: "host \<Rightarrow> 'c jtag_cable \<Rightarrow> u32 \<Rightarrow> 'c chain act" where
  "tap_set_ir h cb ir s =
     (let cf = conf s;
          chain_size = global_IR_size cf + global_IR_prefix_bits cf + global_IR_postfix_bits cf;
          chain_size_words = c_div chain_size 32 + 1
      in if \<not> ir_chain_allocated s \<and> \<not> malloc_ok h (chain_size_words * 4)
         then (APP_ERR_MALLOC, s)
         else let (err, s) = err_seq
                    [jtag_write_bit cb TMS,
                     jtag_write_bit cb TMS,
                     jtag_write_bit cb 0,
                     jtag_write_bit cb 0,
                     on_cable (cable_write_stream cb (ir_chain_words h cf ir) chain_size True),
                     jtag_write_bit cb TMS,
                     jtag_write_bit cb 0] (s\<lparr>ir_chain_allocated := True\<rparr>)
              in (err, s\<lparr>current_chain := -1\<rparr>))"

definition tap_set_shift_dr :: "'c jtag_cable \<Rightarrow> 'c chain act" where
  "tap_set_shift_dr cb =
     err_seq [jtag_write_bit cb TMS, jtag_write_bit cb 0, jtag_write_bit cb 0]"

definition tap_exit_to_idle :: "'c jtag_cable \<Rightarrow> 'c chain act" where
  "tap_exit_to_idle cb = err_seq [jtag_write_bit cb TMS, jtag_write_bit cb 0]"

definition tap_enable_debug_module :: "host \<Rightarrow> 'c jtag_cable \<Rightarrow> 'c chain act" where
  "tap_enable_debug_module h cb s =
     (if global_altera_virtual_jtag (conf s)
      then err_seq
        [tap_set_ir h cb (vjtag_cmd_vir (conf s)),
         jtag_write_bit cb TMS,
         jtag_write_bit cb 0,
         jtag_write_bit cb 0,
         jtag_write_stream cb [push_bit ALT_VJTAG_IR_SIZE 0x1 OR ALT_VJTAG_CMD_DEBUG]
           (int ALT_VJTAG_IR_SIZE + 1) True,
         jtag_write_bit cb TMS,
         jtag_write_bit cb 0,
         tap_set_ir h cb (vjtag_cmd_vdr (conf s))] s
      else tap_set_ir h cb (global_jtag_cmd_debug (conf s)) s)"

section \<open>Enumeration of the chain\<close>

definition ALLOC_SIZE :: nat where [const_simps]: "ALLOC_SIZE = 64"
definition MAX_DEVICES :: nat where [const_simps]: "MAX_DEVICES = 1024"

text \<open>The locals of \<open>jtag_enumerate_chain\<close>. The array \<open>idcodes\<close> is the list of its first
  \<open>devindex\<close> entries; \<open>idcode_size\<close> is the element size the two \<open>realloc\<close> calls use.\<close>

record enum_locals =
  invalid_code :: u32
  devindex :: nat
  idcodes :: "u32 list"
  reallocs :: nat
  enum_err :: u32

datatype enum_step = Next_Device enum_locals | Chain_End enum_locals | Enum_Fail u32

text \<open>Append one entry, doubling the allocation first when the array is full.\<close>

definition store_idcode :: "host \<Rightarrow> nat \<Rightarrow> u32 \<Rightarrow> enum_locals \<Rightarrow> enum_locals option" where
  "store_idcode h elem_size code l =
     (let full = ALLOC_SIZE * 2 ^ reallocs l \<le> devindex l;
          r = (if full then reallocs l + 1 else reallocs l)
      in if full \<and> \<not> malloc_ok h (int (ALLOC_SIZE * 2 ^ r * elem_size)) then None
         else Some (l\<lparr>reallocs := r, idcodes := idcodes l @ [code], devindex := devindex l + 1\<rparr>))"

text \<open>One pass of the loop: the start bit, then for an IDCODE register the manufacturer code
  and the rest.\<close>

definition enum_device :: "host \<Rightarrow> 'c jtag_cable \<Rightarrow> enum_locals \<Rightarrow> 'c chain
    \<Rightarrow> enum_step \<times> 'c chain" where
  "enum_device h cb l s =
     (let done_code = 0x3f;
          ((e, start_bit), s) = jtag_read_write_bit cb (ucast (invalid_code l AND 0x01)) s;
          l = l\<lparr>enum_err := enum_err l OR e, invalid_code := drop_bit 1 (invalid_code l)\<rparr>
      in if start_bit = 0
         then (case store_idcode h 4 (-1) l of
                 None \<Rightarrow> (Enum_Fail APP_ERR_MALLOC, s)
               | Some l \<Rightarrow> (if enum_err l \<noteq> 0 then Enum_Fail (enum_err l) else Next_Device l, s))
         else let ((e, manuf), s) = jtag_read_write_stream cb [invalid_code l] 11 False False s;
                  temp_manuf_code = rd manuf 0;
                  l = l\<lparr>enum_err := enum_err l OR e, invalid_code := drop_bit 11 (invalid_code l)\<rparr>
              in if temp_manuf_code \<noteq> done_code
                 then let ((e, rest), s) = jtag_read_write_stream cb [invalid_code l] 20 False False s;
                          temp_rest_code = rd rest 0;
                          l = l\<lparr>enum_err := enum_err l OR e,
                                invalid_code := drop_bit 20 (invalid_code l)\<rparr>;
                          tempID = push_bit 12 temp_rest_code OR push_bit 1 temp_manuf_code OR 0x01
                      in (case store_idcode h (sizeof_ulong h) tempID l of
                            None \<Rightarrow> (Enum_Fail APP_ERR_MALLOC, s)
                          | Some l \<Rightarrow>
                              (if enum_err l \<noteq> 0 then Enum_Fail (enum_err l) else Next_Device l, s))
                 else (Chain_End l, s))"

text \<open>A pass that goes on has found one device more, so the loop ends after at most
  \<open>MAX_DEVICES\<close> passes.\<close>

lemma store_idcode_devindex: "store_idcode h z code l = Some l' \<Longrightarrow> devindex l' = devindex l + 1"
  by (auto simp: store_idcode_def Let_def split: if_splits)

lemma enum_device_devindex:
  "enum_device h cb l s = (Next_Device l', s') \<Longrightarrow> devindex l' = devindex l + 1"
  by (auto simp: enum_device_def Let_def split_beta dest!: store_idcode_devindex
      split: option.splits if_splits)

function enum_loop :: "host \<Rightarrow> 'c jtag_cable \<Rightarrow> enum_locals \<Rightarrow> 'c chain \<Rightarrow> enum_step \<times> 'c chain" where
  "enum_loop h cb l s =
     (if devindex l < MAX_DEVICES
      then (case enum_device h cb l s of
              (Next_Device l', s') \<Rightarrow> enum_loop h cb l' s'
            | r \<Rightarrow> r)
      else (Chain_End l, s))"
  by pat_completeness auto
termination
  by (relation "measure (\<lambda>(h, cb, l, s). MAX_DEVICES - devindex l)")
     (auto dest!: enum_device_devindex [OF sym])

declare enum_loop.simps [simp del]

text \<open>The result is the error code and, where the function stores them, the ID codes.\<close>

definition jtag_enumerate_chain ::
    "host \<Rightarrow> 'c jtag_cable \<Rightarrow> 'c chain \<Rightarrow> (u32 \<times> u32 list option) \<times> 'c chain" where
  "jtag_enumerate_chain h cb s =
     (if \<not> malloc_ok h (int (ALLOC_SIZE * 4)) then ((APP_ERR_MALLOC, None), s)
      else let (e, s) = err_seq [jtag_write_bit cb TMS, jtag_write_bit cb 0, jtag_write_bit cb 0] s;
               l = \<lparr>invalid_code = 0x7f, devindex = 0, idcodes = [], reallocs = 0, enum_err = e\<rparr>
           in (case enum_loop h cb l s of
                 (Enum_Fail err, s) \<Rightarrow> ((err, None), s)
               | (Next_Device l, s) \<Rightarrow> ((enum_err l, None), s)
               | (Chain_End l, s) \<Rightarrow>
                   let (e, s) = err_seq [jtag_write_bit cb TMS, jtag_write_bit cb TMS,
                         jtag_write_bit cb 0] s
                   in ((enum_err l OR e, Some (idcodes l)), s)))"

definition jtag_get_idcode :: "host \<Rightarrow> 'c jtag_cable \<Rightarrow> u32 \<Rightarrow> 'c chain
    \<Rightarrow> (u32 \<times> u32) \<times> 'c chain" where
  "jtag_get_idcode h cb cmd s =
     (let saveconfig = global_altera_virtual_jtag (conf s);
          s = s\<lparr>conf := (conf s)\<lparr>global_altera_virtual_jtag := False\<rparr>\<rparr>;
          (e1, s) = tap_set_ir h cb cmd s;
          (e2, s) = tap_set_shift_dr cb s;
          ((e3, idcode), s) = jtag_read_write_stream cb [0] 32 True True s;
          (e4, s) = err_seq [jtag_write_bit cb TMS, jtag_write_bit cb 0] s
      in ((e1 OR e2 OR e3 OR e4, rd idcode 0),
          s\<lparr>conf := (conf s)\<lparr>global_altera_virtual_jtag := saveconfig\<rparr>\<rparr>))"

section \<open>Retries\<close>

text \<open>\<open>soft_retry_no\<close> starts at 0 and is only counted up or set to 0, so it is a natural
  number. The result says whether to try again.\<close>

definition retry_do :: "host \<Rightarrow> 'c jtag_cable \<Rightarrow> 'c chain \<Rightarrow> bool \<times> 'c chain" where
  "retry_do h cb s =
     (if NUM_SOFT_RETRIES \<le> soft_retry_no s then (False, s)
      else let (err, s) = tap_reset cb s
           in if err \<noteq> 0 then (False, s)
              else let (err, s) = tap_enable_debug_module h cb s
                   in if err \<noteq> 0 then (False, s)
                      else (True, s\<lparr>soft_retry_no := soft_retry_no s + 1\<rparr>))"

definition retry_ok :: "'c chain \<Rightarrow> 'c chain" where
  "retry_ok s = s\<lparr>soft_retry_no := 0\<rparr>"

lemma retry_do_never: "retry_do h cb s = (False, s)"
  by (simp add: retry_do_def const_simps)

end
