(* ===== verification/Cable_Parallel.thy ===== *)
theory Cable_Parallel
  imports Cable_Common
begin

text \<open>
  The three parallel-port drivers (\<^verbatim>\<open>cable_parallel.c\<close>). The port itself, which the
  code reaches through \<open>outb\<close>/\<open>inb\<close> or \<open>ioctl\<close>, is a parameter: a function that
  drives the data lines and one that reads the status lines. Each driver maps the bits of
  \<open>cable_common\<close> to its own lines. A port wired the way the driver expects makes each of the
  three a \<open>bitbang_driver\<close>, so all the laws of a cable hold for them.
\<close>

section \<open>The port\<close>

record 'p pport =
  port_put_data :: "u8 \<Rightarrow> 'p \<Rightarrow> 'p"
  port_get_status :: "'p \<Rightarrow> u8"

definition cable_parallel_out :: "'p pport \<Rightarrow> u8 \<Rightarrow> 'p act" where
  "cable_parallel_out port v s = (APP_ERR_NONE, port_put_data port v s)"

definition cable_parallel_inout :: "'p pport \<Rightarrow> u8 \<Rightarrow> 'p \<Rightarrow> (u32 \<times> u8) \<times> 'p" where
  "cable_parallel_inout port v s =
     (let inval = port_get_status port s in ((APP_ERR_NONE, inval), port_put_data port v s))"

text \<open>The Linux variant accepts the device file name and nothing else.\<close>

definition cable_parallel_opt :: "char \<Rightarrow> string \<Rightarrow> 'p act" where
  "cable_parallel_opt c str s = (if c = CHR ''d'' then (APP_ERR_NONE, s) else (APP_ERR_BAD_PARAM, s))"

section \<open>Line assignments\<close>

definition map_lines :: "(u8 \<times> u8) list \<Rightarrow> u8 \<Rightarrow> u8" where
  "map_lines tab v = fold (\<lambda>(b, line) out. if v AND b \<noteq> 0 then out OR line else out) tab 0"

definition xpc3_lines :: "u8 \<Rightarrow> u8" where
  "xpc3_lines = map_lines [(TCLK_BIT, 0x02), (TRST_BIT, 0x10), (TDI_BIT, 0x01), (TMS_BIT, 0x04)]"

definition bb2_lines :: "u8 \<Rightarrow> u8" where
  "bb2_lines = map_lines [(TCLK_BIT, 0x01), (TDI_BIT, 0x40), (TMS_BIT, 0x02)]"

definition xess_lines :: "u8 \<Rightarrow> u8" where
  "xess_lines = map_lines [(TCLK_BIT, 0x04), (TRST_BIT, 0x08), (TDI_BIT, 0x10), (TMS_BIT, 0x20)]"

definition cable_xpc3_out :: "'p pport \<Rightarrow> u8 \<Rightarrow> 'p act" where
  "cable_xpc3_out port v = cable_parallel_out port (xpc3_lines v)"

definition cable_xpc3_inout :: "'p pport \<Rightarrow> u8 \<Rightarrow> 'p \<Rightarrow> (u32 \<times> u8) \<times> 'p" where
  "cable_xpc3_inout port v s =
     (let ((retval, inv), s) = cable_parallel_inout port (xpc3_lines v) s
      in ((retval, if inv AND 0x10 \<noteq> 0 then 1 else 0), s))"

definition cable_bb2_out :: "'p pport \<Rightarrow> u8 \<Rightarrow> 'p act" where
  "cable_bb2_out port v = cable_parallel_out port (bb2_lines v)"

definition cable_bb2_inout :: "'p pport \<Rightarrow> u8 \<Rightarrow> 'p \<Rightarrow> (u32 \<times> u8) \<times> 'p" where
  "cable_bb2_inout port v s =
     (let ((retval, inv), s) = cable_parallel_inout port (bb2_lines v) s
      in ((retval, if inv AND 0x80 \<noteq> 0 then 0 else 1), s))"

definition cable_xess_out :: "'p pport \<Rightarrow> u8 \<Rightarrow> 'p act" where
  "cable_xess_out port v = cable_parallel_out port (xess_lines v)"

definition cable_xess_inout :: "'p pport \<Rightarrow> u8 \<Rightarrow> 'p \<Rightarrow> (u32 \<times> u8) \<times> 'p" where
  "cable_xess_inout port v s =
     (let ((retval, inv), s) = cable_parallel_inout port (xess_lines v) s
      in ((retval, if inv AND 0x20 \<noteq> 0 then 1 else 0), s))"

section \<open>The drivers\<close>

text \<open>
  The entries of a driver record refer to the common functions, and those call back through
  \<open>jtag_cable_in_use\<close>. The record is therefore built in three steps: the driver's own
  functions, then the bit functions over them, then the stream functions over those.
  \<open>bitbang_knot\<close> states that the result refers to itself as the C record does.
\<close>

definition bitbang_cable :: "host \<Rightarrow> string \<Rightarrow> (u8 \<Rightarrow> 'p \<Rightarrow> (u32 \<times> u8) \<times> 'p) \<Rightarrow> (u8 \<Rightarrow> 'p act)
    \<Rightarrow> 'p act \<Rightarrow> (char \<Rightarrow> string \<Rightarrow> 'p act) \<Rightarrow> string \<Rightarrow> string \<Rightarrow> 'p jtag_cable" where
  "bitbang_cable h nm io out ini opt opts hlp =
     (let own = \<lparr>cable_name = nm, inout_func = io, out_func = out, init_func = ini, opt_func = opt,
            bit_out_func = out, bit_inout_func = io,
            stream_out_func = \<lambda>_ _ _. ini, stream_inout_func = \<lambda>_ _ _ s. ((APP_ERR_NONE, []), s),
            flush_func = None, cable_opts = opts, cable_help = Some hlp\<rparr>;
          bits = own\<lparr>bit_out_func := cable_common_write_bit own,
                     bit_inout_func := cable_common_read_write_bit own\<rparr>
      in bits\<lparr>stream_out_func := cable_common_write_stream h bits,
              stream_inout_func := cable_common_read_stream h bits\<rparr>)"

definition parallel_help :: string where
  "parallel_help = ''-d [device file] Device file to use when communicating with the parport hardware (eg. /dev/parport0)'' @ [CHR 0x0A]"

definition xpc3_cable_driver :: "host \<Rightarrow> 'p act \<Rightarrow> 'p pport \<Rightarrow> 'p jtag_cable" where
  "xpc3_cable_driver h ini port = bitbang_cable h ''xpc3'' (cable_xpc3_inout port)
     (cable_xpc3_out port) ini cable_parallel_opt ''d:'' parallel_help"

definition bb2_cable_driver :: "host \<Rightarrow> 'p act \<Rightarrow> 'p pport \<Rightarrow> 'p jtag_cable" where
  "bb2_cable_driver h ini port = bitbang_cable h ''bb2'' (cable_bb2_inout port)
     (cable_bb2_out port) ini cable_parallel_opt ''d:'' parallel_help"

definition xess_cable_driver :: "host \<Rightarrow> 'p act \<Rightarrow> 'p pport \<Rightarrow> 'p jtag_cable" where
  "xess_cable_driver h ini port = bitbang_cable h ''xess'' (cable_xess_inout port)
     (cable_xess_out port) ini cable_parallel_opt ''d:'' parallel_help"

lemma write_loop_bits_cong:
  "bit_out_func a = bit_out_func b \<Longrightarrow> write_stream_loop a = write_stream_loop b"
proof (intro ext)
  fix st n i k e s
  assume "bit_out_func a = bit_out_func b"
  then show "write_stream_loop a st n i k e s = write_stream_loop b st n i k e s"
    by (induction n arbitrary: i k e s) (simp_all add: cable_write_bit_def Let_def split_beta)
qed

lemma read_loop_bits_cong:
  "bit_inout_func a = bit_inout_func b \<Longrightarrow> read_stream_loop a = read_stream_loop b"
proof (intro ext)
  fix st n ins i k e s
  assume "bit_inout_func a = bit_inout_func b"
  then show "read_stream_loop a st n ins i k e s = read_stream_loop b st n ins i k e s"
    by (induction n arbitrary: ins i k e s)
       (simp_all add: cable_read_write_bit_def Let_def split_beta)
qed

lemma write_stream_bits_cong:
  "bit_out_func a = bit_out_func b \<Longrightarrow> cable_common_write_stream h a = cable_common_write_stream h b"
  by (simp add: fun_eq_iff cable_common_write_stream_def cable_write_bit_def
      write_loop_bits_cong [of a b])

lemma read_stream_bits_cong:
  "bit_inout_func a = bit_inout_func b \<Longrightarrow> cable_common_read_stream h a = cable_common_read_stream h b"
  by (simp add: fun_eq_iff cable_common_read_stream_def cable_read_write_bit_def
      read_loop_bits_cong [of a b])

lemma bitbang_knot:
  fixes h nm io out ini opt opts hlp
  defines "cb \<equiv> bitbang_cable h nm io out ini opt opts hlp"
  shows "bit_out_func cb = cable_common_write_bit cb"
    and "bit_inout_func cb = cable_common_read_write_bit cb"
    and "stream_out_func cb = cable_common_write_stream h cb"
    and "stream_inout_func cb = cable_common_read_stream h cb"
    and "flush_func cb = None" and "out_func cb = out" and "inout_func cb = io"
proof -
  show "stream_out_func cb = cable_common_write_stream h cb"
    "stream_inout_func cb = cable_common_read_stream h cb"
    unfolding cb_def bitbang_cable_def Let_def
    by (simp_all, (rule write_stream_bits_cong read_stream_bits_cong, simp)+)
qed (simp_all add: cb_def bitbang_cable_def Let_def fun_eq_iff cable_common_write_bit_def
      cable_common_read_write_bit_def)

section \<open>A device on the port\<close>

text \<open>
  The port as the board wires it: data lines that keep what was last put on them, and a
  device that takes one step when its TCK line rises and shows TDO on a status line. The
  wiring says which data line carries which signal and how the status byte shows TDO; the
  XPC3 and the BB2 have no TRST wire.
\<close>

record 'd board =
  lines :: u8
  board_dev :: 'd

record wiring =
  tck_line :: nat
  tms_line :: nat
  tdi_line :: nat
  trst_line :: "nat option"
  status_of :: "bool \<Rightarrow> u8"

definition board_put :: "wiring \<Rightarrow> (pin \<Rightarrow> 'd \<Rightarrow> 'd) \<Rightarrow> u8 \<Rightarrow> 'd board \<Rightarrow> 'd board" where
  "board_put w dstep v b =
     (let trst = (case trst_line w of None \<Rightarrow> False | Some l \<Rightarrow> \<not> bit v l)
      in \<lparr>lines = v,
          board_dev = (if bit v (tck_line w) \<and> \<not> bit (lines b) (tck_line w)
            then dstep (Pin (bit v (tms_line w)) (bit v (tdi_line w)) trst) (board_dev b)
            else board_dev b)\<rparr>)"

definition board_port :: "wiring \<Rightarrow> (pin \<Rightarrow> 'd \<Rightarrow> 'd) \<Rightarrow> ('d \<Rightarrow> bool) \<Rightarrow> 'd board pport" where
  "board_port w dstep dtdo =
     \<lparr>port_put_data = board_put w dstep, port_get_status = \<lambda>b. status_of w (dtdo (board_dev b))\<rparr>"

definition no_trst :: "pin \<Rightarrow> pin" where
  "no_trst p = Pin (pin_tms p) (pin_tdi p) False"

definition xpc3_wiring :: wiring where
  "xpc3_wiring = \<lparr>tck_line = 1, tms_line = 2, tdi_line = 0, trst_line = None,
     status_of = \<lambda>t. if t then 0x10 else 0\<rparr>"

definition bb2_wiring :: wiring where
  "bb2_wiring = \<lparr>tck_line = 0, tms_line = 1, tdi_line = 6, trst_line = None,
     status_of = \<lambda>t. if t then 0 else 0x80\<rparr>"

definition xess_wiring :: wiring where
  "xess_wiring = \<lparr>tck_line = 2, tms_line = 5, tdi_line = 4, trst_line = Some 3,
     status_of = \<lambda>t. if t then 0x20 else 0\<rparr>"

lemma line_bit: "(v AND 1 \<noteq> (0 :: u8)) = bit v 0" "(v AND 2 \<noteq> (0 :: u8)) = bit v 1"
  "(v AND 4 \<noteq> (0 :: u8)) = bit v 2" "(v AND 8 \<noteq> (0 :: u8)) = bit v 3"
  using and_exp_eq_0_iff_not_bit [of v 0] and_exp_eq_0_iff_not_bit [of v 1]
    and_exp_eq_0_iff_not_bit [of v 2] and_exp_eq_0_iff_not_bit [of v 3] by simp_all

lemma xpc3_line_bits: "bit (xpc3_lines v) (Suc 0) = bit v 0" "bit (xpc3_lines v) 2 = bit v 3"
    "bit (xpc3_lines v) 0 = bit v 2" "bit (xpc3_lines v) 4 = bit v (Suc 0)"
  and bb2_line_bits: "bit (bb2_lines v) 0 = bit v 0" "bit (bb2_lines v) (Suc 0) = bit v 3"
    "bit (bb2_lines v) 6 = bit v 2"
  and xess_line_bits: "bit (xess_lines v) 2 = bit v 0" "bit (xess_lines v) 5 = bit v 3"
    "bit (xess_lines v) 4 = bit v 2" "bit (xess_lines v) 3 = bit v (Suc 0)"
  by (auto simp: xpc3_lines_def bb2_lines_def xess_lines_def map_lines_def const_simps line_bit)

lemma or_tck_bits: "bit (v OR TCLK_BIT) 0" "bit (v OR TCLK_BIT) (Suc 0) = bit v (Suc 0)"
  "bit (v OR TCLK_BIT) 2 = bit v 2" "bit (v OR TCLK_BIT) 3 = bit v 3"
  by (simp_all add: const_simps bit_or_iff bit_1_iff)

lemmas parallel_defs = cable_xpc3_out_def cable_xpc3_inout_def cable_bb2_out_def
  cable_bb2_inout_def cable_xess_out_def cable_xess_inout_def cable_parallel_out_def
  cable_parallel_inout_def board_port_def board_put_def

text \<open>Each driver, on a port wired for it, is a bit-bang driver.\<close>

lemma xpc3_bitbang:
  assumes "masks_shifts h"
  shows "bitbang_driver h (xpc3_cable_driver h ini (board_port xpc3_wiring dstep dtdo))
    board_dev (\<lambda>p. dstep (no_trst p)) dtdo"
  by unfold_locales
    (simp_all add: assms bitbang_knot xpc3_cable_driver_def parallel_defs xpc3_wiring_def
      xpc3_line_bits or_tck_bits data_pin_def no_trst_def Let_def)

lemma bb2_bitbang:
  assumes "masks_shifts h"
  shows "bitbang_driver h (bb2_cable_driver h ini (board_port bb2_wiring dstep dtdo))
    board_dev (\<lambda>p. dstep (no_trst p)) dtdo"
  by unfold_locales
    (simp_all add: assms bitbang_knot bb2_cable_driver_def parallel_defs bb2_wiring_def
      bb2_line_bits or_tck_bits data_pin_def no_trst_def Let_def)

lemma xess_bitbang:
  assumes "masks_shifts h"
  shows "bitbang_driver h (xess_cable_driver h ini (board_port xess_wiring dstep dtdo))
    board_dev dstep dtdo"
  by unfold_locales
    (simp_all add: assms bitbang_knot xess_cable_driver_def parallel_defs xess_wiring_def
      xess_line_bits or_tck_bits data_pin_def Let_def)

interpretation xpc3: bitbang_driver x86_64
    "xpc3_cable_driver x86_64 ini (board_port xpc3_wiring dstep dtdo)"
    board_dev "\<lambda>p. dstep (no_trst p)" dtdo for ini dstep dtdo
  by (rule xpc3_bitbang [OF masks_shifts_x86(2)])

interpretation bb2: bitbang_driver x86_64
    "bb2_cable_driver x86_64 ini (board_port bb2_wiring dstep dtdo)"
    board_dev "\<lambda>p. dstep (no_trst p)" dtdo for ini dstep dtdo
  by (rule bb2_bitbang [OF masks_shifts_x86(2)])

interpretation xess: bitbang_driver x86_64
    "xess_cable_driver x86_64 ini (board_port xess_wiring dstep dtdo)"
    board_dev dstep dtdo for ini dstep dtdo
  by (rule xess_bitbang [OF masks_shifts_x86(2)])

end
