(* ===== verification/Jtag_Tap.thy ===== *)
theory Jtag_Tap
  imports Chain_Commands Cable_Parallel
begin

text \<open>
  What the operations of \<^verbatim>\<open>chain_commands.c\<close> do to a JTAG device. The specification is
  the 16-state TAP controller of IEEE 1149.1 (the one \<^verbatim>\<open>tap_top.v\<close> implements) together
  with a record of what was shifted in and of every register update. The locale
  \<open>tap_device\<close> is a driver whose device follows that controller; the lemmas say for each
  operation in which TAP state it ends and what it has loaded into which register.
\<close>

section \<open>The TAP controller\<close>

datatype tap_state =
    Test_Logic_Reset | Run_Test_Idle
  | Select_DR | Capture_DR | Shift_DR | Exit1_DR | Pause_DR | Exit2_DR | Update_DR
  | Select_IR | Capture_IR | Shift_IR | Exit1_IR | Pause_IR | Exit2_IR | Update_IR

fun tap_next :: "bool \<Rightarrow> tap_state \<Rightarrow> tap_state" where
  "tap_next tms Test_Logic_Reset = (if tms then Test_Logic_Reset else Run_Test_Idle)"
| "tap_next tms Run_Test_Idle = (if tms then Select_DR else Run_Test_Idle)"
| "tap_next tms Select_DR = (if tms then Select_IR else Capture_DR)"
| "tap_next tms Capture_DR = (if tms then Exit1_DR else Shift_DR)"
| "tap_next tms Shift_DR = (if tms then Exit1_DR else Shift_DR)"
| "tap_next tms Exit1_DR = (if tms then Update_DR else Pause_DR)"
| "tap_next tms Pause_DR = (if tms then Exit2_DR else Pause_DR)"
| "tap_next tms Exit2_DR = (if tms then Update_DR else Shift_DR)"
| "tap_next tms Update_DR = (if tms then Select_DR else Run_Test_Idle)"
| "tap_next tms Select_IR = (if tms then Test_Logic_Reset else Capture_IR)"
| "tap_next tms Capture_IR = (if tms then Exit1_IR else Shift_IR)"
| "tap_next tms Shift_IR = (if tms then Exit1_IR else Shift_IR)"
| "tap_next tms Exit1_IR = (if tms then Update_IR else Pause_IR)"
| "tap_next tms Pause_IR = (if tms then Exit2_IR else Pause_IR)"
| "tap_next tms Exit2_IR = (if tms then Update_IR else Shift_IR)"
| "tap_next tms Update_IR = (if tms then Select_DR else Run_Test_Idle)"

datatype update = DR_Update "bool list" | IR_Update "bool list"

record tap_view =
  tap :: tap_state
  shifted :: "bool list"
  updates :: "update list"

text \<open>One TCK cycle: shifting and capturing happen in the current state, an update when its
  state is entered.\<close>

definition tap_step :: "pin \<Rightarrow> tap_view \<Rightarrow> tap_view" where
  "tap_step p v =
     (if pin_trst p then v\<lparr>tap := Test_Logic_Reset\<rparr>
      else let sh = (if tap v \<in> {Shift_DR, Shift_IR} then shifted v @ [pin_tdi p]
                     else if tap v \<in> {Capture_DR, Capture_IR} then [] else shifted v);
               t = tap_next (pin_tms p) (tap v);
               u = (if t = Update_DR then updates v @ [DR_Update sh]
                    else if t = Update_IR then updates v @ [IR_Update sh] else updates v)
           in \<lparr>tap = t, shifted = sh, updates = u\<rparr>)"

text \<open>Equations for the pins the operations send.\<close>

lemma tap_step_cases:
  "tap_step (Pin b t False) \<lparr>tap = Run_Test_Idle, shifted = sh, updates = u\<rparr> =
     \<lparr>tap = if b then Select_DR else Run_Test_Idle, shifted = sh, updates = u\<rparr>"
  "tap_step (Pin b t False) \<lparr>tap = Select_DR, shifted = sh, updates = u\<rparr> =
     \<lparr>tap = if b then Select_IR else Capture_DR, shifted = sh, updates = u\<rparr>"
  "tap_step (Pin b t False) \<lparr>tap = Select_IR, shifted = sh, updates = u\<rparr> =
     \<lparr>tap = if b then Test_Logic_Reset else Capture_IR, shifted = sh, updates = u\<rparr>"
  "tap_step (Pin b t False) \<lparr>tap = Capture_DR, shifted = sh, updates = u\<rparr> =
     \<lparr>tap = if b then Exit1_DR else Shift_DR, shifted = [], updates = u\<rparr>"
  "tap_step (Pin b t False) \<lparr>tap = Capture_IR, shifted = sh, updates = u\<rparr> =
     \<lparr>tap = if b then Exit1_IR else Shift_IR, shifted = [], updates = u\<rparr>"
  "tap_step (Pin b t False) \<lparr>tap = Shift_DR, shifted = sh, updates = u\<rparr> =
     \<lparr>tap = if b then Exit1_DR else Shift_DR, shifted = sh @ [t], updates = u\<rparr>"
  "tap_step (Pin b t False) \<lparr>tap = Shift_IR, shifted = sh, updates = u\<rparr> =
     \<lparr>tap = if b then Exit1_IR else Shift_IR, shifted = sh @ [t], updates = u\<rparr>"
  "tap_step (Pin True t False) \<lparr>tap = Exit1_DR, shifted = sh, updates = u\<rparr> =
     \<lparr>tap = Update_DR, shifted = sh, updates = u @ [DR_Update sh]\<rparr>"
  "tap_step (Pin True t False) \<lparr>tap = Exit1_IR, shifted = sh, updates = u\<rparr> =
     \<lparr>tap = Update_IR, shifted = sh, updates = u @ [IR_Update sh]\<rparr>"
  "tap_step (Pin False t False) \<lparr>tap = Update_DR, shifted = sh, updates = u\<rparr> =
     \<lparr>tap = Run_Test_Idle, shifted = sh, updates = u\<rparr>"
  "tap_step (Pin False t False) \<lparr>tap = Update_IR, shifted = sh, updates = u\<rparr> =
     \<lparr>tap = Run_Test_Idle, shifted = sh, updates = u\<rparr>"
  by (simp_all add: tap_step_def)

text \<open>A stream shifts its bits in and leaves the shift state with its last bit when TMS is
  set with it.\<close>

lemma fold_shift_low:
  "fold tap_step (map (\<lambda>j. Pin False (f j) False) js) \<lparr>tap = Shift_DR, shifted = sh, updates = u\<rparr> =
     \<lparr>tap = Shift_DR, shifted = sh @ map f js, updates = u\<rparr>"
  "fold tap_step (map (\<lambda>j. Pin False (f j) False) js) \<lparr>tap = Shift_IR, shifted = sh, updates = u\<rparr> =
     \<lparr>tap = Shift_IR, shifted = sh @ map f js, updates = u\<rparr>"
  by (induction js arbitrary: sh) (simp_all add: tap_step_cases)

lemma stream_bits_snoc: "0 < n \<Longrightarrow> stream_bits ws n = map (stream_bit ws) [0..<n - 1] @ [stream_bit ws (n - 1)]"
  by (cases n) (simp_all add: stream_bits_def)

lemma fold_stream_pins:
  assumes "0 < n"
  shows "fold tap_step (stream_pins ws n l) \<lparr>tap = Shift_DR, shifted = sh, updates = u\<rparr> =
      \<lparr>tap = if l then Exit1_DR else Shift_DR, shifted = sh @ stream_bits ws n, updates = u\<rparr>"
    and "fold tap_step (stream_pins ws n l) \<lparr>tap = Shift_IR, shifted = sh, updates = u\<rparr> =
      \<lparr>tap = if l then Exit1_IR else Shift_IR, shifted = sh @ stream_bits ws n, updates = u\<rparr>"
  using assms by (simp_all add: stream_pins_split fold_shift_low tap_step_cases stream_bits_snoc)

lemma funpow_zero_bits:
  "(tap_step (Pin False False False) ^^ k) \<lparr>tap = Shift_DR, shifted = sh, updates = u\<rparr> =
     \<lparr>tap = Shift_DR, shifted = sh @ replicate k False, updates = u\<rparr>"
  by (induction k) (simp_all add: tap_step_cases replicate_append_same)

section \<open>Operations on a cable\<close>

lemma packet_pin_consts [simp]:
  "packet_pin 0 = Pin False False False" "packet_pin TMS = Pin True False False"
  "packet_pin TRST = Pin False False True" "packet_pin TDO = Pin False True False"
  by (simp_all add: packet_pin_def const_simps)

lemma on_cable_frame [simp]:
  "conf (snd (on_cable f s)) = conf s" "current_chain (snd (on_cable f s)) = current_chain s"
  "desired_chain (snd (on_cable f s)) = desired_chain s"
  "soft_retry_no (snd (on_cable f s)) = soft_retry_no s"
  "ir_chain_allocated (snd (on_cable f s)) = ir_chain_allocated s"
  "current_reg_idx (snd (on_cable f s)) = current_reg_idx s"
  "cable (snd (on_cable f s)) = snd (f (cable s))"
  "fst (on_cable f s) = fst (f (cable s))"
  by (simp_all add: on_cable_def Let_def split_beta)

text \<open>What no JTAG transfer touches: every field but the cable.\<close>

definition same_globals :: "'c chain \<Rightarrow> 'c chain \<Rightarrow> bool" where
  "same_globals s t \<longleftrightarrow> t\<lparr>cable := cable s\<rparr> = s"

lemma same_globals_on_cable [simp]: "same_globals s (snd (on_cable f s))"
  by (simp add: same_globals_def on_cable_def Let_def split_beta)

lemma same_globals_refl [simp]: "same_globals s s"
  by (simp add: same_globals_def)

lemma same_globals_chain:
  "same_globals s t \<Longrightarrow> same_globals (s\<lparr>current_chain := x\<rparr>) (t\<lparr>current_chain := x\<rparr>)"
  by (cases s; cases t) (auto simp: same_globals_def)

lemma same_globals_trans: "same_globals s t \<Longrightarrow> same_globals t u \<Longrightarrow> same_globals s u"
  by (auto simp: same_globals_def) (metis chain.surjective chain.update_convs(11))

lemma same_globals_err_seq:
  assumes "\<And>f s. f \<in> set fs \<Longrightarrow> same_globals s (snd (f s))"
  shows "same_globals s (snd (err_seq fs s))"
  using assms
proof (induction fs arbitrary: s)
  case Nil
  then show ?case by simp
next
  case (Cons f fs)
  have "same_globals s (snd (f s))" using Cons.prems by simp
  moreover have "same_globals (snd (f s)) (snd (err_seq fs (snd (f s))))"
    by (rule Cons.IH) (simp add: Cons.prems)
  ultimately show ?case
    by (auto simp: Let_def split_beta intro: same_globals_trans)
qed

lemma same_globals_jtag [simp]:
  "same_globals s (snd (jtag_write_bit cb p s))"
  "same_globals s (snd (jtag_read_write_bit cb p s))"
  "same_globals s (snd (jtag_write_stream cb ws n l s))"
  "same_globals s (snd (tap_set_shift_dr cb s))"
  "same_globals s (snd (tap_exit_to_idle cb s))"
  by (auto simp: jtag_write_bit_def jtag_read_write_bit_def jtag_write_stream_def prefix_bits_def
      tap_set_shift_dr_def tap_exit_to_idle_def simp del: err_seq.simps intro!: same_globals_err_seq)

lemma same_globals_next:
  "same_globals s t \<Longrightarrow> same_globals s (snd (on_cable f t))"
  "same_globals s t \<Longrightarrow> same_globals s (snd (err_seq (prefix_bits cb k) t))"
  "same_globals s t \<Longrightarrow> same_globals s (snd (err_seq (replicate n (on_cable g)) t))"
  by (erule same_globals_trans, simp)
     (erule same_globals_trans, rule same_globals_err_seq, auto simp: prefix_bits_def)+

lemma same_globals_read_stream [simp]: "same_globals s (snd (jtag_read_write_stream cb ws n a l s))"
  by (simp add: jtag_read_write_stream_def Let_def split_beta same_globals_next)

lemma same_globals_fields:
  assumes "same_globals s t"
  shows "conf t = conf s" "current_chain t = current_chain s" "desired_chain t = desired_chain s"
    "soft_retry_no t = soft_retry_no s" "current_reg_idx t = current_reg_idx s"
    "ir_chain_allocated t = ir_chain_allocated s" "legacy_crc_w t = legacy_crc_w s"
    "legacy_crc_r t = legacy_crc_r s"
  using assms by (auto simp: same_globals_def dest: arg_cong [of _ _ conf] arg_cong [of _ _ current_chain]
      arg_cong [of _ _ desired_chain] arg_cong [of _ _ soft_retry_no]
      arg_cong [of _ _ current_reg_idx] arg_cong [of _ _ ir_chain_allocated]
      arg_cong [of _ _ legacy_crc_w] arg_cong [of _ _ legacy_crc_r])

section \<open>A driver whose device has a TAP\<close>

locale tap_device = clocked_cable cb dev dstep dtdo
  for cb :: "'c jtag_cable" and dev :: "'c \<Rightarrow> 'd" and dstep :: "pin \<Rightarrow> 'd \<Rightarrow> 'd"
    and dtdo :: "'d \<Rightarrow> bool" +
  fixes view :: "'d \<Rightarrow> tap_view"
  assumes view_step: "view (dstep p d) = tap_step p (view d)"
begin

lemma view_fold: "view (fold dstep ps d) = fold tap_step ps (view d)"
  by (induction ps arbitrary: d) (simp_all add: view_step)

lemma view_funpow: "view ((dstep p ^^ k) d) = (tap_step p ^^ k) (view d)"
  by (induction k) (simp_all add: view_step)

lemma dev_write_bit:
  "dev (cable (snd (jtag_write_bit cb p s))) = dstep (packet_pin p) (dev (cable s))"
  by (simp add: jtag_write_bit_def cable_write_bit_def bit_out)

lemma dev_read_write_bit:
  "dev (cable (snd (jtag_read_write_bit cb p s))) = dstep (packet_pin p) (dev (cable s))"
  "snd (fst (jtag_read_write_bit cb p s)) = of_bool (dtdo (dev (cable s)))"
  by (simp_all add: jtag_read_write_bit_def cable_read_write_bit_def bit_inout bit_inout_tdo)

lemma dev_write_stream:
  assumes "0 < n" "n \<le> 32 * length ws"
  shows "dev (snd (cable_write_stream cb ws (int n) l c)) = fold dstep (stream_pins ws n l) (dev c)"
  using assms by (simp add: cable_write_stream_def stream_out)

lemma dev_read_write_stream:
  assumes "0 < n" "n \<le> 32 * length ws"
  shows "dev (snd (cable_read_write_stream cb ws (int n) l c)) = fold dstep (stream_pins ws n l) (dev c)"
    and "snd (fst (cable_read_write_stream cb ws (int n) l c)) =
      bits_to_words (tdo_run dstep dtdo (stream_pins ws n l) (dev c))"
  using assms by (simp_all add: cable_read_write_stream_def stream_inout stream_inout_tdo)

lemma dev_replicate:
  assumes "\<And>s. dev (cable (snd (f s))) = dstep p (dev (cable s))"
  shows "dev (cable (snd (err_seq (replicate k f) s))) = fold dstep (replicate k p) (dev (cable s))"
  by (induction k arbitrary: s) (simp_all add: Let_def split_beta assms)

lemma dev_prefix_bits:
  "dev (cable (snd (err_seq (prefix_bits cb (1 + int m)) s))) =
    fold dstep (replicate m (Pin False False False) @ [Pin True False False]) (dev (cable s))"
  by (simp add: prefix_bits_def err_seq_append Let_def split_beta dev_write_bit
      dev_replicate [where p = "Pin False False False"])

lemmas view_simps = dev_write_bit view_step snd_err_seq_Cons snd_err_seq_Nil

lemma shift_dr_view:
  assumes "view (dev (cable s)) = \<lparr>tap = Run_Test_Idle, shifted = sh, updates = u\<rparr>"
  shows "view (dev (cable (snd (tap_set_shift_dr cb s)))) = \<lparr>tap = Shift_DR, shifted = [], updates = u\<rparr>"
  by (simp add: tap_set_shift_dr_def view_simps assms tap_step_cases del: err_seq.simps)

lemma exit_to_idle_view:
  assumes "view (dev (cable s)) = \<lparr>tap = Exit1_DR, shifted = sh, updates = u\<rparr>"
  shows "view (dev (cable (snd (tap_exit_to_idle cb s)))) =
    \<lparr>tap = Run_Test_Idle, shifted = sh, updates = u @ [DR_Update sh]\<rparr>"
  by (simp add: tap_exit_to_idle_def view_simps assms tap_step_cases del: err_seq.simps)

lemma write_stream_view:
  assumes "view (dev (cable s)) = \<lparr>tap = Shift_DR, shifted = sh, updates = u\<rparr>"
    and "0 < n" "n \<le> 32 * length ws" and "global_DR_prefix_bits (conf s) = int k"
  shows "view (dev (cable (snd (jtag_write_stream cb ws (int n) True s)))) =
      \<lparr>tap = Exit1_DR, shifted = sh @ stream_bits ws n @ replicate k False, updates = u\<rparr>"
proof (cases "k = 0")
  case True
  with assms show ?thesis
    by (simp add: jtag_write_stream_def dev_write_stream view_fold fold_stream_pins)
next
  case False
  then obtain m where k: "k = Suc m" by (cases k) auto
  from assms show ?thesis unfolding k
    by (simp add: jtag_write_stream_def snd_err_seq_Cons dev_prefix_bits dev_write_stream view_fold
        view_step view_funpow fold_stream_pins funpow_zero_bits tap_step_cases
        replicate_append_same del: err_seq.simps)
qed

lemma write_stream_view_stay:
  assumes "view (dev (cable s)) = \<lparr>tap = Shift_DR, shifted = sh, updates = u\<rparr>"
    and "0 < n" "n \<le> 32 * length ws"
  shows "view (dev (cable (snd (jtag_write_stream cb ws (int n) False s)))) =
      \<lparr>tap = Shift_DR, shifted = sh @ stream_bits ws n, updates = u\<rparr>"
  using assms by (simp add: jtag_write_stream_def dev_write_stream view_fold fold_stream_pins)

end

section \<open>The instruction register\<close>

text \<open>The bits of the words \<open>tap_set_ir\<close> shifts out, for chain sizes a chain can have. Any
  host gets them right as long as the command ends below the top of its word; a command that
  reaches the top needs a host that shifts bits out.\<close>

lemma ones32: "(0xFFFFFFFF :: u32) = -1"
  by simp

lemma ir_chain_fill_ones:
  assumes "q < L" "32 < r + m \<Longrightarrow> q + 1 < L"
  shows "ir_chain_fill h ir m q r (replicate L (-1)) =
     (let ws = (replicate L (-1))
            [q := (c_shl h ir r OR NOT (c_shl h (-1) r)) OR c_shl h (-1) (r + m)]
      in if r + m > 32
         then ws[q + 1 := c_sar h ir (32 - r) OR c_shl h (-1) (m - (32 - r))]
         else ws)"
  using assms by (simp add: ir_chain_fill_def Let_def rd_def ones32)

lemma length_ir_chain_fill: "length (ir_chain_fill h ir m q r ws) = length ws"
  by (simp add: ir_chain_fill_def Let_def)

lemma chain_index:
  fixes p n a :: nat
  shows "p div 32 < (p + n + a) div 32 + 1"
    and "32 < p mod 32 + n \<Longrightarrow> p div 32 + 1 < (p + n + a) div 32 + 1"
proof -
  have room: "(d + 1) * 32 \<le> (32 * d + r) + m + b" if "32 < r + m" for d r m b :: nat
    using that by simp
  show "p div 32 < (p + n + a) div 32 + 1" by (simp add: div_le_mono le_imp_less_Suc)
  assume "32 < p mod 32 + n"
  then have "(p div 32 + 1) * 32 \<le> p + n + a"
    using room [of "p mod 32" n "p div 32" a] by (simp only: mult_div_mod_eq)
  then show "p div 32 + 1 < (p + n + a) div 32 + 1"
    by (simp add: less_eq_div_iff_mult_less_eq less_Suc_eq_le)
qed

definition ir_sizes :: "jtag_conf \<Rightarrow> nat \<Rightarrow> nat \<Rightarrow> nat \<Rightarrow> bool" where
  "ir_sizes cf n p a \<longleftrightarrow> global_IR_size cf = int n \<and> global_IR_postfix_bits cf = int p \<and>
     global_IR_prefix_bits cf = int a \<and> 0 < n \<and> n \<le> 32"

lemma ir_chain_words_fill:
  assumes "ir_sizes cf n p a"
  shows "ir_chain_words h cf ir =
    ir_chain_fill h ir (int n) (p div 32) (int (p mod 32)) (replicate ((p + n + a) div 32 + 1) (-1))"
proof -
  have "c_div (int p) 32 = int (p div 32)" by (simp add: c_div_nonneg zdiv_int)
  moreover have "c_div (int n + int a + int p) 32 = int ((p + n + a) div 32)"
    by (simp add: c_div_nonneg zdiv_int ac_simps)
  moreover have "int p - int (p div 32) * 32 = int (p mod 32)"
    by (simp add: zdiv_int minus_div_mult_eq_mod of_nat_mod)
  moreover have "nat (int ((p + n + a) div 32) + 1) = (p + n + a) div 32 + 1" by simp
  ultimately show ?thesis
    using assms by (simp only: ir_chain_words_def Let_def ir_sizes_def nat_int ones32)
qed

lemma first_ir_word:
  assumes "r < 32" "i < 32" "int r + int n < 32 \<or> saturates_shifts h"
  shows "bit ((c_shl h ir (int r) OR NOT (c_shl h (-1) (int r))) OR c_shl h (-1) (int r + int n)) i
     \<longleftrightarrow> i < r \<or> bit ir (i - r) \<or> r + n \<le> i"
  using assms
  by (cases "r + n < 32")
     (auto simp: c_shl_def bit_simps saturates_shifts_def not_less nat_add_distrib)

lemma second_ir_word:
  assumes "r < 32" "n \<le> 32" "32 < r + n" "i < 32"
  shows "bit (c_sar h ir (32 - int r) OR c_shl h (-1) (int n - (32 - int r))) i
     \<longleftrightarrow> bit ir (32 + i - r) \<or> r + n \<le> i + 32"
proof -
  have a: "nat (32 - int r) = 32 - r" "nat (int n - (32 - int r)) = n + r - 32" by linarith+
  have b: "0 \<le> 32 - int r \<and> 32 - int r < 32" "0 \<le> int n - (32 - int r) \<and> int n - (32 - int r) < 32"
    using assms by linarith+
  have "bit (c_sar h ir (32 - int r)) i = bit ir (if r \<le> i then 31 else 32 + i - r)"
    using assms b by (auto simp: c_sar_def a bit_signed_drop_bit_iff)
  moreover have "bit (c_shl h (-1) (int n - (32 - int r))) i \<longleftrightarrow> n + r - 32 \<le> i"
    using assms(4) b by (auto simp: c_shl_def a bit_simps)
  ultimately show ?thesis using assms by (auto simp: bit_or_iff not_le)
qed

lemma ir_word_bits:
  assumes "q < L" "32 < int r + int n \<Longrightarrow> q + 1 < L" and r: "r < 32" and n: "n \<le> 32"
    and host: "int r + int n < 32 \<or> saturates_shifts h" and "j < L" and i: "i < 32"
  shows "bit (rd (ir_chain_fill h ir (int n) q (int r) (replicate L (-1))) j) i \<longleftrightarrow>
     (if j = q then i < r \<or> bit ir (i - r) \<or> r + n \<le> i
      else if j = q + 1 \<and> 32 < r + n then bit ir (32 + i - r) \<or> r + n \<le> i + 32
      else True)"
proof -
  have words: "ir_chain_fill h ir (int n) q (int r) (replicate L (-1)) =
     (let ws = (replicate L (-1))
            [q := (c_shl h ir (int r) OR NOT (c_shl h (-1) (int r))) OR c_shl h (-1) (int r + int n)]
      in if int r + int n > 32
         then ws[q + 1 := c_sar h ir (32 - int r) OR c_shl h (-1) (int n - (32 - int r))]
         else ws)"
    by (rule ir_chain_fill_ones) (use assms(1,2) in auto)
  have one: "bit (- 1 :: u32) i" using i by simp
  show ?thesis
  proof (cases "32 < int r + int n")
    case True
    then have t: "32 < r + n" by simp
    from True assms(1,2,6) show ?thesis
      unfolding words Let_def
      using first_ir_word [OF r i host, of ir] second_ir_word [OF r n t i, of h ir] t one
      by (simp add: rd_def nth_list_update)
  next
    case False
    then have t: "\<not> 32 < r + n" by simp
    from False assms(1,6) show ?thesis
      unfolding words Let_def
      using first_ir_word [OF r i host, of ir] t one
      by (simp add: rd_def nth_list_update)
  qed
qed

text \<open>Where bit \<open>32 * j + i\<close> of the chain lies: the three regions as the words see them.\<close>

lemma chain_region:
  fixes q r n a j i :: nat
  assumes "i < 32" "r < 32" "0 < n" "n \<le> 32" "32 * j + i < 32 * q + r + n + a"
  shows "(replicate (32 * q + r) True @ word_bits n ir @ replicate a True) ! (32 * j + i) \<longleftrightarrow>
     (if j = q then i < r \<or> bit ir (i - r) \<or> r + n \<le> i
      else if j = q + 1 \<and> 32 < r + n then bit ir (32 + i - r) \<or> r + n \<le> i + 32
      else True)"
proof -
  consider "j < q" | "j = q" | "j = q + 1" | "q + 1 < j" by linarith
  then show ?thesis
  proof cases
    case 2
    with assms show ?thesis by (auto simp: nth_append word_bits_def)
  next
    case 3
    with assms show ?thesis by (auto simp: nth_append word_bits_def)
  next
    case 4
    then have "32 * q + 64 \<le> 32 * j" by linarith
    with assms have "\<not> 32 * j + i < 32 * q + r + n" "32 * j + i - (32 * q + r + n) < a"
      by linarith+
    with assms 4 show ?thesis by (auto simp: nth_append word_bits_def)
  next
    case 1
    then have "32 * j + 32 \<le> 32 * q" by linarith
    with assms 1 show ?thesis by (simp add: nth_append)
  qed
qed

lemma stream_bits_ir_chain:
  assumes sizes: "ir_sizes cf n p a" and host: "p mod 32 + n < 32 \<or> saturates_shifts h"
  shows "stream_bits (ir_chain_words h cf ir) (p + n + a) =
     replicate p True @ word_bits n ir @ replicate a True"
proof (rule nth_equalityI)
  have n: "0 < n" "n \<le> 32" using sizes by (auto simp: ir_sizes_def)
  fix k assume "k < length (stream_bits (ir_chain_words h cf ir) (p + n + a))"
  then have k: "k < p + n + a" by simp
  have i: "k mod 32 < 32" and r: "p mod 32 < 32" by simp_all
  have jL: "k div 32 < (p + n + a) div 32 + 1"
    using k by (simp add: div_le_mono less_Suc_eq_le)
  have host': "int (p mod 32) + int n < 32 \<or> saturates_shifts h"
    using host by (metis of_nat_add of_nat_less_iff of_nat_numeral)
  have room: "32 < int (p mod 32) + int n \<Longrightarrow> p div 32 + 1 < (p + n + a) div 32 + 1"
    using chain_index(2) [of p n a] by (metis of_nat_add of_nat_less_iff of_nat_numeral)
  have "stream_bit (ir_chain_words h cf ir) k =
      bit (rd (ir_chain_words h cf ir) (k div 32)) (k mod 32)"
    by (simp add: stream_bit_def)
  also have "\<dots> = (replicate (32 * (p div 32) + p mod 32) True @ word_bits n ir @ replicate a True)
      ! (32 * (k div 32) + k mod 32)"
    unfolding ir_chain_words_fill [OF sizes]
    by (rule trans [OF ir_word_bits [OF chain_index(1) room r n(2) host' jL i]
          chain_region [symmetric, OF i r n]]) (use k in simp_all)
  finally show "stream_bits (ir_chain_words h cf ir) (p + n + a) ! k =
     (replicate p True @ word_bits n ir @ replicate a True) ! k"
    using k by (simp add: stream_bits_def)
qed (simp add: stream_bits_def)

section \<open>What the TAP operations do\<close>

context tap_device
begin

lemma set_ir_view:
  assumes idle: "view (dev (cable s)) = \<lparr>tap = Run_Test_Idle, shifted = sh, updates = u\<rparr>"
    and sizes: "ir_sizes (conf s) n p a" and m: "malloc_ok h ((c_div (int (p + n + a)) 32 + 1) * 4)"
    and bits: "bits = stream_bits (ir_chain_words h (conf s) ir) (p + n + a)"
  shows "view (dev (cable (snd (tap_set_ir h cb ir s)))) =
      \<lparr>tap = Run_Test_Idle, shifted = bits, updates = u @ [IR_Update bits]\<rparr>"
    and "same_globals (s\<lparr>ir_chain_allocated := True, current_chain := -1\<rparr>) (snd (tap_set_ir h cb ir s))"
proof -
  let ?ws = "ir_chain_words h (conf s) ir"
  have n: "0 < p + n + a" "p + n + a \<le> 32 * length ?ws"
    using sizes by (simp_all add: ir_sizes_def ir_chain_words_fill [OF sizes] length_ir_chain_fill)
  have size: "global_IR_size (conf s) + global_IR_prefix_bits (conf s) + global_IR_postfix_bits (conf s)
      = int (p + n + a)"
    using sizes by (simp add: ir_sizes_def)
  show "view (dev (cable (snd (tap_set_ir h cb ir s)))) =
      \<lparr>tap = Run_Test_Idle, shifted = bits, updates = u @ [IR_Update bits]\<rparr>"
    using m
    by (simp add: tap_set_ir_def size Let_def split_beta snd_err_seq_Cons snd_err_seq_Nil view_simps
        idle dev_write_stream [OF n] view_fold fold_stream_pins(2) [OF n(1)] tap_step_cases bits
        del: err_seq.simps of_nat_add)
  have "same_globals (s\<lparr>ir_chain_allocated := True\<rparr>) (snd (err_seq
      [jtag_write_bit cb TMS, jtag_write_bit cb TMS, jtag_write_bit cb 0, jtag_write_bit cb 0,
       on_cable (cable_write_stream cb ?ws (int (p + n + a)) True),
       jtag_write_bit cb TMS, jtag_write_bit cb 0] (s\<lparr>ir_chain_allocated := True\<rparr>)))"
    by (rule same_globals_err_seq) auto
  then show "same_globals (s\<lparr>ir_chain_allocated := True, current_chain := -1\<rparr>) (snd (tap_set_ir h cb ir s))"
    using m
    using same_globals_chain [where x = "-1"]
    by (fastforce simp add: tap_set_ir_def size Let_def split_beta
        del: err_seq.simps of_nat_add)
qed

end

text \<open>
  A reset brings every TAP to Run-Test/Idle from whatever state it is in, whether or not the
  cable has a TRST wire: eight cycles with TMS high are enough without it.
\<close>

definition reset_pins :: "pin list" where
  "reset_pins = Pin False False False # replicate 8 (Pin True False False)
     @ [Pin False False True, Pin False False False]"

lemma reset_pins_idle:
  "tap (fold (\<lambda>p. tap_step (if wired then p else no_trst p)) reset_pins v) = Run_Test_Idle"
proof -
  have e: "8 = Suc (Suc (Suc (Suc (Suc (Suc (Suc (Suc 0)))))))" by simp
  have five: "tap (fold tap_step (replicate 8 (Pin True False False)) (tap_step (Pin False False False) v))
      = Test_Logic_Reset"
    by (cases "tap v") (simp_all add: e tap_step_def Let_def)
  show ?thesis
    using five by (cases wired) (simp_all add: reset_pins_def no_trst_def tap_step_def Let_def)
qed

lemma tap_reset_dev:
  assumes "clocked_cable cb dev dstep dtdo"
  shows "dev (cable (snd (tap_reset cb s))) = fold dstep reset_pins (dev (cable s))"
proof -
  have b: "dev (cable (snd (jtag_write_bit cb p t))) = dstep (packet_pin p) (dev (cable t))" for p t
    using clocked_cable.bit_out [OF assms] by (simp add: jtag_write_bit_def cable_write_bit_def)
  have "dev (cable (snd (err_seq (replicate k (jtag_write_bit cb TMS)) t))) =
      fold dstep (replicate k (Pin True False False)) (dev (cable t))" for k t
    by (induction k arbitrary: t) (simp_all add: Let_def split_beta b)
  then show ?thesis
    by (simp add: tap_reset_def reset_pins_def err_seq_append Let_def split_beta b)
qed

section \<open>Data register transactions\<close>

definition at_idle :: "tap_view \<Rightarrow> update list \<Rightarrow> bool" where
  "at_idle v u \<longleftrightarrow> tap v = Run_Test_Idle \<and> updates v = u"

lemma at_idleD: "at_idle v u \<Longrightarrow> \<exists>sh. v = \<lparr>tap = Run_Test_Idle, shifted = sh, updates = u\<rparr>"
  by (cases v) (simp add: at_idle_def)

lemma at_idleI [simp]: "at_idle \<lparr>tap = Run_Test_Idle, shifted = sh, updates = u\<rparr> u"
  by (simp add: at_idle_def)

lemma err_seq_none:
  assumes "\<And>f s. f \<in> set fs \<Longrightarrow> fst (f s) = APP_ERR_NONE"
  shows "fst (err_seq fs s) = APP_ERR_NONE"
  using assms by (induction fs arbitrary: s) (simp_all add: Let_def split_beta)

context tap_device
begin

lemma dr_write_idle:
  assumes "at_idle (view (dev (cable s))) u"
    and "0 < n" "n \<le> 32 * length ws" and "global_DR_prefix_bits (conf s) = int k"
  shows "at_idle (view (dev (cable (snd (err_seq [tap_set_shift_dr cb,
        jtag_write_stream cb ws (int n) True, tap_exit_to_idle cb] s)))))
      (u @ [DR_Update (stream_bits ws n @ replicate k False)])"
proof -
  obtain sh where v: "view (dev (cable s)) = \<lparr>tap = Run_Test_Idle, shifted = sh, updates = u\<rparr>"
    using at_idleD [OF assms(1)] by blast
  let ?s = "snd (tap_set_shift_dr cb s)"
  have "global_DR_prefix_bits (conf ?s) = int k"
    using assms(4) same_globals_fields(1) [OF same_globals_jtag(4) [of s cb]] by simp
  from exit_to_idle_view [OF write_stream_view [OF shift_dr_view [OF v] assms(2,3) this]]
  show ?thesis by (simp only: snd_err_seq at_idleI append_Nil)
qed

lemma dr_write_two_idle:
  assumes "at_idle (view (dev (cable s))) u"
    and "0 < n" "n \<le> 32 * length ws" and "0 < m" "m \<le> 32 * length vs"
    and "global_DR_prefix_bits (conf s) = int k"
  shows "at_idle (view (dev (cable (snd (err_seq [tap_set_shift_dr cb,
        jtag_write_stream cb ws (int n) False, jtag_write_stream cb vs (int m) True,
        tap_exit_to_idle cb] s)))))
      (u @ [DR_Update (stream_bits ws n @ stream_bits vs m @ replicate k False)])"
proof -
  obtain sh where v: "view (dev (cable s)) = \<lparr>tap = Run_Test_Idle, shifted = sh, updates = u\<rparr>"
    using at_idleD [OF assms(1)] by blast
  let ?s1 = "snd (tap_set_shift_dr cb s)"
  let ?s2 = "snd (jtag_write_stream cb ws (int n) False ?s1)"
  have "global_DR_prefix_bits (conf ?s2) = int k"
    using assms(6) same_globals_fields(1) [OF same_globals_jtag(4) [of s cb]]
      same_globals_fields(1) [OF same_globals_jtag(3) [of ?s1 cb ws "int n" False]] by simp
  from exit_to_idle_view [OF write_stream_view
      [OF write_stream_view_stay [OF shift_dr_view [OF v] assms(2,3)] assms(4,5) this]]
  show ?thesis by (simp only: snd_err_seq at_idleI append_Nil append_assoc)
qed

end

lemma tdo_run_last:
  "tdo_run dstep dtdo (stream_pins ws n l) d = tdo_run dstep dtdo (stream_pins ws n False) d"
  by (cases n) (simp_all add: stream_pins_split tdo_run_append, simp add: stream_pins_def)

context tap_device
begin

text \<open>The bits of the other devices that a read skips first.\<close>

lemma skip_postfix:
  fixes s :: "'c chain" and adjust :: bool
  defines "s1 \<equiv> snd (if adjust \<and> 0 < global_DR_postfix_bits (conf s)
      then err_seq (replicate (nat (global_DR_postfix_bits (conf s))) (on_cable (cable_write_bit cb 0))) s
      else (APP_ERR_NONE, s))"
  assumes "global_DR_postfix_bits (conf s) = int q"
  shows "dev (cable s1) = fold dstep (replicate (if adjust then q else 0) (Pin False False False)) (dev (cable s))"
    and "conf s1 = conf s"
proof -
  have "dev (cable (snd (on_cable (cable_write_bit cb 0) t))) =
      dstep (Pin False False False) (dev (cable t))" for t :: "'c chain"
    by (simp add: cable_write_bit_def bit_out)
  from dev_replicate [OF this] assms(2)
  show "dev (cable s1) = fold dstep (replicate (if adjust then q else 0) (Pin False False False)) (dev (cable s))"
    by (simp add: s1_def)
  have "same_globals s (snd (err_seq (replicate m (on_cable (cable_write_bit cb 0))) s))" for m
    by (rule same_globals_err_seq) auto
  then show "conf s1 = conf s" by (simp add: s1_def same_globals_fields(1))
qed

lemma read_write_stream_data:
  assumes "0 < n" "n \<le> 32 * length ws" and "global_DR_postfix_bits (conf s) = int q"
  shows "snd (fst (jtag_read_write_stream cb ws (int n) adjust set_TMS s)) =
    bits_to_words (tdo_run dstep dtdo (stream_pins ws n False)
      (fold dstep (replicate (if adjust then q else 0) (Pin False False False)) (dev (cable s))))"
proof -
  note skip = skip_postfix [where adjust = adjust, OF assms(3)]
  have "snd (fst (on_cable (cable_read_write_stream cb ws (int n) l) t)) =
      bits_to_words (tdo_run dstep dtdo (stream_pins ws n False) (dev (cable t)))" for l and t :: "'c chain"
    using dev_read_write_stream(2) [OF assms(1,2)] tdo_run_last [of dstep dtdo ws n l] by simp
  then show ?thesis
    unfolding skip(1) [symmetric] jtag_read_write_stream_def
    by (simp only: Let_def split_beta fst_conv snd_conv if_distrib [of fst] if_distrib [of snd] if_cancel)
qed

lemma read_write_stream_view:
  assumes "view (dev (cable s)) = \<lparr>tap = Shift_DR, shifted = sh, updates = u\<rparr>"
    and "0 < n" "n \<le> 32 * length ws" and "global_DR_postfix_bits (conf s) = int q"
    and "global_DR_prefix_bits (conf s) = int k"
  shows "view (dev (cable (snd (jtag_read_write_stream cb ws (int n) adjust set_TMS s)))) =
      \<lparr>tap = if set_TMS then Exit1_DR else Shift_DR,
       shifted = sh @ replicate (if adjust then q else 0) False @ stream_bits ws n
         @ (if set_TMS then replicate k False else []), updates = u\<rparr>"
proof -
  note skip = skip_postfix [where adjust = adjust, OF assms(4)]
  let ?s1 = "snd (if adjust \<and> 0 < global_DR_postfix_bits (conf s)
      then err_seq (replicate (nat (global_DR_postfix_bits (conf s))) (on_cable (cable_write_bit cb 0))) s
      else (APP_ERR_NONE, s))"
  let ?sh = "sh @ replicate (if adjust then q else 0) False"
  have v1: "view (dev (cable ?s1)) = \<lparr>tap = Shift_DR, shifted = ?sh, updates = u\<rparr>"
    unfolding skip(1) by (simp add: view_fold view_funpow assms(1) funpow_zero_bits)
  have v2: "view (dev (cable (snd (on_cable (cable_read_write_stream cb ws (int n) l) ?s1)))) =
      \<lparr>tap = if l then Exit1_DR else Shift_DR, shifted = ?sh @ stream_bits ws n, updates = u\<rparr>" for l
    using dev_read_write_stream(1) [OF assms(2,3)] v1
    by (simp only: on_cable_frame view_fold fold_stream_pins [OF assms(2)])
  show ?thesis
  proof (cases "set_TMS \<and> k \<noteq> 0")
    case False
    then show ?thesis
      using v2 [of set_TMS] assms(5)
      by (auto simp: jtag_read_write_stream_def Let_def split_beta simp del: err_seq.simps)
  next
    case True
    then obtain m where k: "k = Suc m" by (cases k) auto
    show ?thesis
      using True v2 [of False] assms(5) unfolding k
      by (simp add: jtag_read_write_stream_def Let_def split_beta dev_prefix_bits view_fold view_step
          view_funpow funpow_zero_bits tap_step_cases replicate_append_same del: err_seq.simps)
  qed
qed

end

locale reliable_tap = tap_device cb dev dstep dtdo view + reliable_cable cb dev dstep dtdo
  for cb :: "'c jtag_cable" and dev :: "'c \<Rightarrow> 'd" and dstep :: "pin \<Rightarrow> 'd \<Rightarrow> 'd"
    and dtdo :: "'d \<Rightarrow> bool" and view :: "'d \<Rightarrow> tap_view"
begin

lemma cable_ok [simp]:
  "fst (cable_write_bit cb p c) = APP_ERR_NONE"
  "fst (fst (cable_read_write_bit cb p c)) = APP_ERR_NONE"
  "fst (cable_write_stream cb ws n l c) = APP_ERR_NONE"
  "fst (fst (cable_read_write_stream cb ws n l c)) = APP_ERR_NONE"
  by (simp_all add: cable_write_bit_def cable_read_write_bit_def cable_write_stream_def
      cable_read_write_stream_def bit_out_ok bit_inout_ok stream_out_ok stream_inout_ok)

lemma jtag_bit_ok [simp]:
  "fst (jtag_write_bit cb p s) = APP_ERR_NONE"
  "fst (fst (jtag_read_write_bit cb p s)) = APP_ERR_NONE"
  by (simp_all add: jtag_write_bit_def jtag_read_write_bit_def)

lemma prefix_bits_ok [simp]: "fst (err_seq (prefix_bits cb k) s) = APP_ERR_NONE"
  by (rule err_seq_none) (auto simp: prefix_bits_def)

lemma jtag_ok [simp]:
  "fst (jtag_write_stream cb ws n l s) = APP_ERR_NONE"
  "fst (fst (jtag_read_write_stream cb ws n a l s)) = APP_ERR_NONE"
  "fst (tap_set_shift_dr cb s) = APP_ERR_NONE"
  "fst (tap_exit_to_idle cb s) = APP_ERR_NONE"
proof -
  have "fst (err_seq (replicate k (on_cable (cable_write_bit cb 0))) s) = APP_ERR_NONE" for k s
    by (rule err_seq_none) auto
  then show "fst (jtag_write_stream cb ws n l s) = APP_ERR_NONE"
    "fst (fst (jtag_read_write_stream cb ws n a l s)) = APP_ERR_NONE"
    by (simp_all add: jtag_write_stream_def jtag_read_write_stream_def Let_def split_beta)
qed (simp_all add: tap_set_shift_dr_def tap_exit_to_idle_def Let_def split_beta)

end

section \<open>A parallel-port cable with a TAP behind it\<close>

interpretation xess_tap: tap_device "xess_cable_driver x86_64 ini (board_port xess_wiring tap_step dtdo)"
    board_dev tap_step dtdo "\<lambda>v. v" for ini dtdo
  by unfold_locales simp

interpretation xess_reliable: reliable_tap
    "xess_cable_driver x86_64 ini (board_port xess_wiring tap_step dtdo)"
    board_dev tap_step dtdo "\<lambda>v. v" for ini dtdo
  by unfold_locales

definition idle_board :: "tap_view board" where
  "idle_board = \<lparr>lines = 0, board_dev = \<lparr>tap = Run_Test_Idle, shifted = [], updates = []\<rparr>\<rparr>"

definition example_cable :: "tap_view board jtag_cable" where
  "example_cable = xess_cable_driver x86_64 (\<lambda>s. (APP_ERR_NONE, s))
     (board_port xess_wiring tap_step (\<lambda>_. False))"

definition example_conf :: jtag_conf where
  "example_conf = init_conf\<lparr>global_IR_size := 4, global_IR_prefix_bits := 5,
     global_IR_postfix_bits := 6, global_DR_prefix_bits := 1, global_DR_postfix_bits := 1,
     global_jtag_cmd_debug := 8\<rparr>"

definition example_chain :: "tap_view board chain" where
  "example_chain = (init_chain idle_board)\<lparr>conf := example_conf\<rparr>"

lemma example_tap: "tap_device example_cable board_dev tap_step (\<lambda>_. False) (\<lambda>v. v)"
  unfolding example_cable_def by (rule xess_tap.tap_device_axioms)

lemma example_idle: "board_dev (cable example_chain) = \<lparr>tap = Run_Test_Idle, shifted = [], updates = []\<rparr>"
  by (simp add: example_chain_def init_chain_def idle_board_def)

lemma example_sizes: "ir_sizes (conf example_chain) 4 6 5"
  by (simp add: example_chain_def example_conf_def init_conf_def ir_sizes_def)

text \<open>A device that answers: TDO shows the given bits one by one, once the given updates have
  arrived.\<close>

abbreviation pin0 :: pin where
  "pin0 \<equiv> Pin False False False"

definition answer_tdo :: "update list \<Rightarrow> bool list \<Rightarrow> tap_view \<Rightarrow> bool" where
  "answer_tdo u ans v \<longleftrightarrow> updates v = u \<and> tap v = Shift_DR \<and> length (shifted v) < length ans \<and>
     ans ! length (shifted v)"

lemma answer_run:
  "length sh + n \<le> length ans \<Longrightarrow> tdo_run tap_step (answer_tdo u ans) (replicate n pin0)
    \<lparr>tap = Shift_DR, shifted = sh, updates = u\<rparr> = take n (drop (length sh) ans)"
proof (induction n arbitrary: sh)
  case (Suc n)
  then have "drop (length sh) ans = ans ! length sh # drop (Suc (length sh)) ans"
    by (simp add: Cons_nth_drop_Suc)
  with Suc show ?case by (simp add: answer_tdo_def tap_step_cases)
qed simp

definition answering_cable :: "update list \<Rightarrow> bool list \<Rightarrow> tap_view board jtag_cable" where
  "answering_cable u ans = xess_cable_driver x86_64 (\<lambda>s. (APP_ERR_NONE, s))
     (board_port xess_wiring tap_step (answer_tdo u ans))"

lemma answering_tap: "reliable_tap (answering_cable u ans) board_dev tap_step (answer_tdo u ans) (\<lambda>v. v)"
  unfolding answering_cable_def by (rule xess_reliable.reliable_tap_axioms)

lemma malloc_x86 [simp]: "malloc_ok x86_64 n"
  by (simp add: x86_64_def x86_32_def)

section \<open>Properties\<close>

text \<open>
  C15: \<open>tap_set_ir\<close> takes a device that waits in Run-Test/Idle through the instruction path
  back to Run-Test/Idle with exactly one update of the instruction registers: the command in
  the target's bits and ones (BYPASS) in the bits of every other device of the chain, before
  and behind it. This needs that the command ends below the top of its 32-bit word or that
  the host shifts bits out.
\<close>

theorem tap_set_ir_loads:
  assumes "tap_device cb dev dstep dtdo view" and "ir_sizes (conf s) n p a"
    and "view (dev (cable s)) = \<lparr>tap = Run_Test_Idle, shifted = sh, updates = u\<rparr>"
    and "malloc_ok h ((c_div (int (p + n + a)) 32 + 1) * 4)"
    and "p mod 32 + n < 32 \<or> saturates_shifts h"
  shows "view (dev (cable (snd (tap_set_ir h cb ir s)))) =
      \<lparr>tap = Run_Test_Idle, shifted = replicate p True @ word_bits n ir @ replicate a True,
       updates = u @ [IR_Update (replicate p True @ word_bits n ir @ replicate a True)]\<rparr> \<and>
    current_chain (snd (tap_set_ir h cb ir s)) = -1"
  using tap_device.set_ir_view [OF assms(1,3,2,4) refl, of ir] stream_bits_ir_chain [OF assms(2,5), of ir]
  by (auto dest: same_globals_fields(2))

theorem tap_set_ir_loads_witness:
  "board_dev (cable (snd (tap_set_ir x86_64 example_cable 8 example_chain))) =
      \<lparr>tap = Run_Test_Idle, shifted = replicate 6 True @ [False, False, False, True] @ replicate 5 True,
       updates = [IR_Update (replicate 6 True @ [False, False, False, True] @ replicate 5 True)]\<rparr>"
proof -
  have "word_bits 4 8 = [False, False, False, True]" by (simp add: word_bits_def upt_rec)
  then show ?thesis
    using tap_set_ir_loads [OF example_tap example_sizes example_idle, of x86_64 8] by simp
qed

text \<open>
  C16: \<open>tap_reset\<close> brings a device to Run-Test/Idle from whatever state its TAP is in,
  on a cable with a TRST wire and on one without, and forgets the selected module and the
  selected register of every module, so that the next access selects them again.
\<close>

theorem tap_reset_idle:
  assumes "clocked_cable cb dev dstep dtdo"
    and "\<And>p d. view (dstep p d) = tap_step (if wired then p else no_trst p) (view d)"
    and "s' = snd (tap_reset cb s)"
  shows "tap (view (dev (cable s'))) = Run_Test_Idle \<and> current_chain s' = -1 \<and>
    (\<forall>i \<in> {0, 1, 2, 3}. current_reg_idx s' i = -1)"
proof -
  have "view (fold dstep ps d) = fold (\<lambda>p. tap_step (if wired then p else no_trst p)) ps (view d)" for ps d
    by (induction ps arbitrary: d) (simp_all add: assms(2))
  then have "tap (view (dev (cable s'))) = Run_Test_Idle"
    by (simp add: assms(3) tap_reset_dev [OF assms(1)] reset_pins_idle)
  then show ?thesis
    by (simp add: assms(3) tap_reset_def Let_def split_beta const_simps)
qed

theorem tap_reset_idle_witness:
  "tap (board_dev (cable (snd (tap_reset
      (xpc3_cable_driver x86_64 (\<lambda>s. (APP_ERR_NONE, s)) (board_port xpc3_wiring tap_step (\<lambda>_. False)))
      (init_chain \<lparr>lines = 0, board_dev = \<lparr>tap = Pause_DR, shifted = [], updates = []\<rparr>\<rparr>)))))
    = Run_Test_Idle"
  by (rule tap_reset_idle [where view = "\<lambda>v. v" and wired = False, THEN conjunct1,
        OF xpc3.clocked_cable_axioms _ refl]) simp

text \<open>
  C33: On a host that takes shift counts modulo 32 (x86), a command that ends exactly at the
  top of its 32-bit word of the chain is lost: every instruction register of the chain,
  the target's included, is loaded with ones, so the debug unit is bypassed whatever command
  was asked for.
\<close>

theorem tap_set_ir_bypasses_all:
  assumes "tap_device cb dev dstep dtdo view" and "ir_sizes (conf s) n p a"
    and "view (dev (cable s)) = \<lparr>tap = Run_Test_Idle, shifted = sh, updates = u\<rparr>"
    and "malloc_ok h ((c_div (int (p + n + a)) 32 + 1) * 4)"
    and "masks_shifts h" and "p mod 32 + n = 32"
  shows "updates (view (dev (cable (snd (tap_set_ir h cb ir s))))) =
      u @ [IR_Update (replicate (p + n + a) True)]"
proof -
  have i: "int (p mod 32) + int n = 32" using assms(6) by linarith
  have "ir_chain_words h (conf s) ir = replicate ((p + n + a) div 32 + 1) (-1)"
    unfolding ir_chain_words_fill [OF assms(2)]
    by (subst ir_chain_fill_ones)
      (simp_all add: i chain_index(1) c_shl_masked [OF assms(5)] list_update_same_conv del: replicate_Suc)
  moreover have "stream_bits (replicate ((p + n + a) div 32 + 1) (-1)) (p + n + a) =
      replicate (p + n + a) True"
    using chain_index(1) [of "p + n + a" 0 0]
    by (auto intro!: nth_equalityI simp: stream_bits_def stream_bit_def rd_def
        div_le_mono le_imp_less_Suc simp del: replicate_Suc)
  ultimately show ?thesis
    using tap_device.set_ir_view [OF assms(1,3,2,4) refl, of ir] by (simp del: replicate_Suc)
qed

theorem tap_set_ir_bypasses_all_witness:
  "updates (board_dev (cable (snd (tap_set_ir x86_64 example_cable 8
      (example_chain\<lparr>conf := example_conf\<lparr>global_IR_postfix_bits := 28\<rparr>\<rparr>))))) =
    [IR_Update (replicate 37 True)]"
proof -
  let ?s = "example_chain\<lparr>conf := example_conf\<lparr>global_IR_postfix_bits := 28\<rparr>\<rparr>"
  have "ir_sizes (conf ?s) 4 28 5"
    by (simp add: example_conf_def init_conf_def ir_sizes_def)
  from tap_set_ir_bypasses_all [OF example_tap this, of "[]" "[]" x86_64 8] show ?thesis
    by (simp add: example_idle masks_shifts_x86)
qed

end
