(* ===== verification/Jtag_Enum.thy ===== *)
theory Jtag_Enum
  imports Jtag_Tap
begin

text \<open>
  The enumeration of the scan chain (\<open>jtag_enumerate_chain\<close>) finds what is on the chain. The
  device is the chain as one shift register: after a reset every chip shows its 32-bit IDCODE
  or, if it has none, a single BYPASS bit that captures 0.
\<close>

datatype chip = Bypass | Idcode u32

primrec chip_bits :: "chip \<Rightarrow> bool list" where
  "chip_bits Bypass = [False]"
| "chip_bits (Idcode w) = word_bits 32 w"

primrec chip_code :: "chip \<Rightarrow> u32" where
  "chip_code Bypass = -1"
| "chip_code (Idcode w) = w"

text \<open>An IDCODE starts with a 1, and \<open>0x3f\<close> (with its marker bits 0) is not a manufacturer.\<close>

primrec legal_chip :: "chip \<Rightarrow> bool" where
  "legal_chip Bypass = True"
| "legal_chip (Idcode w) \<longleftrightarrow> bit w 0 \<and> bits_word (map (bit w) [1..<12]) \<noteq> 0x3f"

record scan_dev =
  scan_tap :: tap_state
  scan_reg :: "bool list"
  scan_cap :: "bool list"

definition scan_step :: "pin \<Rightarrow> scan_dev \<Rightarrow> scan_dev" where
  "scan_step p d =
     (if pin_trst p then d\<lparr>scan_tap := Test_Logic_Reset\<rparr>
      else d\<lparr>scan_tap := tap_next (pin_tms p) (scan_tap d),
             scan_reg := (if scan_tap d = Capture_DR then scan_cap d
                else if scan_tap d = Shift_DR then tl (scan_reg d) @ [pin_tdi p] else scan_reg d)\<rparr>)"

definition scan_tdo :: "scan_dev \<Rightarrow> bool" where
  "scan_tdo d = hd (scan_reg d)"

section \<open>The bits on TDO\<close>

text \<open>After \<open>k\<close> shifts of seven ones and then zeros, the register holds what is left of the
  captured bits and behind them what was sent.\<close>

definition sent :: "nat \<Rightarrow> bool" where
  "sent k \<longleftrightarrow> k < 7"

definition scan_at :: "bool list \<Rightarrow> nat \<Rightarrow> scan_dev" where
  "scan_at cap k = \<lparr>scan_tap = Shift_DR, scan_reg = drop k (cap @ map sent [0..<k]), scan_cap = cap\<rparr>"

definition trace :: "bool list \<Rightarrow> nat \<Rightarrow> bool" where
  "trace cap k = (if k < length cap then cap ! k else sent (k - length cap))"

lemma scan_tdo_at:
  assumes "cap \<noteq> []"
  shows "scan_tdo (scan_at cap k) = trace cap k"
proof -
  have c: "0 < length cap" using assms by simp
  then have "hd (drop k (cap @ map sent [0..<k])) = (cap @ map sent [0..<k]) ! k"
    by (intro hd_drop_conv_nth) simp
  moreover have "map sent [0..<k] ! (k - length cap) = sent (k - length cap)" if "\<not> k < length cap"
  proof -
    have "k - length cap < k" using that c by linarith
    then show ?thesis by simp
  qed
  ultimately show ?thesis
    unfolding scan_tdo_def scan_at_def trace_def by (simp add: nth_append del: drop_append)
qed

lemma scan_step_at:
  assumes "cap \<noteq> []"
  shows "scan_step (Pin False (sent k) False) (scan_at cap k) = scan_at cap (Suc k)"
proof -
  have "tl (drop k xs) @ [y] = drop (Suc k) (xs @ [y])" if "k < length xs" for xs :: "bool list" and y
    using that by (simp add: drop_Suc tl_drop)
  from this [of "cap @ map sent [0..<k]" "sent k"] assms
  have "tl (drop k (cap @ map sent [0..<k])) @ [sent k] = drop (Suc k) (cap @ map sent [0..<Suc k])"
    by (simp del: drop_append)
  then show ?thesis by (simp add: scan_step_def scan_at_def del: drop_append)
qed

lemma scan_run_at:
  assumes "cap \<noteq> []"
  shows "fold scan_step (map (\<lambda>j. Pin False (sent j) False) [k..<k + n]) (scan_at cap k) = scan_at cap (k + n)"
    and "tdo_run scan_step scan_tdo (map (\<lambda>j. Pin False (sent j) False) [k..<k + n]) (scan_at cap k) =
      map (trace cap) [k..<k + n]"
proof -
  have u: "[k..<Suc (k + n)] = k # [Suc k..<Suc (k + n)]" for k n :: nat by (simp add: upt_conv_Cons)
  show "fold scan_step (map (\<lambda>j. Pin False (sent j) False) [k..<k + n]) (scan_at cap k) = scan_at cap (k + n)"
  proof (induction n arbitrary: k)
    case (Suc n)
    show ?case using Suc.IH [of "Suc k"] by (simp add: u scan_step_at [OF assms] del: upt_Suc)
  qed simp
  show "tdo_run scan_step scan_tdo (map (\<lambda>j. Pin False (sent j) False) [k..<k + n]) (scan_at cap k) =
      map (trace cap) [k..<k + n]"
  proof (induction n arbitrary: k)
    case (Suc n)
    show ?case using Suc.IH [of "Suc k"]
      by (simp add: u scan_step_at [OF assms] scan_tdo_at [OF assms] del: upt_Suc)
  qed simp
qed

text \<open>The word \<open>invalid_code\<close> after \<open>k\<close> of its bits are gone.\<close>

definition code_at :: "nat \<Rightarrow> u32" where
  "code_at k = drop_bit k 0x7f"

lemma bit_code_at: "bit (code_at k) j = sent (k + j)"
proof -
  have "(0x7f :: u32) = mask 7" by (simp add: mask_eq_exp_minus_1)
  then show ?thesis
    unfolding code_at_def by (simp only: bit_drop_bit_eq comp_def bit_mask_iff sent_def) auto
qed

lemma code_at_pin: "packet_pin (ucast (code_at k AND 1)) = Pin False (sent k) False"
  using packet_pin_bit [of 0 "code_at k"] bit_code_at [of k 0] by simp

lemma code_at_pins:
  assumes "n \<le> 32"
  shows "stream_pins [code_at k] n False = map (\<lambda>j. Pin False (sent j) False) [k..<k + n]"
  using assms by (auto intro!: nth_equalityI simp: stream_pins_def stream_bit_def rd_def bit_code_at)

lemma code_at_drop: "drop_bit n (code_at k) = code_at (k + n)"
  by (simp add: code_at_def drop_bit_drop_bit add.commute)

section \<open>One device after the other\<close>

abbreviation chain_bits :: "chip list \<Rightarrow> bool list" where
  "chain_bits ds \<equiv> concat (map chip_bits ds)"

definition enum_inv :: "chip list \<Rightarrow> enum_locals \<Rightarrow> bool" where
  "enum_inv ds l \<longleftrightarrow> invalid_code l = code_at (length (chain_bits ds)) \<and> devindex l = length ds \<and>
     idcodes l = map chip_code ds \<and> enum_err l = APP_ERR_NONE"

lemma trace_chip:
  assumes "cap = chain_bits (ds @ d # es)" and "j < length (chip_bits d)"
  shows "trace cap (length (chain_bits ds) + j) = chip_bits d ! j"
  using assms by (simp add: trace_def nth_append)

lemma trace_end: "cap = chain_bits ds \<Longrightarrow> trace cap (length (chain_bits ds) + j) = sent j"
  by (simp add: trace_def)

lemma bit_bits_word_upt: "bit (bits_word (map f [a..<b])) n \<longleftrightarrow> n < 32 \<and> n < b - a \<and> f (a + n)"
  by (auto simp: bit_bits_word)

lemma map_upt_shift:
  assumes "\<And>j. a \<le> j \<Longrightarrow> j < b \<Longrightarrow> g (k + j) = f j"
  shows "map g [k + a..<k + b] = map f [a..<b]"
  by (rule nth_equalityI) (use assms [of "a + _"] in \<open>simp_all add: add.assoc\<close>)

lemma word_of_pieces:
  assumes "bit w 0"
  shows "push_bit 12 (bits_word (map (bit w) [12..<32])) OR push_bit 1 (bits_word (map (bit w) [1..<12])) OR 0x01
    = (w :: u32)"
proof (rule bit_word_eqI)
  fix n assume "n < LENGTH(32)"
  then have n: "n < 32" by simp
  have "bit (push_bit 12 (bits_word (map (bit w) [12..<32]))) n \<longleftrightarrow> 12 \<le> n \<and> bit w n"
    unfolding bit_push_bit_iff bit_bits_word_upt using n by auto
  moreover have "bit (push_bit 1 (bits_word (map (bit w) [1..<12]))) n \<longleftrightarrow> 1 \<le> n \<and> n < 12 \<and> bit w n"
    unfolding bit_push_bit_iff bit_bits_word_upt using n by auto
  ultimately show "bit (push_bit 12 (bits_word (map (bit w) [12..<32])) OR
      push_bit 1 (bits_word (map (bit w) [1..<12])) OR 0x01) n = bit w n"
    unfolding bit_or_iff using assms by (cases "n = 0") (auto simp: bit_1_iff)
qed

lemma rd_bits_to_words:
  assumes "length bs = n" "0 < n" "n \<le> 32"
  shows "rd (bits_to_words bs) 0 = bits_word bs"
proof -
  have "(n + 31) div 32 = 1" using assms(2,3) by linarith
  then show ?thesis using assms by (simp add: rd_def bits_to_words_def)
qed

locale scan_cable = reliable_cable cb dev scan_step scan_tdo
  for cb :: "'c jtag_cable" and dev :: "'c \<Rightarrow> scan_dev"
begin

lemma scan_bit:
  assumes "dev (cable s) = scan_at cap k" "cap \<noteq> []"
  shows "\<exists>s'. jtag_read_write_bit cb (ucast (code_at k AND 0x01)) s =
      ((APP_ERR_NONE, of_bool (trace cap k)), s') \<and> dev (cable s') = scan_at cap (Suc k)"
proof -
  let ?r = "jtag_read_write_bit cb (ucast (code_at k AND 0x01)) s"
  have "fst ?r = (APP_ERR_NONE, of_bool (trace cap k))"
    using assms by (intro prod_eqI)
      (simp_all add: jtag_read_write_bit_def cable_read_write_bit_def bit_inout_ok bit_inout_tdo scan_tdo_at)
  moreover have "dev (cable (snd ?r)) = scan_at cap (Suc k)"
    using assms by (simp add: jtag_read_write_bit_def cable_read_write_bit_def bit_inout code_at_pin scan_step_at)
  ultimately show ?thesis by (metis prod.collapse)
qed

lemma scan_stream:
  assumes "dev (cable s) = scan_at cap k" "cap \<noteq> []" "0 < n" "n \<le> 32"
  shows "\<exists>s' ws. jtag_read_write_stream cb [code_at k] (int n) False False s = ((APP_ERR_NONE, ws), s') \<and>
      rd ws 0 = bits_word (map (trace cap) [k..<k + n]) \<and> dev (cable s') = scan_at cap (k + n)"
proof -
  let ?r = "on_cable (cable_read_write_stream cb [code_at k] (int n) False) s"
  have n: "n \<le> 32 * length [code_at k]" using assms(4) by simp
  have "fst (fst ?r) = APP_ERR_NONE"
    by (simp add: cable_read_write_stream_def stream_inout_ok)
  moreover have "snd (fst ?r) = bits_to_words (map (trace cap) [k..<k + n])"
    using stream_inout_tdo [OF assms(3) n] assms(1,2)
    by (simp add: cable_read_write_stream_def code_at_pins [OF assms(4)] scan_run_at(2))
  moreover have "dev (cable (snd ?r)) = scan_at cap (k + n)"
    using stream_inout [OF assms(3) n] assms(1,2)
    by (simp add: cable_read_write_stream_def code_at_pins [OF assms(4)] scan_run_at(1))
  ultimately show ?thesis
    using rd_bits_to_words [of "map (trace cap) [k..<k + n]" n] assms(3,4)
    by (intro exI [of _ "snd ?r"] exI [of _ "snd (fst ?r)"])
      (simp add: jtag_read_write_stream_def Let_def split_beta prod_eq_iff)
qed

lemma enum_device_chip:
  assumes inv: "enum_inv ds l" and dev: "dev (cable s) = scan_at cap (length (chain_bits ds))"
    and cap: "cap = chain_bits (ds @ d # es)" and legal: "legal_chip d" and mem: "\<And>n. malloc_ok h n"
  shows "\<exists>l' s'. enum_device h cb l s = (Next_Device l', s') \<and> enum_inv (ds @ [d]) l' \<and>
    dev (cable s') = scan_at cap (length (chain_bits (ds @ [d])))"
proof -
  let ?k = "length (chain_bits ds)"
  have ne: "cap \<noteq> []" using cap by (cases d) (auto simp: word_bits_def)
  have t: "trace cap (?k + j) = chip_bits d ! j" if "j < length (chip_bits d)" for j
    using trace_chip [OF cap that] .
  obtain s1 where s1: "jtag_read_write_bit cb (ucast (code_at ?k AND 0x01)) s =
      ((APP_ERR_NONE, of_bool (trace cap ?k)), s1)" "dev (cable s1) = scan_at cap (Suc ?k)"
    using scan_bit [OF dev ne] by blast
  show ?thesis
  proof (cases d)
    case Bypass
    with t [of 0] have "\<not> trace cap ?k" by simp
    with s1 inv mem Bypass show ?thesis
      by (auto simp: enum_device_def enum_inv_def store_idcode_def Let_def code_at_drop)
  next
    case (Idcode w)
    then have w: "bit w 0" "bits_word (map (bit w) [1..<12]) \<noteq> 0x3f" using legal by simp_all
    have t': "trace cap (?k + j) = bit w j" if "j < 32" for j
      using t [of j] that Idcode by (simp add: word_bits_def)
    obtain s2 ws2 where s2: "jtag_read_write_stream cb [code_at (Suc ?k)] 11 False False s1 =
        ((APP_ERR_NONE, ws2), s2)" "rd ws2 0 = bits_word (map (trace cap) [Suc ?k..<Suc ?k + 11])"
        "dev (cable s2) = scan_at cap (Suc ?k + 11)"
      using scan_stream [OF s1(2) ne, of 11] by auto
    obtain s3 ws3 where s3: "jtag_read_write_stream cb [code_at (Suc ?k + 11)] 20 False False s2 =
        ((APP_ERR_NONE, ws3), s3)" "rd ws3 0 = bits_word (map (trace cap) [Suc ?k + 11..<Suc ?k + 11 + 20])"
        "dev (cable s3) = scan_at cap (Suc ?k + 11 + 20)"
      using scan_stream [OF s2(3) ne, of 20] by auto
    have m2: "map (trace cap) [Suc ?k..<Suc ?k + 11] = map (bit w) [1..<12]"
      using map_upt_shift [of 1 12 "trace cap" ?k "bit w"] t' by (simp add: add.commute del: upt_Suc)
    have m3: "map (trace cap) [Suc ?k + 11..<Suc ?k + 11 + 20] = map (bit w) [12..<32]"
      using map_upt_shift [of 12 32 "trace cap" ?k "bit w"] t' by (simp add: add.commute del: upt_Suc)
    have "trace cap ?k" using t' [of 0] w(1) by simp
    with s1 s2 s3 inv mem Idcode w(2) word_of_pieces [OF w(1)] show ?thesis
      unfolding m2 m3
      by (simp add: enum_device_def enum_inv_def store_idcode_def Let_def code_at_drop add.commute
          del: upt_Suc)
  qed
qed

lemma enum_device_end:
  assumes inv: "enum_inv ds l" and dev: "dev (cable s) = scan_at cap (length (chain_bits ds))"
    and cap: "cap = chain_bits ds" and ne: "cap \<noteq> []"
  shows "\<exists>l' s'. enum_device h cb l s = (Chain_End l', s') \<and> idcodes l' = map chip_code ds \<and>
    enum_err l' = APP_ERR_NONE \<and> scan_tap (dev (cable s')) = Shift_DR"
proof -
  let ?k = "length (chain_bits ds)"
  have t: "trace cap (?k + j) = sent j" for j using trace_end [OF cap] .
  obtain s1 where s1: "jtag_read_write_bit cb (ucast (code_at ?k AND 0x01)) s =
      ((APP_ERR_NONE, of_bool (trace cap ?k)), s1)" "dev (cable s1) = scan_at cap (Suc ?k)"
    using scan_bit [OF dev ne] by blast
  obtain s2 ws2 where s2: "jtag_read_write_stream cb [code_at (Suc ?k)] 11 False False s1 =
      ((APP_ERR_NONE, ws2), s2)" "rd ws2 0 = bits_word (map (trace cap) [Suc ?k..<Suc ?k + 11])"
      "dev (cable s2) = scan_at cap (Suc ?k + 11)"
    using scan_stream [OF s1(2) ne, of 11] by auto
  have "map (trace cap) [Suc ?k..<Suc ?k + 11] = map sent [1..<12]"
    using map_upt_shift [of 1 12 "trace cap" ?k sent] t by (simp add: add.commute del: upt_Suc)
  moreover have "bits_word (map sent [1..<12]) = 0x3f"
    by (simp add: bits_word_def sent_def upt_rec)
  ultimately have "rd ws2 0 = 0x3f" using s2(2) by simp
  moreover have "trace cap ?k" using t [of 0] by (simp add: sent_def)
  ultimately show ?thesis
    using s1 s2 inv
    by (simp add: enum_device_def enum_inv_def Let_def code_at_drop scan_at_def)
qed

lemma enum_loop_chain:
  assumes "enum_inv ds l" and "dev (cable s) = scan_at cap (length (chain_bits ds))"
    and "cap = chain_bits (ds @ es)" and "cap \<noteq> []" and "\<And>n. malloc_ok h n"
    and "\<forall>d \<in> set es. legal_chip d" and "length (ds @ es) \<le> MAX_DEVICES"
  shows "\<exists>l' s'. enum_loop h cb l s = (Chain_End l', s') \<and> idcodes l' = map chip_code (ds @ es) \<and>
    enum_err l' = APP_ERR_NONE \<and> scan_tap (dev (cable s')) = Shift_DR"
  using assms
proof (induction es arbitrary: ds l s)
  case Nil
  show ?case
  proof (cases "devindex l < MAX_DEVICES")
    case True
    with enum_device_end [OF Nil.prems(1,2) _ Nil.prems(4), of h] Nil.prems(3) show ?thesis
      by (subst enum_loop.simps) auto
  next
    case False
    with Nil.prems show ?thesis
      by (subst enum_loop.simps) (simp add: enum_inv_def scan_at_def)
  qed
next
  case (Cons d es)
  obtain l' s' where n: "enum_device h cb l s = (Next_Device l', s')" "enum_inv (ds @ [d]) l'"
    "dev (cable s') = scan_at cap (length (chain_bits (ds @ [d])))"
    using enum_device_chip [OF Cons.prems(1,2,3) _ Cons.prems(5)] Cons.prems(6) by auto
  have "devindex l < MAX_DEVICES" using Cons.prems(1,7) by (simp add: enum_inv_def)
  with n(1) have "enum_loop h cb l s = enum_loop h cb l' s'" by (subst enum_loop.simps) simp
  with Cons.IH [OF n(2,3)] Cons.prems(3-7) show ?case by simp
qed

lemma enum_bits:
  "dev (cable (snd (jtag_write_bit cb p s))) = scan_step (packet_pin p) (dev (cable s))"
  "fst (jtag_write_bit cb p s) = APP_ERR_NONE"
  by (simp_all add: jtag_write_bit_def cable_write_bit_def bit_out bit_out_ok)

end

interpretation xess_scan: scan_cable
    "xess_cable_driver x86_64 ini (board_port xess_wiring scan_step scan_tdo)" board_dev for ini
  by unfold_locales

section \<open>The whole enumeration\<close>

lemma enumerate_chain:
  assumes "scan_cable cb dev" and "scan_tap (dev (cable s)) = Run_Test_Idle"
    and "scan_cap (dev (cable s)) = chain_bits ds" and "ds \<noteq> []" and "\<forall>d \<in> set ds. legal_chip d"
    and "length ds \<le> MAX_DEVICES" and "\<And>n. malloc_ok h n"
  shows "fst (jtag_enumerate_chain h cb s) = (APP_ERR_NONE, Some (map chip_code ds)) \<and>
    scan_tap (dev (cable (snd (jtag_enumerate_chain h cb s)))) = Run_Test_Idle"
proof -
  note bits = scan_cable.enum_bits [OF assms(1)]
  let ?f = "err_seq [jtag_write_bit cb TMS, jtag_write_bit cb 0, jtag_write_bit cb 0]"
  let ?g = "err_seq [jtag_write_bit cb TMS, jtag_write_bit cb TMS, jtag_write_bit cb 0]"
  let ?l = "\<lparr>invalid_code = 0x7f, devindex = 0, idcodes = [], reallocs = 0, enum_err = APP_ERR_NONE\<rparr>"
  have f: "dev (cable (snd (?f s))) = scan_at (chain_bits ds) (length (chain_bits []))"
    using assms(2,3) by (simp add: snd_err_seq bits scan_step_def scan_at_def del: err_seq.simps)
  have ok: "fst (?f t) = APP_ERR_NONE" "fst (?g t) = APP_ERR_NONE" for t
    by (rule err_seq_none; use bits in auto)+
  have ne: "chain_bits ds \<noteq> []"
  proof -
    have "chip_bits d \<noteq> []" for d by (cases d) (simp_all add: word_bits_def)
    with assms(4) show ?thesis by (cases ds) auto
  qed
  have "enum_inv [] ?l" by (simp add: enum_inv_def code_at_def)
  from scan_cable.enum_loop_chain [OF assms(1) this f, of ds h, OF _ ne assms(7,5)] assms(6)
  obtain l' s' where loop: "enum_loop h cb ?l (snd (?f s)) = (Chain_End l', s')"
    "idcodes l' = map chip_code ds" "enum_err l' = APP_ERR_NONE" "scan_tap (dev (cable s')) = Shift_DR"
    by (auto simp del: err_seq.simps)
  have "jtag_enumerate_chain h cb s = ((APP_ERR_NONE, Some (map chip_code ds)), snd (?g s'))"
    using assms(7) loop(1-3) ok
    by (simp add: jtag_enumerate_chain_def Let_def split_beta del: err_seq.simps)
  moreover have "scan_tap (dev (cable (snd (?g s')))) = Run_Test_Idle"
    by (simp add: snd_err_seq bits scan_step_def loop(4) del: err_seq.simps)
  ultimately show ?thesis by simp
qed

section \<open>Property\<close>

text \<open>
  C8: On a chain of up to \<open>MAX_DEVICES\<close> chips, some with an IDCODE register and some with
  only a BYPASS bit, \<open>jtag_enumerate_chain\<close> ends, reports no error, returns the IDCODE of every
  chip in chain order with all-ones for a chip that has none, and leaves the TAP in
  Run-Test/Idle.
\<close>

theorem enumerate_finds_chain:
  assumes "scan_cable cb dev" and "scan_tap (dev (cable s)) = Run_Test_Idle"
    and "scan_cap (dev (cable s)) = chain_bits ds" and "ds \<noteq> []" and "\<forall>d \<in> set ds. legal_chip d"
    and "length ds \<le> MAX_DEVICES" and "\<And>n. malloc_ok h n"
  shows "fst (jtag_enumerate_chain h cb s) = (APP_ERR_NONE, Some (map chip_code ds)) \<and>
    scan_tap (dev (cable (snd (jtag_enumerate_chain h cb s)))) = Run_Test_Idle"
  using assms by (rule enumerate_chain)

theorem enumerate_finds_chain_witness:
  "fst (jtag_enumerate_chain x86_64
      (xess_cable_driver x86_64 (\<lambda>s. (APP_ERR_NONE, s)) (board_port xess_wiring scan_step scan_tdo))
      (init_chain \<lparr>lines = 0, board_dev = \<lparr>scan_tap = Run_Test_Idle, scan_reg = [],
         scan_cap = chain_bits [Idcode 0x14951185, Bypass]\<rparr>\<rparr>))
    = (APP_ERR_NONE, Some [0x14951185, -1])"
  using enumerate_finds_chain [OF xess_scan.scan_cable_axioms, of
      "init_chain \<lparr>lines = 0, board_dev = \<lparr>scan_tap = Run_Test_Idle, scan_reg = [],
         scan_cap = chain_bits [Idcode 0x14951185, Bypass]\<rparr>\<rparr>" "[Idcode 0x14951185, Bypass]" x86_64
      "\<lambda>s. (APP_ERR_NONE, s)"]
  by (simp add: init_chain_def const_simps bits_word_def upt_rec)

end
