(* ===== verification/Adv_Dbg.thy ===== *)
theory Adv_Dbg
  imports Jtag_Tap
begin

text \<open>
  Transactions with the advanced debug unit (\<^verbatim>\<open>adv_dbg_commands.c\<close>,
  \<^verbatim>\<open>adv_dbg_commands.h\<close>): selection of a module and of a register in it, access to
  module registers, bursts, and the JTAG serial port. The build options are the defaults of
  the \<^verbatim>\<open>Makefile\<close>: \<open>ADBG_OPT_HISPEED\<close> and \<open>OPTIMIZE_JSP_FOR_USB\<close> set,
  \<open>ENABLE_JSP_MULTI\<close> not set.
\<close>

section \<open>Constants\<close>

definition DBG_MODULE_SELECT_REG_SIZE :: nat where [const_simps]: "DBG_MODULE_SELECT_REG_SIZE = 2"
definition DC_WISHBONE :: int where [const_simps]: "DC_WISHBONE = 0"
definition DC_CPU0 :: int where [const_simps]: "DC_CPU0 = 1"
definition DC_CPU1 :: int where [const_simps]: "DC_CPU1 = 2"
definition DC_JSP :: int where [const_simps]: "DC_JSP = 3"
definition ADBG_CRC_POLY :: u32 where [const_simps]: "ADBG_CRC_POLY = 0xedb88320"
definition DBG_WB_REG_SEL_LEN :: nat where [const_simps]: "DBG_WB_REG_SEL_LEN = 1"
definition DBG_WB_REG_ERROR :: u64 where [const_simps]: "DBG_WB_REG_ERROR = 0"
definition DBG_WB_OPCODE_LEN :: nat where [const_simps]: "DBG_WB_OPCODE_LEN = 4"
definition DBG_WB_CMD_NOP :: u32 where [const_simps]: "DBG_WB_CMD_NOP = 0x0"
definition DBG_WB_CMD_BWRITE8 :: u32 where [const_simps]: "DBG_WB_CMD_BWRITE8 = 0x1"
definition DBG_WB_CMD_BWRITE16 :: u32 where [const_simps]: "DBG_WB_CMD_BWRITE16 = 0x2"
definition DBG_WB_CMD_BWRITE32 :: u32 where [const_simps]: "DBG_WB_CMD_BWRITE32 = 0x3"
definition DBG_WB_CMD_BREAD8 :: u32 where [const_simps]: "DBG_WB_CMD_BREAD8 = 0x5"
definition DBG_WB_CMD_BREAD16 :: u32 where [const_simps]: "DBG_WB_CMD_BREAD16 = 0x6"
definition DBG_WB_CMD_BREAD32 :: u32 where [const_simps]: "DBG_WB_CMD_BREAD32 = 0x7"
definition DBG_WB_CMD_IREG_WR :: u32 where [const_simps]: "DBG_WB_CMD_IREG_WR = 0x9"
definition DBG_WB_CMD_IREG_SEL :: u32 where [const_simps]: "DBG_WB_CMD_IREG_SEL = 0xd"
definition DBG_CPU0_REG_SEL_LEN :: nat where [const_simps]: "DBG_CPU0_REG_SEL_LEN = 1"
definition DBG_CPU0_REG_STATUS :: u64 where [const_simps]: "DBG_CPU0_REG_STATUS = 0"
definition DBG_CPU0_OPCODE_LEN :: nat where [const_simps]: "DBG_CPU0_OPCODE_LEN = 4"
definition DBG_CPU0_CMD_NOP :: u32 where [const_simps]: "DBG_CPU0_CMD_NOP = 0x0"
definition DBG_CPU0_CMD_BWRITE32 :: u32 where [const_simps]: "DBG_CPU0_CMD_BWRITE32 = 0x3"
definition DBG_CPU0_CMD_BREAD32 :: u32 where [const_simps]: "DBG_CPU0_CMD_BREAD32 = 0x7"
definition DBG_CPU0_CMD_IREG_WR :: u32 where [const_simps]: "DBG_CPU0_CMD_IREG_WR = 0x9"
definition DBG_CPU0_CMD_IREG_SEL :: u32 where [const_simps]: "DBG_CPU0_CMD_IREG_SEL = 0xd"
definition DBG_CPU1_REG_SEL_LEN :: nat where [const_simps]: "DBG_CPU1_REG_SEL_LEN = 1"
definition DBG_CPU1_REG_STATUS :: u64 where [const_simps]: "DBG_CPU1_REG_STATUS = 0"
definition DBG_CPU1_OPCODE_LEN :: nat where [const_simps]: "DBG_CPU1_OPCODE_LEN = 4"
definition DBG_CPU1_CMD_NOP :: u32 where [const_simps]: "DBG_CPU1_CMD_NOP = 0x0"
definition DBG_CPU1_CMD_BWRITE32 :: u32 where [const_simps]: "DBG_CPU1_CMD_BWRITE32 = 0x3"
definition DBG_CPU1_CMD_BREAD32 :: u32 where [const_simps]: "DBG_CPU1_CMD_BREAD32 = 0x7"
definition DBG_CPU1_CMD_IREG_WR :: u32 where [const_simps]: "DBG_CPU1_CMD_IREG_WR = 0x9"
definition DBG_CPU1_CMD_IREG_SEL :: u32 where [const_simps]: "DBG_CPU1_CMD_IREG_SEL = 0xd"
definition MAX_READ_STATUS_WAIT :: nat where [const_simps]: "MAX_READ_STATUS_WAIT = 100"
definition MAX_BUS_ERRORS :: nat where [const_simps]: "MAX_BUS_ERRORS = 10"

section \<open>CRC\<close>

fun adbg_crc_loop :: "host \<Rightarrow> u32 \<Rightarrow> nat \<Rightarrow> nat \<Rightarrow> u32 \<Rightarrow> u32" where
  "adbg_crc_loop h data_in 0 i crc_out = crc_out"
| "adbg_crc_loop h data_in (Suc n) i crc_out =
     (let d = (if c_shr h data_in (int i) AND 0x1 \<noteq> 0 then 0xffffffff else 0);
          c = (if crc_out AND 0x1 \<noteq> 0 then 0xffffffff else 0);
          crc_out = drop_bit 1 crc_out;
          crc_out = crc_out XOR ((d XOR c) AND ADBG_CRC_POLY)
      in adbg_crc_loop h data_in n (i + 1) crc_out)"

definition adbg_compute_crc :: "host \<Rightarrow> u32 \<Rightarrow> u32 \<Rightarrow> int \<Rightarrow> u32" where
  "adbg_compute_crc h crc_in data_in length_bits = adbg_crc_loop h data_in (nat length_bits) 0 crc_in"

section \<open>Modules and their registers\<close>

text \<open>Note that the module counts as selected afterwards even where a transfer failed.\<close>

definition adbg_select_module :: "'c jtag_cable \<Rightarrow> int \<Rightarrow> 'c chain act" where
  "adbg_select_module cb chain s =
     (if current_chain s = chain then (APP_ERR_NONE, s)
      else let s = s\<lparr>current_chain := -1, desired_chain := chain\<rparr>;
               data = word_of_int chain OR push_bit DBG_MODULE_SELECT_REG_SIZE 1;
               (err, s) = err_seq [tap_set_shift_dr cb, jtag_write_stream cb [data] 3 True,
                   tap_exit_to_idle cb] s
           in (err, s\<lparr>current_chain := chain\<rparr>))"

text \<open>Index length and opcode of the register commands, for the modules that have registers.\<close>

definition ireg_select :: "int \<Rightarrow> (nat \<times> u32) option" where
  "ireg_select chain =
     (if chain = DC_WISHBONE then Some (DBG_WB_REG_SEL_LEN, DBG_WB_CMD_IREG_SEL)
      else if chain = DC_CPU0 then Some (DBG_CPU0_REG_SEL_LEN, DBG_CPU0_CMD_IREG_SEL)
      else if chain = DC_CPU1 then Some (DBG_CPU1_REG_SEL_LEN, DBG_CPU1_CMD_IREG_SEL)
      else None)"

definition ireg_write :: "int \<Rightarrow> (nat \<times> u32) option" where
  "ireg_write chain =
     (if chain = DC_WISHBONE then Some (DBG_WB_REG_SEL_LEN, DBG_WB_CMD_IREG_WR)
      else if chain = DC_CPU0 then Some (DBG_CPU0_REG_SEL_LEN, DBG_CPU0_CMD_IREG_WR)
      else if chain = DC_CPU1 then Some (DBG_CPU1_REG_SEL_LEN, DBG_CPU1_CMD_IREG_WR)
      else None)"

definition ireg_nop :: "int \<Rightarrow> (nat \<times> u32) option" where
  "ireg_nop chain =
     (if chain = DC_WISHBONE then Some (DBG_WB_OPCODE_LEN, DBG_WB_CMD_NOP)
      else if chain = DC_CPU0 then Some (DBG_CPU0_OPCODE_LEN, DBG_CPU0_CMD_NOP)
      else if chain = DC_CPU1 then Some (DBG_CPU1_OPCODE_LEN, DBG_CPU1_CMD_NOP)
      else None)"

definition ireg_command :: "u32 \<Rightarrow> nat \<Rightarrow> u64 \<Rightarrow> u32" where
  "ireg_command opcode index_len regidx =
     push_bit index_len (opcode AND NOT (push_bit DBG_WB_OPCODE_LEN 1)) OR ucast regidx"

text \<open>\<open>current_reg_idx[current_chain] = regidx\<close>: the array holds ints.\<close>

definition set_reg_idx :: "u64 \<Rightarrow> 'c chain \<Rightarrow> 'c chain" where
  "set_reg_idx regidx s = s\<lparr>current_reg_idx :=
     (current_reg_idx s)(current_chain s := signed_take_bit 31 (uint regidx))\<rparr>"

definition adbg_select_ctrl_reg :: "'c jtag_cable \<Rightarrow> u64 \<Rightarrow> 'c chain act" where
  "adbg_select_ctrl_reg cb regidx s =
     (let (err, s) = adbg_select_module cb (desired_chain s) s
      in if err \<noteq> 0 then (err, s)
         else if word_of_int (current_reg_idx s (current_chain s)) = regidx then (APP_ERR_NONE, s)
         else case ireg_select (current_chain s) of
           None \<Rightarrow> (1, s)
         | Some (index_len, opcode) \<Rightarrow>
             let data = ireg_command opcode index_len regidx;
                 (e, s) = err_seq [tap_set_shift_dr cb,
                     jtag_write_stream cb [data] (5 + int index_len) True, tap_exit_to_idle cb] s;
                 s = retry_ok s
             in (err OR e, set_reg_idx regidx s))"

definition adbg_ctrl_write :: "'c jtag_cable \<Rightarrow> u64 \<Rightarrow> u32 list \<Rightarrow> int \<Rightarrow> 'c chain act" where
  "adbg_ctrl_write cb regidx cmd_data length_bits s =
     (let (err, s) = adbg_select_module cb (desired_chain s) s
      in if err \<noteq> 0 then (err, s)
         else case ireg_write (current_chain s) of
           None \<Rightarrow> (1, s)
         | Some (index_len, opcode) \<Rightarrow>
             let data = ireg_command opcode index_len regidx;
                 (e, s) = err_seq [tap_set_shift_dr cb,
                     jtag_write_stream cb cmd_data length_bits False,
                     jtag_write_stream cb [data] (5 + int index_len) True, tap_exit_to_idle cb] s;
                 s = retry_ok s
             in (err OR e, set_reg_idx regidx s))"

text \<open>The second result is the words written to \<open>data\<close>, if the function gets that far.\<close>

definition adbg_ctrl_read :: "'c jtag_cable \<Rightarrow> u64 \<Rightarrow> int \<Rightarrow> 'c chain
    \<Rightarrow> (u32 \<times> u32 list option) \<times> 'c chain" where
  "adbg_ctrl_read cb regidx databits s =
     (let (err, s) = adbg_select_module cb (desired_chain s) s
      in if err \<noteq> 0 then ((err, None), s)
         else let (err, s) = adbg_select_ctrl_reg cb regidx s
         in if err \<noteq> 0 then ((err, None), s)
         else case ireg_nop (current_chain s) of
           None \<Rightarrow> ((1, None), s)
         | Some (opcode_len, opcode) \<Rightarrow>
             let outdata = [opcode AND NOT (push_bit opcode_len 0x1), 0, 0, 0];
                 (e1, s) = tap_set_shift_dr cb s;
                 ((e2, data), s) = jtag_read_write_stream cb outdata databits True False s;
                 (e3, s) = err_seq [jtag_write_stream cb outdata (int opcode_len + 1) True,
                     tap_exit_to_idle cb] s
             in ((err OR e1 OR e2 OR e3, Some data), retry_ok s))"

definition burst_command_words :: "u32 \<Rightarrow> u64 \<Rightarrow> int \<Rightarrow> u32 list" where
  "burst_command_words opcode address length_words =
     [ucast (word_of_int length_words OR push_bit 16 address),
      ucast ((drop_bit 16 address OR push_bit 16 (ucast (opcode AND 0xf)))
             AND NOT (push_bit 20 0x1) :: u64)]"

definition adbg_burst_command :: "'c jtag_cable \<Rightarrow> u32 \<Rightarrow> u64 \<Rightarrow> int \<Rightarrow> 'c chain act" where
  "adbg_burst_command cb opcode address length_words s =
     (let (err, s) = adbg_select_module cb (desired_chain s) s
      in if err \<noteq> 0 then (err, s)
         else let (e, s) = err_seq [tap_set_shift_dr cb,
                    jtag_write_stream cb (burst_command_words opcode address length_words) 53 True,
                    tap_exit_to_idle cb] s
              in (err OR e, retry_ok s))"

section \<open>Memory as the bursts see it\<close>

text \<open>Byte \<open>k\<close> of a buffer, and the word at an offset (little-endian host); behind the end of
  the buffer an access finds the stray bytes of the host.\<close>

definition mem_byte :: "host \<Rightarrow> u8 list \<Rightarrow> nat \<Rightarrow> u8" where
  "mem_byte h data k = (if k < length data then data ! k else stray h (k - length data))"

definition mem_word :: "host \<Rightarrow> u8 list \<Rightarrow> nat \<Rightarrow> u32" where
  "mem_word h data k = ucast (mem_byte h data k) OR push_bit 8 (ucast (mem_byte h data (k + 1)))
     OR push_bit 16 (ucast (mem_byte h data (k + 2))) OR push_bit 24 (ucast (mem_byte h data (k + 3)))"

definition mem_copy :: "host \<Rightarrow> u8 list \<Rightarrow> nat \<Rightarrow> nat \<Rightarrow> u8 list" where
  "mem_copy h data k n = map (mem_byte h data) [k..<k + n]"

text \<open>\<open>check_buffer_size\<close> of \<^verbatim>\<open>utilities.c\<close>, as a function of the size held so far.\<close>

definition check_buffer_size :: "host \<Rightarrow> int \<Rightarrow> int \<Rightarrow> u32 \<times> int" where
  "check_buffer_size h buf_size_bytes requested_size_bytes =
     (if requested_size_bytes \<le> buf_size_bytes then (APP_ERR_NONE, buf_size_bytes)
      else if malloc_ok h requested_size_bytes then (APP_ERR_NONE, requested_size_bytes)
      else (APP_ERR_MALLOC, 0))"

definition check_input_scratchpad :: "host \<Rightarrow> int \<Rightarrow> 'c chain act" where
  "check_input_scratchpad h n s =
     (let (e, z) = check_buffer_size h (input_scratchpad_size s) n
      in (e, s\<lparr>input_scratchpad_size := z\<rparr>))"

definition check_output_scratchpad :: "host \<Rightarrow> int \<Rightarrow> 'c chain act" where
  "check_output_scratchpad h n s =
     (let (e, z) = check_buffer_size h (output_scratchpad_size s) n
      in (e, s\<lparr>output_scratchpad_size := z\<rparr>))"

text \<open>Arithmetic on \<open>unsigned long\<close> at the size it has on the host.\<close>

definition ulong :: "host \<Rightarrow> u64 \<Rightarrow> u64" where
  "ulong h x = (if sizeof_ulong h = 4 then x AND 0xFFFFFFFF else x)"

section \<open>Bursts\<close>

text \<open>
  The locals that live across the two retry labels. An attempt is the code from the label
  \<open>retry_partial\<close> on; it returns, exits the process, or jumps to one of the labels.
\<close>

record burst_pos =
  burst_i :: int
  burst_addr :: u64
  bus_error_retries :: nat
  burst_err :: u32
  err_data :: "u32 list"

datatype burst_out = Burst_Return u32 | Burst_Exit | Retry_Full burst_pos | Retry_Partial burst_pos

text \<open>A call that fills the first words of an array.\<close>

definition overlay :: "u32 list option \<Rightarrow> u32 list \<Rightarrow> u32 list" where
  "overlay new old = (case new of None \<Rightarrow> old | Some ws \<Rightarrow> ws @ drop (length ws) old)"

text \<open>\<open>addr = (err_data[0] >> 1) | (err_data[1] << 31); i = (addr - start_address) / word_size_bytes\<close>.\<close>

definition bus_error_addr :: "u32 list \<Rightarrow> u64" where
  "bus_error_addr ed = ucast (drop_bit 1 (rd ed 0) OR push_bit 31 (rd ed 1))"

definition bus_error_index :: "host \<Rightarrow> u64 \<Rightarrow> u64 \<Rightarrow> int \<Rightarrow> int" where
  "bus_error_index h addr start_address word_size_bytes =
     signed_take_bit 31 (uint (ulong h (addr - start_address) div ulong h (word_of_int word_size_bytes)))"

text \<open>The wait for the status bit of a read: None when it times out.\<close>

function wait_status :: "'c jtag_cable \<Rightarrow> nat \<Rightarrow> u32 \<Rightarrow> 'c chain \<Rightarrow> (bool \<times> u32) \<times> 'c chain" where
  "wait_status cb j err s =
     (let ((e, status), s) = jtag_read_write_bit cb 0 s;
          err = err OR e;
          j = j + 1
      in if MAX_READ_STATUS_WAIT < j then ((False, err), s)
         else if status \<noteq> 0 then ((True, err), s)
         else wait_status cb j err s)"
  by pat_completeness auto
termination
  by (relation "measure (\<lambda>(cb, j, err, s). Suc MAX_READ_STATUS_WAIT - j)") auto

declare wait_status.simps [simp del]

definition burst_read_opcode :: "int \<Rightarrow> int \<Rightarrow> u32 option" where
  "burst_read_opcode chain word_size_bytes =
     (if chain = DC_WISHBONE then
        Some (if word_size_bytes = 1 then DBG_WB_CMD_BREAD8
              else if word_size_bytes = 2 then DBG_WB_CMD_BREAD16
              else if word_size_bytes = 4 then DBG_WB_CMD_BREAD32
              else DBG_WB_CMD_BREAD32)
      else if chain = DC_CPU0 then
        Some (if word_size_bytes = 4 then DBG_CPU0_CMD_BREAD32 else DBG_CPU0_CMD_BREAD32)
      else if chain = DC_CPU1 then
        Some (if word_size_bytes = 4 then DBG_CPU1_CMD_BREAD32 else DBG_CPU0_CMD_BREAD32)
      else None)"

definition burst_write_opcode :: "int \<Rightarrow> int \<Rightarrow> u32 option" where
  "burst_write_opcode chain word_size_bytes =
     (if chain = DC_WISHBONE then
        Some (if word_size_bytes = 1 then DBG_WB_CMD_BWRITE8
              else if word_size_bytes = 2 then DBG_WB_CMD_BWRITE16
              else if word_size_bytes = 4 then DBG_WB_CMD_BWRITE32
              else DBG_WB_CMD_BWRITE32)
      else if chain = DC_CPU0 then
        Some (if word_size_bytes = 4 then DBG_CPU0_CMD_BWRITE32 else DBG_CPU0_CMD_BWRITE32)
      else if chain = DC_CPU1 then
        Some (if word_size_bytes = 4 then DBG_CPU1_CMD_BWRITE32 else DBG_CPU0_CMD_BWRITE32)
      else None)"

text \<open>The CRC over the bytes read.\<close>

definition crc_bytes :: "host \<Rightarrow> u8 list \<Rightarrow> u32" where
  "crc_bytes h bytes = fold (\<lambda>b crc. adbg_compute_crc h crc (ucast b) 8) bytes 0xffffffff"

text \<open>
  The check of the Wishbone error register that ends both bursts. On an error the burst
  starts again at the failed address, after \<open>MAX_BUS_ERRORS\<close> of them it is given up. A read
  sets the word it writes to the error register to 1, a write sends what it read.
\<close>

definition check_bus_error :: "host \<Rightarrow> 'c jtag_cable \<Rightarrow> bool \<Rightarrow> int \<Rightarrow> u64 \<Rightarrow> burst_pos \<Rightarrow> 'c chain
    \<Rightarrow> burst_out \<times> 'c chain" where
  "check_bus_error h cb reading word_size_bytes start_address p s =
     (if current_chain s = DC_WISHBONE then
        let ((e1, d1), s) = adbg_ctrl_read cb DBG_WB_REG_ERROR 1 s;
            ed = overlay d1 (err_data p)
        in if rd ed 0 AND 0x1 \<noteq> 0 then
             let ((e2, d2), s) = adbg_ctrl_read cb DBG_WB_REG_ERROR 33 s;
                 ed = overlay d2 ed;
                 addr = bus_error_addr ed;
                 err = burst_err p OR e1 OR e2;
                 retries = bus_error_retries p + 1
             in if MAX_BUS_ERRORS < retries
                then (Burst_Return (err OR APP_ERR_MAX_BUS_ERR), s)
                else let ed = (if reading then ed[0 := 1] else ed);
                         (e3, s) = adbg_ctrl_write cb DBG_WB_REG_ERROR ed 1 s
                     in (Retry_Partial \<lparr>burst_i = bus_error_index h addr start_address word_size_bytes,
                           burst_addr = addr, bus_error_retries = retries,
                           burst_err = err OR e3, err_data = ed\<rparr>, s)
           else (Burst_Return (burst_err p OR e1), retry_ok s)
      else (Burst_Return (burst_err p), retry_ok s))"

text \<open>Where the code asks \<open>retry_do\<close>: give up as \<open>failed\<close> says, or start from the beginning.\<close>

definition retry_or :: "host \<Rightarrow> 'c jtag_cable \<Rightarrow> burst_out \<Rightarrow> burst_pos \<Rightarrow> 'c chain
    \<Rightarrow> burst_out \<times> 'c chain" where
  "retry_or h cb failed p s =
     (let (again, s) = retry_do h cb s in (if again then Retry_Full p else failed, s))"

definition xilinx_kick :: "host \<Rightarrow> 'c jtag_cable \<Rightarrow> 'c chain act" where
  "xilinx_kick h cb s =
     (if global_xilinx_bscan (conf s)
      then err_seq [tap_set_ir h cb 0xFFFFFFFF, tap_enable_debug_module h cb] s
      else (APP_ERR_NONE, s))"

definition burst_read_attempt :: "host \<Rightarrow> 'c jtag_cable \<Rightarrow> u32 \<Rightarrow> int \<Rightarrow> int \<Rightarrow> u64 \<Rightarrow> burst_pos
    \<Rightarrow> u8 list option \<Rightarrow> 'c chain \<Rightarrow> (burst_out \<times> u8 list option) \<times> 'c chain" where
  "burst_read_attempt h cb opcode word_size_bytes word_count start_address p data s =
     (let (e, s) = adbg_burst_command cb opcode (burst_addr p) (word_count - burst_i p) s;
          err = burst_err p OR e
      in if err \<noteq> 0 then ((Burst_Return err, data), s)
      else let (e, s) = err_seq [xilinx_kick h cb, tap_set_shift_dr cb] s;
               ((ready, err), s) = wait_status cb 0 (err OR e) s
      in if \<not> ready
         then let (r, s) = retry_or h cb (Burst_Return (err OR APP_ERR_MAX_RETRY))
                    (p\<lparr>burst_err := APP_ERR_NONE\<rparr>) s
              in ((r, data), s)
      else let n = word_count * word_size_bytes;
               total_size_bytes = n + 4;
               (e, s) = err_seq [check_input_scratchpad h total_size_bytes,
                 check_output_scratchpad h total_size_bytes] s;
               err = err OR e
      in if err \<noteq> APP_ERR_NONE then ((Burst_Return err, data), s)
      else let ((e, words), s) = jtag_read_write_stream cb
                 (replicate (nat ((total_size_bytes + 3) div 4)) 0) (total_size_bytes * 8) False True s;
               err = err OR e;
               bytes = words_to_bytes words;
               data = mem_copy h bytes 0 (nat n);
               crc_read = mem_word h bytes (nat n);
               crc_calc = crc_bytes h data;
               (e, s) = tap_exit_to_idle cb s;
               p = p\<lparr>burst_err := err OR e\<rparr>
      in if crc_calc \<noteq> crc_read
         then let (r, s) = retry_or h cb (Burst_Return (burst_err p OR APP_ERR_CRC)) p s
              in ((r, Some data), s)
         else let (r, s) = check_bus_error h cb True word_size_bytes start_address p s
              in ((r, Some data), s))"

text \<open>The elements of a write are fetched as \<open>unsigned long\<close>, \<open>unsigned short\<close> or
  \<open>unsigned char\<close>, so a 4-byte word is found at a stride of \<open>sizeof(unsigned long)\<close>.\<close>

definition burst_element :: "host \<Rightarrow> u8 list \<Rightarrow> int \<Rightarrow> nat \<Rightarrow> u32" where
  "burst_element h data word_size_bytes k =
     (if word_size_bytes = 4 then mem_word h data (k * sizeof_ulong h)
      else if word_size_bytes = 2 then mem_word h data (k * 2) AND 0xFFFF
      else ucast (mem_byte h data k))"

definition crc_elements :: "host \<Rightarrow> u8 list \<Rightarrow> int \<Rightarrow> nat \<Rightarrow> u32" where
  "crc_elements h data word_size_bytes word_count =
     fold (\<lambda>k crc. adbg_compute_crc h crc (burst_element h data word_size_bytes k)
            (word_size_bytes * 8)) [0..<word_count] 0xffffffff"

definition burst_write_attempt :: "host \<Rightarrow> 'c jtag_cable \<Rightarrow> u32 \<Rightarrow> u8 list \<Rightarrow> int \<Rightarrow> int \<Rightarrow> u64
    \<Rightarrow> burst_pos \<Rightarrow> 'c chain \<Rightarrow> burst_out \<times> 'c chain" where
  "burst_write_attempt h cb opcode data word_size_bytes word_count start_address p s =
     (let (e, s) = adbg_burst_command cb opcode (burst_addr p) (word_count - burst_i p) s;
          err = burst_err p OR e
      in if err \<noteq> 0 then (Burst_Return err, s)
      else let (e, s) = err_seq [tap_set_shift_dr cb, jtag_write_bit cb TDO] s;
               err = err OR e;
               crc_calc = crc_elements h data word_size_bytes (nat word_count);
               n = word_count * word_size_bytes;
               total_size_bytes = n + 4;
               (e, s) = check_output_scratchpad h total_size_bytes s;
               err = err OR e
      in if err \<noteq> APP_ERR_NONE then (Burst_Return err, s)
      else let out = bytes_to_words (mem_copy h data 0 (nat n) @ word_to_bytes crc_calc);
               (e1, s) = err_seq (jtag_write_stream cb out (total_size_bytes * 8) False
                   # replicate (nat (global_DR_prefix_bits (conf s))) (jtag_write_bit cb 0)) s;
               ((e2, crc_match), s) = jtag_read_write_stream cb [0] 1 True False s;
               (e3, s) = err_seq [jtag_write_bit cb TMS, tap_exit_to_idle cb] s;
               p = p\<lparr>burst_err := err OR e1 OR e2 OR e3\<rparr>
      in if rd crc_match 0 = 0 then retry_or h cb Burst_Exit p s
         else check_bus_error h cb False word_size_bytes start_address p s)"

lemma retry_or_never: "retry_or h cb failed p s = (failed, s)"
  by (simp add: retry_or_def retry_do_never)

lemma check_bus_error_retry:
  "fst (check_bus_error h cb reading z a p s) = Retry_Partial p' \<Longrightarrow>
     bus_error_retries p' = Suc (bus_error_retries p) \<and> bus_error_retries p' \<le> MAX_BUS_ERRORS"
  "fst (check_bus_error h cb reading z a p s) \<noteq> Retry_Full p'"
  by (auto simp: check_bus_error_def Let_def split_beta split: if_splits)

lemma burst_read_attempt_retry:
  "fst (fst (burst_read_attempt h cb opc z n a p data s)) = Retry_Partial p' \<Longrightarrow>
     bus_error_retries p' = Suc (bus_error_retries p) \<and> bus_error_retries p' \<le> MAX_BUS_ERRORS"
  "fst (fst (burst_read_attempt h cb opc z n a p data s)) \<noteq> Retry_Full p'"
  by (auto simp: burst_read_attempt_def Let_def split_beta retry_or_never check_bus_error_retry(2)
      split: if_splits dest: check_bus_error_retry(1))

lemma burst_write_attempt_retry:
  "fst (burst_write_attempt h cb opc data z n a p s) = Retry_Partial p' \<Longrightarrow>
     bus_error_retries p' = Suc (bus_error_retries p) \<and> bus_error_retries p' \<le> MAX_BUS_ERRORS"
  "fst (burst_write_attempt h cb opc data z n a p s) \<noteq> Retry_Full p'"
  by (auto simp: burst_write_attempt_def Let_def split_beta retry_or_never check_bus_error_retry(2)
      split: if_splits dest: check_bus_error_retry(1))

lemma attempt_retries:
  "((Retry_Partial p', data'), s') = burst_read_attempt h cb opc z n a p data s \<Longrightarrow>
     bus_error_retries p < bus_error_retries p' \<and> bus_error_retries p' \<le> MAX_BUS_ERRORS"
  "((Retry_Full p', data'), s') \<noteq> burst_read_attempt h cb opc z n a p data s"
  "(Retry_Partial p', s') = burst_write_attempt h cb opc data2 z n a p s \<Longrightarrow>
     bus_error_retries p < bus_error_retries p' \<and> bus_error_retries p' \<le> MAX_BUS_ERRORS"
  "(Retry_Full p', s') \<noteq> burst_write_attempt h cb opc data2 z n a p s"
  by (metis burst_read_attempt_retry burst_write_attempt_retry fst_conv lessI)+

text \<open>The loops over the retry labels. An attempt never asks for a full retry, because no soft
  retries are configured, and asks for a partial one at most \<open>MAX_BUS_ERRORS\<close> times.\<close>

function burst_read_loop :: "host \<Rightarrow> 'c jtag_cable \<Rightarrow> u32 \<Rightarrow> int \<Rightarrow> int \<Rightarrow> u64 \<Rightarrow> burst_pos
    \<Rightarrow> u8 list option \<Rightarrow> 'c chain \<Rightarrow> (u32 option \<times> u8 list option) \<times> 'c chain" where
  "burst_read_loop h cb opcode word_size_bytes word_count start_address p data s =
     (case burst_read_attempt h cb opcode word_size_bytes word_count start_address p data s of
        ((Burst_Return err, data), s) \<Rightarrow> ((Some err, data), s)
      | ((Burst_Exit, data), s) \<Rightarrow> ((None, data), s)
      | ((Retry_Full p, data), s) \<Rightarrow> burst_read_loop h cb opcode word_size_bytes word_count
          start_address (p\<lparr>burst_i := 0, burst_addr := start_address\<rparr>) data s
      | ((Retry_Partial p, data), s) \<Rightarrow> burst_read_loop h cb opcode word_size_bytes word_count
          start_address p data s)"
  by pat_completeness auto
termination
  by (relation "measure (\<lambda>(h, cb, opc, z, n, a, p, data, s). MAX_BUS_ERRORS - bus_error_retries p)")
     (auto dest!: attempt_retries(1) simp: attempt_retries(2))

function burst_write_loop :: "host \<Rightarrow> 'c jtag_cable \<Rightarrow> u32 \<Rightarrow> u8 list \<Rightarrow> int \<Rightarrow> int \<Rightarrow> u64
    \<Rightarrow> burst_pos \<Rightarrow> 'c chain \<Rightarrow> u32 option \<times> 'c chain" where
  "burst_write_loop h cb opcode data word_size_bytes word_count start_address p s =
     (case burst_write_attempt h cb opcode data word_size_bytes word_count start_address p s of
        (Burst_Return err, s) \<Rightarrow> (Some err, s)
      | (Burst_Exit, s) \<Rightarrow> (None, s)
      | (Retry_Full p, s) \<Rightarrow> burst_write_loop h cb opcode data word_size_bytes word_count
          start_address (p\<lparr>burst_i := 0, burst_addr := start_address\<rparr>) s
      | (Retry_Partial p, s) \<Rightarrow> burst_write_loop h cb opcode data word_size_bytes word_count
          start_address p s)"
  by pat_completeness auto
termination
  by (relation "measure (\<lambda>(h, cb, opc, data, z, n, a, p, s). MAX_BUS_ERRORS - bus_error_retries p)")
     (auto dest!: attempt_retries(3) simp: attempt_retries(4))

declare burst_read_loop.simps [simp del] burst_write_loop.simps [simp del]

text \<open>\<open>err_data\<close> is not initialised: it holds what the stack holds.\<close>

definition burst_start :: "host \<Rightarrow> u64 \<Rightarrow> burst_pos" where
  "burst_start h start_address = \<lparr>burst_i = 0, burst_addr = start_address, bus_error_retries = 0,
     burst_err = APP_ERR_NONE, err_data = [mem_word h [] 0, mem_word h [] 4]\<rparr>"

text \<open>The result None means that the process exits. The second result of a read is what was
  copied to the caller's buffer, if anything was.\<close>

definition adbg_wb_burst_read :: "host \<Rightarrow> 'c jtag_cable \<Rightarrow> int \<Rightarrow> int \<Rightarrow> u64 \<Rightarrow> 'c chain
    \<Rightarrow> (u32 option \<times> u8 list option) \<times> 'c chain" where
  "adbg_wb_burst_read h cb word_size_bytes word_count start_address s =
     (if word_count \<le> 0 then ((Some 0, None), s)
      else case burst_read_opcode (current_chain s) word_size_bytes of
        None \<Rightarrow> ((Some 1, None), s)
      | Some opcode \<Rightarrow> burst_read_loop h cb opcode word_size_bytes word_count start_address
          (burst_start h start_address) None s)"

definition adbg_wb_burst_write :: "host \<Rightarrow> 'c jtag_cable \<Rightarrow> u8 list \<Rightarrow> int \<Rightarrow> int \<Rightarrow> u64 \<Rightarrow> 'c chain
    \<Rightarrow> u32 option \<times> 'c chain" where
  "adbg_wb_burst_write h cb data word_size_bytes word_count start_address s =
     (if word_count \<le> 0 then (Some 0, s)
      else case burst_write_opcode (current_chain s) word_size_bytes of
        None \<Rightarrow> (Some 1, s)
      | Some opcode \<Rightarrow> burst_write_loop h cb opcode data word_size_bytes word_count start_address
          (burst_start h start_address) s)"

section \<open>The JTAG serial port\<close>

text \<open>The results are the error code, the bytes sent and the bytes received, which stay what
  they were when the module cannot be selected. The nine bytes go out as 72 bits, with one
  more 0 behind a last bit that is 1. The buffer for the received bytes has eight: a count
  above that writes behind it, which is undefined and has the result None.\<close>

definition adbg_jsp_transact :: "host \<Rightarrow> 'c jtag_cable \<Rightarrow> nat \<Rightarrow> u8 list \<Rightarrow> 'c chain
    \<Rightarrow> (u32 option \<times> (nat \<times> u8 list) option) \<times> 'c chain" where
  "adbg_jsp_transact h cb bytes_to_send data_to_send s =
     (let xmitsize = (if 8 < bytes_to_send then 8 else bytes_to_send);
          (err, s) = adbg_select_module cb (desired_chain s) s
      in if err \<noteq> 0 then ((Some err, None), s)
      else let (e1, s) = tap_set_shift_dr cb s;
               outdata = push_bit 4 (of_nat xmitsize) # mem_copy h data_to_send 0 xmitsize
                 @ replicate (9 - xmitsize) 0;
               stopbit = (if mem_byte h outdata 8 AND 0x80 \<noteq> 0 then 1 else 0);
               ((e2, inwords), s) =
                 jtag_read_write_stream cb (bytes_to_words outdata) (72 + stopbit) True True s;
               indata = words_to_bytes inwords;
               bytes_received = unat (drop_bit 4 (mem_byte h indata 0) AND 0xF);
               bytes_free = unat (mem_byte h indata 0 AND 0x0F);
               (e3, s) = tap_exit_to_idle cb s
           in if 8 < bytes_received then ((None, None), s)
              else ((Some (e1 OR e2 OR e3),
                Some (if bytes_free < xmitsize then bytes_free else xmitsize,
                      mem_copy h indata 1 bytes_received)), s))"

section \<open>What the transactions send\<close>

lemma word_bits_Suc: "word_bits (Suc n) w = word_bits n w @ [bit w n]"
  by (simp add: word_bits_def)

lemma select_module_bits:
  assumes "0 \<le> chain" "chain < 4"
  shows "stream_bits [word_of_int chain OR push_bit DBG_MODULE_SELECT_REG_SIZE 1] 3 =
    word_bits 2 (word_of_int chain) @ [True]"
proof -
  have "stream_bits [w] 3 = [bit w 0, bit w 1, bit w 2]" for w
    by (simp add: stream_bits_one word_bits_def upt_rec numeral_eq_Suc)
  moreover have "bit (word_of_int chain OR push_bit DBG_MODULE_SELECT_REG_SIZE 1 :: u32) 2"
    "bit (word_of_int chain OR push_bit DBG_MODULE_SELECT_REG_SIZE 1 :: u32) 0 = bit (word_of_int chain :: u32) 0"
    "bit (word_of_int chain OR push_bit DBG_MODULE_SELECT_REG_SIZE 1 :: u32) 1 = bit (word_of_int chain :: u32) 1"
    unfolding bit_or_iff bit_push_bit_iff by (simp_all add: const_simps)
  moreover have "word_bits 2 w = [bit w 0, bit w 1]" for w
    by (simp add: word_bits_def upt_rec numeral_eq_Suc)
  ultimately show ?thesis by simp
qed

text \<open>A register command: index, opcode, and a 0 for the module.\<close>

lemma ireg_command_bits:
  assumes "i < 2" "opcode < 16"
  shows "stream_bits [ireg_command opcode 1 i] 6 = word_bits 1 (ucast i) @ word_bits 4 opcode @ [False]"
proof -
  have "\<not> bit i j" if "1 \<le> j" for j
    using bit_word_above [of i 1 j] assms(1) that by (simp add: word_less_alt)
  moreover have "\<not> bit opcode j" if "4 \<le> j" for j
    using bit_word_above [of opcode 4 j] assms(2) that by (simp add: word_less_alt)
  ultimately have c: "bit (ireg_command opcode 1 i) k \<longleftrightarrow>
      (if k = 0 then bit i 0 else k \<noteq> 5 \<and> bit opcode (k - 1))" if "k < 32" for k
    using that unfolding ireg_command_def bit_or_iff bit_push_bit_iff bit_and_iff bit_not_iff
      DBG_WB_OPCODE_LEN_def
    by (cases "k = 0") (auto simp: bit_unsigned_iff bit_1_iff)
  then have "stream_bits [ireg_command opcode 1 i] 6 =
      [bit i 0, bit opcode 0, bit opcode 1, bit opcode 2, bit opcode 3, False]"
    by (simp add: stream_bits_one word_bits_def upt_rec numeral_eq_Suc)
  then show ?thesis
    by (simp add: word_bits_def upt_rec numeral_eq_Suc bit_unsigned_iff)
qed

text \<open>A burst command: length, address, opcode, and a 0 for the module.\<close>

lemma burst_command_bits:
  assumes "0 \<le> len" "len < 65536" "addr < 0x100000000" "opcode < 16"
  shows "stream_bits (burst_command_words opcode addr len) 53 =
    word_bits 16 (word_of_int len) @ word_bits 32 (ucast addr) @ word_bits 4 opcode @ [False]"
proof (rule nth_equalityI)
  have l: "\<not> bit len j" if "16 \<le> j" for j
  proof -
    have "take_bit 16 len = len" using assms by (simp add: take_bit_int_eq_self)
    then show ?thesis using that by (metis bit_take_bit_iff not_less)
  qed
  have a: "\<not> bit addr j" if "32 \<le> j" for j
    using bit_word_above [of addr 32 j] assms(3) that by (simp add: word_less_alt)
  have o: "\<not> bit opcode j" if "4 \<le> j" for j
    using bit_word_above [of opcode 4 j] assms(4) that by (simp add: word_less_alt)
  have "opcode AND mask 4 = opcode"
    by (rule bit_word_eqI) (use o in \<open>force simp: bit_and_iff bit_mask_iff simp flip: not_le\<close>)
  then have nibble: "opcode AND 0xf = opcode" by (simp add: mask_eq_exp_minus_1)
  fix k assume "k < length (stream_bits (burst_command_words opcode addr len) 53)"
  then have k: "k < 53" by simp
  have w0: "bit (ucast (word_of_int len OR push_bit 16 addr) :: u32) j \<longleftrightarrow>
      (if j < 16 then bit len j else bit addr (j - 16))" if "j < 32" for j
    using that l [of j] by (auto simp: bit_unsigned_iff bit_or_iff bit_push_bit_iff bit_word_of_int_iff)
  have w1: "bit (ucast ((drop_bit 16 addr OR push_bit 16 (ucast (opcode AND 0xf)))
       AND NOT (push_bit 20 0x1) :: u64) :: u32) j \<longleftrightarrow>
      (if j < 16 then bit addr (16 + j) else j \<noteq> 20 \<and> bit opcode (j - 16))" if "j < 32" for j
    using that a [of "16 + j"] o [of "j - 16"] unfolding nibble
    by (auto simp: bit_unsigned_iff bit_or_iff bit_and_iff bit_not_iff bit_push_bit_iff
        bit_drop_bit_eq bit_1_iff simp del: push_bit_of_1)
  have "stream_bits (burst_command_words opcode addr len) 53 ! k =
      (if k < 32 then (if k < 16 then bit len k else bit addr (k - 16))
       else (if k < 48 then bit addr (k - 16) else k \<noteq> 52 \<and> bit opcode (k - 48)))"
    using k w0 [of k] w1 [of "k - 32"]
    by (auto simp: stream_bits_def stream_bit_def burst_command_words_def rd_def
        le_mod_geq le_div_geq not_less)
  then show "stream_bits (burst_command_words opcode addr len) 53 ! k =
     (word_bits 16 (word_of_int len) @ word_bits 32 (ucast addr) @ word_bits 4 opcode @ [False]) ! k"
    using k by (auto simp: nth_append word_bits_def bit_word_of_int_iff bit_unsigned_iff)
qed simp

text \<open>The updates of a module selection: none when the module is the current one.\<close>

definition select_updates :: "nat \<Rightarrow> int \<Rightarrow> int \<Rightarrow> update list" where
  "select_updates k current chain =
     (if current = chain then []
      else [DR_Update (word_bits 2 (word_of_int chain) @ True # replicate k False)])"

lemma select_module_globals:
  "conf (snd (adbg_select_module cb chain s)) = conf s"
  "current_chain (snd (adbg_select_module cb chain s)) = chain"
  "desired_chain (snd (adbg_select_module cb chain s)) =
     (if current_chain s = chain then desired_chain s else chain)"
  "current_reg_idx (snd (adbg_select_module cb chain s)) = current_reg_idx s"
  "soft_retry_no (snd (adbg_select_module cb chain s)) = soft_retry_no s"
proof -
  have "same_globals t (snd (err_seq [tap_set_shift_dr cb, jtag_write_stream cb [data] 3 True,
      tap_exit_to_idle cb] t))" for t :: "'a chain" and data
    by (rule same_globals_err_seq) auto
  note g = this [THEN same_globals_fields(1)] this [THEN same_globals_fields(3)]
    this [THEN same_globals_fields(4)] this [THEN same_globals_fields(5)]
  show "conf (snd (adbg_select_module cb chain s)) = conf s"
    "current_chain (snd (adbg_select_module cb chain s)) = chain"
    "desired_chain (snd (adbg_select_module cb chain s)) =
       (if current_chain s = chain then desired_chain s else chain)"
    "current_reg_idx (snd (adbg_select_module cb chain s)) = current_reg_idx s"
    "soft_retry_no (snd (adbg_select_module cb chain s)) = soft_retry_no s"
    by (simp_all add: adbg_select_module_def Let_def split_beta g del: err_seq.simps)
qed

lemma select_current: "current_chain s = chain \<Longrightarrow> adbg_select_module cb chain s = (APP_ERR_NONE, s)"
  by (simp add: adbg_select_module_def)

context reliable_tap
begin

lemma select_module_idle:
  assumes "at_idle (view (dev (cable s))) u" and "0 \<le> chain" "chain < 4"
    and "global_DR_prefix_bits (conf s) = int k"
  shows "fst (adbg_select_module cb chain s) = APP_ERR_NONE"
    and "at_idle (view (dev (cable (snd (adbg_select_module cb chain s)))))
      (u @ select_updates k (current_chain s) chain)"
proof -
  let ?t = "s\<lparr>current_chain := -1, desired_chain := chain\<rparr>"
  have "at_idle (view (dev (cable (snd (err_seq [tap_set_shift_dr cb, jtag_write_stream cb
          [word_of_int chain OR push_bit DBG_MODULE_SELECT_REG_SIZE 1] 3 True, tap_exit_to_idle cb] ?t)))))
      (u @ [DR_Update (word_bits 2 (word_of_int chain) @ True # replicate k False)])"
    using dr_write_idle [of ?t u 3 "[word_of_int chain OR push_bit DBG_MODULE_SELECT_REG_SIZE 1]" k]
      assms select_module_bits [OF assms(2,3)]
    by (simp del: err_seq.simps)
  then show "at_idle (view (dev (cable (snd (adbg_select_module cb chain s)))))
      (u @ select_updates k (current_chain s) chain)"
    using assms(1)
    by (simp add: adbg_select_module_def select_updates_def Let_def split_beta del: err_seq.simps)
  have "fst (err_seq [tap_set_shift_dr cb, jtag_write_stream cb ws n True, tap_exit_to_idle cb] t)
      = APP_ERR_NONE" for ws n t
    by (rule err_seq_none) auto
  then show "fst (adbg_select_module cb chain s) = APP_ERR_NONE"
    by (simp add: adbg_select_module_def Let_def split_beta del: err_seq.simps)
qed

lemma burst_command_idle:
  assumes "at_idle (view (dev (cable s))) u" and "0 \<le> desired_chain s" "desired_chain s < 4"
    and "global_DR_prefix_bits (conf s) = int k"
    and "0 \<le> len" "len < 65536" "addr < 0x100000000" "opcode < 16"
  shows "fst (adbg_burst_command cb opcode addr len s) = APP_ERR_NONE"
    and "at_idle (view (dev (cable (snd (adbg_burst_command cb opcode addr len s)))))
      (u @ select_updates k (current_chain s) (desired_chain s)
         @ [DR_Update (word_bits 16 (word_of_int len) @ word_bits 32 (ucast addr)
              @ word_bits 4 opcode @ False # replicate k False)])"
    and "conf (snd (adbg_burst_command cb opcode addr len s)) = conf s"
    and "current_chain (snd (adbg_burst_command cb opcode addr len s)) = desired_chain s"
proof -
  let ?s = "snd (adbg_select_module cb (desired_chain s) s)"
  let ?f = "err_seq [tap_set_shift_dr cb, jtag_write_stream cb (burst_command_words opcode addr len)
      53 True, tap_exit_to_idle cb]"
  note sel = select_module_idle [OF assms(1-4)]
  have "global_DR_prefix_bits (conf ?s) = int k"
    using assms(4) by (simp add: select_module_globals)
  moreover have "(0 :: nat) < 53" "53 \<le> 32 * length (burst_command_words opcode addr len)"
    by (simp_all add: burst_command_words_def)
  ultimately have "at_idle (view (dev (cable (snd (?f ?s)))))
      ((u @ select_updates k (current_chain s) (desired_chain s))
         @ [DR_Update (stream_bits (burst_command_words opcode addr len) 53 @ replicate k False)])"
    using dr_write_idle [OF sel(2), of 53] by (simp del: err_seq.simps)
  moreover have b: "adbg_burst_command cb opcode addr len s = (fst (?f ?s), retry_ok (snd (?f ?s)))"
    using sel(1) by (simp add: adbg_burst_command_def Let_def split_beta del: err_seq.simps)
  moreover have "fst (?f ?s) = APP_ERR_NONE"
    by (rule err_seq_none) auto
  moreover have "same_globals ?s (snd (?f ?s))"
    by (rule same_globals_err_seq) auto
  ultimately show "fst (adbg_burst_command cb opcode addr len s) = APP_ERR_NONE"
    "at_idle (view (dev (cable (snd (adbg_burst_command cb opcode addr len s)))))
      (u @ select_updates k (current_chain s) (desired_chain s)
         @ [DR_Update (word_bits 16 (word_of_int len) @ word_bits 32 (ucast addr)
              @ word_bits 4 opcode @ False # replicate k False)])"
    "conf (snd (adbg_burst_command cb opcode addr len s)) = conf s"
    "current_chain (snd (adbg_burst_command cb opcode addr len s)) = desired_chain s"
    using burst_command_bits [OF assms(5-8)]
    by (simp_all add: retry_ok_def same_globals_fields select_module_globals del: err_seq.simps)
qed

end

section \<open>Register access\<close>

lemma ireg_tables:
  assumes "c \<in> {DC_WISHBONE, DC_CPU0, DC_CPU1}"
  shows "ireg_select c = Some (1, 0xd)" "ireg_write c = Some (1, 9)" "ireg_nop c = Some (4, 0)"
  using assms by (auto simp: ireg_select_def ireg_write_def ireg_nop_def const_simps)

lemma register_chain_range:
  assumes "c \<in> {DC_WISHBONE, DC_CPU0, DC_CPU1}"
  shows "0 \<le> c" "c < 4"
  using assms by (auto simp: const_simps)

lemma set_reg_idx_frame [simp]:
  "cable (set_reg_idx i s) = cable s" "conf (set_reg_idx i s) = conf s"
  "current_chain (set_reg_idx i s) = current_chain s" "desired_chain (set_reg_idx i s) = desired_chain s"
  by (simp_all add: set_reg_idx_def)

lemma retry_ok_frame [simp]:
  "cable (retry_ok s) = cable s" "conf (retry_ok s) = conf s"
  "current_chain (retry_ok s) = current_chain s" "desired_chain (retry_ok s) = desired_chain s"
  "current_reg_idx (retry_ok s) = current_reg_idx s"
  by (simp_all add: retry_ok_def)

context reliable_tap
begin

lemma ctrl_write_idle:
  assumes "at_idle (view (dev (cable s))) u" and c: "desired_chain s \<in> {DC_WISHBONE, DC_CPU0, DC_CPU1}"
    and k: "global_DR_prefix_bits (conf s) = int k" and n: "0 < n" "n \<le> 32 * length ws" and "i < 2"
  shows "fst (adbg_ctrl_write cb i ws (int n) s) = APP_ERR_NONE"
    and "at_idle (view (dev (cable (snd (adbg_ctrl_write cb i ws (int n) s)))))
      (u @ select_updates k (current_chain s) (desired_chain s)
         @ [DR_Update (stream_bits ws n @ word_bits 1 (ucast i) @ word_bits 4 9 @ False # replicate k False)])"
    and "current_chain (snd (adbg_ctrl_write cb i ws (int n) s)) = desired_chain s"
proof -
  let ?s = "snd (adbg_select_module cb (desired_chain s) s)"
  let ?f = "err_seq [tap_set_shift_dr cb, jtag_write_stream cb ws (int n) False,
      jtag_write_stream cb [ireg_command 9 1 i] 6 True, tap_exit_to_idle cb]"
  note sel = select_module_idle [OF assms(1) register_chain_range [OF c] k]
  have k': "global_DR_prefix_bits (conf ?s) = int k" and c': "current_chain ?s = desired_chain s"
    using k by (simp_all add: select_module_globals)
  have "adbg_ctrl_write cb i ws (int n) s = (fst (?f ?s), set_reg_idx i (retry_ok (snd (?f ?s))))"
    using sel(1) c' ireg_tables(2) [OF c]
    by (simp add: adbg_ctrl_write_def Let_def split_beta del: err_seq.simps)
  moreover have "fst (?f ?s) = APP_ERR_NONE" by (rule err_seq_none) auto
  moreover have "same_globals ?s (snd (?f ?s))" by (rule same_globals_err_seq) auto
  moreover have "at_idle (view (dev (cable (snd (?f ?s)))))
      ((u @ select_updates k (current_chain s) (desired_chain s))
        @ [DR_Update (stream_bits ws n @ stream_bits [ireg_command 9 1 i] 6 @ replicate k False)])"
    using dr_write_two_idle [OF sel(2) n _ _ k', of 6 "[ireg_command 9 1 i]"] by (simp del: err_seq.simps)
  ultimately show "fst (adbg_ctrl_write cb i ws (int n) s) = APP_ERR_NONE"
    "at_idle (view (dev (cable (snd (adbg_ctrl_write cb i ws (int n) s)))))
      (u @ select_updates k (current_chain s) (desired_chain s)
         @ [DR_Update (stream_bits ws n @ word_bits 1 (ucast i) @ word_bits 4 9 @ False # replicate k False)])"
    "current_chain (snd (adbg_ctrl_write cb i ws (int n) s)) = desired_chain s"
    using ireg_command_bits [OF assms(6), of 9] c'
    by (simp_all add: same_globals_fields del: err_seq.simps)
qed

end

section \<open>Properties\<close>

text \<open>
  Selecting a module that is not the current one shifts exactly the module number and
  a 1 above it into the debug unit, past the other devices of the chain, and returns the TAP
  to Run-Test/Idle; selecting the current one moves nothing. Afterwards the module is the
  current one.
\<close>

theorem adbg_select_module_sends:
  assumes "reliable_tap cb dev dstep dtdo view" and "at_idle (view (dev (cable s))) u"
    and "0 \<le> chain" "chain < 4" and "global_DR_prefix_bits (conf s) = int k"
    and "s' = snd (adbg_select_module cb chain s)"
  shows "fst (adbg_select_module cb chain s) = APP_ERR_NONE \<and> current_chain s' = chain \<and>
    at_idle (view (dev (cable s'))) (u @ (if current_chain s = chain then []
      else [DR_Update (word_bits 2 (word_of_int chain) @ True # replicate k False)]))"
  using reliable_tap.select_module_idle [OF assms(1-5)]
  by (simp add: assms(6) select_module_globals select_updates_def)

theorem adbg_select_module_sends_witness:
  "updates (board_dev (cable (snd (adbg_select_module example_cable DC_CPU0 example_chain)))) =
    [DR_Update [True, False, True, False]]"
proof -
  have r: "reliable_tap example_cable board_dev tap_step (\<lambda>_. False) (\<lambda>v. v)"
    unfolding example_cable_def by (rule xess_reliable.reliable_tap_axioms)
  have "word_bits 2 1 = [True, False]" by (simp add: word_bits_def numeral_2_eq_2)
  with adbg_select_module_sends [OF r, of example_chain "[]" DC_CPU0 1, OF _ _ _ _ refl] show ?thesis
    by (simp add: example_idle const_simps example_chain_def example_conf_def init_conf_def
        init_chain_def at_idle_def idle_board_def)
qed

text \<open>
  A write to a module register sends, in one update behind the selection of the module,
  the data, the register index, the write opcode and a 0, and reports no error.
\<close>

theorem adbg_ctrl_write_sends:
  assumes "reliable_tap cb dev dstep dtdo view" and "at_idle (view (dev (cable s))) u"
    and "desired_chain s \<in> {DC_WISHBONE, DC_CPU0, DC_CPU1}"
    and "global_DR_prefix_bits (conf s) = int k" and "0 < n" "n \<le> 32 * length ws" and "i < 2"
  shows "fst (adbg_ctrl_write cb i ws (int n) s) = APP_ERR_NONE \<and>
    at_idle (view (dev (cable (snd (adbg_ctrl_write cb i ws (int n) s)))))
      (u @ (if current_chain s = desired_chain s then []
            else [DR_Update (word_bits 2 (word_of_int (desired_chain s)) @ True # replicate k False)])
         @ [DR_Update (stream_bits ws n @ word_bits 1 (ucast i) @ word_bits 4 9 @ False # replicate k False)])"
  using reliable_tap.ctrl_write_idle(1,2) [OF assms] by (simp add: select_updates_def)

theorem adbg_ctrl_write_sends_witness:
  "updates (board_dev (cable (snd (adbg_ctrl_write example_cable 0 [1] 2
      (example_chain\<lparr>desired_chain := DC_CPU0\<rparr>))))) =
    [DR_Update [True, False, True, False],
     DR_Update [True, False, False, True, False, False, True, False, False]]"
proof -
  let ?s = "example_chain\<lparr>desired_chain := DC_CPU0\<rparr>"
  have r: "reliable_tap example_cable board_dev tap_step (\<lambda>_. False) (\<lambda>v. v)"
    unfolding example_cable_def by (rule xess_reliable.reliable_tap_axioms)
  have b: "word_bits 2 1 = [True, False]" "word_bits (Suc 0) 0 = [False]"
    "word_bits 4 9 = [True, False, False, True]" "stream_bits [1] 2 = [True, False]"
    by (simp_all add: word_bits_def stream_bits_one numeral_eq_Suc)
  from adbg_ctrl_write_sends [OF r, of ?s "[]" 1 2 "[1]" 0] show ?thesis
    by (simp add: example_idle const_simps example_chain_def example_conf_def init_conf_def
        init_chain_def at_idle_def idle_board_def b)
qed

text \<open>
  After any selection, even one whose transfer failed, the module counts as selected:
  the next call for it moves nothing and reports no error.
\<close>

theorem select_again_after_failure:
  "adbg_select_module cb chain (snd (adbg_select_module cb chain s)) =
     (APP_ERR_NONE, snd (adbg_select_module cb chain s))"
  by (rule select_current) (simp add: select_module_globals)

end
