(* ===== verification/Adv_Crc.thy ===== *)
theory Adv_Crc
  imports Adv_Dbg
begin

text \<open>
  The CRC of the advanced debug unit: \<open>adbg_compute_crc\<close> as a register that is fed one bit
  at a time, its linearity, what the receiver computes over data and its CRC, and which
  errors it finds.
\<close>

section \<open>One bit at a time\<close>

definition crc_bit :: "bool \<Rightarrow> u32 \<Rightarrow> u32" where
  "crc_bit d c = drop_bit 1 c XOR (if d \<noteq> bit c 0 then ADBG_CRC_POLY else 0)"

lemma crc_poly_bit: "bit ADBG_CRC_POLY 31"
  by (simp add: ADBG_CRC_POLY_def)

lemma crc_bit_31: "d \<noteq> bit c 0 \<Longrightarrow> bit (crc_bit d c) 31"
  using crc_poly_bit bit_imp_le_length [of c 32] by (auto simp: crc_bit_def bit_simps)

lemma adbg_crc_loop_bits:
  "i + n \<le> 32 \<Longrightarrow> adbg_crc_loop h w n i c = fold crc_bit (map (bit w) [i..<i + n]) c"
proof (induction n arbitrary: i c)
  case (Suc n)
  have "adbg_crc_loop h w (Suc n) i c = adbg_crc_loop h w n (Suc i) (crc_bit (bit w i) c)"
    using Suc.prems
    by (simp add: Let_def crc_bit_def bit_and_1_iff bit_drop_bit_eq ones32)
  moreover have "[i..<i + Suc n] = i # [Suc i..<Suc i + n]" by (simp add: upt_conv_Cons)
  ultimately show ?case using Suc.IH [of "Suc i" "crc_bit (bit w i) c"] Suc.prems by simp
qed simp

lemma adbg_compute_crc_bits:
  "n \<le> 32 \<Longrightarrow> adbg_compute_crc h c w (int n) = fold crc_bit (word_bits n w) c"
  by (simp add: adbg_compute_crc_def adbg_crc_loop_bits word_bits_def)

lemma word_bits_byte: "word_bits 8 (ucast (b :: u8)) = byte_bits b"
  by (auto simp: word_bits_def byte_bits_def bit_unsigned_iff)

lemma crc_bytes_bits: "crc_bytes h bs = fold crc_bit (bytes_bits bs) 0xffffffff"
proof -
  have "fold (\<lambda>b crc. adbg_compute_crc h crc (ucast b) 8) bs c = fold crc_bit (bytes_bits bs) c" for c
    using adbg_compute_crc_bits [of 8 h]
    by (induction bs arbitrary: c) (simp_all add: bytes_bits_def word_bits_byte)
  then show ?thesis by (simp add: crc_bytes_def)
qed

section \<open>Data and its CRC\<close>

text \<open>A register that is fed its own contents is left empty: this is the match the debug unit
  looks for at the end of a write.\<close>

lemma crc_residue: "fold crc_bit (word_bits 32 c) c = 0"
proof -
  have "fold crc_bit (map (bit c) [0..<n]) c = drop_bit n c" for n
  proof (induction n)
    case (Suc n)
    then show ?case by (simp add: crc_bit_def bit_drop_bit_eq drop_bit_drop_bit)
  qed simp
  then show ?thesis by (simp add: word_bits_def)
qed

lemma crc_bytes_residue:
  "fold crc_bit (bytes_bits bs @ word_bits 32 (crc_bytes h bs)) 0xffffffff = 0"
  by (simp add: crc_bytes_bits crc_residue)

section \<open>Which errors it finds\<close>

lemma crc_bit_linear: "crc_bit a c XOR crc_bit b d = crc_bit (a \<noteq> b) (c XOR d)"
  by (rule bit_word_eqI) (auto simp: crc_bit_def bit_simps)

lemma crc_linear:
  "length as = length bs \<Longrightarrow>
     fold crc_bit as c XOR fold crc_bit bs d = fold crc_bit (map2 (\<noteq>) as bs) (c XOR d)"
  by (induction as bs arbitrary: c d rule: list_induct2) (simp_all add: crc_bit_linear)

lemma crc_bit_nonzero: "c \<noteq> 0 \<Longrightarrow> crc_bit False c \<noteq> 0"
proof (cases "bit c 0")
  case True
  then have "bit (crc_bit False c) 31" by (simp add: crc_bit_31)
  then show "crc_bit False c \<noteq> 0" by (metis bit_0_eq bot_apply bot_bool_def)
next
  case False
  assume "c \<noteq> 0"
  then obtain m where m: "bit c m" by (auto simp: bit_eq_iff)
  with False have "0 < m" by (cases m) auto
  with m have "bit (drop_bit 1 c) (m - 1)" by (simp add: bit_drop_bit_eq)
  with False show "crc_bit False c \<noteq> 0" by (auto simp: crc_bit_def)
qed

lemma crc_zeros_nonzero: "c \<noteq> 0 \<Longrightarrow> fold crc_bit (replicate n False) c \<noteq> 0"
  by (induction n arbitrary: c) (simp_all add: crc_bit_nonzero del: fold_replicate)

text \<open>After a first error bit, the next 31 bits cannot bring the register back to 0.\<close>

lemma crc_tail_nonzero:
  "bit c m \<Longrightarrow> length es \<le> m \<Longrightarrow> m < 32 \<Longrightarrow> fold crc_bit es c \<noteq> 0"
proof (induction es arbitrary: c m)
  case Nil
  then show ?case by (auto dest: arg_cong [of c 0 "\<lambda>w. bit w m"])
next
  case (Cons e es)
  show ?case
  proof (cases "e = bit c 0")
    case True
    with Cons.prems have "bit (crc_bit e c) (m - 1)"
      by (simp add: crc_bit_def bit_drop_bit_eq)
    with Cons.IH [of "crc_bit e c" "m - 1"] Cons.prems show ?thesis by simp
  next
    case False
    then have "bit (crc_bit e c) 31" by (rule crc_bit_31)
    with Cons.IH [of "crc_bit e c" 31] Cons.prems show ?thesis by simp
  qed
qed

lemma crc_window_nonzero:
  "True \<in> set es \<Longrightarrow> length es \<le> 32 \<Longrightarrow> fold crc_bit es 0 \<noteq> 0"
proof (induction es)
  case (Cons e es)
  show ?case
  proof (cases e)
    case True
    then have "bit (crc_bit e 0) 31" using crc_poly_bit by (simp add: crc_bit_def)
    with crc_tail_nonzero [of "crc_bit e 0" 31 es] Cons.prems show ?thesis by simp
  next
    case False
    then have "crc_bit e 0 = 0" by (simp add: crc_bit_def)
    with Cons False show ?thesis by simp
  qed
qed simp

lemma crc_detects_window:
  assumes "bytes_bits bs = pre @ xs @ post" and "bytes_bits cs = pre @ ys @ post"
    and "length xs = length ys" and "length xs \<le> 32" and "xs \<noteq> ys"
  shows "crc_bytes h bs \<noteq> crc_bytes h cs"
proof
  assume "crc_bytes h bs = crc_bytes h cs"
  then have "fold crc_bit (pre @ xs @ post) 0xffffffff XOR fold crc_bit (pre @ ys @ post) 0xffffffff = 0"
    using assms(1,2) by (simp add: crc_bytes_bits)
  moreover have same: "map2 (\<noteq>) zs zs = replicate (length zs) False" for zs :: "bool list"
    by (induction zs) auto
  moreover have zeros: "fold crc_bit (replicate n False) 0 = 0" for n
    by (induction n) (simp_all add: crc_bit_def del: fold_replicate)
  ultimately have "fold crc_bit (replicate (length post) False) (fold crc_bit (map2 (\<noteq>) xs ys) 0) = 0"
    using assms(3) by (simp add: crc_linear zip_append del: fold_replicate)
  moreover have "True \<in> set (map2 (\<noteq>) xs ys)"
    using assms(3,5) by (induction xs ys rule: list_induct2) auto
  ultimately show False
    using crc_window_nonzero [of "map2 (\<noteq>) xs ys"] crc_zeros_nonzero assms(3,4)
    by (simp del: fold_replicate)
qed

text \<open>
  C17: The CRC of a burst finds every error that is confined to 32 consecutive bits: two
  blocks of bytes that differ only there never have the same CRC.
\<close>

theorem crc_detects_bursts:
  assumes "bytes_bits bs = pre @ xs @ post" and "bytes_bits cs = pre @ ys @ post"
    and "length xs = length ys" and "length xs \<le> 32" and "xs \<noteq> ys"
  shows "crc_bytes h bs \<noteq> crc_bytes h cs"
  using assms by (rule crc_detects_window)

theorem crc_detects_bursts_witness:
  "crc_bytes x86_64 [0x12, 0x34, 0x56] \<noteq> crc_bytes x86_64 [0x12, 0x35, 0x56]"
  by (rule crc_detects_bursts [where pre = "byte_bits 0x12" and xs = "byte_bits 0x34"
        and ys = "byte_bits 0x35" and post = "byte_bits 0x56"])
    (simp_all add: bytes_bits_def byte_bits_def upt_rec numeral_eq_Suc)

text \<open>
  A receiver that goes on over the CRC sent behind the data ends with an empty register,
  whatever the data are; this is the match bit a burst write asks for.
\<close>

theorem adbg_crc_residue:
  "fold crc_bit (bytes_bits bs @ word_bits 32 (crc_bytes h bs)) 0xffffffff = 0"
  by (simp add: crc_bytes_bits crc_residue)

section \<open>Bytes, words and bits\<close>

lemma received_byte:
  assumes "k < length bs"
  shows "mem_byte h (words_to_bytes (bits_to_words (bytes_bits bs))) k = bs ! k"
proof (rule bit_word_eqI)
  fix j assume "j < LENGTH(8)"
  then have j: "j < 8" by simp
  have w: "k div 4 < (8 * length bs + 31) div 32" using assms by linarith
  have "bit (ucast (drop_bit (8 * (k mod 4)) (bits_to_words (bytes_bits bs) ! (k div 4))) :: u8) j
      \<longleftrightarrow> bit (bits_to_words (bytes_bits bs) ! (k div 4)) (8 * (k mod 4) + j)"
    using j by (simp add: bit_unsigned_iff bit_drop_bit_eq)
  also have "\<dots> \<longleftrightarrow> bytes_bits bs ! (32 * (k div 4) + (8 * (k mod 4) + j))"
  proof -
    have "32 * (k div 4) + (8 * (k mod 4) + j) = 8 * k + j"
      using mult_div_mod_eq [of 4 k] by linarith
    moreover have "8 * (k mod 4) + j < 32" using j mod_less_divisor [of 4 k] by linarith
    ultimately show ?thesis
      unfolding nth_bits_to_words [OF w [folded length_bytes_bits]] bit_chunk
      using assms j by simp
  qed
  also have "32 * (k div 4) + (8 * (k mod 4) + j) = 8 * k + j"
    using mult_div_mod_eq [of 4 k] by linarith
  also have "bytes_bits bs ! (8 * k + j) = bit (bs ! k) j"
    using assms j by (simp add: nth_bytes_bits)
  finally show "bit (mem_byte h (words_to_bytes (bits_to_words (bytes_bits bs))) k) j = bit (bs ! k) j"
  proof -
    have "k < 4 * ((8 * length bs + 31) div 32)" using assms by linarith
    moreover assume "bit (ucast (drop_bit (8 * (k mod 4)) (bits_to_words (bytes_bits bs) ! (k div 4))) :: u8) j
      = bit (bs ! k) j"
    ultimately show ?thesis by (simp add: mem_byte_def nth_words_to_bytes)
  qed
qed

lemma received_bytes:
  assumes "length bs = n"
  shows "mem_copy h (words_to_bytes (bits_to_words (bytes_bits (bs @ cs)))) 0 n = bs"
  by (rule nth_equalityI) (use assms in \<open>simp_all add: mem_copy_def received_byte nth_append
        del: bytes_bits_append\<close>)

lemma word_of_its_bytes:
  "ucast (ucast w :: u8) OR push_bit 8 (ucast (ucast (drop_bit 8 w) :: u8))
     OR push_bit 16 (ucast (ucast (drop_bit 16 w) :: u8))
     OR push_bit 24 (ucast (ucast (drop_bit 24 w) :: u8)) = (w :: u32)"
  using bytes_to_words_word [of w "[]"] by (simp add: word_to_bytes_def)

lemma received_word:
  assumes "length bs = n"
  shows "mem_word h (words_to_bytes (bits_to_words (bytes_bits (bs @ word_to_bytes w)))) n = w"
proof -
  have "mem_byte h (words_to_bytes (bits_to_words (bytes_bits (bs @ word_to_bytes w)))) (n + i) =
      word_to_bytes w ! i" if "i < 4" for i
    using received_byte [of "n + i" "bs @ word_to_bytes w" h] assms that by (simp add: nth_append)
  from this [of 0] this [of 1] this [of 2] this [of 3] show ?thesis
    using word_of_its_bytes [of w] unfolding mem_word_def
    by (simp add: word_to_bytes_def del: bytes_bits_append)
qed

section \<open>The words of a buffer\<close>

lemma length_bytes_to_words [simp]: "length (bytes_to_words bs) = (length bs + 3) div 4"
  by (induction bs rule: bytes_to_words.induct) simp_all

lemma bit_four_bytes:
  assumes "k < 32"
  shows "bit (ucast a OR push_bit 8 (ucast b) OR push_bit 16 (ucast c) OR push_bit 24 (ucast d) :: u32) k
    \<longleftrightarrow> bit ([a, b, c, d :: u8] ! (k div 8)) (k mod 8)"
proof -
  have u: "bit (ucast x :: u32) j \<longleftrightarrow> j < 8 \<and> bit x j" for x :: u8 and j
    using bit_imp_le_length [of x j] by (auto simp: bit_unsigned_iff)
  consider "k < 8" | "8 \<le> k" "k < 16" | "16 \<le> k" "k < 24" | "24 \<le> k" using assms by linarith
  then show ?thesis
  proof cases
    case 1
    then show ?thesis by (simp add: bit_or_iff bit_push_bit_iff u)
  next
    case 2
    then have "k div 8 = 1" "k mod 8 = k - 8" by (simp_all add: le_div_geq le_mod_geq)
    with 2 show ?thesis by (auto simp: bit_or_iff bit_push_bit_iff u)
  next
    case 3
    then have "k div 8 = 2" "k mod 8 = k - 16" by (simp_all add: le_div_geq le_mod_geq)
    with 3 show ?thesis by (auto simp: bit_or_iff bit_push_bit_iff u)
  next
    case 4
    then have "k div 8 = 3" "k mod 8 = k - 24" using assms by (simp_all add: le_div_geq le_mod_geq)
    with 4 assms show ?thesis by (auto simp: bit_or_iff bit_push_bit_iff u)
  qed
qed

lemma stream_bit_Cons: "stream_bit (w # ws) k = (if k < 32 then bit w k else stream_bit ws (k - 32))"
  by (auto simp: stream_bit_def rd_def le_div_geq le_mod_geq)

lemma stream_bit_bytes:
  "k < 8 * length bs \<Longrightarrow> stream_bit (bytes_to_words bs) k = bit (bs ! (k div 8)) (k mod 8)"
proof (induction bs arbitrary: k rule: bytes_to_words.induct)
  case (2 a)
  then show ?case using bit_four_bytes [of k a 0 0 0] by (simp add: stream_bit_Cons)
next
  case (3 a b)
  then have "k div 8 = 0 \<or> k div 8 = 1" by auto
  with 3 show ?case using bit_four_bytes [of k a b 0 0] by (auto simp: stream_bit_Cons)
next
  case (4 a b c)
  then have "k div 8 = 0 \<or> k div 8 = 1 \<or> k div 8 = 2" by auto
  with 4 show ?case using bit_four_bytes [of k a b c 0] by (auto simp: stream_bit_Cons)
next
  case (5 a b c d bs)
  show ?case
  proof (cases "k < 32")
    case True
    then have "k div 8 = 0 \<or> k div 8 = 1 \<or> k div 8 = 2 \<or> k div 8 = 3" by auto
    with True show ?thesis using bit_four_bytes [of k a b c d] by (auto simp: stream_bit_Cons)
  next
    case False
    have e: "(a # b # c # d # bs) ! (m + 4) = bs ! m" for m by simp
    from False have "k div 8 = (k - 32) div 8 + 4" "k mod 8 = (k - 32) mod 8"
      by (simp_all add: le_div_geq le_mod_geq)
    with 5 False e show ?thesis by (simp add: stream_bit_Cons)
  qed
qed simp

lemma stream_bits_bytes: "stream_bits (bytes_to_words bs) (8 * length bs) = bytes_bits bs"
  by (rule nth_equalityI) (simp_all add: stream_bits_def stream_bit_bytes nth_bytes_bits)

lemma bytes_bits_word: "bytes_bits (word_to_bytes w) = word_bits 32 w"
  using stream_bits_bytes [of "word_to_bytes w"] bytes_to_words_word [of w "[]"]
  by (simp add: stream_bits_one)

end
