(* ===== verification/Adv_Burst.thy ===== *)
theory Adv_Burst
  imports Adv_Crc
begin

text \<open>
  What a burst does on a cable that works: the commands and data that reach the debug unit,
  the data a read returns from what the debug unit answers, the verdict of the CRC, the error
  register of the Wishbone module and how a burst goes on after a bus error, and the state the
  TAP is left in.
\<close>

lemma stream_pins_zeros: "stream_pins (replicate L 0) n False = replicate n pin0"
proof -
  have "stream_bit (replicate L 0) k = False" for k
    by (simp add: stream_bit_def rd_def)
  then show ?thesis by (simp add: stream_pins_def map_replicate_const)
qed

lemma stream_bits_zeros: "stream_bits (replicate L 0) n = replicate n False"
proof -
  have "stream_bit (replicate L 0) k = False" for k
    by (simp add: stream_bit_def rd_def)
  then show ?thesis by (auto simp: stream_bits_def intro!: nth_equalityI)
qed

lemma scratchpad_ok:
  assumes "malloc_ok h n"
  shows "fst (check_input_scratchpad h n s) = APP_ERR_NONE"
    and "fst (check_output_scratchpad h n s) = APP_ERR_NONE"
  using assms
  by (simp_all add: check_input_scratchpad_def check_output_scratchpad_def check_buffer_size_def)

lemma scratchpad_frame [simp]:
  "cable (snd (check_input_scratchpad h n s)) = cable s"
  "cable (snd (check_output_scratchpad h n s)) = cable s"
  "conf (snd (check_input_scratchpad h n s)) = conf s"
  "conf (snd (check_output_scratchpad h n s)) = conf s"
  "current_chain (snd (check_input_scratchpad h n s)) = current_chain s"
  "current_chain (snd (check_output_scratchpad h n s)) = current_chain s"
  "desired_chain (snd (check_input_scratchpad h n s)) = desired_chain s"
  "desired_chain (snd (check_output_scratchpad h n s)) = desired_chain s"
  by (simp_all add: check_input_scratchpad_def check_output_scratchpad_def Let_def split_beta)

section \<open>Waiting for the status bit\<close>

context reliable_tap
begin

lemma wait_status_step:
  obtains s' where "jtag_read_write_bit cb 0 s = ((APP_ERR_NONE, of_bool (dtdo (dev (cable s)))), s')"
    and "dev (cable s') = dstep pin0 (dev (cable s))" and "same_globals s s'"
proof -
  let ?r = "jtag_read_write_bit cb 0 s"
  have "fst ?r = (APP_ERR_NONE, of_bool (dtdo (dev (cable s))))"
    by (rule prod_eqI) (simp_all add: dev_read_write_bit)
  with that [of "snd ?r"] show thesis
    by (metis dev_read_write_bit(1) packet_pin_consts(1) prod.collapse same_globals_jtag(2))
qed

lemma wait_status_ready:
  assumes "tdo_run dstep dtdo (replicate (Suc w) pin0) (dev (cable s)) = replicate w False @ [True]"
    and "j + w < MAX_READ_STATUS_WAIT"
  shows "\<exists>s'. wait_status cb j err s = ((True, err), s') \<and> same_globals s s' \<and>
    dev (cable s') = fold dstep (replicate (Suc w) pin0) (dev (cable s))"
  using assms
proof (induction w arbitrary: j s)
  case 0
  obtain s' where "jtag_read_write_bit cb 0 s = ((APP_ERR_NONE, of_bool (dtdo (dev (cable s)))), s')"
    "dev (cable s') = dstep pin0 (dev (cable s))" "same_globals s s'"
    by (rule wait_status_step)
  with 0 show ?case by (subst wait_status.simps) simp
next
  case (Suc w)
  obtain s' where s': "jtag_read_write_bit cb 0 s = ((APP_ERR_NONE, of_bool (dtdo (dev (cable s)))), s')"
    "dev (cable s') = dstep pin0 (dev (cable s))" "same_globals s s'"
    by (rule wait_status_step)
  from Suc.prems(1) have "\<not> dtdo (dev (cable s))"
    "tdo_run dstep dtdo (replicate (Suc w) pin0) (dev (cable s')) = replicate w False @ [True]"
    by (simp_all add: s'(2))
  with Suc.IH [of s' "Suc j"] Suc.prems(2) s' show ?case
    by (subst wait_status.simps) (auto intro: same_globals_trans)
qed

lemma wait_status_timeout:
  assumes "tdo_run dstep dtdo (replicate w pin0) (dev (cable s)) = replicate w False"
    and "j + w = MAX_READ_STATUS_WAIT"
  shows "\<exists>s'. wait_status cb j err s = ((False, err), s') \<and> same_globals s s' \<and>
    dev (cable s') = fold dstep (replicate (Suc w) pin0) (dev (cable s))"
  using assms
proof (induction w arbitrary: j s)
  case 0
  obtain s' where "jtag_read_write_bit cb 0 s = ((APP_ERR_NONE, of_bool (dtdo (dev (cable s)))), s')"
    "dev (cable s') = dstep pin0 (dev (cable s))" "same_globals s s'"
    by (rule wait_status_step)
  with 0 show ?case by (subst wait_status.simps) simp
next
  case (Suc w)
  obtain s' where s': "jtag_read_write_bit cb 0 s = ((APP_ERR_NONE, of_bool (dtdo (dev (cable s)))), s')"
    "dev (cable s') = dstep pin0 (dev (cable s))" "same_globals s s'"
    by (rule wait_status_step)
  from Suc.prems(1) have "\<not> dtdo (dev (cable s))"
    "tdo_run dstep dtdo (replicate w pin0) (dev (cable s')) = replicate w False"
    by (simp_all add: s'(2))
  with Suc.IH [of s' "Suc j"] Suc.prems(2) s' show ?case
    by (subst wait_status.simps) (auto intro: same_globals_trans)
qed

end

section \<open>Burst reads\<close>

text \<open>The command that starts a burst and the device right behind it, ready to answer.\<close>

definition burst_updates :: "nat \<Rightarrow> 'c chain \<Rightarrow> u32 \<Rightarrow> u64 \<Rightarrow> int \<Rightarrow> update list" where
  "burst_updates k s opcode addr len = select_updates k (current_chain s) (desired_chain s)
     @ [DR_Update (word_bits 16 (word_of_int len) @ word_bits 32 (ucast addr)
          @ word_bits 4 opcode @ False # replicate k False)]"

definition burst_shift_state :: "'c jtag_cable \<Rightarrow> u32 \<Rightarrow> u64 \<Rightarrow> int \<Rightarrow> 'c chain \<Rightarrow> 'c chain" where
  "burst_shift_state cb opcode addr len s =
     snd (tap_set_shift_dr cb (snd (adbg_burst_command cb opcode addr len s)))"

text \<open>What holds of a chain that a burst may start on.\<close>

definition burst_ready :: "nat \<Rightarrow> 'c chain \<Rightarrow> u32 \<Rightarrow> u64 \<Rightarrow> int \<Rightarrow> bool" where
  "burst_ready k s opcode addr len \<longleftrightarrow> 0 \<le> desired_chain s \<and> desired_chain s < 4 \<and>
     global_DR_prefix_bits (conf s) = int k \<and> 0 \<le> len \<and> len < 65536 \<and> addr < 0x100000000 \<and>
     opcode < 16"

lemma burst_command_desired:
  "desired_chain (snd (adbg_burst_command cb opcode addr len s)) = desired_chain s"
proof -
  have "same_globals t (snd (err_seq [tap_set_shift_dr cb, jtag_write_stream cb ws n True,
      tap_exit_to_idle cb] t))" for t :: "'a chain" and ws n
    by (rule same_globals_err_seq) auto
  note g = this [THEN same_globals_fields(3)]
  show ?thesis
    by (auto simp: adbg_burst_command_def Let_def split_beta g select_module_globals simp del: err_seq.simps)
qed

context reliable_tap
begin

lemma burst_shift_view:
  assumes "at_idle (view (dev (cable s))) u" and r: "burst_ready k s opcode addr len"
  defines "t \<equiv> burst_shift_state cb opcode addr len s"
  shows "view (dev (cable t)) = \<lparr>tap = Shift_DR, shifted = [],
      updates = u @ burst_updates k s opcode addr len\<rparr>"
    and "conf t = conf s" and "current_chain t = desired_chain s" and "desired_chain t = desired_chain s"
proof -
  let ?b = "snd (adbg_burst_command cb opcode addr len s)"
  have bc: "at_idle (view (dev (cable ?b))) (u @ burst_updates k s opcode addr len)"
    "conf ?b = conf s" "current_chain ?b = desired_chain s"
    using burst_command_idle(2-4) [OF assms(1)] r by (simp_all add: burst_ready_def burst_updates_def)
  obtain sh where "view (dev (cable ?b)) = \<lparr>tap = Run_Test_Idle, shifted = sh,
      updates = u @ burst_updates k s opcode addr len\<rparr>"
    using at_idleD [OF bc(1)] by blast
  then show "view (dev (cable t)) = \<lparr>tap = Shift_DR, shifted = [],
      updates = u @ burst_updates k s opcode addr len\<rparr>"
    unfolding t_def burst_shift_state_def by (rule shift_dr_view)
  show "conf t = conf s" "current_chain t = desired_chain s" "desired_chain t = desired_chain s"
    unfolding t_def burst_shift_state_def
    using bc(2,3) same_globals_fields(1-3) [OF same_globals_jtag(4) [of ?b cb]]
      burst_command_desired [of cb opcode addr len s] by simp_all
qed

text \<open>The transfer of the payload: \<open>n\<close> bytes and their CRC.\<close>

lemma read_payload:
  assumes "view (dev (cable t)) = \<lparr>tap = Shift_DR, shifted = sh, updates = v\<rparr>"
    and pre: "global_DR_prefix_bits (conf t) = int k" and post: "global_DR_postfix_bits (conf t) = int q"
    and bits: "tdo_run dstep dtdo (replicate (8 * (n + 4)) pin0) (dev (cable t)) =
        bytes_bits (bs @ word_to_bytes crc)"
    and n: "length bs = n"
  defines "r \<equiv> jtag_read_write_stream cb (replicate (nat ((int n + 4 + 3) div 4)) 0)
      ((int n + 4) * 8) False True t"
  shows "mem_copy h (words_to_bytes (snd (fst r))) 0 n = bs"
    and "mem_word h (words_to_bytes (snd (fst r))) n = crc"
    and "view (dev (cable (snd r))) = \<lparr>tap = Exit1_DR,
      shifted = sh @ replicate (8 * (n + 4) + k) False, updates = v\<rparr>"
proof -
  let ?z = "replicate ((n + 7) div 4) 0 :: u32 list"
  have L: "nat ((int n + 4 + 3) div 4) = (n + 7) div 4" by linarith
  have "n + 4 \<le> 4 * ((n + 7) div 4)" by linarith
  then have m: "0 < 8 * (n + 4)" "8 * (n + 4) \<le> 32 * length ?z" by simp_all
  have r: "r = jtag_read_write_stream cb ?z (int (8 * (n + 4))) False True t"
    unfolding r_def L by (simp add: algebra_simps)
  have "snd (fst r) = bits_to_words (bytes_bits (bs @ word_to_bytes crc))"
    unfolding r read_write_stream_data [OF m post] stream_pins_zeros using bits by simp
  then show "mem_copy h (words_to_bytes (snd (fst r))) 0 n = bs"
    "mem_word h (words_to_bytes (snd (fst r))) n = crc"
    using received_bytes [OF n] received_word [OF n] by simp_all
  show "view (dev (cable (snd r))) = \<lparr>tap = Exit1_DR,
      shifted = sh @ replicate (8 * (n + 4) + k) False, updates = v\<rparr>"
    unfolding r read_write_stream_view [OF assms(1) m post pre]
    by (simp add: stream_bits_zeros replicate_add)
qed

end

context reliable_tap
begin

lemma burst_read_attempt_data:
  fixes w n :: nat and z wc :: int
  assumes idle: "at_idle (view (dev (cable s))) u" and r: "burst_ready k s opcode (burst_addr p) (wc - burst_i p)"
    and post: "global_DR_postfix_bits (conf s) = int q" and "\<not> global_xilinx_bscan (conf s)"
    and "malloc_ok h (int n + 4)" and "burst_err p = APP_ERR_NONE"
    and n: "wc * z = int n" "length bs = n" and w: "w < MAX_READ_STATUS_WAIT"
    and answer: "tdo_run dstep dtdo (replicate (Suc w + 8 * (n + 4)) pin0)
        (dev (cable (burst_shift_state cb opcode (burst_addr p) (wc - burst_i p) s))) =
        replicate w False @ True # bytes_bits (bs @ word_to_bytes crc)"
  shows "\<exists>s'. burst_read_attempt h cb opcode z wc start p data s =
      (if crc_bytes h bs \<noteq> crc then ((Burst_Return APP_ERR_CRC, Some bs), s')
       else let (r, t) = check_bus_error h cb True z start (p\<lparr>burst_err := APP_ERR_NONE\<rparr>) s'
            in ((r, Some bs), t)) \<and>
    at_idle (view (dev (cable s'))) (u @ burst_updates k s opcode (burst_addr p) (wc - burst_i p)
      @ [DR_Update (replicate (Suc w + 8 * (n + 4) + k) False)]) \<and>
    conf s' = conf s \<and> current_chain s' = desired_chain s \<and> desired_chain s' = desired_chain s"
proof -
  let ?b = "adbg_burst_command cb opcode (burst_addr p) (wc - burst_i p) s"
  let ?t = "burst_shift_state cb opcode (burst_addr p) (wc - burst_i p) s"
  let ?v = "u @ burst_updates k s opcode (burst_addr p) (wc - burst_i p)"
  note shift = burst_shift_view [OF idle r]
  have b: "fst ?b = APP_ERR_NONE" "conf (snd ?b) = conf s"
    using burst_command_idle(1,3) [OF idle] r by (simp_all add: burst_ready_def)
  have kick: "err_seq [xilinx_kick h cb, tap_set_shift_dr cb] (snd ?b) = (APP_ERR_NONE, ?t)"
    using assms(4) b(2)
    by (simp add: xilinx_kick_def burst_shift_state_def Let_def split_beta prod_eq_iff)
  have "tdo_run dstep dtdo (replicate (Suc w) pin0) (dev (cable ?t)) @
      tdo_run dstep dtdo (replicate (8 * (n + 4)) pin0)
        (fold dstep (replicate (Suc w) pin0) (dev (cable ?t))) =
      (replicate w False @ [True]) @ bytes_bits (bs @ word_to_bytes crc)"
    using answer unfolding replicate_add tdo_run_append by (simp only: append_assoc append_Cons append_Nil)
  then have a1: "tdo_run dstep dtdo (replicate (Suc w) pin0) (dev (cable ?t)) = replicate w False @ [True]"
    and a2: "tdo_run dstep dtdo (replicate (8 * (n + 4)) pin0)
      (fold dstep (replicate (Suc w) pin0) (dev (cable ?t))) = bytes_bits (bs @ word_to_bytes crc)"
    by (subst (asm) append_eq_append_conv; simp only: length_tdo_run length_append length_replicate
        list.size; simp)+
  obtain s1 where s1: "wait_status cb 0 APP_ERR_NONE ?t = ((True, APP_ERR_NONE), s1)" "same_globals ?t s1"
    "dev (cable s1) = fold dstep (replicate (Suc w) pin0) (dev (cable ?t))"
    using wait_status_ready [OF a1, of 0] w by auto
  let ?s2 = "snd (err_seq [check_input_scratchpad h (int n + 4), check_output_scratchpad h (int n + 4)] s1)"
  let ?r = "jtag_read_write_stream cb (replicate (nat ((int n + 4 + 3) div 4)) 0)
      ((int n + 4) * 8) False True ?s2"
  let ?s' = "snd (tap_exit_to_idle cb (snd ?r))"
  have s2: "cable ?s2 = cable s1" "conf ?s2 = conf s" "current_chain ?s2 = desired_chain s"
      "desired_chain ?s2 = desired_chain s"
    using same_globals_fields(1-3) [OF s1(2)] shift(2-4) by (simp_all add: snd_err_seq del: err_seq.simps)
  have mem: "fst (err_seq [check_input_scratchpad h (int n + 4), check_output_scratchpad h (int n + 4)] s1)
      = APP_ERR_NONE"
    using scratchpad_ok [OF assms(5)] by (intro err_seq_none) auto
  have v2: "view (dev (cable ?s2)) = \<lparr>tap = Shift_DR, shifted = replicate (Suc w) False, updates = ?v\<rparr>"
    unfolding s2(1) s1(3) by (simp add: view_fold view_step view_funpow shift(1) tap_step_cases
        funpow_zero_bits replicate_append_same del: fold_simps)
  have pq: "global_DR_prefix_bits (conf ?s2) = int k" "global_DR_postfix_bits (conf ?s2) = int q"
    using s2(2) post r by (simp_all add: burst_ready_def)
  have "tdo_run dstep dtdo (replicate (8 * (n + 4)) pin0) (dev (cable ?s2)) = bytes_bits (bs @ word_to_bytes crc)"
    unfolding s2(1) s1(3) by (rule a2)
  note pay = read_payload [OF v2 pq this n(2)]
  have idle': "view (dev (cable ?s')) = \<lparr>tap = Run_Test_Idle,
      shifted = replicate (Suc w) False @ replicate (8 * (n + 4) + k) False,
      updates = ?v @ [DR_Update (replicate (Suc w) False @ replicate (8 * (n + 4) + k) False)]\<rparr>"
    by (rule exit_to_idle_view [OF pay(3)])
  have "same_globals ?s2 ?s'"
    by (rule same_globals_trans [OF same_globals_read_stream same_globals_jtag(5)])
  note g = same_globals_fields(1-3) [OF this]
  have "burst_read_attempt h cb opcode z wc start p data s =
      (if crc_bytes h bs \<noteq> crc then ((Burst_Return APP_ERR_CRC, Some bs), ?s')
       else let (r, t) = check_bus_error h cb True z start (p\<lparr>burst_err := APP_ERR_NONE\<rparr>) ?s'
            in ((r, Some bs), t))"
    unfolding burst_read_attempt_def
    by (simp only: Let_def split_beta fst_conv snd_conv b(1) kick s1(1) n(1) mem pay(1,2) retry_or_never
        assms(6) jtag_ok nat_int err_or_none err_none_zero simp_thms if_True if_False
        cong: if_cong) (simp del: err_seq.simps)
  moreover have "replicate (Suc w) False @ replicate (8 * (n + 4) + k) False =
      replicate (Suc w + 8 * (n + 4) + k) False"
    by (simp only: replicate_add append_assoc)
  ultimately show ?thesis
    using idle' g s2 unfolding at_idle_def
    by (intro exI [of _ ?s'] conjI) (simp_all only: tap_view.simps append_assoc)
qed

end

section \<open>Reading a module register\<close>

definition reg_updates :: "nat \<Rightarrow> 'c chain \<Rightarrow> u64 \<Rightarrow> update list" where
  "reg_updates k s i = (if word_of_int (current_reg_idx s (current_chain s)) = i then []
     else [DR_Update (word_bits 1 (ucast i) @ word_bits 4 0xd @ False # replicate k False)])"

text \<open>The chain with the register selected and the debug unit about to shift it out, and the
  bits of the register, behind those of the other devices.\<close>

definition reg_shift_state :: "'c jtag_cable \<Rightarrow> u64 \<Rightarrow> 'c chain \<Rightarrow> 'c chain" where
  "reg_shift_state cb i s = snd (tap_set_shift_dr cb (snd (adbg_select_ctrl_reg cb i s)))"

definition reg_bits :: "'c jtag_cable \<Rightarrow> ('c \<Rightarrow> 'd) \<Rightarrow> (pin \<Rightarrow> 'd \<Rightarrow> 'd) \<Rightarrow> ('d \<Rightarrow> bool) \<Rightarrow> nat \<Rightarrow> u64
    \<Rightarrow> 'c chain \<Rightarrow> nat \<Rightarrow> bool list" where
  "reg_bits cb dev dstep dtdo q i s n = tdo_run dstep dtdo (replicate n pin0)
     (fold dstep (replicate q pin0) (dev (cable (reg_shift_state cb i s))))"

lemma length_reg_bits [simp]: "length (reg_bits cb dev dstep dtdo q i s n) = n"
  by (simp add: reg_bits_def length_tdo_run)

context reliable_tap
begin

lemma select_reg_idle:
  assumes "at_idle (view (dev (cable s))) u" and c: "current_chain s \<in> {DC_WISHBONE, DC_CPU0, DC_CPU1}"
    and "desired_chain s = current_chain s"
    and k: "global_DR_prefix_bits (conf s) = int k" and "i < 2"
  shows "fst (adbg_select_ctrl_reg cb i s) = APP_ERR_NONE"
    and "at_idle (view (dev (cable (snd (adbg_select_ctrl_reg cb i s))))) (u @ reg_updates k s i)"
    and "conf (snd (adbg_select_ctrl_reg cb i s)) = conf s"
    and "current_chain (snd (adbg_select_ctrl_reg cb i s)) = current_chain s"
    and "desired_chain (snd (adbg_select_ctrl_reg cb i s)) = current_chain s"
proof -
  let ?f = "err_seq [tap_set_shift_dr cb, jtag_write_stream cb [ireg_command 13 1 i] 6 True,
      tap_exit_to_idle cb]"
  have sel: "adbg_select_ctrl_reg cb i s =
      (if word_of_int (current_reg_idx s (current_chain s)) = i then (APP_ERR_NONE, s)
       else (fst (?f s), set_reg_idx i (retry_ok (snd (?f s)))))"
    using ireg_tables(1) [OF c] assms(3)
    by (simp add: adbg_select_ctrl_reg_def select_current Let_def split_beta del: err_seq.simps)
  have "fst (?f s) = APP_ERR_NONE" by (rule err_seq_none) auto
  moreover have "same_globals s (snd (?f s))" by (rule same_globals_err_seq) auto
  moreover have "at_idle (view (dev (cable (snd (?f s)))))
      (u @ [DR_Update (stream_bits [ireg_command 13 1 i] 6 @ replicate k False)])"
    using dr_write_idle [OF assms(1) _ _ k, of 6 "[ireg_command 13 1 i]"] by (simp del: err_seq.simps)
  ultimately show "fst (adbg_select_ctrl_reg cb i s) = APP_ERR_NONE"
    "at_idle (view (dev (cable (snd (adbg_select_ctrl_reg cb i s))))) (u @ reg_updates k s i)"
    "conf (snd (adbg_select_ctrl_reg cb i s)) = conf s"
    "current_chain (snd (adbg_select_ctrl_reg cb i s)) = current_chain s"
    "desired_chain (snd (adbg_select_ctrl_reg cb i s)) = current_chain s"
    using ireg_command_bits [OF assms(5), of 13] assms(1,3)
    by (simp_all add: sel reg_updates_def same_globals_fields del: err_seq.simps)
qed

lemma reg_shift_view:
  assumes "at_idle (view (dev (cable s))) u" and "current_chain s \<in> {DC_WISHBONE, DC_CPU0, DC_CPU1}"
    and "desired_chain s = current_chain s"
    and "global_DR_prefix_bits (conf s) = int k" and "i < 2"
  shows "view (dev (cable (reg_shift_state cb i s))) =
      \<lparr>tap = Shift_DR, shifted = [], updates = u @ reg_updates k s i\<rparr>"
proof -
  obtain sh where "view (dev (cable (snd (adbg_select_ctrl_reg cb i s)))) =
      \<lparr>tap = Run_Test_Idle, shifted = sh, updates = u @ reg_updates k s i\<rparr>"
    using at_idleD [OF select_reg_idle(2) [OF assms]] by blast
  then show ?thesis
    unfolding reg_shift_state_def by (rule shift_dr_view)
qed

lemma ctrl_read_idle:
  assumes "at_idle (view (dev (cable s))) u" and c: "current_chain s \<in> {DC_WISHBONE, DC_CPU0, DC_CPU1}"
    and "desired_chain s = current_chain s"
    and k: "global_DR_prefix_bits (conf s) = int k" and q: "global_DR_postfix_bits (conf s) = int q"
    and n: "0 < n" "n \<le> 128" and "i < 2"
  shows "\<exists>s'. adbg_ctrl_read cb i (int n) s =
      ((APP_ERR_NONE, Some (bits_to_words (reg_bits cb dev dstep dtdo q i s n))), s') \<and>
    at_idle (view (dev (cable s'))) (u @ reg_updates k s i @ [DR_Update (replicate (q + n + 5 + k) False)]) \<and>
    conf s' = conf s \<and> current_chain s' = current_chain s \<and> desired_chain s' = current_chain s"
proof -
  let ?z = "[0, 0, 0, 0] :: u32 list"
  let ?s1 = "snd (adbg_select_ctrl_reg cb i s)" and ?t = "reg_shift_state cb i s"
  let ?r = "jtag_read_write_stream cb ?z (int n) True False ?t"
  let ?f = "err_seq [jtag_write_stream cb ?z 5 True, tap_exit_to_idle cb]"
  note sel = select_reg_idle [OF assms(1) c assms(3) k assms(8)]
  have z: "?z = replicate 4 0" by (simp add: numeral_eq_Suc)
  have nz: "n \<le> 32 * length ?z" and five: "(0 :: nat) < 5" "5 \<le> 32 * length ?z" using n by simp_all
  note v = reg_shift_view [OF assms(1) c assms(3) k assms(8)]
  have g: "same_globals ?s1 ?t" by (simp add: reg_shift_state_def)
  have kq: "global_DR_prefix_bits (conf ?t) = int k" "global_DR_postfix_bits (conf ?t) = int q"
    using k q sel(3) same_globals_fields(1) [OF g] by simp_all
  have data: "snd (fst ?r) = bits_to_words (reg_bits cb dev dstep dtdo q i s n)"
    unfolding read_write_stream_data [OF n(1) nz kq(2)] unfolding z stream_pins_zeros reg_bits_def by simp
  have g2: "same_globals ?t (snd ?r)" by simp
  have k2: "global_DR_prefix_bits (conf (snd ?r)) = int k"
    using kq(1) same_globals_fields(1) [OF g2] by simp
  note v2 = read_write_stream_view [OF v n(1) nz kq(2,1), of True False]
  have v3: "at_idle (view (dev (cable (snd (?f (snd ?r))))))
      (u @ reg_updates k s i @ [DR_Update (replicate (q + n + 5 + k) False)])"
    using exit_to_idle_view [OF write_stream_view [OF v2 [unfolded if_False if_True] five k2]]
    unfolding z stream_bits_zeros snd_err_seq
    by (simp add: at_idle_def replicate_add)
  have ok: "fst (?f (snd ?r)) = APP_ERR_NONE" by (rule err_seq_none) auto
  have g3: "same_globals (snd ?r) (snd (?f (snd ?r)))" by (rule same_globals_err_seq) auto
  have "adbg_ctrl_read cb i (int n) s =
      ((APP_ERR_NONE, Some (bits_to_words (reg_bits cb dev dstep dtdo q i s n))), retry_ok (snd (?f (snd ?r))))"
    using ireg_tables(3) [OF c] sel ok data assms(3)
    by (simp add: adbg_ctrl_read_def select_current Let_def split_beta flip: reg_shift_state_def del: err_seq.simps)
  moreover note same_globals_fields(1,2,3) [OF g] same_globals_fields(1,2,3) [OF g2]
    same_globals_fields(1,2,3) [OF g3]
  ultimately show ?thesis using v3 sel(3-5)
    by (intro exI [of _ "retry_ok (snd (?f (snd ?r)))"]) (simp del: err_seq.simps)
qed

end

section \<open>Bus errors\<close>

lemma bus_error_addr_bits:
  assumes "length bs = 33"
  shows "bus_error_addr (overlay (Some (bits_to_words bs)) ed) = ucast (bits_word (tl bs))"
proof -
  let ?w = "bits_to_words bs"
  have "?w = [bits_word (take 32 bs), bits_word (drop 32 bs)]"
    using assms by (simp add: bits_to_words_def upt_rec numeral_2_eq_2)
  then have ed: "rd (overlay (Some ?w) ed) 0 = bits_word (take 32 bs)"
    "rd (overlay (Some ?w) ed) 1 = bits_word (drop 32 bs)"
    by (simp_all add: overlay_def rd_def)
  have "drop_bit 1 (bits_word (take 32 bs)) OR push_bit 31 (bits_word (drop 32 bs)) = bits_word (tl bs)"
  proof (rule bit_word_eqI)
    fix n assume "n < LENGTH(32)"
    then have "n < 31 \<or> n = 31" by auto
    with assms show "bit (drop_bit 1 (bits_word (take 32 bs)) OR push_bit 31 (bits_word (drop 32 bs))) n =
        bit (bits_word (tl bs)) n"
      unfolding bit_or_iff bit_drop_bit_eq bit_push_bit_iff bit_bits_word comp_def
      by (elim disjE) (simp_all add: nth_tl)
  qed
  then show ?thesis unfolding bus_error_addr_def ed by simp
qed

lemma bus_error_bit:
  assumes "length bs = n" "0 < n"
  shows "rd (overlay (Some (bits_to_words bs)) ed) 0 AND 1 \<noteq> 0 \<longleftrightarrow> hd bs"
proof -
  have "rd (overlay (Some (bits_to_words bs)) ed) 0 = bits_word (take 32 bs)"
    using assms nth_bits_to_words [of 0 bs] by (simp add: overlay_def rd_def nth_append div_greater_zero_iff)
  moreover have "w AND 1 \<noteq> 0 \<longleftrightarrow> bit w 0" for w :: u32
    by (simp add: and_one_eq bit_0 even_iff_mod_2_eq_zero)
  ultimately show ?thesis
    using assms by (cases bs) (simp_all add: bit_bits_word)
qed

text \<open>The address of the failed access, as the debug unit shows it behind the error bit, and the
  update that resets the error register.\<close>

definition failed_address :: "'c jtag_cable \<Rightarrow> ('c \<Rightarrow> 'd) \<Rightarrow> (pin \<Rightarrow> 'd \<Rightarrow> 'd) \<Rightarrow> ('d \<Rightarrow> bool) \<Rightarrow> nat
    \<Rightarrow> 'c chain \<Rightarrow> u64" where
  "failed_address cb dev dstep dtdo q s = ucast (bits_word (tl (reg_bits cb dev dstep dtdo q
     DBG_WB_REG_ERROR (snd (adbg_ctrl_read cb DBG_WB_REG_ERROR 1 s)) 33)))"

definition bus_error :: "'c jtag_cable \<Rightarrow> ('c \<Rightarrow> 'd) \<Rightarrow> (pin \<Rightarrow> 'd \<Rightarrow> 'd) \<Rightarrow> ('d \<Rightarrow> bool) \<Rightarrow> nat
    \<Rightarrow> 'c chain \<Rightarrow> bool" where
  "bus_error cb dev dstep dtdo q s \<longleftrightarrow> current_chain s = DC_WISHBONE \<and>
     hd (reg_bits cb dev dstep dtdo q DBG_WB_REG_ERROR s 1)"

definition reset_error :: "nat \<Rightarrow> bool \<Rightarrow> update" where
  "reset_error k b = DR_Update (b # word_bits 1 0 @ word_bits 4 9 @ False # replicate k False)"

lemma stream_bits_rd: "stream_bits ws 1 = [bit (rd ws 0) 0]"
  by (simp add: stream_bits_def stream_bit_def)

lemma ctrl_write_globals:
  assumes "desired_chain s = current_chain s"
  shows "conf (snd (adbg_ctrl_write cb i ws n s)) = conf s"
    and "desired_chain (snd (adbg_ctrl_write cb i ws n s)) = current_chain s"
proof -
  have "same_globals t (snd (err_seq [tap_set_shift_dr cb, jtag_write_stream cb ws n False,
      jtag_write_stream cb [data] m True, tap_exit_to_idle cb] t))" for t :: "'a chain" and data m
    by (rule same_globals_err_seq) auto
  note g = this [THEN same_globals_fields(1)] this [THEN same_globals_fields(3)]
  show "conf (snd (adbg_ctrl_write cb i ws n s)) = conf s"
    "desired_chain (snd (adbg_ctrl_write cb i ws n s)) = current_chain s"
    using assms by (auto simp: adbg_ctrl_write_def select_current Let_def split_beta g
        simp del: err_seq.simps split: option.split)
qed

context reliable_tap
begin

lemma check_bus_error_idle:
  assumes idle: "at_idle (view (dev (cable s))) u" and c: "desired_chain s = current_chain s"
    and k: "global_DR_prefix_bits (conf s) = int k" and q: "global_DR_postfix_bits (conf s) = int q"
    and p: "burst_err p = APP_ERR_NONE" "bus_error_retries p < MAX_BUS_ERRORS"
  shows "if bus_error cb dev dstep dtdo q s
     then \<exists>p' t v b. check_bus_error h cb reading z a p s = (Retry_Partial p', t) \<and>
       bus_error_retries p' = Suc (bus_error_retries p) \<and> burst_err p' = APP_ERR_NONE \<and>
       burst_addr p' = failed_address cb dev dstep dtdo q s \<and>
       burst_i p' = bus_error_index h (burst_addr p') a z \<and>
       at_idle (view (dev (cable t))) (v @ [reset_error k b]) \<and> (reading \<longrightarrow> b) \<and>
       conf t = conf s \<and> current_chain t = current_chain s \<and> desired_chain t = current_chain s
     else \<exists>t v. check_bus_error h cb reading z a p s = (Burst_Return APP_ERR_NONE, t) \<and>
       at_idle (view (dev (cable t))) v \<and> (current_chain s \<noteq> DC_WISHBONE \<longrightarrow> v = u)"
proof (cases "current_chain s = DC_WISHBONE")
  case False
  with idle p show ?thesis
    by (auto simp: bus_error_def check_bus_error_def intro!: exI [of _ "retry_ok s"])
next
  case True
  let ?i = "DBG_WB_REG_ERROR"
  let ?b1 = "reg_bits cb dev dstep dtdo q ?i s 1"
  have i: "?i < 2" and i0: "?i = 0" by (simp_all add: DBG_WB_REG_ERROR_def)
  obtain s1 where s1: "adbg_ctrl_read cb ?i 1 s = ((APP_ERR_NONE, Some (bits_to_words ?b1)), s1)"
    "at_idle (view (dev (cable s1))) (u @ reg_updates k s ?i @ [DR_Update (replicate (q + 1 + 5 + k) False)])"
    "conf s1 = conf s" "current_chain s1 = current_chain s" "desired_chain s1 = current_chain s"
    using ctrl_read_idle [OF idle _ c k q, of 1 ?i] True i by auto
  let ?b2 = "reg_bits cb dev dstep dtdo q ?i s1 33"
  obtain s2 u2 where s2: "adbg_ctrl_read cb ?i 33 s1 = ((APP_ERR_NONE, Some (bits_to_words ?b2)), s2)"
    "at_idle (view (dev (cable s2))) u2"
    "conf s2 = conf s" "current_chain s2 = current_chain s" "desired_chain s2 = current_chain s"
    using ctrl_read_idle [OF s1(2), of k q 33 ?i] True i k q s1(3-5) by auto
  let ?e1 = "overlay (Some (bits_to_words ?b1)) (err_data p)"
  let ?e2 = "overlay (Some (bits_to_words ?b2)) ?e1"
  have bit: "rd ?e1 0 AND 1 \<noteq> 0 \<longleftrightarrow> hd ?b1" by (rule bus_error_bit [OF length_reg_bits]) simp
  show ?thesis
  proof (cases "hd ?b1")
    case no: False
    with bit s1(1,2) True p show ?thesis
      by (auto simp: bus_error_def check_bus_error_def Let_def)
  next
    case yes: True
    define ed where "ed = (if reading then ?e2[0 := 1] else ?e2)"
    define t where "t = snd (adbg_ctrl_write cb ?i ed 1 s2)"
    have len: "1 \<le> 32 * length ed" and one: "int 1 = 1" by (simp_all add: ed_def overlay_def)
    have c2: "desired_chain s2 \<in> {DC_WISHBONE, DC_CPU0, DC_CPU1}" "desired_chain s2 = current_chain s2"
      and k2: "global_DR_prefix_bits (conf s2) = int k" using True k s2(3-5) by simp_all
    note w = ctrl_write_idle [OF s2(2) c2(1) k2 _ len i, unfolded one]
    have e: "adbg_ctrl_write cb ?i ed 1 s2 = (APP_ERR_NONE, t)"
      using w(1) by (simp add: t_def prod_eq_iff)
    have idle_t: "at_idle (view (dev (cable t))) (u2 @ [reset_error k (bit (rd ed 0) 0)])"
      using w(2) by (simp add: t_def stream_bits_rd select_updates_def c2(2) reset_error_def i0
          del: One_nat_def)
    have glob: "conf t = conf s" "current_chain t = current_chain s" "desired_chain t = current_chain s"
      using ctrl_write_globals [OF c2(2)] w(3) s2(3-5) by (simp_all add: t_def)
    have addr: "bus_error_addr ?e2 = failed_address cb dev dstep dtdo q s"
      unfolding failed_address_def s1(1) snd_conv by (rule bus_error_addr_bits) simp
    have "check_bus_error h cb reading z a p s = (Retry_Partial
        \<lparr>burst_i = bus_error_index h (bus_error_addr ?e2) a z, burst_addr = bus_error_addr ?e2,
         bus_error_retries = bus_error_retries p + 1, burst_err = APP_ERR_NONE, err_data = ed\<rparr>, t)"
      using True bit yes s1(1) s2(1) e p unfolding ed_def
      by (simp only: check_bus_error_def Let_def split_beta fst_conv snd_conv if_True not_less
          not_False_eq_True simp_thms) simp
    moreover have "reading \<longrightarrow> bit (rd ed 0) 0"
      by (simp add: ed_def rd_def overlay_def)
    ultimately show ?thesis
      using True yes idle_t glob addr by (auto simp: bus_error_def)
  qed
qed

end

section \<open>The result of a burst read\<close>

lemma burst_opcode_range:
  "burst_read_opcode c z = Some opcode \<Longrightarrow> opcode < 16 \<and> c \<in> {DC_WISHBONE, DC_CPU0, DC_CPU1}"
  "burst_write_opcode c z = Some opcode \<Longrightarrow> opcode < 16 \<and> c \<in> {DC_WISHBONE, DC_CPU0, DC_CPU1}"
  by (auto simp: burst_read_opcode_def burst_write_opcode_def const_simps split: if_splits)

lemma burst_start_simps [simp]:
  "burst_addr (burst_start h addr) = addr" "burst_i (burst_start h addr) = 0"
  "burst_err (burst_start h addr) = APP_ERR_NONE" "bus_error_retries (burst_start h addr) = 0"
  by (simp_all add: burst_start_def)

lemma burst_start_ok: "burst_start h addr\<lparr>burst_err := APP_ERR_NONE\<rparr> = burst_start h addr"
  by (simp add: burst_start_def)

text \<open>How a burst goes on after a bus error: at the address that failed, with the error register
  reset.\<close>

definition burst_resumed :: "host \<Rightarrow> int \<Rightarrow> u64 \<Rightarrow> u64 \<Rightarrow> burst_pos \<Rightarrow> bool" where
  "burst_resumed h z start failed p \<longleftrightarrow> bus_error_retries p = 1 \<and> burst_err p = APP_ERR_NONE \<and>
     burst_addr p = failed \<and> burst_i p = bus_error_index h failed start z"

lemma burst_read_result:
  assumes rel: "reliable_tap cb dev dstep dtdo view" and idle: "at_idle (view (dev (cable s))) u"
    and opc: "burst_read_opcode (current_chain s) z = Some opcode" and c: "desired_chain s = current_chain s"
    and k: "global_DR_prefix_bits (conf s) = int k" and q: "global_DR_postfix_bits (conf s) = int q"
    and x: "\<not> global_xilinx_bscan (conf s)" and m: "malloc_ok h (int n + 4)"
    and wc: "0 < wc" "wc < 65536" and addr: "addr < 0x100000000"
    and n: "int wc * z = int n" "length bs = n" and w: "w < MAX_READ_STATUS_WAIT"
    and answer: "tdo_run dstep dtdo (replicate (Suc w + 8 * (n + 4)) pin0)
        (dev (cable (burst_shift_state cb opcode addr (int wc) s))) =
        replicate w False @ True # bytes_bits (bs @ word_to_bytes crc)"
  defines "r \<equiv> adbg_wb_burst_read h cb z (int wc) addr s"
    and "sent \<equiv> u @ [DR_Update (word_bits 16 (of_nat wc) @ word_bits 32 (ucast addr) @ word_bits 4 opcode
              @ False # replicate k False), DR_Update (replicate (Suc w + 8 * (n + 4) + k) False)]"
  shows "\<exists>s1. at_idle (view (dev (cable s1))) sent \<and> conf s1 = conf s \<and>
    current_chain s1 = current_chain s \<and> desired_chain s1 = current_chain s \<and>
    (if crc_bytes h bs \<noteq> crc then r = ((Some APP_ERR_CRC, Some bs), s1)
     else if bus_error cb dev dstep dtdo q s1
     then \<exists>p t v. r = burst_read_loop h cb opcode z (int wc) addr p (Some bs) t \<and>
       burst_resumed h z addr (failed_address cb dev dstep dtdo q s1) p \<and>
       at_idle (view (dev (cable t))) (v @ [reset_error k True])
     else fst r = (Some APP_ERR_NONE, Some bs) \<and> (\<exists>v. at_idle (view (dev (cable (snd r)))) v \<and>
       (current_chain s \<noteq> DC_WISHBONE \<longrightarrow> v = sent)))"
proof -
  let ?p = "burst_start h addr"
  have bounds: "opcode < 16" "0 \<le> desired_chain s" "desired_chain s < 4"
    using burst_opcode_range(1) [OF opc] c by (auto simp: const_simps)
  have ready: "burst_ready k s opcode (burst_addr ?p) (int wc - burst_i ?p)"
    unfolding burst_ready_def using k wc addr bounds by simp
  obtain s1 where att: "burst_read_attempt h cb opcode z (int wc) addr ?p None s =
      (if crc_bytes h bs \<noteq> crc then ((Burst_Return APP_ERR_CRC, Some bs), s1)
       else let (r, t) = check_bus_error h cb True z addr ?p s1 in ((r, Some bs), t))"
    and s1: "at_idle (view (dev (cable s1))) sent" "conf s1 = conf s" "current_chain s1 = current_chain s"
      "desired_chain s1 = current_chain s1"
    using reliable_tap.burst_read_attempt_data [OF rel idle ready q x m _ n w, unfolded burst_start_simps
        burst_start_ok diff_0_right, OF refl answer] c
    by (auto simp: sent_def burst_updates_def select_updates_def)
  have k1: "global_DR_prefix_bits (conf s1) = int k" and q1: "global_DR_postfix_bits (conf s1) = int q"
    using k q s1(2) by simp_all
  have "bus_error_retries ?p < MAX_BUS_ERRORS" by (simp add: MAX_BUS_ERRORS_def)
  note check = reliable_tap.check_bus_error_idle [OF rel s1(1,4) k1 q1 burst_start_simps(3) this,
      where h = h and reading = True and z = z and a = addr]
  have r: "r = (case burst_read_attempt h cb opcode z (int wc) addr ?p None s of
        ((Burst_Return err, data), s) \<Rightarrow> ((Some err, data), s)
      | ((Burst_Exit, data), s) \<Rightarrow> ((None, data), s)
      | ((Retry_Full p, data), s) \<Rightarrow> burst_read_loop h cb opcode z (int wc)
          addr (p\<lparr>burst_i := 0, burst_addr := addr\<rparr>) data s
      | ((Retry_Partial p, data), s) \<Rightarrow> burst_read_loop h cb opcode z (int wc) addr p data s)"
    using opc wc(1) by (simp add: r_def adbg_wb_burst_read_def burst_read_loop.simps [of h cb opcode])
  consider (crc) "crc_bytes h bs \<noteq> crc" | (bus) "crc_bytes h bs = crc" "bus_error cb dev dstep dtdo q s1"
    | (ok) "crc_bytes h bs = crc" "\<not> bus_error cb dev dstep dtdo q s1"
    by blast
  then show ?thesis
  proof cases
    case crc
    with att r c s1 show ?thesis by (intro exI [of _ s1]) auto
  next
    case bus
    then obtain p' t v where "check_bus_error h cb True z addr ?p s1 = (Retry_Partial p', t)"
      "burst_resumed h z addr (failed_address cb dev dstep dtdo q s1) p'"
      "at_idle (view (dev (cable t))) (v @ [reset_error k True])"
      using check by (auto simp: burst_resumed_def)
    with att r bus c s1 show ?thesis by (intro exI [of _ s1]) auto
  next
    case ok
    with check obtain t v where "check_bus_error h cb True z addr ?p s1 = (Burst_Return APP_ERR_NONE, t)"
      "at_idle (view (dev (cable t))) v" "current_chain s1 \<noteq> DC_WISHBONE \<longrightarrow> v = sent"
      by auto
    with att r ok c s1 show ?thesis by (intro exI [of _ s1]) auto
  qed
qed

definition cpu_chain :: "tap_view board chain" where
  "cpu_chain = example_chain\<lparr>current_chain := DC_CPU0, desired_chain := DC_CPU0\<rparr>"

lemma cpu_chain_simps:
  "board_dev (cable cpu_chain) = \<lparr>tap = Run_Test_Idle, shifted = [], updates = []\<rparr>"
  "current_chain cpu_chain = DC_CPU0" "desired_chain cpu_chain = DC_CPU0"
  "conf cpu_chain = example_conf"
  by (simp_all add: cpu_chain_def example_idle [unfolded example_chain_def] example_chain_def
      init_chain_def idle_board_def)

lemma example_conf_simps:
  "global_DR_prefix_bits example_conf = int 1" "global_DR_postfix_bits example_conf = int 1"
  "\<not> global_xilinx_bscan example_conf"
  by (simp_all add: example_conf_def init_conf_def)

lemma cpu_burst_read:
  assumes "reliable_tap cb dev dstep dtdo view" and "at_idle (view (dev (cable s))) u"
    and "current_chain s \<in> {DC_CPU0, DC_CPU1}" and "desired_chain s = current_chain s"
    and "global_DR_prefix_bits (conf s) = int k" and "global_DR_postfix_bits (conf s) = int q"
    and "\<not> global_xilinx_bscan (conf s)" and "malloc_ok h (int (4 * wc) + 4)"
    and "0 < wc" "wc < 65536" "addr < 0x100000000"
    and "length bs = 4 * wc" and "w < MAX_READ_STATUS_WAIT"
    and "tdo_run dstep dtdo (replicate (Suc w + 8 * (4 * wc + 4)) pin0)
        (dev (cable (burst_shift_state cb 7 addr (int wc) s))) =
        replicate w False @ True # bytes_bits (bs @ word_to_bytes crc)"
  shows "fst (adbg_wb_burst_read h cb 4 (int wc) addr s) =
      (Some (if crc_bytes h bs = crc then APP_ERR_NONE else APP_ERR_CRC), Some bs) \<and>
    at_idle (view (dev (cable (snd (adbg_wb_burst_read h cb 4 (int wc) addr s)))))
      (u @ [DR_Update (word_bits 16 (of_nat wc) @ word_bits 32 (ucast addr) @ word_bits 4 7
              @ False # replicate k False),
            DR_Update (replicate (Suc w + 8 * (4 * wc + 4) + k) False)])"
proof -
  have opc: "burst_read_opcode (current_chain s) 4 = Some 7" and wb: "current_chain s \<noteq> DC_WISHBONE"
    using assms(3) by (auto simp: const_simps burst_read_opcode_def)
  have n: "int wc * 4 = int (4 * wc)" by simp
  from burst_read_result [OF assms(1,2) opc assms(4-11) n assms(12-14)] wb show ?thesis
    by (auto simp: bus_error_def split: if_splits)
qed

text \<open>A device that answers a burst command alone shows no bus error afterwards.\<close>

lemma answering_no_error:
  assumes "at_idle (board_dev (cable s)) (u @ [a, b])" and "current_chain s \<in> {DC_WISHBONE, DC_CPU0, DC_CPU1}"
    and "desired_chain s = current_chain s" and "global_DR_prefix_bits (conf s) = int k" and "length us = 1"
  shows "\<not> bus_error (answering_cable us ans) board_dev tap_step (answer_tdo us ans) q s"
proof -
  let ?d = "board_dev (cable (reg_shift_state (answering_cable us ans) DBG_WB_REG_ERROR s))"
  have "DBG_WB_REG_ERROR < 2" by (simp add: DBG_WB_REG_ERROR_def)
  with reliable_tap.reg_shift_view [OF answering_tap assms(1-4)]
  have "?d = \<lparr>tap = Shift_DR, shifted = [], updates = (u @ [a, b]) @ reg_updates k s DBG_WB_REG_ERROR\<rparr>"
    by blast
  then have "updates (fold tap_step (replicate q pin0) ?d) = (u @ [a, b]) @ reg_updates k s DBG_WB_REG_ERROR"
    by (simp add: funpow_zero_bits)
  moreover have "(u @ [a, b]) @ v \<noteq> us" for v using assms(5) by (auto dest: arg_cong [of _ _ length])
  ultimately show ?thesis
    by (simp add: bus_error_def reg_bits_def answer_tdo_def)
qed

definition wishbone_chain :: "tap_view board chain" where
  "wishbone_chain = example_chain\<lparr>current_chain := DC_WISHBONE, desired_chain := DC_WISHBONE\<rparr>"

lemma wishbone_chain_simps:
  "board_dev (cable wishbone_chain) = \<lparr>tap = Run_Test_Idle, shifted = [], updates = []\<rparr>"
  "current_chain wishbone_chain = DC_WISHBONE" "desired_chain wishbone_chain = DC_WISHBONE"
  "conf wishbone_chain = example_conf"
  by (simp_all add: wishbone_chain_def example_idle [unfolded example_chain_def] example_chain_def
      init_chain_def idle_board_def)

definition example_answer :: "bool list" where
  "example_answer = replicate 3 False @ True # bytes_bits ([0xEF, 0xBE, 0xAD, 0xDE]
      @ word_to_bytes (crc_bytes x86_64 [0xEF, 0xBE, 0xAD, 0xDE]))"

definition example_read_command :: update where
  "example_read_command =
     DR_Update (word_bits 16 1 @ word_bits 32 0x8000 @ word_bits 4 7 @ [False, False])"

text \<open>A read of \<open>wc\<close> words from address \<open>0x8000\<close> of the bus, and what the device above answers.\<close>

definition wishbone_command :: "nat \<Rightarrow> u32 \<Rightarrow> update" where
  "wishbone_command wc opcode =
     DR_Update (word_bits 16 (of_nat wc) @ word_bits 32 0x8000 @ word_bits 4 opcode @ [False, False])"

lemma wishbone_shift:
  assumes "wc < 65536" "opcode < 16"
  shows "board_dev (cable (burst_shift_state (answering_cable us ans) opcode 0x8000 (int wc) wishbone_chain)) =
      \<lparr>tap = Shift_DR, shifted = [], updates = [wishbone_command wc opcode]\<rparr>"
proof -
  have r: "burst_ready 1 wishbone_chain opcode 0x8000 (int wc)"
    using assms by (simp add: burst_ready_def wishbone_chain_simps example_conf_simps const_simps)
  have "burst_updates 1 wishbone_chain opcode 0x8000 (int wc) = [wishbone_command wc opcode]"
    by (simp add: burst_updates_def select_updates_def wishbone_chain_simps wishbone_command_def)
  with reliable_tap.burst_shift_view(1) [OF answering_tap _ r, of "[]" us ans] show ?thesis
    by (simp add: wishbone_chain_simps)
qed

lemma wishbone_answers:
  assumes "wc < 65536" "opcode < 16"
  shows "tdo_run tap_step (answer_tdo [wishbone_command wc opcode] example_answer) (replicate (Suc 3 + 8 * (4 + 4)) pin0)
      (board_dev (cable (burst_shift_state (answering_cable [wishbone_command wc opcode] example_answer)
        opcode 0x8000 (int wc) wishbone_chain))) =
    replicate 3 False @ True # bytes_bits ([0xEF, 0xBE, 0xAD, 0xDE]
      @ word_to_bytes (crc_bytes x86_64 [0xEF, 0xBE, 0xAD, 0xDE]))"
  unfolding wishbone_shift [OF assms]
  using answer_run [of "[]" 68 example_answer "[wishbone_command wc opcode]"]
  by (simp add: example_answer_def)

lemma wishbone_read:
  assumes "burst_read_opcode DC_WISHBONE z = Some opcode" "0 < wc" "wc < 65536" "int wc * z = int 4"
  shows "fst (adbg_wb_burst_read x86_64 (answering_cable [wishbone_command wc opcode] example_answer)
      z (int wc) 0x8000 wishbone_chain) = (Some APP_ERR_NONE, Some [0xEF, 0xBE, 0xAD, 0xDE])"
proof -
  let ?bs = "[0xEF, 0xBE, 0xAD, 0xDE] :: u8 list"
  have o: "opcode < 16" using burst_opcode_range(1) [OF assms(1)] by simp
  have "\<exists>s1 a b. at_idle (board_dev (cable s1)) ([] @ [a, b]) \<and> conf s1 = example_conf \<and>
      current_chain s1 = DC_WISHBONE \<and> desired_chain s1 = DC_WISHBONE \<and>
      (bus_error (answering_cable [wishbone_command wc opcode] example_answer) board_dev tap_step
         (answer_tdo [wishbone_command wc opcode] example_answer) 1 s1 \<or>
       fst (adbg_wb_burst_read x86_64 (answering_cable [wishbone_command wc opcode] example_answer)
         z (int wc) 0x8000 wishbone_chain) = (Some APP_ERR_NONE, Some ?bs))"
    using burst_read_result [OF answering_tap _ _ _ _ _ _ _ assms(2,3) _ assms(4) _ _ wishbone_answers [OF assms(3) o],
        where u = "[]" and k = 1 and q = 1 and h = x86_64] assms(1)
    by (auto simp: wishbone_chain_simps example_conf_simps const_simps split: if_splits)
  then show ?thesis
    using answering_no_error [where u = "[]" and k = 1] by (fastforce simp: example_conf_simps)
qed

text \<open>
  C6: A burst read from any module and of any word size, without the Xilinx
  workaround, sends the burst command with the word count, address and opcode and takes over
  exactly the bytes that the debug unit shifts out behind its status bit, however long the
  status bit takes up to the limit; the TAP is then in Run-Test/Idle. If the CRC behind the
  bytes is not theirs, the call ends with the CRC error. If the module is the Wishbone module
  and its error bit is set, the read is not over: it goes on at the address in the error
  register, which has been reset. Otherwise the call succeeds.
\<close>

theorem burst_read_data:
  assumes "reliable_tap cb dev dstep dtdo view" and "at_idle (view (dev (cable s))) u"
    and "burst_read_opcode (current_chain s) z = Some opcode" and "desired_chain s = current_chain s"
    and "global_DR_prefix_bits (conf s) = int k" and "global_DR_postfix_bits (conf s) = int q"
    and "\<not> global_xilinx_bscan (conf s)" and "malloc_ok h (int n + 4)"
    and "0 < wc" "wc < 65536" and "addr < 0x100000000"
    and "int wc * z = int n" "length bs = n" and "w < MAX_READ_STATUS_WAIT"
    and "tdo_run dstep dtdo (replicate (Suc w + 8 * (n + 4)) pin0)
        (dev (cable (burst_shift_state cb opcode addr (int wc) s))) =
        replicate w False @ True # bytes_bits (bs @ word_to_bytes crc)"
  defines "r \<equiv> adbg_wb_burst_read h cb z (int wc) addr s"
    and "sent \<equiv> u @ [DR_Update (word_bits 16 (of_nat wc) @ word_bits 32 (ucast addr) @ word_bits 4 opcode
              @ False # replicate k False), DR_Update (replicate (Suc w + 8 * (n + 4) + k) False)]"
  shows "\<exists>s1. at_idle (view (dev (cable s1))) sent \<and> conf s1 = conf s \<and>
    current_chain s1 = current_chain s \<and> desired_chain s1 = current_chain s \<and>
    (if crc_bytes h bs \<noteq> crc then r = ((Some APP_ERR_CRC, Some bs), s1)
     else if bus_error cb dev dstep dtdo q s1
     then \<exists>p t v. r = burst_read_loop h cb opcode z (int wc) addr p (Some bs) t \<and>
       burst_resumed h z addr (failed_address cb dev dstep dtdo q s1) p \<and>
       at_idle (view (dev (cable t))) (v @ [reset_error k True])
     else fst r = (Some APP_ERR_NONE, Some bs) \<and> (\<exists>v. at_idle (view (dev (cable (snd r)))) v \<and>
       (current_chain s \<noteq> DC_WISHBONE \<longrightarrow> v = sent)))"
  unfolding r_def sent_def using assms(1-15) by (rule burst_read_result)

theorem burst_read_data_witness:
  "fst (adbg_wb_burst_read x86_64 (answering_cable [wishbone_command 2 6] example_answer)
      2 2 0x8000 wishbone_chain) = (Some APP_ERR_NONE, Some [0xEF, 0xBE, 0xAD, 0xDE])"
proof -
  let ?cb = "answering_cable [wishbone_command 2 6] example_answer"
  have "\<exists>s1 a b. at_idle (board_dev (cable s1)) ([] @ [a, b]) \<and> conf s1 = example_conf \<and>
      current_chain s1 = DC_WISHBONE \<and> desired_chain s1 = DC_WISHBONE \<and>
      (bus_error ?cb board_dev tap_step (answer_tdo [wishbone_command 2 6] example_answer) 1 s1 \<or>
       fst (adbg_wb_burst_read x86_64 ?cb 2 2 0x8000 wishbone_chain) = (Some APP_ERR_NONE, Some [0xEF, 0xBE, 0xAD, 0xDE]))"
    using burst_read_data [OF answering_tap _ _ _ _ _ _ _ _ _ _ _ _ _ wishbone_answers [of 2 6], where u = "[]" and z = 2
        and k = 1 and q = 1 and h = x86_64]
    by (auto simp: wishbone_chain_simps example_conf_simps const_simps burst_read_opcode_def
        split: if_splits)
  then show ?thesis
    using answering_no_error [where u = "[]" and k = 1] by (fastforce simp: example_conf_simps)
qed

text \<open>
  A burst read whose status bit does not come within 100 polls gives up with the retry
  error, and leaves the TAP in Shift-DR instead of Run-Test/Idle.
\<close>

theorem burst_read_timeout:
  assumes "reliable_tap cb dev dstep dtdo view" and "at_idle (view (dev (cable s))) u"
    and "current_chain s \<in> {DC_CPU0, DC_CPU1}" and "desired_chain s = current_chain s"
    and "global_DR_prefix_bits (conf s) = int k" and "\<not> global_xilinx_bscan (conf s)"
    and "0 < wc" "wc < 65536" "addr < 0x100000000"
    and "tdo_run dstep dtdo (replicate MAX_READ_STATUS_WAIT pin0)
        (dev (cable (burst_shift_state cb 7 addr (int wc) s))) = replicate MAX_READ_STATUS_WAIT False"
  shows "fst (adbg_wb_burst_read h cb 4 (int wc) addr s) = (Some APP_ERR_MAX_RETRY, None) \<and>
    tap (view (dev (cable (snd (adbg_wb_burst_read h cb 4 (int wc) addr s))))) = Shift_DR"
proof -
  let ?p = "burst_start h addr" and ?t = "burst_shift_state cb 7 addr (int wc) s"
  let ?b = "adbg_burst_command cb 7 addr (int wc) s"
  have c: "0 \<le> desired_chain s" "desired_chain s < 4"
    and op: "burst_read_opcode (current_chain s) 4 = Some 7"
    using assms(3,4) by (auto simp: const_simps burst_read_opcode_def)
  have r: "burst_ready k s 7 addr (int wc)"
    unfolding burst_ready_def using assms(5,8,9) c by simp
  have b: "fst ?b = APP_ERR_NONE" "conf (snd ?b) = conf s"
    using reliable_tap.burst_command_idle(1,3) [OF assms(1,2)] r by (simp_all add: burst_ready_def)
  have kick: "err_seq [xilinx_kick h cb, tap_set_shift_dr cb] (snd ?b) = (APP_ERR_NONE, ?t)"
    using assms(6) b(2) reliable_tap.jtag_ok(3) [OF assms(1)]
    by (simp add: xilinx_kick_def burst_shift_state_def Let_def split_beta prod_eq_iff)
  obtain s1 where s1: "wait_status cb 0 APP_ERR_NONE ?t = ((False, APP_ERR_NONE), s1)"
    "dev (cable s1) = fold dstep (replicate (Suc MAX_READ_STATUS_WAIT) pin0) (dev (cable ?t))"
    using reliable_tap.wait_status_timeout [OF assms(1,10), of 0 APP_ERR_NONE] by auto
  have "burst_read_attempt h cb 7 4 (int wc) addr ?p None s = ((Burst_Return APP_ERR_MAX_RETRY, None), s1)"
    by (simp add: burst_read_attempt_def burst_start_def Let_def split_beta b(1) kick s1(1)
        retry_or_never del: err_seq.simps)
  then have "adbg_wb_burst_read h cb 4 (int wc) addr s = ((Some APP_ERR_MAX_RETRY, None), s1)"
    using assms(7) by (simp add: adbg_wb_burst_read_def op burst_read_loop.simps)
  moreover have "tap_device cb dev dstep dtdo view" using assms(1) by (simp add: reliable_tap_def)
  then have "view (dev (cable s1)) = (tap_step pin0 ^^ Suc MAX_READ_STATUS_WAIT) (view (dev (cable ?t)))"
    unfolding s1(2) fold_replicate by (simp only: tap_device.view_funpow)
  ultimately show ?thesis
    using reliable_tap.burst_shift_view(1) [OF assms(1,2) r] by (simp only: funpow_zero_bits) simp
qed

theorem burst_read_timeout_witness:
  "tap (board_dev (cable (snd (adbg_wb_burst_read x86_64 (answering_cable [] []) 4 1 0x8000 cpu_chain))))
    = Shift_DR"
proof -
  have f: "\<not> answer_tdo [] [] v" for v by (simp add: answer_tdo_def)
  have "tdo_run tap_step (answer_tdo [] []) (replicate n pin0) d = replicate n False" for n d
    by (induction n arbitrary: d) (simp_all add: f)
  with burst_read_timeout [where s = cpu_chain and u = "[]" and k = 1 and wc = 1 and addr = "0x8000"
        and h = x86_64, OF answering_tap [of "[]" "[]"]] show ?thesis
    by (simp add: cpu_chain_simps example_conf_simps const_simps)
qed

section \<open>Burst writes\<close>

lemma mem_copy_take: "n \<le> length data \<Longrightarrow> mem_copy h data 0 n = take n data"
  by (rule nth_equalityI) (simp_all add: mem_copy_def mem_byte_def)

context reliable_tap
begin

lemma start_bit_view:
  assumes "view (dev (cable t)) = \<lparr>tap = Shift_DR, shifted = sh, updates = v\<rparr>"
  shows "view (dev (cable (snd (jtag_write_bit cb TDO t)))) =
      \<lparr>tap = Shift_DR, shifted = sh @ [True], updates = v\<rparr>"
  by (simp add: dev_write_bit view_step assms tap_step_cases)

lemma zero_bits_globals: "same_globals t (snd (err_seq (replicate k (jtag_write_bit cb 0)) t))"
  by (rule same_globals_err_seq) auto

text \<open>The bits behind the data: prefix zeros, the match bit pulled in over the postfix bits,
  and the way out of Shift-DR.\<close>

lemma match_bit_view:
  assumes "view (dev (cable t)) = \<lparr>tap = Shift_DR, shifted = sh, updates = v\<rparr>"
    and "global_DR_prefix_bits (conf t) = int k" and "global_DR_postfix_bits (conf t) = int q"
  defines "r \<equiv> jtag_read_write_stream cb [0] 1 True False t"
  shows "at_idle (view (dev (cable (snd (err_seq [jtag_write_bit cb TMS, tap_exit_to_idle cb] (snd r))))))
      (v @ [DR_Update (sh @ replicate (q + 2) False)])"
    and "rd (snd (fst r)) 0 = 0 \<longleftrightarrow> \<not> dtdo (fold dstep (replicate q pin0) (dev (cable t)))"
    and "same_globals t (snd r)"
proof -
  let ?d = "fold dstep (replicate q pin0) (dev (cable t))"
  have n: "0 < (1 :: nat)" "1 \<le> 32 * length [0 :: u32]" by simp_all
  have sb: "stream_bits [0] 1 = [False]" by (simp add: stream_bits_def stream_bit_def rd_def)
  have "view (dev (cable (snd r))) = \<lparr>tap = Shift_DR, shifted = sh @ replicate q False @ [False], updates = v\<rparr>"
    using read_write_stream_view [OF assms(1) n assms(3,2), of True False] sb by (simp add: r_def)
  moreover have "replicate q False @ [False, False] = replicate (q + 2) False"
    by (simp add: replicate_append_same [symmetric])
  ultimately show "at_idle (view (dev (cable (snd (err_seq [jtag_write_bit cb TMS, tap_exit_to_idle cb] (snd r))))))
      (v @ [DR_Update (sh @ replicate (q + 2) False)])"
    by (simp add: snd_err_seq tap_exit_to_idle_def dev_write_bit view_step tap_step_cases at_idle_def
        del: err_seq.simps)
  have "snd (fst r) = bits_to_words [dtdo ?d]"
    using read_write_stream_data [OF n assms(3), of True False]
    by (simp add: r_def stream_pins_def)
  then show "rd (snd (fst r)) 0 = 0 \<longleftrightarrow> \<not> dtdo ?d"
    by (cases "dtdo ?d") (simp_all add: rd_def bits_to_words_def bits_word_def)
  show "same_globals t (snd r)" by (simp add: r_def)
qed

end

text \<open>The bits of a burst write in the order they are sent: the start bit, the data, the CRC,
  and zeros that push them past the other devices of the chain.\<close>

definition write_bits :: "u8 list \<Rightarrow> u32 \<Rightarrow> nat \<Rightarrow> bool list" where
  "write_bits bs crc k = True # bytes_bits bs @ word_bits 32 crc @ replicate k False"

abbreviation data_pins :: "bool list \<Rightarrow> pin list" where
  "data_pins bits \<equiv> map (\<lambda>b. Pin False b False) bits"

lemma stream_pins_data: "stream_pins ws n False = data_pins (stream_bits ws n)"
  by (simp add: stream_pins_def stream_bits_def)

context reliable_tap
begin

lemma write_payload:
  fixes t :: "'c chain" and h :: host and m :: int and bs :: "u8 list" and crc :: u32 and k :: nat
  assumes v: "view (dev (cable t)) = \<lparr>tap = Shift_DR, shifted = [], updates = v\<rparr>"
  defines "t1 \<equiv> snd (check_output_scratchpad h m (snd (jtag_write_bit cb TDO t)))"
    and "out \<equiv> bytes_to_words (bs @ word_to_bytes crc)"
  defines "t2 \<equiv> snd (err_seq (jtag_write_stream cb out ((int (length bs) + 4) * 8) False
      # replicate k (jtag_write_bit cb 0)) t1)"
  shows "view (dev (cable t2)) = \<lparr>tap = Shift_DR, shifted = write_bits bs crc k, updates = v\<rparr>"
    and "dev (cable t2) = fold dstep (data_pins (write_bits bs crc k)) (dev (cable t))"
    and "conf t2 = conf t" and "current_chain t2 = current_chain t" and "desired_chain t2 = desired_chain t"
proof -
  let ?n = "8 * (length bs + 4)"
  have n: "0 < ?n" "?n \<le> 32 * length out" and N: "(int (length bs) + 4) * 8 = int ?n"
    unfolding out_def by simp_all
  have bits: "stream_bits out ?n = bytes_bits bs @ word_bits 32 crc"
    using stream_bits_bytes [of "bs @ word_to_bytes crc"] by (simp add: out_def bytes_bits_word)
  let ?t3 = "snd (jtag_write_stream cb out (int ?n) False t1)"
  have t2: "t2 = snd (err_seq (replicate k (jtag_write_bit cb 0)) ?t3)"
    by (simp only: t2_def N snd_err_seq)
  have d1: "dev (cable t1) = dstep (Pin False True False) (dev (cable t))"
    by (simp add: t1_def dev_write_bit)
  have "dev (cable ?t3) = fold dstep (stream_pins out ?n False) (dev (cable t1))"
    using dev_write_stream [OF n] by (simp add: jtag_write_stream_def)
  then have "dev (cable t2) = fold dstep (replicate k pin0)
      (fold dstep (data_pins (bytes_bits bs @ word_bits 32 crc)) (dstep (Pin False True False) (dev (cable t))))"
    unfolding t2 d1 stream_pins_data bits
    by (simp add: dev_replicate [where p = pin0] dev_write_bit del: fold_replicate)
  then show d2: "dev (cable t2) = fold dstep (data_pins (write_bits bs crc k)) (dev (cable t))"
    by (simp add: write_bits_def del: fold_replicate)
  show "view (dev (cable t2)) = \<lparr>tap = Shift_DR, shifted = write_bits bs crc k, updates = v\<rparr>"
    using fold_shift_low(1) [where f = "\<lambda>b. b" and js = "write_bits bs crc k"]
    unfolding d2 view_fold v by simp
  have "same_globals t1 t2" unfolding t2
    by (rule same_globals_trans [OF same_globals_jtag(3) zero_bits_globals])
  moreover have "conf t1 = conf t" "current_chain t1 = current_chain t" "desired_chain t1 = desired_chain t"
    using same_globals_fields(1-3) [OF same_globals_jtag(1) [of t cb TDO]] by (simp_all add: t1_def)
  ultimately show "conf t2 = conf t" "current_chain t2 = current_chain t" "desired_chain t2 = desired_chain t"
    by (simp_all add: same_globals_fields)
qed

end

context reliable_tap
begin

lemma burst_write_attempt_data:
  fixes z wc :: int and n :: nat
  assumes idle: "at_idle (view (dev (cable s))) u"
    and r: "burst_ready k s opcode (burst_addr p) (wc - burst_i p)"
    and post: "global_DR_postfix_bits (conf s) = int q" and "malloc_ok h (int n + 4)"
    and "burst_err p = APP_ERR_NONE" and n: "wc * z = int n" "n \<le> length data"
  defines "crc \<equiv> crc_elements h data z (nat wc)"
    and "d0 \<equiv> dev (cable (burst_shift_state cb opcode (burst_addr p) (wc - burst_i p) s))"
  shows "\<exists>s'. burst_write_attempt h cb opcode data z wc start p s =
      (if dtdo (fold dstep (data_pins (write_bits (take n data) crc (k + q))) d0)
       then check_bus_error h cb False z start (p\<lparr>burst_err := APP_ERR_NONE\<rparr>) s'
       else (Burst_Exit, s')) \<and>
    at_idle (view (dev (cable s'))) (u @ burst_updates k s opcode (burst_addr p) (wc - burst_i p)
      @ [DR_Update (write_bits (take n data) crc (k + q + 2))]) \<and>
    conf s' = conf s \<and> current_chain s' = desired_chain s \<and> desired_chain s' = desired_chain s"
proof -
  let ?b = "adbg_burst_command cb opcode (burst_addr p) (wc - burst_i p) s"
  let ?t = "burst_shift_state cb opcode (burst_addr p) (wc - burst_i p) s"
  let ?bs = "take n data"
  note shift = burst_shift_view [OF idle r]
  have b: "fst ?b = APP_ERR_NONE"
    using burst_command_idle(1) [OF idle] r by (simp add: burst_ready_def)
  let ?t1 = "snd (check_output_scratchpad h (int n + 4) (snd (jtag_write_bit cb TDO ?t)))"
  let ?f = "err_seq (jtag_write_stream cb (bytes_to_words (?bs @ word_to_bytes crc)) ((int n + 4) * 8) False
      # replicate k (jtag_write_bit cb 0))"
  let ?t2 = "snd (?f ?t1)"
  let ?r = "jtag_read_write_stream cb [0] 1 True False ?t2"
  let ?s' = "snd (err_seq [jtag_write_bit cb TMS, tap_exit_to_idle cb] (snd ?r))"
  have len: "length ?bs = n" using n(2) by simp
  note pay = write_payload [OF shift(1), where h = h and m = "int n + 4" and bs = ?bs and crc = crc
      and k = k, unfolded len]
  have pq: "global_DR_prefix_bits (conf ?t2) = int k" "global_DR_postfix_bits (conf ?t2) = int q"
    using pay(3) shift(2) post r by (simp_all add: burst_ready_def del: err_seq.simps)
  note mb = match_bit_view [OF pay(1) pq]
  have split: "data_pins (write_bits ?bs crc (k + q)) = data_pins (write_bits ?bs crc k) @ replicate q pin0"
    "write_bits ?bs crc k @ replicate (q + 2) False = write_bits ?bs crc (k + q + 2)"
    by (simp add: write_bits_def replicate_add)
      (simp only: write_bits_def append.simps append_assoc add.assoc flip: replicate_add)
  have match: "(rd (snd (fst ?r)) 0 = 0) = (\<not> dtdo (fold dstep (data_pins (write_bits ?bs crc (k + q))) d0))"
    unfolding mb(2) pay(2) split d0_def fold_append comp_def ..
  have pre: "nat (global_DR_prefix_bits (conf ?t1)) = k"
    using shift(2) r same_globals_fields(1) [OF same_globals_jtag(1) [of ?t cb TDO]]
    by (simp add: burst_ready_def)
  have ok: "fst (?f ?t1) = APP_ERR_NONE"
    "fst (err_seq [jtag_write_bit cb TMS, tap_exit_to_idle cb] (snd ?r)) = APP_ERR_NONE"
    by (rule err_seq_none; auto)+
  have go: "err_seq [tap_set_shift_dr cb, jtag_write_bit cb TDO] (snd ?b) =
      (APP_ERR_NONE, snd (jtag_write_bit cb TDO ?t))"
    by (simp add: burst_shift_state_def Let_def split_beta prod_eq_iff)
  have "burst_write_attempt h cb opcode data z wc start p s =
      (if rd (snd (fst ?r)) 0 = 0 then (Burst_Exit, ?s')
       else check_bus_error h cb False z start (p\<lparr>burst_err := APP_ERR_NONE\<rparr>) ?s')"
    unfolding burst_write_attempt_def
    by (simp only: Let_def split_beta fst_conv snd_conv b go n(1) nat_int mem_copy_take [OF n(2)] ok pre
        scratchpad_ok [OF assms(4)] crc_def [symmetric] retry_or_never assms(5) jtag_ok
        err_or_none err_none_zero simp_thms if_True if_False cong: if_cong)
  moreover have "same_globals ?t2 ?s'"
    by (rule same_globals_trans [OF mb(3)]) (rule same_globals_err_seq, auto)
  ultimately show ?thesis
    using match mb(1) pay(3-5) shift(2-4) unfolding split
    by (intro exI [of _ ?s']) (simp add: same_globals_fields del: err_seq.simps)
qed

end

lemma burst_write_result:
  assumes rel: "reliable_tap cb dev dstep dtdo view" and idle: "at_idle (view (dev (cable s))) u"
    and opc: "burst_write_opcode (current_chain s) z = Some opcode" and c: "desired_chain s = current_chain s"
    and k: "global_DR_prefix_bits (conf s) = int k" and q: "global_DR_postfix_bits (conf s) = int q"
    and m: "malloc_ok h (int n + 4)"
    and wc: "0 < wc" "wc < 65536" and addr: "addr < 0x100000000"
    and n: "int wc * z = int n" "n \<le> length data" and crc: "crc = crc_elements h data z wc"
    and d0: "d0 = dev (cable (burst_shift_state cb opcode addr (int wc) s))"
  defines "r \<equiv> adbg_wb_burst_write h cb data z (int wc) addr s"
    and "sent \<equiv> u @ [DR_Update (word_bits 16 (of_nat wc) @ word_bits 32 (ucast addr) @ word_bits 4 opcode
              @ False # replicate k False), DR_Update (write_bits (take n data) crc (k + q + 2))]"
  shows "\<exists>s1. at_idle (view (dev (cable s1))) sent \<and> conf s1 = conf s \<and>
    current_chain s1 = current_chain s \<and> desired_chain s1 = current_chain s \<and>
    (if \<not> dtdo (fold dstep (data_pins (write_bits (take n data) crc (k + q))) d0) then r = (None, s1)
     else if bus_error cb dev dstep dtdo q s1
     then \<exists>p t v b. r = burst_write_loop h cb opcode data z (int wc) addr p t \<and>
       burst_resumed h z addr (failed_address cb dev dstep dtdo q s1) p \<and>
       at_idle (view (dev (cable t))) (v @ [reset_error k b])
     else fst r = Some APP_ERR_NONE \<and> (\<exists>v. at_idle (view (dev (cable (snd r)))) v \<and>
       (current_chain s \<noteq> DC_WISHBONE \<longrightarrow> v = sent)))"
proof -
  let ?p = "burst_start h addr"
  let ?match = "dtdo (fold dstep (data_pins (write_bits (take n data) crc (k + q))) d0)"
  have bounds: "opcode < 16" "0 \<le> desired_chain s" "desired_chain s < 4"
    using burst_opcode_range(2) [OF opc] c by (auto simp: const_simps)
  have ready: "burst_ready k s opcode (burst_addr ?p) (int wc - burst_i ?p)"
    unfolding burst_ready_def using k wc addr bounds by simp
  obtain s1 where att: "burst_write_attempt h cb opcode data z (int wc) addr ?p s =
      (if ?match then check_bus_error h cb False z addr ?p s1 else (Burst_Exit, s1))"
    and s1: "at_idle (view (dev (cable s1))) sent" "conf s1 = conf s" "current_chain s1 = current_chain s"
      "desired_chain s1 = current_chain s1"
    using reliable_tap.burst_write_attempt_data [OF rel idle ready q m _ n, unfolded burst_start_simps
        burst_start_ok diff_0_right, OF refl, unfolded nat_int, folded crc d0] c
    by (auto simp: sent_def burst_updates_def select_updates_def)
  have k1: "global_DR_prefix_bits (conf s1) = int k" and q1: "global_DR_postfix_bits (conf s1) = int q"
    using k q s1(2) by simp_all
  have "bus_error_retries ?p < MAX_BUS_ERRORS" by (simp add: MAX_BUS_ERRORS_def)
  note check = reliable_tap.check_bus_error_idle [OF rel s1(1,4) k1 q1 burst_start_simps(3) this,
      where h = h and reading = False and z = z and a = addr]
  have r: "r = (case burst_write_attempt h cb opcode data z (int wc) addr ?p s of
        (Burst_Return err, s) \<Rightarrow> (Some err, s)
      | (Burst_Exit, s) \<Rightarrow> (None, s)
      | (Retry_Full p, s) \<Rightarrow> burst_write_loop h cb opcode data z (int wc)
          addr (p\<lparr>burst_i := 0, burst_addr := addr\<rparr>) s
      | (Retry_Partial p, s) \<Rightarrow> burst_write_loop h cb opcode data z (int wc) addr p s)"
    using opc wc(1) by (simp add: r_def adbg_wb_burst_write_def burst_write_loop.simps [of h cb opcode])
  consider (miss) "\<not> ?match" | (bus) ?match "bus_error cb dev dstep dtdo q s1"
    | (ok) ?match "\<not> bus_error cb dev dstep dtdo q s1"
    by blast
  then show ?thesis
  proof cases
    case miss
    with att r c s1 show ?thesis by (intro exI [of _ s1]) auto
  next
    case bus
    then obtain p' t v b where "check_bus_error h cb False z addr ?p s1 = (Retry_Partial p', t)"
      "burst_resumed h z addr (failed_address cb dev dstep dtdo q s1) p'"
      "at_idle (view (dev (cable t))) (v @ [reset_error k b])"
      using check by (auto simp: burst_resumed_def)
    with att r bus c s1 show ?thesis by (intro exI [of _ s1]) auto
  next
    case ok
    with check obtain t v where "check_bus_error h cb False z addr ?p s1 = (Burst_Return APP_ERR_NONE, t)"
      "at_idle (view (dev (cable t))) v" "current_chain s1 \<noteq> DC_WISHBONE \<longrightarrow> v = sent"
      by auto
    with att r ok c s1 show ?thesis by (intro exI [of _ s1]) auto
  qed
qed

text \<open>
  C7: A burst write to any module and of any word size sends the burst command
  and then, in one register update, the start bit, the data bytes and the CRC, followed by the
  zeros that push them to the debug unit; the TAP is then in Run-Test/Idle. If the debug unit
  does not show its match bit behind them, the process exits. If the module is the Wishbone
  module and its error bit is set, the write goes on at the address in the error register, after
  one bit was written to that register. Otherwise the call succeeds.
\<close>

theorem burst_write_data:
  assumes "reliable_tap cb dev dstep dtdo view" and "at_idle (view (dev (cable s))) u"
    and "burst_write_opcode (current_chain s) z = Some opcode" and "desired_chain s = current_chain s"
    and "global_DR_prefix_bits (conf s) = int k" and "global_DR_postfix_bits (conf s) = int q"
    and "malloc_ok h (int n + 4)" and "0 < wc" "wc < 65536" and "addr < 0x100000000"
    and "int wc * z = int n" "n \<le> length data" and "crc = crc_elements h data z wc"
    and "d0 = dev (cable (burst_shift_state cb opcode addr (int wc) s))"
  defines "r \<equiv> adbg_wb_burst_write h cb data z (int wc) addr s"
    and "sent \<equiv> u @ [DR_Update (word_bits 16 (of_nat wc) @ word_bits 32 (ucast addr) @ word_bits 4 opcode
              @ False # replicate k False), DR_Update (write_bits (take n data) crc (k + q + 2))]"
  shows "\<exists>s1. at_idle (view (dev (cable s1))) sent \<and> conf s1 = conf s \<and>
    current_chain s1 = current_chain s \<and> desired_chain s1 = current_chain s \<and>
    (if \<not> dtdo (fold dstep (data_pins (write_bits (take n data) crc (k + q))) d0) then r = (None, s1)
     else if bus_error cb dev dstep dtdo q s1
     then \<exists>p t v b. r = burst_write_loop h cb opcode data z (int wc) addr p t \<and>
       burst_resumed h z addr (failed_address cb dev dstep dtdo q s1) p \<and>
       at_idle (view (dev (cable t))) (v @ [reset_error k b])
     else fst r = Some APP_ERR_NONE \<and> (\<exists>v. at_idle (view (dev (cable (snd r)))) v \<and>
       (current_chain s \<noteq> DC_WISHBONE \<longrightarrow> v = sent)))"
  unfolding r_def sent_def using assms(1-14) by (rule burst_write_result)

theorem burst_write_data_witness:
  "fst (adbg_wb_burst_write x86_64 (answering_cable [wishbone_command 2 2] (replicate 100 True))
      [1, 2, 3, 4] 2 2 0x8000 wishbone_chain) = Some APP_ERR_NONE"
proof -
  let ?cmd = "wishbone_command 2 2" and ?ans = "replicate 100 True"
  let ?cb = "answering_cable [?cmd] ?ans" and ?d = "[1, 2, 3, 4] :: u8 list"
  have d0: "board_dev (cable (burst_shift_state ?cb 2 0x8000 (int 2) wishbone_chain)) =
      \<lparr>tap = Shift_DR, shifted = [], updates = [?cmd]\<rparr>"
    by (rule wishbone_shift) simp_all
  have match: "answer_tdo [?cmd] ?ans (fold tap_step (data_pins (write_bits ?d crc (1 + 1)))
      \<lparr>tap = Shift_DR, shifted = [], updates = [?cmd]\<rparr>)" for crc
    using fold_shift_low(1) [where f = "\<lambda>b. b" and js = "write_bits ?d crc (1 + 1)"]
    by (simp add: answer_tdo_def write_bits_def)
  have "\<exists>s1 a b. at_idle (board_dev (cable s1)) ([] @ [a, b]) \<and> conf s1 = example_conf \<and>
      current_chain s1 = DC_WISHBONE \<and> desired_chain s1 = DC_WISHBONE \<and>
      (bus_error ?cb board_dev tap_step (answer_tdo [?cmd] ?ans) 1 s1 \<or>
       fst (adbg_wb_burst_write x86_64 ?cb ?d 2 2 0x8000 wishbone_chain) = Some APP_ERR_NONE)"
    using burst_write_data [where s = wishbone_chain and u = "[]" and z = 2 and n = 4 and k = 1 and q = 1
      and wc = 2 and addr = "0x8000" and h = x86_64 and data = ?d,
      OF answering_tap [of "[?cmd]" ?ans] _ _ _ _ _ _ _ _ _ _ _ refl refl, of 2] match
    unfolding d0
    by (auto simp: wishbone_chain_simps example_conf_simps const_simps burst_write_opcode_def
        split: if_splits)
  then show ?thesis
    using answering_no_error [where u = "[]" and us = "[?cmd]" and k = 1] by (auto simp: example_conf_simps)
qed

section \<open>The CRC of a write\<close>

lemma drop_four:
  assumes "k + 4 \<le> length data"
  shows "drop k data = data ! k # data ! (k + 1) # data ! (k + 2) # data ! (k + 3) # drop (k + 4) data"
  using assms by (simp add: Cons_nth_drop_Suc numeral_eq_Suc)

lemma drop_two:
  assumes "k + 2 \<le> length data"
  shows "drop k data = data ! k # data ! (k + 1) # drop (k + 2) data"
  using assms by (simp add: Cons_nth_drop_Suc)

lemma word_bits_mem_word:
  assumes "k + 4 \<le> length data"
  shows "word_bits 32 (mem_word h data k) = bytes_bits (take 4 (drop k data))"
proof -
  let ?l = "[data ! k, data ! (k + 1), data ! (k + 2), data ! (k + 3)]"
  have "take 4 (drop k data) = ?l" by (simp add: drop_four [OF assms])
  moreover have "[mem_word h data k] = bytes_to_words ?l"
    using assms by (simp add: mem_word_def mem_byte_def)
  ultimately show ?thesis
    using stream_bits_bytes [of ?l] by (simp add: stream_bits_one)
qed

lemma word_bits_mem_half:
  assumes "k + 2 \<le> length data"
  shows "word_bits 16 (mem_word h data k AND 0xFFFF) = bytes_bits (take 2 (drop k data))"
proof -
  let ?l = "[mem_byte h data k, mem_byte h data (k + 1), mem_byte h data (k + 2), mem_byte h data (k + 3)]"
  have m: "(0xFFFF :: u32) = mask 16" by (simp add: mask_eq_exp_minus_1)
  have "word_bits 16 (mem_word h data k AND 0xFFFF) = take 16 (word_bits 32 (mem_word h data k))"
    unfolding m by (auto simp: word_bits_def take_map bit_and_iff bit_mask_iff intro!: nth_equalityI)
  also have "word_bits 32 (mem_word h data k) = bytes_bits ?l"
    using stream_bits_bytes [of ?l] by (simp add: stream_bits_one mem_word_def)
  also have "take 16 (bytes_bits ?l) = bytes_bits (take 2 ?l)"
    by (simp add: bytes_bits_def)
  also have "take 2 ?l = take 2 (drop k data)"
    using assms by (simp add: mem_byte_def drop_two)
  finally show ?thesis .
qed

lemma crc_elements_bits:
  assumes "\<And>k. k < wc \<Longrightarrow> word_bits (8 * z) (burst_element h data (int z) k) = bytes_bits (take z (drop (z * k) data))"
    and "z \<le> 4"
  shows "crc_elements h data (int z) wc = crc_bytes h (take (z * wc) data)"
proof -
  have "fold (\<lambda>k crc. adbg_compute_crc h crc (burst_element h data (int z) k) (int z * 8)) [0..<m] c =
      fold crc_bit (bytes_bits (take (z * m) data)) c" if "m \<le> wc" for m c
    using that
  proof (induction m)
    case (Suc m)
    have "take (z * Suc m) data = take (z * m) data @ take z (drop (z * m) data)"
      by (simp only: mult_Suc_right add.commute [of z] take_add)
    with Suc assms(1) [of m] assms(2) adbg_compute_crc_bits [of "8 * z" h] show ?case
      by (simp add: mult.commute)
  qed (simp add: bytes_bits_def)
  then show ?thesis by (simp add: crc_elements_def crc_bytes_bits)
qed

text \<open>
  C32: Where \<open>unsigned long\<close> has four bytes, and for bytes and half words on every host, the
  CRC that a burst write sends is the CRC of the bytes it sends.
\<close>

theorem burst_write_crc:
  assumes "z = 1 \<or> z = 2 \<or> z = 4 \<and> sizeof_ulong h = 4" and "z * wc \<le> length data"
  shows "crc_elements h data (int z) wc = crc_bytes h (take (z * wc) data)"
proof (rule crc_elements_bits)
  fix k assume "k < wc"
  then have "z * Suc k \<le> z * wc" by (intro mult_le_mono) auto
  with assms(2) have k: "z * k + z \<le> length data" by simp
  from assms(1) show "word_bits (8 * z) (burst_element h data (int z) k) = bytes_bits (take z (drop (z * k) data))"
  proof (elim disjE conjE)
    assume z: "z = 1"
    with k have "take 1 (drop k data) = [data ! k]" by (simp add: take_Suc_conv_app_nth take_Suc hd_drop_conv_nth)
    with z k show ?thesis
      by (simp add: burst_element_def mem_byte_def word_bits_byte bytes_bits_def)
  next
    assume "z = 2"
    with k word_bits_mem_half [of "2 * k" data h] show ?thesis
      by (simp add: burst_element_def mult.commute)
  next
    assume "z = 4" "sizeof_ulong h = 4"
    with k word_bits_mem_word [of "4 * k" data h] show ?thesis
      by (simp add: burst_element_def mult.commute)
  qed
qed (use assms(1) in auto)

theorem burst_write_crc_witness:
  "crc_elements x86_32 [1, 2, 3, 4, 5, 6, 7, 8] 4 2 = crc_bytes x86_32 [1, 2, 3, 4, 5, 6, 7, 8]"
  using burst_write_crc [of 4 x86_32 2 "[1, 2, 3, 4, 5, 6, 7, 8]"] by (simp add: x86_32_def)

text \<open>
  Where \<open>unsigned long\<close> has eight bytes, the CRC of a write of two 4-byte words is
  computed over the first word and over whatever lies behind the buffer. Unless that happens to
  equal the second word, the CRC sent is not the CRC of the data sent.
\<close>

theorem burst_write_crc_lp64:
  assumes "sizeof_ulong h = 8" and "length data = 8"
    and "mem_word h data 4 \<noteq> mem_word h [] 0"
  shows "crc_elements h data 4 2 \<noteq> crc_bytes h data"
proof -
  let ?w = "word_to_bytes (mem_word h [] 0)"
  have first: "word_bits 32 (mem_word h data 0) = bytes_bits (take 4 data)"
    using word_bits_mem_word [of 0 data h] assms(2) by simp
  have "mem_word h data 8 = mem_word h [] 0"
    using assms(2) by (simp add: mem_word_def mem_byte_def numeral_2_eq_2)
  then have "crc_elements h data 4 2 = fold crc_bit (bytes_bits (take 4 data @ ?w)) 0xffffffff"
    using adbg_compute_crc_bits [of 32 h] first
    by (simp add: crc_elements_def burst_element_def assms(1) upt_rec numeral_2_eq_2 bytes_bits_word)
  then have "crc_elements h data 4 2 = crc_bytes h (take 4 data @ ?w)"
    by (simp only: crc_bytes_bits)
  moreover have "bytes_bits data = bytes_bits (take 4 data) @ word_bits 32 (mem_word h data 4) @ []"
    using word_bits_mem_word [of 4 data h] assms(2) by (simp flip: bytes_bits_append)
  moreover have "word_bits 32 (mem_word h [] 0) \<noteq> word_bits 32 (mem_word h data 4)"
    using assms(3) by (metis bits_word_word_bits)
  ultimately show ?thesis
    using crc_detects_window [of "take 4 data @ ?w" "bytes_bits (take 4 data)" "word_bits 32 (mem_word h [] 0)" "[]" data
        "word_bits 32 (mem_word h data 4)" h]
    by (simp add: bytes_bits_word)
qed

theorem burst_write_crc_lp64_witness:
  "crc_elements x86_64 [1, 2, 3, 4, 5, 6, 7, 8] 4 2 \<noteq> crc_bytes x86_64 [1, 2, 3, 4, 5, 6, 7, 8]"
  by (rule burst_write_crc_lp64) (simp_all add: x86_64_def x86_32_def mem_word_def mem_byte_def)

end
