(* ===== verification/Legacy_Dbg.thy ===== *)
theory Legacy_Dbg
  imports Adv_Dbg
begin

text \<open>
  Transactions with the legacy debug interface (\<^verbatim>\<open>legacy_dbg_commands.c\<close>). It sends the
  most significant bit first, so every word is reversed before the cable sends it and after
  the cable has read it, and it protects each direction with a CRC of its own, kept in
  \<open>legacy_crc_w\<close> and \<open>legacy_crc_r\<close>. Errors of the transfers themselves are printed and
  otherwise ignored. An assertion that fails ends the process; this is the result None.
\<close>

section \<open>Constants\<close>

definition DC_SIZE :: nat where [const_simps]: "DC_SIZE = 4"
definition DC_STATUS_SIZE :: nat where [const_simps]: "DC_STATUS_SIZE = 4"
definition DI_GO :: u32 where [const_simps]: "DI_GO = 0"
definition DI_READ_CMD :: u32 where [const_simps]: "DI_READ_CMD = 1"
definition DI_WRITE_CMD :: u32 where [const_simps]: "DI_WRITE_CMD = 2"
definition DI_READ_CTRL :: u32 where [const_simps]: "DI_READ_CTRL = 3"
definition DI_WRITE_CTRL :: u32 where [const_simps]: "DI_WRITE_CTRL = 4"
definition LEGACY_CRC_POLY :: u64 where [const_simps]: "LEGACY_CRC_POLY = 0x04c11db7"
definition DBG_CRC_SIZE :: nat where [const_simps]: "DBG_CRC_SIZE = 32"

section \<open>Streams with a CRC\<close>

definition legacy_crc_calc :: "u64 \<Rightarrow> u32 \<Rightarrow> u64" where
  "legacy_crc_calc crc input_bit =
     (let d = (if input_bit AND 1 \<noteq> 0 then 0xfffffff else 0x0000000);
          crc_32 = (if drop_bit 31 crc AND 1 \<noteq> 0 then 0xfffffff else 0x0000000);
          crc = push_bit 1 crc
      in crc XOR ((d XOR crc_32) AND LEGACY_CRC_POLY))"

text \<open>The CRC variables are ints: they are sign-extended for the call and cut to 32 bits when
  they are stored.\<close>

definition crc_step :: "u32 \<Rightarrow> u32 \<Rightarrow> u32" where
  "crc_step crc input_bit = ucast (legacy_crc_calc (scast crc) input_bit)"

text \<open>The loop that reverses the bits of a word; \<open>n\<close> bits are still to be taken.\<close>

fun legacy_reverse :: "nat \<Rightarrow> u32 \<Rightarrow> u32 \<Rightarrow> u32" where
  "legacy_reverse 0 stream outdata = outdata"
| "legacy_reverse (Suc n) stream outdata =
     (let outdata = outdata OR (stream AND 0x1)
      in if 0 < n then legacy_reverse n (drop_bit 1 stream) (push_bit 1 outdata)
         else legacy_reverse n stream outdata)"

definition crc_msb_first :: "nat \<Rightarrow> u32 \<Rightarrow> u32 \<Rightarrow> u32" where
  "crc_msb_first len w crc = fold (\<lambda>i crc. crc_step crc (drop_bit i w AND 1)) (rev [0..<len]) crc"

definition legacy_write_stream :: "'c jtag_cable \<Rightarrow> u32 \<Rightarrow> nat \<Rightarrow> bool \<Rightarrow> 'c chain \<Rightarrow> 'c chain" where
  "legacy_write_stream cb stream len set_last_bit s =
     (let s = snd (jtag_write_stream cb [legacy_reverse len stream 0] (int len) set_last_bit s)
      in s\<lparr>legacy_crc_w := crc_msb_first len stream (legacy_crc_w s)\<rparr>)"

definition legacy_read_stream :: "'c jtag_cable \<Rightarrow> u32 \<Rightarrow> nat \<Rightarrow> bool \<Rightarrow> 'c chain \<Rightarrow> u32 \<times> 'c chain" where
  "legacy_read_stream cb stream len set_last_bit s =
     (let ((e, indata), s) = jtag_read_write_stream cb [stream] (int len) False set_last_bit s;
          data = legacy_reverse len (rd indata 0) 0
      in (data, s\<lparr>legacy_crc_w := crc_msb_first len stream (legacy_crc_w s),
                  legacy_crc_r := crc_msb_first len data (legacy_crc_r s)\<rparr>))"

section \<open>Operations\<close>

text \<open>The end of every transaction: the status, the CRC computed so far, and the CRC read.\<close>

definition legacy_read_status :: "'c jtag_cable \<Rightarrow> 'c chain \<Rightarrow> (u32 \<times> u32 \<times> u32) \<times> 'c chain" where
  "legacy_read_status cb s =
     (let (status, s) = legacy_read_stream cb 0 DC_STATUS_SIZE False s;
          crc_generated = legacy_crc_r s;
          (legacy_crc_read, s) = legacy_read_stream cb 0 DBG_CRC_SIZE True s
      in ((status, crc_generated, legacy_crc_read), s))"

text \<open>The result of an attempt: None for another one.\<close>

definition legacy_verdict :: "host \<Rightarrow> 'c jtag_cable \<Rightarrow> u32 \<times> u32 \<times> u32 \<Rightarrow> 'c chain
    \<Rightarrow> u32 option \<times> 'c chain" where
  "legacy_verdict h cb r s =
     (let (status, crc_generated, legacy_crc_read) = r
      in if legacy_crc_read \<noteq> crc_generated
         then let (again, s) = retry_do h cb s in (if again then None else Some APP_ERR_CRC, s)
         else if status \<noteq> 0
         then let (again, s) = retry_do h cb s in (if again then None else Some APP_ERR_BAD_PARAM, s)
         else (Some APP_ERR_NONE, s))"

definition set_chain_attempt :: "host \<Rightarrow> 'c jtag_cable \<Rightarrow> int \<Rightarrow> 'c chain \<Rightarrow> u32 option \<times> 'c chain" where
  "set_chain_attempt h cb chain s =
     (let s = s\<lparr>current_chain := -1\<rparr>;
          s = snd (tap_set_shift_dr cb s);
          s = s\<lparr>legacy_crc_w := 0xffffffff\<rparr>;
          s = legacy_write_stream cb ((word_of_int chain AND 0xf) OR push_bit DC_SIZE 1) (DC_SIZE + 1) False s;
          s = legacy_write_stream cb (legacy_crc_w s) DBG_CRC_SIZE False s;
          s = s\<lparr>legacy_crc_r := 0xffffffff\<rparr>;
          (r, s) = legacy_read_status cb s;
          (v, s) = legacy_verdict h cb r s
      in if v = Some APP_ERR_NONE
         then (v, (snd (tap_exit_to_idle cb (retry_ok s)))\<lparr>current_chain := chain\<rparr>)
         else (v, s))"

lemma legacy_verdict_some: "fst (legacy_verdict h cb r s) \<noteq> None"
  by (simp add: legacy_verdict_def retry_do_never Let_def split_beta)

lemma set_chain_attempt_some: "fst (set_chain_attempt h cb chain s) \<noteq> None"
  by (simp add: set_chain_attempt_def Let_def split_beta legacy_verdict_some del: not_None_eq)

function set_chain_loop :: "host \<Rightarrow> 'c jtag_cable \<Rightarrow> int \<Rightarrow> 'c chain act" where
  "set_chain_loop h cb chain s =
     (if current_chain s = chain then (APP_ERR_NONE, s)
      else case set_chain_attempt h cb chain s of
        (Some err, s) \<Rightarrow> (err, s)
      | (None, s) \<Rightarrow> set_chain_loop h cb chain s)"
  by pat_completeness auto
termination
proof (relation "{}", goal_cases)
  case (2 h cb chain s x y)
  then show ?case by (metis set_chain_attempt_some fst_conv)
qed simp

declare set_chain_loop.simps [simp del]

definition legacy_dbg_set_chain :: "host \<Rightarrow> 'c jtag_cable \<Rightarrow> int \<Rightarrow> 'c chain act" where
  "legacy_dbg_set_chain h cb chain s = set_chain_loop h cb chain (s\<lparr>desired_chain := chain\<rparr>)"

text \<open>The frame of the other transactions: selection of the chain (its result is not looked at),
  the writes with their CRC, the reads, the verdict.\<close>

definition legacy_command_attempt :: "host \<Rightarrow> 'c jtag_cable \<Rightarrow> u32 \<Rightarrow> u64 \<Rightarrow> int \<Rightarrow> 'c chain
    \<Rightarrow> u32 option \<times> 'c chain" where
  "legacy_command_attempt h cb type adr len s =
     (let s = snd (legacy_dbg_set_chain h cb (desired_chain s) s);
          s = snd (tap_set_shift_dr cb s);
          s = s\<lparr>legacy_crc_w := 0xffffffff\<rparr>;
          s = legacy_write_stream cb (DI_WRITE_CMD AND 0xf) (DC_SIZE + 1) False s;
          s = legacy_write_stream cb type 4 False s;
          s = legacy_write_stream cb (ucast adr) 32 False s;
          s = legacy_write_stream cb (word_of_int (len - 1)) 16 False s;
          s = legacy_write_stream cb (legacy_crc_w s) DBG_CRC_SIZE False s;
          s = s\<lparr>legacy_crc_r := 0xffffffff\<rparr>;
          (r, s) = legacy_read_status cb s;
          (v, s) = legacy_verdict h cb r s
      in if v = Some APP_ERR_NONE then (v, retry_ok (snd (tap_exit_to_idle cb s))) else (v, s))"

definition legacy_ctrl_attempt :: "host \<Rightarrow> 'c jtag_cable \<Rightarrow> u32 \<Rightarrow> u32 \<Rightarrow> 'c chain
    \<Rightarrow> u32 option \<times> 'c chain" where
  "legacy_ctrl_attempt h cb reset stall s =
     (let s = snd (legacy_dbg_set_chain h cb (desired_chain s) s);
          s = snd (tap_set_shift_dr cb s);
          s = s\<lparr>legacy_crc_w := 0xffffffff\<rparr>;
          s = legacy_write_stream cb (DI_WRITE_CTRL AND 0xf) (DC_SIZE + 1) False s;
          s = legacy_write_stream cb reset 1 False s;
          s = legacy_write_stream cb stall 1 False s;
          s = legacy_write_stream cb 0 32 False s;
          s = legacy_write_stream cb 0 18 False s;
          s = legacy_write_stream cb (legacy_crc_w s) DBG_CRC_SIZE False s;
          s = s\<lparr>legacy_crc_r := 0xffffffff\<rparr>;
          (r, s) = legacy_read_status cb s;
          (v, s) = legacy_verdict h cb r s
      in if v = Some APP_ERR_NONE then (v, retry_ok (snd (tap_exit_to_idle cb s))) else (v, s))"

definition legacy_ctrl_read_attempt :: "host \<Rightarrow> 'c jtag_cable \<Rightarrow> 'c chain
    \<Rightarrow> (u32 option \<times> u32 \<times> u32) \<times> 'c chain" where
  "legacy_ctrl_read_attempt h cb s =
     (let s = snd (legacy_dbg_set_chain h cb (desired_chain s) s);
          s = snd (tap_set_shift_dr cb s);
          s = s\<lparr>legacy_crc_w := 0xffffffff\<rparr>;
          s = legacy_write_stream cb DI_READ_CTRL (DC_SIZE + 1) False s;
          s = legacy_write_stream cb (legacy_crc_w s) DBG_CRC_SIZE False s;
          s = s\<lparr>legacy_crc_r := 0xffffffff\<rparr>;
          (reset, s) = legacy_read_stream cb 0 1 False s;
          (stall, s) = legacy_read_stream cb 0 1 False s;
          (_, s) = legacy_read_stream cb 0 32 False s;
          (_, s) = legacy_read_stream cb 0 18 False s;
          (r, s) = legacy_read_status cb s;
          (v, s) = legacy_verdict h cb r s
      in if v = Some APP_ERR_NONE then ((v, reset, stall), retry_ok (snd (tap_exit_to_idle cb s)))
         else ((v, reset, stall), s))"

lemma legacy_attempts_some:
  "fst (legacy_command_attempt h cb type adr len s) \<noteq> None"
  "fst (legacy_ctrl_attempt h cb reset stall s) \<noteq> None"
  "fst (fst (legacy_ctrl_read_attempt h cb s)) \<noteq> None"
  by (simp_all add: legacy_command_attempt_def legacy_ctrl_attempt_def legacy_ctrl_read_attempt_def
      Let_def split_beta legacy_verdict_some del: not_None_eq)

text \<open>\<open>assert(len > 0)\<close> stands behind the first writes; only the verdict of the process matters
  after it fails.\<close>

function legacy_dbg_command :: "host \<Rightarrow> 'c jtag_cable \<Rightarrow> u32 \<Rightarrow> u64 \<Rightarrow> int \<Rightarrow> 'c chain
    \<Rightarrow> u32 option \<times> 'c chain" where
  "legacy_dbg_command h cb type adr len s =
     (if len \<le> 0 then (None, s)
      else case legacy_command_attempt h cb type adr len s of
        (Some err, s) \<Rightarrow> (Some err, s)
      | (None, s) \<Rightarrow> legacy_dbg_command h cb type adr len s)"
  by pat_completeness auto
termination
proof (relation "{}", goal_cases)
  case (2 h cb type adr len s x y)
  then show ?case by (metis legacy_attempts_some(1) fst_conv)
qed simp

function legacy_dbg_ctrl :: "host \<Rightarrow> 'c jtag_cable \<Rightarrow> u32 \<Rightarrow> u32 \<Rightarrow> 'c chain act" where
  "legacy_dbg_ctrl h cb reset stall s =
     (case legacy_ctrl_attempt h cb reset stall s of
        (Some err, s) \<Rightarrow> (err, s)
      | (None, s) \<Rightarrow> legacy_dbg_ctrl h cb reset stall s)"
  by pat_completeness auto
termination
proof (relation "{}", goal_cases)
  case (2 h cb reset stall s x y)
  then show ?case by (metis legacy_attempts_some(2) fst_conv)
qed simp

function legacy_dbg_ctrl_read :: "host \<Rightarrow> 'c jtag_cable \<Rightarrow> 'c chain \<Rightarrow> (u32 \<times> u32 \<times> u32) \<times> 'c chain" where
  "legacy_dbg_ctrl_read h cb s =
     (case legacy_ctrl_read_attempt h cb s of
        ((Some err, reset, stall), s) \<Rightarrow> ((err, reset, stall), s)
      | ((None, reset, stall), s) \<Rightarrow> legacy_dbg_ctrl_read h cb s)"
  by pat_completeness auto
termination
proof (relation "{}", goal_cases)
  case (2 h cb s)
  then show ?case by (metis legacy_attempts_some(3) fst_conv)
qed simp

declare legacy_dbg_command.simps [simp del] legacy_dbg_ctrl.simps [simp del]
  legacy_dbg_ctrl_read.simps [simp del]

fun legacy_write_bytes :: "'c jtag_cable \<Rightarrow> u8 list \<Rightarrow> 'c chain \<Rightarrow> 'c chain" where
  "legacy_write_bytes cb [] s = s"
| "legacy_write_bytes cb (b # bs) s = legacy_write_bytes cb bs (legacy_write_stream cb (ucast b) 8 False s)"

fun legacy_read_bytes :: "'c jtag_cable \<Rightarrow> nat \<Rightarrow> 'c chain \<Rightarrow> u8 list \<times> 'c chain" where
  "legacy_read_bytes cb 0 s = ([], s)"
| "legacy_read_bytes cb (Suc n) s =
     (let (b, s) = legacy_read_stream cb 0 8 False s;
          (bs, s) = legacy_read_bytes cb n s
      in (ucast b # bs, s))"

text \<open>The data read, if it is a read, is the second result. There is no retry, and a status other
  than 0 is returned as the error code.\<close>

definition legacy_dbg_go :: "host \<Rightarrow> 'c jtag_cable \<Rightarrow> u8 list \<Rightarrow> u16 \<Rightarrow> bool \<Rightarrow> 'c chain
    \<Rightarrow> (u32 \<times> u8 list) \<times> 'c chain" where
  "legacy_dbg_go h cb data len read s =
     (let n = unat len;
          s = snd (legacy_dbg_set_chain h cb (desired_chain s) s);
          s = snd (tap_set_shift_dr cb s);
          s = s\<lparr>legacy_crc_w := 0xffffffff\<rparr>;
          s = legacy_write_stream cb DI_GO (DC_SIZE + 1) False s;
          s = (if read then s else legacy_write_bytes cb (mem_copy h data 0 n) s);
          s = legacy_write_stream cb (legacy_crc_w s) DBG_CRC_SIZE False s;
          s = s\<lparr>legacy_crc_r := 0xffffffff\<rparr>;
          (out, s) = (if read then legacy_read_bytes cb n s else ([], s));
          ((status, crc_generated, legacy_crc_read), s) = legacy_read_status cb s
      in if legacy_crc_read \<noteq> crc_generated then ((APP_ERR_CRC, out), s)
         else if status \<noteq> 0 then ((status, out), s)
         else ((APP_ERR_NONE, out), retry_ok (snd (tap_exit_to_idle cb s))))"

section \<open>Bit order\<close>

lemma bit_legacy_reverse_Suc:
  assumes "n < 32"
  shows "bit (legacy_reverse (Suc n) w out) j \<longleftrightarrow>
    j < 32 \<and> (j \<le> n \<and> bit w (n - j) \<or> n \<le> j \<and> bit out (j - n))"
  using assms
proof (induction n arbitrary: w out)
  case 0
  have "j < 32" if "bit out j" using that bit_imp_le_length [of out j] by simp
  then show ?case by (auto simp: bit_or_iff and_1_cases bit_1_iff)
next
  case (Suc n)
  show ?case
  proof (cases "j < 32")
    case True
    have r: "bit (legacy_reverse (Suc (Suc n)) w out) j \<longleftrightarrow>
        j \<le> n \<and> bit (drop_bit 1 w) (n - j) \<or> n \<le> j \<and> bit (push_bit 1 (out OR (w AND 1))) (j - n)"
    proof -
      have "legacy_reverse (Suc (Suc n)) w out =
          legacy_reverse (Suc n) (drop_bit 1 w) (push_bit 1 (out OR (w AND 1)))"
        by (subst legacy_reverse.simps(2)) (simp only: Let_def zero_less_Suc if_True numeral_One)
      with Suc.IH [of "drop_bit 1 w" "push_bit 1 (out OR (w AND 1))"] Suc.prems True show ?thesis
        by (simp only: Suc_lessD simp_thms)
    qed
    have a: "bit (drop_bit 1 w) (n - j) \<longleftrightarrow> bit w (Suc n - j)" if "j \<le> n"
      using that by (simp add: bit_drop_bit_eq Suc_diff_le)
    have b: "bit (push_bit 1 (out OR (w AND 1))) (j - n) \<longleftrightarrow>
        j - n \<noteq> 0 \<and> (bit out (j - n - 1) \<or> j - n = 1 \<and> bit w 0)"
      using True unfolding bit_push_bit_iff
      by (auto simp: bit_or_iff and_1_cases bit_1_iff split: if_splits)
    show ?thesis
      unfolding r b using True a
      by (cases "j \<le> n") (auto simp: le_Suc_eq Suc_diff_le simp del: legacy_reverse.simps)
  next
    case False
    then show ?thesis using bit_imp_le_length [of "legacy_reverse (Suc (Suc n)) w out" j] by auto
  qed
qed

lemma bit_legacy_reverse:
  "n \<le> 32 \<Longrightarrow> bit (legacy_reverse n w 0) j \<longleftrightarrow> j < n \<and> bit w (n - 1 - j)"
  by (cases n) (auto simp: bit_legacy_reverse_Suc simp del: legacy_reverse.simps(2))

text \<open>
  The legacy interface sends the bits of a word most significant bit first, and the
  reversal on the way in undoes the one on the way out.
\<close>

theorem legacy_msb_first:
  assumes "n \<le> 32"
  shows "stream_bits [legacy_reverse n w 0] n = rev (word_bits n w) \<and>
    legacy_reverse n (legacy_reverse n w 0) 0 = take_bit n w"
proof
  show "stream_bits [legacy_reverse n w 0] n = rev (word_bits n w)"
    using assms
    by (auto intro!: nth_equalityI simp: stream_bits_one word_bits_def rev_nth bit_legacy_reverse)
  show "legacy_reverse n (legacy_reverse n w 0) 0 = take_bit n w"
    using assms by (intro bit_word_eqI) (auto simp: bit_legacy_reverse bit_take_bit_iff)
qed

theorem legacy_msb_first_witness:
  "stream_bits [legacy_reverse 4 0xd 0] 4 = [True, True, False, True]"
  using legacy_msb_first [of 4 "0xd"] by (simp add: word_bits_def upt_rec)

section \<open>The CRC\<close>

text \<open>The masks of \<open>legacy_crc_calc\<close> have only 28 bits, which is enough for the polynomial, and
  the bits above 32 never come back.\<close>

lemma crc_step_bits: "crc_step c b = push_bit 1 c XOR (if bit b 0 \<noteq> bit c 31 then 0x04c11db7 else 0)"
proof -
  have top: "bit (drop_bit 31 (scast c :: u64)) 0 = bit c 31"
    unfolding bit_drop_bit_eq comp_def by (simp add: bit_signed_iff)
  have "ucast (push_bit 1 (scast c :: u64)) = (push_bit 1 c :: u32)"
    by (rule bit_word_eqI) (auto simp: bit_unsigned_iff bit_push_bit_iff bit_signed_iff simp del: push_bit_Suc)
  then show ?thesis
    by (auto simp: crc_step_def legacy_crc_calc_def Let_def top const_simps and_1_cases
        unsigned_xor_eq simp del: push_bit_Suc)
qed

text \<open>
  The CRC of the legacy interface is the CRC-32 register fed most significant bit first,
  in spite of its 28-bit masks; fed with its own 32 bits it becomes 0, so the receiver of data
  and CRC ends at 0.
\<close>

theorem legacy_crc_residue:
  "crc_step c b = push_bit 1 c XOR (if bit b 0 \<noteq> bit c 31 then 0x04c11db7 else 0) \<and>
   crc_msb_first 32 (crc_msb_first n w c) (crc_msb_first n w c) = 0"
proof
  show "crc_step c b = push_bit 1 c XOR (if bit b 0 \<noteq> bit c 31 then 0x04c11db7 else 0)"
    by (rule crc_step_bits)
  have "fold (\<lambda>i crc. crc_step crc (drop_bit i v AND 1)) (rev [m..<32]) v = push_bit (32 - m) v"
    if "m \<le> 32" for m and v :: u32
    using that
  proof (induction "32 - m" arbitrary: m)
    case (Suc k)
    then have m: "m < 32" "k = 32 - Suc m" by simp_all
    have "[m..<32] = m # [Suc m..<32]" using m by (simp add: upt_conv_Cons)
    moreover have "bit (push_bit (32 - Suc m) v) 31 = bit v m"
      using m by (simp add: bit_push_bit_iff)
    moreover have "push_bit 1 (push_bit (32 - Suc m) v) = push_bit (32 - m) v"
    proof -
      have "32 - m = 1 + (32 - Suc m)" using m by simp
      then show ?thesis by (simp only: push_bit_push_bit)
    qed
    moreover have "bit (drop_bit m v AND 1) 0 = bit v m" by (simp add: and_1_cases bit_drop_bit_eq)
    ultimately show ?case
      using Suc.hyps(1) [OF m(2)] m by (simp add: crc_step_bits del: push_bit_push_bit)
  qed simp
  from this [of 0] show "crc_msb_first 32 (crc_msb_first n w c) (crc_msb_first n w c) = 0"
    unfolding crc_msb_first_def by (simp add: bit_eq_iff bit_push_bit_iff del: upt_Suc)
qed

section \<open>Selecting a chain\<close>

lemma legacy_write_globals [simp]:
  "conf (legacy_write_stream cb w n l s) = conf s"
  "current_chain (legacy_write_stream cb w n l s) = current_chain s"
  "legacy_crc_w (legacy_write_stream cb w n l s) = crc_msb_first n w (legacy_crc_w s)"
  using same_globals_fields [OF same_globals_jtag(3) [of s cb "[legacy_reverse n w 0]" "int n" l]]
  by (simp_all add: legacy_write_stream_def Let_def)

lemma legacy_read_globals [simp]:
  "conf (snd (legacy_read_stream cb w n l s)) = conf s"
  "current_chain (snd (legacy_read_stream cb w n l s)) = current_chain s"
  "legacy_crc_r (snd (legacy_read_stream cb w n l s)) =
     crc_msb_first n (fst (legacy_read_stream cb w n l s)) (legacy_crc_r s)"
  using same_globals_fields [OF same_globals_read_stream [of s cb "[w]" "int n" False l]]
  by (simp_all add: legacy_read_stream_def Let_def split_beta)

context reliable_tap
begin

lemma legacy_write_view:
  assumes "view (dev (cable s)) = \<lparr>tap = Shift_DR, shifted = sh, updates = u\<rparr>" and "0 < n" "n \<le> 32"
  shows "view (dev (cable (legacy_write_stream cb w n False s))) =
      \<lparr>tap = Shift_DR, shifted = sh @ rev (word_bits n w), updates = u\<rparr>"
    and "dev (cable (legacy_write_stream cb w n False s)) =
      fold dstep (map (\<lambda>b. Pin False b False) (rev (word_bits n w))) (dev (cable s))"
proof -
  have n: "n \<le> 32 * length [legacy_reverse n w 0]" using assms(3) by simp
  have bits: "stream_bits [legacy_reverse n w 0] n = rev (word_bits n w)"
    using assms(3)
    by (auto intro!: nth_equalityI simp: stream_bits_one word_bits_def rev_nth bit_legacy_reverse)
  show "view (dev (cable (legacy_write_stream cb w n False s))) =
      \<lparr>tap = Shift_DR, shifted = sh @ rev (word_bits n w), updates = u\<rparr>"
    using write_stream_view_stay [OF assms(1,2) n] by (simp add: legacy_write_stream_def Let_def bits)
  have "stream_pins [legacy_reverse n w 0] n False = map (\<lambda>b. Pin False b False) (rev (word_bits n w))"
    unfolding bits [symmetric] by (simp add: stream_pins_def stream_bits_def)
  then show "dev (cable (legacy_write_stream cb w n False s)) =
      fold dstep (map (\<lambda>b. Pin False b False) (rev (word_bits n w))) (dev (cable s))"
    using dev_write_stream [OF assms(2) n]
    by (simp add: legacy_write_stream_def Let_def jtag_write_stream_def)
qed

lemma legacy_read_view:
  assumes "view (dev (cable s)) = \<lparr>tap = Shift_DR, shifted = sh, updates = u\<rparr>" and n: "0 < n" "n \<le> 32"
    and pq: "global_DR_prefix_bits (conf s) = int k" "global_DR_postfix_bits (conf s) = int q"
    and bits: "tdo_run dstep dtdo (replicate n (Pin False False False)) (dev (cable s)) = rev (word_bits n d)"
    and "take_bit n d = d"
  shows "fst (legacy_read_stream cb 0 n l s) = d"
    and "view (dev (cable (snd (legacy_read_stream cb 0 n l s)))) =
      \<lparr>tap = if l then Exit1_DR else Shift_DR,
       shifted = sh @ replicate (n + (if l then k else 0)) False, updates = u\<rparr>"
    and "\<not> l \<Longrightarrow> dev (cable (snd (legacy_read_stream cb 0 n l s))) =
      fold dstep (replicate n (Pin False False False)) (dev (cable s))"
proof -
  have m: "n \<le> 32 * length [0 :: u32]" using n(2) by simp
  have z: "stream_pins [0] n False = replicate n (Pin False False False)" "stream_bits [0] n = replicate n False"
  proof -
    have "\<not> stream_bit [0] j" for j by (simp add: stream_bit_def rd_def)
    then show "stream_pins [0] n False = replicate n (Pin False False False)"
      "stream_bits [0] n = replicate n False"
      by (auto simp: stream_pins_def stream_bits_def intro!: nth_equalityI)
  qed
  have "snd (fst (jtag_read_write_stream cb [0] (int n) False l s)) = bits_to_words (rev (word_bits n d))"
    using read_write_stream_data [OF n(1) m pq(2), of False l] bits by (simp add: z)
  moreover have "rd (bits_to_words bs) 0 = bits_word bs" if "length bs = n" for bs
  proof -
    have "(n + 31) div 32 = 1" using n by linarith
    then show ?thesis using that n by (simp add: rd_def bits_to_words_def)
  qed
  moreover have "legacy_reverse n (bits_word (rev (word_bits n d))) 0 = take_bit n d"
    using n(2) by (intro bit_word_eqI)
      (auto simp: bit_legacy_reverse bit_take_bit_iff bit_bits_word rev_nth word_bits_def)
  ultimately show "fst (legacy_read_stream cb 0 n l s) = d"
    using assms(7) by (simp add: legacy_read_stream_def Let_def split_beta)
  show "view (dev (cable (snd (legacy_read_stream cb 0 n l s)))) =
      \<lparr>tap = if l then Exit1_DR else Shift_DR,
       shifted = sh @ replicate (n + (if l then k else 0)) False, updates = u\<rparr>"
    using read_write_stream_view [OF assms(1) n(1) m pq(2,1), of False l]
    by (simp add: legacy_read_stream_def Let_def split_beta z replicate_add)
  show "dev (cable (snd (legacy_read_stream cb 0 n l s))) =
      fold dstep (replicate n (Pin False False False)) (dev (cable s))" if "\<not> l"
    using that dev_read_write_stream(1) [OF n(1) m, of False] pq(2)
    by (simp add: legacy_read_stream_def jtag_read_write_stream_def Let_def split_beta z del: fold_replicate)
qed

end

text \<open>The command word of a chain selection, and what the code sends for it.\<close>

definition set_chain_word :: "int \<Rightarrow> u32" where
  "set_chain_word chain = (word_of_int chain AND 0xf) OR push_bit DC_SIZE 1"

definition set_chain_bits :: "int \<Rightarrow> bool list" where
  "set_chain_bits chain = rev (word_bits 5 (set_chain_word chain))
     @ rev (word_bits 32 (crc_msb_first 5 (set_chain_word chain) 0xffffffff))"

context reliable_tap
begin

lemma shift_dr_dev:
  "dev (cable (snd (tap_set_shift_dr cb s))) =
    fold dstep [Pin True False False, Pin False False False, Pin False False False] (dev (cable s))"
  by (simp add: tap_set_shift_dr_def snd_err_seq dev_write_bit del: err_seq.simps)

lemma set_chain_send:
  fixes chain :: int
  assumes "at_idle (view (dev (cable s))) u"
  defines "t \<equiv> (snd (tap_set_shift_dr cb s))\<lparr>legacy_crc_w := 0xffffffff\<rparr>"
  defines "t1 \<equiv> legacy_write_stream cb (set_chain_word chain) 5 False t"
  defines "t2 \<equiv> legacy_write_stream cb (legacy_crc_w t1) 32 False t1"
  shows "view (dev (cable t2)) = \<lparr>tap = Shift_DR, shifted = set_chain_bits chain, updates = u\<rparr>"
    and "dev (cable t2) = fold dstep (map (\<lambda>b. Pin False b False) (set_chain_bits chain))
      (fold dstep [Pin True False False, Pin False False False, Pin False False False] (dev (cable s)))"
    and "conf t2 = conf s" and "current_chain t2 = current_chain s"
proof -
  obtain sh where "view (dev (cable s)) = \<lparr>tap = Run_Test_Idle, shifted = sh, updates = u\<rparr>"
    using at_idleD [OF assms(1)] by blast
  from shift_dr_view [OF this]
  have v: "view (dev (cable t)) = \<lparr>tap = Shift_DR, shifted = [], updates = u\<rparr>" by (simp add: t_def)
  have crc: "legacy_crc_w t1 = crc_msb_first 5 (set_chain_word chain) 0xffffffff"
    by (simp add: t1_def t_def)
  have v1: "view (dev (cable t1)) = \<lparr>tap = Shift_DR, shifted = rev (word_bits 5 (set_chain_word chain)),
      updates = u\<rparr>" and d1: "dev (cable t1) = fold dstep
      (map (\<lambda>b. Pin False b False) (rev (word_bits 5 (set_chain_word chain)))) (dev (cable t))"
    using legacy_write_view [OF v, of 5 "set_chain_word chain"] by (simp_all add: t1_def)
  show "view (dev (cable t2)) = \<lparr>tap = Shift_DR, shifted = set_chain_bits chain, updates = u\<rparr>"
    using legacy_write_view(1) [OF v1, of 32 "legacy_crc_w t1"]
    by (simp add: t2_def crc set_chain_bits_def)
  show "dev (cable t2) = fold dstep (map (\<lambda>b. Pin False b False) (set_chain_bits chain))
      (fold dstep [Pin True False False, Pin False False False, Pin False False False] (dev (cable s)))"
    using legacy_write_view(2) [OF v1, of 32 "legacy_crc_w t1"] shift_dr_dev [of s]
    by (simp add: t2_def crc set_chain_bits_def d1 t_def)
  show "conf t2 = conf s" "current_chain t2 = current_chain s"
    using same_globals_fields(1,2) [OF same_globals_jtag(4) [of s cb]] by (simp_all add: t2_def t1_def t_def)
qed

lemma read_status_view:
  assumes v: "view (dev (cable s)) = \<lparr>tap = Shift_DR, shifted = sh, updates = u\<rparr>"
    and pq: "global_DR_prefix_bits (conf s) = int k" "global_DR_postfix_bits (conf s) = int q"
    and bits: "tdo_run dstep dtdo (replicate 36 (Pin False False False)) (dev (cable s)) =
        rev (word_bits 4 st) @ rev (word_bits 32 rc)" and "st < 16"
  shows "fst (legacy_read_status cb s) = (st, crc_msb_first 4 st (legacy_crc_r s), rc)"
    and "view (dev (cable (snd (legacy_read_status cb s)))) =
      \<lparr>tap = Exit1_DR, shifted = sh @ replicate (36 + k) False, updates = u\<rparr>"
    and "conf (snd (legacy_read_status cb s)) = conf s"
    and "current_chain (snd (legacy_read_status cb s)) = current_chain s"
proof -
  let ?z = "\<lambda>n. replicate n (Pin False False False)"
  have "tdo_run dstep dtdo (?z (4 + 32)) (dev (cable s)) = rev (word_bits 4 st) @ rev (word_bits 32 rc)"
    using bits by simp
  then have b1: "tdo_run dstep dtdo (?z 4) (dev (cable s)) = rev (word_bits 4 st)"
    and b2: "tdo_run dstep dtdo (?z 32) (fold dstep (?z 4) (dev (cable s))) = rev (word_bits 32 rc)"
    unfolding replicate_add tdo_run_append
    by (subst (asm) append_eq_append_conv; simp only: length_tdo_run length_rev length_word_bits length_replicate; simp)+
  have "\<not> bit st j" if "4 \<le> j" for j
    using bit_word_above [of st 4 j] assms(5) that by (simp add: word_less_alt)
  then have t4: "take_bit 4 st = st"
    by (intro bit_word_eqI) (force simp: bit_take_bit_iff simp flip: not_le)
  note r1 = legacy_read_view [OF v, of 4, OF _ _ pq b1 t4, of False]
  let ?s1 = "snd (legacy_read_stream cb 0 4 False s)"
  have v1: "view (dev (cable ?s1)) = \<lparr>tap = Shift_DR, shifted = sh @ replicate 4 False, updates = u\<rparr>"
    and d1: "dev (cable ?s1) = fold dstep (?z 4) (dev (cable s))" and f1: "fst (legacy_read_stream cb 0 4 False s) = st"
    using r1 by simp_all
  have pq1: "global_DR_prefix_bits (conf ?s1) = int k" "global_DR_postfix_bits (conf ?s1) = int q"
    using pq by simp_all
  have b3: "tdo_run dstep dtdo (?z 32) (dev (cable ?s1)) = rev (word_bits 32 rc)" unfolding d1 by (rule b2)
  have "take_bit 32 rc = rc" by (rule bit_word_eqI) (simp add: bit_take_bit_iff)
  note r2 = legacy_read_view(1,2) [OF v1, of 32, OF _ _ pq1 b3 this, of True]
  show "fst (legacy_read_status cb s) = (st, crc_msb_first 4 st (legacy_crc_r s), rc)"
    "view (dev (cable (snd (legacy_read_status cb s)))) =
      \<lparr>tap = Exit1_DR, shifted = sh @ replicate (36 + k) False, updates = u\<rparr>"
    "conf (snd (legacy_read_status cb s)) = conf s"
    "current_chain (snd (legacy_read_status cb s)) = current_chain s"
    using r2 f1
      replicate_add [of 4 "32 + k" False]
    by (simp_all add: legacy_read_status_def Let_def split_beta const_simps)
qed

end

text \<open>
  C28: Selecting a chain of the legacy debug unit sends the chain number with its select bit
  and the CRC of both, most significant bit first. If the unit answers with the status 0 and
  the CRC of the status, the call succeeds, the chain is current and the TAP is back in
  Run-Test/Idle. A wrong CRC or a status other than 0 is reported as such, no chain is
  current, and the TAP is left in Exit1-DR.
\<close>

theorem legacy_set_chain_verdict:
  assumes "reliable_tap cb dev dstep dtdo view" and "at_idle (view (dev (cable s))) u"
    and "current_chain s \<noteq> chain"
    and "global_DR_prefix_bits (conf s) = int k" and "global_DR_postfix_bits (conf s) = int q"
    and "tdo_run dstep dtdo (replicate 36 (Pin False False False))
      (fold dstep (map (\<lambda>b. Pin False b False) (set_chain_bits chain))
        (fold dstep [Pin True False False, Pin False False False, Pin False False False] (dev (cable s)))) =
      rev (word_bits 4 st) @ rev (word_bits 32 rc)" and "st < 16"
    and "good \<longleftrightarrow> rc = crc_msb_first 4 st 0xffffffff \<and> st = 0"
    and "s' = snd (legacy_dbg_set_chain h cb chain s)"
  shows "fst (legacy_dbg_set_chain h cb chain s) =
      (if good then APP_ERR_NONE else if rc = crc_msb_first 4 st 0xffffffff then APP_ERR_BAD_PARAM
       else APP_ERR_CRC) \<and>
    current_chain s' = (if good then chain else -1) \<and>
    (if good then at_idle (view (dev (cable s'))) (u @ [DR_Update (set_chain_bits chain @ replicate (36 + k) False)])
     else tap (view (dev (cable s'))) = Exit1_DR)"
proof -
  note rt = assms(1)
  let ?s0 = "s\<lparr>desired_chain := chain, current_chain := -1\<rparr>"
  let ?t = "(snd (tap_set_shift_dr cb ?s0))\<lparr>legacy_crc_w := 0xffffffff\<rparr>"
  let ?t1 = "legacy_write_stream cb (set_chain_word chain) 5 False ?t"
  let ?t2 = "(legacy_write_stream cb (legacy_crc_w ?t1) 32 False ?t1)\<lparr>legacy_crc_r := 0xffffffff\<rparr>"
  have idle0: "at_idle (view (dev (cable ?s0))) u" using assms(2) by simp
  note send = reliable_tap.set_chain_send [OF rt idle0, of chain]
  have v: "view (dev (cable ?t2)) = \<lparr>tap = Shift_DR, shifted = set_chain_bits chain, updates = u\<rparr>"
    using send(1) by simp
  have pq: "global_DR_prefix_bits (conf ?t2) = int k" "global_DR_postfix_bits (conf ?t2) = int q"
    using send(3) assms(4,5) by simp_all
  have "tdo_run dstep dtdo (replicate 36 (Pin False False False)) (dev (cable ?t2)) =
      rev (word_bits 4 st) @ rev (word_bits 32 rc)"
    using assms(6) send(2) by simp
  note stat = reliable_tap.read_status_view [OF rt v pq this assms(7)]
  let ?r = "snd (legacy_read_status cb ?t2)"
  have cur: "current_chain ?r = -1" using stat(4) send(4) by simp
  have att: "set_chain_attempt h cb chain (s\<lparr>desired_chain := chain\<rparr>) =
      (if good then (Some APP_ERR_NONE, (snd (tap_exit_to_idle cb (retry_ok ?r)))\<lparr>current_chain := chain\<rparr>)
       else (Some (if rc = crc_msb_first 4 st 0xffffffff then APP_ERR_BAD_PARAM else APP_ERR_CRC), ?r))"
    using stat(1) assms(8)
    by (auto simp: set_chain_attempt_def Let_def split_beta legacy_verdict_def retry_do_never
        set_chain_word_def DC_SIZE_def DBG_CRC_SIZE_def APP_ERR_CRC_def APP_ERR_BAD_PARAM_def APP_ERR_NONE_def)
  then have "legacy_dbg_set_chain h cb chain s =
      (if good then (APP_ERR_NONE, (snd (tap_exit_to_idle cb (retry_ok ?r)))\<lparr>current_chain := chain\<rparr>)
       else (if rc = crc_msb_first 4 st 0xffffffff then APP_ERR_BAD_PARAM else APP_ERR_CRC, ?r))"
    using assms(3) by (simp add: legacy_dbg_set_chain_def set_chain_loop.simps)
  moreover have "tap_device cb dev dstep dtdo view" using rt by (simp add: reliable_tap_def)
  from tap_device.exit_to_idle_view [OF this, of "retry_ok ?r"] stat(2)
  have "at_idle (view (dev (cable (snd (tap_exit_to_idle cb (retry_ok ?r))))))
      (u @ [DR_Update (set_chain_bits chain @ replicate (36 + k) False)])" by simp
  ultimately show ?thesis
    using stat(2) cur assms(9) by simp
qed

definition example_status :: "bool list" where
  "example_status = replicate 37 False @ rev (word_bits 4 0) @ rev (word_bits 32 (crc_msb_first 4 0 0xffffffff))"

theorem legacy_set_chain_verdict_witness:
  "fst (legacy_dbg_set_chain x86_64 (answering_cable [] example_status) DC_CPU0 example_chain) = APP_ERR_NONE"
proof -
  let ?d = "fold tap_step (map (\<lambda>b. Pin False b False) (set_chain_bits DC_CPU0))
      (fold tap_step [Pin True False False, pin0, pin0] (board_dev (cable example_chain)))"
  have d: "?d = \<lparr>tap = Shift_DR, shifted = set_chain_bits DC_CPU0, updates = []\<rparr>"
    using fold_shift_low(1) [where f = "\<lambda>b. b" and js = "set_chain_bits DC_CPU0"]
    by (simp add: example_idle tap_step_cases)
  have "length (set_chain_bits DC_CPU0) = 37" by (simp add: set_chain_bits_def)
  with answer_run [of "set_chain_bits DC_CPU0" 36 example_status "[]"]
  have a: "tdo_run tap_step (answer_tdo [] example_status) (replicate 36 pin0) ?d =
      rev (word_bits 4 0) @ rev (word_bits 32 (crc_msb_first 4 0 0xffffffff))"
    unfolding d by (simp add: example_status_def)
  show ?thesis
    using legacy_set_chain_verdict [OF answering_tap _ _ _ _ a _ refl refl, of "[]" 1 1]
    by (simp add: example_idle example_chain_def example_conf_def init_conf_def init_chain_def
        idle_board_def const_simps)
qed

end
