(* ===== verification/Dbg_Api.thy ===== *)
theory Dbg_Api
  imports Adv_Burst Legacy_Dbg
begin

text \<open>
  The debug API (\<^verbatim>\<open>dbg_api.c\<close>) that the GDB server, the self test and the serial port
  use: access to the Wishbone bus, the CPU registers, the control registers and the serial
  port, for both kinds of debug hardware. The mutex that serialises the callers is part of
  the state. Buffers are byte lists; a function that fills a buffer is given the old contents
  and returns the new ones. The result None means that the call does not come back: the process
  has ended, the mutex is waited for without end, or something undefined has happened.
\<close>

datatype debug_hardware = DBG_HW_ADVANCED | DBG_HW_LEGACY

text \<open>\<open>Stuck\<close>: the thread waits for ever for a mutex that it holds itself, or it has given back one
  that it does not hold, which is undefined.\<close>

datatype mutex = Free | Held | Stuck

record 'c dbg =
  dbg_chain :: "'c chain"
  dbg_access_mutex :: mutex

section \<open>The mutex and the cable\<close>

definition dbg_lock :: "'c dbg \<Rightarrow> 'c dbg" where
  "dbg_lock s = s\<lparr>dbg_access_mutex := (if dbg_access_mutex s = Free then Held else Stuck)\<rparr>"

definition dbg_unlock :: "'c dbg \<Rightarrow> 'c dbg" where
  "dbg_unlock s = s\<lparr>dbg_access_mutex := (if dbg_access_mutex s = Held then Free else Stuck)\<rparr>"

definition on_chain :: "('c chain \<Rightarrow> 'r \<times> 'c chain) \<Rightarrow> 'c dbg \<Rightarrow> 'r \<times> 'c dbg" where
  "on_chain f s = (let (r, c) = f (dbg_chain s) in (r, s\<lparr>dbg_chain := c\<rparr>))"

definition dbg_flush :: "'c jtag_cable \<Rightarrow> 'c dbg \<Rightarrow> 'c dbg" where
  "dbg_flush cb s = snd (on_chain (on_cable (cable_flush cb)) s)"

text \<open>\<open>locked\<close> is the call of \<open>pthread_mutex_lock\<close>: the rest of the function runs when it comes
  back, and otherwise the call of the API has the result \<open>r0\<close>, with None for its error code.
  \<open>returned_from\<close> goes on with the error code and the data of a call that has come back; where
  the process has ended in it the rest does not run.\<close>

definition locked :: "'r \<Rightarrow> ('c dbg \<Rightarrow> 'r \<times> 'c dbg) \<Rightarrow> 'c dbg \<Rightarrow> 'r \<times> 'c dbg" where
  "locked r0 rest s = (let s = dbg_lock s in if dbg_access_mutex s = Stuck then (r0, s) else rest s)"

definition returned_from :: "'r \<Rightarrow> (u32 option \<times> 'd) \<times> 'c dbg \<Rightarrow> (u32 \<Rightarrow> 'd \<Rightarrow> 'c dbg \<Rightarrow> 'r \<times> 'c dbg)
    \<Rightarrow> 'r \<times> 'c dbg" where
  "returned_from r0 call rest =
     (case call of ((None, _), s) \<Rightarrow> (r0, s) | ((Some err, d), s) \<Rightarrow> rest err d s)"

text \<open>The transfers inside: a buffer keeps the bytes that are not written.\<close>

definition fill :: "u8 list option \<Rightarrow> u8 list \<Rightarrow> u8 list" where
  "fill new old = (case new of None \<Rightarrow> old | Some bs \<Rightarrow> bs @ drop (length bs) old)"

definition adv_read :: "host \<Rightarrow> 'c jtag_cable \<Rightarrow> int \<Rightarrow> int \<Rightarrow> u32 \<Rightarrow> u8 list \<Rightarrow> 'c chain
    \<Rightarrow> (u32 option \<times> u8 list) \<times> 'c chain" where
  "adv_read h cb word_size len adr data s =
     (let ((err, bs), s) = adbg_wb_burst_read h cb word_size len (ucast adr) s
      in ((err, fill bs data), s))"

definition adv_write :: "host \<Rightarrow> 'c jtag_cable \<Rightarrow> int \<Rightarrow> int \<Rightarrow> u32 \<Rightarrow> u8 list \<Rightarrow> 'c chain
    \<Rightarrow> (u32 option \<times> unit) \<times> 'c chain" where
  "adv_write h cb word_size len adr data s =
     (let (err, s) = adbg_wb_burst_write h cb data word_size len (ucast adr) s in ((err, ()), s))"

definition legacy_access :: "host \<Rightarrow> 'c jtag_cable \<Rightarrow> int \<Rightarrow> u32 \<Rightarrow> u32 \<Rightarrow> int \<Rightarrow> bool \<Rightarrow> u8 list \<Rightarrow> 'c chain
    \<Rightarrow> (u32 option \<times> u8 list) \<times> 'c chain" where
  "legacy_access h cb chain cmd adr bytelen read data s =
     (let (err, s) = legacy_dbg_set_chain h cb chain s
      in if err \<noteq> APP_ERR_NONE then ((Some err, data), s)
         else case legacy_dbg_command h cb cmd (ucast adr) bytelen s of
           (None, s) \<Rightarrow> ((None, data), s)
         | (Some err, s) \<Rightarrow>
             if err \<noteq> APP_ERR_NONE then ((Some err, data), s)
             else let ((err, out), s) = legacy_dbg_go h cb data (word_of_int bytelen) read s
                  in ((Some err, out @ drop (length out) data), s))"

text \<open>Byte order: \<open>ntohl\<close> and \<open>ntohs\<close> of a little-endian host, on a buffer of \<open>n\<close> elements.\<close>

fun swap_words :: "nat \<Rightarrow> u8 list \<Rightarrow> u8 list" where
  "swap_words (Suc n) (a # b # c # d # bs) = d # c # b # a # swap_words n bs"
| "swap_words n bs = bs"

fun swap_halves :: "nat \<Rightarrow> u8 list \<Rightarrow> u8 list" where
  "swap_halves (Suc n) (a # b # bs) = b # a # swap_halves n bs"
| "swap_halves n bs = bs"

definition bytes_word :: "u8 list \<Rightarrow> u32" where
  "bytes_word bs = rd (bytes_to_words (take 4 bs)) 0"

definition half_to_bytes :: "u16 \<Rightarrow> u8 list" where
  "half_to_bytes w = [ucast w, ucast (drop_bit 8 w)]"

section \<open>Wishbone access\<close>

definition dbg_wb_read32 :: "host \<Rightarrow> debug_hardware \<Rightarrow> 'c jtag_cable \<Rightarrow> u32 \<Rightarrow> u32 \<Rightarrow> 'c dbg
    \<Rightarrow> (u32 option \<times> u32) \<times> 'c dbg" where
  "dbg_wb_read32 h hw cb adr data s =
     locked (None, data) (\<lambda>s. case hw of
        DBG_HW_ADVANCED \<Rightarrow>
          let (err, s) = on_chain (adbg_select_module cb DC_WISHBONE) s
          in if err \<noteq> 0 then ((Some err, data), dbg_unlock (dbg_flush cb s))
             else returned_from (None, data) (on_chain (adv_read h cb 4 1 adr (word_to_bytes data)) s)
               (\<lambda>err buf s. ((Some err, bytes_word buf), dbg_unlock (dbg_flush cb s)))
      | DBG_HW_LEGACY \<Rightarrow>
          returned_from (None, data) (on_chain (legacy_access h cb DC_WISHBONE 0x6 adr 4 True (word_to_bytes data)) s)
            (\<lambda>err buf s. ((Some err, bytes_word (swap_words 1 buf)), dbg_unlock (dbg_flush cb s)))) s"

definition dbg_wb_write32 :: "host \<Rightarrow> debug_hardware \<Rightarrow> 'c jtag_cable \<Rightarrow> u32 \<Rightarrow> u32 \<Rightarrow> 'c dbg
    \<Rightarrow> u32 option \<times> 'c dbg" where
  "dbg_wb_write32 h hw cb adr data s =
     locked None (\<lambda>s. case hw of
        DBG_HW_ADVANCED \<Rightarrow>
          let (err, s) = on_chain (adbg_select_module cb DC_WISHBONE) s
          in if err \<noteq> 0 then (Some err, dbg_unlock (dbg_flush cb s))
             else returned_from None (on_chain (adv_write h cb 4 1 adr (word_to_bytes data)) s)
               (\<lambda>err _ s. (Some err, dbg_unlock (dbg_flush cb s)))
      | DBG_HW_LEGACY \<Rightarrow>
          returned_from None (on_chain (legacy_access h cb DC_WISHBONE 0x2 adr 4 False (swap_words 1 (word_to_bytes data))) s)
            (\<lambda>err _ s. (Some err, dbg_unlock (dbg_flush cb s)))) s"

definition dbg_wb_write16 :: "host \<Rightarrow> debug_hardware \<Rightarrow> 'c jtag_cable \<Rightarrow> u32 \<Rightarrow> u16 \<Rightarrow> 'c dbg
    \<Rightarrow> u32 option \<times> 'c dbg" where
  "dbg_wb_write16 h hw cb adr data s =
     locked None (\<lambda>s. case hw of
        DBG_HW_ADVANCED \<Rightarrow>
          let (err, s) = on_chain (adbg_select_module cb DC_WISHBONE) s
          in if err \<noteq> 0 then (Some err, dbg_unlock (dbg_flush cb s))
             else returned_from None (on_chain (adv_write h cb 2 1 adr (half_to_bytes data)) s)
               (\<lambda>err _ s. (Some err, dbg_unlock (dbg_flush cb s)))
      | DBG_HW_LEGACY \<Rightarrow>
          returned_from None (on_chain (legacy_access h cb DC_WISHBONE 0x1 adr 2 False (swap_halves 1 (half_to_bytes data))) s)
            (\<lambda>err _ s. (Some err, dbg_unlock (dbg_flush cb s)))) s"

definition dbg_wb_write8 :: "host \<Rightarrow> debug_hardware \<Rightarrow> 'c jtag_cable \<Rightarrow> u32 \<Rightarrow> u8 \<Rightarrow> 'c dbg
    \<Rightarrow> u32 option \<times> 'c dbg" where
  "dbg_wb_write8 h hw cb adr data s =
     locked None (\<lambda>s. case hw of
        DBG_HW_ADVANCED \<Rightarrow>
          let (err, s) = on_chain (adbg_select_module cb DC_WISHBONE) s
          in if err \<noteq> 0 then (Some err, dbg_unlock (dbg_flush cb s))
             else returned_from None (on_chain (adv_write h cb 1 1 adr [data]) s)
               (\<lambda>err _ s. (Some err, dbg_unlock (dbg_flush cb s)))
      | DBG_HW_LEGACY \<Rightarrow>
          returned_from None (on_chain (legacy_access h cb DC_WISHBONE 0x0 adr 1 False [data]) s)
            (\<lambda>err _ s. (Some err, dbg_unlock (dbg_flush cb s)))) s"

text \<open>Block accesses; a length of 0 is answered at once. The legacy code swaps the bytes of a
  block only after a read that worked, and in the caller's buffer before a write, so a write
  returns the buffer too.\<close>

definition dbg_wb_read_block32 :: "host \<Rightarrow> debug_hardware \<Rightarrow> 'c jtag_cable \<Rightarrow> u32 \<Rightarrow> u8 list \<Rightarrow> int \<Rightarrow> 'c dbg
    \<Rightarrow> (u32 option \<times> u8 list) \<times> 'c dbg" where
  "dbg_wb_read_block32 h hw cb adr data len s =
     (if len = 0 then ((Some APP_ERR_NONE, data), s)
      else locked (None, data) (\<lambda>s. case hw of
        DBG_HW_ADVANCED \<Rightarrow>
          let (err, s) = on_chain (adbg_select_module cb DC_WISHBONE) s
          in if err \<noteq> 0 then ((Some err, data), dbg_unlock (dbg_flush cb s))
             else returned_from (None, data) (on_chain (adv_read h cb 4 len adr data) s)
               (\<lambda>err buf s. ((Some err, buf), dbg_unlock (dbg_flush cb s)))
      | DBG_HW_LEGACY \<Rightarrow>
          returned_from (None, data) (on_chain (legacy_access h cb DC_WISHBONE 0x6 adr (len * 4) True data) s)
            (\<lambda>err buf s. ((Some err, if err = APP_ERR_NONE then swap_words (nat len) buf else buf), dbg_unlock (dbg_flush cb s)))) s)"

definition dbg_wb_read_block16 :: "host \<Rightarrow> debug_hardware \<Rightarrow> 'c jtag_cable \<Rightarrow> u32 \<Rightarrow> u8 list \<Rightarrow> int \<Rightarrow> 'c dbg
    \<Rightarrow> (u32 option \<times> u8 list) \<times> 'c dbg" where
  "dbg_wb_read_block16 h hw cb adr data len s =
     (if len = 0 then ((Some APP_ERR_NONE, data), s)
      else locked (None, data) (\<lambda>s. case hw of
        DBG_HW_ADVANCED \<Rightarrow>
          let (err, s) = on_chain (adbg_select_module cb DC_WISHBONE) s
          in if err \<noteq> 0 then ((Some err, data), dbg_unlock (dbg_flush cb s))
             else returned_from (None, data) (on_chain (adv_read h cb 2 len adr data) s)
               (\<lambda>err buf s. ((Some err, buf), dbg_unlock (dbg_flush cb s)))
      | DBG_HW_LEGACY \<Rightarrow>
          returned_from (None, data) (on_chain (legacy_access h cb DC_WISHBONE 0x5 adr (len * 2) True data) s)
            (\<lambda>err buf s. ((Some err, if err = APP_ERR_NONE then swap_halves (nat len) buf else buf), dbg_unlock (dbg_flush cb s)))) s)"

definition dbg_wb_read_block8 :: "host \<Rightarrow> debug_hardware \<Rightarrow> 'c jtag_cable \<Rightarrow> u32 \<Rightarrow> u8 list \<Rightarrow> int \<Rightarrow> 'c dbg
    \<Rightarrow> (u32 option \<times> u8 list) \<times> 'c dbg" where
  "dbg_wb_read_block8 h hw cb adr data len s =
     (if len = 0 then ((Some APP_ERR_NONE, data), s)
      else locked (None, data) (\<lambda>s. case hw of
        DBG_HW_ADVANCED \<Rightarrow>
          let (err, s) = on_chain (adbg_select_module cb DC_WISHBONE) s
          in if err \<noteq> 0 then ((Some err, data), dbg_unlock (dbg_flush cb s))
             else returned_from (None, data) (on_chain (adv_read h cb 1 len adr data) s)
               (\<lambda>err buf s. ((Some err, buf), dbg_unlock (dbg_flush cb s)))
      | DBG_HW_LEGACY \<Rightarrow>
          returned_from (None, data) (on_chain (legacy_access h cb DC_WISHBONE 0x4 adr len True data) s)
            (\<lambda>err buf s. ((Some err, buf), dbg_unlock (dbg_flush cb s)))) s)"

definition dbg_wb_write_block32 :: "host \<Rightarrow> debug_hardware \<Rightarrow> 'c jtag_cable \<Rightarrow> u32 \<Rightarrow> u8 list \<Rightarrow> int \<Rightarrow> 'c dbg
    \<Rightarrow> (u32 option \<times> u8 list) \<times> 'c dbg" where
  "dbg_wb_write_block32 h hw cb adr data len s =
     (if len = 0 then ((Some APP_ERR_NONE, data), s)
      else locked (None, data) (\<lambda>s. case hw of
        DBG_HW_ADVANCED \<Rightarrow>
          let (err, s) = on_chain (adbg_select_module cb DC_WISHBONE) s
          in if err \<noteq> 0 then ((Some err, data), dbg_unlock (dbg_flush cb s))
             else returned_from (None, data) (on_chain (adv_write h cb 4 len adr data) s)
               (\<lambda>err _ s. ((Some err, data), dbg_unlock (dbg_flush cb s)))
      | DBG_HW_LEGACY \<Rightarrow>
          let data = swap_words (nat len) data in
          returned_from (None, data) (on_chain (legacy_access h cb DC_WISHBONE 0x2 adr (len * 4) False data) s)
            (\<lambda>err _ s. ((Some err, data), dbg_unlock (dbg_flush cb s)))) s)"

definition dbg_wb_write_block16 :: "host \<Rightarrow> debug_hardware \<Rightarrow> 'c jtag_cable \<Rightarrow> u32 \<Rightarrow> u8 list \<Rightarrow> int \<Rightarrow> 'c dbg
    \<Rightarrow> (u32 option \<times> u8 list) \<times> 'c dbg" where
  "dbg_wb_write_block16 h hw cb adr data len s =
     (if len = 0 then ((Some APP_ERR_NONE, data), s)
      else locked (None, data) (\<lambda>s. case hw of
        DBG_HW_ADVANCED \<Rightarrow>
          let (err, s) = on_chain (adbg_select_module cb DC_WISHBONE) s
          in if err \<noteq> 0 then ((Some err, data), dbg_unlock (dbg_flush cb s))
             else returned_from (None, data) (on_chain (adv_write h cb 2 len adr data) s)
               (\<lambda>err _ s. ((Some err, data), dbg_unlock (dbg_flush cb s)))
      | DBG_HW_LEGACY \<Rightarrow>
          let data = swap_halves (nat len) data in
          returned_from (None, data) (on_chain (legacy_access h cb DC_WISHBONE 0x1 adr (len * 2) False data) s)
            (\<lambda>err _ s. ((Some err, data), dbg_unlock (dbg_flush cb s)))) s)"

definition dbg_wb_write_block8 :: "host \<Rightarrow> debug_hardware \<Rightarrow> 'c jtag_cable \<Rightarrow> u32 \<Rightarrow> u8 list \<Rightarrow> int \<Rightarrow> 'c dbg
    \<Rightarrow> u32 option \<times> 'c dbg" where
  "dbg_wb_write_block8 h hw cb adr data len s =
     (if len = 0 then (Some APP_ERR_NONE, s)
      else locked None (\<lambda>s. case hw of
        DBG_HW_ADVANCED \<Rightarrow>
          let (err, s) = on_chain (adbg_select_module cb DC_WISHBONE) s
          in if err \<noteq> 0 then (Some err, dbg_unlock (dbg_flush cb s))
             else returned_from None (on_chain (adv_write h cb 1 len adr data) s)
               (\<lambda>err _ s. (Some err, dbg_unlock (dbg_flush cb s)))
      | DBG_HW_LEGACY \<Rightarrow>
          returned_from None (on_chain (legacy_access h cb DC_WISHBONE 0x0 adr len False data) s)
            (\<lambda>err _ s. (Some err, dbg_unlock (dbg_flush cb s)))) s)"

section \<open>CPU access\<close>

definition dbg_cpu0_read :: "host \<Rightarrow> debug_hardware \<Rightarrow> 'c jtag_cable \<Rightarrow> u32 \<Rightarrow> u32 \<Rightarrow> 'c dbg
    \<Rightarrow> (u32 option \<times> u32) \<times> 'c dbg" where
  "dbg_cpu0_read h hw cb adr data s =
     locked (None, data) (\<lambda>s. case hw of
        DBG_HW_ADVANCED \<Rightarrow>
          let (err, s) = on_chain (adbg_select_module cb DC_CPU0) s
          in if err \<noteq> 0 then ((Some err, data), dbg_unlock (dbg_flush cb s))
             else returned_from (None, data) (on_chain (adv_read h cb 4 1 adr (word_to_bytes data)) s)
               (\<lambda>err buf s. ((Some err, bytes_word buf), dbg_unlock (dbg_flush cb s)))
      | DBG_HW_LEGACY \<Rightarrow>
          returned_from (None, data) (on_chain (legacy_access h cb DC_CPU0 0x6 adr 4 True (word_to_bytes data)) s)
            (\<lambda>err buf s. ((Some err, bytes_word (if err = APP_ERR_NONE then swap_words 1 buf else buf)), dbg_unlock (dbg_flush cb s)))) s"

text \<open>The loops of the legacy block functions: one access per register; a process that has
  ended stays ended.\<close>

fun cpu0_read_loop :: "host \<Rightarrow> 'c jtag_cable \<Rightarrow> u32 \<Rightarrow> u32 list \<Rightarrow> u32 \<Rightarrow> 'c dbg
    \<Rightarrow> (u32 option \<times> u32 list) \<times> 'c dbg" where
  "cpu0_read_loop h cb readaddr [] err s = ((Some err, []), s)"
| "cpu0_read_loop h cb readaddr (d # ds) err s =
     (case dbg_cpu0_read h DBG_HW_LEGACY cb readaddr d s of
        ((None, d), s) \<Rightarrow> ((None, d # ds), s)
      | ((Some e, d), s) \<Rightarrow>
          let ((err, ds), s) = cpu0_read_loop h cb (readaddr + 1) ds (err OR e) s
          in ((err, d # ds), s))"


definition dbg_cpu0_read_block :: "host \<Rightarrow> debug_hardware \<Rightarrow> 'c jtag_cable \<Rightarrow> u32 \<Rightarrow> u32 list \<Rightarrow> int \<Rightarrow> 'c dbg
    \<Rightarrow> (u32 option \<times> u32 list) \<times> 'c dbg" where
  "dbg_cpu0_read_block h hw cb adr data count s =
     (case hw of
        DBG_HW_ADVANCED \<Rightarrow> locked (None, data) (\<lambda>s.
          let (err, s) = on_chain (adbg_select_module cb DC_CPU0) s
          in if err \<noteq> 0 then ((Some err, data), dbg_unlock (dbg_flush cb s))
             else returned_from (None, data) (on_chain (adv_read h cb 4 count adr (words_to_bytes data)) s)
               (\<lambda>err buf s. ((Some err, bytes_to_words buf), dbg_unlock (dbg_flush cb s)))) s
      | DBG_HW_LEGACY \<Rightarrow>
          let ((err, out), s) = cpu0_read_loop h cb adr (take (nat count) data) APP_ERR_NONE s
          in ((err, out @ drop (nat count) data), s))"

definition dbg_cpu0_write :: "host \<Rightarrow> debug_hardware \<Rightarrow> 'c jtag_cable \<Rightarrow> u32 \<Rightarrow> u32 \<Rightarrow> 'c dbg
    \<Rightarrow> u32 option \<times> 'c dbg" where
  "dbg_cpu0_write h hw cb adr data s =
     locked None (\<lambda>s. case hw of
        DBG_HW_ADVANCED \<Rightarrow>
          let (err, s) = on_chain (adbg_select_module cb DC_CPU0) s
          in if err \<noteq> 0 then (Some err, dbg_unlock (dbg_flush cb s))
             else returned_from None (on_chain (adv_write h cb 4 1 adr (word_to_bytes data)) s)
               (\<lambda>err _ s. (Some err, dbg_unlock (dbg_flush cb s)))
      | DBG_HW_LEGACY \<Rightarrow>
          returned_from None (on_chain (legacy_access h cb DC_CPU0 0x2 adr 4 False (swap_words 1 (word_to_bytes data))) s)
            (\<lambda>err _ s. (Some err, dbg_unlock (dbg_flush cb s)))) s"

fun cpu0_write_loop :: "host \<Rightarrow> 'c jtag_cable \<Rightarrow> u32 \<Rightarrow> u32 list \<Rightarrow> u32 \<Rightarrow> 'c dbg
    \<Rightarrow> u32 option \<times> 'c dbg" where
  "cpu0_write_loop h cb writeaddr [] err s = (Some err, s)"
| "cpu0_write_loop h cb writeaddr (d # ds) err s =
     (case dbg_cpu0_write h DBG_HW_LEGACY cb writeaddr d s of
        (None, s) \<Rightarrow> (None, s)
      | (Some e, s) \<Rightarrow> cpu0_write_loop h cb (writeaddr + 1) ds (err OR e) s)"


definition dbg_cpu0_write_block :: "host \<Rightarrow> debug_hardware \<Rightarrow> 'c jtag_cable \<Rightarrow> u32 \<Rightarrow> u32 list \<Rightarrow> int \<Rightarrow> 'c dbg
    \<Rightarrow> u32 option \<times> 'c dbg" where
  "dbg_cpu0_write_block h hw cb adr data count s =
     (case hw of
        DBG_HW_ADVANCED \<Rightarrow> locked None (\<lambda>s.
          let (err, s) = on_chain (adbg_select_module cb DC_CPU0) s
          in if err \<noteq> 0 then (Some err, dbg_unlock (dbg_flush cb s))
             else returned_from None (on_chain (adv_write h cb 4 count adr (words_to_bytes data)) s)
               (\<lambda>err _ s. (Some err, dbg_unlock (dbg_flush cb s)))) s
      | DBG_HW_LEGACY \<Rightarrow>
          cpu0_write_loop h cb adr (take (nat count) data) APP_ERR_NONE s)"

definition legacy_ctrl_write :: "host \<Rightarrow> 'c jtag_cable \<Rightarrow> int \<Rightarrow> u8 \<Rightarrow> 'c chain
    \<Rightarrow> (u32 option \<times> unit) \<times> 'c chain" where
  "legacy_ctrl_write h cb chain data s =
     (let (err, s) = legacy_dbg_set_chain h cb chain s
      in if err \<noteq> APP_ERR_NONE then ((Some err, ()), s)
         else let (err, s) = legacy_dbg_ctrl h cb (ucast (data AND 2)) (ucast (data AND 1)) s
              in ((Some err, ()), s))"

text \<open>Where the chain cannot be set, the two locals are not initialised.\<close>

definition legacy_ctrl_read :: "host \<Rightarrow> 'c jtag_cable \<Rightarrow> int \<Rightarrow> 'c chain \<Rightarrow> (u32 option \<times> u8) \<times> 'c chain" where
  "legacy_ctrl_read h cb chain s =
     (let (err, s) = legacy_dbg_set_chain h cb chain s
      in if err \<noteq> APP_ERR_NONE
         then ((Some err, ucast (push_bit 1 (mem_word h [] 0) OR mem_word h [] 4)), s)
         else let ((err, r, st), s) = legacy_dbg_ctrl_read h cb s
              in ((Some err, ucast (push_bit 1 r OR st)), s))"


definition dbg_cpu0_write_ctrl :: "host \<Rightarrow> debug_hardware \<Rightarrow> 'c jtag_cable \<Rightarrow> u32 \<Rightarrow> u8 \<Rightarrow> 'c dbg
    \<Rightarrow> u32 option \<times> 'c dbg" where
  "dbg_cpu0_write_ctrl h hw cb adr data s =
     locked None (\<lambda>s. case hw of
        DBG_HW_ADVANCED \<Rightarrow>
          let (err, s) = on_chain (adbg_select_module cb DC_CPU0) s
          in if err \<noteq> 0 then (Some err, dbg_unlock (dbg_flush cb s))
             else let (err, s) = on_chain (adbg_ctrl_write cb DBG_CPU0_REG_STATUS [ucast data] 2) s
             in if err \<noteq> 0 then (Some err, dbg_unlock (dbg_flush cb s))
                else (Some err, dbg_unlock (dbg_flush cb s))
      | DBG_HW_LEGACY \<Rightarrow>
          returned_from None (on_chain (legacy_ctrl_write h cb DC_CPU0 data) s)
            (\<lambda>err _ s. (Some err, dbg_unlock (dbg_flush cb s)))) s"

definition dbg_cpu0_read_ctrl :: "host \<Rightarrow> debug_hardware \<Rightarrow> 'c jtag_cable \<Rightarrow> u32 \<Rightarrow> u8 \<Rightarrow> 'c dbg
    \<Rightarrow> (u32 option \<times> u8) \<times> 'c dbg" where
  "dbg_cpu0_read_ctrl h hw cb adr data s =
     locked (None, data) (\<lambda>s. case hw of
        DBG_HW_ADVANCED \<Rightarrow>
          let (err, s) = on_chain (adbg_select_module cb DC_CPU0) s
          in if err \<noteq> 0 then ((Some err, data), dbg_unlock (dbg_flush cb s))
             else let ((err, d), s) = on_chain (adbg_ctrl_read cb DBG_CPU0_REG_STATUS 2) s
             in if err \<noteq> 0 then ((Some err, data), dbg_unlock (dbg_flush cb s))
                else ((Some err, ucast (rd (overlay d [0]) 0)), dbg_unlock (dbg_flush cb s))
      | DBG_HW_LEGACY \<Rightarrow>
          returned_from (None, data) (on_chain (legacy_ctrl_read h cb DC_CPU0) s)
            (\<lambda>err d s. ((Some err, d), dbg_unlock (dbg_flush cb s)))) s"

definition dbg_cpu1_read :: "host \<Rightarrow> debug_hardware \<Rightarrow> 'c jtag_cable \<Rightarrow> u32 \<Rightarrow> u32 \<Rightarrow> 'c dbg
    \<Rightarrow> (u32 option \<times> u32) \<times> 'c dbg" where
  "dbg_cpu1_read h hw cb adr data s =
     locked (None, data) (\<lambda>s. case hw of
        DBG_HW_ADVANCED \<Rightarrow>
          let (err, s) = on_chain (adbg_select_module cb DC_CPU1) s
          in if err \<noteq> 0 then ((Some err, data), dbg_unlock (dbg_flush cb s))
             else returned_from (None, data) (on_chain (adv_read h cb 4 1 adr (word_to_bytes data)) s)
               (\<lambda>err buf s. ((Some err, bytes_word buf), dbg_unlock (dbg_flush cb s)))
      | DBG_HW_LEGACY \<Rightarrow>
          returned_from (None, data) (on_chain (legacy_access h cb DC_CPU1 0x6 adr 4 True (word_to_bytes data)) s)
            (\<lambda>err buf s. ((Some err, bytes_word (swap_words 1 buf)), dbg_unlock (dbg_flush cb s)))) s"

text \<open>On advanced hardware the module selected here is that of CPU 0.\<close>

definition dbg_cpu1_write :: "host \<Rightarrow> debug_hardware \<Rightarrow> 'c jtag_cable \<Rightarrow> u32 \<Rightarrow> u32 \<Rightarrow> 'c dbg
    \<Rightarrow> u32 option \<times> 'c dbg" where
  "dbg_cpu1_write h hw cb adr data s =
     locked None (\<lambda>s. case hw of
        DBG_HW_ADVANCED \<Rightarrow>
          let (err, s) = on_chain (adbg_select_module cb DC_CPU0) s
          in if err \<noteq> 0 then (Some err, dbg_unlock (dbg_flush cb s))
             else returned_from None (on_chain (adv_write h cb 4 1 adr (word_to_bytes data)) s)
               (\<lambda>err _ s. (Some err, dbg_unlock (dbg_flush cb s)))
      | DBG_HW_LEGACY \<Rightarrow>
          returned_from None (on_chain (legacy_access h cb DC_CPU1 0x2 adr 4 False (swap_words 1 (word_to_bytes data))) s)
            (\<lambda>err _ s. (Some err, dbg_unlock (dbg_flush cb s)))) s"

definition dbg_cpu1_write_ctrl :: "host \<Rightarrow> debug_hardware \<Rightarrow> 'c jtag_cable \<Rightarrow> u32 \<Rightarrow> u8 \<Rightarrow> 'c dbg
    \<Rightarrow> u32 option \<times> 'c dbg" where
  "dbg_cpu1_write_ctrl h hw cb adr data s =
     locked None (\<lambda>s. case hw of
        DBG_HW_ADVANCED \<Rightarrow>
          let (err, s) = on_chain (adbg_select_module cb DC_CPU1) s
          in if err \<noteq> 0 then (Some err, dbg_unlock (dbg_flush cb s))
             else let (err, s) = on_chain (adbg_ctrl_write cb DBG_CPU1_REG_STATUS [ucast data] 2) s
             in if err \<noteq> 0 then (Some err, dbg_unlock (dbg_flush cb s))
                else (Some err, dbg_unlock (dbg_flush cb s))
      | DBG_HW_LEGACY \<Rightarrow>
          returned_from None (on_chain (legacy_ctrl_write h cb DC_CPU1 data) s)
            (\<lambda>err _ s. (Some err, dbg_unlock (dbg_flush cb s)))) s"

definition dbg_cpu1_read_ctrl :: "host \<Rightarrow> debug_hardware \<Rightarrow> 'c jtag_cable \<Rightarrow> u32 \<Rightarrow> u8 \<Rightarrow> 'c dbg
    \<Rightarrow> (u32 option \<times> u8) \<times> 'c dbg" where
  "dbg_cpu1_read_ctrl h hw cb adr data s =
     locked (None, data) (\<lambda>s. case hw of
        DBG_HW_ADVANCED \<Rightarrow>
          let (err, s) = on_chain (adbg_select_module cb DC_CPU1) s
          in if err \<noteq> 0 then ((Some err, data), dbg_unlock (dbg_flush cb s))
             else let ((err, d), s) = on_chain (adbg_ctrl_read cb DBG_CPU1_REG_STATUS 2) s
             in if err \<noteq> 0 then ((Some err, data), dbg_unlock (dbg_flush cb s))
                else ((Some err, ucast (rd (overlay d [0]) 0)), dbg_unlock (dbg_flush cb s))
      | DBG_HW_LEGACY \<Rightarrow>
          returned_from (None, data) (on_chain (legacy_ctrl_read h cb DC_CPU1) s)
            (\<lambda>err d s. ((Some err, d), dbg_unlock (dbg_flush cb s)))) s"

text \<open>The serial port exists on advanced hardware only. The counts stay what they were when
  nothing is transferred.\<close>

definition dbg_serial_sndrcv :: "host \<Rightarrow> 'c jtag_cable \<Rightarrow> nat \<Rightarrow> u8 list \<Rightarrow> 'c dbg
    \<Rightarrow> (u32 option \<times> (nat \<times> u8 list) option) \<times> 'c dbg" where
  "dbg_serial_sndrcv h cb bytes_to_send data_to_send s =
     locked (None, None) (\<lambda>s.
       let (err, s) = on_chain (adbg_select_module cb DC_JSP) s
       in if err \<noteq> 0 then ((Some err, None), dbg_unlock (dbg_flush cb s))
          else returned_from (None, None) (on_chain (adbg_jsp_transact h cb bytes_to_send data_to_send) s)
            (\<lambda>err r s. ((Some err, r), dbg_unlock (dbg_flush cb s)))) s"

section \<open>Properties\<close>

lemma on_chain_mutex [simp]: "dbg_access_mutex (snd (on_chain f s)) = dbg_access_mutex s"
  by (simp add: on_chain_def split_beta Let_def)

lemma flush_mutex [simp]: "dbg_access_mutex (dbg_flush cb s) = dbg_access_mutex s"
  by (simp add: dbg_flush_def)

lemma unlock_mutex [simp]:
  "dbg_access_mutex (dbg_unlock s) = (if dbg_access_mutex s = Held then Free else Stuck)"
  by (simp add: dbg_unlock_def)

lemma locked_free:
  "dbg_access_mutex s = Free \<Longrightarrow> locked r0 rest s = rest (s\<lparr>dbg_access_mutex := Held\<rparr>)"
  "dbg_access_mutex s \<noteq> Free \<Longrightarrow> locked r0 rest s = (r0, s\<lparr>dbg_access_mutex := Stuck\<rparr>)"
  by (simp_all add: locked_def dbg_lock_def Let_def)

text \<open>A call that comes back has given the mutex back; one in which the process has ended held it.\<close>

definition gives_back :: "u32 option \<Rightarrow> 'c dbg \<Rightarrow> bool" where
  "gives_back r s \<longleftrightarrow> dbg_access_mutex s = (if r = None then Held else Free)"

lemma cpu0_access_gives_back:
  assumes "dbg_access_mutex s = Free"
  shows "gives_back (fst (fst (dbg_cpu0_read h hw cb adr d s))) (snd (dbg_cpu0_read h hw cb adr d s))"
    "gives_back (fst (dbg_cpu0_write h hw cb adr d s)) (snd (dbg_cpu0_write h hw cb adr d s))"
  using assms
  by (auto simp: dbg_cpu0_read_def dbg_cpu0_write_def locked_free gives_back_def returned_from_def
      split_beta Let_def split: debug_hardware.split option.split prod.split)

lemma cpu0_loops_give_back:
  "dbg_access_mutex s = Free \<Longrightarrow>
     gives_back (fst (fst (cpu0_read_loop h cb adr ds err s))) (snd (cpu0_read_loop h cb adr ds err s))"
  "dbg_access_mutex s = Free \<Longrightarrow>
     gives_back (fst (cpu0_write_loop h cb adr ds err s)) (snd (cpu0_write_loop h cb adr ds err s))"
proof (induction ds arbitrary: adr err s)
  case (Cons d ds)
  { case 1
    then show ?case using Cons.IH(1) cpu0_access_gives_back(1) [of s h DBG_HW_LEGACY cb adr d]
      by (auto simp: Let_def split_beta gives_back_def split: prod.splits option.splits)
  next
    case 2
    then show ?case using Cons.IH(2) cpu0_access_gives_back(2) [of s h DBG_HW_LEGACY cb adr d]
      by (auto simp: Let_def split_beta gives_back_def split: prod.splits option.splits) }
qed (simp_all add: gives_back_def)

lemmas api_defs = dbg_wb_read32_def dbg_wb_write32_def dbg_wb_write16_def dbg_wb_write8_def
  dbg_wb_read_block32_def dbg_wb_read_block16_def dbg_wb_read_block8_def dbg_wb_write_block32_def
  dbg_wb_write_block16_def dbg_wb_write_block8_def dbg_cpu0_read_def dbg_cpu0_read_block_def
  dbg_cpu0_write_def dbg_cpu0_write_block_def dbg_cpu0_write_ctrl_def dbg_cpu0_read_ctrl_def
  dbg_cpu1_read_def dbg_cpu1_write_def dbg_cpu1_write_ctrl_def dbg_cpu1_read_ctrl_def
  dbg_serial_sndrcv_def

text \<open>
  C27: Every function of the API that starts with a free mutex takes it at most once at a
  time and, when it comes back, has given it back exactly as often: after a module that cannot
  be selected, after an error of the control registers, after an empty block and after the
  loops over single registers, which take it anew for each, on both kinds of hardware. It
  never waits for itself. A call that does not come back has ended inside the access it holds
  the mutex for.
\<close>

theorem api_releases_mutex:
  assumes "dbg_access_mutex s = Free"
  shows "gives_back (fst (fst (dbg_wb_read32 h hw cb adr w s))) (snd (dbg_wb_read32 h hw cb adr w s)) \<and>
    gives_back (fst (dbg_wb_write32 h hw cb adr w s)) (snd (dbg_wb_write32 h hw cb adr w s)) \<and>
    gives_back (fst (dbg_wb_write16 h hw cb adr x s)) (snd (dbg_wb_write16 h hw cb adr x s)) \<and>
    gives_back (fst (dbg_wb_write8 h hw cb adr y s)) (snd (dbg_wb_write8 h hw cb adr y s)) \<and>
    gives_back (fst (fst (dbg_wb_read_block32 h hw cb adr data len s))) (snd (dbg_wb_read_block32 h hw cb adr data len s)) \<and>
    gives_back (fst (fst (dbg_wb_read_block16 h hw cb adr data len s))) (snd (dbg_wb_read_block16 h hw cb adr data len s)) \<and>
    gives_back (fst (fst (dbg_wb_read_block8 h hw cb adr data len s))) (snd (dbg_wb_read_block8 h hw cb adr data len s)) \<and>
    gives_back (fst (fst (dbg_wb_write_block32 h hw cb adr data len s))) (snd (dbg_wb_write_block32 h hw cb adr data len s)) \<and>
    gives_back (fst (fst (dbg_wb_write_block16 h hw cb adr data len s))) (snd (dbg_wb_write_block16 h hw cb adr data len s)) \<and>
    gives_back (fst (dbg_wb_write_block8 h hw cb adr data len s)) (snd (dbg_wb_write_block8 h hw cb adr data len s)) \<and>
    gives_back (fst (fst (dbg_cpu0_read h hw cb adr w s))) (snd (dbg_cpu0_read h hw cb adr w s)) \<and>
    gives_back (fst (fst (dbg_cpu0_read_block h hw cb adr ws len s))) (snd (dbg_cpu0_read_block h hw cb adr ws len s)) \<and>
    gives_back (fst (dbg_cpu0_write h hw cb adr w s)) (snd (dbg_cpu0_write h hw cb adr w s)) \<and>
    gives_back (fst (dbg_cpu0_write_block h hw cb adr ws len s)) (snd (dbg_cpu0_write_block h hw cb adr ws len s)) \<and>
    gives_back (fst (dbg_cpu0_write_ctrl h hw cb adr y s)) (snd (dbg_cpu0_write_ctrl h hw cb adr y s)) \<and>
    gives_back (fst (fst (dbg_cpu0_read_ctrl h hw cb adr y s))) (snd (dbg_cpu0_read_ctrl h hw cb adr y s)) \<and>
    gives_back (fst (fst (dbg_cpu1_read h hw cb adr w s))) (snd (dbg_cpu1_read h hw cb adr w s)) \<and>
    gives_back (fst (dbg_cpu1_write h hw cb adr w s)) (snd (dbg_cpu1_write h hw cb adr w s)) \<and>
    gives_back (fst (dbg_cpu1_write_ctrl h hw cb adr y s)) (snd (dbg_cpu1_write_ctrl h hw cb adr y s)) \<and>
    gives_back (fst (fst (dbg_cpu1_read_ctrl h hw cb adr y s))) (snd (dbg_cpu1_read_ctrl h hw cb adr y s)) \<and>
    gives_back (fst (fst (dbg_serial_sndrcv h cb n data s))) (snd (dbg_serial_sndrcv h cb n data s))"
proof -
  note loops = cpu0_loops_give_back [OF assms]
  show ?thesis
  proof (intro conjI, goal_cases)
    case 12 then show ?case
      using loops(1) [of h cb adr "take (nat len) ws" APP_ERR_NONE] assms
      by (auto simp: dbg_cpu0_read_block_def locked_free gives_back_def returned_from_def
          split_beta Let_def split: debug_hardware.split option.split prod.split)
  next
    case 14 then show ?case
      using loops(2) [of h cb adr "take (nat len) ws" APP_ERR_NONE] assms
      by (auto simp: dbg_cpu0_write_block_def locked_free gives_back_def returned_from_def
          split_beta Let_def split: debug_hardware.split option.split prod.split)
  qed (use assms in \<open>auto simp: api_defs locked_free gives_back_def returned_from_def
      split_beta Let_def split: debug_hardware.split option.split prod.split\<close>)
qed

text \<open>
  On advanced hardware, writing a register of CPU 1 writes the register of CPU 0: the two
  functions are the same.
\<close>

lemma cpu1_write_hits_cpu0:
  "dbg_cpu1_write h DBG_HW_ADVANCED cb adr data s = dbg_cpu0_write h DBG_HW_ADVANCED cb adr data s"
  by (simp add: dbg_cpu1_write_def dbg_cpu0_write_def)

text \<open>
  On legacy hardware the reset bit of the control register never reaches the debug unit:
  the value 2 is cut to one bit. Writing it with or without the reset bit is the same.
\<close>

theorem legacy_reset_lost:
  "dbg_cpu0_write_ctrl h DBG_HW_LEGACY cb adr (data OR 2) s =
   dbg_cpu0_write_ctrl h DBG_HW_LEGACY cb adr (data AND NOT 2) s"
proof -
  have w: "legacy_write_stream cb 2 1 False t = legacy_write_stream cb 0 1 False t" for t
    by (simp add: legacy_write_stream_def crc_msb_first_def Let_def)
  have a: "legacy_ctrl_attempt h cb 2 st t = legacy_ctrl_attempt h cb 0 st t" for st t
    unfolding legacy_ctrl_attempt_def w by (rule refl)
  have c: "legacy_dbg_ctrl h cb 2 st t = legacy_dbg_ctrl h cb 0 st t" for st t
  proof -
    obtain e u where "legacy_ctrl_attempt h cb 0 st t = (Some e, u)"
      using legacy_attempts_some(2) [of h cb 0 st t]
      by (cases "legacy_ctrl_attempt h cb 0 st t") auto
    with a show ?thesis by (simp add: legacy_dbg_ctrl.simps)
  qed
  have d: "(data OR 2) AND 2 = 2" "(data AND NOT 2) AND 2 = 0" "(data OR 2) AND 1 = (data AND NOT 2) AND 1"
    by (rule bit_word_eqI; auto simp: bit_simps)+
  have "ucast (2 :: u8) = (2 :: u32)" "ucast (0 :: u8) = (0 :: u32)" by simp_all
  then have "legacy_ctrl_write h cb DC_CPU0 (data OR 2) = legacy_ctrl_write h cb DC_CPU0 (data AND NOT 2)"
    by (intro ext) (simp only: legacy_ctrl_write_def d c)
  then show ?thesis by (simp only: dbg_cpu0_write_ctrl_def debug_hardware.case)
qed

section \<open>A register read end to end\<close>

lemma flush_dev_same:
  assumes "clocked_cable cb dev dstep dtdo"
  shows "dev (cable (dbg_chain (dbg_flush cb s))) = dev (cable (dbg_chain s))"
  using clocked_cable.flush_dev [OF assms]
  by (simp add: dbg_flush_def on_chain_def cable_flush_def Let_def split_beta split: option.split)

lemma bytes_word_bytes [simp]: "bytes_word (word_to_bytes w @ bs) = w"
  using bytes_to_words_word [of w "[]"] by (simp add: bytes_word_def rd_def)

lemma bytes_word_word [simp]: "bytes_word (word_to_bytes w) = w"
  using bytes_word_bytes [of w "[]"] by simp

text \<open>
  C18: \<open>dbg_cpu0_read\<close> selects the CPU module if another one is selected, sends the burst
  command for one word at the given address, and returns the word the debug unit answers
  with, or the CRC error if the CRC behind it is wrong. The TAP is left in Run-Test/Idle.
\<close>

theorem dbg_cpu0_read_word:
  assumes "reliable_tap cb dev dstep dtdo view" and "at_idle (view (dev (cable (dbg_chain s)))) u"
    and "current_chain (dbg_chain s) = -1 \<or> current_chain (dbg_chain s) = desired_chain (dbg_chain s)"
    and "global_DR_prefix_bits (conf (dbg_chain s)) = int k"
    and "global_DR_postfix_bits (conf (dbg_chain s)) = int q"
    and "\<not> global_xilinx_bscan (conf (dbg_chain s))" and "malloc_ok h 8" and "w < MAX_READ_STATUS_WAIT"
    and "tdo_run dstep dtdo (replicate (Suc w + 64) pin0) (dev (cable (burst_shift_state cb 7 (ucast adr) 1
        (snd (adbg_select_module cb DC_CPU0 (dbg_chain s)))))) =
        replicate w False @ True # bytes_bits (word_to_bytes d @ word_to_bytes crc)"
    and free: "dbg_access_mutex s = Free"
  shows "fst (dbg_cpu0_read h DBG_HW_ADVANCED cb adr d0 s) =
      (Some (if crc_bytes h (word_to_bytes d) = crc then APP_ERR_NONE else APP_ERR_CRC), d) \<and>
    at_idle (view (dev (cable (dbg_chain (snd (dbg_cpu0_read h DBG_HW_ADVANCED cb adr d0 s))))))
      (u @ select_updates k (current_chain (dbg_chain s)) DC_CPU0
         @ [DR_Update (word_bits 16 1 @ word_bits 32 adr @ word_bits 4 7 @ False # replicate k False),
            DR_Update (replicate (Suc w + 64 + k) False)])"
proof -
  let ?c = "snd (adbg_select_module cb DC_CPU0 (dbg_chain s))"
  note rt = assms(1)
  have sel: "fst (adbg_select_module cb DC_CPU0 (dbg_chain s)) = APP_ERR_NONE"
    "at_idle (view (dev (cable ?c))) (u @ select_updates k (current_chain (dbg_chain s)) DC_CPU0)"
    using reliable_tap.select_module_idle [OF rt assms(2), of DC_CPU0 k] assms(4) by (simp_all add: DC_CPU0_def)
  have g: "current_chain ?c = DC_CPU0" "desired_chain ?c = DC_CPU0" "conf ?c = conf (dbg_chain s)"
    using assms(3) by (auto simp: select_module_globals DC_CPU0_def)
  have "uint (ucast adr :: u64) = uint adr" 
    using uint_bounded [of adr] by (simp add: unsigned_ucast_eq take_bit_int_eq_self)
  then have adr: "(ucast adr :: u64) < 0x100000000"
    using uint_bounded [of adr] by (simp add: word_less_alt)
  have adr2: "ucast (ucast adr :: u64) = adr" by (rule bit_word_eqI) (simp add: bit_unsigned_iff)
  let ?r = "adbg_wb_burst_read h cb 4 1 (ucast adr) ?c"
  have r: "fst ?r = (Some (if crc_bytes h (word_to_bytes d) = crc then APP_ERR_NONE else APP_ERR_CRC),
        Some (word_to_bytes d))"
    and idle: "at_idle (view (dev (cable (snd ?r)))) ((u @ select_updates k (current_chain (dbg_chain s)) DC_CPU0)
      @ [DR_Update (word_bits 16 1 @ word_bits 32 adr @ word_bits 4 7 @ False # replicate k False),
         DR_Update (replicate (Suc w + 64 + k) False)])"
    using cpu_burst_read [where wc = 1 and h = h and k = k and q = q and bs = "word_to_bytes d" and crc = crc, OF rt sel(2) _ _ _ _ _ _ _ _ adr _ assms(8)] g adr2 assms(4-7,9)
    by simp_all
  have "clocked_cable cb dev dstep dtdo"
    using rt by (simp add: reliable_tap_def tap_device_def)
  note fl = flush_dev_same [OF this]
  let ?e = "if crc_bytes h (word_to_bytes d) = crc then APP_ERR_NONE else APP_ERR_CRC"
  have read: "dbg_cpu0_read h DBG_HW_ADVANCED cb adr d0 s =
      ((Some ?e, d), dbg_unlock (dbg_flush cb (s\<lparr>dbg_access_mutex := Held, dbg_chain := snd ?r\<rparr>)))"
    using sel(1) r
    by (simp add: locked_free(1) [OF free] dbg_cpu0_read_def adv_read_def on_chain_def returned_from_def fill_def Let_def split_beta)
  have "dev (cable (dbg_chain (dbg_unlock t))) = dev (cable (dbg_chain t))" for t
    by (simp add: dbg_unlock_def)
  with idle fl show ?thesis unfolding read by simp
qed

definition example_dbg :: "tap_view board dbg" where
  "example_dbg = \<lparr>dbg_chain = cpu_chain, dbg_access_mutex = Free\<rparr>"

text \<open>The control register is written with the mutex free before and after.\<close>

theorem api_releases_mutex_witness:
  "\<exists>err d. dbg_cpu0_write_ctrl x86_64 DBG_HW_ADVANCED example_cable 0 1 example_dbg = (Some err, d) \<and>
     dbg_access_mutex d = Free"
proof -
  have free: "dbg_access_mutex example_dbg = Free" by (simp add: example_dbg_def)
  have "fst (dbg_cpu0_write_ctrl x86_64 DBG_HW_ADVANCED example_cable 0 1 example_dbg) \<noteq> None"
    by (simp add: dbg_cpu0_write_ctrl_def locked_free(1) [OF free] split_beta Let_def)
  with api_releases_mutex [OF free, of x86_64 DBG_HW_ADVANCED example_cable 0 0 0 1]
  show ?thesis by (auto simp: gives_back_def prod_eq_iff)
qed

theorem dbg_cpu0_read_word_witness:
  "fst (dbg_cpu0_read x86_64 DBG_HW_ADVANCED (answering_cable [example_read_command] example_answer)
      0x8000 0 example_dbg) = (Some APP_ERR_NONE, 0xDEADBEEF)"
proof -
  let ?cmd = example_read_command and ?ans = example_answer
  have c: "snd (adbg_select_module (answering_cable [?cmd] ?ans) DC_CPU0 (dbg_chain example_dbg)) = cpu_chain"
    by (simp add: example_dbg_def select_current cpu_chain_simps)
  have r: "burst_ready 1 cpu_chain 7 0x8000 1"
    by (simp add: burst_ready_def cpu_chain_simps example_conf_simps const_simps)
  have u: "burst_updates 1 cpu_chain 7 0x8000 1 = [?cmd]"
    by (simp add: burst_updates_def select_updates_def cpu_chain_simps example_read_command_def)
  have bytes: "word_to_bytes 0xDEADBEEF = [0xEF, 0xBE, 0xAD, 0xDE]" by (simp add: word_to_bytes_def)
  have l: "length ?ans = 68" by (simp add: example_answer_def)
  have "board_dev (cable (burst_shift_state (answering_cable [?cmd] ?ans) 7 0x8000 1 cpu_chain)) =
      \<lparr>tap = Shift_DR, shifted = [], updates = [?cmd]\<rparr>"
    using reliable_tap.burst_shift_view(1) [OF answering_tap _ r, of "[]" "[?cmd]" ?ans] u
    by (simp add: cpu_chain_simps)
  with answer_run [of "[]" 68 ?ans "[?cmd]"] l
  have a: "tdo_run tap_step (answer_tdo [?cmd] ?ans) (replicate (Suc 3 + 64) pin0)
      (board_dev (cable (burst_shift_state (answering_cable [?cmd] ?ans) 7 (ucast (0x8000 :: u32)) 1
        (snd (adbg_select_module (answering_cable [?cmd] ?ans) DC_CPU0 (dbg_chain example_dbg)))))) = ?ans"
    unfolding c by simp
  show ?thesis
    using dbg_cpu0_read_word [OF answering_tap _ _ _ _ _ _ _ a [unfolded example_answer_def, folded bytes],
        of "[]" 1 1] 
    by (simp add: example_dbg_def cpu_chain_simps example_conf_simps const_simps example_answer_def bytes)
qed

end
