(* ===== verification/Hw_Monitor.thy ===== *)
theory Hw_Monitor
  imports Dbg_Api "HOL-Library.Multiset"
begin

text \<open>
  The thread that watches the target (\<^verbatim>\<open>hardware_monitor.c\<close>). Servers register a pair of
  pipes with it; through one of them they command it to stall or unstall the CPU, through the
  other they hear when the CPU halts or runs. The bytes in a pipe are kept with the
  connection it belongs to. A function that works on the connections holds \<open>pipes_mutex\<close>, so
  that part of it is one step. Registration is two: it looks for room before it takes the
  mutex, and other threads may come in between. The array has room for five connections; the
  list of them can grow longer, and stands then for writes behind the end of the array. Taking
  a mutex that is not given back blocks for ever and is None, as is a read from an empty pipe
  and a call of the debug API that does not come back. The results of \<open>pipe(2)\<close> are part of the
  state, and a pipe takes every byte that is written to it.
\<close>

record fdstruct =
  server_to_monitor_fds :: "int \<times> int"
  monitor_to_server_fds :: "int \<times> int"
  to_monitor :: string
  to_server :: string

record 'c target =
  tdbg :: "'c dbg"
  monitor_thread_running :: bool
  target_is_running :: bool
  connections :: "fdstruct list"
  pipes_mutex :: bool
  pipe_results :: "(int \<times> int) option list"
  hwp_in_use :: "bool list"

definition MAX_MONITOR_CONNECTIONS :: nat where [const_simps]: "MAX_MONITOR_CONNECTIONS = 5"

section \<open>Operations\<close>

text \<open>\<open>created\<close>: whether \<open>pthread_create\<close> succeeds.\<close>

definition start_monitor_thread :: "bool \<Rightarrow> 'c target \<Rightarrow> int \<times> 'c target" where
  "start_monitor_thread created s =
     (let s = s\<lparr>target_is_running := True\<rparr>
      in if \<not> created then (0, s) else (1, s\<lparr>monitor_thread_running := True\<rparr>))"

definition lock_pipes :: "'c target \<Rightarrow> 'c target option" where
  "lock_pipes s = (if pipes_mutex s then None else Some (s\<lparr>pipes_mutex := True\<rparr>))"

definition unlock_pipes :: "'c target \<Rightarrow> 'c target" where
  "unlock_pipes s = s\<lparr>pipes_mutex := False\<rparr>"

definition sys_pipe :: "'c target \<Rightarrow> (int \<times> int) option \<times> 'c target" where
  "sys_pipe s = (case pipe_results s of [] \<Rightarrow> (None, s) | r # rs \<Rightarrow> (r, s\<lparr>pipe_results := rs\<rparr>))"

text \<open>The tests before the mutex is taken, and what follows.\<close>

definition register_check :: "'c target \<Rightarrow> bool" where
  "register_check s \<longleftrightarrow> monitor_thread_running s \<and> \<not> length (connections s) \<ge> MAX_MONITOR_CONNECTIONS"

definition register_locked :: "int \<times> int \<Rightarrow> 'c target \<Rightarrow> ((int \<times> int \<times> int) \<times> 'c target) option" where
  "register_locked pipe_fds s = do {
     s \<leftarrow> lock_pipes s;
     (case sys_pipe s of
        (None, s) \<Rightarrow> Some ((0, pipe_fds), s)
      | (Some a, s) \<Rightarrow>
          (case sys_pipe s of
             (None, s) \<Rightarrow> Some ((0, pipe_fds), s)
           | (Some b, s) \<Rightarrow>
               let s = s\<lparr>connections := connections s @
                 [\<lparr>server_to_monitor_fds = a, monitor_to_server_fds = b, to_monitor = [], to_server = []\<rparr>]\<rparr>
               in Some ((1, snd a, fst b), unlock_pipes s))) }"

text \<open>The whole function, when no other thread comes in between.\<close>

definition register_with_monitor_thread :: "int \<times> int \<Rightarrow> 'c target \<Rightarrow> ((int \<times> int \<times> int) \<times> 'c target) option" where
  "register_with_monitor_thread pipe_fds s =
     (if \<not> register_check s then Some ((0, pipe_fds), s) else register_locked pipe_fds s)"

lemmas register_defs = register_with_monitor_thread_def register_check_def register_locked_def

definition is_connection :: "int \<times> int \<Rightarrow> fdstruct \<Rightarrow> bool" where
  "is_connection pipe_fds c \<longleftrightarrow>
     snd (server_to_monitor_fds c) = fst pipe_fds \<and> fst (monitor_to_server_fds c) = snd pipe_fds"

fun find_connection :: "int \<times> int \<Rightarrow> nat \<Rightarrow> fdstruct list \<Rightarrow> nat option" where
  "find_connection pipe_fds i [] = None"
| "find_connection pipe_fds i (c # cs) =
     (if is_connection pipe_fds c then Some i else find_connection pipe_fds (Suc i) cs)"

text \<open>The last connection moves to the place of the one that goes.\<close>

definition drop_connection :: "nat \<Rightarrow> fdstruct list \<Rightarrow> fdstruct list" where
  "drop_connection i cs =
     butlast (if i \<noteq> length cs - 1 then cs[i := cs ! (length cs - 1)] else cs)"

definition unregister_with_monitor_thread :: "int \<times> int \<Rightarrow> 'c target \<Rightarrow> ((int \<times> int) \<times> 'c target) option" where
  "unregister_with_monitor_thread pipe_fds s =
     (if fst pipe_fds < 0 \<or> snd pipe_fds < 0 then Some (pipe_fds, s)
      else do {
        s \<leftarrow> lock_pipes s;
        (case find_connection pipe_fds 0 (connections s) of
           Some i \<Rightarrow> Some ((-1, -1), unlock_pipes (s\<lparr>connections := drop_connection i (connections s)\<rparr>))
         | None \<Rightarrow> Some (pipe_fds, unlock_pipes s)) })"

text \<open>A server writes to, or reads from, the pipes of its connection. The results of \<open>write\<close> are
  only printed; there is no such descriptor after the connection has gone.\<close>

definition send_command :: "int \<Rightarrow> char \<Rightarrow> 'c target \<Rightarrow> 'c target" where
  "send_command fd cmd s = s\<lparr>connections :=
     map (\<lambda>c. if snd (server_to_monitor_fds c) = fd then c\<lparr>to_monitor := to_monitor c @ [cmd]\<rparr> else c) (connections s)\<rparr>"

definition take_status :: "int \<Rightarrow> 'c target \<Rightarrow> 'c target" where
  "take_status fd s = s\<lparr>connections :=
     map (\<lambda>c. if fst (monitor_to_server_fds c) = fd then c\<lparr>to_server := tl (to_server c)\<rparr> else c) (connections s)\<rparr>"

text \<open>A server's \<open>read\<close> of one byte: it blocks on an empty pipe, and fails (the inner None) on a
  descriptor that has gone.\<close>

definition read_status :: "int \<Rightarrow> 'c target \<Rightarrow> (char option \<times> 'c target) option" where
  "read_status fd s =
     (case find (\<lambda>c. fst (monitor_to_server_fds c) = fd) (connections s) of
        None \<Rightarrow> Some (None, s)
      | Some c \<Rightarrow> (case to_server c of [] \<Rightarrow> None | cmd # _ \<Rightarrow> Some (Some cmd, take_status fd s)))"

definition stall_cpu :: "host \<Rightarrow> debug_hardware \<Rightarrow> 'c jtag_cable \<Rightarrow> int \<Rightarrow> 'c target \<Rightarrow> 'c target option" where
  "stall_cpu h hw cb stall s =
     (let data = (if stall > 0 then 1 else 0)
      in case dbg_cpu0_write_ctrl h hw cb 0 data (tdbg s) of
           (None, d) \<Rightarrow> None
         | (Some retval, d) \<Rightarrow> Some (s\<lparr>tdbg := d, target_is_running := (data = 0)\<rparr>))"

definition notify_listeners :: "string \<Rightarrow> 'c target \<Rightarrow> 'c target" where
  "notify_listeners outstr s = s\<lparr>connections := map (\<lambda>c. c\<lparr>to_server := to_server c @ outstr\<rparr>) (connections s)\<rparr>"

section \<open>The loop of the thread\<close>

definition run_command :: "host \<Rightarrow> debug_hardware \<Rightarrow> 'c jtag_cable \<Rightarrow> char \<Rightarrow> 'c target \<Rightarrow> 'c target option" where
  "run_command h hw cb cmd s =
     (if cmd = CHR ''S'' then do {
        s \<leftarrow> (if target_is_running s then stall_cpu h hw cb 1 s else Some s);
        Some (notify_listeners ''H'' s) }
      else if cmd = CHR ''U'' then do {
        s \<leftarrow> (if \<not> target_is_running s then stall_cpu h hw cb 0 s else Some s);
        Some (notify_listeners ''R'' s) }
      else Some s)"

text \<open>The for loop over the connections; \<open>ready\<close> holds the descriptors that \<open>select\<close> has found
  readable.\<close>

fun serve_connections :: "host \<Rightarrow> debug_hardware \<Rightarrow> 'c jtag_cable \<Rightarrow> int list \<Rightarrow> nat list \<Rightarrow> 'c target
    \<Rightarrow> 'c target option" where
  "serve_connections h hw cb ready [] s = Some s"
| "serve_connections h hw cb ready (i # is) s =
     (let c = connections s ! i
      in if fst (server_to_monitor_fds c) \<in> set ready
         then case to_monitor c of
             [] \<Rightarrow> None
           | cmd # rest \<Rightarrow> do {
               s \<leftarrow> run_command h hw cb cmd (s\<lparr>connections := (connections s)[i := c\<lparr>to_monitor := rest\<rparr>]\<rparr>);
               serve_connections h hw cb ready is s }
         else serve_connections h hw cb ready is s)"

datatype select_result = Select_Error | Select_Timeout | Select_Ready "int list"

definition poll_target :: "host \<Rightarrow> debug_hardware \<Rightarrow> 'c jtag_cable \<Rightarrow> u8 \<Rightarrow> 'c target \<Rightarrow> 'c target option" where
  "poll_target h hw cb target_status s =
     (if target_is_running s
      then case dbg_cpu0_read_ctrl h hw cb 0 target_status (tdbg s) of
          ((None, _), d) \<Rightarrow> None
        | ((Some ret, target_status), d) \<Rightarrow>
            let s = s\<lparr>tdbg := d\<rparr>
            in if ret \<noteq> APP_ERR_NONE then Some s
               else if target_status AND 0x01 \<noteq> 0 then do {
                 let s = s\<lparr>target_is_running := False\<rparr>;
                 s \<leftarrow> lock_pipes s;
                 Some (unlock_pipes (notify_listeners ''H'' s)) }
               else Some s
      else Some s)"

text \<open>One round of \<open>while(1)\<close>. \<open>target_status\<close> is what the variable holds from the round before.
  The descriptors are collected under the mutex first, which is all the first loop does.\<close>

definition target_handler :: "host \<Rightarrow> debug_hardware \<Rightarrow> 'c jtag_cable \<Rightarrow> u8 \<Rightarrow> select_result \<Rightarrow> 'c target
    \<Rightarrow> 'c target option" where
  "target_handler h hw cb target_status ret s = do {
     s \<leftarrow> lock_pipes s;
     let s = unlock_pipes s;
     (case ret of
        Select_Ready ready \<Rightarrow> do {
          s \<leftarrow> lock_pipes s;
          s \<leftarrow> serve_connections h hw cb ready [0..<length (connections s)] s;
          Some (unlock_pipes s) }
      | _ \<Rightarrow> poll_target h hw cb target_status s) }"

section \<open>Removing a connection\<close>

lemma find_connection_Some:
  "find_connection p i cs = Some j \<Longrightarrow> i \<le> j \<and> j < i + length cs \<and> is_connection p (cs ! (j - i))"
  by (induction p i cs rule: find_connection.induct) (auto split: if_splits simp: nth_Cons' not_le)

lemma find_connection_None: "find_connection p i cs = None \<longleftrightarrow> (\<forall>c \<in> set cs. \<not> is_connection p c)"
  by (induction p i cs rule: find_connection.induct) auto

lemma mset_drop_connection:
  assumes "i < length cs"
  shows "mset cs = add_mset (cs ! i) (mset (drop_connection i cs))"
proof (cases cs rule: rev_cases)
  case (snoc ys z)
  show ?thesis
  proof (cases "i = length ys")
    case False
    with assms snoc have i: "i < length ys" by simp
    have "mset ys = add_mset (ys ! i) (mset ys - {#ys ! i#})"
      using i by (simp add: nth_mem_mset)
    with i False snoc show ?thesis
      by (simp add: drop_connection_def nth_append list_update_append mset_update)
  qed (simp add: snoc drop_connection_def)
qed (use assms in simp)

lemma drop_connection_subset: "i < length cs \<Longrightarrow> set (drop_connection i cs) \<subseteq> set cs"
  using mset_drop_connection [of i cs] by (metis set_mset_add_mset_insert set_mset_mset subset_insertI)

lemma length_drop_connection: "length (drop_connection i cs) = length cs - 1"
  by (simp add: drop_connection_def)

lemma distinct_concat_drop:
  assumes "distinct (concat (map f cs))" "i < length cs"
  shows "distinct (concat (map f (drop_connection i cs)))"
proof -
  let ?ds = "(cs ! i) # drop_connection i cs"
  have "mset cs = mset ?ds" using mset_drop_connection [OF assms(2)] by simp
  then have "mset (concat (map f cs)) = mset (concat (map f ?ds))"
    by (metis mset_concat mset_map sum_mset_sum_list)
  then have "distinct (concat (map f ?ds))" using assms(1) by (metis mset_eq_imp_distinct_iff)
  then show ?thesis by simp
qed

section \<open>The invariant of the monitor\<close>

definition conn_fds :: "fdstruct \<Rightarrow> int list" where
  "conn_fds c = [fst (server_to_monitor_fds c), snd (server_to_monitor_fds c),
                 fst (monitor_to_server_fds c), snd (monitor_to_server_fds c)]"

definition all_fds :: "'c target \<Rightarrow> int list" where
  "all_fds s = concat (map conn_fds (connections s))"

definition status_char :: "'c target \<Rightarrow> char" where
  "status_char s = (if target_is_running s then CHR ''R'' else CHR ''H'')"

definition told :: "'c target \<Rightarrow> bool" where
  "told s \<longleftrightarrow> (\<forall>c \<in> set (connections s). to_server c \<noteq> [] \<longrightarrow> last (to_server c) = status_char s)"

definition monitor_inv :: "'c target \<Rightarrow> bool" where
  "monitor_inv s \<longleftrightarrow> \<not> pipes_mutex s \<and> distinct (all_fds s) \<and> (\<forall>fd \<in> set (all_fds s). 0 \<le> fd) \<and> told s"

text \<open>What the system promises of the next two pipes: they are there, and their descriptors are
  new.\<close>

definition fresh_pipes :: "'c target \<Rightarrow> bool" where
  "fresh_pipes s \<longleftrightarrow> (\<exists>a b c d ps. pipe_results s = Some (a, b) # Some (c, d) # ps \<and>
     distinct ([a, b, c, d] @ all_fds s) \<and> 0 \<le> a \<and> 0 \<le> b \<and> 0 \<le> c \<and> 0 \<le> d)"

text \<open>
  The target and the number of threads that have passed the tests of registration but not yet
  taken the mutex; there are never more than \<open>n\<close> of them. Other threads use the debug API,
  too: it changes the debug unit and gives its mutex back.
\<close>

inductive monitor_step :: "host \<Rightarrow> debug_hardware \<Rightarrow> 'c jtag_cable \<Rightarrow> nat \<Rightarrow> 'c target \<times> nat \<Rightarrow> 'c target \<times> nat
    \<Rightarrow> bool" for h hw cb n where
  Check: "register_check s \<Longrightarrow> k < n \<Longrightarrow> monitor_step h hw cb n (s, k) (s, Suc k)"
| Register: "fresh_pipes s \<Longrightarrow> register_locked fds s = Some (r, t) \<Longrightarrow> monitor_step h hw cb n (s, Suc k) (t, k)"
| Unregister: "unregister_with_monitor_thread fds s = Some (r, t) \<Longrightarrow> monitor_step h hw cb n (s, k) (t, k)"
| Command: "monitor_step h hw cb n (s, k) (send_command fd cmd s, k)"
| Status: "monitor_step h hw cb n (s, k) (take_status fd s, k)"
| Api: "dbg_access_mutex d = Free \<Longrightarrow> monitor_step h hw cb n (s, k) (s\<lparr>tdbg := d\<rparr>, k)"
| Round: "target_handler h hw cb status ret s = Some t \<Longrightarrow> monitor_step h hw cb n (s, k) (t, k)"

inductive monitor_run :: "host \<Rightarrow> debug_hardware \<Rightarrow> 'c jtag_cable \<Rightarrow> nat \<Rightarrow> 'c target \<times> nat \<Rightarrow> 'c target \<times> nat
    \<Rightarrow> bool" for h hw cb n where
  Start: "monitor_run h hw cb n x x"
| Step: "monitor_run h hw cb n x y \<Longrightarrow> monitor_step h hw cb n y z \<Longrightarrow> monitor_run h hw cb n x z"

lemma conn_fds_keep [simp]:
  "conn_fds (c\<lparr>to_server := x\<rparr>) = conn_fds c" "conn_fds (c\<lparr>to_monitor := y\<rparr>) = conn_fds c"
  by (simp_all add: conn_fds_def)

lemma register_inv:
  assumes "monitor_inv s" "fresh_pipes s" "register_locked fds s = Some (r, t)"
  shows "monitor_inv t \<and> length (connections t) = Suc (length (connections s)) \<and> tdbg t = tdbg s"
proof -
  from assms(2) obtain a b c d ps where p: "pipe_results s = Some (a, b) # Some (c, d) # ps"
    "distinct ([a, b, c, d] @ all_fds s)" "0 \<le> a" "0 \<le> b" "0 \<le> c" "0 \<le> d"
    unfolding fresh_pipes_def by blast
  let ?c = "\<lparr>server_to_monitor_fds = (a, b), monitor_to_server_fds = (c, d), to_monitor = [], to_server = []\<rparr>"
  have m: "\<not> pipes_mutex s" using assms(1) by (simp add: monitor_inv_def)
  then have t: "s\<lparr>pipe_results := ps, connections := connections s @ [?c], pipes_mutex := False\<rparr> = t"
    using assms(3) by (simp add: register_locked_def lock_pipes_def sys_pipe_def unlock_pipes_def p(1))
  have "all_fds t = all_fds s @ [a, b, c, d]" unfolding t [symmetric] by (simp add: all_fds_def conn_fds_def)
  moreover have "told t"
    using assms(1) unfolding t [symmetric] by (auto simp: monitor_inv_def told_def status_char_def)
  moreover have "length (connections t) = Suc (length (connections s))" "\<not> pipes_mutex t" "tdbg t = tdbg s"
    unfolding t [symmetric] by simp_all
  ultimately show ?thesis using p assms(1) unfolding monitor_inv_def by auto
qed

lemma unregister_inv:
  assumes "monitor_inv s" "unregister_with_monitor_thread fds s = Some (r, t)"
  shows "monitor_inv t"
proof (cases "find_connection fds 0 (connections s)")
  case None
  with assms show ?thesis
    by (auto simp: monitor_inv_def unregister_with_monitor_thread_def lock_pipes_def unlock_pipes_def
        all_fds_def told_def status_char_def split: if_splits)
next
  case (Some i)
  then have i: "i < length (connections s)" using find_connection_Some by fastforce
  note drop_connection_subset [OF i] distinct_concat_drop [OF _ i, of conn_fds]
  with assms Some show ?thesis
    by (auto simp: monitor_inv_def unregister_with_monitor_thread_def lock_pipes_def unlock_pipes_def
        all_fds_def told_def status_char_def length_drop_connection split: if_splits)
qed

lemma unregister_frame:
  "unregister_with_monitor_thread fds s = Some (r, t) \<Longrightarrow>
     length (connections t) \<le> length (connections s) \<and> tdbg t = tdbg s"
  by (auto simp: unregister_with_monitor_thread_def lock_pipes_def unlock_pipes_def
      length_drop_connection split: if_splits option.splits)

text \<open>What a command leaves alone.\<close>

definition same_conns :: "'c target \<Rightarrow> 'c target \<Rightarrow> bool" where
  "same_conns s t \<longleftrightarrow> map conn_fds (connections t) = map conn_fds (connections s) \<and> pipes_mutex t = pipes_mutex s"

lemma same_conns_length: "same_conns s t \<Longrightarrow> length (connections t) = length (connections s)"
  unfolding same_conns_def by (metis length_map)

lemma same_conns_inv: "monitor_inv s \<Longrightarrow> same_conns s t \<Longrightarrow> told t \<Longrightarrow> monitor_inv t"
  using same_conns_length [of s t] by (simp add: monitor_inv_def same_conns_def all_fds_def)

lemma notify_same: "same_conns s (notify_listeners str s)"
  by (simp add: same_conns_def notify_listeners_def)

lemma notify_told: "str \<noteq> [] \<Longrightarrow> last str = status_char s \<Longrightarrow> told (notify_listeners str s)"
  by (simp add: told_def notify_listeners_def status_char_def)

lemma stall_cpu_Some:
  "stall_cpu h hw cb stall s = Some t \<Longrightarrow>
     connections t = connections s \<and> pipes_mutex t = pipes_mutex s \<and> target_is_running t = (stall \<le> 0)"
  by (auto simp: stall_cpu_def Let_def split: prod.splits option.splits if_splits)

lemma run_command_same: "run_command h hw cb cmd s = Some t \<Longrightarrow> same_conns s t"
  by (auto simp: run_command_def same_conns_def notify_listeners_def split: if_splits bind_splits
      dest!: stall_cpu_Some)

lemma run_command_told:
  assumes "run_command h hw cb cmd s = Some t" "told s"
  shows "told t"
proof -
  consider "cmd = CHR ''S''" | "cmd = CHR ''U''" | "t = s"
    using assms(1) by (auto simp: run_command_def split: if_splits)
  then show ?thesis
    using assms
    by cases (auto simp: run_command_def status_char_def intro!: notify_told
        split: if_splits bind_splits dest!: stall_cpu_Some)
qed

lemma drop_command:
  assumes "i < length (connections s)"
  shows "same_conns s (s\<lparr>connections := (connections s)[i := (connections s ! i)\<lparr>to_monitor := rest\<rparr>]\<rparr>)"
    and "told s \<Longrightarrow> told (s\<lparr>connections := (connections s)[i := (connections s ! i)\<lparr>to_monitor := rest\<rparr>]\<rparr>)"
proof -
  show "same_conns s (s\<lparr>connections := (connections s)[i := (connections s ! i)\<lparr>to_monitor := rest\<rparr>]\<rparr>)"
    using assms by (simp add: same_conns_def map_update) (metis list_update_id map_update)
  show "told (s\<lparr>connections := (connections s)[i := (connections s ! i)\<lparr>to_monitor := rest\<rparr>]\<rparr>)" if "told s"
    using that assms set_update_subset_insert [of "connections s" i]
    by (fastforce simp: told_def status_char_def)
qed

lemma same_conns_trans: "same_conns s t \<Longrightarrow> same_conns t u \<Longrightarrow> same_conns s u"
  by (simp add: same_conns_def)

lemma serve_connections_same:
  assumes "serve_connections h hw cb ready is s = Some t" "\<forall>i \<in> set is. i < length (connections s)"
  shows "same_conns s t \<and> (told s \<longrightarrow> told t)"
  using assms
proof (induction "is" arbitrary: s)
  case Nil
  then show ?case by (simp add: same_conns_def)
next
  case (Cons i "is")
  let ?c = "connections s ! i"
  show ?case
  proof (cases "fst (server_to_monitor_fds ?c) \<in> set ready")
    case False
    with Cons show ?thesis by (simp add: Let_def)
  next
    case True
    with Cons.prems obtain cmd rest u where c: "to_monitor ?c = cmd # rest"
      and u: "run_command h hw cb cmd (s\<lparr>connections := (connections s)[i := ?c\<lparr>to_monitor := rest\<rparr>]\<rparr>) = Some u"
      and t: "serve_connections h hw cb ready is u = Some t"
      by (auto simp: Let_def split: list.splits bind_splits)
    have "same_conns s u"
      using run_command_same [OF u] drop_command(1) [of i s rest] Cons.prems(2) by (auto intro: same_conns_trans)
    moreover have "told s \<longrightarrow> told u"
      using run_command_told [OF u] drop_command(2) [of i s rest] Cons.prems(2) by auto
    ultimately show ?thesis
      using Cons.IH [OF t] Cons.prems(2) same_conns_length [of s u] by (auto intro: same_conns_trans)
  qed
qed

lemma poll_target_inv:
  assumes "poll_target h hw cb status s = Some t" "monitor_inv s"
  shows "monitor_inv t"
proof -
  let ?m = "\<lambda>d. (s\<lparr>tdbg := d, target_is_running := False, pipes_mutex := True\<rparr>)"
  have told: "told (notify_listeners ''H'' (?m d))" for d
    by (rule notify_told) (simp_all add: status_char_def)
  have "monitor_inv (unlock_pipes (notify_listeners ''H'' (?m d)))" for d
    using told [of d] assms(2)
    by (simp add: monitor_inv_def unlock_pipes_def all_fds_def notify_listeners_def told_def status_char_def comp_def)
  moreover have "monitor_inv (s\<lparr>tdbg := d\<rparr>)" for d
    using assms(2) by (simp add: monitor_inv_def all_fds_def told_def status_char_def)
  moreover have "\<not> pipes_mutex s" using assms(2) by (simp add: monitor_inv_def)
  ultimately show ?thesis
    using assms by (auto simp: poll_target_def lock_pipes_def Let_def split: if_splits prod.splits option.splits)
qed

lemma target_handler_inv:
  assumes "target_handler h hw cb status ret s = Some t" "monitor_inv s"
  shows "monitor_inv t"
proof -
  have m: "\<not> pipes_mutex s" using assms(2) by (simp add: monitor_inv_def)
  then have u: "unlock_pipes (s\<lparr>pipes_mutex := True\<rparr>) = s" by (simp add: unlock_pipes_def)
  show ?thesis
  proof (cases ret)
    case (Select_Ready ready)
    with assms(1) m u obtain v where v: "serve_connections h hw cb ready [0..<length (connections s)]
        (s\<lparr>pipes_mutex := True\<rparr>) = Some v" and t: "t = unlock_pipes v"
      by (auto simp: target_handler_def lock_pipes_def split: bind_splits)
    have "same_conns (s\<lparr>pipes_mutex := True\<rparr>) v \<and> (told (s\<lparr>pipes_mutex := True\<rparr>) \<longrightarrow> told v)"
      by (rule serve_connections_same [OF v]) simp
    moreover have "told (s\<lparr>pipes_mutex := True\<rparr>)"
      using assms(2) by (simp add: monitor_inv_def told_def status_char_def)
    ultimately have "same_conns s t" "told t"
      using m by (simp_all add: t same_conns_def unlock_pipes_def told_def status_char_def)
    with assms(2) show ?thesis by (rule same_conns_inv)
  qed (use assms m u poll_target_inv in \<open>auto simp: target_handler_def lock_pipes_def\<close>)
qed

lemma send_take_inv:
  assumes "monitor_inv s"
  shows "monitor_inv (send_command fd cmd s)" and "monitor_inv (take_status fd s)"
proof -
  have "same_conns s (send_command fd cmd s)" "same_conns s (take_status fd s)"
    by (simp_all add: same_conns_def send_command_def take_status_def if_distrib [of conn_fds] cong: if_cong)
  moreover have "told (send_command fd cmd s)" "told (take_status fd s)"
    using assms by (auto simp: monitor_inv_def told_def send_command_def take_status_def status_char_def last_tl)
  ultimately show "monitor_inv (send_command fd cmd s)" "monitor_inv (take_status fd s)"
    using assms same_conns_inv by blast+
qed

lemma ctrl_gives_back:
  assumes "dbg_access_mutex d = Free"
  shows "\<exists>err d'. dbg_cpu0_write_ctrl h hw cb adr x d = (Some err, d') \<and> dbg_access_mutex d' = Free"
    and "\<exists>err y d'. dbg_cpu0_read_ctrl h hw cb adr x d = ((Some err, y), d') \<and> dbg_access_mutex d' = Free"
proof -
  have "fst (dbg_cpu0_write_ctrl h hw cb adr x d) \<noteq> None \<and> dbg_access_mutex (snd (dbg_cpu0_write_ctrl h hw cb adr x d)) = Free"
    using assms by (cases hw) (auto simp: dbg_cpu0_write_ctrl_def locked_free returned_from_def
        legacy_ctrl_write_def on_chain_def Let_def split_beta)
  then show "\<exists>err d'. dbg_cpu0_write_ctrl h hw cb adr x d = (Some err, d') \<and> dbg_access_mutex d' = Free"
    by (auto simp: prod_eq_iff)
  have "fst (fst (dbg_cpu0_read_ctrl h hw cb adr x d)) \<noteq> None \<and>
      dbg_access_mutex (snd (dbg_cpu0_read_ctrl h hw cb adr x d)) = Free"
    using assms by (cases hw) (auto simp: dbg_cpu0_read_ctrl_def locked_free returned_from_def
        legacy_ctrl_read_def on_chain_def Let_def split_beta)
  then show "\<exists>err y d'. dbg_cpu0_read_ctrl h hw cb adr x d = ((Some err, y), d') \<and> dbg_access_mutex d' = Free"
    by (metis prod.collapse option.exhaust_sel)
qed

definition api_free :: "'c target \<Rightarrow> bool" where
  "api_free s \<longleftrightarrow> dbg_access_mutex (tdbg s) = Free"

lemma run_command_free:
  assumes "run_command h hw cb cmd s = Some t" "api_free s"
  shows "api_free t"
proof -
  have "api_free u" if u: "stall_cpu h hw cb stall s = Some u" for stall u
  proof -
    obtain err d where "dbg_cpu0_write_ctrl h hw cb 0 (if stall > 0 then 1 else 0) (tdbg s) = (Some err, d)"
      "dbg_access_mutex d = Free"
      using ctrl_gives_back(1) assms(2) unfolding api_free_def by blast
    with u show ?thesis by (auto simp: stall_cpu_def api_free_def Let_def)
  qed
  with assms show ?thesis
    by (auto simp: run_command_def notify_listeners_def api_free_def split: if_splits bind_splits)
qed

lemma serve_connections_free:
  "serve_connections h hw cb ready is s = Some t \<Longrightarrow> api_free s \<Longrightarrow> api_free t"
proof (induction "is" arbitrary: s)
  case (Cons i "is")
  show ?case
  proof (cases "fst (server_to_monitor_fds (connections s ! i)) \<in> set ready")
    case True
    with Cons.prems(1) obtain cmd rest u where
      u: "run_command h hw cb cmd (s\<lparr>connections := (connections s)[i := (connections s ! i)\<lparr>to_monitor := rest\<rparr>]\<rparr>) = Some u"
      and t: "serve_connections h hw cb ready is u = Some t"
      by (auto simp: Let_def split: list.splits bind_splits)
    have "api_free u" using run_command_free [OF u] Cons.prems(2) by (simp add: api_free_def)
    with t show ?thesis by (rule Cons.IH)
  qed (use Cons in \<open>simp add: Let_def\<close>)
qed simp

lemma poll_target_keeps:
  assumes "poll_target h hw cb status s = Some t" "api_free s"
  shows "api_free t \<and> length (connections t) = length (connections s)"
proof -
  obtain err y d where "dbg_cpu0_read_ctrl h hw cb 0 status (tdbg s) = ((Some err, y), d)" "dbg_access_mutex d = Free"
    using ctrl_gives_back(2) assms(2) unfolding api_free_def by blast
  with assms show ?thesis
    by (auto simp: poll_target_def lock_pipes_def unlock_pipes_def notify_listeners_def api_free_def Let_def
        split: if_splits bind_splits)
qed

lemma target_handler_keeps:
  assumes "target_handler h hw cb status ret s = Some t" "api_free s" "\<not> pipes_mutex s"
  shows "api_free t \<and> length (connections t) = length (connections s)"
proof -
  have u: "unlock_pipes (s\<lparr>pipes_mutex := True\<rparr>) = s" using assms(3) by (simp add: unlock_pipes_def)
  show ?thesis
  proof (cases ret)
    case (Select_Ready ready)
    with assms u obtain v where v: "serve_connections h hw cb ready [0..<length (connections s)]
        (s\<lparr>pipes_mutex := True\<rparr>) = Some v" and t: "t = unlock_pipes v"
      by (auto simp: target_handler_def lock_pipes_def split: bind_splits)
    have "api_free v" using serve_connections_free [OF v] assms(2) by (simp add: api_free_def)
    moreover have "same_conns (s\<lparr>pipes_mutex := True\<rparr>) v"
      using serve_connections_same [OF v] by simp
    ultimately show ?thesis
      using same_conns_length [of "s\<lparr>pipes_mutex := True\<rparr>" v] by (simp add: t unlock_pipes_def api_free_def)
  qed (use assms u in \<open>auto simp: target_handler_def lock_pipes_def dest: poll_target_keeps\<close>)
qed

text \<open>The invariant of all threads together: each that has passed the tests may add a connection.\<close>

definition threads_inv :: "nat \<Rightarrow> 'c target \<times> nat \<Rightarrow> bool" where
  "threads_inv n x \<longleftrightarrow> monitor_inv (fst x) \<and> api_free (fst x) \<and> snd x \<le> n \<and>
     length (connections (fst x)) + snd x < MAX_MONITOR_CONNECTIONS + n"

lemma monitor_step_inv: "monitor_step h hw cb n x y \<Longrightarrow> threads_inv n x \<Longrightarrow> threads_inv n y"
proof (induction rule: monitor_step.induct)
  case (Check s k) then show ?case by (simp add: threads_inv_def register_check_def)
next
  case (Register s fds r t k)
  then show ?case using register_inv [OF _ Register.hyps] by (simp add: threads_inv_def api_free_def)
next
  case (Unregister fds s r t k)
  then show ?case using unregister_inv [OF _ Unregister.hyps] unregister_frame [OF Unregister.hyps]
    by (simp add: threads_inv_def api_free_def)
next
  case (Command s k fd cmd)
  then show ?case using send_take_inv(1) [of s fd cmd] by (simp add: threads_inv_def api_free_def) (simp add: send_command_def)
next
  case (Status s k fd)
  then show ?case using send_take_inv(2) [of s fd] by (simp add: threads_inv_def api_free_def) (simp add: take_status_def)
next
  case (Api d s k)
  then show ?case by (simp add: threads_inv_def api_free_def monitor_inv_def all_fds_def told_def status_char_def)
next
  case (Round status ret s t k)
  then have "\<not> pipes_mutex s" by (simp add: threads_inv_def monitor_inv_def)
  with Round show ?case
    using target_handler_inv [OF Round.hyps] target_handler_keeps [OF Round.hyps] by (simp add: threads_inv_def)
qed

lemma monitor_run_inv: "monitor_run h hw cb n x y \<Longrightarrow> threads_inv n x \<Longrightarrow> threads_inv n y"
  by (induction rule: monitor_run.induct) (auto intro: monitor_step_inv)

section \<open>Serving one command\<close>

lemma serve_append:
  "serve_connections h hw cb ready (is @ js) s =
     serve_connections h hw cb ready is s \<bind> serve_connections h hw cb ready js"
  by (induction "is" arbitrary: s) (auto simp: Let_def split: list.splits bind_splits)

lemma serve_skip:
  "\<forall>j \<in> set is. fst (server_to_monitor_fds (connections s ! j)) \<notin> set ready \<Longrightarrow>
     serve_connections h hw cb ready is s = Some s"
  by (induction "is") (auto simp: Let_def)

lemma distinct_concat_eq:
  assumes "distinct (concat xss)" "i < length xss" "j < length xss" "x \<in> set (xss ! i)" "x \<in> set (xss ! j)"
  shows "i = j"
  using assms
proof (induction xss arbitrary: i j)
  case (Cons xs xss)
  have "x \<notin> set (xss ! k)" if "k < length xss" "x \<in> set xs" for k
  proof
    assume "x \<in> set (xss ! k)"
    then have "x \<in> set xs \<inter> set (concat xss)" using that by auto
    moreover have "set xs \<inter> set (concat xss) = {}" using Cons.prems(1) by simp
    ultimately show False by blast
  qed
  with Cons show ?case by (cases i; cases j) auto
qed simp

lemma monitor_fd_inj:
  assumes "monitor_inv s" "i < length (connections s)" "j < length (connections s)"
    and "fst (server_to_monitor_fds (connections s ! i)) = fst (server_to_monitor_fds (connections s ! j))"
  shows "i = j"
proof -
  let ?x = "map conn_fds (connections s)"
  have "distinct (concat ?x)" using assms(1) by (simp add: monitor_inv_def all_fds_def)
  moreover have "fst (server_to_monitor_fds (connections s ! i)) \<in> set (?x ! i)"
    "fst (server_to_monitor_fds (connections s ! i)) \<in> set (?x ! j)"
    using assms by (simp_all add: conn_fds_def)
  ultimately show ?thesis using distinct_concat_eq [of ?x i j] assms(2,3) by simp
qed

lemma same_conns_fd:
  assumes "same_conns s t" "j < length (connections s)"
  shows "fst (server_to_monitor_fds (connections t ! j)) = fst (server_to_monitor_fds (connections s ! j))"
proof -
  have "map conn_fds (connections t) ! j = map conn_fds (connections s) ! j"
    using assms(1) by (simp add: same_conns_def)
  then show ?thesis using assms same_conns_length [OF assms(1)] by (simp add: conn_fds_def)
qed

lemma serve_one:
  assumes "monitor_inv s" "i < length (connections s)"
    and c: "to_monitor (connections s ! i) = cmd # rest"
    and fd: "fd = fst (server_to_monitor_fds (connections s ! i))"
  shows "target_handler h hw cb status (Select_Ready [fd]) s =
    map_option unlock_pipes (run_command h hw cb cmd (s\<lparr>pipes_mutex := True,
      connections := (connections s)[i := (connections s ! i)\<lparr>to_monitor := rest\<rparr>]\<rparr>))"
proof -
  let ?n = "length (connections s)" and ?s = "s\<lparr>pipes_mutex := True\<rparr>"
  let ?u = "?s\<lparr>connections := (connections s)[i := (connections s ! i)\<lparr>to_monitor := rest\<rparr>]\<rparr>"
  have up: "[0..<?n] = [0..<i] @ i # [Suc i..<?n]"
    using assms(2) by (metis upt_add_eq_append upt_conv_Cons le_add_same_cancel1 less_imp_le_nat less_imp_add_positive zero_le)
  have other: "fst (server_to_monitor_fds (connections s ! j)) \<noteq> fd" if "j < ?n" "j \<noteq> i" for j
    using monitor_fd_inj [OF assms(1,2) that(1)] that(2) fd by auto
  have "serve_connections h hw cb [fd] [0..<i] ?s = Some ?s"
    using other assms(2) by (intro serve_skip) auto
  moreover have "serve_connections h hw cb [fd] [Suc i..<?n] t = Some t" if "run_command h hw cb cmd ?u = Some t" for t
  proof (rule serve_skip, intro ballI)
    fix j assume j: "j \<in> set [Suc i..<?n]"
    have "same_conns ?u t" using that by (rule run_command_same)
    then have "fst (server_to_monitor_fds (connections t ! j)) = fst (server_to_monitor_fds (connections ?u ! j))"
      using j by (intro same_conns_fd) auto
    also have "\<dots> = fst (server_to_monitor_fds (connections s ! j))" using j by (simp add: nth_list_update)
    finally show "fst (server_to_monitor_fds (connections t ! j)) \<notin> set [fd]" using other [of j] j by simp
  qed
  ultimately have "serve_connections h hw cb [fd] [0..<?n] ?s = run_command h hw cb cmd ?u"
    unfolding up serve_append by (cases "run_command h hw cb cmd ?u") (simp_all add: Let_def fd c)
  moreover have "\<not> pipes_mutex s" using assms(1) by (simp add: monitor_inv_def)
  ultimately show ?thesis
    by (cases "run_command h hw cb cmd ?u") (simp_all add: target_handler_def lock_pipes_def unlock_pipes_def Let_def)
qed

lemma unregister_connection:
  assumes "monitor_inv s" "c \<in> set (connections s)"
  shows "\<exists>t. unregister_with_monitor_thread
      (snd (server_to_monitor_fds c), fst (monitor_to_server_fds c)) s = Some ((-1, -1), t) \<and>
    mset (connections s) = add_mset c (mset (connections t)) \<and> \<not> pipes_mutex t"
proof -
  let ?p = "(snd (server_to_monitor_fds c), fst (monitor_to_server_fds c))"
  have "find_connection ?p 0 (connections s) \<noteq> None"
    using assms(2) unfolding find_connection_None by (auto simp: is_connection_def)
  then obtain i where f: "find_connection ?p 0 (connections s) = Some i" by blast
  note fi = find_connection_Some [OF f]
  obtain j where j: "j < length (connections s)" "connections s ! j = c"
    using assms(2) by (auto simp: in_set_conv_nth)
  have "snd (server_to_monitor_fds c) \<in> set (map conn_fds (connections s) ! i)"
    "snd (server_to_monitor_fds c) \<in> set (map conn_fds (connections s) ! j)"
    using fi j by (simp_all add: conn_fds_def is_connection_def)
  then have "i = j"
    using distinct_concat_eq [of "map conn_fds (connections s)" i j "snd (server_to_monitor_fds c)"] fi j assms(1)
    by (simp add: monitor_inv_def all_fds_def)
  have "snd (server_to_monitor_fds c) \<in> set (all_fds s)" "fst (monitor_to_server_fds c) \<in> set (all_fds s)"
    using assms(2) by (auto simp: all_fds_def conn_fds_def)
  then have "0 \<le> fst ?p" "0 \<le> snd ?p" using assms(1) by (auto simp: monitor_inv_def)
  moreover have "\<not> pipes_mutex s" using assms(1) by (simp add: monitor_inv_def)
  ultimately show ?thesis
    using f fi j \<open>i = j\<close> mset_drop_connection [of j "connections s"]
    by (simp add: unregister_with_monitor_thread_def lock_pipes_def unlock_pipes_def)
qed

section \<open>Properties\<close>

text \<open>
  C14: From a start with no connection on, whatever the servers and the thread do and however their
  steps interleave, the two mutexes are free between the steps, the descriptors of the
  connections are all different and valid, and the last thing each listener has been told is
  the state the monitor has recorded for the CPU. There are at most five connections as long
  as one thread at a time registers. The test for room comes before the mutex: where up to
  \<open>n\<close> threads can be between the two, there are at most \<open>4 + n\<close>, the waiting ones included.
  (The system is assumed to hand out new descriptors.)
\<close>

theorem monitor_keeps_inv:
  assumes "monitor_run h hw cb n (s, 0) (t, k)" "connections s = []" "\<not> pipes_mutex s"
    and "dbg_access_mutex (tdbg s) = Free"
  shows "monitor_inv t \<and> dbg_access_mutex (tdbg t) = Free \<and> k \<le> n \<and>
    length (connections t) + k < MAX_MONITOR_CONNECTIONS + n"
proof -
  have "threads_inv n (s, 0)"
    using assms(2-4) by (simp add: threads_inv_def monitor_inv_def all_fds_def told_def api_free_def const_simps)
  with assms(1) have "threads_inv n (t, k)" by (rule monitor_run_inv)
  then show ?thesis by (simp add: threads_inv_def api_free_def)
qed

definition example_target :: "tap_view board target" where
  "example_target = \<lparr>tdbg = example_dbg, monitor_thread_running = True, target_is_running = True,
     connections = [], pipes_mutex = False, pipe_results = [Some (3, 4), Some (5, 6)],
     hwp_in_use = replicate 8 False\<rparr>"

definition example_connection :: fdstruct where
  "example_connection = \<lparr>server_to_monitor_fds = (3, 4), monitor_to_server_fds = (5, 6),
     to_monitor = [], to_server = []\<rparr>"

lemma example_register:
  "register_with_monitor_thread (-1, -1) example_target =
     Some ((1, 4, 5), example_target\<lparr>pipe_results := [], connections := [example_connection]\<rparr>)"
  by (simp add: register_defs example_target_def lock_pipes_def sys_pipe_def unlock_pipes_def
      const_simps example_connection_def)

text \<open>Two threads pass the tests, one of them goes on.\<close>

theorem monitor_keeps_inv_witness:
  "monitor_inv (example_target\<lparr>pipe_results := [], connections := [example_connection]\<rparr>)"
proof -
  let ?run = "monitor_run x86_64 DBG_HW_ADVANCED example_cable 2"
  have c: "register_check example_target" by (simp add: register_check_def example_target_def const_simps)
  have "fresh_pipes example_target" by (simp add: fresh_pipes_def example_target_def all_fds_def)
  note reg = monitor_step.Register [OF this, where k = 1 and fds = "(-1, -1)"]
  have "register_locked (-1, -1) example_target =
      Some ((1, 4, 5), example_target\<lparr>pipe_results := [], connections := [example_connection]\<rparr>)"
    using example_register c by (simp add: register_with_monitor_thread_def)
  note reg [OF this]
  moreover have "?run (example_target, 0) (example_target, Suc (Suc 0))"
    by (rule monitor_run.Step [OF monitor_run.Step [OF monitor_run.Start monitor_step.Check [OF c]] monitor_step.Check [OF c]])
      simp_all
  ultimately have "?run (example_target, 0) (example_target\<lparr>pipe_results := [], connections := [example_connection]\<rparr>, 1)"
    using monitor_run.Step by (metis One_nat_def)
  from monitor_keeps_inv [OF this] show ?thesis by (simp add: example_target_def example_dbg_def)
qed

text \<open>
  The race. With four connections and two threads that register, both find room before either
  has taken the mutex: the second one writes its descriptors behind the end of the array.
\<close>

lemma registration_race:
  assumes "register_check s" "length (connections s) = 4" "\<not> pipes_mutex s"
    and "pipe_results s = [Some (a, b), Some (c, d), Some (e, f), Some (g, i)]"
    and "distinct ([a, b, c, d, e, f, g, i] @ all_fds s)" "\<forall>fd \<in> {a, b, c, d, e, f, g, i}. 0 \<le> fd"
  shows "\<exists>t. monitor_run h hw cb 2 (s, 0) (t, 0) \<and> length (connections t) = 6"
proof -
  let ?c = "\<lparr>server_to_monitor_fds = (a, b), monitor_to_server_fds = (c, d), to_monitor = [], to_server = []\<rparr>"
  let ?d = "\<lparr>server_to_monitor_fds = (e, f), monitor_to_server_fds = (g, i), to_monitor = [], to_server = []\<rparr>"
  let ?t = "s\<lparr>pipe_results := [Some (e, f), Some (g, i)], connections := connections s @ [?c], pipes_mutex := False\<rparr>"
  let ?u = "s\<lparr>pipe_results := [], connections := connections s @ [?c, ?d], pipes_mutex := False\<rparr>"
  have r: "register_locked fds s = Some ((1, b, c), ?t)" "register_locked fds ?t = Some ((1, f, g), ?u)" for fds
    using assms(3,4) by (simp_all add: register_locked_def lock_pipes_def sys_pipe_def unlock_pipes_def)
  have p: "fresh_pipes s" "fresh_pipes ?t"
    using assms(4-6) by (auto simp: fresh_pipes_def all_fds_def conn_fds_def)
  have "monitor_run h hw cb 2 (s, 0) (s, Suc (Suc 0))"
    by (rule monitor_run.Step [OF monitor_run.Step [OF monitor_run.Start monitor_step.Check] monitor_step.Check])
      (simp_all add: assms(1))
  from monitor_run.Step [OF monitor_run.Step [OF this monitor_step.Register [OF p(1) r(1)]] monitor_step.Register [OF p(2) r(2)]]
  show ?thesis using assms(2) by (intro exI [of _ ?u]) simp
qed

text \<open>
  C21: When a server's stall command is ready, one round of the thread takes it, writes the stall
  bit exactly if the CPU is not known to be stalled already, records the CPU as halted and
  tells every listener.
\<close>

theorem stall_request_served:
  assumes "monitor_inv s" "dbg_access_mutex (tdbg s) = Free" "i < length (connections s)"
    and "to_monitor (connections s ! i) = CHR ''S'' # rest"
  shows "\<exists>t. target_handler h hw cb status
      (Select_Ready [fst (server_to_monitor_fds (connections s ! i))]) s = Some t \<and>
    \<not> target_is_running t \<and> 
    tdbg t = (if target_is_running s then snd (dbg_cpu0_write_ctrl h hw cb 0 1 (tdbg s)) else tdbg s) \<and>
    map to_server (connections t) = map (\<lambda>c. to_server c @ ''H'') (connections s) \<and>
    to_monitor (connections t ! i) = rest"
proof -
  let ?cs = "(connections s)[i := (connections s ! i)\<lparr>to_monitor := rest\<rparr>]"
  have "map to_server ?cs = map to_server (connections s)"
    using assms(3) by (simp add: map_update) (metis list_update_id map_update)
  then have "map (\<lambda>x. x @ ''H'') (map to_server ?cs) = map (\<lambda>x. x @ ''H'') (map to_server (connections s))"
    by (rule arg_cong)
  then have "map (\<lambda>c. to_server c @ ''H'') ?cs = map (\<lambda>c. to_server c @ ''H'') (connections s)"
    by (simp only: map_map comp_def)
  moreover obtain err d where "dbg_cpu0_write_ctrl h hw cb 0 1 (tdbg s) = (Some err, d)"
    using ctrl_gives_back(1) [OF assms(2)] by blast
  ultimately show ?thesis
    using serve_one [OF assms(1,3,4) refl, of h hw cb status] assms(3)
    by (auto simp: run_command_def stall_cpu_def notify_listeners_def unlock_pipes_def comp_def)
qed

text \<open>
  Unregistering with the descriptors that registration has handed out removes that one
  connection and keeps the others, whatever its position, and marks the descriptors.
\<close>

theorem unregister_removes:
  assumes "monitor_inv s" "c \<in> set (connections s)"
  shows "\<exists>t. unregister_with_monitor_thread
      (snd (server_to_monitor_fds c), fst (monitor_to_server_fds c)) s = Some ((-1, -1), t) \<and>
    mset (connections s) = add_mset c (mset (connections t)) \<and> \<not> pipes_mutex t"
  using assms by (rule unregister_connection)

text \<open>
  C34: When a pipe cannot be created, registration returns 0 and keeps the mutex: no later
  registration, unregistration or round of the thread comes back.
\<close>

theorem register_failure_blocks:
  assumes "monitor_thread_running s" "length (connections s) < MAX_MONITOR_CONNECTIONS" "\<not> pipes_mutex s"
    and "pipe_results s = None # ps \<or> pipe_results s = Some p # None # ps"
  shows "\<exists>t. register_with_monitor_thread fds s = Some ((0, fds), t) \<and>
    register_with_monitor_thread fds' t = None \<and> target_handler h hw cb status ret t = None \<and>
    unregister_with_monitor_thread (a, b) t = (if a < 0 \<or> b < 0 then Some ((a, b), t) else None)"
proof -
  obtain rs where r: "register_with_monitor_thread fds s = Some ((0, fds), s\<lparr>pipes_mutex := True, pipe_results := rs\<rparr>)"
    using assms(4)
  proof
    assume "pipe_results s = None # ps"
    then show thesis
      using that [of ps] assms(1-3) by (simp add: register_defs lock_pipes_def sys_pipe_def)
  next
    assume "pipe_results s = Some p # None # ps"
    then show thesis
      using that [of ps] assms(1-3) by (simp add: register_defs lock_pipes_def sys_pipe_def)
  qed
  show ?thesis
    unfolding r using assms(1,2)
    by (simp add: register_defs lock_pipes_def target_handler_def unregister_with_monitor_thread_def)
qed

definition waiting_target :: "tap_view board target" where
  "waiting_target = example_target\<lparr>target_is_running := False,
     connections := [example_connection\<lparr>to_monitor := ''S''\<rparr>]\<rparr>"

lemma waiting_target_inv: "monitor_inv waiting_target"
  by (simp add: waiting_target_def example_target_def example_connection_def monitor_inv_def all_fds_def
      conn_fds_def told_def const_simps)

theorem stall_request_served_witness:
  "\<exists>t. target_handler x86_64 DBG_HW_ADVANCED example_cable 0 (Select_Ready [3]) waiting_target = Some t \<and>
     \<not> target_is_running t \<and> tdbg t = example_dbg \<and> map to_server (connections t) = [''H'']"
  using stall_request_served [OF waiting_target_inv, of 0 "[]" x86_64 DBG_HW_ADVANCED example_cable 0]
  by (auto simp: waiting_target_def example_target_def example_connection_def example_dbg_def)

theorem unregister_removes_witness:
  "\<exists>t. unregister_with_monitor_thread (4, 5) waiting_target = Some ((-1, -1), t) \<and> connections t = []"
  using unregister_removes [OF waiting_target_inv, of "example_connection\<lparr>to_monitor := ''S''\<rparr>"]
  by (auto simp: waiting_target_def example_connection_def)

theorem register_failure_blocks_witness:
  "\<exists>t. register_with_monitor_thread (-1, -1) (example_target\<lparr>pipe_results := [None]\<rparr>) = Some ((0, -1, -1), t) \<and>
     register_with_monitor_thread (-1, -1) t = None"
  using register_failure_blocks [of "example_target\<lparr>pipe_results := [None]\<rparr>" "[]" "(0, 0)" "(-1, -1)" "(-1, -1)"
      x86_64 DBG_HW_ADVANCED example_cable 0 Select_Timeout 0 0]
  by (auto simp: example_target_def const_simps)

end
