(* ===== verification/Rsp_Codec.thy ===== *)
theory Rsp_Codec
  imports Bridge_Prelude
begin

text \<open>
  The text encodings of the remote serial protocol, which \<^verbatim>\<open>rsp-server.c\<close> and
  \<^verbatim>\<open>hwp_server.c\<close> share: hex digits, registers as eight digits, strings as pairs of
  digits, the escapes of binary data and the checksum of a packet. A C string is the list of
  its bytes without the terminating NUL; a value of type \<open>char\<close> is signed, so it is read
  with \<open>sint\<close> where the code passes it to an \<open>int\<close>.
\<close>

definition asc :: "string \<Rightarrow> u8 list" where
  "asc s = map of_char s"

section \<open>Operations\<close>

definition hexchars :: "u8 list" where
  "hexchars = asc ''0123456789abcdef''"

definition hex :: "int \<Rightarrow> int" where
  "hex c =
     (if 0x61 \<le> c \<and> c \<le> 0x66 then c - 0x61 + 10
      else if 0x30 \<le> c \<and> c \<le> 0x39 then c - 0x30
      else if 0x41 \<le> c \<and> c \<le> 0x46 then c - 0x41 + 10 else -1)"

definition reg2hex :: "u64 \<Rightarrow> u8 list" where
  "reg2hex val = map (\<lambda>n. hexchars ! unat (drop_bit (28 - n * 4) val AND 0xf)) [0..<8]"

text \<open>The digit is shifted as an int, and the result is sign-extended when it meets
  \<open>val\<close>.\<close>

definition hex2reg :: "(nat \<Rightarrow> u8) \<Rightarrow> u64" where
  "hex2reg buf = fold (\<lambda>n val. val OR scast (push_bit (28 - n * 4) (word_of_int (hex (sint (buf n))) :: u32)))
     [0..<8] 0"

fun ascii2hex :: "u8 list \<Rightarrow> u8 list" where
  "ascii2hex [] = []"
| "ascii2hex (ch # src) =
     hexchars ! unat (drop_bit 4 ch AND 0xf) # hexchars ! unat (ch AND 0xf) # ascii2hex src"

definition hex_pair :: "u8 \<Rightarrow> u8 \<Rightarrow> u8" where
  "hex_pair a b = push_bit 4 (word_of_int (hex (sint a)) AND 0xf) OR (word_of_int (hex (sint b)) AND 0xf)"

fun hex2ascii :: "u8 list \<Rightarrow> u8 list" where
  "hex2ascii (a # b # src) = hex_pair a b # hex2ascii src"
| "hex2ascii src = []"

text \<open>\<open>rsp_unescape\<close> on the \<open>len\<close> bytes of \<open>data\<close>; \<open>behind\<close> is the byte at \<open>data[len]\<close>, which is
  read when the last byte is the escape character.\<close>

fun rsp_unescape :: "u8 \<Rightarrow> u8 list \<Rightarrow> u8 list" where
  "rsp_unescape behind [] = []"
| "rsp_unescape behind [c] = [if c = 0x7d then behind XOR 0x20 else c]"
| "rsp_unescape behind (c # d # data) =
     (if c = 0x7d then (d XOR 0x20) # rsp_unescape behind data else c # rsp_unescape behind (d # data))"

text \<open>The body of a packet: the bytes \<open>put_packet\<close> sends for the data.\<close>

definition needs_escape :: "u8 \<Rightarrow> bool" where
  "needs_escape ch \<longleftrightarrow> ch = 0x24 \<or> ch = 0x23 \<or> ch = 0x2a \<or> ch = 0x7d"

fun rsp_escape :: "u8 list \<Rightarrow> u8 list" where
  "rsp_escape [] = []"
| "rsp_escape (ch # data) =
     (if needs_escape ch then 0x7d # (ch XOR 0x20) # rsp_escape data else ch # rsp_escape data)"

definition checksum_of :: "u8 list \<Rightarrow> u8" where
  "checksum_of bs = sum_list bs"

definition checksum_digits :: "u8 \<Rightarrow> u8 list" where
  "checksum_digits checksum =
     [hexchars ! unat (drop_bit 4 checksum), hexchars ! (unat checksum mod 16)]"

definition packet_bytes :: "u8 list \<Rightarrow> u8 list" where
  "packet_bytes data = 0x24 # rsp_escape data @ 0x23 # checksum_digits (checksum_of (rsp_escape data))"

section \<open>Digits\<close>

lemma hexchars_list: "hexchars = [0x30, 0x31, 0x32, 0x33, 0x34, 0x35, 0x36, 0x37, 0x38, 0x39,
    0x61, 0x62, 0x63, 0x64, 0x65, 0x66]"
  by (simp add: hexchars_def asc_def)

lemma length_hexchars [simp]: "length hexchars = 16"
  by (simp add: hexchars_list)

lemma hexchars_table: "list_all (\<lambda>n. hex (sint (hexchars ! n)) = int n \<and> hex (uint (hexchars ! n)) = int n
    \<and> hexchars ! n \<notin> {0, 0x24, 0x23, 0x2a, 0x7d}) [0..<16]"
  by code_simp

lemma hex_digit:
  assumes "n < 16"
  shows "hex (sint (hexchars ! n)) = int n" and "hex (uint (hexchars ! n)) = int n"
    and "hexchars ! n \<notin> {0, 0x24, 0x23, 0x2a, 0x7d}"
  using hexchars_table assms by (simp_all add: list_all_iff)

lemma hex_range: "-1 \<le> hex c" "hex c < 16"
  by (auto simp: hex_def)

lemma unat_and_15: "unat (x AND (0xf :: 'a::len word)) < 16" if "4 \<le> LENGTH('a)"
proof -
  have "x AND 0xf = take_bit 4 x"
  proof -
    have "(0xf :: 'a word) = mask 4" by (simp add: mask_eq_exp_minus_1)
    then show ?thesis by (simp add: take_bit_eq_mask)
  qed
  then have "unat (x AND 0xf) = take_bit 4 (unat x)" by (simp add: unsigned_take_bit_eq)
  also have "\<dots> < 2 ^ 4" by (rule take_bit_nat_less_exp)
  finally show ?thesis by simp
qed


lemma and_15: "x AND (0xf :: u8) = take_bit 4 x" "y AND (0xf :: u64) = take_bit 4 y"
  by (simp_all add: take_bit_eq_mask mask_eq_exp_minus_1)

lemma word_digit:
  "n < 16 \<Longrightarrow> (word_of_int (hex (sint (hexchars ! n))) :: 'a::len word) = of_nat n"
  by (simp add: hex_digit)

lemma of_nat_unat_ucast: "(of_nat (unat (w :: 'a::len word)) :: 'b::len word) = ucast w"
  by simp

lemma digit_nibble: "word_of_int (hex (sint (hexchars ! unat (w AND (0xf :: u8))))) AND 0xf = take_bit 4 w"
proof -
  have "(word_of_int (hex (sint (hexchars ! unat (w AND 0xf)))) :: u8) = of_nat (unat (w AND 0xf))"
    by (rule word_digit) (simp add: unat_and_15)
  also have "\<dots> = w AND 0xf" by simp
  finally show ?thesis by (simp only: and.assoc and.idem) (simp only: and_15)
qed

lemma hex_pair_digits: "hex_pair (hexchars ! unat (drop_bit 4 ch AND 0xf)) (hexchars ! unat (ch AND 0xf)) = ch"
  unfolding hex_pair_def digit_nibble by (intro bit_word_eqI) (auto simp: bit_simps)

lemma hexchars_not_nul: "hexchars ! unat (ch AND (0xf :: u8)) \<noteq> 0"
  using hex_digit(3) [OF unat_and_15 [of ch]] by simp

lemma hex2ascii_ascii2hex: "hex2ascii (ascii2hex bs) = bs"
  by (induction bs) (simp_all add: hex_pair_digits)

lemma ascii2hex_no_nul: "0 \<notin> set (ascii2hex bs)"
  by (induction bs) (simp_all add: hexchars_not_nul [symmetric])

lemma length_reg2hex [simp]: "length (reg2hex val) = 8"
  by (simp add: reg2hex_def)

lemma bit_fold_or:
  "bit (fold (\<lambda>n val. val OR f n) ns (v :: 'a::len word)) i \<longleftrightarrow> bit v i \<or> (\<exists>n\<in>set ns. bit (f n) i)"
  by (induction ns arbitrary: v) (auto simp: bit_or_iff)

lemma hex2reg_reg2hex:
  assumes "\<And>n. n < 8 \<Longrightarrow> buf n = reg2hex val ! n"
  shows "(ucast (hex2reg buf) :: u32) = ucast val"
proof (rule bit_word_eqI)
  fix i assume "i < LENGTH(32)"
  then have i: "i < 32" by simp
  have digit: "bit (scast (push_bit (28 - n * 4) (word_of_int (hex (sint (buf n))) :: u32)) :: u64) i
      \<longleftrightarrow> 28 - n * 4 \<le> i \<and> i < 32 - n * 4 \<and> bit val i" if "n < 8" for n
  proof -
    have "(word_of_int (hex (sint (buf n))) :: u32) = of_nat (unat (drop_bit (28 - n * 4) val AND 0xf))"
      using that unat_and_15 [of "drop_bit (28 - n * 4) val"]
      by (simp add: assms reg2hex_def hex_digit)
    then have "(word_of_int (hex (sint (buf n))) :: u32) = ucast (take_bit 4 (drop_bit (28 - n * 4) val))"
      by (simp add: and_15)
    moreover have "min i 31 = i" using i by simp
    ultimately show ?thesis
      using i that by (auto simp: bit_signed_iff bit_push_bit_iff bit_unsigned_iff bit_take_bit_iff
          bit_drop_bit_eq)
  qed
  have "(\<exists>n\<in>set [0..<8]. 28 - n * 4 \<le> i \<and> i < 32 - n * 4 \<and> bit val i) \<longleftrightarrow> bit val i"
    using i by (auto intro!: bexI [of _ "7 - i div 4"])
  then have "bit (hex2reg buf) i \<longleftrightarrow> bit val i"
    unfolding hex2reg_def bit_fold_or using digit by auto
  then show "bit (ucast (hex2reg buf) :: u32) i = bit (ucast val :: u32) i"
    using i by (simp add: bit_unsigned_iff)
qed

section \<open>Escapes and checksums\<close>

lemma escape_char: "needs_escape c \<Longrightarrow> c XOR 0x20 \<notin> {0x24, 0x23}"
  "c XOR 0x20 XOR 0x20 = (c :: u8)"
  by (auto simp: needs_escape_def xor.assoc)

lemma escape_special: "0x24 \<notin> set (rsp_escape bs)" "0x23 \<notin> set (rsp_escape bs)"
  by (induction bs) (use escape_char(1) in \<open>auto simp: needs_escape_def\<close>)

lemma rsp_unescape_Cons:
  "rsp_unescape b (c # cs) = (if c = 0x7d then ((if cs = [] then b else hd cs) XOR 0x20) # rsp_unescape b (tl cs)
     else c # rsp_unescape b cs)"
  by (cases cs) simp_all

lemma rsp_unescape_escape: "rsp_unescape b (rsp_escape bs) = bs"
  by (induction bs) (simp_all add: rsp_unescape_Cons escape_char needs_escape_def del: rsp_unescape.simps(2,3))

lemma length_rsp_escape: "length bs \<le> length (rsp_escape bs)" "length (rsp_escape bs) \<le> 2 * length bs"
  by (induction bs) auto

lemma length_rsp_unescape: "length (rsp_unescape b bs) \<le> length bs"
  by (induction b bs rule: rsp_unescape.induct) auto

lemma checksum_digits_value:
  assumes "checksum_digits c = [a, b]"
  shows "word_of_int (hex (uint a) * 16) + word_of_int (hex (uint b)) = (c :: u8)"
proof -
  have c: "unat c < 256" using unsigned_less [of c, where 'a = nat] by simp
  have "unat (drop_bit 4 c) = unat c div 16" by (simp add: drop_bit_eq_div unat_div)
  with assms c have "hex (uint a) = int (unat c div 16)" "hex (uint b) = int (unat c mod 16)"
    by (auto simp: checksum_digits_def hex_digit)
  then have "hex (uint a) * 16 + hex (uint b) = int (unat c)" by presburger
  then have "(word_of_int (hex (uint a) * 16) + word_of_int (hex (uint b)) :: u8) = word_of_int (int (unat c))"
    by (simp only: wi_hom_add)
  then show ?thesis by simp
qed

end
