(* ===== verification/Rsp_Link.thy ===== *)
theory Rsp_Link
  imports Rsp_Codec
begin

text \<open>
  Packets over a client socket, as \<^verbatim>\<open>rsp-server.c\<close> and \<^verbatim>\<open>hwp_server.c\<close> exchange them. The
  two files hold the same routines; they differ in the size of the buffer, in the break
  character, which only the GDB server knows, and in what closing the client involves, so
  these three are parameters here and the servers fix them.

  The socket is the list of the results its future \<open>read\<close> and \<open>write\<close> calls give. An empty
  list of reads means that nothing arrives any more: the descriptor is not blocking, the
  routine polls for ever, and its value is None. An empty list of writes means that every
  write succeeds. The static buffer that \<open>get_packet\<close> fills is part of the state, because
  its old contents are still there behind a shorter packet.
\<close>

datatype rd_event = Rd_Byte u8 | Rd_Again | Rd_Error | Rd_Eof
datatype wr_event = Wr_Ok | Wr_Again | Wr_Zero | Wr_Error

record rsp_buf =
  buf_data :: "nat \<Rightarrow> u8"
  buf_len :: nat

record link =
  client_fd :: int
  client_in :: "rd_event list"
  client_wr :: "wr_event list"
  client_out :: "u8 list"
  pkt_buf :: rsp_buf

section \<open>Operations\<close>

fun read_loop :: "rd_event list \<Rightarrow> (int \<times> rd_event list) option" where
  "read_loop [] = None"
| "read_loop (Rd_Byte c # es) = Some (uint c, es)"
| "read_loop (Rd_Again # es) = read_loop es"
| "read_loop (Rd_Error # es) = Some (-1, es)"
| "read_loop (Rd_Eof # es) = Some (-1, es)"

definition get_char :: "('a link_scheme \<Rightarrow> 'a link_scheme option) \<Rightarrow> 'a link_scheme
    \<Rightarrow> (int \<times> 'a link_scheme) option" where
  "get_char close s =
     (if client_fd s = -1 then Some (-1, s)
      else do {
        (c, es) \<leftarrow> read_loop (client_in s);
        let s = s\<lparr>client_in := es\<rparr>;
        if c = -1 then do { s \<leftarrow> close s; Some (-1, s) } else Some (c, s) })"

fun write_loop :: "wr_event list \<Rightarrow> bool \<times> wr_event list" where
  "write_loop [] = (True, [])"
| "write_loop (Wr_Ok # es) = (True, es)"
| "write_loop (Wr_Again # es) = write_loop es"
| "write_loop (Wr_Zero # es) = write_loop es"
| "write_loop (Wr_Error # es) = (False, es)"

definition put_char :: "('a link_scheme \<Rightarrow> 'a link_scheme option) \<Rightarrow> u8 \<Rightarrow> 'a link_scheme
    \<Rightarrow> 'a link_scheme option" where
  "put_char close c s =
     (if client_fd s = -1 then Some s
      else let (ok, es) = write_loop (client_wr s); s = s\<lparr>client_wr := es\<rparr>
           in if ok then Some (s\<lparr>client_out := client_out s @ [c]\<rparr>) else close s)"

text \<open>The body of a packet: the escaped characters go out one by one, and the checksum is kept
  on the way.\<close>

fun put_body :: "('a link_scheme \<Rightarrow> 'a link_scheme option) \<Rightarrow> u8 list \<Rightarrow> u8 \<Rightarrow> 'a link_scheme
    \<Rightarrow> (u8 \<times> 'a link_scheme) option" where
  "put_body close [] checksum s = Some (checksum, s)"
| "put_body close (ch # data) checksum s =
     (if needs_escape ch then do {
        let ch = ch XOR 0x20;
        let checksum = checksum + 0x7d;
        s \<leftarrow> put_char close 0x7d s;
        let checksum = checksum + ch;
        s \<leftarrow> put_char close ch s;
        put_body close data checksum s }
      else do {
        let checksum = checksum + ch;
        s \<leftarrow> put_char close ch s;
        put_body close data checksum s })"

partial_function (option) put_packet :: "('a link_scheme \<Rightarrow> 'a link_scheme option) \<Rightarrow> u8 list
    \<Rightarrow> 'a link_scheme \<Rightarrow> 'a link_scheme option" where
  "put_packet close data s = do {
     s \<leftarrow> put_char close 0x24 s;
     (checksum, s) \<leftarrow> put_body close data 0 s;
     s \<leftarrow> put_char close 0x23 s;
     s \<leftarrow> put_char close (hexchars ! unat (drop_bit 4 checksum)) s;
     s \<leftarrow> put_char close (hexchars ! (unat checksum mod 16)) s;
     (ch, s) \<leftarrow> get_char close s;
     if ch = -1 then Some s
     else if ch \<noteq> 0x2b then put_packet close data s
     else Some s }"

definition put_str_packet :: "nat \<Rightarrow> ('a link_scheme \<Rightarrow> 'a link_scheme option) \<Rightarrow> u8 list
    \<Rightarrow> 'a link_scheme \<Rightarrow> 'a link_scheme option" where
  "put_str_packet buf_max close str s =
     (let n = (if length str \<ge> buf_max then buf_max - 1 else length str)
      in put_packet close (take n str) s)"

text \<open>Reading a packet: wait for its start, collect its body, check its end.\<close>

partial_function (option) wait_start :: "bool \<Rightarrow> ('a link_scheme \<Rightarrow> 'a link_scheme option)
    \<Rightarrow> 'a link_scheme \<Rightarrow> (int \<times> 'a link_scheme) option" where
  "wait_start brk close s = do {
     (ch, s) \<leftarrow> get_char close s;
     if ch = 0x24 then Some (ch, s)
     else if ch = -1 then Some (ch, s)
     else if brk \<and> ch = 0x03 then Some (ch, s)
     else wait_start brk close s }"

definition store_char :: "nat \<Rightarrow> u8 \<Rightarrow> 'a link_scheme \<Rightarrow> 'a link_scheme" where
  "store_char i c s = s\<lparr>pkt_buf := (pkt_buf s)\<lparr>buf_data := (buf_data (pkt_buf s))(i := c)\<rparr>\<rparr>"

definition set_len :: "nat \<Rightarrow> 'a link_scheme \<Rightarrow> 'a link_scheme" where
  "set_len n s = s\<lparr>pkt_buf := (pkt_buf s)\<lparr>buf_len := n\<rparr>\<rparr>"

partial_function (option) read_body :: "nat \<Rightarrow> ('a link_scheme \<Rightarrow> 'a link_scheme option)
    \<Rightarrow> int \<Rightarrow> u8 \<Rightarrow> nat \<Rightarrow> 'a link_scheme \<Rightarrow> ((int \<times> u8 \<times> nat) \<times> 'a link_scheme) option" where
  "read_body buf_max close ch checksum count s =
     (if count < buf_max - 1 then do {
        (ch, s) \<leftarrow> get_char close s;
        if ch = -1 then Some ((ch, checksum, count), s)
        else if ch = 0x24 then read_body buf_max close ch 0 0 s
        else if ch = 0x23 then Some ((ch, checksum, count), s)
        else read_body buf_max close ch (checksum + word_of_int ch) (count + 1)
          (store_char count (word_of_int ch) s) }
      else Some ((ch, checksum, count), s))"

text \<open>The result is False for the NULL pointer, True for the buffer.\<close>

partial_function (option) get_packet :: "nat \<Rightarrow> bool \<Rightarrow> ('a link_scheme \<Rightarrow> 'a link_scheme option)
    \<Rightarrow> 'a link_scheme \<Rightarrow> (bool \<times> 'a link_scheme) option" where
  "get_packet buf_max brk close s = do {
     (ch, s) \<leftarrow> wait_start brk close s;
     if ch = -1 then Some (False, s)
     else if brk \<and> ch = 0x03 then Some (True, set_len 1 (store_char 0 (word_of_int ch) s))
     else do {
       ((ch, checksum, count), s) \<leftarrow> read_body buf_max close ch 0 0 s;
       if ch = -1 then Some (False, s)
       else do {
         let s = set_len count (store_char count 0 s);
         if ch = 0x23 then do {
           (ch, s) \<leftarrow> get_char close s;
           if ch = -1 then Some (False, s)
           else do {
             let xmitcsum = (word_of_int (hex ch * 16) :: u8);
             (ch, s) \<leftarrow> get_char close s;
             if ch = -1 then Some (False, s)
             else do {
               let xmitcsum = xmitcsum + word_of_int (hex ch);
               if checksum \<noteq> xmitcsum then do {
                 s \<leftarrow> put_char close 0x2d s;
                 get_packet buf_max brk close s }
               else do {
                 s \<leftarrow> put_char close 0x2b s;
                 Some (True, s) } } } }
         else get_packet buf_max brk close s } } }"

text \<open>The buffer as the handlers see it: the bytes of the packet, and the C string at its start.
  The string ends inside the packet or at its end, where \<open>get_packet\<close> has put a NUL.\<close>

definition pkt :: "'a link_scheme \<Rightarrow> u8 list" where
  "pkt s = map (buf_data (pkt_buf s)) [0..<buf_len (pkt_buf s)]"

definition pkt_str :: "'a link_scheme \<Rightarrow> u8 list" where
  "pkt_str s = takeWhile (\<lambda>c. c \<noteq> 0) (pkt s)"

text \<open>A handler that reuses the buffer for its reply.\<close>

definition overwrite :: "u8 list \<Rightarrow> (nat \<Rightarrow> u8) \<Rightarrow> nat \<Rightarrow> u8" where
  "overwrite bs d = (\<lambda>i. if i < length bs then bs ! i else d i)"

definition reply_in_buf :: "u8 list \<Rightarrow> 'a link_scheme \<Rightarrow> 'a link_scheme" where
  "reply_in_buf bs s = s\<lparr>pkt_buf := \<lparr>buf_data = overwrite (bs @ [0]) (buf_data (pkt_buf s)),
     buf_len = length bs\<rparr>\<rparr>"

section \<open>An open client\<close>

named_theorems link_simps

lemma uint_byte_eq: "uint (c :: u8) = 0x24 \<longleftrightarrow> c = 0x24" "uint c = 0x23 \<longleftrightarrow> c = 0x23" "uint c = 3 \<longleftrightarrow> c = 3"
  "uint c = 0x2b \<longleftrightarrow> c = 0x2b" "uint c \<noteq> -1"
proof -
  have "uint c = uint d \<longleftrightarrow> c = d" for d :: u8 by (simp add: word_uint_eq_iff)
  from this [of "0x24"] this [of "0x23"] this [of 3] this [of "0x2b"]
  show "uint (c :: u8) = 0x24 \<longleftrightarrow> c = 0x24" "uint c = 0x23 \<longleftrightarrow> c = 0x23" "uint c = 3 \<longleftrightarrow> c = 3"
  "uint c = 0x2b \<longleftrightarrow> c = 0x2b" by simp_all
  show "uint c \<noteq> -1" using unsigned_greater_eq [of c, where 'a = int] by linarith
qed

lemma get_char_byte [link_simps]:
  "client_fd s \<noteq> -1 \<Longrightarrow> client_in s = Rd_Byte c # es \<Longrightarrow>
     get_char close s = Some (uint c, s\<lparr>client_in := es\<rparr>)"
  by (simp add: get_char_def uint_byte_eq)

lemma put_char_ok [link_simps]:
  "client_fd s \<noteq> -1 \<Longrightarrow> client_wr s = [] \<Longrightarrow>
     put_char close c s = Some (s\<lparr>client_out := client_out s @ [c]\<rparr>)"
  by (simp add: put_char_def)

lemma put_body_ok:
  "client_fd s \<noteq> -1 \<Longrightarrow> client_wr s = [] \<Longrightarrow>
     put_body close data cs s =
       Some (cs + checksum_of (rsp_escape data), s\<lparr>client_out := client_out s @ rsp_escape data\<rparr>)"
  by (induction data arbitrary: cs s) (simp_all add: link_simps checksum_of_def add.assoc Let_def)

lemma link_commute [link_simps]:
  "s\<lparr>client_out := out, client_in := es\<rparr> = s\<lparr>client_in := es, client_out := out\<rparr>"
  "s\<lparr>pkt_buf := b, client_in := es\<rparr> = s\<lparr>client_in := es, pkt_buf := b\<rparr>"
  "s\<lparr>pkt_buf := b, client_out := out\<rparr> = s\<lparr>client_out := out, pkt_buf := b\<rparr>"
  by simp_all

lemma put_packet_step:
  assumes "client_fd s \<noteq> -1" "client_wr s = []" "client_in s = Rd_Byte a # es"
  shows "put_packet close data s =
    (let s = s\<lparr>client_in := es, client_out := client_out s @ packet_bytes data\<rparr>
     in if a = 0x2b then Some s else put_packet close data s)"
  by (subst put_packet.simps)
    (simp add: assms link_simps put_body_ok uint_byte_eq packet_bytes_def checksum_digits_def Let_def)

lemma put_packet_resends:
  assumes "client_fd s \<noteq> -1" "client_wr s = []" "client_in s = map Rd_Byte naks @ Rd_Byte 0x2b # es"
    and "0x2b \<notin> set naks"
  shows "put_packet close data s = Some (s\<lparr>client_in := es, client_out := client_out s @
    concat (replicate (Suc (length naks)) (packet_bytes data))\<rparr>)"
  using assms
proof (induction naks arbitrary: s)
  case Nil
  then show ?case using put_packet_step [of s "0x2b" es] by (simp add: Let_def)
next
  case (Cons a naks)
  then show ?case using put_packet_step [of s a "map Rd_Byte naks @ Rd_Byte 0x2b # es"] by (auto simp: Let_def)
qed

definition place :: "nat \<Rightarrow> u8 list \<Rightarrow> (nat \<Rightarrow> u8) \<Rightarrow> nat \<Rightarrow> u8" where
  "place i bs d = (\<lambda>j. if i \<le> j \<and> j < i + length bs then bs ! (j - i) else d j)"

definition store_at :: "nat \<Rightarrow> u8 list \<Rightarrow> 'a link_scheme \<Rightarrow> 'a link_scheme" where
  "store_at i bs s = s\<lparr>pkt_buf := (pkt_buf s)\<lparr>buf_data := place i bs (buf_data (pkt_buf s))\<rparr>\<rparr>"

lemma place_Nil: "place i [] d = d"
  by (auto simp: place_def fun_eq_iff)

lemma place_Cons: "place (Suc i) bs (d(i := b)) = place i (b # bs) d"
  by (auto simp: place_def fun_eq_iff nth_Cons' not_less_eq_eq)

lemma store_at_Nil: "store_at i [] s = s"
  by (simp add: store_at_def place_Nil)

lemma store_at_Cons: "store_at (Suc i) bs (store_char i b s) = store_at i (b # bs) s"
  by (simp add: store_at_def store_char_def place_Cons)

lemma read_body_bytes:
  assumes "client_fd s \<noteq> -1" "client_in s = map Rd_Byte bs @ Rd_Byte 0x23 # es"
    and "0x24 \<notin> set bs" "0x23 \<notin> set bs" "count + length bs < buf_max - 1"
  shows "read_body buf_max close ch cs count s =
    Some ((0x23, cs + checksum_of bs, count + length bs), (store_at count bs s)\<lparr>client_in := es\<rparr>)"
  using assms
proof (induction bs arbitrary: s ch cs count)
  case Nil
  then show ?case
    by (subst read_body.simps) (simp add: link_simps checksum_of_def store_at_Nil)
next
  case (Cons b bs)
  let ?t = "store_char count b (s\<lparr>client_in := map Rd_Byte bs @ Rd_Byte 0x23 # es\<rparr>)"
  have "read_body buf_max close ch cs count s = read_body buf_max close (uint b) (cs + b) (Suc count) ?t"
    using Cons.prems by (subst read_body.simps) (simp add: link_simps uint_byte_eq)
  also have "\<dots> = Some ((0x23, cs + b + checksum_of bs, Suc count + length bs),
      (store_at (Suc count) bs ?t)\<lparr>client_in := es\<rparr>)"
    using Cons.prems by (intro Cons.IH) (simp_all add: store_char_def)
  finally show ?case
    by (simp only: store_at_Cons) (simp add: checksum_of_def add.assoc store_at_def)
qed

text \<open>A frame around a body, with the checksum as given.\<close>

definition framed :: "u8 list \<Rightarrow> u8 list \<Rightarrow> u8 list" where
  "framed body digits = 0x24 # body @ 0x23 # digits"

definition plain_body :: "nat \<Rightarrow> u8 list \<Rightarrow> bool" where
  "plain_body buf_max bs \<longleftrightarrow> 0x24 \<notin> set bs \<and> 0x23 \<notin> set bs \<and> length bs < buf_max - 1"

definition digits_value :: "u8 \<Rightarrow> u8 \<Rightarrow> u8" where
  "digits_value a b = word_of_int (hex (uint a) * 16) + word_of_int (hex (uint b))"

definition packet_stored :: "u8 list \<Rightarrow> 'a link_scheme \<Rightarrow> 'a link_scheme" where
  "packet_stored bs s = set_len (length bs) (store_char (length bs) 0 (store_at 0 bs s))"

lemma get_packet_frame:
  assumes "client_fd s \<noteq> -1" "client_wr s = []" "plain_body buf_max bs"
    and "client_in s = map Rd_Byte (framed bs [a, b]) @ es"
  shows "get_packet buf_max brk close s =
    (let s = (packet_stored bs s)\<lparr>client_in := es\<rparr>
     in if checksum_of bs = digits_value a b then Some (True, s\<lparr>client_out := client_out s @ [0x2b]\<rparr>)
        else get_packet buf_max brk close (s\<lparr>client_out := client_out s @ [0x2d]\<rparr>))"
proof -
  let ?s1 = "s\<lparr>client_in := map Rd_Byte bs @ Rd_Byte 0x23 # Rd_Byte a # Rd_Byte b # es\<rparr>"
  have w: "wait_start brk close s = Some (0x24, ?s1)"
    using assms by (subst wait_start.simps) (simp add: link_simps framed_def)
  have r: "read_body buf_max close 0x24 0 0 ?s1 =
      Some ((0x23, checksum_of bs, length bs), (store_at 0 bs s)\<lparr>client_in := Rd_Byte a # Rd_Byte b # es\<rparr>)"
    using assms by (subst read_body_bytes) (auto simp: plain_body_def store_at_def)
  show ?thesis
    using assms(1,2)
    by (subst get_packet.simps)
      (simp add: w r link_simps uint_byte_eq set_len_def store_char_def store_at_def packet_stored_def digits_value_def Let_def)
qed

lemma packet_stored_simps [simp]:
  "client_fd (packet_stored bs s) = client_fd s" "client_wr (packet_stored bs s) = client_wr s"
  "client_out (packet_stored bs s) = client_out s" "client_in (packet_stored bs s) = client_in s"
  "pkt (packet_stored bs s) = bs" "buf_data (pkt_buf (packet_stored bs s)) (length bs) = 0"
  "packet_stored bs (s\<lparr>client_in := es\<rparr>) = (packet_stored bs s)\<lparr>client_in := es\<rparr>"
  by (auto simp: packet_stored_def set_len_def store_char_def store_at_def pkt_def place_def intro: nth_equalityI)

definition damaged :: "nat \<Rightarrow> u8 list \<times> u8 \<times> u8 \<Rightarrow> bool" where
  "damaged buf_max = (\<lambda>(bs, a, b). plain_body buf_max bs \<and> checksum_of bs \<noteq> digits_value a b)"

definition frame_of :: "u8 list \<times> u8 \<times> u8 \<Rightarrow> u8 list" where
  "frame_of = (\<lambda>(bs, a, b). framed bs [a, b])"

lemma get_packet_after_damage:
  assumes "client_fd s \<noteq> -1" "client_wr s = []" "list_all (damaged buf_max) bad" "plain_body buf_max bs"
    and "checksum_of bs = digits_value a b"
    and "client_in s = map Rd_Byte (concat (map frame_of bad) @ framed bs [a, b]) @ es"
  shows "\<exists>t. get_packet buf_max brk close s = Some (True, t) \<and> pkt t = bs \<and>
    client_in t = es \<and> client_out t = client_out s @ replicate (length bad) 0x2d @ [0x2b] \<and>
    buf_len (pkt_buf t) = length bs \<and> buf_data (pkt_buf t) (length bs) = 0"
  using assms
proof (induction bad arbitrary: s)
  case Nil
  then show ?case
    using get_packet_frame [of s buf_max bs a b es brk close]
    by (auto simp: Let_def pkt_def packet_stored_def set_len_def store_char_def store_at_def place_def intro: nth_equalityI)
next
  case (Cons f bad)
  obtain ds c d where f: "f = (ds, c, d)" by (cases f)
  let ?es = "map Rd_Byte (concat (map frame_of bad) @ framed bs [a, b]) @ es"
  let ?t = "(packet_stored ds s)\<lparr>client_in := ?es, client_out := client_out s @ [0x2d]\<rparr>"
  have "get_packet buf_max brk close s = get_packet buf_max brk close ?t"
    using get_packet_frame [of s buf_max ds c d ?es brk close] Cons.prems
    by (simp add: f damaged_def frame_of_def Let_def)
  moreover have "client_fd ?t \<noteq> -1" "client_wr ?t = []" "client_in ?t = ?es"
    using Cons.prems by simp_all
  note Cons.IH [OF this(1,2) _ Cons.prems(4,5) this(3)]
  ultimately show ?case using Cons.prems(3) by simp
qed

lemma packet_bytes_framed:
  "\<exists>a b. packet_bytes data = framed (rsp_escape data) [a, b] \<and> checksum_of (rsp_escape data) = digits_value a b"
proof -
  let ?d = "checksum_digits (checksum_of (rsp_escape data))"
  obtain a b where "?d = [a, b]" by (simp add: checksum_digits_def)
  then show ?thesis
    using checksum_digits_value [of _ a b] by (auto simp: packet_bytes_def framed_def digits_value_def)
qed

section \<open>Any client\<close>

text \<open>What a call of \<open>get_packet\<close> keeps: the buffer is not overrun, and there is a NUL behind the packet
  unless it is the break character; without a packet the client is closed.\<close>

definition fits :: "nat \<Rightarrow> bool \<Rightarrow> 'a link_scheme \<Rightarrow> bool \<times> 'a link_scheme \<Rightarrow> bool" where
  "fits m b s y \<longleftrightarrow> (\<forall>i \<ge> m. buf_data (pkt_buf (snd y)) i = buf_data (pkt_buf s) i) \<and>
     (\<not> fst y \<longrightarrow> client_fd (snd y) = -1) \<and>
     (fst y \<longrightarrow> buf_len (pkt_buf (snd y)) < m \<and>
        (buf_data (pkt_buf (snd y)) (buf_len (pkt_buf (snd y))) = 0 \<or> b \<and> pkt (snd y) = [3]))"

lemma fits_trans:
  "fits m b t y \<Longrightarrow> (\<And>i. m \<le> i \<Longrightarrow> buf_data (pkt_buf t) i = buf_data (pkt_buf s) i) \<Longrightarrow> fits m b s y"
  by (simp add: fits_def)

text \<open>What the servers promise of the function that closes the client: the descriptor is gone
  afterwards, and what the link has sent and received is not touched.\<close>

locale client_link =
  fixes close :: "'a link_scheme \<Rightarrow> 'a link_scheme option"
  assumes close_fd: "close s = Some t \<Longrightarrow> client_fd t = -1"
    and close_frame: "close s = Some t \<Longrightarrow> client_in t = client_in s \<and> client_out t = client_out s \<and> pkt_buf t = pkt_buf s"
begin

lemma close_Some:
  "close s = Some t \<Longrightarrow> client_fd t = -1 \<and> client_in t = client_in s \<and> client_out t = client_out s \<and> pkt_buf t = pkt_buf s"
  using close_fd close_frame by simp

lemma get_char_Some:
  "get_char close s = Some (c, t) \<Longrightarrow>
     client_out t = client_out s \<and> pkt_buf t = pkt_buf s \<and> (c = -1 \<longrightarrow> client_fd t = -1)"
  by (auto simp: get_char_def Let_def split: if_splits bind_splits dest!: close_Some)

lemma put_char_Some:
  "put_char close c s = Some t \<Longrightarrow> client_in t = client_in s \<and> pkt_buf t = pkt_buf s \<and>
     (client_out t = client_out s @ [c] \<and> client_fd t = client_fd s \<or> client_out t = client_out s \<and> client_fd t = -1)"
  by (auto simp: put_char_def Let_def split: if_splits bind_splits prod.splits dest!: close_Some)

lemma put_char_closed: "client_fd s = -1 \<Longrightarrow> put_char close c s = Some s"
  by (simp add: put_char_def)

lemma put_body_closed: "client_fd s = -1 \<Longrightarrow> \<exists>cs'. put_body close data cs s = Some (cs', s)"
  by (induction data arbitrary: cs) (simp_all add: put_char_closed Let_def)

lemma put_packet_closed: "client_fd s = -1 \<Longrightarrow> put_packet close data s = Some s"
  using put_body_closed [of s data 0] by (subst put_packet.simps) (auto simp: put_char_closed get_char_def)

lemma read_body_Some:
  assumes "read_body buf_max close ch cs count s = Some y" "count \<le> buf_max - 1"
  shows "snd (snd (fst y)) \<le> buf_max - 1 \<and> (fst (fst y) = -1 \<longrightarrow> ch \<noteq> -1 \<longrightarrow> client_fd (snd y) = -1) \<and>
    (\<forall>i \<ge> buf_max - 1. buf_data (pkt_buf (snd y)) i = buf_data (pkt_buf s) i)"
proof -
  let ?P = "\<lambda>m c (ch :: int) (cs :: u8) n s y. c = close \<longrightarrow> n \<le> m - 1 \<longrightarrow> snd (snd (fst y)) \<le> m - 1 \<and>
    (fst (fst y) = -1 \<longrightarrow> ch \<noteq> -1 \<longrightarrow> client_fd (snd y) = -1) \<and>
    (\<forall>i \<ge> m - 1. buf_data (pkt_buf (snd y)) i = buf_data (pkt_buf s) i)"
  have "?P buf_max close ch cs count s y"
    using assms(1)
  proof (rule read_body.raw_induct [where P = ?P, rotated], intro impI)
    fix rb :: "nat \<Rightarrow> ('a link_scheme \<Rightarrow> 'a link_scheme option) \<Rightarrow> int \<Rightarrow> u8 \<Rightarrow> nat \<Rightarrow> 'a link_scheme
      \<Rightarrow> ((int \<times> u8 \<times> nat) \<times> 'a link_scheme) option"
    fix m c ch cs n s y
    assume IH: "\<And>m c ch cs n s y. rb m c ch cs n s = Some y \<Longrightarrow> ?P m c ch cs n s y"
      and c: "c = close" and n: "n \<le> m - 1"
      and step: "(if n < m - 1
        then get_char c s \<bind> (\<lambda>(ch, s). if ch = - 1 then Some ((ch, cs, n), s)
          else if ch = 36 then rb m c ch 0 0 s else if ch = 35 then Some ((ch, cs, n), s)
          else rb m c ch (cs + word_of_int ch) (n + 1) (store_char n (word_of_int ch) s))
        else Some ((ch, cs, n), s)) = Some y"
    show "snd (snd (fst y)) \<le> m - 1 \<and> (fst (fst y) = -1 \<longrightarrow> ch \<noteq> -1 \<longrightarrow> client_fd (snd y) = -1) \<and> (\<forall>i \<ge> m - 1. buf_data (pkt_buf (snd y)) i = buf_data (pkt_buf s) i)"
    proof (cases "n < m - 1")
      case True
      with step obtain d t where g: "get_char close s = Some (d, t)" by (auto simp: c split: bind_splits)
      then have t: "pkt_buf t = pkt_buf s" "d = -1 \<longrightarrow> client_fd t = -1" using get_char_Some by blast+
      have d: "d = -1 \<or> d = 36 \<or> d = 35 \<or> (d \<noteq> -1 \<and> d \<noteq> 36 \<and> d \<noteq> 35)" by blast
      show ?thesis
        using step g True d IH [of m c d 0 0 t y]
          IH [of m c d "cs + word_of_int d" "n + 1" "store_char n (word_of_int d) t" y]
        by (auto simp: c t store_char_def)
    qed (use step n in auto)
  qed
  with assms(2) show ?thesis by simp
qed

lemma wait_start_Some:
  assumes "wait_start brk close s = Some y"
  shows "pkt_buf (snd y) = pkt_buf s \<and> (fst y = -1 \<longrightarrow> client_fd (snd y) = -1) \<and> (fst y = 0x24 \<or> fst y = -1 \<or> brk \<and> fst y = 3)"
proof -
  let ?P = "\<lambda>b c s y. c = close \<longrightarrow> pkt_buf (snd y) = pkt_buf s \<and>
    (fst y = -1 \<longrightarrow> client_fd (snd y) = -1) \<and> (fst y = 0x24 \<or> fst y = -1 \<or> b \<and> fst y = 3)"
  have "?P brk close s y"
    using assms
  proof (rule wait_start.raw_induct [where P = ?P, rotated], intro impI)
    fix ws :: "bool \<Rightarrow> ('a link_scheme \<Rightarrow> 'a link_scheme option) \<Rightarrow> 'a link_scheme \<Rightarrow> (int \<times> 'a link_scheme) option"
    fix b c s y
    assume IH: "\<And>b c s y. ws b c s = Some y \<Longrightarrow> ?P b c s y" and c: "c = close"
      and step: "get_char c s \<bind> (\<lambda>(ch, s). if ch = 36 then Some (ch, s) else if ch = - 1 then Some (ch, s)
        else if b \<and> ch = 3 then Some (ch, s) else ws b c s) = Some y"
    obtain d t where g: "get_char close s = Some (d, t)" using step by (auto simp: c split: bind_splits)
    then have t: "pkt_buf t = pkt_buf s" "d = -1 \<longrightarrow> client_fd t = -1" using get_char_Some by blast+
    show "pkt_buf (snd y) = pkt_buf s \<and> (fst y = -1 \<longrightarrow> client_fd (snd y) = -1) \<and> (fst y = 0x24 \<or> fst y = -1 \<or> b \<and> fst y = 3)"
      using step g IH [of b c t y] by (auto simp: c t split: if_splits)
  qed
  then show ?thesis by simp
qed

lemma get_packet_fits:
  assumes "get_packet buf_max brk close s = Some y" "2 \<le> buf_max"
  shows "fits buf_max brk s y"
proof -
  let ?P = "\<lambda>m b c s y. c = close \<longrightarrow> 2 \<le> m \<longrightarrow> fits m b s y"
  have "?P buf_max brk close s y"
    using assms(1)
  proof (rule get_packet.raw_induct [where P = ?P, rotated], intro impI, goal_cases)
    case (1 gp m b c s y)
    have c: "c = close" and m: "2 \<le> m" using 1 by auto
    note IH = 1(1) and step = 1(2) [unfolded c]
    obtain ch t where w: "wait_start b close s = Some (ch, t)"
      using step by (auto simp: c split: bind_splits)
    have t: "pkt_buf t = pkt_buf s" "ch = 0x24 \<or> ch = -1 \<or> b \<and> ch = 3" "ch = -1 \<longrightarrow> client_fd t = -1"
      using wait_start_Some [OF w] by simp_all
    show ?case
    proof (cases "ch = 0x24")
      case False
      then show ?thesis
        using step t m by (auto simp: w fits_def set_len_def store_char_def pkt_def)
    next
      case True
      then obtain d cs n u where r: "read_body m close 0x24 0 0 t = Some ((d, cs, n), u)"
        using step by (auto simp: w split: bind_splits)
      let ?v = "set_len n (store_char n 0 u)"
      have u: "n \<le> m - 1" "d = -1 \<longrightarrow> client_fd u = -1" "\<And>i. m - 1 \<le> i \<Longrightarrow> buf_data (pkt_buf u) i = buf_data (pkt_buf t) i"
        using read_body_Some [OF r] by auto
      have v: "\<And>i. m \<le> i \<Longrightarrow> buf_data (pkt_buf ?v) i = buf_data (pkt_buf s) i"
        using u m t by (auto simp: set_len_def store_char_def)
      have same: "fits m b s (r, z)" if "pkt_buf z = pkt_buf ?v" "r \<or> client_fd z = -1" for r z
        unfolding fits_def using that v u(1) m by (auto simp: set_len_def store_char_def)
      have again: "fits m b s y" if "gp m b close z = Some y" "pkt_buf z = pkt_buf ?v" for z
        using IH [OF that(1)] m that(2) v by (simp add: fits_trans)
      show ?thesis
      proof (cases "d = -1 \<or> d \<noteq> 0x23")
        case True
        then show ?thesis
          using step \<open>ch = 0x24\<close> again [of ?v] u t by (cases "d = -1") (auto simp: w r fits_def)
      next
        case False
        then obtain a v1 where g1: "get_char close ?v = Some (a, v1)"
          using step \<open>ch = 0x24\<close> by (auto simp: w r Let_def split: bind_splits)
        then have v1: "pkt_buf v1 = pkt_buf ?v" "a = -1 \<longrightarrow> client_fd v1 = -1" using get_char_Some by blast+
        show ?thesis
        proof (cases "a = -1")
          case True
          then show ?thesis using step \<open>ch = 0x24\<close> False same v1 by (auto simp: w r g1)
        next
          case a: False
          then obtain b' v2 where g2: "get_char close v1 = Some (b', v2)"
            using step \<open>ch = 0x24\<close> False by (auto simp: w r g1 Let_def split: bind_splits)
          then have v2: "pkt_buf v2 = pkt_buf ?v" "b' = -1 \<longrightarrow> client_fd v2 = -1"
            using get_char_Some [OF g2] v1 by auto
          show ?thesis
            using step \<open>ch = 0x24\<close> False a again same v2
            by (auto simp: w r g1 g2 Let_def split: bind_splits if_splits dest!: put_char_Some)
        qed
      qed
    qed
  qed
  with assms(2) show ?thesis by simp
qed

end

text \<open>A client that hangs up sooner or later: the routines come back.\<close>

definition hangs_up :: "'a link_scheme \<Rightarrow> bool" where
  "hangs_up s \<longleftrightarrow> client_fd s = -1 \<or> Rd_Eof \<in> set (client_in s) \<or> Rd_Error \<in> set (client_in s)"

lemma read_loop_ends:
  "Rd_Eof \<in> set es \<or> Rd_Error \<in> set es \<Longrightarrow> \<exists>c es'. read_loop es = Some (c, es') \<and>
     length es' < length es \<and> (c \<noteq> -1 \<longrightarrow> Rd_Eof \<in> set es' \<or> Rd_Error \<in> set es')"
  by (induction es rule: read_loop.induct) (auto simp: uint_byte_eq)

locale total_link = client_link +
  assumes close_total: "\<exists>t. close s = Some t"
begin

lemma get_char_returns:
  assumes "hangs_up s"
  shows "\<exists>c t. get_char close s = Some (c, t) \<and>
    (c \<noteq> -1 \<longrightarrow> hangs_up t \<and> length (client_in t) < length (client_in s))"
proof (cases "client_fd s = -1")
  case False
  with assms obtain c es where r: "read_loop (client_in s) = Some (c, es)"
    and es: "length es < length (client_in s)" "c \<noteq> -1 \<longrightarrow> Rd_Eof \<in> set es \<or> Rd_Error \<in> set es"
    using read_loop_ends [of "client_in s"] by (auto simp: hangs_up_def)
  obtain t where "close (s\<lparr>client_in := es\<rparr>) = Some t" using close_total by blast
  with False r es show ?thesis by (cases "c = -1") (simp_all add: get_char_def hangs_up_def Let_def)
qed (simp add: get_char_def)

lemma put_char_returns:
  "\<exists>t. put_char close c s = Some t \<and> client_in t = client_in s \<and> (hangs_up s \<longrightarrow> hangs_up t)"
proof -
  obtain u where "close (s\<lparr>client_wr := snd (write_loop (client_wr s))\<rparr>) = Some u"
    using close_total by blast
  then have "put_char close c s \<noteq> None" by (simp add: put_char_def Let_def split_beta)
  then obtain t where t: "put_char close c s = Some t" by blast
  with put_char_Some [OF t] show ?thesis by (auto simp: hangs_up_def)
qed

lemma wait_start_returns:
  assumes "hangs_up s"
  shows "\<exists>c t. wait_start brk close s = Some (c, t) \<and>
    (c \<noteq> -1 \<longrightarrow> hangs_up t \<and> length (client_in t) < length (client_in s))"
  using assms
proof (induction "length (client_in s)" arbitrary: s rule: less_induct)
  case less
  obtain c t where g: "get_char close s = Some (c, t)"
    "c \<noteq> -1 \<longrightarrow> hangs_up t \<and> length (client_in t) < length (client_in s)"
    using get_char_returns [OF less.prems] by blast
  show ?case
  proof (cases "c = -1")
    case False
    with g less.hyps [of t] show ?thesis by (subst wait_start.simps) force
  qed (use g in \<open>subst wait_start.simps, simp\<close>)
qed

lemma hangs_up_store [simp]: "hangs_up (store_char i c s) = hangs_up s" "hangs_up (set_len n s) = hangs_up s"
  "client_in (store_char i c s) = client_in s" "client_in (set_len n s) = client_in s"
  by (simp_all add: hangs_up_def store_char_def set_len_def)

lemma read_body_returns:
  assumes "hangs_up s"
  shows "\<exists>c cs' n t. read_body buf_max close ch cs count s = Some ((c, cs', n), t) \<and>
    (c \<noteq> -1 \<longrightarrow> hangs_up t \<and> length (client_in t) \<le> length (client_in s))"
  using assms
proof (induction "length (client_in s)" arbitrary: s ch cs count rule: less_induct)
  case less
  show ?case
  proof (cases "count < buf_max - 1")
    case True
    obtain c t where g: "get_char close s = Some (c, t)"
      "c \<noteq> -1 \<longrightarrow> hangs_up t \<and> length (client_in t) < length (client_in s)"
      using get_char_returns [OF less.prems] by blast
    show ?thesis
    proof (cases "c = -1 \<or> c = 0x23")
      case False
      define u n where "u = (if c = 0x24 then t else store_char count (word_of_int c) t)"
        and "n = (if c = 0x24 then 0 else count + 1)"
      have "read_body buf_max close ch cs count s =
          read_body buf_max close c (if c = 0x24 then 0 else cs + word_of_int c) n u"
        using g False True by (subst read_body.simps) (auto simp: u_def n_def)
      moreover have "hangs_up u" "length (client_in u) < length (client_in s)"
        using g False by (auto simp: u_def)
      ultimately show ?thesis
        using less.hyps [of u c "if c = 0x24 then 0 else cs + word_of_int c" n]
        by (fastforce intro: less_imp_le elim: order_trans)
    qed (use g True in \<open>subst read_body.simps, auto\<close>)
  qed (use less.prems in \<open>subst read_body.simps, simp\<close>)
qed

lemma get_packet_returns:
  assumes "hangs_up s"
  shows "\<exists>ok t. get_packet buf_max brk close s = Some (ok, t)"
  using assms
proof (induction "length (client_in s)" arbitrary: s rule: less_induct)
  case less
  obtain c t where w: "wait_start brk close s = Some (c, t)"
    and t: "c \<noteq> -1 \<longrightarrow> hangs_up t \<and> length (client_in t) < length (client_in s)"
    using wait_start_returns [OF less.prems] by blast
  show ?case
  proof (cases "c = -1 \<or> brk \<and> c = 3")
    case False
    with t have h: "hangs_up t" and l: "length (client_in t) < length (client_in s)" by simp_all
    obtain d cs n u where r: "read_body buf_max close c 0 0 t = Some ((d, cs, n), u)"
      and u: "d \<noteq> -1 \<longrightarrow> hangs_up u \<and> length (client_in u) \<le> length (client_in t)"
      using read_body_returns [OF h] by metis
    let ?v = "set_len n (store_char n 0 u)"
    show ?thesis
    proof (cases "d = -1")
      case d: False
      then have v: "hangs_up ?v" "length (client_in ?v) < length (client_in s)" using u l by auto
      obtain a v1 where g1: "get_char close ?v = Some (a, v1)"
        and v1: "a \<noteq> -1 \<longrightarrow> hangs_up v1 \<and> length (client_in v1) < length (client_in ?v)"
        using get_char_returns [OF v(1)] by blast
      obtain b v2 where g2: "a \<noteq> -1 \<longrightarrow> get_char close v1 = Some (b, v2)"
        and v2: "a \<noteq> -1 \<longrightarrow> b \<noteq> -1 \<longrightarrow> hangs_up v2 \<and> length (client_in v2) < length (client_in v1)"
        using get_char_returns [of v1] v1 by blast
      obtain nak where nak: "put_char close 0x2d v2 = Some nak" "client_in nak = client_in v2"
        "hangs_up v2 \<longrightarrow> hangs_up nak" using put_char_returns by blast
      obtain ack where ack: "put_char close 0x2b v2 = Some ack" using put_char_returns by blast
      show ?thesis
        using False d w r g1 g2 nak(1) ack less.hyps [OF v(2,1)] less.hyps [of nak] nak(2,3) v v1 v2
        by (subst get_packet.simps) (auto simp: Let_def)
    qed (use False w r in \<open>subst get_packet.simps, auto\<close>)
  qed (use w in \<open>subst get_packet.simps, auto\<close>)
qed

end

section \<open>Properties\<close>

text \<open>
  C12: A packet that arrives behind any number of packets with a wrong checksum is received:
  each damaged one is answered with a minus sign, the good one with a plus sign, the bytes
  behind it are left for the next call, and taking the escapes out of the buffer gives the
  data that \<open>put_packet\<close> was called with on the other side.
\<close>

theorem packet_roundtrip:
  assumes "client_fd s \<noteq> -1" "client_wr s = []" "list_all (damaged buf_max) bad"
    and "length (rsp_escape data) < buf_max - 1"
    and "client_in s = map Rd_Byte (concat (map frame_of bad) @ packet_bytes data) @ es"
  shows "\<exists>t. get_packet buf_max brk close s = Some (True, t) \<and> rsp_unescape b (pkt t) = data \<and>
    client_in t = es \<and> client_out t = client_out s @ replicate (length bad) 0x2d @ [0x2b]"
proof -
  obtain a b where f: "packet_bytes data = framed (rsp_escape data) [a, b]"
    "checksum_of (rsp_escape data) = digits_value a b"
    using packet_bytes_framed by blast
  have "plain_body buf_max (rsp_escape data)"
    using assms(4) by (simp add: plain_body_def escape_special)
  then show ?thesis
    using get_packet_after_damage [OF assms(1-3) _ f(2), of es brk close] assms(5) f(1)
    by (auto simp: rsp_unescape_escape)
qed

definition example_link :: "u8 list \<Rightarrow> link" where
  "example_link bs = \<lparr>client_fd = 5, client_in = map Rd_Byte bs, client_wr = [], client_out = [],
     pkt_buf = \<lparr>buf_data = \<lambda>_. 0, buf_len = 0\<rparr>\<rparr>"

theorem packet_roundtrip_witness:
  "\<exists>t. get_packet 256 False Some (example_link (asc ''$g#00'' @ packet_bytes (asc ''m$}''))) = Some (True, t) \<and>
     rsp_unescape 0 (pkt t) = asc ''m$}'' \<and> client_in t = [] \<and> client_out t = [0x2d, 0x2b]"
  using packet_roundtrip [of "example_link (asc ''$g#00'' @ packet_bytes (asc ''m$}''))" 256
      "[(asc ''g'', 0x30, 0x30)]" "asc ''m$}''" "[]" False Some 0]
  by (simp add: example_link_def damaged_def plain_body_def checksum_of_def digits_value_def hex_def asc_def
      needs_escape_def frame_of_def framed_def)

text \<open>
  C25: \<open>put_packet\<close> sends the whole packet again for every answer other than a plus sign, and
  returns on the first plus sign, having read exactly the answers.
\<close>

theorem put_packet_retransmits:
  assumes "client_fd s \<noteq> -1" "client_wr s = []" "client_in s = map Rd_Byte naks @ Rd_Byte 0x2b # es"
    and "0x2b \<notin> set naks"
  shows "put_packet close data s = Some (s\<lparr>client_in := es, client_out := client_out s @
    concat (replicate (Suc (length naks)) (packet_bytes data))\<rparr>)"
  using assms by (rule put_packet_resends)

theorem put_packet_retransmits_witness:
  "put_packet Some (asc ''OK'') (example_link [0x2d, 0x2b]) =
     Some ((example_link [])\<lparr>client_out := asc ''$OK#9a$OK#9a''\<rparr>)"
proof -
  have "packet_bytes (asc ''OK'') = asc ''$OK#9a''" by code_simp
  then show ?thesis
    using put_packet_retransmits [of "example_link [0x2d, 0x2b]" "[0x2d]" "[]" Some "asc ''OK''"]
    by (simp add: example_link_def asc_def)
qed

end
