(* ===== verification/Spr_Access.thy ===== *)
theory Spr_Access
  imports Hw_Monitor Rsp_Link
begin

text \<open>
  What the GDB server and the watchpoint server share beyond the packets: the special-purpose
  registers of the CPU (\<^verbatim>\<open>spr-defs.h\<close>) and the calls of the debug API on the common target.
  A server's state is its client link with the target behind it; the debug API's result None,
  for a call that does not come back, makes the whole call None.
\<close>

section \<open>Special-purpose registers\<close>

definition MAX_SPRS :: u32 where [const_simps]: "MAX_SPRS = 0x10000"
definition MAX_GPRS :: nat where [const_simps]: "MAX_GPRS = 32"
definition MAX_GRPS :: nat where [const_simps]: "MAX_GRPS = 32"
definition SPRGROUP_SYS :: u32 where [const_simps]: "SPRGROUP_SYS = push_bit 11 0"
definition SPRGROUP_D :: u32 where [const_simps]: "SPRGROUP_D = push_bit 11 6"
definition SPR_NPC :: u32 where [const_simps]: "SPR_NPC = SPRGROUP_SYS + 16"
definition SPR_SR :: u32 where [const_simps]: "SPR_SR = SPRGROUP_SYS + 17"
definition SPR_PPC :: u32 where [const_simps]: "SPR_PPC = SPRGROUP_SYS + 18"
definition SPR_GPR_BASE :: u32 where [const_simps]: "SPR_GPR_BASE = SPRGROUP_SYS + 1024"
definition SPR_DVR :: "nat \<Rightarrow> u32" where [const_simps]: "SPR_DVR n = SPRGROUP_D + of_nat n"
definition SPR_DCR :: "nat \<Rightarrow> u32" where [const_simps]: "SPR_DCR n = SPRGROUP_D + 8 + of_nat n"
definition SPR_DMR1 :: u32 where [const_simps]: "SPR_DMR1 = SPRGROUP_D + 16"
definition SPR_DMR2 :: u32 where [const_simps]: "SPR_DMR2 = SPRGROUP_D + 17"
definition SPR_DSR :: u32 where [const_simps]: "SPR_DSR = SPRGROUP_D + 20"
definition SPR_DRR :: u32 where [const_simps]: "SPR_DRR = SPRGROUP_D + 21"
definition SPR_SR_SM :: u32 where [const_simps]: "SPR_SR_SM = 0x00000001"
definition SPR_DMR1_ST :: u32 where [const_simps]: "SPR_DMR1_ST = 0x00400000"
definition SPR_DMR1_BT :: u32 where [const_simps]: "SPR_DMR1_BT = 0x00800000"
definition SPR_DMR2_WBS :: u32 where [const_simps]: "SPR_DMR2_WBS = 0xffc00000"
definition SPR_DSR_BUSEE :: u32 where [const_simps]: "SPR_DSR_BUSEE = 0x00000002"
definition SPR_DSR_AE :: u32 where [const_simps]: "SPR_DSR_AE = 0x00000020"
definition SPR_DSR_IIE :: u32 where [const_simps]: "SPR_DSR_IIE = 0x00000040"
definition SPR_DSR_RE :: u32 where [const_simps]: "SPR_DSR_RE = 0x00000400"
definition SPR_DSR_FPE :: u32 where [const_simps]: "SPR_DSR_FPE = 0x00001000"
definition SPR_DSR_TE :: u32 where [const_simps]: "SPR_DSR_TE = 0x00002000"
definition SPR_DRR_RSTE :: u32 where [const_simps]: "SPR_DRR_RSTE = 0x00000001"
definition SPR_DRR_BUSEE :: u32 where [const_simps]: "SPR_DRR_BUSEE = 0x00000002"
definition SPR_DRR_DPFE :: u32 where [const_simps]: "SPR_DRR_DPFE = 0x00000004"
definition SPR_DRR_IPFE :: u32 where [const_simps]: "SPR_DRR_IPFE = 0x00000008"
definition SPR_DRR_TTE :: u32 where [const_simps]: "SPR_DRR_TTE = 0x00000010"
definition SPR_DRR_AE :: u32 where [const_simps]: "SPR_DRR_AE = 0x00000020"
definition SPR_DRR_IIE :: u32 where [const_simps]: "SPR_DRR_IIE = 0x00000040"
definition SPR_DRR_IE :: u32 where [const_simps]: "SPR_DRR_IE = 0x00000080"
definition SPR_DRR_DME :: u32 where [const_simps]: "SPR_DRR_DME = 0x00000100"
definition SPR_DRR_IME :: u32 where [const_simps]: "SPR_DRR_IME = 0x00000200"
definition SPR_DRR_RE :: u32 where [const_simps]: "SPR_DRR_RE = 0x00000400"
definition SPR_DRR_SCE :: u32 where [const_simps]: "SPR_DRR_SCE = 0x00000800"
definition SPR_DRR_FPE :: u32 where [const_simps]: "SPR_DRR_FPE = 0x00001000"
definition SPR_DRR_TE :: u32 where [const_simps]: "SPR_DRR_TE = 0x00002000"

section \<open>The target behind a server\<close>

record 'c env =
  env_host :: host
  env_hw :: debug_hardware
  env_cable :: "'c jtag_cable"

record 'c server = link +
  tgt :: "'c target"

text \<open>A call of the debug API by a server.\<close>

definition api_call :: "('c dbg \<Rightarrow> (u32 option \<times> 'r) \<times> 'c dbg) \<Rightarrow> ('c, 'x) server_scheme
    \<Rightarrow> ((u32 \<times> 'r) \<times> ('c, 'x) server_scheme) option" where
  "api_call f s =
     (case f (tdbg (tgt s)) of
        ((None, r), d) \<Rightarrow> None
      | ((Some err, r), d) \<Rightarrow> Some ((err, r), s\<lparr>tgt := (tgt s)\<lparr>tdbg := d\<rparr>\<rparr>))"

definition unit_result :: "('s \<Rightarrow> u32 option \<times> 's) \<Rightarrow> 's \<Rightarrow> (u32 option \<times> unit) \<times> 's" where
  "unit_result f d = (case f d of (r, d) \<Rightarrow> ((r, ()), d))"

definition api_cpu_read :: "'c env \<Rightarrow> u32 \<Rightarrow> u32 \<Rightarrow> ('c, 'x) server_scheme
    \<Rightarrow> ((u32 \<times> u32) \<times> ('c, 'x) server_scheme) option" where
  "api_cpu_read e adr data = api_call (dbg_cpu0_read (env_host e) (env_hw e) (env_cable e) adr data)"

definition api_cpu_write :: "'c env \<Rightarrow> u32 \<Rightarrow> u32 \<Rightarrow> ('c, 'x) server_scheme
    \<Rightarrow> (u32 \<times> ('c, 'x) server_scheme) option" where
  "api_cpu_write e adr data s = do {
     ((err, _), s) \<leftarrow> api_call (unit_result (dbg_cpu0_write (env_host e) (env_hw e) (env_cable e) adr data)) s;
     Some (err, s) }"

definition api_cpu_read_block :: "'c env \<Rightarrow> u32 \<Rightarrow> u32 list \<Rightarrow> int \<Rightarrow> ('c, 'x) server_scheme
    \<Rightarrow> ((u32 \<times> u32 list) \<times> ('c, 'x) server_scheme) option" where
  "api_cpu_read_block e adr data n = api_call (dbg_cpu0_read_block (env_host e) (env_hw e) (env_cable e) adr data n)"

definition api_cpu_write_block :: "'c env \<Rightarrow> u32 \<Rightarrow> u32 list \<Rightarrow> int \<Rightarrow> ('c, 'x) server_scheme
    \<Rightarrow> (u32 \<times> ('c, 'x) server_scheme) option" where
  "api_cpu_write_block e adr data n s = do {
     ((err, _), s) \<leftarrow> api_call (unit_result
        (dbg_cpu0_write_block (env_host e) (env_hw e) (env_cable e) adr data n)) s;
     Some (err, s) }"

definition api_read_mem8 :: "'c env \<Rightarrow> u32 \<Rightarrow> u8 list \<Rightarrow> int \<Rightarrow> ('c, 'x) server_scheme
    \<Rightarrow> ((u32 \<times> u8 list) \<times> ('c, 'x) server_scheme) option" where
  "api_read_mem8 e adr data n = api_call (dbg_wb_read_block8 (env_host e) (env_hw e) (env_cable e) adr data n)"

definition api_write_mem8 :: "'c env \<Rightarrow> u32 \<Rightarrow> u8 list \<Rightarrow> int \<Rightarrow> ('c, 'x) server_scheme
    \<Rightarrow> (u32 \<times> ('c, 'x) server_scheme) option" where
  "api_write_mem8 e adr data n s = do {
     ((err, _), s) \<leftarrow> api_call (unit_result (dbg_wb_write_block8 (env_host e) (env_hw e) (env_cable e) adr data n)) s;
     Some (err, s) }"

text \<open>One instruction word of memory.\<close>

definition api_read_instr :: "'c env \<Rightarrow> u32 \<Rightarrow> u32 \<Rightarrow> ('c, 'x) server_scheme
    \<Rightarrow> ((u32 \<times> u32) \<times> ('c, 'x) server_scheme) option" where
  "api_read_instr e adr old s = do {
     ((err, bs), s) \<leftarrow> api_call
        (dbg_wb_read_block32 (env_host e) (env_hw e) (env_cable e) adr (word_to_bytes old) 1) s;
     Some ((err, bytes_word bs), s) }"

definition api_write_instr :: "'c env \<Rightarrow> u32 \<Rightarrow> u32 \<Rightarrow> ('c, 'x) server_scheme
    \<Rightarrow> (u32 \<times> ('c, 'x) server_scheme) option" where
  "api_write_instr e adr instr s = do {
     ((err, _), s) \<leftarrow> api_call
        (dbg_wb_write_block32 (env_host e) (env_hw e) (env_cable e) adr (word_to_bytes instr) 1) s;
     Some (err, s) }"

text \<open>What an uninitialised variable holds.\<close>

definition uninit :: "'c env \<Rightarrow> u32" where
  "uninit e = mem_word (env_host e) [] 0"

text \<open>No call of the API touches the link or the rest of the target.\<close>

lemma api_call_frame:
  "api_call f s = Some ((err, r), t) \<Longrightarrow> \<exists>d. t = s\<lparr>tgt := (tgt s)\<lparr>tdbg := d\<rparr>\<rparr>"
  by (auto simp: api_call_def split: prod.splits option.splits)

lemmas api_defs_lifted = api_cpu_read_def api_cpu_write_def api_cpu_read_block_def api_cpu_write_block_def
  api_read_mem8_def api_write_mem8_def api_read_instr_def api_write_instr_def

lemma api_frame:
  "api_cpu_read e a x s = Some ((er, v), t) \<Longrightarrow> \<exists>d. t = s\<lparr>tgt := (tgt s)\<lparr>tdbg := d\<rparr>\<rparr>"
  "api_cpu_write e a x s = Some (er, t) \<Longrightarrow> \<exists>d. t = s\<lparr>tgt := (tgt s)\<lparr>tdbg := d\<rparr>\<rparr>"
  "api_cpu_read_block e a xs n s = Some ((er, vs), t) \<Longrightarrow> \<exists>d. t = s\<lparr>tgt := (tgt s)\<lparr>tdbg := d\<rparr>\<rparr>"
  "api_cpu_write_block e a xs n s = Some (er, t) \<Longrightarrow> \<exists>d. t = s\<lparr>tgt := (tgt s)\<lparr>tdbg := d\<rparr>\<rparr>"
  "api_read_mem8 e a bs n s = Some ((er, cs), t) \<Longrightarrow> \<exists>d. t = s\<lparr>tgt := (tgt s)\<lparr>tdbg := d\<rparr>\<rparr>"
  "api_write_mem8 e a bs n s = Some (er, t) \<Longrightarrow> \<exists>d. t = s\<lparr>tgt := (tgt s)\<lparr>tdbg := d\<rparr>\<rparr>"
  "api_read_instr e a x s = Some ((er, v), t) \<Longrightarrow> \<exists>d. t = s\<lparr>tgt := (tgt s)\<lparr>tdbg := d\<rparr>\<rparr>"
  "api_write_instr e a x s = Some (er, t) \<Longrightarrow> \<exists>d. t = s\<lparr>tgt := (tgt s)\<lparr>tdbg := d\<rparr>\<rparr>"
  by (auto simp: api_defs_lifted split: bind_splits dest!: api_call_frame)

end
