(* ===== verification/C_Scan.thy ===== *)
theory C_Scan
  imports Rsp_Codec
begin

text \<open>
  The conversions of \<open>sscanf\<close> that the servers use: \<open>%x\<close> and \<open>%lx\<close> with and without a width,
  \<open>%1d\<close> and \<open>%8s\<close>, white space and literal characters. The result is the list of the values
  that are assigned, so its length is what \<open>sscanf\<close> returns where that is not negative. A
  number is read into an \<open>unsigned long\<close>, where a value that does not fit becomes the
  greatest one, as the GNU library does, and the variable takes its low bits.
\<close>

datatype directive = Lit u8 | Space | Hex "nat option" | Dec nat | Word nat
datatype scanned = Num u64 | Text "u8 list"

definition is_space :: "u8 \<Rightarrow> bool" where
  "is_space c \<longleftrightarrow> c = 0x20 \<or> c = 9 \<or> c = 10 \<or> c = 11 \<or> c = 12 \<or> c = 13"

definition is_hex :: "u8 \<Rightarrow> bool" where
  "is_hex c \<longleftrightarrow> hex (sint c) \<noteq> -1"

definition is_dec :: "u8 \<Rightarrow> bool" where
  "is_dec c \<longleftrightarrow> 0x30 \<le> c \<and> c \<le> 0x39"

definition digits_nat :: "nat \<Rightarrow> u8 list \<Rightarrow> nat" where
  "digits_nat base ds = foldl (\<lambda>n d. n * base + nat (hex (sint d))) 0 ds"

text \<open>An optional sign and an optional \<open>0x\<close>, each counted in the width.\<close>

definition scan_sign :: "u8 list \<Rightarrow> bool \<times> u8 list" where
  "scan_sign cs = (case cs of c # ds \<Rightarrow> if c = 0x2d then (True, ds) else if c = 0x2b then (False, ds) else (False, cs)
                   | [] \<Rightarrow> (False, cs))"

definition scan_prefix :: "u8 list \<Rightarrow> u8 list" where
  "scan_prefix cs = (case cs of a # b # ds \<Rightarrow> if a = 0x30 \<and> (b = 0x78 \<or> b = 0x58) then ds else cs | _ \<Rightarrow> cs)"

definition scan_hex :: "nat option \<Rightarrow> u8 list \<Rightarrow> (u64 \<times> u8 list) option" where
  "scan_hex width cs =
     (let cs = dropWhile is_space cs;
          win = (case width of None \<Rightarrow> cs | Some w \<Rightarrow> take w cs);
          (neg, body) = scan_sign win;
          body = scan_prefix body;
          ds = takeWhile is_hex body;
          n = digits_nat 16 ds;
          used = length win - length (dropWhile is_hex body)
      in if ds = [] then None
         else Some (if n \<ge> 2 ^ 64 then -1 else if neg then - of_nat n else of_nat n, drop used cs))"

definition scan_dec :: "nat \<Rightarrow> u8 list \<Rightarrow> (u64 \<times> u8 list) option" where
  "scan_dec width cs =
     (let cs = dropWhile is_space cs;
          win = take width cs;
          (neg, body) = scan_sign win;
          ds = takeWhile is_dec body;
          n = digits_nat 10 ds;
          used = length win - length (dropWhile is_dec body)
      in if ds = [] then None else Some (if neg then - of_nat n else of_nat n, drop used cs))"

text \<open>\<open>atoi\<close> as the GNU library has it: the value of \<open>strtol\<close>, cut to an \<open>int\<close>.\<close>

definition atoi :: "host \<Rightarrow> string \<Rightarrow> int" where
  "atoi h str =
     (let (neg, body) = scan_sign (dropWhile is_space (asc str));
          n = int (digits_nat 10 (takeWhile is_dec body));
          top = 2 ^ (8 * sizeof_ulong h - 1);
          v = (if neg then max (- n) (- top) else min n (top - 1))
      in sint (word_of_int v :: u32))"

definition scan_word :: "nat \<Rightarrow> u8 list \<Rightarrow> (u8 list \<times> u8 list) option" where
  "scan_word width cs =
     (let cs = dropWhile is_space cs;
          w = takeWhile (\<lambda>c. \<not> is_space c) (take width cs)
      in if w = [] then None else Some (w, drop (length w) cs))"

fun sscanf :: "directive list \<Rightarrow> u8 list \<Rightarrow> scanned list" where
  "sscanf [] cs = []"
| "sscanf (Lit c # ds) cs = (case cs of d # cs \<Rightarrow> if c = d then sscanf ds cs else [] | [] \<Rightarrow> [])"
| "sscanf (Space # ds) cs = sscanf ds (dropWhile is_space cs)"
| "sscanf (Hex w # ds) cs = (case scan_hex w cs of None \<Rightarrow> [] | Some (n, cs) \<Rightarrow> Num n # sscanf ds cs)"
| "sscanf (Dec w # ds) cs = (case scan_dec w cs of None \<Rightarrow> [] | Some (n, cs) \<Rightarrow> Num n # sscanf ds cs)"
| "sscanf (Word w # ds) cs = (case scan_word w cs of None \<Rightarrow> [] | Some (t, cs) \<Rightarrow> Text t # sscanf ds cs)"

definition lits :: "string \<Rightarrow> directive list" where
  "lits s = map Lit (asc s)"

section \<open>Decimal numbers\<close>

text \<open>What \<open>%i\<close> prints.\<close>

fun dec_digits :: "nat \<Rightarrow> u8 list" where
  "dec_digits n = (if n < 10 then [] else dec_digits (n div 10)) @ [0x30 + of_nat (n mod 10)]"

declare dec_digits.simps [simp del]

definition dec_int :: "int \<Rightarrow> u8 list" where
  "dec_int i = (if i < 0 then [0x2d] else []) @ dec_digits (nat \<bar>i\<bar>)"

lemma dec_digit: "n < 10 \<Longrightarrow> is_dec (0x30 + of_nat n) \<and> nat (hex (sint (0x30 + of_nat n :: u8))) = n"
proof -
  have "list_all (\<lambda>n. is_dec (0x30 + of_nat n) \<and> nat (hex (sint (0x30 + of_nat n :: u8))) = n) [0..<10]"
    by code_simp
  then show "n < 10 \<Longrightarrow> is_dec (0x30 + of_nat n) \<and> nat (hex (sint (0x30 + of_nat n :: u8))) = n"
    by (simp add: list_all_iff)
qed

lemma dec_digits_not_Nil [simp]: "dec_digits n \<noteq> []"
  by (subst dec_digits.simps) simp

lemma dec_digits_step:
  obtains d where "is_dec d" "nat (hex (sint d)) = n mod 10"
    "dec_digits n = (if n < 10 then [] else dec_digits (n div 10)) @ [d]"
  using dec_digit [of "n mod 10"] that [of "0x30 + of_nat (n mod 10)"] dec_digits.simps [of n] by simp

lemma dec_digits_dec: "\<forall>c \<in> set (dec_digits n). is_dec c"
proof (induction n rule: dec_digits.induct)
  case (1 n)
  obtain d where "is_dec d" "dec_digits n = (if n < 10 then [] else dec_digits (n div 10)) @ [d]"
    by (rule dec_digits_step)
  with 1 show ?case by auto
qed

lemma digits_nat_dec: "digits_nat 10 (dec_digits n) = n"
proof (induction n rule: dec_digits.induct)
  case (1 n)
  have snoc: "digits_nat 10 (ds @ [d]) = digits_nat 10 ds * 10 + nat (hex (sint d))" for ds d
    by (simp add: digits_nat_def)
  obtain d where "nat (hex (sint d)) = n mod 10" "dec_digits n = (if n < 10 then [] else dec_digits (n div 10)) @ [d]"
    by (rule dec_digits_step)
  with 1 show ?case by (auto simp: snoc digits_nat_def [of _ "[]"])
qed

lemma dec_digits_hd: "0 < n \<Longrightarrow> nat (hex (sint (hd (dec_digits n)))) \<noteq> 0"
proof (induction n rule: dec_digits.induct)
  case (1 n)
  obtain d where "nat (hex (sint d)) = n mod 10" "dec_digits n = (if n < 10 then [] else dec_digits (n div 10)) @ [d]"
    by (rule dec_digits_step)
  with 1 show ?case by (auto simp: div_greater_zero_iff)
qed

section \<open>Numbers as a client prints them\<close>

fun hexnum :: "nat \<Rightarrow> u8 list" where
  "hexnum n = (if n < 16 then [hexchars ! n] else hexnum (n div 16) @ [hexchars ! (n mod 16)])"

declare hexnum.simps [simp del]

lemma is_hex_hexchars: "n < 16 \<Longrightarrow> is_hex (hexchars ! n)"
  by (simp add: is_hex_def hex_digit)

lemma hexchars_not_special:
  "n < 16 \<Longrightarrow> \<not> is_space (hexchars ! n) \<and> hexchars ! n \<notin> {0x2d, 0x2b, 0x78, 0x58, 0x3a, 0x2c}"
proof -
  have "list_all (\<lambda>n. \<not> is_space (hexchars ! n) \<and> hexchars ! n \<notin> {0x2d, 0x2b, 0x78, 0x58, 0x3a, 0x2c}) [0..<16]"
    by code_simp
  then show "n < 16 \<Longrightarrow> \<not> is_space (hexchars ! n) \<and> hexchars ! n \<notin> {0x2d, 0x2b, 0x78, 0x58, 0x3a, 0x2c}"
    by (simp add: list_all_iff)
qed

lemma hexnum_not_Nil [simp]: "hexnum n \<noteq> []"
  by (subst hexnum.simps) simp

lemma hexnum_set: "set (hexnum n) \<subseteq> set hexchars"
  by (induction n rule: hexnum.induct) (subst hexnum.simps, auto)

lemma digits_nat_snoc: "digits_nat b (ds @ [d]) = digits_nat b ds * b + nat (hex (sint d))"
  by (simp add: digits_nat_def)

lemma digits_nat_hexnum: "digits_nat 16 (hexnum n) = n"
proof (induction n rule: hexnum.induct)
  case (1 n)
  then show ?case
    by (subst hexnum.simps) (auto simp: digits_nat_snoc hex_digit digits_nat_def [of _ "[_]"])
qed

lemma hexchars_member: "c \<in> set hexchars \<Longrightarrow> is_hex c \<and> \<not> is_space c \<and> c \<notin> {0, 0x2d, 0x2b, 0x78, 0x58, 0x3a, 0x2c}"
  using hex_digit(3) hexchars_not_special is_hex_hexchars by (auto simp: in_set_conv_nth)

lemma scan_hex_hexnum:
  assumes "n < 2 ^ 64" and "rest = [] \<or> \<not> is_hex (hd rest) \<and> hd rest \<notin> {0x78, 0x58}"
  shows "scan_hex None (hexnum n @ rest) = Some (of_nat n, rest)"
proof -
  obtain d ds where h: "hexnum n = d # ds" by (cases "hexnum n") auto
  have mem: "\<And>c. c \<in> set (d # ds) \<Longrightarrow> is_hex c \<and> \<not> is_space c \<and> c \<notin> {0, 0x2d, 0x2b, 0x78, 0x58, 0x3a, 0x2c}"
    using hexnum_set [of n] h hexchars_member by auto
  have "scan_prefix ((d # ds) @ rest) = (d # ds) @ rest"
    using mem assms(2) by (cases ds; cases rest) (auto simp: scan_prefix_def)
  moreover have "scan_sign ((d # ds) @ rest) = (False, (d # ds) @ rest)"
    using mem [of d] by (simp add: scan_sign_def)
  moreover have "dropWhile is_space ((d # ds) @ rest) = (d # ds) @ rest" using mem [of d] by simp
  moreover have "takeWhile is_hex ((d # ds) @ rest) = d # ds" "dropWhile is_hex ((d # ds) @ rest) = rest"
    using mem assms(2) by (cases rest; simp add: takeWhile_append2 dropWhile_append2)+
  moreover have "\<not> 2 ^ 64 \<le> n" using assms(1) by simp
  ultimately show ?thesis
    using digits_nat_hexnum [of n] unfolding scan_hex_def h by (simp add: Let_def)
qed

section \<open>The fields of a request\<close>

definition digit :: "nat \<Rightarrow> u8" where
  "digit d = 0x30 + of_nat d"

lemma digit_cases: "d < 10 \<Longrightarrow> d \<in> {0, 1, 2, 3, 4, 5, 6, 7, 8, 9 :: nat}"
  by auto

lemma digit_props:
  assumes "d < 10"
  shows "is_dec (digit d)" "\<not> is_space (digit d)" "digit d \<notin> {0, 0x2d, 0x2b}" "hex (sint (digit d)) = int d"
proof -
  have "list_all (\<lambda>d. is_dec (digit d) \<and> \<not> is_space (digit d) \<and> digit d \<notin> {0, 0x2d, 0x2b} \<and>
      hex (sint (digit d)) = int d) [0..<10]" by code_simp
  with assms show "is_dec (digit d)" "\<not> is_space (digit d)" "digit d \<notin> {0, 0x2d, 0x2b}" "hex (sint (digit d)) = int d"
    by (simp_all add: list_all_iff)
qed

lemma scan_dec_digit: "d < 10 \<Longrightarrow> scan_dec (Suc 0) (digit d # rest) = Some (of_nat d, rest)"
  using digit_props [of d] by (simp add: scan_dec_def scan_sign_def digits_nat_def Let_def)

lemma not_hex_separators: "\<not> is_hex 0x2c" "\<not> is_hex 0x3a" "\<not> is_hex 0x3d"
  by (simp_all add: is_hex_def hex_def)

lemma scan_hex_word:
  fixes a :: u32
  assumes "rest = [] \<or> \<not> is_hex (hd rest) \<and> hd rest \<notin> {0x78, 0x58}"
  shows "scan_hex None (hexnum (unat a) @ rest) = Some (ucast a, rest)"
proof -
  have "unat a < 2 ^ 64" using unsigned_less [of a, where 'a = nat] by simp
  then show ?thesis using scan_hex_hexnum [OF _ assms, of "unat a"] by (simp add: of_nat_unat)
qed

definition mp_packet :: "u8 \<Rightarrow> nat \<Rightarrow> u32 \<Rightarrow> nat \<Rightarrow> u8 list" where
  "mp_packet c type addr n = c # digit type # 0x2c # hexnum (unat addr) @ [0x2c, digit n]"

lemma asc_char: "asc [c] = [of_char c]"
  by (simp add: asc_def)

lemma scan_mp_packet:
  assumes "type < 10" "n < 10"
  shows "sscanf ([Lit c, Dec 1] @ lits '','' @ [Hex None] @ lits '','' @ [Dec 1]) (mp_packet c type addr n) =
    [Num (of_nat type), Num (ucast addr), Num (of_nat n)]"
  using scan_hex_word [of "[0x2c, digit n]" addr] scan_dec_digit assms not_hex_separators
  by (simp add: mp_packet_def lits_def asc_def)

lemma scan_mem:
  fixes addr len :: u32
  shows "sscanf ([Lit c, Hex None] @ lits '','' @ [Hex None] @ lits '':'')
      (c # hexnum (unat addr) @ 0x2c # hexnum (unat len) @ 0x3a # rest) = [Num (ucast addr), Num (ucast len)]"
  using scan_hex_word [of "0x2c # hexnum (unat len) @ 0x3a # rest" addr] scan_hex_word [of "0x3a # rest" len] not_hex_separators
  by (simp add: lits_def asc_def)

lemma scan_mem_short:
  fixes addr len :: u32
  shows "sscanf ([Lit c, Hex None] @ lits '','' @ [Hex None] @ lits '':'')
      (c # hexnum (unat addr) @ 0x2c # hexnum (unat len)) = [Num (ucast addr), Num (ucast len)]"
  using scan_hex_word [of "0x2c # hexnum (unat len)" addr] scan_hex_word [of "[]" len] not_hex_separators
  by (simp add: lits_def asc_def)

lemma scan_register:
  fixes r :: u32
  shows "sscanf (lits [c] @ [Hex None]) (asc [c] @ hexnum (unat r)) = [Num (ucast r)]"
  using scan_hex_word [of "[]" r] by (simp add: lits_def asc_def)

lemma scan_word_digits:
  assumes "ds \<noteq> []" "length ds \<le> w" "\<forall>c \<in> set ds. \<not> is_space c"
  shows "scan_word w ds = Some (ds, [])"
proof -
  have "takeWhile (\<lambda>c. \<not> is_space c) ds = ds" using assms(3) by (simp add: takeWhile_eq_all_conv)
  moreover have "dropWhile is_space ds = ds" "take w ds = ds" using assms by (cases ds; simp)+
  ultimately show ?thesis using assms(1) by (simp only: scan_word_def Let_def) simp
qed

lemma scan_register_write:
  fixes r :: u32
  assumes "ds \<noteq> []" "length ds \<le> 8" "\<forall>c \<in> set ds. \<not> is_space c"
  shows "sscanf (lits ''P'' @ [Hex None] @ lits ''='' @ [Word 8]) (0x50 # hexnum (unat r) @ 0x3d # ds) =
    [Num (ucast r), Text ds]"
  using scan_hex_word [of "0x3d # ds" r] scan_word_digits [OF assms] not_hex_separators
  by (simp add: lits_def asc_def)

end
