(* ===== verification/Hwp_Server.thy ===== *)
theory Hwp_Server
  imports Spr_Access C_Scan
begin

text \<open>
  The server for external users of the hardware watchpoints (\<^verbatim>\<open>hwp_server.c\<close>). Its clients
  read and write special-purpose registers; a write to a watchpoint's control register says
  whether that watchpoint is in use, and the GDB server is granted those that are not.

  Its packets are those of \<open>Rsp_Link\<close>, with a buffer of 256 bytes and no break character. The
  code passes the descriptor by value to the routines that send a packet; they go on with it
  after the client has been closed in between, but every further call on it fails, which is
  what the link does with a closed client.
\<close>

definition HWP_BUF_MAX :: nat where [const_simps]: "HWP_BUF_MAX = 256"
definition HWP_MAX_WP :: nat where [const_simps]: "HWP_MAX_WP = 8"

record 'c hwp = "'c server" +
  hwp_server_fd :: int
  hwp_pipe_fds :: "int \<times> int"
  hwp_server_running :: bool
  hwp_target_is_running :: bool
  use_cached_dmr2 :: bool
  cached_dmr2 :: u32

section \<open>Which watchpoints are in use\<close>

definition hwp_set_in_use :: "nat \<Rightarrow> bool \<Rightarrow> 'c target \<Rightarrow> 'c target" where
  "hwp_set_in_use wp inuse t = (if wp < HWP_MAX_WP then t\<lparr>hwp_in_use := (hwp_in_use t)[wp := inuse]\<rparr> else t)"

fun find_unused :: "nat list \<Rightarrow> bool list \<Rightarrow> nat option" where
  "find_unused [] inuse = None"
| "find_unused (i # is) inuse = (if \<not> inuse ! i then Some i else find_unused is inuse)"

definition hwp_get_available_watchpoint :: "'c target \<Rightarrow> int \<times> 'c target" where
  "hwp_get_available_watchpoint t =
     (case find_unused [0..<HWP_MAX_WP] (hwp_in_use t) of
        None \<Rightarrow> (-1, t)
      | Some i \<Rightarrow> (int i, t\<lparr>hwp_in_use := (hwp_in_use t)[i := True]\<rparr>))"

definition hwp_return_watchpoint :: "nat \<Rightarrow> 'c target \<Rightarrow> 'c target" where
  "hwp_return_watchpoint wp t =
     (if wp \<ge> HWP_MAX_WP then t
      else if hwp_in_use t ! wp then t\<lparr>hwp_in_use := (hwp_in_use t)[wp := False]\<rparr> else t)"

section \<open>The connection\<close>

definition hwp_client_close :: "'c hwp \<Rightarrow> 'c hwp option" where
  "hwp_client_close s = Some (if client_fd s \<noteq> -1 then s\<lparr>client_fd := -1\<rparr> else s)"

definition hwp_server_close :: "'c hwp \<Rightarrow> 'c hwp" where
  "hwp_server_close s = (if hwp_server_fd s \<noteq> -1 then s\<lparr>hwp_server_fd := -1\<rparr> else s)"

definition get_hwp_rsp_char :: "'c hwp \<Rightarrow> (int \<times> 'c hwp) option" where
  "get_hwp_rsp_char = get_char hwp_client_close"

definition put_hwp_rsp_char :: "u8 \<Rightarrow> 'c hwp \<Rightarrow> 'c hwp option" where
  "put_hwp_rsp_char = put_char hwp_client_close"

text \<open>The file has copies of the conversions of the GDB server.\<close>

definition hwp_hex :: "int \<Rightarrow> int" where
  "hwp_hex = hex"

definition hwp_reg2hex :: "u64 \<Rightarrow> u8 list" where
  "hwp_reg2hex = reg2hex"

definition hwp_hex2reg :: "(nat \<Rightarrow> u8) \<Rightarrow> u64" where
  "hwp_hex2reg = hex2reg"

definition hwp_get_packet :: "'c hwp \<Rightarrow> (bool \<times> 'c hwp) option" where
  "hwp_get_packet = get_packet HWP_BUF_MAX False hwp_client_close"

definition hwp_put_packet :: "u8 list \<Rightarrow> 'c hwp \<Rightarrow> 'c hwp option" where
  "hwp_put_packet = put_packet hwp_client_close"

definition hwp_put_str_packet :: "u8 list \<Rightarrow> 'c hwp \<Rightarrow> 'c hwp option" where
  "hwp_put_str_packet = put_str_packet HWP_BUF_MAX hwp_client_close"

section \<open>Start-up\<close>

text \<open>Which watchpoints the CPU has.\<close>

fun hwp_probe :: "'c env \<Rightarrow> nat list \<Rightarrow> int \<Rightarrow> u32 \<Rightarrow> 'c hwp \<Rightarrow> (int \<times> 'c hwp) option" where
  "hwp_probe e [] status tmp s = Some (status, s)"
| "hwp_probe e (i # is) status tmp s = do {
     ((errcode, tmp), s) \<leftarrow> api_cpu_read e (SPR_DCR i) tmp s;
     if errcode \<noteq> APP_ERR_NONE then hwp_probe e is status tmp (s\<lparr>tgt := hwp_set_in_use i True (tgt s)\<rparr>)
     else if tmp AND 0x1 \<noteq> 0
     then hwp_probe e is (status + 1) tmp (s\<lparr>tgt := hwp_set_in_use i False (tgt s)\<rparr>)
     else hwp_probe e is status tmp (s\<lparr>tgt := hwp_set_in_use i True (tgt s)\<rparr>) }"

text \<open>\<open>sock\<close> is the listening socket, None when one of the calls that set it up fails.\<close>

definition hwp_init :: "'c env \<Rightarrow> int option \<Rightarrow> 'c hwp \<Rightarrow> (int \<times> 'c hwp) option" where
  "hwp_init e sock s = do {
     (status, s) \<leftarrow> hwp_probe e [0..<HWP_MAX_WP] 0 (uninit e) s;
     if status \<le> 0 then Some (0, s)
     else do {
       let s = s\<lparr>hwp_server_fd := -1, client_fd := -1\<rparr>;
       (case sock of
          None \<Rightarrow> Some (0, s)
        | Some fd \<Rightarrow> do {
            ((r, fds), t) \<leftarrow> register_with_monitor_thread (hwp_pipe_fds s) (tgt s);
            let s = s\<lparr>hwp_server_fd := fd, hwp_pipe_fds := fds, tgt := t\<rparr>;
            if 0 > r then Some (0, hwp_server_close s) else Some (1, s) }) } }"

text \<open>\<open>created\<close>: whether \<open>pthread_create\<close> succeeds.\<close>

definition hwp_server_start :: "bool \<Rightarrow> 'c hwp \<Rightarrow> int \<times> 'c hwp" where
  "hwp_server_start created s = (if created then 1 else 0, s\<lparr>hwp_server_running := True\<rparr>)"

definition hwp_server_stop :: "'c hwp \<Rightarrow> int \<times> 'c hwp" where
  "hwp_server_stop s = (1, hwp_server_close (s\<lparr>hwp_server_running := False\<rparr>))"

section \<open>Requests\<close>

definition hwp_read_reg :: "'c env \<Rightarrow> 'c hwp \<Rightarrow> 'c hwp option" where
  "hwp_read_reg e s =
     (case sscanf (lits ''p'' @ [Hex None]) (pkt_str s) of
        [Num n] \<Rightarrow> do {
          let regnum = (ucast n :: u32);
          ((errcode, tmp), s) \<leftarrow>
             (if regnum = SPR_DMR2 \<and> use_cached_dmr2 s then Some ((APP_ERR_NONE, cached_dmr2 s), s)
              else api_cpu_read e regnum (uninit e) s);
          if errcode = APP_ERR_NONE then do {
            let s = reply_in_buf (hwp_reg2hex (ucast tmp)) s;
            hwp_put_packet (pkt s) s }
          else hwp_put_str_packet (asc ''E01'') s }
      | _ \<Rightarrow> hwp_put_str_packet (asc ''E01'') s)"

text \<open>The string at \<open>valstr\<close>: behind the NUL lies what the stack held.\<close>

definition valstr :: "'c env \<Rightarrow> u8 list \<Rightarrow> nat \<Rightarrow> u8" where
  "valstr e t = mem_byte (env_host e) (t @ [0])"

definition hwp_write_reg :: "'c env \<Rightarrow> 'c hwp \<Rightarrow> 'c hwp option" where
  "hwp_write_reg e s =
     (case sscanf (lits ''P'' @ [Hex None] @ lits ''='' @ [Word 8]) (pkt_str s) of
        [Num n, Text t] \<Rightarrow> do {
          let regnum = (ucast n :: u32);
          let val = (ucast (hwp_hex2reg (valstr e t)) :: u32);
          (errcode, s) \<leftarrow> api_cpu_write e regnum val s;
          s \<leftarrow> (if errcode = APP_ERR_NONE then hwp_put_str_packet (asc ''OK'') s
               else hwp_put_str_packet (asc ''E01'') s);
          if regnum \<ge> SPR_DCR 0 \<and> regnum \<le> SPR_DCR 7 then do {
            let dcridx = unat (regnum - SPR_DCR 0);
            let cc = val AND 0x0E;
            let ct = val AND 0xE0;
            Some (s\<lparr>tgt := hwp_set_in_use dcridx (\<not> (cc = 0 \<or> ct = 0)) (tgt s)\<rparr>) }
          else Some s }
      | _ \<Rightarrow> hwp_put_str_packet (asc ''E01'') s)"

definition hwp_report_stop :: "'c env \<Rightarrow> 'c hwp \<Rightarrow> 'c hwp option" where
  "hwp_report_stop e s = do {
     ((_, ppcval), s) \<leftarrow> api_cpu_read e SPR_PPC (uninit e) s;
     let buf = [0x53, mem_byte (env_host e) (hexchars @ [0]) (unat (drop_bit 4 ppcval)),
                hexchars ! (unat ppcval mod 16), 0];
     hwp_put_packet (takeWhile (\<lambda>c. c \<noteq> 0) buf) s }"

definition hwp_report_run :: "'c hwp \<Rightarrow> 'c hwp option" where
  "hwp_report_run s = hwp_put_packet (asc ''RUN'') s"

definition hwp_client_request :: "'c env \<Rightarrow> 'c hwp \<Rightarrow> 'c hwp option" where
  "hwp_client_request e s = do {
     (ok, s) \<leftarrow> hwp_get_packet s;
     if \<not> ok then hwp_client_close s
     else let c = buf_data (pkt_buf s) 0
          in if c = 0x3f then (if hwp_target_is_running s then hwp_report_run s else hwp_report_stop e s)
             else if c = 0x70 then hwp_read_reg e s
             else if c = 0x50 then hwp_write_reg e s
             else Some s }"

section \<open>The server thread\<close>

text \<open>A new connection, or an error of \<open>accept\<close> (descriptor -1).\<close>

definition hwp_accept :: "int \<Rightarrow> rd_event list \<Rightarrow> wr_event list \<Rightarrow> 'c hwp \<Rightarrow> 'c hwp" where
  "hwp_accept fd rds wrs s =
     (let s = s\<lparr>client_fd := fd\<rparr>
      in if fd = -1 then s else s\<lparr>use_cached_dmr2 := False, client_in := rds, client_wr := wrs, client_out := []\<rparr>)"

definition hwp_monitor_status :: "char option \<Rightarrow> 'c hwp \<Rightarrow> 'c hwp" where
  "hwp_monitor_status cmd s =
     (if cmd = Some CHR ''H'' then s\<lparr>hwp_target_is_running := False\<rparr>
      else if cmd = Some CHR ''R'' then s\<lparr>hwp_target_is_running := True, use_cached_dmr2 := False\<rparr>
      else s)"

text \<open>One round of the inner loop: what \<open>select\<close> has found ready.\<close>

definition hwp_server_round :: "'c env \<Rightarrow> bool \<Rightarrow> bool \<Rightarrow> 'c hwp \<Rightarrow> 'c hwp option" where
  "hwp_server_round e pipe_ready client_ready s = do {
     s \<leftarrow> (if pipe_ready then do {
            (cmd, t) \<leftarrow> read_status (snd (hwp_pipe_fds s)) (tgt s);
            Some (hwp_monitor_status cmd (s\<lparr>tgt := t\<rparr>)) }
          else Some s);
     if client_ready then hwp_client_request e s else Some s }"

text \<open>The loop over what \<open>select\<close> gives while the connection is open, and the loop over the
  connections. An exhausted list means that the thread waits for ever.\<close>

datatype hwp_select = Hwp_Error | Hwp_Timeout | Hwp_Ready bool bool

fun hwp_session :: "'c env \<Rightarrow> hwp_select list \<Rightarrow> 'c hwp \<Rightarrow> 'c hwp option" where
  "hwp_session e [] s = (if hwp_server_running s \<and> client_fd s \<noteq> -1 then None else Some s)"
| "hwp_session e (ret # rets) s =
     (if hwp_server_running s \<and> client_fd s \<noteq> -1
      then case ret of
          Hwp_Ready pipe_ready client_ready \<Rightarrow> do {
            s \<leftarrow> hwp_server_round e pipe_ready client_ready s;
            hwp_session e rets s }
        | _ \<Rightarrow> hwp_session e rets s
      else Some s)"

type_synonym hwp_connection = "int \<times> rd_event list \<times> wr_event list \<times> hwp_select list"

fun hwp_server :: "'c env \<Rightarrow> hwp_connection list \<Rightarrow> 'c hwp \<Rightarrow> 'c hwp option" where
  "hwp_server e [] s = (if hwp_server_running s then None else hwp_client_close s)"
| "hwp_server e ((fd, rds, wrs, rets) # cs) s =
     (if hwp_server_running s
      then do { s \<leftarrow> hwp_session e rets (hwp_accept fd rds wrs s); hwp_server e cs s }
      else hwp_client_close s)"

section \<open>The pool of watchpoints\<close>

text \<open>The interface the GDB server uses: a pool of numbers, from which the least free one is
  granted and to which numbers are given back.\<close>

locale number_pool =
  fixes get :: "'t \<Rightarrow> int \<times> 't" and giveback :: "nat \<Rightarrow> 't \<Rightarrow> 't"
    and free :: "'t \<Rightarrow> nat set" and wf :: "'t \<Rightarrow> bool" and size :: nat
  assumes free_bound: "wf t \<Longrightarrow> free t \<subseteq> {..<size}"
    and get_none: "wf t \<Longrightarrow> free t = {} \<Longrightarrow> get t = (-1, t)"
    and get_some: "wf t \<Longrightarrow> free t \<noteq> {} \<Longrightarrow>
      fst (get t) = int (Min (free t)) \<and> free (snd (get t)) = free t - {Min (free t)}"
    and get_wf: "wf t \<Longrightarrow> wf (snd (get t))"
    and giveback_wf: "wf t \<Longrightarrow> wf (giveback i t)"
    and giveback_free: "wf t \<Longrightarrow> i < size \<Longrightarrow> free (giveback i t) = insert i (free t)"

fun grants :: "('t \<Rightarrow> int \<times> 't) \<Rightarrow> nat \<Rightarrow> 't \<Rightarrow> int list" where
  "grants get 0 t = []"
| "grants get (Suc n) t = (let (i, t) = get t in i # grants get n t)"

context number_pool
begin

lemma finite_free: "wf t \<Longrightarrow> finite (free t)"
  using free_bound finite_subset by blast

lemma grants_none: "wf t \<Longrightarrow> free t = {} \<Longrightarrow> grants get n t = replicate n (-1)"
  by (induction n) (simp_all add: get_none)

lemma grants_sorted:
  "wf t \<Longrightarrow> grants get n t =
     map int (take n (sorted_list_of_set (free t))) @ replicate (n - card (free t)) (-1)"
proof (induction n arbitrary: t)
  case (Suc n)
  show ?case
  proof (cases "free t = {}")
    case True
    with Suc.prems grants_none [of t "Suc n"] show ?thesis by simp
  next
    case False
    note some = get_some [OF Suc.prems False] and fin = finite_free [OF Suc.prems]
    have "sorted_list_of_set (free t) = Min (free t) # sorted_list_of_set (free t - {Min (free t)})"
      using fin False by (rule sorted_list_of_set_nonempty)
    moreover have "card (free t) = Suc (card (free t - {Min (free t)}))"
      using fin False by (metis Min_in card_Suc_Diff1)
    ultimately show ?thesis
      using Suc.IH [OF get_wf [OF Suc.prems]] some by (simp add: Let_def split_beta)
  qed
qed simp

text \<open>What is granted is not free any more, and is free again after it has been given back.\<close>

lemma get_takes: "wf t \<Longrightarrow> get t = (int i, u) \<Longrightarrow> i \<in> free t \<and> i < size \<and> free u = free t - {i} \<and> wf u"
  using get_some [of t] get_none [of t] get_wf [of t] free_bound [of t] Min_in [OF finite_free, of t]
  by (cases "free t = {}") auto

lemma get_giveback: "wf t \<Longrightarrow> get t = (int i, u) \<Longrightarrow> free (giveback i u) = free t"
  using get_takes [of t i u] giveback_free [of u i] by auto

end

definition free_wps :: "'c target \<Rightarrow> nat set" where
  "free_wps t = {i. i < HWP_MAX_WP \<and> \<not> hwp_in_use t ! i}"

definition wps_wf :: "'c target \<Rightarrow> bool" where
  "wps_wf t \<longleftrightarrow> length (hwp_in_use t) = HWP_MAX_WP"

lemma find_unused_find: "find_unused is u = find (\<lambda>i. \<not> u ! i) is"
  by (induction "is") simp_all

lemma find_unused_Min:
  "find_unused [0..<HWP_MAX_WP] (hwp_in_use t) = (if free_wps t = {} then None else Some (Min (free_wps t)))"
proof (cases "find_unused [0..<HWP_MAX_WP] (hwp_in_use t)")
  case None
  then have "free_wps t = {}" by (auto simp: find_unused_find find_None_iff free_wps_def)
  with None show ?thesis by simp
next
  case (Some i)
  then have i: "i < HWP_MAX_WP" "\<not> hwp_in_use t ! i" "\<forall>j < i. hwp_in_use t ! j"
    by (auto simp: find_unused_find find_Some_iff)
  then have "i \<in> free_wps t" by (simp add: free_wps_def)
  moreover have "Min (free_wps t) = i"
    using i by (intro Min_eqI) (auto simp: free_wps_def, metis leI)
  ultimately show ?thesis using Some by auto
qed

interpretation wps: number_pool hwp_get_available_watchpoint hwp_return_watchpoint free_wps wps_wf HWP_MAX_WP
proof (unfold_locales, goal_cases)
  case (1 t) show ?case by (auto simp: free_wps_def)
next
  case (2 t) then show ?case by (simp add: hwp_get_available_watchpoint_def find_unused_Min)
next
  case (3 t)
  have "finite (free_wps t)" by (simp add: free_wps_def)
  then have "Min (free_wps t) \<in> free_wps t" using 3 Min_in by blast
  then have "Min (free_wps t) < length (hwp_in_use t)" using 3 by (simp add: free_wps_def wps_wf_def)
  then show ?case
    using 3 by (auto simp: hwp_get_available_watchpoint_def find_unused_Min)
      (auto simp: free_wps_def nth_list_update split: if_splits)
next
  case (4 t) then show ?case
    by (simp add: hwp_get_available_watchpoint_def wps_wf_def split: option.split)
next
  case (5 t i) then show ?case by (simp add: hwp_return_watchpoint_def wps_wf_def)
next
  case (6 t i) then show ?case
    by (auto simp: hwp_return_watchpoint_def free_wps_def wps_wf_def nth_list_update split: if_splits)
qed

text \<open>
  Asking for watchpoints again and again grants every watchpoint that is not in use exactly
  once, lowest number first, and then -1.
\<close>

theorem watchpoint_grants:
  assumes "length (hwp_in_use t) = HWP_MAX_WP"
  shows "grants hwp_get_available_watchpoint n t =
    map int (take n (sorted_list_of_set (free_wps t))) @ replicate (n - card (free_wps t)) (-1)"
  using assms by (intro wps.grants_sorted) (simp add: wps_wf_def)

theorem watchpoint_grants_witness:
  "grants hwp_get_available_watchpoint 3 (example_target\<lparr>hwp_in_use := [True, False, True, False, True, True, True, True]\<rparr>) = [1, 3, -1]"
proof -
  let ?t = "example_target\<lparr>hwp_in_use := [True, False, True, False, True, True, True, True]\<rparr>"
  have "free_wps ?t = {1, 3}"
    by (auto simp: free_wps_def const_simps nth_Cons' split: if_splits)
  then show ?thesis
    using watchpoint_grants [of ?t 3] by (simp add: const_simps)
qed

section \<open>The link of the server\<close>

interpretation hwp_link: total_link hwp_client_close
  by unfold_locales (auto simp: hwp_client_close_def split: if_splits)

text \<open>
  C26: Waiting for a packet ends when the client sends one, fails or hangs up: as long as the
  stream of events has an end of file or an error in it, whatever comes before it, the call
  returns, with the descriptor closed if there is no packet.
\<close>

theorem hwp_packet_returns:
  assumes "client_fd s = -1 \<or> Rd_Eof \<in> set (client_in s) \<or> Rd_Error \<in> set (client_in s)"
  shows "\<exists>ok t. hwp_get_packet s = Some (ok, t) \<and> (ok \<or> client_fd t = -1)"
proof -
  obtain ok t where g: "hwp_get_packet s = Some (ok, t)"
    using assms hwp_link.get_packet_returns [of s] unfolding hwp_get_packet_def hangs_up_def by blast
  then have "fits HWP_BUF_MAX False s (ok, t)"
    unfolding hwp_get_packet_def by (rule hwp_link.get_packet_fits) (simp add: const_simps)
  with g show ?thesis by (auto simp: fits_def)
qed

definition example_hwp :: "rd_event list \<Rightarrow> tap_view board hwp" where
  "example_hwp es = \<lparr>client_fd = 7, client_in = es, client_wr = [], client_out = [],
     pkt_buf = \<lparr>buf_data = \<lambda>_. 0, buf_len = 0\<rparr>, tgt = example_target, hwp_server_fd = 3, hwp_pipe_fds = (4, 5),
     hwp_server_running = True, hwp_target_is_running = False, use_cached_dmr2 = False, cached_dmr2 = 0\<rparr>"

theorem hwp_packet_returns_witness:
  "\<exists>ok t. hwp_get_packet (example_hwp [Rd_Byte 0x24, Rd_Again, Rd_Eof]) = Some (ok, t) \<and> (ok \<or> client_fd t = -1)"
  by (rule hwp_packet_returns) (simp add: example_hwp_def)

end
