(* ===== verification/Rsp_Hash.thy ===== *)
theory Rsp_Hash
  imports Bridge_Prelude
begin

text \<open>
  The matchpoint table of the GDB server (\<^verbatim>\<open>rsp-server.c\<close>): an array of linked lists, in
  which a breakpoint or watchpoint is found by its type and address. A bucket is the list of
  its entries in the order of the links; the entries are not shared, so the links need no
  store. The table is shown to implement a finite map that keeps the first of two values
  added for a key.
\<close>

datatype mp_type = BP_MEMORY | BP_HARDWARE | WP_WRITE | WP_READ | WP_ACCESS

record mp_entry =
  mp_type :: mp_type
  mp_addr :: u64
  mp_instr :: u64

type_synonym mp_table = "mp_entry list list"

definition MP_HASH_SIZE :: nat where [const_simps]: "MP_HASH_SIZE = 1021"

section \<open>Operations\<close>

definition mp_hash_init :: mp_table where
  "mp_hash_init = map (\<lambda>i. []) [0..<MP_HASH_SIZE]"

definition mp_hv :: "u64 \<Rightarrow> nat" where
  "mp_hv addr = unat addr mod MP_HASH_SIZE"

fun mp_find :: "mp_type \<Rightarrow> u64 \<Rightarrow> mp_entry list \<Rightarrow> mp_entry option" where
  "mp_find type addr [] = None"
| "mp_find type addr (cur # next) =
     (if type = mp_type cur \<and> addr = mp_addr cur then Some cur else mp_find type addr next)"

definition mp_hash_lookup :: "mp_type \<Rightarrow> u64 \<Rightarrow> mp_table \<Rightarrow> mp_entry option" where
  "mp_hash_lookup type addr t = mp_find type addr (t ! mp_hv addr)"

definition mp_hash_add :: "mp_type \<Rightarrow> u64 \<Rightarrow> u64 \<Rightarrow> mp_table \<Rightarrow> mp_table" where
  "mp_hash_add type addr instr t =
     (let hv = mp_hv addr
      in case mp_find type addr (t ! hv) of
        Some cur \<Rightarrow> t
      | None \<Rightarrow> t[hv := \<lparr>mp_type = type, mp_addr = addr, mp_instr = instr\<rparr> # t ! hv])"

text \<open>The bucket without the first entry that matches; the entries before it keep their links.\<close>

fun mp_unlink :: "mp_type \<Rightarrow> u64 \<Rightarrow> mp_entry list \<Rightarrow> mp_entry option \<times> mp_entry list" where
  "mp_unlink type addr [] = (None, [])"
| "mp_unlink type addr (cur # next) =
     (if type = mp_type cur \<and> addr = mp_addr cur then (Some cur, next)
      else let (e, rest) = mp_unlink type addr next in (e, cur # rest))"

definition mp_hash_delete :: "mp_type \<Rightarrow> u64 \<Rightarrow> mp_table \<Rightarrow> mp_entry option \<times> mp_table" where
  "mp_hash_delete type addr t =
     (let hv = mp_hv addr; (e, bucket) = mp_unlink type addr (t ! hv)
      in case e of Some cur \<Rightarrow> (e, t[hv := bucket]) | None \<Rightarrow> (None, t))"

section \<open>The map a table stands for\<close>

type_synonym mp_key = "mp_type \<times> u64"

definition mp_key :: "mp_entry \<Rightarrow> mp_key" where
  "mp_key e = (mp_type e, mp_addr e)"

text \<open>Every entry is in the bucket of its address, and no key occurs twice.\<close>

definition mp_inv :: "mp_table \<Rightarrow> bool" where
  "mp_inv t \<longleftrightarrow> length t = MP_HASH_SIZE \<and>
     (\<forall>i < length t. (\<forall>e \<in> set (t ! i). mp_hv (mp_addr e) = i) \<and> distinct (map mp_key (t ! i)))"

definition mp_map :: "mp_table \<Rightarrow> mp_key \<rightharpoonup> u64" where
  "mp_map t = (\<lambda>(type, addr). map_option mp_instr (mp_hash_lookup type addr t))"

text \<open>The interface: a table of values under keys, with an abstraction to maps.\<close>

locale keyed_table =
  fixes empty :: 't and add :: "'k \<Rightarrow> 'v \<Rightarrow> 't \<Rightarrow> 't" and lookup :: "'k \<Rightarrow> 't \<Rightarrow> 'v option"
    and delete :: "'k \<Rightarrow> 't \<Rightarrow> 'v option \<times> 't" and inv :: "'t \<Rightarrow> bool" and abs :: "'t \<Rightarrow> 'k \<rightharpoonup> 'v"
  assumes empty: "inv empty" "abs empty = Map.empty"
    and lookup: "inv t \<Longrightarrow> lookup k t = abs t k"
    and add: "inv t \<Longrightarrow> inv (add k v t)"
      "inv t \<Longrightarrow> abs (add k v t) = (if abs t k = None then (abs t)(k \<mapsto> v) else abs t)"
    and delete: "inv t \<Longrightarrow> inv (snd (delete k t))" "inv t \<Longrightarrow> fst (delete k t) = abs t k"
      "inv t \<Longrightarrow> abs (snd (delete k t)) = (abs t)(k := None)"

datatype ('k, 'v) table_op = Add 'k 'v | Lookup 'k | Delete 'k

text \<open>What a map answers to a sequence of operations.\<close>

fun map_answers :: "('k, 'v) table_op list \<Rightarrow> ('k \<rightharpoonup> 'v) \<Rightarrow> 'v option list" where
  "map_answers [] m = []"
| "map_answers (Add k v # ops) m = None # map_answers ops (if m k = None then m(k \<mapsto> v) else m)"
| "map_answers (Lookup k # ops) m = m k # map_answers ops m"
| "map_answers (Delete k # ops) m = m k # map_answers ops (m(k := None))"

fun table_answers :: "('k \<Rightarrow> 'v \<Rightarrow> 't \<Rightarrow> 't) \<Rightarrow> ('k \<Rightarrow> 't \<Rightarrow> 'v option) \<Rightarrow> ('k \<Rightarrow> 't \<Rightarrow> 'v option \<times> 't)
    \<Rightarrow> ('k, 'v) table_op list \<Rightarrow> 't \<Rightarrow> 'v option list" where
  "table_answers ad lk dl [] t = []"
| "table_answers ad lk dl (Add k v # ops) t = None # table_answers ad lk dl ops (ad k v t)"
| "table_answers ad lk dl (Lookup k # ops) t = lk k t # table_answers ad lk dl ops t"
| "table_answers ad lk dl (Delete k # ops) t = (let (r, t) = dl k t in r # table_answers ad lk dl ops t)"

context keyed_table
begin

lemma answers: "inv t \<Longrightarrow> table_answers add lookup delete ops t = map_answers ops (abs t)"
  by (induction ops "abs t" arbitrary: t rule: map_answers.induct)
    (auto simp: lookup add delete split_beta Let_def)

lemma answers_empty: "table_answers add lookup delete ops empty = map_answers ops Map.empty"
  by (simp add: answers empty)

lemma lookup_add: "inv t \<Longrightarrow> lookup k' (add k v t) = (if k' = k \<and> lookup k t = None then Some v else lookup k' t)"
  by (simp add: lookup add)

lemma lookup_delete: "inv t \<Longrightarrow> lookup k' (snd (delete k t)) = (if k' = k then None else lookup k' t)"
  by (simp add: lookup delete)

end

section \<open>The table implements the map\<close>

lemma mp_hv_less [simp]: "mp_hv addr < MP_HASH_SIZE"
  by (simp add: mp_hv_def MP_HASH_SIZE_def)

lemma mp_find_Some: "mp_find type addr es = Some e \<Longrightarrow> e \<in> set es \<and> mp_key e = (type, addr)"
  by (induction es) (auto simp: mp_key_def split: if_splits)

lemma mp_find_None: "mp_find type addr es = None \<longleftrightarrow> (type, addr) \<notin> mp_key ` set es"
  by (induction es) (auto simp: mp_key_def)

lemma mp_unlink_find: "fst (mp_unlink type addr es) = mp_find type addr es"
  by (induction es) (auto simp: split_beta Let_def)

lemma mp_unlink_set: "set (snd (mp_unlink type addr es)) \<subseteq> set es"
  by (induction es) (auto simp: split_beta Let_def)

lemma mp_unlink_distinct: "distinct (map mp_key es) \<Longrightarrow> distinct (map mp_key (snd (mp_unlink type addr es)))"
  by (induction es) (use mp_unlink_set in \<open>fastforce simp: split_beta Let_def\<close>)+

lemma find_unlink:
  "distinct (map mp_key es) \<Longrightarrow>
     mp_find type' addr' (snd (mp_unlink type addr es)) =
       (if (type', addr') = (type, addr) then None else mp_find type' addr' es)"
  by (induction es) (auto simp: split_beta Let_def mp_find_None mp_key_def)

lemma lookup_update:
  assumes "length t = MP_HASH_SIZE"
  shows "mp_hash_lookup type addr (t[mp_hv a := b]) =
    (if mp_hv addr = mp_hv a then mp_find type addr b else mp_hash_lookup type addr t)"
  using assms by (simp add: mp_hash_lookup_def nth_list_update)

lemma mp_inv_update:
  assumes "mp_inv t" and "\<forall>e \<in> set b. mp_hv (mp_addr e) = mp_hv a" and "distinct (map mp_key b)"
  shows "mp_inv (t[mp_hv a := b])"
  using assms by (auto simp: mp_inv_def nth_list_update)

lemma mp_inv_bucket:
  assumes "mp_inv t"
  shows "\<forall>e \<in> set (t ! mp_hv a). mp_hv (mp_addr e) = mp_hv a" and "distinct (map mp_key (t ! mp_hv a))"
    and "length t = MP_HASH_SIZE"
  using assms by (auto simp: mp_inv_def)

lemma mp_hash_add_inv: "mp_inv t \<Longrightarrow> mp_inv (mp_hash_add type addr instr t)"
  using mp_inv_bucket(1,2) [of t addr] mp_inv_bucket(3) [of t]
  by (auto simp: mp_hash_add_def Let_def mp_find_None mp_key_def intro!: mp_inv_update split: option.split)

lemma mp_hash_add_lookup:
  assumes "mp_inv t"
  shows "mp_hash_lookup type' addr' (mp_hash_add type addr instr t) =
    (if (type', addr') = (type, addr) \<and> mp_hash_lookup type addr t = None
     then Some \<lparr>mp_type = type, mp_addr = addr, mp_instr = instr\<rparr> else mp_hash_lookup type' addr' t)"
  using mp_inv_bucket(3) [OF assms]
  by (auto simp: mp_hash_add_def Let_def nth_list_update mp_hash_lookup_def split: option.split)

lemma mp_hash_delete_inv: "mp_inv t \<Longrightarrow> mp_inv (snd (mp_hash_delete type addr t))"
  using mp_inv_bucket(1,2) [of t addr] mp_inv_bucket(3) [of t] mp_unlink_set [of type addr "t ! mp_hv addr"]
  by (auto simp: mp_hash_delete_def Let_def split_beta intro!: mp_inv_update mp_unlink_distinct split: option.split)

lemma mp_hash_delete_fst: "fst (mp_hash_delete type addr t) = mp_hash_lookup type addr t"
  by (simp add: mp_hash_delete_def mp_hash_lookup_def Let_def split_beta mp_unlink_find split: option.split)

lemma mp_hash_delete_lookup:
  assumes "mp_inv t"
  shows "mp_hash_lookup type' addr' (snd (mp_hash_delete type addr t)) =
    (if (type', addr') = (type, addr) then None else mp_hash_lookup type' addr' t)"
  using mp_inv_bucket(2) [OF assms, of addr] mp_inv_bucket(3) [OF assms]
  by (auto simp: mp_hash_delete_def Let_def split_beta nth_list_update find_unlink mp_unlink_find
      mp_hash_lookup_def split: option.split)

definition key_add :: "mp_key \<Rightarrow> u64 \<Rightarrow> mp_table \<Rightarrow> mp_table" where
  "key_add k v = mp_hash_add (fst k) (snd k) v"

definition key_lookup :: "mp_key \<Rightarrow> mp_table \<Rightarrow> u64 option" where
  "key_lookup k t = map_option mp_instr (mp_hash_lookup (fst k) (snd k) t)"

definition key_delete :: "mp_key \<Rightarrow> mp_table \<Rightarrow> u64 option \<times> mp_table" where
  "key_delete k t = (let (e, t) = mp_hash_delete (fst k) (snd k) t in (map_option mp_instr e, t))"

interpretation mp: keyed_table mp_hash_init key_add key_lookup key_delete mp_inv mp_map
proof (unfold_locales, goal_cases)
  case 1 show ?case by (simp add: mp_inv_def mp_hash_init_def)
next
  case 2 show ?case by (auto simp: mp_map_def mp_hash_lookup_def mp_hash_init_def fun_eq_iff)
next
  case (3 t k) show ?case by (simp add: key_lookup_def mp_map_def split_beta)
next
  case (4 t k v) then show ?case by (simp add: key_add_def mp_hash_add_inv)
next
  case (5 t k v) then show ?case by (auto simp: key_add_def mp_map_def fun_eq_iff mp_hash_add_lookup)
next
  case (6 t k) then show ?case by (simp add: key_delete_def split_beta Let_def mp_hash_delete_inv)
next
  case (7 t k) show ?case by (simp add: key_delete_def split_beta Let_def mp_hash_delete_fst mp_map_def)
next
  case (8 t k) then show ?case
    by (auto simp: key_delete_def split_beta Let_def mp_hash_delete_lookup mp_map_def fun_eq_iff)
qed

text \<open>
  C13: Any sequence of additions, lookups and deletions on the matchpoint table, from its
  initialisation on, gives the answers of a finite map in which the first value added for a
  type and address is kept until it is deleted.
\<close>

theorem mp_hash_refines:
  "table_answers key_add key_lookup key_delete ops mp_hash_init = map_answers ops Map.empty"
  by (rule mp.answers_empty)

lemmas mp_lookup_add = mp.lookup_add
lemmas mp_lookup_delete = mp.lookup_delete

end
