(* ===== verification/Rsp_Server.thy ===== *)
theory Rsp_Server
  imports Hwp_Server Rsp_Hash
begin

text \<open>
  The GDB server (\<^verbatim>\<open>rsp-server.c\<close>): its state, the connection, the request handlers and the
  main routine. The handlers work on the static buffer of \<open>get_packet\<close>, which is part of the
  link. None is a call that does not come back: the process has ended in the debug API, a
  read waits for ever, a mutex is not free, or the code has followed a null pointer or left a
  buffer. Values that the code leaves to chance (an uninitialised variable, the bytes behind
  a string) come from the host. Messages to the terminal are left out.
\<close>

section \<open>Constants and state\<close>

definition GDB_BUF_MAX :: nat where [const_simps]: "GDB_BUF_MAX = 16 * 1024"
definition PPC_REGNUM :: nat where [const_simps]: "PPC_REGNUM = MAX_GPRS + 0"
definition NPC_REGNUM :: nat where [const_simps]: "NPC_REGNUM = MAX_GPRS + 1"
definition SR_REGNUM :: nat where [const_simps]: "SR_REGNUM = MAX_GPRS + 2"
definition NUM_REGS :: nat where [const_simps]: "NUM_REGS = MAX_GRPS + 3"
definition OR1K_TRAP_INSTR :: u32 where [const_simps]: "OR1K_TRAP_INSTR = 0x21000001"
definition EXCEPT_RESET :: u64 where [const_simps]: "EXCEPT_RESET = 0x0100"
definition TARGET_SIGNAL_INT :: nat where [const_simps]: "TARGET_SIGNAL_INT = 2"
definition TARGET_SIGNAL_ILL :: nat where [const_simps]: "TARGET_SIGNAL_ILL = 4"
definition TARGET_SIGNAL_TRAP :: nat where [const_simps]: "TARGET_SIGNAL_TRAP = 5"
definition TARGET_SIGNAL_FPE :: nat where [const_simps]: "TARGET_SIGNAL_FPE = 8"
definition TARGET_SIGNAL_BUS :: nat where [const_simps]: "TARGET_SIGNAL_BUS = 10"
definition TARGET_SIGNAL_SEGV :: nat where [const_simps]: "TARGET_SIGNAL_SEGV = 11"
definition TARGET_SIGNAL_ALRM :: nat where [const_simps]: "TARGET_SIGNAL_ALRM = 14"
definition TARGET_SIGNAL_USR2 :: nat where [const_simps]: "TARGET_SIGNAL_USR2 = 31"
definition TARGET_SIGNAL_PWR :: nat where [const_simps]: "TARGET_SIGNAL_PWR = 32"

record 'c rsp = "'c server" +
  client_waiting :: bool
  target_running :: bool
  single_step_mode :: bool
  proto_num :: int
  server_fd :: int
  sigval :: nat
  start_addr :: u64
  mp_hash :: mp_table
  pipe_fds :: "int \<times> int"
  use_cached_npc :: bool
  cached_npc :: u32

section \<open>The connection\<close>

definition set_stall_state :: "bool \<Rightarrow> 'c rsp \<Rightarrow> 'c rsp" where
  "set_stall_state stall s =
     (let s = (if \<not> stall then s\<lparr>use_cached_npc := False\<rparr> else s)
      in s\<lparr>tgt := send_command (fst (pipe_fds s)) (if stall then CHR ''S'' else CHR ''U'') (tgt s)\<rparr>)"

definition rsp_server_close :: "'c rsp \<Rightarrow> 'c rsp" where
  "rsp_server_close s = (if server_fd s \<noteq> -1 then s\<lparr>server_fd := -1\<rparr> else s)"

definition rsp_client_close :: "'c env \<Rightarrow> 'c rsp \<Rightarrow> 'c rsp option" where
  "rsp_client_close e s = do {
     let s = (if target_running s then set_stall_state True s else s);
     (_, s) \<leftarrow> api_cpu_write e SPR_DSR 0 s;
     let s = (if target_running s then set_stall_state False s else s);
     (fds, t) \<leftarrow> unregister_with_monitor_thread (pipe_fds s) (tgt s);
     let s = s\<lparr>pipe_fds := fds, tgt := t\<rparr>;
     Some (if client_fd s \<noteq> -1 then s\<lparr>client_fd := -1\<rparr> else s) }"

definition get_rsp_char :: "'c env \<Rightarrow> 'c rsp \<Rightarrow> (int \<times> 'c rsp) option" where
  "get_rsp_char e = get_char (rsp_client_close e)"

definition put_rsp_char :: "'c env \<Rightarrow> u8 \<Rightarrow> 'c rsp \<Rightarrow> 'c rsp option" where
  "put_rsp_char e = put_char (rsp_client_close e)"

definition rsp_get_packet :: "'c env \<Rightarrow> 'c rsp \<Rightarrow> (bool \<times> 'c rsp) option" where
  "rsp_get_packet e = get_packet GDB_BUF_MAX True (rsp_client_close e)"

definition rsp_put_packet :: "'c env \<Rightarrow> u8 list \<Rightarrow> 'c rsp \<Rightarrow> 'c rsp option" where
  "rsp_put_packet e = put_packet (rsp_client_close e)"

definition rsp_put_str_packet :: "'c env \<Rightarrow> string \<Rightarrow> 'c rsp \<Rightarrow> 'c rsp option" where
  "rsp_put_str_packet e str = put_str_packet GDB_BUF_MAX (rsp_client_close e) (asc str)"

text \<open>The answer that most handlers end with.\<close>

definition rsp_ok_or_error :: "'c env \<Rightarrow> u32 \<Rightarrow> 'c rsp \<Rightarrow> 'c rsp option" where
  "rsp_ok_or_error e errcode s =
     (if errcode = APP_ERR_NONE then rsp_put_str_packet e ''OK'' s else rsp_put_str_packet e ''E01'' s)"

text \<open>The reply is written over the request and sent.\<close>

definition rsp_reply :: "'c env \<Rightarrow> u8 list \<Rightarrow> 'c rsp \<Rightarrow> 'c rsp option" where
  "rsp_reply e bs s = (let s = reply_in_buf bs s in rsp_put_packet e (pkt s) s)"

section \<open>Running the target\<close>

definition set_npc :: "'c env \<Rightarrow> u64 \<Rightarrow> 'c rsp \<Rightarrow> (u32 \<times> 'c rsp) option" where
  "set_npc e addr s = do {
     (errcode, s) \<leftarrow> api_cpu_write e SPR_NPC (ucast addr) s;
     Some (errcode, s\<lparr>cached_npc := ucast addr, use_cached_npc := True\<rparr>) }"

definition rsp_report_exception :: "'c env \<Rightarrow> 'c rsp \<Rightarrow> 'c rsp option" where
  "rsp_report_exception e s =
     rsp_put_packet e [0x53, hexchars ! (sigval s div 16), hexchars ! (sigval s mod 16)] s"

definition rsp_continue_generic :: "'c env \<Rightarrow> 'c rsp \<Rightarrow> 'c rsp option" where
  "rsp_continue_generic e s = do {
     (_, s) \<leftarrow> api_cpu_write e SPR_DRR 0 s;
     ((_, tmp), s) \<leftarrow> api_cpu_read e SPR_DMR2 (uninit e) s;
     s \<leftarrow> (if tmp AND SPR_DMR2_WBS \<noteq> 0 then do { (_, s) \<leftarrow> api_cpu_write e SPR_DMR2 tmp s; Some s } else Some s);
     ((_, tmp), s) \<leftarrow> api_cpu_read e SPR_DMR1 tmp s;
     let tmp = tmp AND NOT (SPR_DMR1_ST OR SPR_DMR1_BT);
     (_, s) \<leftarrow> api_cpu_write e SPR_DMR1 tmp s;
     let s = set_stall_state False s;
     Some (s\<lparr>client_waiting := True, single_step_mode := False\<rparr>) }"

definition rsp_step_generic :: "'c env \<Rightarrow> 'c rsp \<Rightarrow> 'c rsp option" where
  "rsp_step_generic e s = do {
     (_, s) \<leftarrow> api_cpu_write e SPR_DRR 0 s;
     ((_, tmp), s) \<leftarrow> api_cpu_read e SPR_DMR2 0 s;
     s \<leftarrow> (if tmp AND SPR_DMR2_WBS \<noteq> 0 then do { (_, s) \<leftarrow> api_cpu_write e SPR_DMR2 tmp s; Some s } else Some s);
     s \<leftarrow> (if \<not> single_step_mode s then do {
            ((_, tmp), s) \<leftarrow> api_cpu_read e SPR_DMR1 tmp s;
            let tmp = tmp OR (SPR_DMR1_ST OR SPR_DMR1_BT);
            (_, s) \<leftarrow> api_cpu_write e SPR_DMR1 tmp s;
            ((_, tmp), s) \<leftarrow> api_cpu_read e SPR_DSR tmp s;
            s \<leftarrow> (if tmp AND SPR_DSR_TE = 0
                 then do { (_, s) \<leftarrow> api_cpu_write e SPR_DSR (tmp OR SPR_DSR_TE) s; Some s } else Some s);
            Some (s\<lparr>single_step_mode := True\<rparr>) }
          else Some s);
     let s = set_stall_state False s;
     Some (s\<lparr>client_waiting := True\<rparr>) }"

definition rsp_continue :: "'c env \<Rightarrow> 'c rsp \<Rightarrow> 'c rsp option" where
  "rsp_continue e s = do {
     s \<leftarrow> (if pkt_str s \<noteq> asc ''c''
          then case sscanf (lits ''c'' @ [Hex None]) (pkt_str s) of
                 [Num addr] \<Rightarrow> do { (_, s) \<leftarrow> set_npc e addr s; Some s }
               | _ \<Rightarrow> Some s
          else Some s);
     rsp_continue_generic e s }"

text \<open>The address of a step is parsed and not used; so is the signal of the packets \<open>I\<close> and \<open>S\<close>.\<close>

definition rsp_step :: "'c env \<Rightarrow> 'c rsp \<Rightarrow> 'c rsp option" where
  "rsp_step e s = rsp_step_generic e s"

definition rsp_continue_with_signal :: "'c rsp \<Rightarrow> 'c rsp option" where
  "rsp_continue_with_signal s = Some s"

definition rsp_step_with_signal :: "'c env \<Rightarrow> 'c rsp \<Rightarrow> 'c rsp option" where
  "rsp_step_with_signal e s = rsp_step_generic e s"

definition rsp_restart :: "'c env \<Rightarrow> 'c rsp \<Rightarrow> 'c rsp option" where
  "rsp_restart e s = do { (_, s) \<leftarrow> set_npc e (start_addr s) s; Some s }"

text \<open>The exception of the debug reason register as a GDB signal; others are ignored.\<close>

definition signal_of :: "u32 \<Rightarrow> nat option" where
  "signal_of except =
     (if except = SPR_DRR_RSTE then Some TARGET_SIGNAL_PWR
      else if except = SPR_DRR_BUSEE then Some TARGET_SIGNAL_BUS
      else if except = SPR_DRR_DPFE then Some TARGET_SIGNAL_SEGV
      else if except = SPR_DRR_IPFE then Some TARGET_SIGNAL_SEGV
      else if except = SPR_DRR_TTE then Some TARGET_SIGNAL_ALRM
      else if except = SPR_DRR_AE then Some TARGET_SIGNAL_BUS
      else if except = SPR_DRR_IIE then Some TARGET_SIGNAL_ILL
      else if except = SPR_DRR_IE then Some TARGET_SIGNAL_INT
      else if except = SPR_DRR_DME then Some TARGET_SIGNAL_SEGV
      else if except = SPR_DRR_IME then Some TARGET_SIGNAL_SEGV
      else if except = SPR_DRR_RE then Some TARGET_SIGNAL_FPE
      else if except = SPR_DRR_SCE then Some TARGET_SIGNAL_USR2
      else if except = SPR_DRR_FPE then Some TARGET_SIGNAL_FPE
      else if except = SPR_DRR_TE then Some TARGET_SIGNAL_TRAP
      else if except = 0 then Some TARGET_SIGNAL_TRAP
      else None)"

definition rsp_exception :: "u32 \<Rightarrow> 'c rsp \<Rightarrow> 'c rsp" where
  "rsp_exception except s = (case signal_of except of None \<Rightarrow> s | Some sig \<Rightarrow> s\<lparr>sigval := sig\<rparr>)"

section \<open>Registers\<close>

text \<open>\<open>rsp_read_all_regs\<close>: each \<open>reg2hex\<close> writes eight digits and a NUL that the next one
  overwrites.\<close>

definition rsp_read_all_regs :: "'c env \<Rightarrow> 'c rsp \<Rightarrow> 'c rsp option" where
  "rsp_read_all_regs e s = do {
     let regbuf = replicate MAX_GPRS (uninit e);
     ((err1, regbuf), s) \<leftarrow> api_cpu_read_block e SPR_GPR_BASE regbuf (int MAX_GPRS) s;
     let gprs = concat (map (\<lambda>r. reg2hex (ucast (rd regbuf r))) [0..<MAX_GPRS]);
     ((err2, regbuf), s) \<leftarrow> api_cpu_read_block e SPR_NPC regbuf 3 s;
     let errcode = err1 OR err2;
     let npc = (if use_cached_npc s then cached_npc s else rd regbuf 0);
     let data = gprs @ reg2hex (ucast (rd regbuf 2)) @ reg2hex (ucast npc) @ reg2hex (ucast (rd regbuf 1));
     if errcode = APP_ERR_NONE then rsp_put_packet e (take (NUM_REGS * 8) data) s
     else rsp_put_str_packet e ''E01'' s }"

text \<open>The digits of register \<open>r\<close> are taken from \<open>data[r * 8]\<close> on, the first of which is the letter
  of the packet.\<close>

definition reg_at :: "'c rsp \<Rightarrow> nat \<Rightarrow> u32" where
  "reg_at s r = ucast (hex2reg (\<lambda>n. buf_data (pkt_buf s) (r * 8 + n)))"

definition rsp_write_all_regs :: "'c env \<Rightarrow> 'c rsp \<Rightarrow> 'c rsp option" where
  "rsp_write_all_regs e s = do {
     let regbuf = map (reg_at s) [0..<MAX_GPRS];
     (err1, s) \<leftarrow> api_cpu_write_block e SPR_GPR_BASE regbuf (int MAX_GPRS) s;
     let regbuf = [reg_at s NPC_REGNUM, reg_at s SR_REGNUM, reg_at s PPC_REGNUM] @ drop 3 regbuf;
     (err2, s) \<leftarrow> api_cpu_write_block e SPR_NPC regbuf 3 s;
     rsp_ok_or_error e (err1 OR err2) s }"

definition rsp_read_reg :: "'c env \<Rightarrow> 'c rsp \<Rightarrow> 'c rsp option" where
  "rsp_read_reg e s =
     (case sscanf (lits ''p'' @ [Hex None]) (pkt_str s) of
        [Num n] \<Rightarrow>
          let regnum = (ucast n :: u32);
              reading = (\<lambda>spr. do {
                ((errcode, tmp), s) \<leftarrow> api_cpu_read e spr (uninit e) s;
                if errcode = APP_ERR_NONE then rsp_reply e (reg2hex (ucast tmp)) s
                else rsp_put_str_packet e ''E01'' s })
          in if regnum < of_nat MAX_GPRS then reading (SPR_GPR_BASE + regnum)
             else if of_nat PPC_REGNUM = regnum then reading SPR_PPC
             else if of_nat NPC_REGNUM = regnum
             then (if use_cached_npc s then rsp_reply e (reg2hex (ucast (cached_npc s))) s else reading SPR_NPC)
             else if of_nat SR_REGNUM = regnum then reading SPR_SR
             else rsp_put_str_packet e ''E01'' s
      | _ \<Rightarrow> rsp_put_str_packet e ''E01'' s)"

definition rsp_write_reg :: "'c env \<Rightarrow> 'c rsp \<Rightarrow> 'c rsp option" where
  "rsp_write_reg e s =
     (case sscanf (lits ''P'' @ [Hex None] @ lits ''='' @ [Word 8]) (pkt_str s) of
        [Num n, Text t] \<Rightarrow>
          let regnum = (ucast n :: u32);
              val = hex2reg (valstr e t);
              writing = (\<lambda>spr. do {
                (errcode, s) \<leftarrow> api_cpu_write e spr (ucast val) s;
                rsp_ok_or_error e errcode s })
          in if regnum < of_nat MAX_GPRS then writing (SPR_GPR_BASE + regnum)
             else if of_nat PPC_REGNUM = regnum then writing SPR_PPC
             else if of_nat NPC_REGNUM = regnum
             then do { (errcode, s) \<leftarrow> set_npc e val s; rsp_ok_or_error e errcode s }
             else if of_nat SR_REGNUM = regnum then writing SPR_SR
             else rsp_put_str_packet e ''E01'' s
      | _ \<Rightarrow> rsp_put_str_packet e ''E01'' s)"

section \<open>Memory\<close>

text \<open>An \<open>int\<close> that \<open>%x\<close> has filled, and the int product \<open>len * 2\<close>, which wraps around.\<close>

definition int_arg :: "u64 \<Rightarrow> int" where
  "int_arg n = sint (ucast n :: u32)"

definition twice :: "int \<Rightarrow> int" where
  "twice len = sint (word_of_int (len * 2) :: u32)"

definition mem_fields :: "u8 \<Rightarrow> directive list" where
  "mem_fields c = [Lit c, Hex None] @ lits '','' @ [Hex None] @ lits '':''"

definition bytes_hex :: "u8 list \<Rightarrow> u8 list" where
  "bytes_hex bs = concat (map (\<lambda>ch. [hexchars ! unat (drop_bit 4 ch), hexchars ! unat (ch AND 0xf)]) bs)"

text \<open>The digits overwrite the request whatever the result is. More digits than the buffer has
  room for are not defined.\<close>

definition rsp_read_mem :: "'c env \<Rightarrow> 'c rsp \<Rightarrow> 'c rsp option" where
  "rsp_read_mem e s =
     (case sscanf (mem_fields 0x6d) (pkt_str s) of
        [Num a, Num n] \<Rightarrow> do {
          let addr = (ucast a :: u32);
          let len = int_arg n;
          let len = (if twice len \<ge> int GDB_BUF_MAX then (int GDB_BUF_MAX - 1) div 2 else len);
          ((errcode, tmpbuf), s) \<leftarrow> api_read_mem8 e addr (mem_copy (env_host e) [] 0 (nat len)) len s;
          let digits = bytes_hex (take (nat len) tmpbuf);
          if length digits \<ge> GDB_BUF_MAX then None
          else if errcode = APP_ERR_NONE then rsp_reply e digits s
          else rsp_put_str_packet e ''E01''
            (s\<lparr>pkt_buf := (pkt_buf s)\<lparr>buf_data := overwrite digits (buf_data (pkt_buf s))\<rparr>\<rparr>) }
      | _ \<Rightarrow> rsp_put_str_packet e ''E01'' s)"

text \<open>\<open>memchr\<close> looks through the whole buffer; its null pointer is followed.\<close>

definition memchr :: "(nat \<Rightarrow> u8) \<Rightarrow> u8 \<Rightarrow> nat \<Rightarrow> nat option" where
  "memchr d c n = find (\<lambda>i. d i = c) [0..<n]"

definition nyb_pair :: "u8 \<Rightarrow> u8 \<Rightarrow> u8" where
  "nyb_pair a b = push_bit 4 (word_of_int (hex (sint a))) OR word_of_int (hex (sint b))"

definition rsp_write_mem :: "'c env \<Rightarrow> 'c rsp \<Rightarrow> 'c rsp option" where
  "rsp_write_mem e s =
     (case sscanf (mem_fields 0x4d) (pkt_str s) of
        [Num a, Num n] \<Rightarrow> do {
          let addr = (ucast a :: u32);
          let len = int_arg n;
          let d = buf_data (pkt_buf s);
          i \<leftarrow> memchr d 0x3a GDB_BUF_MAX;
          let datlen = int (buf_len (pkt_buf s)) - int (i + 1);
          if twice len \<noteq> datlen then rsp_put_str_packet e ''E01'' s
          else if \<not> malloc_ok (env_host e) len \<and> 0 < len then None
          else do {
            let tmpbuf = map (\<lambda>off. nyb_pair (d (i + 1 + off * 2)) (d (i + 1 + off * 2 + 1))) [0..<nat len];
            (errcode, s) \<leftarrow> api_write_mem8 e addr tmpbuf len s;
            rsp_ok_or_error e errcode s } }
      | _ \<Rightarrow> rsp_put_str_packet e ''E01'' s)"

definition rsp_write_mem_bin :: "'c env \<Rightarrow> 'c rsp \<Rightarrow> 'c rsp option" where
  "rsp_write_mem_bin e s =
     (case sscanf (mem_fields 0x58) (pkt_str s) of
        [Num a, Num n] \<Rightarrow> do {
          let addr = (ucast a :: u32);
          let len = int_arg n;
          let d = buf_data (pkt_buf s);
          i \<leftarrow> memchr d 0x3a GDB_BUF_MAX;
          let off = i + 1;
          let bindat = rsp_unescape (d (buf_len (pkt_buf s))) (map d [off..<buf_len (pkt_buf s)]);
          let s = s\<lparr>pkt_buf := (pkt_buf s)\<lparr>buf_data := place off bindat d\<rparr>\<rparr>;
          let newlen = int (length bindat);
          let len = (if newlen \<noteq> len then (if len < newlen then len else newlen) else len);
          (errcode, s) \<leftarrow> api_write_mem8 e addr bindat len s;
          rsp_ok_or_error e errcode s }
      | _ \<Rightarrow> rsp_put_str_packet e ''E01'' s)"

section \<open>Queries and commands\<close>

definition starts :: "string \<Rightarrow> u8 list \<Rightarrow> bool" where
  "starts str cs \<longleftrightarrow> take (length str) cs = asc str"

definition rsp_command :: "'c env \<Rightarrow> 'c rsp \<Rightarrow> 'c rsp option" where
  "rsp_command e s =
     (let cmd = takeWhile (\<lambda>c. c \<noteq> 0) (hex2ascii (drop 6 (pkt_str s)))
      in if starts ''readspr'' cmd
         then case sscanf (lits ''readspr'' @ [Space, Hex (Some 4)]) cmd of
             [Num n] \<Rightarrow>
               let regno = (ucast n :: u32)
               in if regno > MAX_SPRS then rsp_put_str_packet e ''E01'' s
                  else do {
                    ((_, tmp), s) \<leftarrow> api_cpu_read e regno (uninit e) s;
                    let cmd = replicate (8 - length (hexnum (unat tmp))) 0x20 @ hexnum (unat tmp);
                    rsp_reply e (ascii2hex cmd) s }
           | _ \<Rightarrow> rsp_put_str_packet e ''E01'' s
         else if starts ''writespr'' cmd
         then case sscanf (lits ''writespr'' @ [Space, Hex (Some 4), Space, Hex (Some 8)]) cmd of
             [Num n, Num val] \<Rightarrow>
               let regno = (ucast n :: u32)
               in if regno > MAX_SPRS then rsp_put_str_packet e ''E01'' s
                  else do {
                    (_, s) \<leftarrow> api_cpu_write e regno (ucast val) s;
                    rsp_put_str_packet e ''OK'' s }
           | _ \<Rightarrow> rsp_put_str_packet e ''E01'' s
         else Some s)"

definition rsp_query :: "'c env \<Rightarrow> 'c rsp \<Rightarrow> 'c rsp option" where
  "rsp_query e s =
     (let q = pkt_str s
      in if q = asc ''qC'' then rsp_put_str_packet e [] s
         else if starts ''qCRC'' q then rsp_put_str_packet e ''E01'' s
         else if q = asc ''qfThreadInfo'' then rsp_put_str_packet e ''m-1'' s
         else if q = asc ''qsThreadInfo'' then rsp_put_str_packet e ''l'' s
         else if starts ''qGetTLSAddr:'' q then rsp_put_str_packet e [] s
         else if starts ''qL'' q then rsp_put_str_packet e ''qM001'' s
         else if q = asc ''qOffsets'' then rsp_put_str_packet e ''Text=0;Data=0;Bss=0'' s
         else if starts ''qP'' q then rsp_put_str_packet e [] s
         else if starts ''qRcmd,'' q then rsp_command e s
         else if starts ''qSupported'' q then rsp_put_str_packet e ''PacketSize=4000'' s
         else if starts ''qSymbol:'' q then rsp_put_str_packet e ''OK'' s
         else if starts ''qThreadExtraInfo,'' q then rsp_reply e (asc ''52756e6e61626c6500'') s
         else if starts ''qXfer:'' q then rsp_put_str_packet e [] s
         else if starts ''qAttached'' q then rsp_put_str_packet e [] s
         else if q = asc ''qTStatus'' then rsp_put_str_packet e [] s
         else Some s)"

definition rsp_set :: "'c env \<Rightarrow> 'c rsp \<Rightarrow> 'c rsp option" where
  "rsp_set e s =
     (let q = pkt_str s
      in if starts ''QPassSignals:'' q then rsp_put_str_packet e [] s
         else if starts ''QTDP'' q \<or> starts ''QFrame'' q \<or> q = asc ''QTStart'' \<or> q = asc ''QTStop'' \<or>
                 q = asc ''QTinit'' \<or> starts ''QTro'' q
         then rsp_put_str_packet e [] s
         else Some s)"

definition rsp_vpkt :: "'c env \<Rightarrow> 'c rsp \<Rightarrow> 'c rsp option" where
  "rsp_vpkt e s =
     (let q = pkt_str s
      in if starts ''vAttach;'' q then rsp_put_str_packet e ''S05'' s
         else if q = asc ''vCont?'' then rsp_put_str_packet e [] s
         else if starts ''vCont'' q then Some s
         else if starts ''vFile:'' q then rsp_put_str_packet e [] s
         else if starts ''vFlashErase:'' q then rsp_put_str_packet e ''E01'' s
         else if starts ''vFlashWrite:'' q then rsp_put_str_packet e ''E01'' s
         else if q = asc ''vFlashDone'' then rsp_put_str_packet e ''E01'' s
         else if starts ''vRun;'' q then do { s \<leftarrow> rsp_restart e s; rsp_put_str_packet e ''S05'' s }
         else rsp_put_str_packet e ''E01'' s)"

section \<open>Matchpoints\<close>

definition mp_type_of :: "int \<Rightarrow> mp_type option" where
  "mp_type_of n =
     (if n = 0 then Some BP_MEMORY else if n = 1 then Some BP_HARDWARE else if n = 2 then Some WP_WRITE
      else if n = 3 then Some WP_READ else if n = 4 then Some WP_ACCESS else None)"

definition mp_fields :: "u8 \<Rightarrow> directive list" where
  "mp_fields c = [Lit c, Dec 1] @ lits '','' @ [Hex None] @ lits '','' @ [Dec 1]"

text \<open>The bit of a watchpoint in DMR2, and its pair of chain bits in DMR1.\<close>

definition wgb_bit :: "nat \<Rightarrow> u32" where
  "wgb_bit hwp = push_bit 12 (push_bit hwp 1)"

definition chain_bits :: "nat \<Rightarrow> u32" where
  "chain_bits hwp = push_bit (2 * hwp) 3"

definition remove_hardware :: "'c env \<Rightarrow> mp_entry \<Rightarrow> 'c rsp \<Rightarrow> 'c rsp option" where
  "remove_hardware e mpe s = do {
     let hwp = unat (mp_instr mpe);
     ((_, regdata), s) \<leftarrow> api_cpu_read e SPR_DMR2 (uninit e) s;
     let regdata = regdata AND NOT (wgb_bit hwp);
     (_, s) \<leftarrow> api_cpu_write e SPR_DMR2 regdata s;
     (_, s) \<leftarrow> api_cpu_write e (SPR_DCR hwp) 0x01 s;
     Some (s\<lparr>tgt := hwp_return_watchpoint hwp (tgt s)\<rparr>) }"

definition remove_memory :: "'c env \<Rightarrow> u32 \<Rightarrow> 'c rsp \<Rightarrow> 'c rsp option" where
  "remove_memory e addr s = do {
     let (mpe, t) = mp_hash_delete BP_MEMORY (ucast addr) (mp_hash s);
     let s = s\<lparr>mp_hash := t\<rparr>;
     s \<leftarrow> (case mpe of
            Some mpe \<Rightarrow> do { (_, s) \<leftarrow> api_write_instr e addr (ucast (mp_instr mpe)) s; Some s }
          | None \<Rightarrow> Some s);
     rsp_put_str_packet e ''OK'' s }"

definition remove_watch :: "'c env \<Rightarrow> mp_type \<Rightarrow> u32 \<Rightarrow> 'c rsp \<Rightarrow> 'c rsp option" where
  "remove_watch e type addr s = do {
     let (mpe, t) = mp_hash_delete type (ucast addr) (mp_hash s);
     let s = s\<lparr>mp_hash := t\<rparr>;
     s \<leftarrow> (case mpe of Some mpe \<Rightarrow> remove_hardware e mpe s | None \<Rightarrow> Some s);
     rsp_put_str_packet e ''OK'' s }"

definition rsp_remove_matchpoint :: "'c env \<Rightarrow> 'c rsp \<Rightarrow> 'c rsp option" where
  "rsp_remove_matchpoint e s =
     (case sscanf (mp_fields 0x7a) (pkt_str s) of
        [Num ty, Num a, Num n] \<Rightarrow>
          (case mp_type_of (int_arg ty) of
             None \<Rightarrow> rsp_put_str_packet e ''E01'' s
           | Some type \<Rightarrow>
               if type = BP_MEMORY then remove_memory e (ucast a) s else remove_watch e type (ucast a) s)
      | _ \<Rightarrow> rsp_put_str_packet e ''E01'' s)"

text \<open>The four kinds of hardware matchpoints differ in the value for the control register.\<close>

definition insert_hardware :: "'c env \<Rightarrow> mp_type \<Rightarrow> u32 \<Rightarrow> u32 \<Rightarrow> 'c rsp \<Rightarrow> 'c rsp option" where
  "insert_hardware e type addr dcr s =
     (let (hwp, t) = hwp_get_available_watchpoint (tgt s); s = s\<lparr>tgt := t\<rparr>
      in if hwp = -1 then rsp_put_str_packet e [] s
         else do {
           let s = s\<lparr>mp_hash := mp_hash_add type (ucast addr) (of_int hwp) (mp_hash s)\<rparr>;
           let hwp = nat hwp;
           (_, s) \<leftarrow> api_cpu_write e (SPR_DVR hwp) addr s;
           (_, s) \<leftarrow> api_cpu_write e (SPR_DCR hwp) dcr s;
           ((_, regdata), s) \<leftarrow> api_cpu_read e SPR_DMR2 dcr s;
           (_, s) \<leftarrow> api_cpu_write e SPR_DMR2 (regdata OR wgb_bit hwp) s;
           ((_, regdata), s) \<leftarrow> api_cpu_read e SPR_DMR1 (regdata OR wgb_bit hwp) s;
           (_, s) \<leftarrow> api_cpu_write e SPR_DMR1 (regdata AND NOT (chain_bits hwp)) s;
           rsp_put_str_packet e ''OK'' s })"

definition insert_memory :: "'c env \<Rightarrow> u32 \<Rightarrow> 'c rsp \<Rightarrow> 'c rsp option" where
  "insert_memory e addr s = do {
     ((_, instr), s) \<leftarrow> api_read_instr e addr (uninit e) s;
     let s = s\<lparr>mp_hash := mp_hash_add BP_MEMORY (ucast addr) (ucast instr) (mp_hash s)\<rparr>;
     (_, s) \<leftarrow> api_write_instr e addr OR1K_TRAP_INSTR s;
     rsp_put_str_packet e ''OK'' s }"

definition rsp_insert_matchpoint :: "'c env \<Rightarrow> 'c rsp \<Rightarrow> 'c rsp option" where
  "rsp_insert_matchpoint e s =
     (case sscanf (mp_fields 0x5a) (pkt_str s) of
        [Num ty, Num a, Num n] \<Rightarrow>
          let addr = (ucast a :: u32)
          in (case mp_type_of (int_arg ty) of
            None \<Rightarrow> rsp_put_str_packet e ''E01'' s
          | Some BP_MEMORY \<Rightarrow> insert_memory e addr s
          | Some BP_HARDWARE \<Rightarrow> insert_hardware e BP_HARDWARE addr 0x23 s
          | Some WP_WRITE \<Rightarrow> insert_hardware e WP_WRITE addr 0x63 s
          | Some WP_READ \<Rightarrow> insert_hardware e WP_READ addr 0x43 s
          | Some WP_ACCESS \<Rightarrow> insert_hardware e WP_ACCESS addr 0xC3 s)
      | _ \<Rightarrow> rsp_put_str_packet e ''E01'' s)"

section \<open>Requests\<close>

abbreviation byte :: "char \<Rightarrow> u8" where
  "byte c \<equiv> of_char c"

text \<open>Detaching is a list of steps, because the thread that watches the target may run between
  them.\<close>

definition detach_steps :: "'c env \<Rightarrow> ('c rsp \<Rightarrow> 'c rsp option) list" where
  "detach_steps e =
     [rsp_put_str_packet e ''OK'', rsp_client_close e, \<lambda>s. Some (set_stall_state False s)]"

fun in_order :: "('s \<Rightarrow> 's option) list \<Rightarrow> 's \<Rightarrow> 's option" where
  "in_order [] s = Some s"
| "in_order (f # fs) s = do { s \<leftarrow> f s; in_order fs s }"

text \<open>The switch on the first character; a character without a case is ignored.\<close>

definition rsp_dispatch :: "'c env \<Rightarrow> u8 \<Rightarrow> 'c rsp \<Rightarrow> 'c rsp option" where
  "rsp_dispatch e c s =
     (if c = 0x03 then Some s
      else if c = byte CHR ''!'' then rsp_put_str_packet e ''OK'' s
      else if c = byte CHR ''?'' then rsp_report_exception e s
      else if c = byte CHR ''A'' then rsp_put_str_packet e ''E01'' s
      else if c = byte CHR ''b'' \<or> c = byte CHR ''B'' then Some s
      else if c = byte CHR ''c'' then rsp_continue e s
      else if c = byte CHR ''C'' then rsp_continue_with_signal s
      else if c = byte CHR ''d'' then Some s
      else if c = byte CHR ''D'' then in_order (detach_steps e) s
      else if c = byte CHR ''F'' then Some s
      else if c = byte CHR ''g'' then rsp_read_all_regs e s
      else if c = byte CHR ''G'' then rsp_write_all_regs e s
      else if c = byte CHR ''H'' then rsp_put_str_packet e ''OK'' s
      else if c = byte CHR ''i'' then rsp_step e s
      else if c = byte CHR ''I'' then rsp_step_with_signal e s
      else if c = byte CHR ''k'' then Some s
      else if c = byte CHR ''m'' then rsp_read_mem e s
      else if c = byte CHR ''M'' then rsp_write_mem e s
      else if c = byte CHR ''p'' then rsp_read_reg e s
      else if c = byte CHR ''P'' then rsp_write_reg e s
      else if c = byte CHR ''q'' then rsp_query e s
      else if c = byte CHR ''Q'' then rsp_set e s
      else if c = byte CHR ''r'' then Some s
      else if c = byte CHR ''R'' then rsp_restart e s
      else if c = byte CHR ''s'' then rsp_step e s
      else if c = byte CHR ''S'' then rsp_step_with_signal e s
      else if c = byte CHR ''t'' then Some s
      else if c = byte CHR ''T'' then rsp_put_str_packet e ''OK'' s
      else if c = byte CHR ''v'' then rsp_vpkt e s
      else if c = byte CHR ''X'' then rsp_write_mem_bin e s
      else if c = byte CHR ''z'' then rsp_remove_matchpoint e s
      else if c = byte CHR ''Z'' then rsp_insert_matchpoint e s
      else Some s)"

definition rsp_client_request :: "'c env \<Rightarrow> 'c rsp \<Rightarrow> 'c rsp option" where
  "rsp_client_request e s = do {
     (ok, s) \<leftarrow> rsp_get_packet e s;
     if \<not> ok then rsp_client_close e s
     else let c = buf_data (pkt_buf s) 0
          in if target_running s
             then (if c = 0x03 then Some (set_stall_state True s)
                   else rsp_put_str_packet e ''O6154677274656e20746f73206f74707064650a0d'' s)
             else rsp_dispatch e c s }"

section \<open>The server\<close>

text \<open>\<open>rsp_init\<close>: the protocol number of TCP and the port of the service, if they are found, the
  result of \<open>socket\<close>, and whether the calls that prepare the socket (\<open>setsockopt\<close> to \<open>listen\<close>)
  succeed.\<close>

definition rsp_init :: "int option \<Rightarrow> int option \<Rightarrow> int \<Rightarrow> bool \<Rightarrow> int \<Rightarrow> 'c rsp \<Rightarrow> 'c rsp" where
  "rsp_init protocol service sock prepared portNum s =
     (let s = s\<lparr>client_waiting := False, proto_num := -1, server_fd := -1, client_fd := -1, sigval := 0,
        start_addr := EXCEPT_RESET, mp_hash := mp_hash_init\<rparr>
      in case protocol of
           None \<Rightarrow> s
         | Some p_proto \<Rightarrow>
             let s = s\<lparr>proto_num := p_proto\<rparr>
             in if portNum = 0 \<and> service = None then s
                else let s = s\<lparr>server_fd := sock\<rparr>
                     in if server_fd s < 0 then s
                        else if \<not> prepared then rsp_server_close s
                        else s)"

text \<open>What \<open>accept\<close> gives: an error after which it may be tried again, another error, or a
  descriptor with the future of its connection; for a descriptor, whether \<open>fcntl\<close> and
  \<open>setsockopt\<close> succeed on it.\<close>

datatype accept_result = Accept_Retry | Accept_Error | Accept_Fd int bool "rd_event list" "wr_event list"

definition setup_cpu :: "'c env \<Rightarrow> 'c rsp \<Rightarrow> 'c rsp option" where
  "setup_cpu e s = do {
     let s = set_stall_state True s;
     let s = s\<lparr>target_running := False, single_step_mode := False\<rparr>;
     ((_, tmp), s) \<leftarrow> api_cpu_read e SPR_DSR (uninit e) s;
     (_, s) \<leftarrow> api_cpu_write e SPR_DSR
        (tmp OR SPR_DSR_TE OR SPR_DSR_FPE OR SPR_DSR_RE OR SPR_DSR_IIE OR SPR_DSR_AE OR SPR_DSR_BUSEE) s;
     ((_, tmp), s) \<leftarrow> api_cpu_read e SPR_SR tmp s;
     (_, s) \<leftarrow> api_cpu_write e SPR_SR (tmp OR SPR_SR_SM) s;
     Some s }"

definition rsp_server_request :: "'c env \<Rightarrow> accept_result \<Rightarrow> 'c rsp \<Rightarrow> 'c rsp option" where
  "rsp_server_request e acc s =
     (case acc of
        Accept_Retry \<Rightarrow> Some s
      | Accept_Error \<Rightarrow> do { s \<leftarrow> rsp_client_close e s; Some (rsp_server_close s) }
      | Accept_Fd fd ok rds wrs \<Rightarrow>
          if client_fd s \<noteq> -1 then Some s
          else if \<not> ok then Some s
          else do {
            ((r, fds), t) \<leftarrow> register_with_monitor_thread (pipe_fds s) (tgt s);
            let s = s\<lparr>pipe_fds := fds, tgt := t\<rparr>;
            if 0 > r then Some (rsp_server_close s)
            else setup_cpu e (s\<lparr>client_fd := fd, client_in := rds, client_wr := wrs, client_out := []\<rparr>) })"

text \<open>What the two calls of \<open>poll\<close> report. A negative descriptor is never reported, so a wait for
  the server socket when it has been closed does not end.\<close>

datatype server_poll = Server_Intr | Server_Failed | Server_Timeout | Server_Input accept_result | Server_Flags
datatype client_poll = Client_Intr | Client_Failed | Client_Timeout | Client_Ready bool bool

definition close_both :: "'c env \<Rightarrow> 'c rsp \<Rightarrow> (int \<times> 'c rsp) option" where
  "close_both e s = do { s \<leftarrow> rsp_client_close e s; Some (0, rsp_server_close s) }"

text \<open>The while loop: \<open>Inl\<close> is the return from the middle of it.\<close>

fun wait_client :: "'c env \<Rightarrow> server_poll list \<Rightarrow> 'c rsp \<Rightarrow> ((int \<times> 'c rsp) + 'c rsp) option" where
  "wait_client e [] s = (if client_fd s \<noteq> -1 then Some (Inr s) else None)"
| "wait_client e (p # ps) s =
     (if client_fd s \<noteq> -1 then Some (Inr s)
      else case p of
             Server_Intr \<Rightarrow> wait_client e ps s
           | Server_Failed \<Rightarrow> map_option Inl (close_both e s)
           | Server_Timeout \<Rightarrow> wait_client e ps s
           | Server_Input acc \<Rightarrow>
               if server_fd s = -1 then None
               else do {
                 s \<leftarrow> rsp_server_request e acc s;
                 wait_client e ps (s\<lparr>client_waiting := False\<rparr>) }
           | Server_Flags \<Rightarrow> if server_fd s = -1 then None else map_option Inl (close_both e s))"

text \<open>The target has halted: find out why, move the NPC back for a breakpoint, tell GDB.\<close>

definition target_halted :: "'c env \<Rightarrow> 'c rsp \<Rightarrow> 'c rsp option" where
  "target_halted e s = do {
     let s = s\<lparr>target_running := False\<rparr>;
     ((_, drrval), s) \<leftarrow> api_cpu_read e SPR_DRR (uninit e) s;
     let s = rsp_exception drrval s;
     if client_waiting s then do {
       ((_, ppcval), s) \<leftarrow> api_cpu_read e SPR_PPC (uninit e) s;
       s \<leftarrow> (if TARGET_SIGNAL_TRAP = sigval s then
              (if mp_hash_lookup BP_MEMORY (ucast ppcval) (mp_hash s) \<noteq> None
               then do { (_, s) \<leftarrow> set_npc e (ucast ppcval) s; Some s }
               else do {
                 ((_, dmr2val), s) \<leftarrow> api_cpu_read e SPR_DMR2 (uninit e) s;
                 if dmr2val AND SPR_DMR2_WBS \<noteq> 0
                 then do { (_, s) \<leftarrow> set_npc e (ucast ppcval) s; Some s }
                 else Some s })
            else Some s);
       s \<leftarrow> rsp_report_exception e s;
       Some (s\<lparr>client_waiting := False\<rparr>) }
     else Some s }"

definition monitor_event :: "'c env \<Rightarrow> 'c rsp \<Rightarrow> 'c rsp option" where
  "monitor_event e s = do {
     (got, t) \<leftarrow> read_status (snd (pipe_fds s)) (tgt s);
     let s = s\<lparr>tgt := t\<rparr>;
     let monitor_status = (case got of Some c \<Rightarrow> c | None \<Rightarrow> char_of (unat (mem_byte (env_host e) [] 0)));
     if monitor_status = CHR ''H'' then (if target_running s then target_halted e s else Some s)
     else if monitor_status = CHR ''R'' then Some (s\<lparr>target_running := True\<rparr>)
     else Some s }"

definition handle_rsp :: "'c env \<Rightarrow> server_poll list \<Rightarrow> client_poll \<Rightarrow> 'c rsp \<Rightarrow> (int \<times> 'c rsp) option" where
  "handle_rsp e waits p s =
     (if -1 = server_fd s then Some (0, s)
      else do {
        w \<leftarrow> wait_client e waits s;
        case w of
          Inl r \<Rightarrow> Some r
        | Inr s \<Rightarrow>
            (case p of
               Client_Intr \<Rightarrow> Some (1, s)
             | Client_Failed \<Rightarrow> close_both e s
             | Client_Timeout \<Rightarrow> Some (1, s)
             | Client_Ready client pipe \<Rightarrow> do {
                 s \<leftarrow> (if client then rsp_client_request e s
                      else if pipe then monitor_event e s
                      else rsp_client_close e s);
                 Some (1, s) }) })"

end
