(* ===== verification/Link_Frame.thy ===== *)
theory Link_Frame
  imports Rsp_Link
begin

text \<open>
  Conditions on the state that the routines of the link keep. Such a condition must survive
  every update of the link and the closing of the client; then every routine keeps it, in
  whatever way it ends. The rules work on a handler from its first call to its last.
\<close>

section \<open>Results of a call\<close>

definition yields :: "('a \<Rightarrow> bool) \<Rightarrow> 'a option \<Rightarrow> bool" where
  "yields Q m \<longleftrightarrow> (\<forall>x. m = Some x \<longrightarrow> Q x)"

named_theorems yields_intros

lemma yields_Some [yields_intros]: "Q x \<Longrightarrow> yields Q (Some x)"
  by (simp add: yields_def)

lemma yields_None [yields_intros]: "yields Q None"
  by (simp add: yields_def)

lemma yields_if [yields_intros]:
  "(b \<Longrightarrow> yields Q m) \<Longrightarrow> (\<not> b \<Longrightarrow> yields Q n) \<Longrightarrow> yields Q (if b then m else n)"
  by simp

lemma yields_bind: "yields P m \<Longrightarrow> (\<And>x. P x \<Longrightarrow> yields Q (f x)) \<Longrightarrow> yields Q (m \<bind> f)"
  by (cases m) (auto simp: yields_def)

lemma yields_mono: "yields P m \<Longrightarrow> (\<And>x. P x \<Longrightarrow> Q x) \<Longrightarrow> yields Q m"
  by (auto simp: yields_def)

lemma yieldsD: "yields Q m \<Longrightarrow> m = Some x \<Longrightarrow> Q x"
  by (simp add: yields_def)

lemma yields_map_option: "yields (\<lambda>x. Q (f x)) m \<Longrightarrow> yields Q (map_option f m)"
  by (auto simp: yields_def)

section \<open>The routines of the link\<close>

locale link_inv =
  fixes close :: "'a link_scheme \<Rightarrow> 'a link_scheme option"
    and I :: "'a link_scheme \<Rightarrow> bool"
  assumes link: "I s \<Longrightarrow> I (s\<lparr>client_in := x\<rparr>)" "I s \<Longrightarrow> I (s\<lparr>client_out := o'\<rparr>)" "I s \<Longrightarrow> I (s\<lparr>client_wr := w\<rparr>)"
      "I s \<Longrightarrow> I (s\<lparr>pkt_buf := b\<rparr>)"
    and close: "I s \<Longrightarrow> yields I (close s)"
begin

lemma store_inv: "I s \<Longrightarrow> I (store_char i c s)" "I s \<Longrightarrow> I (set_len n s)" "I s \<Longrightarrow> I (reply_in_buf bs s)"
  by (simp_all add: store_char_def set_len_def reply_in_buf_def link)

lemma get_char_inv: "I s \<Longrightarrow> yields (\<lambda>y. I (snd y)) (get_char close s)"
  unfolding get_char_def
  by (cases "read_loop (client_in s)")
    (auto simp: Let_def intro!: yields_intros yields_bind [OF close] link)

lemma put_char_inv: "I s \<Longrightarrow> yields I (put_char close c s)"
  unfolding put_char_def
  by (cases "write_loop (client_wr s)") (auto simp: Let_def intro!: yields_intros close link)

lemmas char_binds = yields_bind [OF get_char_inv] yields_bind [OF put_char_inv]

lemma put_body_inv: "I s \<Longrightarrow> yields (\<lambda>y. I (snd y)) (put_body close data cs s)"
  by (induction data arbitrary: cs s) (auto simp: Let_def intro!: yields_intros char_binds)

lemma put_packet_inv:
  assumes "I s"
  shows "yields I (put_packet close data s)"
proof -
  let ?P = "\<lambda>c (data :: u8 list) s t. c = close \<longrightarrow> I s \<longrightarrow> I t"
  have "?P close data s t" if "put_packet close data s = Some t" for t
    using that
  proof (rule put_packet.raw_induct [where P = ?P, rotated], intro impI, goal_cases)
    case (1 pp c data s t)
    have IH: "yields I (pp close data s')" if "I s'" for s'
      using 1(1) [of close] that by (simp add: yields_def)
    show ?case
      by (rule yieldsD [OF _ 1(2)], unfold \<open>c = close\<close>)
        (auto intro!: yields_intros char_binds yields_bind [OF put_body_inv] IH \<open>I s\<close>)
  qed
  with assms show ?thesis by (simp add: yields_def)
qed

lemma put_str_packet_inv: "I s \<Longrightarrow> yields I (put_str_packet m close str s)"
  by (simp add: put_str_packet_def Let_def put_packet_inv)

lemma wait_start_inv:
  assumes "I s"
  shows "yields (\<lambda>y. I (snd y)) (wait_start brk close s)"
proof -
  let ?P = "\<lambda>(b :: bool) c s y. c = close \<longrightarrow> I s \<longrightarrow> I (snd y)"
  have "?P brk close s y" if "wait_start brk close s = Some y" for y
    using that
  proof (rule wait_start.raw_induct [where P = ?P, rotated], intro impI, goal_cases)
    case (1 ws b c s y)
    have IH: "yields (\<lambda>y. I (snd y)) (ws b close s')" if "I s'" for s'
      using 1(1) [of b close] that by (simp add: yields_def)
    show ?case
      by (rule yieldsD [OF _ 1(2)], unfold \<open>c = close\<close>) (auto intro!: yields_intros char_binds IH \<open>I s\<close>)
  qed
  with assms show ?thesis by (simp add: yields_def)
qed

lemma read_body_inv:
  assumes "I s"
  shows "yields (\<lambda>y. I (snd y)) (read_body buf_max close ch cs n s)"
proof -
  let ?P = "\<lambda>(m :: nat) c (ch :: int) (cs :: u8) (n :: nat) s y. c = close \<longrightarrow> I s \<longrightarrow> I (snd y)"
  have "?P buf_max close ch cs n s y" if "read_body buf_max close ch cs n s = Some y" for y
    using that
  proof (rule read_body.raw_induct [where P = ?P, rotated], intro impI, goal_cases)
    case (1 rb m c ch cs n s y)
    have IH: "yields (\<lambda>y. I (snd y)) (rb m close ch' cs' n' s')" if "I s'" for ch' cs' n' s'
      using 1(1) [of m close] that by (simp add: yields_def)
    show ?case
      by (rule yieldsD [OF _ 1(2)], unfold \<open>c = close\<close>)
        (auto intro!: yields_intros char_binds IH store_inv \<open>I s\<close>)
  qed
  with assms show ?thesis by (simp add: yields_def)
qed

lemma get_packet_inv:
  assumes "I s"
  shows "yields (\<lambda>y. I (snd y)) (get_packet buf_max brk close s)"
proof -
  let ?P = "\<lambda>(m :: nat) (b :: bool) c s y. c = close \<longrightarrow> I s \<longrightarrow> I (snd y)"
  have "?P buf_max brk close s y" if "get_packet buf_max brk close s = Some y" for y
    using that
  proof (rule get_packet.raw_induct [where P = ?P, rotated], intro impI, goal_cases)
    case (1 gp m b c s y)
    have IH: "yields (\<lambda>y. I (snd y)) (gp m b' close s')" if "I s'" for b' s'
      using 1(1) [of m b' close] that by (simp add: yields_def)
    show ?case
      by (rule yieldsD [OF _ 1(2)], unfold \<open>c = close\<close>)
        (auto simp: Let_def intro!: yields_intros char_binds yields_bind [OF wait_start_inv]
          yields_bind [OF read_body_inv] IH store_inv \<open>I s\<close>)
  qed
  with assms show ?thesis by (simp add: yields_def)
qed

end

end
