(* ===== verification/Rsp_Table.thy ===== *)
theory Rsp_Table
  imports Rsp_Server Link_Frame
begin

text \<open>
  What the GDB server keeps of its table of matchpoints, of the grants of watchpoints and of
  the last signal: only the packets \<open>Z\<close> and \<open>z\<close> change the first two, only the report of a halt
  changes the signal.
\<close>

definition on_table :: "(mp_table \<Rightarrow> bool list \<Rightarrow> nat \<Rightarrow> bool) \<Rightarrow> 'c rsp \<Rightarrow> bool" where
  "on_table R s \<longleftrightarrow> R (mp_hash s) (hwp_in_use (tgt s)) (sigval s)"

section \<open>Calls that keep the table\<close>

lemma on_table_update [simp]:
  "on_table R (s\<lparr>client_in := a\<rparr>) = on_table R s" "on_table R (s\<lparr>client_out := b\<rparr>) = on_table R s"
  "on_table R (s\<lparr>client_wr := c\<rparr>) = on_table R s" "on_table R (s\<lparr>pkt_buf := d\<rparr>) = on_table R s"
  "on_table R (s\<lparr>client_fd := f\<rparr>) = on_table R s" "on_table R (s\<lparr>target_running := g\<rparr>) = on_table R s"
  "on_table R (s\<lparr>client_waiting := g\<rparr>) = on_table R s" "on_table R (s\<lparr>single_step_mode := g\<rparr>) = on_table R s"
  "on_table R (s\<lparr>use_cached_npc := g\<rparr>) = on_table R s" "on_table R (s\<lparr>cached_npc := h\<rparr>) = on_table R s"
  "on_table R (s\<lparr>pipe_fds := i\<rparr>) = on_table R s" "on_table R (s\<lparr>server_fd := f\<rparr>) = on_table R s"
  by (simp_all add: on_table_def)

lemma on_table_tgt: "on_table R s \<Longrightarrow> hwp_in_use t = hwp_in_use (tgt s) \<Longrightarrow> on_table R (s\<lparr>tgt := t\<rparr>)"
  by (simp add: on_table_def)

lemma api_keeps:
  assumes "on_table R s"
  shows "yields (\<lambda>y. on_table R (snd y)) (api_cpu_read e a x s)"
    "yields (\<lambda>y. on_table R (snd y)) (api_cpu_write e a x s)"
    "yields (\<lambda>y. on_table R (snd y)) (api_cpu_read_block e a xs n s)"
    "yields (\<lambda>y. on_table R (snd y)) (api_cpu_write_block e a xs n s)"
    "yields (\<lambda>y. on_table R (snd y)) (api_read_mem8 e a bs n s)"
    "yields (\<lambda>y. on_table R (snd y)) (api_write_mem8 e a bs n s)"
    "yields (\<lambda>y. on_table R (snd y)) (api_read_instr e a x s)"
    "yields (\<lambda>y. on_table R (snd y)) (api_write_instr e a x s)"
  using assms by (auto simp: yields_def on_table_def dest!: api_frame)

lemmas api_binds = api_keeps [THEN yields_bind]

lemma send_command_in_use [simp]: "hwp_in_use (send_command fd cmd t) = hwp_in_use t"
  by (simp add: send_command_def)

lemma stall_keeps [simp]: "on_table R (set_stall_state stall s) = on_table R s"
  by (simp add: set_stall_state_def on_table_def Let_def)

lemma server_close_keeps [simp]: "on_table R (rsp_server_close s) = on_table R s"
  by (simp add: rsp_server_close_def)

lemma unregister_in_use: "yields (\<lambda>y. hwp_in_use (snd y) = hwp_in_use t) (unregister_with_monitor_thread fds t)"
  by (auto simp: yields_def unregister_with_monitor_thread_def lock_pipes_def unlock_pipes_def
      split: if_splits option.splits)

lemma register_in_use: "yields (\<lambda>y. hwp_in_use (snd y) = hwp_in_use t) (register_with_monitor_thread fds t)"
  by (auto simp: yields_def register_with_monitor_thread_def register_locked_def lock_pipes_def unlock_pipes_def sys_pipe_def Let_def
      split: if_splits option.splits list.splits)

lemma read_status_in_use: "yields (\<lambda>y. hwp_in_use (snd y) = hwp_in_use t) (read_status fd t)"
  by (auto simp: yields_def read_status_def take_status_def split: if_splits option.splits list.splits)

lemma client_close_keeps: "on_table R s \<Longrightarrow> yields (on_table R) (rsp_client_close e s)"
  unfolding rsp_client_close_def Let_def
  by (auto intro!: yields_intros api_binds yields_bind [OF unregister_in_use] on_table_tgt)

interpretation rsp_keep: link_inv "rsp_client_close e" "on_table R" for e R
  by unfold_locales (simp_all add: client_close_keeps)

lemmas rsp_link_defs = rsp_get_packet_def rsp_put_packet_def rsp_put_str_packet_def

lemma rsp_link_keeps:
  assumes "on_table R s"
  shows "yields (\<lambda>y. on_table R (snd y)) (rsp_get_packet e s)" "yields (on_table R) (rsp_put_packet e bs s)"
    "yields (on_table R) (rsp_put_str_packet e str s)" "yields (on_table R) (rsp_reply e bs s)"
    "yields (on_table R) (rsp_ok_or_error e errcode s)"
  using assms
  by (auto simp: rsp_link_defs rsp_reply_def rsp_ok_or_error_def Let_def
      intro!: yields_intros rsp_keep.get_packet_inv rsp_keep.put_packet_inv rsp_keep.put_str_packet_inv rsp_keep.store_inv)

lemmas rsp_link_binds = rsp_link_keeps [THEN yields_bind]

lemma set_npc_keeps: "on_table R s \<Longrightarrow> yields (\<lambda>y. on_table R (snd y)) (set_npc e a s)"
  unfolding set_npc_def by (auto intro!: yields_intros api_binds)

lemma yields_if_bind [yields_intros]:
  "(b \<Longrightarrow> yields Q (m \<bind> f)) \<Longrightarrow> (\<not> b \<Longrightarrow> yields Q (n \<bind> f)) \<Longrightarrow> yields Q ((if b then m else n) \<bind> f)"
  by simp

lemmas rsp_intros = yields_intros api_binds api_keeps rsp_link_keeps rsp_link_binds
  yields_bind [OF set_npc_keeps] yields_bind [OF client_close_keeps] client_close_keeps

lemma generic_keeps:
  assumes "on_table R s"
  shows "yields (on_table R) (rsp_continue_generic e s)" "yields (on_table R) (rsp_step_generic e s)"
    "yields (on_table R) (rsp_report_exception e s)" "yields (on_table R) (rsp_restart e s)"
  unfolding rsp_continue_generic_def rsp_step_generic_def rsp_report_exception_def rsp_restart_def Let_def
  using assms by (auto intro!: rsp_intros)

text \<open>Results of \<open>sscanf\<close> are looked at by the length of the list.\<close>

lemma yields_scan1 [yields_intros]:
  "(\<And>n. yields Q (f n)) \<Longrightarrow> yields Q z \<Longrightarrow> yields Q (case xs of [Num n] \<Rightarrow> f n | _ \<Rightarrow> z)"
  by (auto split: list.split scanned.split)

lemma yields_scan1_bind [yields_intros]:
  "(\<And>n. yields Q (f n \<bind> g)) \<Longrightarrow> yields Q (z \<bind> g) \<Longrightarrow> yields Q ((case xs of [Num n] \<Rightarrow> f n | _ \<Rightarrow> z) \<bind> g)"
  by (auto split: list.split scanned.split)

lemma yields_scan2 [yields_intros]:
  "(\<And>n m. yields Q (f n m)) \<Longrightarrow> yields Q z \<Longrightarrow> yields Q (case xs of [Num n, Num m] \<Rightarrow> f n m | _ \<Rightarrow> z)"
  by (auto split: list.split scanned.split)

lemma yields_scan_text [yields_intros]:
  "(\<And>n t. yields Q (f n t)) \<Longrightarrow> yields Q z \<Longrightarrow> yields Q (case xs of [Num n, Text t] \<Rightarrow> f n t | _ \<Rightarrow> z)"
  by (auto split: list.split scanned.split)

lemma yields_scan3 [yields_intros]:
  "(\<And>n m k. yields Q (f n m k)) \<Longrightarrow> yields Q z \<Longrightarrow>
     yields Q (case xs of [Num n, Num m, Num k] \<Rightarrow> f n m k | _ \<Rightarrow> z)"
  by (auto split: list.split scanned.split)

lemma yields_memchr [yields_intros]: "(\<And>i. yields Q (f i)) \<Longrightarrow> yields Q (memchr d c n \<bind> f)"
  by (auto simp: yields_def bind_eq_Some_conv)

lemma run_keeps:
  assumes "on_table R s"
  shows "yields (on_table R) (rsp_continue e s)" "yields (on_table R) (rsp_step e s)"
    "yields (on_table R) (rsp_continue_with_signal s)" "yields (on_table R) (rsp_step_with_signal e s)"
  unfolding rsp_continue_def rsp_step_def rsp_continue_with_signal_def rsp_step_with_signal_def
  using assms by (auto intro!: yields_intros yields_bind [OF set_npc_keeps] generic_keeps simp: yields_Some)

lemma regs_keep:
  assumes "on_table R s"
  shows "yields (on_table R) (rsp_read_all_regs e s)" "yields (on_table R) (rsp_write_all_regs e s)"
    "yields (on_table R) (rsp_read_reg e s)" "yields (on_table R) (rsp_write_reg e s)"
  unfolding rsp_read_all_regs_def rsp_write_all_regs_def rsp_read_reg_def rsp_write_reg_def Let_def
  using assms by (auto intro!: yields_intros api_binds rsp_link_keeps yields_bind [OF set_npc_keeps])

lemma mem_keep:
  assumes "on_table R s"
  shows "yields (on_table R) (rsp_read_mem e s)" "yields (on_table R) (rsp_write_mem e s)"
    "yields (on_table R) (rsp_write_mem_bin e s)"
  unfolding rsp_read_mem_def rsp_write_mem_def rsp_write_mem_bin_def Let_def
  using assms by (auto intro!: yields_intros api_binds rsp_link_keeps)

lemma query_keep:
  assumes "on_table R s"
  shows "yields (on_table R) (rsp_command e s)" "yields (on_table R) (rsp_query e s)"
    "yields (on_table R) (rsp_set e s)" "yields (on_table R) (rsp_vpkt e s)"
proof -
  note [intro!] = yields_intros api_binds rsp_link_keeps
  show c: "yields (on_table R) (rsp_command e s)"
    unfolding rsp_command_def Let_def using assms by (intro yields_intros rsp_link_keeps) (auto split: prod.split)
  show "yields (on_table R) (rsp_query e s)"
    unfolding rsp_query_def Let_def using assms c by (intro yields_intros rsp_link_keeps)
  show "yields (on_table R) (rsp_set e s)"
    unfolding rsp_set_def Let_def using assms by (intro yields_intros rsp_link_keeps)
  show "yields (on_table R) (rsp_vpkt e s)"
    unfolding rsp_vpkt_def Let_def using assms
    by (intro yields_intros rsp_link_keeps yields_bind [OF generic_keeps(4)])
qed

section \<open>Requests that change the table\<close>

text \<open>A condition that survives the insertion of matchpoints and a new signal, and one that survives
  the removal of those matchpoints that \<open>may\<close> go, too.\<close>

definition returned :: "nat \<Rightarrow> bool list \<Rightarrow> bool list" where
  "returned i u = (if i < HWP_MAX_WP \<and> u ! i then u[i := False] else u)"

locale insert_inv =
  fixes R :: "mp_table \<Rightarrow> bool list \<Rightarrow> nat \<Rightarrow> bool"
  assumes add_memory: "R h u g \<Longrightarrow> R (mp_hash_add BP_MEMORY a v h) u g"
    and add_hardware: "R h u g \<Longrightarrow> type \<noteq> BP_MEMORY \<Longrightarrow> i < HWP_MAX_WP \<Longrightarrow> \<not> u ! i \<Longrightarrow>
      R (mp_hash_add type a (of_nat i) h) (u[i := True]) g"
    and signal: "R h u g \<Longrightarrow> signal_of x = Some sig \<Longrightarrow> R h u sig"

locale removal_inv = insert_inv +
  fixes may :: "mp_type \<Rightarrow> u64 \<Rightarrow> bool"
  assumes delete_memory: "R h u g \<Longrightarrow> may BP_MEMORY a \<Longrightarrow> R (snd (mp_hash_delete BP_MEMORY a h)) u g"
    and delete_hardware: "R h u g \<Longrightarrow> type \<noteq> BP_MEMORY \<Longrightarrow> may type a \<Longrightarrow> fst (mp_hash_delete type a h) = Some m \<Longrightarrow>
      R (snd (mp_hash_delete type a h)) (returned (unat (mp_instr m)) u) g"

lemma get_watchpoint_cases:
  assumes "hwp_get_available_watchpoint t = (i, t')"
  obtains "i = -1" "t' = t"
  | n where "n < HWP_MAX_WP" "i = int n" "\<not> hwp_in_use t ! n" "hwp_in_use t' = (hwp_in_use t)[n := True]"
proof (cases "find_unused [0..<HWP_MAX_WP] (hwp_in_use t)")
  case None
  with assms that(1) show ?thesis by (simp add: hwp_get_available_watchpoint_def)
next
  case (Some n)
  then have "n < HWP_MAX_WP" "\<not> hwp_in_use t ! n" by (auto simp: find_unused_find find_Some_iff)
  with assms that(2) Some show ?thesis by (auto simp: hwp_get_available_watchpoint_def)
qed

lemma return_in_use: "hwp_in_use (hwp_return_watchpoint i t) = returned i (hwp_in_use t)"
  by (simp add: hwp_return_watchpoint_def returned_def)

lemma delete_None: "fst (mp_hash_delete type a h) = None \<Longrightarrow> snd (mp_hash_delete type a h) = h"
  by (auto simp: mp_hash_delete_def Let_def split: prod.splits option.splits)

lemma remove_hardware_keeps:
  assumes "R (mp_hash s) (returned (unat (mp_instr m)) (hwp_in_use (tgt s))) (sigval s)"
  shows "yields (on_table R) (remove_hardware e m s)"
proof -
  have "on_table (\<lambda>h u. R h (returned (unat (mp_instr m)) u)) s" using assms by (simp add: on_table_def)
  then show ?thesis
    unfolding remove_hardware_def Let_def
    by (auto intro!: yields_intros api_binds) (simp add: on_table_def return_in_use)
qed

context insert_inv
begin

lemma insert_hardware_keeps:
  assumes "on_table R s" "type \<noteq> BP_MEMORY"
  shows "yields (on_table R) (insert_hardware e type a dcr s)"
proof (cases "hwp_get_available_watchpoint (tgt s)")
  case (Pair i t')
  then show ?thesis
  proof (cases rule: get_watchpoint_cases)
    case 1
    with Pair assms show ?thesis by (simp add: insert_hardware_def Let_def rsp_link_keeps)
  next
    case (2 n)
    have "on_table R (s\<lparr>tgt := t', mp_hash := mp_hash_add type (ucast a) (of_nat n) (mp_hash s)\<rparr>)"
      using 2 assms add_hardware by (simp add: on_table_def)
    with Pair 2 show ?thesis
      by (auto simp: insert_hardware_def Let_def intro!: api_binds rsp_link_keeps)
  qed
qed

lemma insert_memory_keeps: "on_table R s \<Longrightarrow> yields (on_table R) (insert_memory e a s)"
  unfolding insert_memory_def Let_def
  by (auto intro!: api_binds rsp_link_keeps) (simp add: on_table_def add_memory)

lemma insert_matchpoint_keeps: "on_table R s \<Longrightarrow> yields (on_table R) (rsp_insert_matchpoint e s)"
  unfolding rsp_insert_matchpoint_def Let_def
  by (intro yields_intros rsp_link_keeps)
    (auto intro!: insert_memory_keeps insert_hardware_keeps rsp_link_keeps split: option.split mp_type.split)

end

text \<open>The matchpoint that a packet \<open>z\<close> names.\<close>

definition removal_of :: "'c rsp \<Rightarrow> (mp_type \<times> u64) option" where
  "removal_of s =
     (case sscanf (mp_fields 0x7a) (pkt_str s) of
        [Num ty, Num a, Num n] \<Rightarrow> map_option (\<lambda>type. (type, ucast (ucast a :: u32))) (mp_type_of (int_arg ty))
      | _ \<Rightarrow> None)"

context removal_inv
begin

lemma remove_keeps:
  assumes "on_table R s"
  shows "may BP_MEMORY (ucast a) \<Longrightarrow> yields (on_table R) (remove_memory e a s)"
    and "type \<noteq> BP_MEMORY \<Longrightarrow> may type (ucast a) \<Longrightarrow> yields (on_table R) (remove_watch e type a s)"
proof -
  show "yields (on_table R) (remove_memory e a s)" if "may BP_MEMORY (ucast a)"
  proof -
    have "on_table R (s\<lparr>mp_hash := snd (mp_hash_delete BP_MEMORY (ucast a) (mp_hash s))\<rparr>)"
      using assms that delete_memory by (simp add: on_table_def)
    then show ?thesis
      unfolding remove_memory_def Let_def split_beta
      by (cases "fst (mp_hash_delete BP_MEMORY (ucast a) (mp_hash s))")
        (auto intro!: yields_intros api_binds rsp_link_keeps)
  qed
  show "yields (on_table R) (remove_watch e type a s)" if "type \<noteq> BP_MEMORY" "may type (ucast a)"
  proof (cases "fst (mp_hash_delete type (ucast a) (mp_hash s))")
    case None
    with assms show ?thesis
      by (simp add: remove_watch_def Let_def split_beta delete_None rsp_link_keeps)
  next
    case (Some m)
    have "yields (on_table R) (remove_hardware e m (s\<lparr>mp_hash := snd (mp_hash_delete type (ucast a) (mp_hash s))\<rparr>))"
      using delete_hardware [OF _ that Some] assms by (intro remove_hardware_keeps) (simp add: on_table_def)
    with Some show ?thesis
      by (auto simp: remove_watch_def Let_def split_beta intro!: yields_bind rsp_link_keeps)
  qed
qed

lemma remove_matchpoint_keeps:
  assumes "on_table R s" "\<And>type a. removal_of s = Some (type, a) \<Longrightarrow> may type a"
  shows "yields (on_table R) (rsp_remove_matchpoint e s)"
proof -
  have "(case sscanf (mp_fields 0x7a) (pkt_str s) of [Num ty, Num a, Num n] \<Rightarrow>
      \<forall>type. mp_type_of (int_arg ty) = Some type \<longrightarrow> may type (ucast (ucast a :: u32)) | _ \<Rightarrow> True)"
    using assms(2) by (auto simp: removal_of_def split: list.split scanned.split)
  with assms(1) show ?thesis
    unfolding rsp_remove_matchpoint_def
    by (auto split: list.split scanned.split option.split intro!: yields_intros remove_keeps rsp_link_keeps)
qed

end

section \<open>The server as a whole\<close>

text \<open>The matchpoint whose removal the next packet asks for, where the server obeys such requests,
  and the one that a call of the main routine would remove.\<close>

definition asks_removal :: "'c env \<Rightarrow> 'c rsp \<Rightarrow> (mp_type \<times> u64) option" where
  "asks_removal e s = (case rsp_get_packet e s of
     Some (ok, t) \<Rightarrow> if ok \<and> \<not> target_running t \<and> buf_data (pkt_buf t) 0 = byte CHR ''z'' then removal_of t else None
   | None \<Rightarrow> None)"

definition serves_removal :: "'c env \<Rightarrow> server_poll list \<Rightarrow> client_poll \<Rightarrow> 'c rsp \<Rightarrow> (mp_type \<times> u64) option" where
  "serves_removal e waits p s = (case (wait_client e waits s, p) of
     (Some (Inr t), Client_Ready True pipe) \<Rightarrow> asks_removal e t | _ \<Rightarrow> None)"

lemma setup_keeps: "on_table R s \<Longrightarrow> yields (on_table R) (setup_cpu e s)"
  unfolding setup_cpu_def Let_def by (auto intro!: yields_intros api_binds)

lemma server_request_keeps: "on_table R s \<Longrightarrow> yields (on_table R) (rsp_server_request e acc s)"
  unfolding rsp_server_request_def Let_def
  by (auto split: accept_result.split intro!: yields_intros yields_bind [OF client_close_keeps]
      yields_bind [OF register_in_use] setup_keeps on_table_tgt)

lemma close_both_keeps: "on_table R s \<Longrightarrow> yields (\<lambda>y. on_table R (snd y)) (close_both e s)"
  unfolding close_both_def by (auto intro!: yields_intros yields_bind [OF client_close_keeps])

definition waited :: "('c rsp \<Rightarrow> bool) \<Rightarrow> (int \<times> 'c rsp) + 'c rsp \<Rightarrow> bool" where
  "waited Q w = (case w of Inl y \<Rightarrow> Q (snd y) | Inr s \<Rightarrow> Q s)"

lemma wait_client_keeps: "on_table R s \<Longrightarrow> yields (waited (on_table R)) (wait_client e ps s)"
proof (induction ps arbitrary: s)
  case Nil
  then show ?case by (auto simp: waited_def intro!: yields_intros)
next
  case (Cons p ps)
  then show ?case
    by (auto simp: waited_def split: server_poll.split
        intro!: yields_intros yields_bind [OF server_request_keeps] yields_map_option close_both_keeps)
qed

lemma detach_keeps: "on_table R s \<Longrightarrow> yields (on_table R) (in_order (detach_steps e) s)"
  by (auto simp: detach_steps_def intro!: yields_bind [OF rsp_link_keeps(3)] yields_bind [OF client_close_keeps] yields_Some)

lemma dispatch_other:
  assumes "on_table R s" "c \<noteq> byte CHR ''z''" "c \<noteq> byte CHR ''Z''"
  shows "yields (on_table R) (rsp_dispatch e c s)"
  using assms unfolding rsp_dispatch_def
  by (intro yields_intros rsp_link_keeps generic_keeps run_keeps regs_keep mem_keep query_keep
      detach_keeps)
    simp_all

context insert_inv
begin

lemma dispatch_insert:
  assumes "on_table R s" "c \<noteq> byte CHR ''z''"
  shows "yields (on_table R) (rsp_dispatch e c s)"
proof (cases "c = byte CHR ''Z''")
  case True
  with assms(1) show ?thesis
    using insert_matchpoint_keeps by (simp add: rsp_dispatch_def)
qed (use assms dispatch_other in auto)

lemma halted_keeps:
  assumes "on_table R s"
  shows "yields (on_table R) (target_halted e s)"
proof -
  have "on_table R (rsp_exception x s)" if "on_table R s" for x s
    using that signal by (auto simp: rsp_exception_def on_table_def split: option.split)
  with assms show ?thesis
    unfolding target_halted_def Let_def
    by (auto intro!: yields_intros api_binds yields_bind [OF set_npc_keeps] yields_bind [OF generic_keeps(3)])
qed

lemma monitor_event_keeps: "on_table R s \<Longrightarrow> yields (on_table R) (monitor_event e s)"
  unfolding monitor_event_def Let_def
  by (auto intro!: yields_intros yields_bind [OF read_status_in_use] halted_keeps on_table_tgt)

lemma handle_keeps:
  assumes "on_table R s"
    and "\<And>t pipe. wait_client e waits s = Some (Inr t) \<Longrightarrow> p = Client_Ready True pipe \<Longrightarrow> on_table R t \<Longrightarrow>
      yields (on_table R) (rsp_client_request e t)"
  shows "yields (\<lambda>y. on_table R (snd y)) (handle_rsp e waits p s)"
proof (cases "wait_client e waits s")
  case (Some w)
  have w: "waited (on_table R) w" using yieldsD [OF wait_client_keeps [OF assms(1)] Some] .
  show ?thesis
  proof (cases w)
    case (Inl y)
    with w Some assms(1) show ?thesis by (auto simp: handle_rsp_def waited_def intro!: yields_intros)
  next
    case (Inr t)
    with w have t: "on_table R t" by (simp add: waited_def)
    have r: "yields (on_table R) (if client then rsp_client_request e t else if pipe then monitor_event e t
        else rsp_client_close e t)" if "p = Client_Ready client pipe" for client pipe
      using that assms(2) [OF _ _ t] Some Inr t by (auto intro!: monitor_event_keeps client_close_keeps)
    have "yields (\<lambda>y. on_table R (snd y)) (case p of Client_Intr \<Rightarrow> Some (1, t) | Client_Failed \<Rightarrow> close_both e t
        | Client_Timeout \<Rightarrow> Some (1, t)
        | Client_Ready client pipe \<Rightarrow> (if client then rsp_client_request e t else if pipe then monitor_event e t
            else rsp_client_close e t) \<bind> (\<lambda>s. Some (1, s)))"
    proof (cases p)
      case (Client_Ready client pipe)
      show ?thesis
        unfolding Client_Ready client_poll.case by (rule yields_bind [OF r [OF Client_Ready]]) (simp add: yields_Some)
    qed (use t in \<open>simp_all add: yields_Some close_both_keeps\<close>)
    with assms(1) Some Inr show ?thesis by (simp add: handle_rsp_def yields_Some)
  qed
qed (use assms in \<open>auto simp: handle_rsp_def intro!: yields_intros\<close>)

end

context removal_inv
begin

lemma request_may:
  assumes "on_table R s" "\<And>type a. asks_removal e s = Some (type, a) \<Longrightarrow> may type a"
  shows "yields (on_table R) (rsp_client_request e s)"
proof (cases "rsp_get_packet e s")
  case (Some y)
  obtain ok t where y: "y = (ok, t)" by (cases y)
  have t: "on_table R t" using yieldsD [OF rsp_link_keeps(1) [OF assms(1)] Some] y by simp
  have d: "yields (on_table R) (rsp_dispatch e (buf_data (pkt_buf t) 0) t)" if "ok" "\<not> target_running t"
  proof (cases "buf_data (pkt_buf t) 0 = byte CHR ''z''")
    case True
    have "yields (on_table R) (rsp_remove_matchpoint e t)"
      by (rule remove_matchpoint_keeps [OF t]) (use assms(2) Some y that True in \<open>simp add: asks_removal_def\<close>)
    then show ?thesis unfolding True by (simp add: rsp_dispatch_def)
  qed (use t dispatch_insert in blast)
  have "yields (on_table R) (if \<not> ok then rsp_client_close e t
      else let c = buf_data (pkt_buf t) 0
           in if target_running t
              then (if c = 0x03 then Some (set_stall_state True t)
                    else rsp_put_str_packet e ''O6154677274656e20746f73206f74707064650a0d'' t)
              else rsp_dispatch e c t)"
    unfolding Let_def using t d by (intro yields_intros client_close_keeps rsp_link_keeps) simp_all
  then show ?thesis unfolding rsp_client_request_def Some y by simp
qed (simp add: rsp_client_request_def yields_None)

lemma handle_may:
  assumes "on_table R s" "\<And>type a. serves_removal e waits p s = Some (type, a) \<Longrightarrow> may type a"
  shows "yields (\<lambda>y. on_table R (snd y)) (handle_rsp e waits p s)"
  using assms(1)
proof (rule handle_keeps)
  fix t pipe
  assume "wait_client e waits s = Some (Inr t)" "p = Client_Ready True pipe" and t: "on_table R t"
  then have "serves_removal e waits p s = asks_removal e t" by (simp add: serves_removal_def)
  with assms(2) show "yields (on_table R) (rsp_client_request e t)" by (intro request_may [OF t]) simp
qed

end

end
