(* ===== verification/Unplugged.thy ===== *)
theory Unplugged
  imports Spr_Access
begin

text \<open>
  A cable on which every call fails, as the drivers behave when the cable has been pulled
  out. Every access of the debug API comes back with an error then and leaves the variables
  as they were, which makes it the smallest target the servers can be run on.
\<close>

definition unplugged_cable :: "unit jtag_cable" where
  "unplugged_cable = \<lparr>cable_name = ''unplugged'',
     inout_func = \<lambda>_ s. ((APP_ERR_USB, 0), s), out_func = \<lambda>_ s. (APP_ERR_USB, s),
     init_func = \<lambda>s. (APP_ERR_USB, s), opt_func = \<lambda>_ _ s. (APP_ERR_USB, s),
     bit_out_func = \<lambda>_ s. (APP_ERR_USB, s), bit_inout_func = \<lambda>_ s. ((APP_ERR_USB, 0), s),
     stream_out_func = \<lambda>_ _ _ s. (APP_ERR_USB, s), stream_inout_func = \<lambda>_ _ _ s. ((APP_ERR_USB, []), s),
     flush_func = None, cable_opts = [], cable_help = None\<rparr>"

definition unplugged :: "unit env" where
  "unplugged = \<lparr>env_host = x86_64, env_hw = DBG_HW_ADVANCED, env_cable = unplugged_cable\<rparr>"

definition unplugged_target :: "unit target" where
  "unplugged_target = \<lparr>tdbg = \<lparr>dbg_chain = init_chain (), dbg_access_mutex = Free\<rparr>,
     monitor_thread_running = True, target_is_running = True,
     connections = [], pipes_mutex = False, pipe_results = [Some (3, 4), Some (5, 6)],
     hwp_in_use = replicate 8 False\<rparr>"

lemma unplugged_bit: "jtag_write_bit unplugged_cable b s = (APP_ERR_USB, s)"
  by (simp add: jtag_write_bit_def on_cable_def cable_write_bit_def unplugged_cable_def)

lemma err_seq_first: "fst (f s) \<noteq> 0 \<Longrightarrow> fst (err_seq (f # fs) s) \<noteq> 0"
  by (simp add: split_beta Let_def or_eq_0_iff)

lemma unplugged_shift_dr: "fst (tap_set_shift_dr unplugged_cable s) \<noteq> 0"
  unfolding tap_set_shift_dr_def by (rule err_seq_first) (simp add: unplugged_bit const_simps)

lemma unplugged_burst: "fst (adbg_burst_command unplugged_cable opc a n s) \<noteq> 0"
  using err_seq_first [of "tap_set_shift_dr unplugged_cable"] unplugged_shift_dr
  by (auto simp: adbg_burst_command_def Let_def split_beta or_eq_0_iff)

lemma unplugged_read:
  "\<exists>err t. adbg_wb_burst_read h unplugged_cable z n a s = ((Some err, None), t)"
  using unplugged_burst
  by (auto simp: adbg_wb_burst_read_def burst_read_loop.simps burst_read_attempt_def Let_def split_beta
      burst_start_def or_eq_0_iff const_simps split: option.split)

lemma unplugged_write: "\<exists>err t. adbg_wb_burst_write h unplugged_cable data z n a s = (Some err, t)"
  using unplugged_burst
  by (auto simp: adbg_wb_burst_write_def burst_write_loop.simps burst_write_attempt_def Let_def split_beta
      burst_start_def or_eq_0_iff const_simps split: option.split)

lemma unplugged_adv_read: "\<exists>err t. adv_read h unplugged_cable z n a data s = ((Some err, data), t)"
  using unplugged_read [of h z n "ucast a" s] by (auto simp: adv_read_def fill_def)

lemma unplugged_adv_write: "\<exists>err t. adv_write h unplugged_cable z n a data s = ((Some err, ()), t)"
  using unplugged_write [of h data z n "ucast a" s] by (auto simp: adv_write_def)

lemma unplugged_dbg:
  assumes "dbg_access_mutex s = Free"
  shows "\<exists>err d. dbg_cpu0_read h DBG_HW_ADVANCED unplugged_cable a x s = ((Some err, x), d) \<and> dbg_access_mutex d = Free"
    "\<exists>err d. dbg_cpu0_write h DBG_HW_ADVANCED unplugged_cable a x s = (Some err, d) \<and> dbg_access_mutex d = Free"
    "\<exists>err d. dbg_wb_read_block32 h DBG_HW_ADVANCED unplugged_cable a data 1 s = ((Some err, data), d) \<and>
       dbg_access_mutex d = Free"
    "\<exists>err d. dbg_wb_write_block32 h DBG_HW_ADVANCED unplugged_cable a data 1 s = ((Some err, data), d) \<and>
       dbg_access_mutex d = Free"
proof -
  have r: "\<exists>err t. on_chain (adv_read h unplugged_cable z n a bs) u = ((Some err, bs), t) \<and>
      dbg_access_mutex t = dbg_access_mutex u" for z n bs u
    using unplugged_adv_read [of h z n a bs "dbg_chain u"] by (auto simp: on_chain_def)
  have w: "\<exists>err t. on_chain (adv_write h unplugged_cable z n a bs) u = ((Some err, ()), t) \<and>
      dbg_access_mutex t = dbg_access_mutex u" for z n bs u
    using unplugged_adv_write [of h z n a bs "dbg_chain u"] by (auto simp: on_chain_def)
  define u where "u m = snd (on_chain (adbg_select_module unplugged_cable m) (s\<lparr>dbg_access_mutex := Held\<rparr>))" for m
  have u: "dbg_access_mutex (u m) = Held" for m by (simp add: u_def)
  note defs = locked_free(1) [OF assms] returned_from_def Let_def split_beta u_def [symmetric]
  show "\<exists>err d. dbg_cpu0_read h DBG_HW_ADVANCED unplugged_cable a x s = ((Some err, x), d) \<and> dbg_access_mutex d = Free"
    using r [of 4 1 "word_to_bytes x" "u DC_CPU0"] u [of DC_CPU0]
    by (auto simp: dbg_cpu0_read_def defs)
  show "\<exists>err d. dbg_cpu0_write h DBG_HW_ADVANCED unplugged_cable a x s = (Some err, d) \<and> dbg_access_mutex d = Free"
    using w [of 4 1 "word_to_bytes x" "u DC_CPU0"] u [of DC_CPU0]
    by (auto simp: dbg_cpu0_write_def defs)
  show "\<exists>err d. dbg_wb_read_block32 h DBG_HW_ADVANCED unplugged_cable a data 1 s = ((Some err, data), d) \<and>
       dbg_access_mutex d = Free"
    using r [of 4 1 data "u DC_WISHBONE"] u [of DC_WISHBONE]
    by (auto simp: dbg_wb_read_block32_def defs)
  show "\<exists>err d. dbg_wb_write_block32 h DBG_HW_ADVANCED unplugged_cable a data 1 s = ((Some err, data), d) \<and>
       dbg_access_mutex d = Free"
    using w [of 4 1 data "u DC_WISHBONE"] u [of DC_WISHBONE]
    by (auto simp: dbg_wb_write_block32_def defs)
qed

text \<open>The API's mutex is free, as it is between its calls.\<close>

lemma unplugged_api:
  assumes "api_free (tgt s)"
  shows "\<exists>err d. api_cpu_read unplugged a x s = Some ((err, x), s\<lparr>tgt := (tgt s)\<lparr>tdbg := d\<rparr>\<rparr>) \<and> dbg_access_mutex d = Free"
    "\<exists>err d. api_cpu_write unplugged a x s = Some (err, s\<lparr>tgt := (tgt s)\<lparr>tdbg := d\<rparr>\<rparr>) \<and> dbg_access_mutex d = Free"
    "\<exists>err d. api_read_instr unplugged a x s = Some ((err, x), s\<lparr>tgt := (tgt s)\<lparr>tdbg := d\<rparr>\<rparr>) \<and> dbg_access_mutex d = Free"
    "\<exists>err d. api_write_instr unplugged a x s = Some (err, s\<lparr>tgt := (tgt s)\<lparr>tdbg := d\<rparr>\<rparr>) \<and> dbg_access_mutex d = Free"
proof -
  note defs = api_defs_lifted api_call_def unit_result_def unplugged_def
  note dbg = unplugged_dbg [OF assms [unfolded api_free_def]]
  show "\<exists>err d. api_cpu_read unplugged a x s = Some ((err, x), s\<lparr>tgt := (tgt s)\<lparr>tdbg := d\<rparr>\<rparr>) \<and> dbg_access_mutex d = Free"
    using dbg(1) [of x86_64 a x] by (auto simp: defs)
  show "\<exists>err d. api_cpu_write unplugged a x s = Some (err, s\<lparr>tgt := (tgt s)\<lparr>tdbg := d\<rparr>\<rparr>) \<and> dbg_access_mutex d = Free"
    using dbg(2) [of x86_64 a x] by (auto simp: defs)
  show "\<exists>err d. api_read_instr unplugged a x s = Some ((err, x), s\<lparr>tgt := (tgt s)\<lparr>tdbg := d\<rparr>\<rparr>) \<and> dbg_access_mutex d = Free"
    using dbg(3) [of x86_64 a "word_to_bytes x"] by (auto simp: defs)
  show "\<exists>err d. api_write_instr unplugged a x s = Some (err, s\<lparr>tgt := (tgt s)\<lparr>tdbg := d\<rparr>\<rparr>) \<and> dbg_access_mutex d = Free"
    using dbg(4) [of x86_64 a "word_to_bytes x"] by (auto simp: defs)
qed

end
