(* ===== verification/Rsp_Props.thy ===== *)
theory Rsp_Props
  imports Rsp_Table Unplugged
begin

text \<open>
  What the GDB server guarantees: its buffer, its matchpoints and the watchpoints they hold,
  and the effect of the requests that read and write registers and memory.
\<close>

section \<open>Matchpoints and watchpoints\<close>

text \<open>The table is well formed, every hardware matchpoint in it holds a watchpoint that is in use,
  no two hold the same one, and the signal has two hexadecimal digits.\<close>

definition grants_ok :: "mp_table \<Rightarrow> bool list \<Rightarrow> nat \<Rightarrow> bool" where
  "grants_ok h u g \<longleftrightarrow> mp_inv h \<and> length u = HWP_MAX_WP \<and> g < 256 \<and>
     (\<forall>k v. fst k \<noteq> BP_MEMORY \<longrightarrow> mp_map h k = Some v \<longrightarrow> unat v < HWP_MAX_WP \<and> u ! unat v) \<and>
     (\<forall>k k' v. fst k \<noteq> BP_MEMORY \<longrightarrow> fst k' \<noteq> BP_MEMORY \<longrightarrow> mp_map h k = Some v \<longrightarrow> mp_map h k' = Some v \<longrightarrow>
        k = k')"

lemma mp_map_add:
  "mp_inv h \<Longrightarrow> mp_map (mp_hash_add type a v h) =
     (if mp_map h (type, a) = None then (mp_map h)((type, a) \<mapsto> v) else mp_map h)"
  using mp.add(2) [of h "(type, a)" v] by (simp add: key_add_def)

lemma mp_map_delete: "mp_inv h \<Longrightarrow> mp_map (snd (mp_hash_delete type a h)) = (mp_map h)((type, a) := None)"
  using mp.delete(3) [of h "(type, a)"] by (simp add: key_delete_def split_beta Let_def)

lemma mp_map_deleted:
  "fst (mp_hash_delete type a h) = Some m \<Longrightarrow> mp_map h (type, a) = Some (mp_instr m)"
  by (simp add: mp_map_def mp_hash_delete_fst)

lemma unat_of_nat_small: "i < HWP_MAX_WP \<Longrightarrow> unat (of_nat i :: u64) = i"
  by (simp add: unsigned_of_nat take_bit_nat_eq_self const_simps)

lemma grants_ok_add:
  assumes "grants_ok h u g" "type \<noteq> BP_MEMORY" "i < HWP_MAX_WP" "\<not> u ! i"
  shows "grants_ok (mp_hash_add type a (of_nat i) h) (u[i := True]) g"
proof -
  have "mp_map h k \<noteq> Some (of_nat i)" if "fst k \<noteq> BP_MEMORY" for k
    using assms that unat_of_nat_small [of i] unfolding grants_ok_def by metis
  note fresh = this
  have kept: "grants_ok h (u[i := True]) g"
    using assms by (auto simp: grants_ok_def nth_list_update)
  show ?thesis
  proof (cases "mp_map h (type, a)")
    case None
    then have m: "mp_map (mp_hash_add type a (of_nat i) h) = (mp_map h)((type, a) \<mapsto> of_nat i)"
      using assms by (simp add: mp_map_add grants_ok_def)
    have i: "unat (of_nat i :: u64) = i" "u[i := True] ! i" "i < HWP_MAX_WP"
      using assms unat_of_nat_small by (simp_all add: grants_ok_def)
    have old: "unat v < HWP_MAX_WP" "u[i := True] ! unat v" if "fst k \<noteq> BP_MEMORY" "mp_map h k = Some v" for k v
      using kept that unfolding grants_ok_def by blast+
    have inj: "k = k'" if "fst k \<noteq> BP_MEMORY" "fst k' \<noteq> BP_MEMORY" "mp_map h k = Some v" "mp_map h k' = Some v" for k k' v
      using kept that unfolding grants_ok_def by blast
    show ?thesis
      unfolding grants_ok_def m
    proof (intro conjI allI impI, goal_cases)
      case (4 k v) then show ?case using old(1) [of k v] i by (auto split: if_splits)
    next
      case (5 k v) then show ?case using old(2) [of k v] i by (auto split: if_splits)
    next
      case (6 k k' v) then show ?case using inj [of k k' v] fresh by (auto split: if_splits)
    qed (use kept in \<open>auto simp: grants_ok_def mp_hash_add_inv\<close>)
  next
    case (Some v)
    then have "mp_map (mp_hash_add type a (of_nat i) h) = mp_map h" using assms by (simp add: mp_map_add grants_ok_def)
    with kept show ?thesis by (simp add: grants_ok_def mp_hash_add_inv)
  qed
qed

lemma grants_ok_delete:
  assumes "grants_ok h u g" "type \<noteq> BP_MEMORY" "fst (mp_hash_delete type a h) = Some m"
  shows "grants_ok (snd (mp_hash_delete type a h)) (returned (unat (mp_instr m)) u) g"
proof -
  have "mp_map h (type, a) = Some (mp_instr m)" using assms(3) by (simp add: mp_map_deleted)
  note found = this
  have "unat v \<noteq> unat (mp_instr m)" if "fst k \<noteq> BP_MEMORY" "k \<noteq> (type, a)" "mp_map h k = Some v" for k v
  proof
    assume "unat v = unat (mp_instr m)"
    then have "mp_map h k = mp_map h (type, a)" using that found by (simp add: word_unat_eq_iff)
    with assms(1,2) found that show False unfolding grants_ok_def by (metis fst_conv)
  qed
  note other = this
  have held: "unat v < HWP_MAX_WP \<and> returned (unat (mp_instr m)) u ! unat v"
    if "fst k \<noteq> BP_MEMORY" "k \<noteq> (type, a)" "mp_map h k = Some v" for k v
  proof -
    have "unat v < HWP_MAX_WP \<and> u ! unat v" using assms(1) that unfolding grants_ok_def by blast
    with other [OF that] show ?thesis by (simp add: returned_def)
  qed
  have inj: "k = k'" if "fst k \<noteq> BP_MEMORY" "fst k' \<noteq> BP_MEMORY" "mp_map h k = Some v" "mp_map h k' = Some v" for k k' v
    using assms(1) that unfolding grants_ok_def by blast
  have inv: "mp_inv h" "length (returned (unat (mp_instr m)) u) = HWP_MAX_WP" "g < 256"
    using assms(1) by (simp_all add: grants_ok_def returned_def)
  show ?thesis
    unfolding grants_ok_def mp_map_delete [OF inv(1)]
  proof (intro conjI allI impI, goal_cases)
    case (4 k v) then show ?case using held [of k v] by (simp split: if_splits)
  next
    case (5 k v) then show ?case using held [of k v] by (simp split: if_splits)
  next
    case (6 k k' v) then show ?case using inj [of k k' v] by (simp split: if_splits)
  qed (use inv mp_hash_delete_inv in auto)
qed

lemma signal_small: "signal_of x = Some sig \<Longrightarrow> sig < 256"
  by (simp add: signal_of_def const_simps split: if_splits)

interpretation grants: removal_inv grants_ok "\<lambda>_ _. True"
proof (unfold_locales, goal_cases)
  case (1 h u g a v)
  then show ?case by (simp add: grants_ok_def mp_map_add mp_hash_add_inv)
next
  case (2 h u g type i a) then show ?case by (rule grants_ok_add)
next
  case (3 h u g x sig)
  then have "sig < 256" by (simp add: signal_small)
  with 3(1) show ?case unfolding grants_ok_def by blast
next
  case (4 h u g a)
  then show ?case by (simp add: grants_ok_def mp_map_delete mp_hash_delete_inv)
next
  case (5 h u g type a m) then show ?case by (blast intro: grants_ok_delete)
qed

text \<open>A memory breakpoint, and the instruction that is kept for it.\<close>

definition bp_at :: "u64 \<Rightarrow> mp_entry \<Rightarrow> mp_table \<Rightarrow> bool list \<Rightarrow> nat \<Rightarrow> bool" where
  "bp_at a m h u g \<longleftrightarrow> mp_inv h \<and> mp_hash_lookup BP_MEMORY a h = Some m"

interpretation breakpoint: removal_inv "bp_at a m" "\<lambda>type b. (type, b) \<noteq> (BP_MEMORY, a)" for a m
  by unfold_locales (auto simp: bp_at_def mp_hash_add_inv mp_hash_add_lookup mp_hash_delete_inv mp_hash_delete_lookup)

text \<open>Runs of the server. In between, data arrives, and the other threads work on the target
  without granting or taking back watchpoints; \<open>ok\<close> restricts the calls of the main routine.\<close>

inductive rsp_run :: "'c env \<Rightarrow> (server_poll list \<Rightarrow> client_poll \<Rightarrow> 'c rsp \<Rightarrow> bool) \<Rightarrow> 'c rsp \<Rightarrow> 'c rsp \<Rightarrow> bool"
  for e ok where
  Start: "rsp_run e ok s s"
| Call: "rsp_run e ok s t \<Longrightarrow> ok waits p t \<Longrightarrow> handle_rsp e waits p t = Some (r, u) \<Longrightarrow> rsp_run e ok s u"
| Arrival: "rsp_run e ok s t \<Longrightarrow> rsp_run e ok s (t\<lparr>client_in := es\<rparr>)"
| Others: "rsp_run e ok s t \<Longrightarrow> hwp_in_use u = hwp_in_use (tgt t) \<Longrightarrow> rsp_run e ok s (t\<lparr>tgt := u\<rparr>)"

lemma rsp_run_keeps:
  assumes "rsp_run e ok s t" "on_table R s"
    and "\<And>waits p t. ok waits p t \<Longrightarrow> on_table R t \<Longrightarrow> yields (\<lambda>y. on_table R (snd y)) (handle_rsp e waits p t)"
  shows "on_table R t"
  using assms
proof (induction rule: rsp_run.induct)
  case (Call s t waits p r u)
  then show ?case using yieldsD [OF Call.prems(2) [OF Call.hyps(2)] Call.hyps(3)] by auto
qed (auto intro: on_table_tgt)

lemma init_table: "length (hwp_in_use (tgt s)) = HWP_MAX_WP \<Longrightarrow> on_table grants_ok (rsp_init pr sv sock prep port s)"
proof -
  assume len: "length (hwp_in_use (tgt s)) = HWP_MAX_WP"
  let ?t = "rsp_init pr sv sock prep port s"
  have "mp_hash ?t = mp_hash_init" "tgt ?t = tgt s" "sigval ?t = 0"
    by (simp_all add: rsp_init_def Let_def rsp_server_close_def split: option.split)
  then show ?thesis using len by (simp add: on_table_def grants_ok_def mp.empty)
qed

text \<open>
  C11: From its initialisation on, whatever packets, connections, failures and reports of the
  monitor the server works through, its matchpoint table is well formed, every hardware
  matchpoint in it holds one of the eight watchpoints, which is marked as in use, no two
  matchpoints hold the same one, and the signal it reports has two hexadecimal digits. (The
  watchpoint server's clients are assumed not to release watchpoints in between.)
\<close>

theorem rsp_matchpoints_hold_watchpoints:
  assumes "rsp_run e (\<lambda>_ _ _. True) (rsp_init pr sv sock prep port s) t"
    and "length (hwp_in_use (tgt s)) = HWP_MAX_WP"
  shows "grants_ok (mp_hash t) (hwp_in_use (tgt t)) (sigval t)"
  using rsp_run_keeps [OF assms(1) init_table [OF assms(2)] grants.handle_may] by (simp add: on_table_def)

definition example_rsp :: "u8 list \<Rightarrow> u8 list \<Rightarrow> unit rsp" where
  "example_rsp request arrives = \<lparr>client_fd = 7, client_in = map Rd_Byte arrives, client_wr = [], client_out = [],
     pkt_buf = \<lparr>buf_data = overwrite request (\<lambda>_. 0), buf_len = length request\<rparr>, tgt = unplugged_target,
     client_waiting = False, target_running = False, single_step_mode = False, proto_num = 6, server_fd = 3,
     sigval = 0, start_addr = EXCEPT_RESET, mp_hash = mp_hash_init, pipe_fds = (4, 5), use_cached_npc = False,
     cached_npc = 0\<rparr>"

lemma pkt_example [simp]: "pkt (example_rsp request arrives) = request"
  by (auto simp: pkt_def example_rsp_def overwrite_def intro: nth_equalityI)

lemma unplugged_close:
  assumes "target_running s = False" "fst (pipe_fds s) < 0" "api_free (tgt s)"
  shows "\<exists>d. rsp_client_close unplugged s = Some (s\<lparr>tgt := (tgt s)\<lparr>tdbg := d\<rparr>, client_fd := -1\<rparr>)"
proof -
  obtain err d where w: "api_cpu_write unplugged SPR_DSR 0 s = Some (err, s\<lparr>tgt := (tgt s)\<lparr>tdbg := d\<rparr>\<rparr>)"
    using unplugged_api(2) [OF assms(3)] by blast
  have "rsp_client_close unplugged s = Some (s\<lparr>tgt := (tgt s)\<lparr>tdbg := d\<rparr>, client_fd := -1\<rparr>)"
    using assms by (simp add: rsp_client_close_def w unregister_with_monitor_thread_def Let_def)
  then show ?thesis by blast
qed

section \<open>Memory breakpoints\<close>

lemma mp_type_codes: "mp_type_of (int_arg 0) = Some BP_MEMORY" "mp_type_of (int_arg 1) = Some BP_HARDWARE"
  "mp_type_of (int_arg 2) = Some WP_WRITE" "mp_type_of (int_arg 3) = Some WP_READ" "mp_type_of (int_arg 4) = Some WP_ACCESS"
  by (simp_all add: mp_type_of_def int_arg_def)

lemma ucast_up_down [simp]: "ucast (ucast (a :: u32) :: u64) = a"
  by (rule bit_word_eqI) (simp add: bit_unsigned_iff)

lemma insert_memory_packet:
  "pkt_str s = mp_packet 0x5a 0 a n \<Longrightarrow> n < 10 \<Longrightarrow> rsp_insert_matchpoint e s = insert_memory e a s"
  using scan_mp_packet [of 0 n "0x5a" a] by (simp add: rsp_insert_matchpoint_def mp_fields_def mp_type_codes)

lemma remove_memory_packet:
  "pkt_str s = mp_packet 0x7a 0 a n \<Longrightarrow> n < 10 \<Longrightarrow> rsp_remove_matchpoint e s = remove_memory e a s"
  using scan_mp_packet [of 0 n "0x7a" a] by (simp add: rsp_remove_matchpoint_def mp_fields_def mp_type_codes)

lemma insert_memory_bp:
  assumes "mp_inv (mp_hash s)" "mp_hash_lookup BP_MEMORY (ucast a) (mp_hash s) = None"
    and "api_read_instr e a (uninit e) s = Some ((err, instr), s1)"
  shows "yields (on_table (bp_at (ucast a) \<lparr>mp_type = BP_MEMORY, mp_addr = ucast a, mp_instr = ucast instr\<rparr>))
    (insert_memory e a s)"
proof -
  let ?m = "\<lparr>mp_type = BP_MEMORY, mp_addr = ucast a, mp_instr = ucast instr\<rparr>"
  let ?s2 = "s1\<lparr>mp_hash := mp_hash_add BP_MEMORY (ucast a) (ucast instr) (mp_hash s1)\<rparr>"
  have "mp_hash s1 = mp_hash s" using api_frame(7) [OF assms(3)] by auto
  then have "on_table (bp_at (ucast a) ?m) ?s2"
    using assms(1,2) by (simp add: on_table_def bp_at_def mp_hash_add_inv mp_hash_add_lookup)
  then show ?thesis
    unfolding insert_memory_def assms(3) by (auto simp: Let_def intro!: api_binds rsp_link_keeps)
qed

lemma pkt_str_first: "pkt_str s = c # cs \<Longrightarrow> buf_data (pkt_buf s) 0 = c"
  by (cases "buf_len (pkt_buf s)") (auto simp: pkt_str_def pkt_def upt_conv_Cons split: if_splits simp del: upt_Suc)

text \<open>
  C10: Setting a memory breakpoint keeps the instruction it replaces. Whatever the server does
  afterwards short of removing this breakpoint, be it that GDB removes other breakpoints or
  watchpoints, in the same bucket of the table or at the same address, or sets the same
  breakpoint again and the trap instruction is read from memory, the packet that removes the
  breakpoint writes the original instruction back and is answered with OK. (The other threads
  are assumed not to grant or take back watchpoints in between.)
\<close>

theorem memory_breakpoint_restored:
  assumes "mp_inv (mp_hash s)" "mp_hash_lookup BP_MEMORY (ucast a) (mp_hash s) = None"
    and "pkt_str s = mp_packet 0x5a 0 a n" "n < 10"
    and "api_read_instr e a (uninit e) s = Some ((err, instr), s1)" "rsp_insert_matchpoint e s = Some t"
    and "rsp_run e (\<lambda>waits p t. serves_removal e waits p t \<noteq> Some (BP_MEMORY, ucast a)) t u"
    and "rsp_get_packet e u = Some (True, v)" "\<not> target_running v" "pkt_str v = mp_packet 0x7a 0 a m" "m < 10"
  shows "rsp_client_request e u = do {
    (_, w) \<leftarrow> api_write_instr e a instr (v\<lparr>mp_hash := snd (mp_hash_delete BP_MEMORY (ucast a) (mp_hash v))\<rparr>);
    rsp_put_str_packet e ''OK'' w }"
proof -
  let ?R = "bp_at (ucast a) \<lparr>mp_type = BP_MEMORY, mp_addr = ucast a, mp_instr = ucast instr\<rparr>"
  have "on_table ?R t"
    using yieldsD [OF insert_memory_bp [OF assms(1,2,5)]] assms(6) insert_memory_packet [OF assms(3,4)] by simp
  moreover have "yields (\<lambda>y. on_table ?R (snd y)) (handle_rsp e waits p x)"
    if "serves_removal e waits p x \<noteq> Some (BP_MEMORY, ucast a)" "on_table ?R x" for waits p x
    by (rule breakpoint.handle_may [OF that(2)]) (use that(1) in auto)
  ultimately have "on_table ?R u" by (rule rsp_run_keeps [OF assms(7)])
  then have "on_table ?R v" using yieldsD [OF rsp_link_keeps(1) assms(8)] by simp
  then have d: "fst (mp_hash_delete BP_MEMORY (ucast a) (mp_hash v)) =
      Some \<lparr>mp_type = BP_MEMORY, mp_addr = ucast a, mp_instr = ucast instr\<rparr>"
    by (simp add: on_table_def bp_at_def mp_hash_delete_fst)
  have "buf_data (pkt_buf v) 0 = 0x7a" using pkt_str_first [of v "0x7a"] assms(10) by (simp add: mp_packet_def)
  then have "rsp_client_request e u = rsp_remove_matchpoint e v"
    using assms(8,9) by (simp add: rsp_client_request_def rsp_dispatch_def Let_def)
  also have "\<dots> = remove_memory e a v" using assms(10,11) by (rule remove_memory_packet)
  finally show ?thesis
    unfolding remove_memory_def Let_def split_beta d by (simp add: split_beta)
qed

lemma example_packets:
  "mp_packet 0x5a 0 0x1000 4 = asc ''Z0,1000,4''" "mp_packet 0x7a 0 0x1000 4 = asc ''z0,1000,4''"
  "mp_packet 0x7a 0 0x13fd 4 = asc ''z0,13fd,4''"
  by (simp_all add: mp_packet_def digit_def hexnum.simps hexchars_list asc_def)

lemma put_ok_open:
  assumes "client_fd s \<noteq> -1" "client_wr s = []" "client_in s = Rd_Byte 0x2b # es"
  shows "rsp_put_str_packet e ''OK'' s = Some (s\<lparr>client_in := es, client_out := client_out s @ packet_bytes (asc ''OK'')\<rparr>)"
  using put_packet_step [OF assms] by (simp add: rsp_put_str_packet_def put_str_packet_def asc_def const_simps Let_def)

text \<open>A packet arrives in one piece.\<close>

lemma example_packet:
  assumes "client_fd s \<noteq> -1" "client_wr s = []" "client_in s = map Rd_Byte (framed bs [h, l] @ rest)"
    and "checksum_of bs = digits_value h l" "plain_body GDB_BUF_MAX bs" "0 \<notin> set bs"
  shows "\<exists>v. rsp_get_packet e s = Some (True, v) \<and> pkt_str v = bs \<and> target_running v = target_running s \<and>
    client_fd v = client_fd s \<and> client_wr v = [] \<and> client_in v = map Rd_Byte rest \<and> mp_hash v = mp_hash s \<and>
    hwp_in_use (tgt v) = hwp_in_use (tgt s) \<and> api_free (tgt v) = api_free (tgt s)"
proof -
  have "rsp_get_packet e s = Some (True, (packet_stored bs s)\<lparr>client_in := map Rd_Byte rest, client_out := client_out s @ [0x2b]\<rparr>)"
    using get_packet_frame [OF assms(1,2,5), of h l "map Rd_Byte rest" True "rsp_client_close e"] assms(3,4)
    by (simp add: rsp_get_packet_def Let_def)
  moreover have "pkt_str (x\<lparr>client_in := a, client_out := b\<rparr>) = pkt_str x" for x :: "'a rsp" and a b
    by (simp add: pkt_str_def pkt_def)
  moreover have "pkt_str (packet_stored bs s) = bs"
    using assms(6) by (simp add: pkt_str_def takeWhile_eq_all_conv) metis
  ultimately show ?thesis using assms(2)
    by (simp add: packet_stored_def set_len_def store_char_def store_at_def)
qed

text \<open>In between, GDB removes another breakpoint whose address is in the same bucket.\<close>

lemma example_frames:
  "asc ''$z0,1000,4#f7'' = framed (asc ''z0,1000,4'') [0x66, 0x37]"
  "asc ''$z0,13fd,4#64+'' = framed (asc ''z0,13fd,4'') [0x36, 0x34] @ [0x2b]"
  "checksum_of (asc ''z0,1000,4'') = digits_value 0x66 0x37" "checksum_of (asc ''z0,13fd,4'') = digits_value 0x36 0x34"
  "plain_body GDB_BUF_MAX (asc ''z0,1000,4'')" "plain_body GDB_BUF_MAX (asc ''z0,13fd,4'')"
  "0 \<notin> set (asc ''z0,1000,4'')" "0 \<notin> set (asc ''z0,13fd,4'')"
  by code_simp+

definition breakpoint_set :: "unit rsp \<Rightarrow> bool" where
  "breakpoint_set t \<longleftrightarrow> client_fd t = 7 \<and> client_wr t = [] \<and> server_fd t \<noteq> -1 \<and> \<not> target_running t \<and>
     mp_hash t = mp_hash_add BP_MEMORY (ucast (0x1000 :: u32)) (ucast (uninit unplugged)) mp_hash_init"

lemma example_other_removal:
  assumes "breakpoint_set t" "client_in t = map Rd_Byte (asc ''$z0,13fd,4#64+'')"
  shows "\<exists>u. handle_rsp unplugged [] (Client_Ready True False) t = Some (1, u) \<and> client_fd u = 7 \<and> client_wr u = [] \<and>
    \<not> target_running u \<and> serves_removal unplugged [] (Client_Ready True False) t = Some (BP_MEMORY, 0x13fd)"
proof -
  have t: "client_fd t \<noteq> -1" "client_wr t = []" "server_fd t \<noteq> -1" using assms(1) by (simp_all add: breakpoint_set_def)
  have f: "client_in t = map Rd_Byte (framed (asc ''z0,13fd,4'') [0x36, 0x34] @ [0x2b])"
    using assms(2) by (simp only: example_frames)
  obtain v where v: "rsp_get_packet unplugged t = Some (True, v)" "pkt_str v = mp_packet 0x7a 0 0x13fd 4"
    "target_running v = target_running t" "client_fd v = client_fd t" "client_wr v = []"
    "client_in v = map Rd_Byte [0x2b]" "mp_hash v = mp_hash t"
    using example_packet [OF t(1,2) f example_frames(4,6,8), of unplugged] unfolding example_packets by auto
  have hd: "buf_data (pkt_buf v) 0 = 0x7a" using pkt_str_first [of v "0x7a"] v(2) by (simp add: mp_packet_def)
  have "mp_inv mp_hash_init" using mp.empty by simp
  moreover have "mp_hash_lookup BP_MEMORY 0x13fd mp_hash_init = None"
    by (simp add: mp_hash_lookup_def mp_hash_init_def)
  ultimately have "fst (mp_hash_delete BP_MEMORY (ucast (0x13fd :: u32)) (mp_hash v)) = None"
    using assms(1) v(7) by (simp add: breakpoint_set_def mp_hash_delete_fst mp_hash_add_lookup)
  note del = this delete_None [OF this]
  let ?w = "v\<lparr>client_in := [], client_out := client_out v @ packet_bytes (asc ''OK'')\<rparr>"
  have "rsp_put_str_packet unplugged ''OK'' v = Some ?w"
    using put_ok_open [of v "[]" unplugged] v t by simp
  then have "remove_memory unplugged 0x13fd v = Some ?w"
    using del by (simp add: remove_memory_def Let_def split_beta)
  then have "rsp_client_request unplugged t = Some ?w"
    using v hd assms(1) remove_memory_packet [OF v(2), of unplugged]
    by (simp add: rsp_client_request_def rsp_dispatch_def breakpoint_set_def Let_def)
  then have "handle_rsp unplugged [] (Client_Ready True False) t = Some (1, ?w)"
    using t by (simp add: handle_rsp_def)
  moreover have "serves_removal unplugged [] (Client_Ready True False) t = removal_of v"
    using t v hd assms(1) by (simp add: serves_removal_def asks_removal_def breakpoint_set_def)
  moreover have "removal_of v = Some (BP_MEMORY, 0x13fd)"
    using scan_mp_packet [of 0 4 "0x7a" "0x13fd"] v(2) by (simp add: removal_of_def mp_fields_def mp_type_codes)
  ultimately show ?thesis using v assms(1) by (auto simp: breakpoint_set_def)
qed

theorem memory_breakpoint_restored_witness:
  "\<exists>t u v. rsp_insert_matchpoint unplugged (example_rsp (asc ''Z0,1000,4'') (asc ''+'')) = Some t \<and>
     handle_rsp unplugged [] (Client_Ready True False) (t\<lparr>client_in := map Rd_Byte (asc ''$z0,13fd,4#64+'')\<rparr>) = Some (1, u) \<and>
     rsp_get_packet unplugged (u\<lparr>client_in := map Rd_Byte (asc ''$z0,1000,4#f7'')\<rparr>) = Some (True, v) \<and>
     rsp_client_request unplugged (u\<lparr>client_in := map Rd_Byte (asc ''$z0,1000,4#f7'')\<rparr>) = do {
       (_, w) \<leftarrow> api_write_instr unplugged 0x1000 (uninit unplugged)
          (v\<lparr>mp_hash := snd (mp_hash_delete BP_MEMORY (ucast (0x1000 :: u32)) (mp_hash v))\<rparr>);
       rsp_put_str_packet unplugged ''OK'' w }"
proof -
  let ?s = "example_rsp (asc ''Z0,1000,4'') (asc ''+'')"
  have s: "pkt_str ?s = mp_packet 0x5a 0 0x1000 4" by (simp add: pkt_str_def example_packets asc_def)
  have "api_free (tgt ?s)" by (simp add: example_rsp_def unplugged_target_def api_free_def)
  from unplugged_api(3) [OF this, of "0x1000" "uninit unplugged"]
  obtain err d where r: "api_read_instr unplugged 0x1000 (uninit unplugged) ?s =
      Some ((err, uninit unplugged), ?s\<lparr>tgt := (tgt ?s)\<lparr>tdbg := d\<rparr>\<rparr>)" and d: "dbg_access_mutex d = Free"
    by blast
  let ?s1 = "?s\<lparr>tgt := (tgt ?s)\<lparr>tdbg := d\<rparr>, mp_hash := mp_hash_add BP_MEMORY (ucast (0x1000 :: u32)) (ucast (uninit unplugged)) mp_hash_init\<rparr>"
  have "api_free (tgt ?s1)" using d by (simp add: api_free_def)
  from unplugged_api(4) [OF this, of "0x1000" OR1K_TRAP_INSTR]
  obtain err' d' where w: "api_write_instr unplugged 0x1000 OR1K_TRAP_INSTR ?s1 = Some (err', ?s1\<lparr>tgt := (tgt ?s1)\<lparr>tdbg := d'\<rparr>\<rparr>)"
    by blast
  let ?t = "?s1\<lparr>tgt := (tgt ?s1)\<lparr>tdbg := d'\<rparr>, client_in := [], client_out := packet_bytes (asc ''OK'')\<rparr>"
  let ?t1 = "?t\<lparr>client_in := map Rd_Byte (asc ''$z0,13fd,4#64+'')\<rparr>"
  have h: "mp_hash ?s = mp_hash_init" by (simp add: example_rsp_def)
  have "rsp_insert_matchpoint unplugged ?s = insert_memory unplugged 0x1000 ?s"
    by (rule insert_memory_packet [OF s]) simp
  also have "\<dots> = Some ?t"
    using put_ok_open [of "?s1\<lparr>tgt := (tgt ?s1)\<lparr>tdbg := d'\<rparr>\<rparr>" "[]" unplugged] w
    by (simp add: insert_memory_def r h Let_def) (simp add: example_rsp_def asc_def)
  finally have t: "rsp_insert_matchpoint unplugged ?s = Some ?t" .
  have "breakpoint_set ?t1" by (simp add: breakpoint_set_def example_rsp_def)
  from example_other_removal [OF this]
  obtain u where u: "handle_rsp unplugged [] (Client_Ready True False) ?t1 = Some (1, u)" "client_fd u = 7"
    "client_wr u = []" "\<not> target_running u" "serves_removal unplugged [] (Client_Ready True False) ?t1 = Some (BP_MEMORY, 0x13fd)"
    by auto
  let ?u = "u\<lparr>client_in := map Rd_Byte (asc ''$z0,1000,4#f7'')\<rparr>"
  have run: "rsp_run unplugged (\<lambda>waits p t. serves_removal unplugged waits p t \<noteq> Some (BP_MEMORY, ucast (0x1000 :: u32))) ?t ?u"
    by (rule rsp_run.Arrival, rule rsp_run.Call [OF rsp_run.Arrival [OF rsp_run.Start] _ u(1)]) (use u(5) in simp)
  have f: "client_in ?u = map Rd_Byte (framed (asc ''z0,1000,4'') [0x66, 0x37] @ [])"
    by (simp add: example_frames)
  obtain v where v: "rsp_get_packet unplugged ?u = Some (True, v)" "pkt_str v = mp_packet 0x7a 0 0x1000 4" "\<not> target_running v"
    using example_packet [OF _ _ f example_frames(3,5,7), of unplugged] u unfolding example_packets by auto
  have "mp_inv (mp_hash ?s)" "mp_hash_lookup BP_MEMORY (ucast (0x1000 :: u32)) (mp_hash ?s) = None"
    using mp.empty by (simp_all add: h mp_hash_lookup_def mp_hash_init_def)
  from memory_breakpoint_restored [OF this s _ r t run v(1,3,2)] t u(1) v(1) show ?thesis by auto
qed

section \<open>A watchpoint that is granted\<close>

text \<open>A client connects and sets a hardware breakpoint.\<close>

definition returns :: "('a \<Rightarrow> bool) \<Rightarrow> 'a option \<Rightarrow> bool" where
  "returns Q m \<longleftrightarrow> (\<exists>x. m = Some x \<and> Q x)"

lemma returns_bind: "returns P m \<Longrightarrow> (\<And>x. P x \<Longrightarrow> returns Q (f x)) \<Longrightarrow> returns Q (m \<bind> f)"
  by (auto simp: returns_def)

text \<open>A halted server with a table and watchpoints, and what is to arrive from its client.\<close>

definition halted_with :: "mp_table \<Rightarrow> bool list \<Rightarrow> u8 list \<Rightarrow> unit rsp \<Rightarrow> bool" where
  "halted_with h u bs s \<longleftrightarrow> client_fd s = 7 \<and> client_wr s = [] \<and> client_in s = map Rd_Byte bs \<and>
     \<not> target_running s \<and> mp_hash s = h \<and> hwp_in_use (tgt s) = u \<and> api_free (tgt s)"

lemma halted_returns:
  assumes "halted_with h u bs s"
  shows "returns (\<lambda>y. halted_with h u bs (snd y)) (api_cpu_read unplugged a x s)"
    "returns (\<lambda>y. halted_with h u bs (snd y)) (api_cpu_write unplugged a x s)"
proof -
  have f: "api_free (tgt s)" and k: "halted_with h u bs (s\<lparr>tgt := (tgt s)\<lparr>tdbg := d\<rparr>\<rparr>)" if "dbg_access_mutex d = Free" for d
    using assms that by (simp_all add: halted_with_def api_free_def)
  then have f: "api_free (tgt s)" using assms by (simp add: halted_with_def)
  show "returns (\<lambda>y. halted_with h u bs (snd y)) (api_cpu_read unplugged a x s)"
    using unplugged_api(1) [OF f, of a x] k by (auto simp: returns_def)
  show "returns (\<lambda>y. halted_with h u bs (snd y)) (api_cpu_write unplugged a x s)"
    using unplugged_api(2) [OF f, of a x] k by (auto simp: returns_def)
qed

lemmas halted_binds = halted_returns [THEN returns_bind]

lemma returns_Some [simp]: "returns Q (Some x) \<longleftrightarrow> Q x"
  by (simp add: returns_def)

lemma example_setup:
  assumes "halted_with h u bs s"
  shows "returns (halted_with h u bs) (setup_cpu unplugged s)"
  unfolding setup_cpu_def Let_def
  by (auto intro!: halted_binds simp: set_stall_state_def Let_def send_command_def api_free_def assms [unfolded halted_with_def api_free_def] halted_with_def [of _ _ _ "s\<lparr>tgt := t, target_running := r, single_step_mode := m\<rparr>" for t r m])

lemma example_accept:
  "returns (halted_with mp_hash_init (replicate 8 False) bs) (rsp_server_request unplugged
     (Accept_Fd 7 True (map Rd_Byte bs) []) (rsp_init (Some 6) None 3 True 51000 (example_rsp [] [])))"
proof -
  let ?s = "rsp_init (Some 6) None 3 True 51000 (example_rsp [] [])"
  obtain fds t where "register_with_monitor_thread (pipe_fds ?s) (tgt ?s) = Some ((1, fds), t)"
    "hwp_in_use t = replicate 8 False" "api_free t"
    by (simp add: rsp_init_def example_rsp_def register_defs unplugged_target_def lock_pipes_def sys_pipe_def
        unlock_pipes_def const_simps api_free_def)
  then show ?thesis
    by (auto simp: rsp_server_request_def Let_def intro!: example_setup)
       (auto simp: halted_with_def rsp_init_def example_rsp_def)
qed

lemma first_grant:
  "hwp_in_use t = replicate 8 False \<Longrightarrow>
     hwp_get_available_watchpoint t = (0, t\<lparr>hwp_in_use := (replicate 8 False)[0 := True]\<rparr>)"
  by (simp add: hwp_get_available_watchpoint_def const_simps upt_conv_Cons)

lemma example_insert:
  assumes "halted_with h (replicate 8 False) [0x2b] s"
  shows "returns (\<lambda>t. mp_hash t = mp_hash_add BP_HARDWARE 0x1000 0 h) (insert_hardware unplugged BP_HARDWARE 0x1000 0x23 s)"
proof -
  let ?h = "mp_hash_add BP_HARDWARE 0x1000 0 h" and ?u = "(replicate 8 False)[0 := True]"
  have u: "hwp_in_use (tgt s) = replicate 8 False" and h: "mp_hash s = h" using assms by (simp_all add: halted_with_def)
  have "halted_with ?h ?u [0x2b] (s\<lparr>tgt := (tgt s)\<lparr>hwp_in_use := ?u\<rparr>, mp_hash := ?h\<rparr>)"
    using assms by (simp add: halted_with_def api_free_def)
  moreover have "returns (\<lambda>t. mp_hash t = ?h) (rsp_put_str_packet unplugged ''OK'' x)"
    if "halted_with ?h ?u [0x2b] x" for x
    using that put_ok_open [of x "[]" unplugged] by (simp add: halted_with_def)
  ultimately show ?thesis
    unfolding insert_hardware_def first_grant [OF u] Let_def
    by (auto intro!: halted_binds simp: h)
qed

lemma example_insertion:
  "asc ''$Z1,1000,4#d8+'' = framed (asc ''Z1,1000,4'') [0x64, 0x38] @ [0x2b]"
  "checksum_of (asc ''Z1,1000,4'') = digits_value 0x64 0x38" "plain_body GDB_BUF_MAX (asc ''Z1,1000,4'')"
  "0 \<notin> set (asc ''Z1,1000,4'')" "mp_packet 0x5a 1 0x1000 4 = asc ''Z1,1000,4''"
  by (code_simp+)

lemma example_round:
  "\<exists>t. handle_rsp unplugged [Server_Input (Accept_Fd 7 True (map Rd_Byte (asc ''$Z1,1000,4#d8+'')) [])] (Client_Ready True False)
      (rsp_init (Some 6) None 3 True 51000 (example_rsp [] [])) = Some (1, t) \<and>
     mp_hash t = mp_hash_add BP_HARDWARE 0x1000 0 mp_hash_init"
proof -
  let ?s = "rsp_init (Some 6) None 3 True 51000 (example_rsp [] [])" and ?in = "asc ''$Z1,1000,4#d8+''"
  have s: "client_fd ?s = -1" "server_fd ?s = 3" by (simp_all add: rsp_init_def)
  obtain t where t: "rsp_server_request unplugged (Accept_Fd 7 True (map Rd_Byte ?in) []) ?s = Some t"
    "halted_with mp_hash_init (replicate 8 False) ?in t"
    using example_accept [of ?in] by (auto simp: returns_def)
  let ?t = "t\<lparr>client_waiting := False\<rparr>"
  have h: "client_fd ?t \<noteq> -1" "client_wr ?t = []" "client_in ?t = map Rd_Byte (framed (asc ''Z1,1000,4'') [0x64, 0x38] @ [0x2b])"
    using t(2) by (simp_all only: halted_with_def example_insertion(1)) (simp_all)
  obtain v where v: "rsp_get_packet unplugged ?t = Some (True, v)" "pkt_str v = mp_packet 0x5a 1 0x1000 4"
    "halted_with mp_hash_init (replicate 8 False) [0x2b] v"
    using example_packet [OF h example_insertion(2-4), of unplugged] t(2) unfolding example_insertion(5) halted_with_def
    by auto
  have "buf_data (pkt_buf v) 0 = 0x5a" using pkt_str_first [of v "0x5a"] v(2) by (simp add: mp_packet_def)
  then have "rsp_client_request unplugged ?t = rsp_insert_matchpoint unplugged v"
    using v(1,3) by (simp add: rsp_client_request_def rsp_dispatch_def Let_def halted_with_def)
  also have "\<dots> = insert_hardware unplugged BP_HARDWARE 0x1000 0x23 v"
    using scan_mp_packet [of 1 4 "0x5a" "0x1000"] v(2) by (simp add: rsp_insert_matchpoint_def mp_fields_def mp_type_codes)
  finally obtain w where "rsp_client_request unplugged ?t = Some w" "mp_hash w = mp_hash_add BP_HARDWARE 0x1000 0 mp_hash_init"
    using example_insert [OF v(3)] by (auto simp: returns_def)
  then show ?thesis
    using s t h(1) by (simp add: handle_rsp_def)
qed

theorem rsp_matchpoints_hold_watchpoints_witness:
  "\<exists>t. handle_rsp unplugged [Server_Input (Accept_Fd 7 True (map Rd_Byte (asc ''$Z1,1000,4#d8+'')) [])] (Client_Ready True False)
      (rsp_init (Some 6) None 3 True 51000 (example_rsp [] [])) = Some (1, t) \<and>
     mp_hash_lookup BP_HARDWARE 0x1000 (mp_hash t) \<noteq> None \<and> hwp_in_use (tgt t) ! 0"
proof -
  let ?s = "rsp_init (Some 6) None 3 True 51000 (example_rsp [] [])"
  obtain t where t: "handle_rsp unplugged [Server_Input (Accept_Fd 7 True (map Rd_Byte (asc ''$Z1,1000,4#d8+'')) [])]
      (Client_Ready True False) ?s = Some (1, t)" "mp_hash t = mp_hash_add BP_HARDWARE 0x1000 0 mp_hash_init"
    using example_round by blast
  have "rsp_run unplugged (\<lambda>_ _ _. True) ?s t"
    by (rule rsp_run.Call [OF rsp_run.Start _ t(1)]) simp
  then have g: "grants_ok (mp_hash t) (hwp_in_use (tgt t)) (sigval t)"
    by (rule rsp_matchpoints_hold_watchpoints) (simp add: example_rsp_def unplugged_target_def const_simps)
  have e: "mp_inv mp_hash_init" "mp_hash_lookup BP_HARDWARE 0x1000 mp_hash_init = None"
    using mp.empty by (simp_all add: mp_hash_lookup_def mp_hash_init_def)
  then have "mp_map (mp_hash t) (BP_HARDWARE, 0x1000) = Some 0"
    using t(2) mp_map_add [OF e(1), of BP_HARDWARE "0x1000" 0] mp.empty by simp
  with g have "hwp_in_use (tgt t) ! 0" by (fastforce simp: grants_ok_def)
  moreover have "mp_hash_lookup BP_HARDWARE 0x1000 (mp_hash t) \<noteq> None"
    using e t(2) by (simp add: mp_hash_add_lookup)
  ultimately show ?thesis using t(1) by blast
qed

end
