(* ===== verification/Rsp_Requests.thy ===== *)
theory Rsp_Requests
  imports Rsp_Props
begin

text \<open>
  The effect of single requests of the GDB server, on packets as a client writes them.
\<close>

section \<open>The buffer\<close>

lemma client_close_link:
  "rsp_client_close e s = Some t \<Longrightarrow>
     client_fd t = -1 \<and> client_in t = client_in s \<and> client_out t = client_out s \<and> pkt_buf t = pkt_buf s"
  by (auto simp: rsp_client_close_def set_stall_state_def Let_def split: bind_splits if_splits dest!: api_frame(2))

interpretation rsp_link: client_link "rsp_client_close e" for e
  by unfold_locales (use client_close_link in blast)+

text \<open>
  C19: Receiving a packet never writes outside the buffer of 16 KiB, whatever the client sends.
  A packet that is received is shorter than the buffer and is followed by a NUL, unless it is
  the break character; when none is received the client has been closed.
\<close>

theorem rsp_packet_bounded:
  assumes "rsp_get_packet e s = Some (ok, t)"
  shows "(\<forall>i \<ge> GDB_BUF_MAX. buf_data (pkt_buf t) i = buf_data (pkt_buf s) i) \<and>
    (if ok then buf_len (pkt_buf t) < GDB_BUF_MAX \<and> (buf_data (pkt_buf t) (buf_len (pkt_buf t)) = 0 \<or> pkt t = [3])
     else client_fd t = -1)"
  using rsp_link.get_packet_fits [of GDB_BUF_MAX True e s "(ok, t)"] assms
  by (auto simp: rsp_get_packet_def fits_def const_simps)

theorem rsp_packet_bounded_witness:
  "\<exists>t. rsp_get_packet unplugged (example_rsp [] (asc ''$z0,1000,4#f7'')) = Some (True, t) \<and>
     buf_len (pkt_buf t) < GDB_BUF_MAX"
proof -
  have f: "client_in (example_rsp [] (asc ''$z0,1000,4#f7'')) = map Rd_Byte (framed (asc ''z0,1000,4'') [0x66, 0x37] @ [])"
    by (simp add: example_rsp_def example_frames)
  obtain t where t: "rsp_get_packet unplugged (example_rsp [] (asc ''$z0,1000,4#f7'')) = Some (True, t)"
    using example_packet [OF _ _ f example_frames(3,5,7), of unplugged] by (auto simp: example_rsp_def)
  with rsp_packet_bounded [OF t] show ?thesis by auto
qed

section \<open>Hardware breakpoints\<close>

text \<open>
  C35: Setting a hardware breakpoint or watchpoint that is already set takes another watchpoint
  from the pool and does not record it: the table stays the same, so no later removal gives
  that watchpoint back.
\<close>

theorem duplicate_breakpoint_leaks:
  assumes "length (hwp_in_use (tgt s)) = HWP_MAX_WP" "free_wps (tgt s) \<noteq> {}"
    and "mp_hash_lookup type (ucast addr) (mp_hash s) \<noteq> None"
    and "insert_hardware e type addr dcr s = Some t"
  shows "mp_hash t = mp_hash s \<and> free_wps (tgt t) = free_wps (tgt s) - {Min (free_wps (tgt s))}"
proof -
  obtain i u where g: "hwp_get_available_watchpoint (tgt s) = (i, u)" by (cases "hwp_get_available_watchpoint (tgt s)")
  have wf: "wps_wf (tgt s)" using assms(1) by (simp add: wps_wf_def)
  have i: "i = int (Min (free_wps (tgt s)))" "free_wps u = free_wps (tgt s) - {Min (free_wps (tgt s))}"
    using wps.get_some [OF wf assms(2)] g by simp_all
  let ?R = "\<lambda>h w g. h = mp_hash s \<and> w = hwp_in_use u"
  have "mp_hash_add type (ucast addr) v (mp_hash s) = mp_hash s" for v
    using assms(3) by (auto simp: mp_hash_add_def mp_hash_lookup_def Let_def split: option.split)
  then have "on_table ?R (s\<lparr>tgt := u, mp_hash := mp_hash_add type (ucast addr) (of_int i) (mp_hash s)\<rparr>)"
    by (simp add: on_table_def)
  then have "yields (on_table ?R) (insert_hardware e type addr dcr s)"
    unfolding insert_hardware_def g
    by (auto simp: Let_def i intro!: api_binds rsp_link_keeps)
  from yieldsD [OF this assms(4)] i(2) show ?thesis by (simp add: on_table_def free_wps_def)
qed

text \<open>Calls that come back: those on the unplugged cable, with a client that acknowledges the answer.\<close>

definition awaits_ack :: "'c rsp \<Rightarrow> bool" where
  "awaits_ack s \<longleftrightarrow> client_fd s \<noteq> -1 \<and> client_wr s = [] \<and> api_free (tgt s) \<and> (\<exists>es. client_in s = Rd_Byte 0x2b # es)"

lemma unplugged_returns:
  assumes "awaits_ack s"
  shows "returns (\<lambda>y. awaits_ack (snd y)) (api_cpu_read unplugged a x s)"
    "returns (\<lambda>y. awaits_ack (snd y)) (api_cpu_write unplugged a x s)"
    "returns (\<lambda>y. awaits_ack (snd y)) (api_write_instr unplugged a x s)"
    "returns (\<lambda>_. True) (rsp_put_str_packet e ''OK'' s)"
proof -
  have k: "awaits_ack (s\<lparr>tgt := (tgt s)\<lparr>tdbg := d\<rparr>\<rparr>)" if "dbg_access_mutex d = Free" for d
    using assms that by (simp add: awaits_ack_def api_free_def)
  have f: "api_free (tgt s)" using assms by (simp add: awaits_ack_def)
  show "returns (\<lambda>y. awaits_ack (snd y)) (api_cpu_read unplugged a x s)"
    using unplugged_api(1) [OF f, of a x] k by (auto simp: returns_def)
  show "returns (\<lambda>y. awaits_ack (snd y)) (api_cpu_write unplugged a x s)"
    using unplugged_api(2) [OF f, of a x] k by (auto simp: returns_def)
  show "returns (\<lambda>y. awaits_ack (snd y)) (api_write_instr unplugged a x s)"
    using unplugged_api(4) [OF f, of a x] k by (auto simp: returns_def)
  show "returns (\<lambda>_. True) (rsp_put_str_packet e ''OK'' s)"
    using assms put_ok_open [of s _ e] by (auto simp: awaits_ack_def returns_def)
qed

lemmas unplugged_binds = unplugged_returns(1-3) [THEN returns_bind]

theorem duplicate_breakpoint_leaks_witness:
  "\<exists>t. insert_hardware unplugged BP_HARDWARE 0x1000 0x23
      ((example_rsp [] [0x2b])\<lparr>mp_hash := mp_hash_add BP_HARDWARE (ucast (0x1000 :: u32)) 0 mp_hash_init\<rparr>) = Some t \<and>
     free_wps (tgt t) = {1, 2, 3, 4, 5, 6, 7}"
proof -
  let ?s = "(example_rsp [] [0x2b])\<lparr>mp_hash := mp_hash_add BP_HARDWARE (ucast (0x1000 :: u32)) 0 mp_hash_init\<rparr>"
  have u: "hwp_in_use (tgt ?s) = replicate 8 False" by (simp add: example_rsp_def unplugged_target_def)
  have f: "free_wps (tgt ?s) = {0, 1, 2, 3, 4, 5, 6, 7}" unfolding free_wps_def u by (auto simp: const_simps)
  have l: "mp_hash_lookup BP_HARDWARE (ucast (0x1000 :: u32)) (mp_hash ?s) \<noteq> None"
    using mp.empty by (simp add: mp_hash_add_lookup)
  have ack: "awaits_ack ?s" by (simp add: awaits_ack_def example_rsp_def unplugged_target_def api_free_def)
  have "wps_wf (tgt ?s)" unfolding wps_wf_def u by (simp add: const_simps)
  then obtain v where v: "hwp_get_available_watchpoint (tgt ?s) = (0, v)"
    using wps.get_some [of "tgt ?s"] f by (cases "hwp_get_available_watchpoint (tgt ?s)") simp
  then have "tdbg v = tdbg (tgt ?s)"
    by (auto simp: hwp_get_available_watchpoint_def split: option.splits)
  then have "awaits_ack (?s\<lparr>tgt := v, mp_hash := y\<rparr>)" "awaits_ack (?s\<lparr>tgt := v\<rparr>)" for y
    using ack by (simp_all add: awaits_ack_def api_free_def)
  with v have "returns (\<lambda>_. True) (insert_hardware unplugged BP_HARDWARE 0x1000 0x23 ?s)"
    unfolding insert_hardware_def by (auto simp: Let_def intro!: unplugged_binds unplugged_returns)
  then obtain t where t: "insert_hardware unplugged BP_HARDWARE 0x1000 0x23 ?s = Some t" by (auto simp: returns_def)
  have "mp_hash t = mp_hash ?s \<and> free_wps (tgt t) = free_wps (tgt ?s) - {Min (free_wps (tgt ?s))}"
    by (rule duplicate_breakpoint_leaks [OF _ _ l t]) (use u f in \<open>simp_all add: const_simps\<close>)
  with t f show ?thesis by auto
qed

section \<open>Detaching\<close>

text \<open>The connection \<open>c\<close> of the server to the monitor is among the connections \<open>cs\<close>, or it is the one
  that has been taken out of them.\<close>

definition server_fds :: "fdstruct \<Rightarrow> int \<times> int" where
  "server_fds c = (snd (server_to_monitor_fds c), fst (monitor_to_server_fds c))"

definition attached :: "fdstruct \<Rightarrow> fdstruct list \<Rightarrow> 'c rsp \<Rightarrow> bool" where
  "attached c cs s \<longleftrightarrow> \<not> target_running s \<and> monitor_inv (tgt s) \<and> c \<in> set cs \<and>
     (pipe_fds s = server_fds c \<and> connections (tgt s) = cs \<or>
      pipe_fds s = (-1, -1) \<and> mset cs = add_mset c (mset (connections (tgt s))))"

lemma monitor_inv_tdbg [simp]: "monitor_inv (t\<lparr>tdbg := d\<rparr>) = monitor_inv t"
  by (simp add: monitor_inv_def all_fds_def told_def status_char_def)

text \<open>The debug unit after the write that allows no more exceptions to halt the CPU, which is the
  only access of a server that detaches.\<close>

definition dsr_cleared :: "'c env \<Rightarrow> 'c dbg \<Rightarrow> 'c dbg" where
  "dsr_cleared e d = snd (dbg_cpu0_write (env_host e) (env_hw e) (env_cable e) SPR_DSR 0 d)"

text \<open>Nobody has asked for the CPU to run: it is recorded as halted, no command waits in a pipe,
  and the debug unit has seen no other write since its state was \<open>d\<close>.\<close>

definition halted_since :: "'c env \<Rightarrow> 'c dbg \<Rightarrow> 'c target \<Rightarrow> bool" where
  "halted_since e d t \<longleftrightarrow> \<not> target_is_running t \<and> (\<forall>c \<in> set (connections t). to_monitor c = []) \<and>
     (\<exists>n. tdbg t = (dsr_cleared e ^^ n) d)"

lemma close_attached:
  assumes "attached c cs s" "halted_since e d (tgt s)"
  shows "yields (\<lambda>t. attached c cs t \<and> halted_since e d (tgt t) \<and> pipe_fds t = (-1, -1)) (rsp_client_close e s)"
proof -
  have "attached c cs t \<and> halted_since e d (tgt t) \<and> pipe_fds t = (-1, -1)" if t: "rsp_client_close e s = Some t" for t
  proof -
    have run: "\<not> target_running s" using assms(1) by (simp add: attached_def)
    with t obtain err u where w: "api_cpu_write e SPR_DSR 0 s = Some (err, u)"
      by (auto simp: rsp_client_close_def Let_def split: bind_splits)
    then have u: "u = s\<lparr>tgt := (tgt s)\<lparr>tdbg := dsr_cleared e (tdbg (tgt s))\<rparr>\<rparr>"
      by (auto simp: api_cpu_write_def api_call_def unit_result_def dsr_cleared_def split: prod.splits option.splits)
    obtain n where "tdbg (tgt s) = (dsr_cleared e ^^ n) d" using assms(2) by (auto simp: halted_since_def)
    then have "tdbg (tgt u) = (dsr_cleared e ^^ Suc n) d" by (simp add: u)
    moreover have "\<not> target_is_running (tgt u) \<and> (\<forall>c \<in> set (connections (tgt u)). to_monitor c = [])"
      using assms(2) by (simp add: halted_since_def u)
    ultimately have h: "halted_since e d (tgt u)" unfolding halted_since_def by blast
    have inv: "monitor_inv (tgt u)" using assms(1) by (simp add: attached_def u)
    show ?thesis
    proof (cases "pipe_fds s = (-1, -1)")
      case True
      with t run w show ?thesis
        using assms(1) h by (auto simp: rsp_client_close_def u unregister_with_monitor_thread_def Let_def attached_def
            split: if_splits)
    next
      case False
      with assms(1) have p: "pipe_fds u = server_fds c" "connections (tgt u) = cs" "c \<in> set (connections (tgt u))"
        by (auto simp: attached_def u)
      obtain x where x: "unregister_with_monitor_thread (server_fds c) (tgt u) = Some ((-1, -1), x)"
        "mset cs = add_mset c (mset (connections x))"
        using unregister_connection [OF inv p(3)] p(2) unfolding server_fds_def by blast
      have "monitor_inv x" using unregister_inv [OF inv x(1)] .
      moreover have "set (connections x) \<subseteq> set (connections (tgt u))"
        using x(2) p(2) by (metis set_mset_add_mset_insert set_mset_mset subset_insertI)
      then have "halted_since e d x"
        using h x(1) unfolding halted_since_def
        by (auto simp: unregister_with_monitor_thread_def lock_pipes_def unlock_pipes_def split: if_splits option.splits)
      ultimately show ?thesis
        using t run w x p assms(1) by (auto simp: rsp_client_close_def u Let_def attached_def split: if_splits)
    qed
  qed
  then show ?thesis by (simp add: yields_def)
qed

interpretation detaching: link_inv "rsp_client_close e" "\<lambda>s. attached c cs s \<and> halted_since e d (tgt s)" for e c cs d
proof (unfold_locales, goal_cases)
  case (5 s)
  then show ?case by (intro yields_mono [OF close_attached]) auto
qed (simp_all add: attached_def)

lemma send_nowhere:
  assumes "monitor_inv t"
  shows "connections (send_command (-1) cmd t) = connections t"
proof -
  have "snd (server_to_monitor_fds c) \<noteq> -1" if "c \<in> set (connections t)" for c
  proof -
    have "snd (server_to_monitor_fds c) \<in> set (all_fds t)" using that by (auto simp: all_fds_def conn_fds_def)
    then have "0 \<le> snd (server_to_monitor_fds c)" using assms by (auto simp: monitor_inv_def)
    then show ?thesis by simp
  qed
  then show ?thesis by (simp add: send_command_def map_idI)
qed

text \<open>A round of the monitor changes nothing then.\<close>

lemma idle_serve:
  "\<forall>i \<in> set is. to_monitor (connections s ! i) = [] \<Longrightarrow> serve_connections h hw cb ready is s = Some t \<Longrightarrow> t = s"
  by (induction "is") (auto simp: Let_def split: if_splits)

lemma idle_round:
  assumes "target_handler h hw cb status ret t = Some u" "halted_since e d t" "\<not> pipes_mutex t"
  shows "u = t"
proof -
  have q: "\<not> target_is_running t" "\<forall>c \<in> set (connections t). to_monitor c = []"
    using assms(2) by (simp_all add: halted_since_def)
  have l: "unlock_pipes (t\<lparr>pipes_mutex := True\<rparr>) = t" using assms(3) by (simp add: unlock_pipes_def)
  show ?thesis
  proof (cases ret)
    case (Select_Ready ready)
    with assms(1,3) l obtain v where v: "serve_connections h hw cb ready [0..<length (connections t)]
        (t\<lparr>pipes_mutex := True\<rparr>) = Some v" "u = unlock_pipes v"
      by (auto simp: target_handler_def lock_pipes_def split: bind_splits)
    have "v = t\<lparr>pipes_mutex := True\<rparr>" by (rule idle_serve [OF _ v(1)]) (use q(2) in auto)
    with v(2) l show ?thesis by simp
  qed (use assms(1,3) l q(1) in \<open>auto simp: target_handler_def lock_pipes_def poll_target_def\<close>)
qed

text \<open>The server takes its steps, and the monitor runs a round now and then, before, between and
  after them.\<close>

definition monitor_round :: "'c env \<Rightarrow> 'c target \<Rightarrow> 'c target \<Rightarrow> bool" where
  "monitor_round e t u \<longleftrightarrow>
     (\<exists>status ret. target_handler (env_host e) (env_hw e) (env_cable e) status ret t = Some u)"

inductive interleaved :: "'c env \<Rightarrow> ('c rsp \<Rightarrow> 'c rsp option) list \<Rightarrow> 'c rsp \<Rightarrow> 'c rsp \<Rightarrow> bool" for e where
  Done: "interleaved e [] s s"
| Server: "f s = Some t \<Longrightarrow> interleaved e fs t u \<Longrightarrow> interleaved e (f # fs) s u"
| Monitor: "monitor_round e (tgt s) x \<Longrightarrow> interleaved e fs (s\<lparr>tgt := x\<rparr>) u \<Longrightarrow> interleaved e fs s u"

lemma interleaved_step:
  assumes "interleaved e fs s u" "P s"
    and "\<And>s x. P s \<Longrightarrow> monitor_round e (tgt s) x \<Longrightarrow> P (s\<lparr>tgt := x\<rparr>)"
  shows "(case fs of [] \<Rightarrow> P u | f # gs \<Rightarrow> \<exists>v t. P v \<and> f v = Some t \<and> interleaved e gs t u)"
  using assms by (induction rule: interleaved.induct) (auto split: list.splits)

text \<open>
  C36: When GDB detaches from a halted CPU, the server answers, closes its connection to the
  monitor and only then sends the command to run, over a descriptor that is gone. However the
  monitor's rounds come in between and afterwards, the command reaches nobody: the CPU stays
  recorded as halted, no command waits in any of the other servers' pipes, and the debug unit
  sees no access but the write of zero to the debug stop register, so no write of its
  control register, which would let the CPU run. (The other servers are assumed to send no
  commands of their own.)
\<close>

theorem detach_leaves_target_stalled:
  assumes "monitor_inv (tgt s)" "c \<in> set (connections (tgt s))" "\<not> target_running s"
    and "pipe_fds s = (snd (server_to_monitor_fds c), fst (monitor_to_server_fds c))"
    and "\<not> target_is_running (tgt s)" "\<forall>c \<in> set (connections (tgt s)). to_monitor c = []"
    and "interleaved e (detach_steps e) s t"
  shows "\<not> target_is_running (tgt t) \<and> (\<forall>c \<in> set (connections (tgt t)). to_monitor c = []) \<and>
    (\<exists>n. tdbg (tgt t) = (dsr_cleared e ^^ n) (tdbg (tgt s))) \<and>
    pipe_fds t = (-1, -1) \<and> mset (connections (tgt s)) = add_mset c (mset (connections (tgt t)))"
proof -
  let ?cs = "connections (tgt s)" and ?d = "tdbg (tgt s)"
  let ?P = "\<lambda>s. attached c ?cs s \<and> halted_since e ?d (tgt s)"
  let ?Q = "\<lambda>s. ?P s \<and> pipe_fds s = (-1, -1)"
  have keep: "v\<lparr>tgt := x\<rparr> = v" if "?P v" "monitor_round e (tgt v) x" for v x
  proof -
    have "x = tgt v" using that unfolding monitor_round_def attached_def monitor_inv_def by (blast dest: idle_round)
    then show ?thesis by (cases v) simp
  qed
  have P: "?P (v\<lparr>tgt := x\<rparr>)" if "?P v" "monitor_round e (tgt v) x" for v x
    unfolding keep [OF that] by (rule that(1))
  have Q: "?Q (v\<lparr>tgt := x\<rparr>)" if "?Q v" "monitor_round e (tgt v) x" for v x
    unfolding keep [OF conjunct1 [OF that(1)] that(2)] by (rule that(1))
  have "tdbg (tgt s) = (dsr_cleared e ^^ 0) ?d" by simp
  then have "?P s" using assms(1-6) unfolding attached_def halted_since_def server_fds_def by blast
  from interleaved_step [OF assms(7) this P]
  obtain u1 v1 where 1: "?P u1" "rsp_put_str_packet e ''OK'' u1 = Some v1"
    "interleaved e [rsp_client_close e, \<lambda>s. Some (set_stall_state False s)] v1 t"
    by (auto simp: detach_steps_def)
  have "?P v1"
    using yieldsD [OF detaching.put_str_packet_inv [OF 1(1)]] 1(2) by (simp add: rsp_put_str_packet_def)
  from interleaved_step [OF 1(3) this P]
  obtain u2 v2 where 2: "?P u2" "rsp_client_close e u2 = Some v2" "interleaved e [\<lambda>s. Some (set_stall_state False s)] v2 t"
    by auto
  have "?Q v2" using yieldsD [OF close_attached 2(2)] 2(1) by blast
  from interleaved_step [OF 2(3) this Q]
  obtain u3 where 3: "?Q u3" "interleaved e [] (set_stall_state False u3) t" by auto
  have "monitor_inv (tgt u3)" using 3(1) by (simp add: attached_def)
  then have "send_command (-1) (CHR ''U'') (tgt u3) = tgt u3"
    using send_nowhere [of "tgt u3" "CHR ''U''"] by (cases "tgt u3") (simp add: send_command_def)
  then have eq: "set_stall_state False u3 = u3\<lparr>use_cached_npc := False\<rparr>"
    using 3(1) by (cases u3) (simp add: set_stall_state_def Let_def)
  have "?Q (set_stall_state False u3)"
    using 3(1) unfolding eq by (auto simp: attached_def)
  from interleaved_step [OF 3(2) this Q] have t: "?Q t" by simp
  have "0 \<le> snd (server_to_monitor_fds c)"
    using assms(1,2) by (auto simp: monitor_inv_def all_fds_def conn_fds_def)
  then have "server_fds c \<noteq> (-1, -1)" by (auto simp: server_fds_def)
  with t show ?thesis by (auto simp: attached_def halted_since_def)
qed

text \<open>Nothing in between, and the server's own order of the steps.\<close>

lemma interleaved_in_order: "in_order fs s = Some t \<Longrightarrow> interleaved e fs s t"
  by (induction fs arbitrary: s) (auto intro: interleaved.intros split: bind_splits)

theorem detach_leaves_target_stalled_witness:
  "\<exists>t. rsp_dispatch unplugged (byte CHR ''D'') ((example_rsp (asc ''D'') [0x2b])\<lparr>tgt :=
       unplugged_target\<lparr>target_is_running := False, connections := [example_connection]\<rparr>\<rparr>) = Some t \<and>
     \<not> target_is_running (tgt t) \<and> connections (tgt t) = []"
proof -
  let ?x = "unplugged_target\<lparr>target_is_running := False, connections := [example_connection]\<rparr>"
  let ?s = "(example_rsp (asc ''D'') [0x2b])\<lparr>tgt := ?x\<rparr>"
  let ?u = "?s\<lparr>client_in := [], client_out := packet_bytes (asc ''OK'')\<rparr>"
  have p: "rsp_put_str_packet unplugged ''OK'' ?s = Some ?u"
    using put_ok_open [of ?s "[]" unplugged] by (simp add: example_rsp_def)
  have "api_free (tgt ?u)" by (simp add: unplugged_target_def api_free_def)
  from unplugged_api(2) [OF this, of SPR_DSR 0]
  obtain err d where w: "api_cpu_write unplugged SPR_DSR 0 ?u = Some (err, ?u\<lparr>tgt := (tgt ?u)\<lparr>tdbg := d\<rparr>\<rparr>)"
    by blast
  have inv: "monitor_inv ?x"
    by (simp add: monitor_inv_def unplugged_target_def all_fds_def conn_fds_def example_connection_def told_def const_simps)
  have fds: "pipe_fds ?s = (4, 5)" "\<not> target_running ?u" by (simp_all add: example_rsp_def)
  obtain z where "unregister_with_monitor_thread (4, 5) (?x\<lparr>tdbg := d\<rparr>) = Some ((-1, -1), z)"
    using unregister_connection [of "?x\<lparr>tdbg := d\<rparr>" example_connection] inv by (auto simp: example_connection_def)
  then have "\<exists>t. in_order (detach_steps unplugged) ?s = Some t"
    using fds w by (simp add: detach_steps_def p rsp_client_close_def Let_def)
  then obtain t where t: "in_order (detach_steps unplugged) ?s = Some t" by blast
  have "\<not> target_is_running (tgt t) \<and> (\<forall>c \<in> set (connections (tgt t)). to_monitor c = []) \<and>
    (\<exists>n. tdbg (tgt t) = (dsr_cleared unplugged ^^ n) (tdbg (tgt ?s))) \<and> pipe_fds t = (-1, -1) \<and>
    mset (connections (tgt ?s)) = add_mset example_connection (mset (connections (tgt t)))"
    by (rule detach_leaves_target_stalled [OF _ _ _ _ _ _ interleaved_in_order [OF t]])
      (use inv fds in \<open>simp_all add: example_connection_def\<close>)
  with t show ?thesis by (simp add: rsp_dispatch_def)
qed

section \<open>Registers\<close>

lemma reg2hex_nth: "n < 8 \<Longrightarrow> reg2hex v ! n = hexchars ! unat (drop_bit (28 - n * 4) v AND 0xf)"
  by (simp add: reg2hex_def)

lemma reg2hex_set: "set (reg2hex v) \<subseteq> set hexchars"
proof -
  have "unat (drop_bit (28 - n * 4) v AND 0xf) < 16" for n by (rule unat_and_15) simp
  then show ?thesis by (auto simp: reg2hex_def)
qed

lemma concat_nth:
  "(\<And>xs. xs \<in> set xss \<Longrightarrow> length xs = k) \<Longrightarrow> i < length xss \<Longrightarrow> j < k \<Longrightarrow> concat xss ! (i * k + j) = xss ! i ! j"
proof (induction xss arbitrary: i)
  case (Cons xs xss)
  then show ?case
    by (cases i) (auto simp: nth_append add.assoc)
qed simp

text \<open>The word whose digits are the last digit of one register and the first seven of the next.\<close>

definition shifted_in :: "u32 \<Rightarrow> u32 \<Rightarrow> u32" where
  "shifted_in prev reg = push_bit 28 prev OR drop_bit 4 reg"

lemma shifted_digit:
  assumes "n < 8"
  shows "reg2hex (ucast (shifted_in prev reg)) ! n =
    (if n = 0 then reg2hex (ucast prev) ! 7 else reg2hex (ucast reg) ! (n - 1))"
proof (cases n)
  case 0
  have "drop_bit 28 (ucast (shifted_in prev reg)) AND (0xf :: u64) = ucast prev AND 0xf"
    unfolding and_15
    by (intro bit_word_eqI) (auto simp: shifted_in_def bit_simps bit_take_bit_iff dest: bit_imp_le_length)
  with 0 show ?thesis by (simp add: reg2hex_nth)
next
  case (Suc m)
  define k where "k = 24 - m * 4"
  have k: "28 - n * 4 = k" "28 - m * 4 = k + 4" "k \<le> 24" using Suc assms by (simp_all add: k_def)
  have "drop_bit k (ucast (shifted_in prev reg)) AND (0xf :: u64) = drop_bit (k + 4) (ucast reg) AND 0xf"
    unfolding and_15 using k(3)
    by (intro bit_word_eqI) (auto simp: shifted_in_def bit_simps bit_take_bit_iff ac_simps)
  with Suc assms k show ?thesis by (simp add: reg2hex_nth)
qed

text \<open>
  A packet \<open>G\<close> with the digits of all registers is read from its letter on, one digit too
  early: every register after the first is set to the last digit of the register before it
  followed by its own first seven digits.
\<close>

theorem write_all_regs_shifted:
  assumes "pkt s = 0x47 # concat (map (\<lambda>r. reg2hex (ucast r)) regs)" and "0 < r" "r < length regs"
  shows "reg_at s r = shifted_in (regs ! (r - 1)) (regs ! r)"
proof -
  let ?ds = "concat (map (\<lambda>r. reg2hex (ucast r)) regs)"
  have at: "buf_data (pkt_buf s) i = (0x47 # ?ds) ! i" if "i < Suc (length ?ds)" for i
  proof -
    have "length (pkt s) = Suc (length ?ds)" using assms(1) by simp
    then have "i < buf_len (pkt_buf s)" using that by (simp add: pkt_def)
    then have "pkt s ! i = buf_data (pkt_buf s) i" by (simp add: pkt_def)
    with assms(1) show ?thesis by simp
  qed
  have len: "length ?ds = length regs * 8" by (induction regs) simp_all
  have digit: "?ds ! (i * 8 + j) = reg2hex (ucast (regs ! i)) ! j" if "i < length regs" "j < 8" for i j
    using concat_nth [of "map (\<lambda>r. reg2hex (ucast r)) regs" 8 i j] that by fastforce
  have "buf_data (pkt_buf s) (r * 8 + n) = reg2hex (ucast (shifted_in (regs ! (r - 1)) (regs ! r))) ! n"
    if n: "n < 8" for n
  proof (cases n)
    case 0
    have "r * 8 = Suc ((r - 1) * 8 + 7)" using assms(2) by (cases r) simp_all
    then show ?thesis using at [of "r * 8"] digit [of "r - 1" 7] assms(2,3) len 0 shifted_digit [of 0] by (simp add: add.commute)
  next
    case (Suc m)
    then show ?thesis
      using at [of "r * 8 + n"] digit [of r m] assms(3) len n shifted_digit [OF n] by simp
  qed
  then have "(ucast (hex2reg (\<lambda>n. buf_data (pkt_buf s) (r * 8 + n))) :: u32) =
      ucast (ucast (shifted_in (regs ! (r - 1)) (regs ! r)) :: u64)"
    by (intro hex2reg_reg2hex)
  then show ?thesis by (simp add: reg_at_def)
qed

theorem write_all_regs_shifted_witness:
  "reg_at (example_rsp (asc ''G00000001deadbeef'') []) 1 = 0x1deadbee"
proof -
  have "asc ''G00000001deadbeef'' = 0x47 # concat (map (\<lambda>r. reg2hex (ucast r)) [1, 0xdeadbeef :: u32])"
    by code_simp
  then have "pkt (example_rsp (asc ''G00000001deadbeef'') []) = 0x47 # concat (map (\<lambda>r. reg2hex (ucast r)) [1, 0xdeadbeef :: u32])"
    by simp
  from write_all_regs_shifted [OF this, of 1] show ?thesis by (simp add: shifted_in_def)
qed

text \<open>
  C24: A packet \<open>P\<close> writes exactly the value whose digits it carries: to the general-purpose
  register of that number, or for the three numbers behind them to the PPC, to the NPC (where
  the value is remembered for later reads) and to the SR. Any other number is an error.
\<close>

theorem register_write_value:
  assumes "pkt_str s = 0x50 # hexnum (unat r) @ 0x3d # reg2hex (ucast v)"
  shows "rsp_write_reg e s =
    (if r < 32 then do { (err, s) \<leftarrow> api_cpu_write e (SPR_GPR_BASE + r) v s; rsp_ok_or_error e err s }
     else if r = 32 then do { (err, s) \<leftarrow> api_cpu_write e SPR_PPC v s; rsp_ok_or_error e err s }
     else if r = 33 then do { (err, s) \<leftarrow> api_cpu_write e SPR_NPC v s;
        rsp_ok_or_error e err (s\<lparr>cached_npc := v, use_cached_npc := True\<rparr>) }
     else if r = 34 then do { (err, s) \<leftarrow> api_cpu_write e SPR_SR v s; rsp_ok_or_error e err s }
     else rsp_put_str_packet e ''E01'' s)"
proof -
  have "\<forall>c \<in> set (reg2hex (ucast v)). \<not> is_space c" using reg2hex_set hexchars_member by blast
  moreover have "reg2hex (ucast v) \<noteq> []" by (simp add: reg2hex_def)
  ultimately have scan: "sscanf (lits ''P'' @ [Hex None] @ lits ''='' @ [Word 8]) (pkt_str s) =
      [Num (ucast r), Text (reg2hex (ucast v))]"
    unfolding assms by (intro scan_register_write) simp_all
  have "valstr e (reg2hex (ucast v)) n = reg2hex (ucast v) ! n" if "n < 8" for n
    using that by (simp add: valstr_def mem_byte_def nth_append)
  then have "(ucast (hex2reg (valstr e (reg2hex (ucast v)))) :: u32) = ucast (ucast v :: u64)"
    by (rule hex2reg_reg2hex)
  then have val: "(ucast (hex2reg (valstr e (reg2hex (ucast v)))) :: u32) = v" by simp
  show ?thesis
    unfolding rsp_write_reg_def scan by (auto simp: Let_def val set_npc_def const_simps split_def)
qed

theorem register_write_value_witness:
  "rsp_write_reg unplugged (example_rsp (asc ''P3=deadbeef'') []) =
     do { (err, s) \<leftarrow> api_cpu_write unplugged 0x403 0xdeadbeef (example_rsp (asc ''P3=deadbeef'') []);
          rsp_ok_or_error unplugged err s }"
proof -
  have "reg2hex (ucast (0xdeadbeef :: u32)) = asc ''deadbeef''" by code_simp
  then have "pkt_str (example_rsp (asc ''P3=deadbeef'') []) = 0x50 # hexnum (unat (3 :: u32)) @ 0x3d # reg2hex (ucast (0xdeadbeef :: u32))"
    by (simp add: pkt_str_def hexnum.simps hexchars_list asc_def)
  from register_write_value [OF this, of unplugged] show ?thesis by (simp add: const_simps)
qed

section \<open>Memory\<close>

lemma bytes_hex_ascii2hex: "bytes_hex bs = ascii2hex bs"
proof (induction bs)
  case (Cons ch bs)
  have "drop_bit 4 ch AND 0xf = drop_bit 4 ch" unfolding and_15 by (rule bit_word_eqI) (auto simp: bit_simps dest: bit_imp_le_length)
  with Cons show ?case by (simp add: bytes_hex_def)
qed (simp add: bytes_hex_def)

lemma length_ascii2hex [simp]: "length (ascii2hex bs) = 2 * length bs"
  by (induction bs) simp_all

lemma int_arg_small: "n < 2 ^ 31 \<Longrightarrow> int_arg (ucast (of_nat n :: u32)) = int n"
  by (simp add: int_arg_def signed_of_nat signed_take_bit_int_eq_self_iff unsigned_of_nat take_bit_nat_eq_self)

lemma twice_small: "0 \<le> n \<Longrightarrow> n < 2 ^ 30 \<Longrightarrow> twice n = 2 * n"
proof -
  assume n: "0 \<le> n" "n < 2 ^ 30"
  have "sint (word_of_int (n * 2) :: u32) = signed_take_bit 31 (n * 2)" by (simp only: signed_of_int) simp
  also have "\<dots> = n * 2" using n by (simp add: signed_take_bit_int_eq_self_iff)
  finally show ?thesis by (simp add: twice_def)
qed

lemma pkt_nth: "i < length (pkt s) \<Longrightarrow> buf_data (pkt_buf s) i = pkt s ! i"
  by (simp add: pkt_def)

lemma length_pkt: "length (pkt s) = buf_len (pkt_buf s)"
  by (simp add: pkt_def)

lemma memchr_pkt:
  assumes "pkt s = p @ c # ds" "c \<notin> set p" "length (pkt s) \<le> n"
  shows "memchr (buf_data (pkt_buf s)) c n = Some (length p)"
proof -
  have "buf_data (pkt_buf s) i = (p @ c # ds) ! i" if "i \<le> length p" for i
    using pkt_nth [of i s] that assms(1) by simp
  then show ?thesis
    using assms unfolding memchr_def find_Some_iff
    by (intro exI [of _ "length p"]) (auto simp: nth_append)
qed

lemma pkt_str_all: "0 \<notin> set (pkt s) \<Longrightarrow> pkt_str s = pkt s"
  by (auto simp: pkt_str_def takeWhile_eq_all_conv)

lemma hexnum_no: "c \<in> {0, 0x3a, 0x2c} \<Longrightarrow> c \<notin> set (hexnum n)"
  using hexnum_set [of n] hexchars_member [of c] by auto

lemma nyb_pair_digits: "nyb_pair (hexchars ! unat (drop_bit 4 ch AND 0xf)) (hexchars ! unat (ch AND 0xf)) = ch"
proof -
  have d: "(word_of_int (hex (sint (hexchars ! unat (w AND (0xf :: u8))))) :: u8) = w AND 0xf" for w
    using word_digit [OF unat_and_15, where 'a = 8, of w] by simp
  show ?thesis
    unfolding nyb_pair_def d unfolding and_15 by (rule bit_word_eqI) (auto simp: bit_simps dest: bit_imp_le_length)
qed

lemma ascii2hex_nth:
  "i < length bs \<Longrightarrow> nyb_pair (ascii2hex bs ! (i * 2)) (ascii2hex bs ! (i * 2 + 1)) = bs ! i"
proof (induction bs arbitrary: i)
  case (Cons ch bs)
  then show ?case by (cases i) (simp_all add: nyb_pair_digits)
qed simp

lemma decode_digits:
  assumes "pkt s = p @ 0x3a # ascii2hex bs"
  shows "map (\<lambda>off. nyb_pair (buf_data (pkt_buf s) (length p + 1 + off * 2))
    (buf_data (pkt_buf s) (length p + 1 + off * 2 + 1))) [0..<length bs] = bs"
proof (rule nth_equalityI)
  fix i assume "i < length (map (\<lambda>off. nyb_pair (buf_data (pkt_buf s) (length p + 1 + off * 2))
    (buf_data (pkt_buf s) (length p + 1 + off * 2 + 1))) [0..<length bs])"
  then have i: "i < length bs" by simp
  have "buf_data (pkt_buf s) (length p + 1 + j) = ascii2hex bs ! j" if "j < 2 * length bs" for j
    using pkt_nth [of "length p + 1 + j" s] that assms by (simp add: nth_append)
  from this [of "i * 2"] this [of "i * 2 + 1"] i ascii2hex_nth [OF i]
  show "map (\<lambda>off. nyb_pair (buf_data (pkt_buf s) (length p + 1 + off * 2))
    (buf_data (pkt_buf s) (length p + 1 + off * 2 + 1))) [0..<length bs] ! i = bs ! i"
    by (simp add: add.assoc)
qed simp

text \<open>
  C22: A packet \<open>M\<close> that fits the buffer writes exactly the bytes whose digits it carries, to the
  address it names, in one block access, and is answered with OK or E01 by the result of that.
\<close>

theorem memory_write_bytes:
  assumes "pkt s = 0x4d # hexnum (unat a) @ 0x2c # hexnum (length bs) @ 0x3a # ascii2hex bs"
    and "length (pkt s) < GDB_BUF_MAX" "malloc_ok (env_host e) (int (length bs))"
  shows "rsp_write_mem e s = do {
    (err, s) \<leftarrow> api_write_mem8 e a bs (int (length bs)) s; rsp_ok_or_error e err s }"
proof -
  let ?p = "0x4d # hexnum (unat a) @ 0x2c # hexnum (length bs)"
  have p: "pkt s = ?p @ 0x3a # ascii2hex bs" using assms(1) by simp
  have bs: "length bs < 2 ^ 30" using assms(2) unfolding p by (simp add: const_simps)
  then have u: "unat (of_nat (length bs) :: u32) = length bs" by (simp add: unsigned_of_nat take_bit_nat_eq_self)
  have "0 \<notin> set (pkt s)" unfolding p using ascii2hex_no_nul hexnum_no by auto
  then have "pkt_str s = 0x4d # hexnum (unat a) @ 0x2c # hexnum (unat (of_nat (length bs) :: u32)) @ 0x3a # ascii2hex bs"
    using assms(1) u by (simp add: pkt_str_all)
  then have scan: "sscanf (mem_fields 0x4d) (pkt_str s) = [Num (ucast a), Num (ucast (of_nat (length bs) :: u32))]"
    unfolding mem_fields_def by (simp only: scan_mem)
  have len: "int_arg (ucast (of_nat (length bs) :: u32)) = int (length bs)" "twice (int (length bs)) = 2 * int (length bs)"
    using bs by (simp_all add: int_arg_small twice_small)
  have m: "memchr (buf_data (pkt_buf s)) 0x3a GDB_BUF_MAX = Some (length ?p)"
    using assms(2) hexnum_no by (intro memchr_pkt [OF p]) auto
  have datlen: "int (buf_len (pkt_buf s)) - int (length ?p + 1) = 2 * int (length bs)"
    unfolding length_pkt [symmetric] p by simp
  show ?thesis
    unfolding rsp_write_mem_def scan
    by (simp only: list.case scanned.case Let_def len m datlen bind.simps decode_digits [OF p] nat_int)
       (simp add: assms(3))
qed

text \<open>
  C23: A packet \<open>m\<close> for a length whose digits fit the buffer is answered with the digits of the
  bytes read, which a client decodes to these bytes, or with E01 if the access failed.
\<close>

theorem memory_read_reply:
  assumes "pkt s = 0x6d # hexnum (unat a) @ 0x2c # hexnum n" "2 * n < GDB_BUF_MAX"
    and "api_read_mem8 e a (mem_copy (env_host e) [] 0 n) (int n) s = Some ((err, bs), t)"
  shows "if err = APP_ERR_NONE then \<exists>digits. rsp_read_mem e s = rsp_reply e digits t \<and> hex2ascii digits = take n bs
    else \<exists>b. rsp_read_mem e s = rsp_put_str_packet e ''E01'' (t\<lparr>pkt_buf := b\<rparr>)"
proof -
  have n: "n < 2 ^ 30" using assms(2) by (simp add: const_simps)
  then have u: "unat (of_nat n :: u32) = n" by (simp add: unsigned_of_nat take_bit_nat_eq_self)
  have "0 \<notin> set (pkt s)" unfolding assms(1) using hexnum_no by auto
  then have "pkt_str s = 0x6d # hexnum (unat a) @ 0x2c # hexnum (unat (of_nat n :: u32))"
    using assms(1) u by (simp add: pkt_str_all)
  then have scan: "sscanf (mem_fields 0x6d) (pkt_str s) = [Num (ucast a), Num (ucast (of_nat n :: u32))]"
    unfolding mem_fields_def by (simp only: scan_mem_short)
  have len: "int_arg (ucast (of_nat n :: u32)) = int n" "twice (int n) = 2 * int n" "\<not> int GDB_BUF_MAX \<le> 2 * int n"
    using n assms(2) by (simp_all add: int_arg_small twice_small)
  have short: "\<not> GDB_BUF_MAX \<le> length (ascii2hex (take n bs))" using assms(2) by simp
  have "rsp_read_mem e s = (if err = APP_ERR_NONE then rsp_reply e (ascii2hex (take n bs)) t
      else rsp_put_str_packet e ''E01'' (t\<lparr>pkt_buf := (pkt_buf t)\<lparr>buf_data := overwrite (ascii2hex (take n bs)) (buf_data (pkt_buf t))\<rparr>\<rparr>))"
    unfolding rsp_read_mem_def scan
    by (simp only: list.case scanned.case Let_def len if_False ucast_up_down nat_int assms(3) bind.simps case_prod_conv
        bytes_hex_ascii2hex short)
  then show ?thesis by (auto simp: hex2ascii_ascii2hex)
qed

theorem memory_write_bytes_witness:
  "rsp_write_mem unplugged (example_rsp (asc ''M1000,2:beef'') []) = do {
     (err, s) \<leftarrow> api_write_mem8 unplugged 0x1000 [0xbe, 0xef] 2 (example_rsp (asc ''M1000,2:beef'') []);
     rsp_ok_or_error unplugged err s }"
proof -
  have "ascii2hex [0xbe, 0xef] = asc ''beef''" by code_simp
  then have "pkt (example_rsp (asc ''M1000,2:beef'') []) =
      0x4d # hexnum (unat (0x1000 :: u32)) @ 0x2c # hexnum (length [0xbe, 0xef :: u8]) @ 0x3a # ascii2hex [0xbe, 0xef]"
    by (simp add: hexnum.simps hexchars_list asc_def)
  from memory_write_bytes [OF this, of unplugged] show ?thesis
    by (simp add: const_simps asc_def unplugged_def x86_64_def x86_32_def)
qed

text \<open>A server on a device with four bytes of memory.\<close>

definition wishbone_env :: "tap_view board env" where
  "wishbone_env = \<lparr>env_host = x86_64, env_hw = DBG_HW_ADVANCED,
     env_cable = answering_cable [wishbone_command 4 5] example_answer\<rparr>"

definition wishbone_rsp :: "u8 list \<Rightarrow> tap_view board rsp" where
  "wishbone_rsp request = \<lparr>client_fd = 7, client_in = [], client_wr = [], client_out = [],
     pkt_buf = \<lparr>buf_data = overwrite request (\<lambda>_. 0), buf_len = length request\<rparr>,
     tgt = \<lparr>tdbg = \<lparr>dbg_chain = wishbone_chain, dbg_access_mutex = Free\<rparr>, monitor_thread_running = True,
       target_is_running = False, connections = [], pipes_mutex = False, pipe_results = [], hwp_in_use = []\<rparr>,
     client_waiting = False, target_running = False, single_step_mode = False, proto_num = 6, server_fd = 3,
     sigval = 0, start_addr = EXCEPT_RESET, mp_hash = mp_hash_init, pipe_fds = (4, 5), use_cached_npc = False,
     cached_npc = 0\<rparr>"

theorem memory_read_reply_witness:
  "\<exists>digits t. rsp_read_mem wishbone_env (wishbone_rsp (asc ''m8000,4'')) = rsp_reply wishbone_env digits t \<and>
     hex2ascii digits = [0xEF, 0xBE, 0xAD, 0xDE]"
proof -
  let ?s = "wishbone_rsp (asc ''m8000,4'')" and ?bs = "[0xEF, 0xBE, 0xAD, 0xDE] :: u8 list"
  have pkt: "pkt ?s = asc ''m8000,4''"
    by (auto simp: pkt_def wishbone_rsp_def overwrite_def intro: nth_equalityI)
  then have p: "pkt ?s = 0x6d # hexnum (unat (0x8000 :: u32)) @ 0x2c # hexnum 4"
    by (simp add: hexnum.simps hexchars_list asc_def)
  let ?buf = "mem_copy (env_host wishbone_env) [] 0 4" and ?c = "answering_cable [wishbone_command 4 5] example_answer"
  obtain c where "adbg_wb_burst_read x86_64 ?c 1 4 0x8000 wishbone_chain = ((Some APP_ERR_NONE, Some ?bs), c)"
    using wishbone_read [of 1 5 4] by (auto simp: burst_read_opcode_def const_simps prod_eq_iff)
  then have "adv_read x86_64 ?c 1 4 0x8000 ?buf wishbone_chain = ((Some APP_ERR_NONE, ?bs), c)"
    by (simp add: adv_read_def fill_def mem_copy_def)
  then obtain d where "dbg_wb_read_block8 x86_64 DBG_HW_ADVANCED ?c 0x8000 ?buf 4
      \<lparr>dbg_chain = wishbone_chain, dbg_access_mutex = Free\<rparr> = ((Some APP_ERR_NONE, ?bs), d)"
    by (simp add: dbg_wb_read_block8_def locked_free select_current wishbone_chain_simps on_chain_def returned_from_def)
  then obtain t where "api_read_mem8 wishbone_env 0x8000 ?buf (int 4) ?s = Some ((APP_ERR_NONE, ?bs), t)"
    by (simp add: api_read_mem8_def api_call_def wishbone_env_def wishbone_rsp_def)
  from memory_read_reply [OF p _ this] show ?thesis by (auto simp: const_simps)
qed

end
