(* ===== verification/Jsp_Server.thy ===== *)
theory Jsp_Server
  imports Unplugged C_Scan
begin

text \<open>
  The server for the JTAG serial port (\<^verbatim>\<open>jsp_server.c\<close>), a telnet server for one client: a
  thread moves bytes from the socket to the serial port and back through two ring buffers.

  The state holds the results that the future calls of \<open>recv\<close> and \<open>send\<close> on the client's
  socket give; when the lists have run out, nothing arrives any more and everything is taken.
  It also records what went over the connection and through the port, for the theorems: the
  bytes \<open>recv\<close> has delivered, the bytes \<open>send\<close> has taken, and the bytes the port took and gave
  in transactions without error. The socket does not block.
\<close>

definition JSP_BUFFER_SIZE :: nat where [const_simps]: "JSP_BUFFER_SIZE = 256"

record ring =
  ring_buf :: "nat \<Rightarrow> u8"
  rd_idx :: nat
  wr_idx :: nat
  ring_count :: int

text \<open>\<open>Recv_Data []\<close> is the end of the stream, \<open>Recv_Fail\<close> an error or no data yet.\<close>

datatype recv_event = Recv_Data "u8 list" | Recv_Fail

datatype ip_version = IPv4 | IPv6

record 'c jsp =
  jsp_server_fd :: int
  jsp_client_fd :: int
  jsp_pipe_fds :: "int \<times> int"
  jsp_ipstr :: "u8 list"
  jsp_ipver :: ip_version
  jsp_portnum :: int
  jsp_hostname :: "u8 list"
  jsp_tohw :: ring
  jsp_fromhw :: ring
  jsp_server_running :: bool
  jsp_target_is_running :: bool
  jsp_tgt :: "'c target"
  jsp_recvs :: "recv_event list"
  jsp_sends :: "nat option list"
  jsp_got :: "u8 list"
  jsp_sent :: "u8 list"
  jsp_port_out :: "u8 list"
  jsp_port_in :: "u8 list"

section \<open>Ring buffers\<close>

text \<open>Restarting, storing a stretch of bytes that does not wrap, reading bytes from the front,
  and giving them up.\<close>

definition ring_clear :: "ring \<Rightarrow> ring" where
  "ring_clear q = q\<lparr>rd_idx := 0, wr_idx := 0, ring_count := 0\<rparr>"

definition linear_space :: "ring \<Rightarrow> nat" where
  "linear_space q =
     (let space = int (JSP_BUFFER_SIZE - wr_idx q); free = int JSP_BUFFER_SIZE - ring_count q
      in nat (if space > free then free else space))"

definition ring_store :: "u8 list \<Rightarrow> ring \<Rightarrow> ring" where
  "ring_store bs q = q\<lparr>ring_buf := (\<lambda>j. if wr_idx q \<le> j \<and> j < wr_idx q + length bs then bs ! (j - wr_idx q) else ring_buf q j),
     wr_idx := (wr_idx q + length bs) mod JSP_BUFFER_SIZE, ring_count := ring_count q + int (length bs)\<rparr>"

fun ring_read :: "ring \<Rightarrow> nat \<Rightarrow> nat \<Rightarrow> u8 list" where
  "ring_read q j 0 = []"
| "ring_read q j (Suc n) = ring_buf q j # ring_read q ((j + 1) mod JSP_BUFFER_SIZE) n"

definition ring_drop :: "nat \<Rightarrow> ring \<Rightarrow> ring" where
  "ring_drop n q = q\<lparr>ring_count := ring_count q - int n, rd_idx := (rd_idx q + n) mod JSP_BUFFER_SIZE\<rparr>"

fun ring_push :: "u8 list \<Rightarrow> ring \<Rightarrow> ring" where
  "ring_push [] q = q"
| "ring_push (c # cs) q = ring_push cs (q\<lparr>ring_buf := (ring_buf q)(wr_idx q := c),
     wr_idx := (wr_idx q + 1) mod JSP_BUFFER_SIZE, ring_count := ring_count q + 1\<rparr>)"

section \<open>The socket\<close>

text \<open>The results are the bytes received, or the number of bytes taken; None is -1.\<close>

definition sys_recv :: "nat \<Rightarrow> 'c jsp \<Rightarrow> u8 list option \<times> 'c jsp" where
  "sys_recv n s =
     (if n = 0 then (Some [], s)
      else case jsp_recvs s of
          [] \<Rightarrow> (None, s)
        | Recv_Fail # es \<Rightarrow> (None, s\<lparr>jsp_recvs := es\<rparr>)
        | Recv_Data bs # es \<Rightarrow> (Some (take n bs),
            s\<lparr>jsp_recvs := (if length bs \<le> n then es else Recv_Data (drop n bs) # es),
              jsp_got := jsp_got s @ take n bs\<rparr>))"

definition sys_send :: "u8 list \<Rightarrow> 'c jsp \<Rightarrow> nat option \<times> 'c jsp" where
  "sys_send bs s =
     (case jsp_sends s of
        [] \<Rightarrow> (Some (length bs), s\<lparr>jsp_sent := jsp_sent s @ bs\<rparr>)
      | None # es \<Rightarrow> (None, s\<lparr>jsp_sends := es\<rparr>)
      | Some k # es \<Rightarrow> (Some (min k (length bs)), s\<lparr>jsp_sends := es, jsp_sent := jsp_sent s @ take k bs\<rparr>))"

definition jsp_server_close :: "'c jsp \<Rightarrow> 'c jsp" where
  "jsp_server_close s = (if jsp_server_fd s \<noteq> -1 then s\<lparr>jsp_server_fd := -1\<rparr> else s)"

definition jsp_client_close :: "'c jsp \<Rightarrow> 'c jsp" where
  "jsp_client_close s = (if jsp_client_fd s \<noteq> -1 then s\<lparr>jsp_client_fd := -1\<rparr> else s)"

text \<open>\<open>total_sent\<close> counts the bytes sent; every call starts again with the whole buffer.\<close>

function jsp_send_loop :: "u8 list \<Rightarrow> nat \<Rightarrow> 'c jsp \<Rightarrow> 'c jsp" where
  "jsp_send_loop buf total_sent s =
     (if total_sent < length buf
      then case sys_send buf s of
          (None, s) \<Rightarrow> s
        | (Some n, s) \<Rightarrow> jsp_send_loop buf (total_sent + n) s
      else s)"
  by pat_completeness auto
termination
  by (relation "measure (\<lambda>(buf, total_sent, s). length (jsp_sends s) + (length buf - total_sent))")
    (auto simp: sys_send_def split: list.splits option.splits)

declare jsp_send_loop.simps [simp del]

definition jsp_send_all :: "u8 list \<Rightarrow> 'c jsp \<Rightarrow> 'c jsp" where
  "jsp_send_all buf s = jsp_send_loop buf 0 s"

text \<open>The three texts are sent with their NULs.\<close>

definition jsp_print_welcome :: "'c jsp \<Rightarrow> 'c jsp" where
  "jsp_print_welcome s =
     (let s = jsp_send_all (asc ''Advanced Debug System JTAG Serial Port Server'' @ [10, 13, 0]) s;
          s = jsp_send_all (jsp_hostname s) s;
          s = jsp_send_all (asc '' ('' @ [0]) s;
          s = jsp_send_all (jsp_ipstr s) s;
          s = jsp_send_all (asc ''), port '' @ [0]) s
      in jsp_send_all (take 22 (dec_int (jsp_portnum s) @ [10, 10, 13])) s)"

section \<open>Moving data\<close>

text \<open>One of the two calls of \<open>recv\<close>; the result tells whether the function goes on.\<close>

definition recv_tohw :: "'c jsp \<Rightarrow> bool \<times> 'c jsp" where
  "recv_tohw s =
     (let space_available = linear_space (jsp_tohw s)
      in case sys_recv space_available s of
          (None, s) \<Rightarrow> (False, s)
        | (Some bs, s) \<Rightarrow> (True, if bs = [] then s else s\<lparr>jsp_tohw := ring_store bs (jsp_tohw s)\<rparr>))"

definition jsp_queue_data_from_client :: "'c jsp \<Rightarrow> 'c jsp" where
  "jsp_queue_data_from_client s =
     (case recv_tohw s of (False, s) \<Rightarrow> s | (True, s) \<Rightarrow> snd (recv_tohw s))"

text \<open>One of the two calls of \<open>send\<close>.\<close>

definition send_fromhw :: "'c jsp \<Rightarrow> 'c jsp" where
  "send_fromhw s =
     (let q = jsp_fromhw s; space = int JSP_BUFFER_SIZE - int (rd_idx q)
      in if ring_count q > 0
         then let bytes_available = (if ring_count q > space then space else ring_count q)
              in case sys_send (map (ring_buf q) [rd_idx q..<rd_idx q + nat bytes_available]) s of
                  (None, s) \<Rightarrow> s
                | (Some n, s) \<Rightarrow> s\<lparr>jsp_fromhw := ring_drop n (jsp_fromhw s)\<rparr>
         else s)"

definition jsp_send_data_to_client :: "'c jsp \<Rightarrow> 'c jsp" where
  "jsp_send_data_to_client s = send_fromhw (send_fromhw s)"

text \<open>The counts and the receive buffer of the transaction stay what they were where
  \<open>dbg_serial_sndrcv\<close> does not set them, which it does whenever there is no error.\<close>

definition jsp_hardware_transact :: "'c env \<Rightarrow> 'c jsp \<Rightarrow> 'c jsp option" where
  "jsp_hardware_transact e s =
     (let n = nat (ring_count (jsp_tohw s));
          bytes_to_send = (if n > 8 then 8 else n);
          sendbuf = ring_read (jsp_tohw s) (rd_idx (jsp_tohw s)) bytes_to_send
      in case dbg_serial_sndrcv (env_host e) (env_cable e) bytes_to_send sendbuf (tdbg (jsp_tgt s)) of
          ((None, r), d) \<Rightarrow> None
        | ((Some ret, r), d) \<Rightarrow>
            let s = s\<lparr>jsp_tgt := (jsp_tgt s)\<lparr>tdbg := d\<rparr>\<rparr>;
                (sent, received) = (case r of Some p \<Rightarrow> p | None \<Rightarrow> (bytes_to_send, mem_copy (env_host e) [] 0 8))
            in if ret \<noteq> APP_ERR_NONE then Some s
               else Some (s\<lparr>jsp_tohw := ring_drop sent (jsp_tohw s),
                 jsp_fromhw := ring_push received (jsp_fromhw s),
                 jsp_port_out := jsp_port_out s @ take sent sendbuf,
                 jsp_port_in := jsp_port_in s @ received\<rparr>))"

section \<open>Start-up\<close>

text \<open>The network of the host: \<open>getaddrinfo\<close> of a service name, \<open>gethostname\<close>, the socket that
  \<open>socket\<close> gives, and the success of \<open>setsockopt\<close>, \<open>bind\<close> and \<open>listen\<close>.\<close>

record addrinfo =
  ai_ipver :: ip_version
  ai_ipstr :: "u8 list"
  ai_portnum :: nat

record host_net =
  net_getaddrinfo :: "u8 list \<Rightarrow> addrinfo option"
  net_hostname :: "u8 list option"
  net_socket :: int
  net_setsockopt :: bool
  net_bind :: "addrinfo \<Rightarrow> bool"
  net_listen :: bool

text \<open>\<open>snprintf\<close> with a size of five.\<close>

definition service_name :: "int \<Rightarrow> u8 list" where
  "service_name portNum = take 4 (dec_int portNum)"

definition jsp_init :: "host_net \<Rightarrow> int \<Rightarrow> 'c jsp \<Rightarrow> 'c jsp option" where
  "jsp_init net portNum s =
     (let s = s\<lparr>jsp_server_fd := -1, jsp_client_fd := -1, jsp_portnum := portNum\<rparr>
      in case net_getaddrinfo net (service_name portNum) of
          None \<Rightarrow> Some s
        | Some servinfo \<Rightarrow>
            let s = s\<lparr>jsp_ipver := ai_ipver servinfo, jsp_ipstr := ai_ipstr servinfo,
                  jsp_hostname := (case net_hostname net of None \<Rightarrow> [] | Some n \<Rightarrow> n),
                  jsp_server_fd := net_socket net\<rparr>
            in if net_socket net < 0 then Some s
               else if \<not> net_setsockopt net then Some (jsp_server_close s)
               else if \<not> net_bind net servinfo then Some (jsp_server_close s)
               else if \<not> net_listen net then Some (jsp_server_close s)
               else do {
                 ((r, fds), t) \<leftarrow> register_with_monitor_thread (jsp_pipe_fds s) (jsp_tgt s);
                 let s = s\<lparr>jsp_pipe_fds := fds, jsp_tgt := t\<rparr>;
                 Some (if 0 > r then jsp_server_close s else s) })"

definition jsp_server_start :: "bool \<Rightarrow> 'c jsp \<Rightarrow> int \<times> 'c jsp" where
  "jsp_server_start created s = (if created then 1 else 0, s\<lparr>jsp_server_running := True\<rparr>)"

definition jsp_server_stop :: "'c jsp \<Rightarrow> int \<times> 'c jsp" where
  "jsp_server_stop s = (1, jsp_server_close (s\<lparr>jsp_server_running := False\<rparr>))"

section \<open>The server thread\<close>

definition jsp_accept :: "int \<Rightarrow> recv_event list \<Rightarrow> nat option list \<Rightarrow> 'c jsp \<Rightarrow> 'c jsp" where
  "jsp_accept fd recvs sends s =
     (let s = s\<lparr>jsp_client_fd := fd\<rparr>
      in if fd = -1 then s
         else jsp_print_welcome (s\<lparr>jsp_tohw := ring_clear (jsp_tohw s), jsp_fromhw := ring_clear (jsp_fromhw s),
           jsp_recvs := recvs, jsp_sends := sends, jsp_got := [], jsp_sent := [],
           jsp_port_out := [], jsp_port_in := []\<rparr>))"

definition jsp_monitor_status :: "char option \<Rightarrow> 'c jsp \<Rightarrow> 'c jsp" where
  "jsp_monitor_status cmd s =
     (if cmd = Some CHR ''H'' then s\<lparr>jsp_target_is_running := False\<rparr>
      else if cmd = Some CHR ''R'' then s\<lparr>jsp_target_is_running := True\<rparr>
      else s)"

text \<open>One round of the inner loop, by what \<open>select\<close> gives: an error, a timeout, or which of the
  pipe and the socket are ready.\<close>

datatype jsp_select = Jsp_Error | Jsp_Timeout | Jsp_Ready bool bool

definition jsp_handle_ready :: "jsp_select \<Rightarrow> 'c jsp \<Rightarrow> 'c jsp option" where
  "jsp_handle_ready ret s =
     (case ret of
        Jsp_Ready pipe_ready client_ready \<Rightarrow> do {
          s \<leftarrow> (if pipe_ready then do {
                 (cmd, t) \<leftarrow> read_status (snd (jsp_pipe_fds s)) (jsp_tgt s);
                 Some (jsp_monitor_status cmd (s\<lparr>jsp_tgt := t\<rparr>)) }
               else Some s);
          Some (if client_ready then jsp_queue_data_from_client s else s) }
      | _ \<Rightarrow> Some s)"

definition jsp_server_round :: "'c env \<Rightarrow> jsp_select \<Rightarrow> 'c jsp \<Rightarrow> 'c jsp option" where
  "jsp_server_round e ret s = do {
     s \<leftarrow> jsp_handle_ready ret s;
     let s = jsp_send_data_to_client s;
     if jsp_target_is_running s then jsp_hardware_transact e s else Some s }"

text \<open>
  The thread together with what happens around it. \<open>accept\<close> returns when the thread waits in
  it, which is when it is running and has no client; \<open>select\<close> when it has one; when it is
  not running any more it leaves both loops and closes the client. Another thread may stop it
  or work on the target in between. An event that the thread does not wait for leaves it
  alone.
\<close>

datatype 'c jsp_event =
    Accepted int "recv_event list" "nat option list"
  | Selected jsp_select
  | Finished
  | Stopped
  | Target "'c target"

definition jsp_step :: "'c env \<Rightarrow> 'c jsp_event \<Rightarrow> 'c jsp \<Rightarrow> 'c jsp option" where
  "jsp_step e ev s =
     (case ev of
        Accepted fd recvs sends \<Rightarrow>
          Some (if jsp_server_running s \<and> jsp_client_fd s = -1 then jsp_accept fd recvs sends s else s)
      | Selected ret \<Rightarrow>
          (if jsp_server_running s \<and> jsp_client_fd s \<noteq> -1 then jsp_server_round e ret s else Some s)
      | Finished \<Rightarrow> Some (if jsp_server_running s then s else jsp_client_close s)
      | Stopped \<Rightarrow> Some (snd (jsp_server_stop s))
      | Target t \<Rightarrow> Some (s\<lparr>jsp_tgt := t\<rparr>))"

fun jsp_server :: "'c env \<Rightarrow> 'c jsp_event list \<Rightarrow> 'c jsp \<Rightarrow> 'c jsp option" where
  "jsp_server e [] s = Some s"
| "jsp_server e (ev # evs) s = do { s \<leftarrow> jsp_step e ev s; jsp_server e evs s }"

section \<open>The ring buffers are queues\<close>

text \<open>What the server relies on: bytes go in at one end where there is room and come out at the
  other. \<open>carries\<close> says that the queue holds what has gone in and not yet come out.\<close>

locale byte_queue =
  fixes contents :: "'q \<Rightarrow> u8 list" and wf :: "'q \<Rightarrow> bool" and size :: nat
    and clear :: "'q \<Rightarrow> 'q" and space :: "'q \<Rightarrow> nat" and store :: "u8 list \<Rightarrow> 'q \<Rightarrow> 'q"
    and push :: "u8 list \<Rightarrow> 'q \<Rightarrow> 'q" and front :: "nat \<Rightarrow> 'q \<Rightarrow> u8 list" and drop_front :: "nat \<Rightarrow> 'q \<Rightarrow> 'q"
  assumes size: "wf q \<Longrightarrow> length (contents q) \<le> size"
    and clear: "wf (clear q)" "contents (clear q) = []"
    and store: "wf q \<Longrightarrow> length bs \<le> space q \<Longrightarrow> wf (store bs q) \<and> contents (store bs q) = contents q @ bs"
    and push: "wf q \<Longrightarrow> length (contents q) + length bs \<le> size \<Longrightarrow>
      wf (push bs q) \<and> contents (push bs q) = contents q @ bs"
    and front: "wf q \<Longrightarrow> n \<le> length (contents q) \<Longrightarrow> front n q = take n (contents q)"
    and drop_front: "wf q \<Longrightarrow> n \<le> length (contents q) \<Longrightarrow>
      wf (drop_front n q) \<and> contents (drop_front n q) = drop n (contents q)"
begin

definition carries :: "u8 list \<Rightarrow> u8 list \<Rightarrow> 'q \<Rightarrow> bool" where
  "carries inp outp q \<longleftrightarrow> wf q \<and> inp = outp @ contents q"

lemma carriesD: "carries inp outp q \<Longrightarrow> inp = outp @ contents q \<and> length (contents q) \<le> size"
  by (simp add: carries_def size)

lemma carries_clear: "carries inp inp (clear q)"
  by (simp add: carries_def clear)

lemma carries_store: "carries inp outp q \<Longrightarrow> length bs \<le> space q \<Longrightarrow> carries (inp @ bs) outp (store bs q)"
  by (simp add: carries_def store)

lemma carries_push:
  "carries inp outp q \<Longrightarrow> length (contents q) + length bs \<le> size \<Longrightarrow> carries (inp @ bs) outp (push bs q)"
  by (simp add: carries_def push)

lemma carries_drop:
  "carries inp outp q \<Longrightarrow> m \<le> n \<Longrightarrow> n \<le> length (contents q) \<Longrightarrow>
     carries inp (outp @ take m (front n q)) (drop_front m q)"
  by (simp add: carries_def front drop_front min_absorb1)

end

definition ring_wf :: "ring \<Rightarrow> bool" where
  "ring_wf q \<longleftrightarrow> rd_idx q < JSP_BUFFER_SIZE \<and> 0 \<le> ring_count q \<and> ring_count q \<le> int JSP_BUFFER_SIZE \<and>
     wr_idx q = (rd_idx q + nat (ring_count q)) mod JSP_BUFFER_SIZE"

definition ring_contents :: "ring \<Rightarrow> u8 list" where
  "ring_contents q = map (\<lambda>k. ring_buf q ((rd_idx q + k) mod JSP_BUFFER_SIZE)) [0..<nat (ring_count q)]"

definition ring_front :: "nat \<Rightarrow> ring \<Rightarrow> u8 list" where
  "ring_front n q = ring_read q (rd_idx q) n"

lemma length_ring_contents [simp]: "length (ring_contents q) = nat (ring_count q)"
  by (simp add: ring_contents_def)

lemma ring_read_map:
  "j < JSP_BUFFER_SIZE \<Longrightarrow> ring_read q j n = map (\<lambda>k. ring_buf q ((j + k) mod JSP_BUFFER_SIZE)) [0..<n]"
proof (induction n arbitrary: j)
  case (Suc n)
  have "ring_read q ((j + 1) mod JSP_BUFFER_SIZE) n =
      map (\<lambda>k. ring_buf q ((j + Suc k) mod JSP_BUFFER_SIZE)) [0..<n]"
    using Suc.IH [of "(j + 1) mod JSP_BUFFER_SIZE"] by (simp add: const_simps mod_simps)
  with Suc.prems show ?case
    by (simp add: map_upt_Suc del: upt_Suc)
qed simp

text \<open>The place behind the contents is free while the buffer is not full.\<close>

lemma ring_index:
  "k \<le> 256 \<Longrightarrow> r < 256 \<Longrightarrow> (r + k) mod 256 = (if r + k < 256 then r + k else r + k - (256 :: nat))"
  by (simp add: mod_if)

lemma ring_gap:
  fixes k n m r w :: nat
  assumes "k < n" "n + m \<le> 256" "r < 256" "w = (r + n) mod 256"
  shows "\<not> (w \<le> (r + k) mod 256 \<and> (r + k) mod 256 < w + m)"
  using assms(1-3) unfolding assms(4) by (subst (1 2 3 4) ring_index) auto

lemma ring_tail:
  fixes k n m r w :: nat
  assumes "n \<le> k" "k < n + m" "n + m \<le> 256" "r < 256" "w = (r + n) mod 256" "w + m \<le> 256"
  shows "(r + k) mod 256 = w + (k - n)"
  using assms(1-4,6) unfolding assms(5) by (subst (1 2) ring_index) (auto simp: ring_index split: if_splits)

lemma ring_store_wf:
  assumes "ring_wf q" "length bs \<le> linear_space q"
  shows "ring_wf (ring_store bs q)"
  using assms by (auto simp: ring_wf_def ring_store_def linear_space_def const_simps Let_def nat_add_distrib
      mod_simps add.assoc split: if_splits)

lemma ring_store_contents:
  assumes q: "ring_wf q" and bs: "length bs \<le> linear_space q"
  shows "ring_contents (ring_store bs q) = ring_contents q @ bs"
proof (rule nth_equalityI)
  let ?n = "nat (ring_count q)"
  have n: "?n + length bs \<le> 256" "wr_idx q + length bs \<le> 256" "rd_idx q < 256"
    "wr_idx q = (rd_idx q + ?n) mod 256" "nat (ring_count q + int (length bs)) = ?n + length bs"
    using assms by (auto simp: ring_wf_def linear_space_def const_simps Let_def split: if_splits)
  show "length (ring_contents (ring_store bs q)) = length (ring_contents q @ bs)"
    using n by (simp add: ring_store_def)
  fix k assume "k < length (ring_contents (ring_store bs q))"
  then have k: "k < ?n + length bs" using n by (simp add: ring_store_def)
  have "ring_contents (ring_store bs q) ! k = ring_buf (ring_store bs q) ((rd_idx q + k) mod 256)"
    using k n by (simp add: ring_contents_def ring_store_def const_simps)
  also have "\<dots> = (ring_contents q @ bs) ! k"
  proof (cases "k < ?n")
    case True
    have "\<not> (wr_idx q \<le> (rd_idx q + k) mod 256 \<and> (rd_idx q + k) mod 256 < wr_idx q + length bs)"
      using True n by (intro ring_gap)
    with True n show ?thesis
      by (auto simp: ring_contents_def ring_store_def const_simps nth_append)
  next
    case False
    then obtain i where i: "k = ?n + i" "i < length bs" using k by (metis le_iff_add nat_add_left_cancel_less not_less)
    then have "(rd_idx q + k) mod 256 = wr_idx q + i"
      using False k n ring_tail [of ?n k "length bs" "rd_idx q" "wr_idx q"] by auto
    with i show ?thesis by (simp add: ring_store_def nth_append)
  qed
  finally show "ring_contents (ring_store bs q) ! k = (ring_contents q @ bs) ! k" .
qed

lemma ring_push_store: "wr_idx q < JSP_BUFFER_SIZE \<Longrightarrow> ring_push (c # cs) q = ring_push cs (ring_store [c] q)"
  by (auto simp: ring_store_def fun_eq_iff intro!: arg_cong [where f = "ring_push cs"])

lemma ring_push_appends:
  "ring_wf q \<Longrightarrow> nat (ring_count q) + length bs \<le> JSP_BUFFER_SIZE \<Longrightarrow>
     ring_wf (ring_push bs q) \<and> ring_contents (ring_push bs q) = ring_contents q @ bs"
proof (induction bs arbitrary: q)
  case (Cons c cs)
  have wr: "wr_idx q < JSP_BUFFER_SIZE" using Cons.prems(1) by (simp add: ring_wf_def const_simps)
  then have len: "length [c] \<le> linear_space q"
    using Cons.prems by (auto simp: linear_space_def ring_wf_def const_simps Let_def)
  have "nat (ring_count (ring_store [c] q)) + length cs \<le> JSP_BUFFER_SIZE"
    using Cons.prems by (auto simp: ring_store_def ring_wf_def)
  with Cons.IH [of "ring_store [c] q"] Cons.prems len ring_store_wf [of q "[c]"] ring_store_contents [of q "[c]"]
  show ?case by (simp add: ring_push_store [OF wr] del: ring_push.simps)
qed simp

lemma ring_drop_contents:
  assumes "ring_wf q" "n \<le> nat (ring_count q)"
  shows "ring_wf (ring_drop n q)" "ring_contents (ring_drop n q) = drop n (ring_contents q)"
proof -
  have eq: "nat (ring_count q - int n) = nat (ring_count q) - n" by simp
  have "((rd_idx q + n) mod 256 + (nat (ring_count q) - n)) mod 256 = (rd_idx q + nat (ring_count q)) mod 256"
    using assms(2) mod_add_left_eq [of "rd_idx q + n" 256 "nat (ring_count q) - n"] by simp
  then show "ring_wf (ring_drop n q)"
    using assms by (auto simp: ring_wf_def ring_drop_def const_simps eq)
  show "ring_contents (ring_drop n q) = drop n (ring_contents q)"
    by (rule nth_equalityI) (auto simp: ring_contents_def ring_drop_def const_simps mod_simps eq ac_simps)
qed

interpretation rings: byte_queue ring_contents ring_wf JSP_BUFFER_SIZE ring_clear linear_space ring_store
    ring_push ring_front ring_drop
proof (unfold_locales, goal_cases)
  case (1 q) then show ?case by (auto simp: ring_wf_def const_simps)
next
  case (2 q) show ?case by (simp add: ring_wf_def ring_clear_def const_simps)
next
  case (3 q) show ?case by (simp add: ring_contents_def ring_clear_def)
next
  case (4 q bs) then show ?case by (simp add: ring_store_wf ring_store_contents)
next
  case (5 q bs) then show ?case by (simp add: ring_push_appends)
next
  case (6 q n)
  then show ?case
    by (auto simp: ring_front_def ring_wf_def ring_read_map ring_contents_def take_map)
next
  case (7 q n) then show ?case by (simp add: ring_drop_contents)
qed

section \<open>What the operations touch\<close>

text \<open>Sending touches the socket and the buffer it empties, receiving the socket and the buffer it
  fills.\<close>

definition sending :: "'c jsp \<Rightarrow> 'c jsp \<Rightarrow> bool" where
  "sending s t \<longleftrightarrow> t = s\<lparr>jsp_sends := jsp_sends t, jsp_sent := jsp_sent t, jsp_fromhw := jsp_fromhw t\<rparr>"

definition receiving :: "'c jsp \<Rightarrow> 'c jsp \<Rightarrow> bool" where
  "receiving s t \<longleftrightarrow> t = s\<lparr>jsp_recvs := jsp_recvs t, jsp_got := jsp_got t, jsp_tohw := jsp_tohw t\<rparr>"

lemma sending_refl: "sending s s" "receiving s s"
  by (simp_all add: sending_def receiving_def)

lemma sending_trans: "sending s t \<Longrightarrow> sending t u \<Longrightarrow> sending s u"
  by (cases s; cases t; cases u) (simp add: sending_def)

lemma receiving_trans: "receiving s t \<Longrightarrow> receiving t u \<Longrightarrow> receiving s u"
  by (cases s; cases t; cases u) (simp add: receiving_def)

lemma sending_fields:
  "sending s t \<Longrightarrow> jsp_tohw t = jsp_tohw s \<and> jsp_got t = jsp_got s \<and> jsp_port_out t = jsp_port_out s \<and>
     jsp_port_in t = jsp_port_in s \<and> jsp_client_fd t = jsp_client_fd s \<and>
     jsp_server_running t = jsp_server_running s \<and> jsp_hostname t = jsp_hostname s \<and>
     jsp_ipstr t = jsp_ipstr s \<and> jsp_portnum t = jsp_portnum s \<and> jsp_recvs t = jsp_recvs s"
  by (cases s; cases t) (simp add: sending_def)

lemma receiving_fields:
  "receiving s t \<Longrightarrow> jsp_fromhw t = jsp_fromhw s \<and> jsp_sent t = jsp_sent s \<and> jsp_sends t = jsp_sends s \<and>
     jsp_port_out t = jsp_port_out s \<and> jsp_port_in t = jsp_port_in s \<and> jsp_client_fd t = jsp_client_fd s \<and>
     jsp_server_running t = jsp_server_running s \<and> jsp_hostname t = jsp_hostname s \<and>
     jsp_ipstr t = jsp_ipstr s \<and> jsp_portnum t = jsp_portnum s"
  by (cases s; cases t) (simp add: receiving_def)

lemma sys_send_frame: "sending s (snd (sys_send bs s))" "jsp_fromhw (snd (sys_send bs s)) = jsp_fromhw s"
  by (auto simp: sys_send_def sending_def split: list.split option.split)

lemma sys_recv_frame: "receiving s (snd (sys_recv n s))" "jsp_tohw (snd (sys_recv n s)) = jsp_tohw s"
  by (auto simp: sys_recv_def receiving_def split: list.split recv_event.split)

lemma send_loop_frame: "sending s (jsp_send_loop buf total_sent s)"
proof (induction buf total_sent s rule: jsp_send_loop.induct)
  case (1 buf total_sent s)
  obtain r t where r: "sys_send buf s = (r, t)" by (cases "sys_send buf s")
  then have "sending s t" using sys_send_frame(1) [of s buf] by simp
  with 1 [OF _ r [symmetric]] r show ?case
    by (subst jsp_send_loop.simps) (auto intro: sending_trans sending_refl split: option.split)
qed

lemma welcome_frame: "sending s (jsp_print_welcome s)"
  unfolding jsp_print_welcome_def Let_def jsp_send_all_def
  by (intro sending_trans [OF _ send_loop_frame] sending_refl)

lemma send_fromhw_frame: "sending s (send_fromhw s)"
proof -
  have upd: "sending s (t\<lparr>jsp_fromhw := q\<rparr>)" if "sending s t" for t :: "'a jsp" and q
    using that by (cases s; cases t) (simp add: sending_def)
  have "sending s t" if "sys_send bs s = (r, t)" for bs r t
    using sys_send_frame(1) [of s bs] that by simp
  then show ?thesis
    by (auto simp: send_fromhw_def Let_def sending_refl intro: upd split: prod.split option.split)
qed

lemma send_data_frame: "sending s (jsp_send_data_to_client s)"
  unfolding jsp_send_data_to_client_def by (rule sending_trans [OF send_fromhw_frame send_fromhw_frame])

lemma recv_tohw_frame: "receiving s (snd (recv_tohw s))"
proof -
  have upd: "receiving s (t\<lparr>jsp_tohw := q\<rparr>)" if "receiving s t" for t :: "'a jsp" and q
    using that by (cases s; cases t) (simp add: receiving_def)
  have "receiving s t" if "sys_recv n s = (r, t)" for n r t
    using sys_recv_frame(1) [of s n] that by simp
  then show ?thesis
    by (auto simp: recv_tohw_def Let_def intro: upd split: prod.split option.split)
qed

lemma queue_data_frame: "receiving s (jsp_queue_data_from_client s)"
  using recv_tohw_frame [of s] recv_tohw_frame [of "snd (recv_tohw s)"]
  by (auto simp: jsp_queue_data_from_client_def intro: receiving_trans split: prod.split bool.split)

section \<open>From the client to the port\<close>

text \<open>The bytes the client sent are the bytes the port took and the contents of the buffer.\<close>

definition client_flow :: "'c jsp \<Rightarrow> bool" where
  "client_flow s \<longleftrightarrow> rings.carries (jsp_got s) (jsp_port_out s) (jsp_tohw s)"

lemma client_flow_sending: "sending s t \<Longrightarrow> client_flow t = client_flow s"
  by (simp add: client_flow_def sending_fields)

lemma recv_tohw_flow: "client_flow s \<Longrightarrow> client_flow (snd (recv_tohw s))"
proof -
  assume flow: "client_flow s"
  obtain r t where r: "sys_recv (linear_space (jsp_tohw s)) s = (r, t)" by fastforce
  then have t: "jsp_tohw t = jsp_tohw s" "jsp_port_out t = jsp_port_out s"
    using sys_recv_frame(1) [of s "linear_space (jsp_tohw s)"] sys_recv_frame(2) [of "linear_space (jsp_tohw s)" s] by (auto dest: receiving_fields)
  have got: "case r of None \<Rightarrow> jsp_got t = jsp_got s
      | Some bs \<Rightarrow> length bs \<le> linear_space (jsp_tohw s) \<and> jsp_got t = jsp_got s @ bs"
    using r by (auto simp: sys_recv_def split: if_splits list.splits recv_event.splits)
  with flow t r show ?thesis
    by (auto simp: recv_tohw_def client_flow_def intro: rings.carries_store split: option.split)
qed

lemma queue_data_flow: "client_flow s \<Longrightarrow> client_flow (jsp_queue_data_from_client s)"
  using recv_tohw_flow [of s] recv_tohw_flow [of "snd (recv_tohw s)"]
  by (auto simp: jsp_queue_data_from_client_def split: prod.split bool.split)

text \<open>A transaction without error sets the counts: at most the bytes offered go out, at most 8
  come in.\<close>

lemma jsp_transact_counts:
  assumes "adbg_jsp_transact h cb n data s = ((Some err, p), t)"
  shows "(err = APP_ERR_NONE \<longrightarrow> p \<noteq> None) \<and>
    (\<forall>sent received. p = Some (sent, received) \<longrightarrow> sent \<le> n \<and> length received \<le> 8)"
  using assms by (auto simp: adbg_jsp_transact_def Let_def mem_copy_def const_simps split: if_splits prod.splits)

lemma serial_sndrcv_counts:
  assumes "dbg_serial_sndrcv h cb n data d = ((Some err, p), d')"
  shows "(err = APP_ERR_NONE \<longrightarrow> p \<noteq> None) \<and>
    (\<forall>sent received. p = Some (sent, received) \<longrightarrow> sent \<le> n \<and> length received \<le> 8)"
proof (cases "dbg_access_mutex d = Free")
  case True
  let ?s = "on_chain (adbg_select_module cb DC_JSP) (d\<lparr>dbg_access_mutex := Held\<rparr>)"
  show ?thesis
  proof (cases "fst ?s = 0")
    case False
    with assms True show ?thesis
      by (auto simp: dbg_serial_sndrcv_def locked_free Let_def split_beta const_simps)
  next
    case ok: True
    obtain r q c where t: "adbg_jsp_transact h cb n data (dbg_chain (snd ?s)) = ((r, q), c)" by (metis surj_pair)
    with assms True ok have "r = Some err" "q = p"
      by (auto simp: dbg_serial_sndrcv_def locked_free returned_from_def on_chain_def Let_def split_beta split: option.splits)
    with t show ?thesis using jsp_transact_counts by blast
  qed
qed (use assms in \<open>simp add: dbg_serial_sndrcv_def locked_free\<close>)

lemma transact_cases:
  assumes "jsp_hardware_transact e s = Some t"
  obtains d where "t = s\<lparr>jsp_tgt := (jsp_tgt s)\<lparr>tdbg := d\<rparr>\<rparr>"
  | d sent received n where "sent \<le> n" "n \<le> nat (ring_count (jsp_tohw s))" "length received \<le> 8"
    "t = s\<lparr>jsp_tgt := (jsp_tgt s)\<lparr>tdbg := d\<rparr>, jsp_tohw := ring_drop sent (jsp_tohw s),
       jsp_fromhw := ring_push received (jsp_fromhw s),
       jsp_port_out := jsp_port_out s @ take sent (ring_front n (jsp_tohw s)),
       jsp_port_in := jsp_port_in s @ received\<rparr>"
proof -
  let ?n = "if nat (ring_count (jsp_tohw s)) > 8 then 8 else nat (ring_count (jsp_tohw s))"
  obtain r p d where call: "dbg_serial_sndrcv (env_host e) (env_cable e) ?n
      (ring_read (jsp_tohw s) (rd_idx (jsp_tohw s)) ?n) (tdbg (jsp_tgt s)) = ((r, p), d)"
    by (metis surj_pair)
  obtain ret where ret: "r = Some ret"
    using assms unfolding jsp_hardware_transact_def Let_def call by (cases r) auto
  note counts = serial_sndrcv_counts [OF call [unfolded ret]]
  show ?thesis
  proof (cases "ret = APP_ERR_NONE")
    case True
    then obtain sent received where p: "p = Some (sent, received)" using counts by auto
    with True ret counts call assms that(2) [of sent ?n received d] show ?thesis
      by (simp add: jsp_hardware_transact_def Let_def ring_front_def)
  next
    case False
    from assms have "t = s\<lparr>jsp_tgt := (jsp_tgt s)\<lparr>tdbg := d\<rparr>\<rparr>"
      unfolding jsp_hardware_transact_def Let_def call ret by (simp add: False split: prod.splits)
    then show ?thesis by (rule that(1))
  qed
qed

lemma transact_client_flow:
  assumes "client_flow s" "jsp_hardware_transact e s = Some t"
  shows "client_flow t"
  using assms(2)
proof (cases rule: transact_cases)
  case 2
  with assms(1) show ?thesis
    by (auto simp: client_flow_def intro!: rings.carries_drop)
qed (use assms(1) in \<open>simp add: client_flow_def\<close>)

section \<open>From the port to the client\<close>

text \<open>The bytes the port gave are the bytes sent after the text \<open>w\<close> and the contents of the
  buffer.\<close>

definition port_flow :: "u8 list \<Rightarrow> 'c jsp \<Rightarrow> bool" where
  "port_flow w s \<longleftrightarrow> (\<exists>d. jsp_sent s = w @ d \<and> rings.carries (jsp_port_in s) d (jsp_fromhw s))"

lemma send_window:
  assumes "ring_wf q" "n \<le> nat (ring_count q)" "rd_idx q + n \<le> JSP_BUFFER_SIZE"
  shows "map (ring_buf q) [rd_idx q..<rd_idx q + n] = ring_front n q"
  using assms by (auto simp: ring_front_def ring_read_map ring_wf_def const_simps intro!: nth_equalityI)

lemma ring_wf_bounds: "ring_wf q \<Longrightarrow> 0 \<le> ring_count q \<and> ring_count q \<le> 256 \<and> rd_idx q < 256"
  by (simp add: ring_wf_def const_simps)

lemma send_fromhw_flow:
  assumes "port_flow w s"
  shows "port_flow w (send_fromhw s)"
proof (cases "ring_count (jsp_fromhw s) > 0")
  case True
  let ?q = "jsp_fromhw s"
  let ?n = "nat (if ring_count ?q > 256 - int (rd_idx ?q) then 256 - int (rd_idx ?q) else ring_count ?q)"
  obtain d where d: "jsp_sent s = w @ d" "rings.carries (jsp_port_in s) d ?q"
    using assms by (auto simp: port_flow_def)
  then have wf: "ring_wf ?q" by (simp add: rings.carries_def)
  have n: "?n \<le> nat (ring_count ?q)" "rd_idx ?q + ?n \<le> 256"
    using ring_wf_bounds [OF wf] by auto
  obtain r t where r: "sys_send (ring_front ?n ?q) s = (r, t)" by fastforce
  have t: "jsp_fromhw t = ?q" "jsp_port_in t = jsp_port_in s"
    using r sys_send_frame(1) [of s "ring_front ?n ?q"] sys_send_frame(2) [of "ring_front ?n ?q" s]
    by (auto dest: sending_fields)
  have len: "length (ring_front ?n ?q) = ?n"
    using wf n by (simp add: ring_front_def ring_read_map ring_wf_def)
  have sent: "case r of None \<Rightarrow> jsp_sent t = jsp_sent s
      | Some m \<Rightarrow> m \<le> ?n \<and> jsp_sent t = jsp_sent s @ take m (ring_front ?n ?q)"
    using r len by (auto simp: sys_send_def min_def split: list.splits option.splits)
  have eq: "send_fromhw s = (case r of None \<Rightarrow> t | Some m \<Rightarrow> t\<lparr>jsp_fromhw := ring_drop m (jsp_fromhw t)\<rparr>)"
    using True r send_window [OF wf n(1)] n(2) by (simp add: send_fromhw_def Let_def const_simps split: option.split)
  show ?thesis
  proof (cases r)
    case None
    with eq t sent d show ?thesis by (auto simp: port_flow_def)
  next
    case (Some m)
    then have "rings.carries (jsp_port_in s) (d @ take m (ring_front ?n ?q)) (ring_drop m ?q)"
      using sent d(2) n by (auto intro!: rings.carries_drop)
    with Some eq t sent d(1) show ?thesis by (auto simp: port_flow_def)
  qed
qed (use assms in \<open>simp add: send_fromhw_def Let_def\<close>)

lemma port_flow_receiving: "receiving s t \<Longrightarrow> port_flow w t = port_flow w s"
  by (simp add: port_flow_def receiving_fields)

lemma transact_port_flow:
  assumes "port_flow w s" "ring_count (jsp_fromhw s) \<le> 248" "jsp_hardware_transact e s = Some t"
  shows "port_flow w t"
  using assms(3)
proof (cases rule: transact_cases)
  case (2 d sent received n)
  obtain d' where d': "jsp_sent s = w @ d'" "rings.carries (jsp_port_in s) d' (jsp_fromhw s)"
    using assms(1) by (auto simp: port_flow_def)
  have "rings.carries (jsp_port_in s @ received) d' (ring_push received (jsp_fromhw s))"
    by (rule rings.carries_push [OF d'(2)]) (use 2 assms(2) in \<open>simp add: const_simps\<close>)
  with 2 d'(1) show ?thesis by (auto simp: port_flow_def)
qed (use assms(1) in \<open>simp add: port_flow_def\<close>)

text \<open>A client that takes everything at once empties the buffer.\<close>

lemma send_fromhw_fast:
  assumes "jsp_sends s = []" "ring_wf (jsp_fromhw s)"
  shows "jsp_sends (send_fromhw s) = []"
    and "ring_count (jsp_fromhw (send_fromhw s)) = 0 \<or> rd_idx (jsp_fromhw (send_fromhw s)) = 0"
    and "rd_idx (jsp_fromhw s) = 0 \<Longrightarrow> ring_count (jsp_fromhw (send_fromhw s)) = 0"
proof -
  have "nat (256 - int r) = 256 - r" for r by simp
  then show "jsp_sends (send_fromhw s) = []"
    "ring_count (jsp_fromhw (send_fromhw s)) = 0 \<or> rd_idx (jsp_fromhw (send_fromhw s)) = 0"
    "rd_idx (jsp_fromhw s) = 0 \<Longrightarrow> ring_count (jsp_fromhw (send_fromhw s)) = 0"
    using assms ring_wf_bounds [OF assms(2)]
    by (auto simp: send_fromhw_def sys_send_def ring_drop_def Let_def const_simps)
qed

lemma send_data_fast:
  assumes "jsp_sends s = []" "port_flow w s"
  shows "jsp_sends (jsp_send_data_to_client s) = []" "ring_count (jsp_fromhw (jsp_send_data_to_client s)) = 0"
    "port_flow w (jsp_send_data_to_client s)"
proof -
  have wf: "ring_wf (jsp_fromhw t)" if "port_flow w t" for t :: "'a jsp"
    using that by (auto simp: port_flow_def rings.carries_def)
  note first = send_fromhw_fast [OF assms(1) wf [OF assms(2)]] send_fromhw_flow [OF assms(2)]
  note second = send_fromhw_fast [OF first(1) wf [OF first(4)]]
  show "jsp_sends (jsp_send_data_to_client s) = []" using second(1) by (simp add: jsp_send_data_to_client_def)
  show "port_flow w (jsp_send_data_to_client s)"
    using send_fromhw_flow [OF first(4)] by (simp add: jsp_send_data_to_client_def)
  show "ring_count (jsp_fromhw (jsp_send_data_to_client s)) = 0"
  proof (cases "rd_idx (jsp_fromhw (send_fromhw s)) = 0")
    case True then show ?thesis using second(3) by (simp add: jsp_send_data_to_client_def)
  next
    case False
    then have "ring_count (jsp_fromhw (send_fromhw s)) = 0" using first(2) by simp
    then show ?thesis by (simp add: jsp_send_data_to_client_def send_fromhw_def [of "send_fromhw s"] Let_def)
  qed
qed

section \<open>Runs of the thread\<close>

text \<open>A condition \<open>P\<close> that every part of a round keeps. After sending it may be stronger, \<open>Q\<close>,
  when the transaction needs that. \<open>clients\<close> restricts how the sockets behave.\<close>

locale serial_inv =
  fixes P Q :: "'c jsp \<Rightarrow> bool" and clients :: "nat option list \<Rightarrow> bool"
  assumes monitor: "P s \<Longrightarrow> P (s\<lparr>jsp_tgt := g\<rparr>)" "P s \<Longrightarrow> P (s\<lparr>jsp_target_is_running := b\<rparr>)"
    and ending: "P s \<Longrightarrow> P (snd (jsp_server_stop s))" "P s \<Longrightarrow> \<not> jsp_server_running s \<Longrightarrow> P (jsp_client_close s)"
    and accept: "P s \<Longrightarrow> jsp_server_running s \<Longrightarrow> jsp_client_fd s = -1 \<Longrightarrow> clients sends \<Longrightarrow>
      P (jsp_accept fd recvs sends s)"
    and queue: "P s \<Longrightarrow> P (jsp_queue_data_from_client s)"
    and sent: "P s \<Longrightarrow> Q (jsp_send_data_to_client s)" "Q s \<Longrightarrow> P s"
    and transact: "Q s \<Longrightarrow> jsp_hardware_transact e s = Some t \<Longrightarrow> P t"
begin

lemma status: "P s \<Longrightarrow> P (jsp_monitor_status cmd (s\<lparr>jsp_tgt := t\<rparr>))"
  by (simp add: jsp_monitor_status_def monitor)

lemma ready_inv: "P s \<Longrightarrow> jsp_handle_ready ret s = Some t \<Longrightarrow> P t"
  by (auto simp: jsp_handle_ready_def split: bind_splits jsp_select.splits if_splits intro: status queue)

lemma round_inv:
  assumes "P s" "jsp_server_round e ret s = Some t"
  shows "P t"
proof -
  obtain u where u: "jsp_handle_ready ret s = Some u" and t: "(let v = jsp_send_data_to_client u in
      if jsp_target_is_running v then jsp_hardware_transact e v else Some v) = Some t"
    using assms(2) by (auto simp: jsp_server_round_def split: bind_splits)
  have "Q (jsp_send_data_to_client u)" using ready_inv [OF assms(1) u] by (rule sent(1))
  with t show ?thesis using sent(2) transact by (auto simp: Let_def split: if_splits)
qed

lemma step_inv:
  assumes "P s" "jsp_step e ev s = Some t" "\<And>fd recvs sends. ev = Accepted fd recvs sends \<Longrightarrow> clients sends"
  shows "P t"
  using assms monitor(1) ending accept round_inv
  by (cases ev) (auto simp: jsp_step_def split: if_splits)

lemma server_inv:
  "P s \<Longrightarrow> jsp_server e evs s = Some t \<Longrightarrow>
     (\<And>fd recvs sends. Accepted fd recvs sends \<in> set evs \<Longrightarrow> clients sends) \<Longrightarrow> P t"
proof (induction evs arbitrary: s)
  case (Cons ev evs)
  then obtain u where "jsp_step e ev s = Some u" "jsp_server e evs u = Some t"
    by (auto split: bind_splits)
  moreover have "P u" by (rule step_inv [OF Cons.prems(1) calculation(1)]) (use Cons.prems(3) in auto)
  ultimately show ?case using Cons.IH [of u] Cons.prems(3) by (metis list.set_intros(2))
qed simp

end

lemma transact_fields:
  assumes "jsp_hardware_transact e s = Some t"
  shows "jsp_client_fd t = jsp_client_fd s" "jsp_server_running t = jsp_server_running s" "jsp_sends t = jsp_sends s"
    "jsp_hostname t = jsp_hostname s" "jsp_ipstr t = jsp_ipstr s" "jsp_portnum t = jsp_portnum s"
  using assms by (rule transact_cases; simp)+

lemmas frame_fields = sending_fields [OF send_data_frame] receiving_fields [OF queue_data_frame]

interpretation client_side: serial_inv "\<lambda>s. jsp_client_fd s \<noteq> -1 \<longrightarrow> client_flow s"
    "\<lambda>s. jsp_client_fd s \<noteq> -1 \<longrightarrow> client_flow s" "\<lambda>_. True"
proof (unfold_locales, goal_cases)
  case (5 s sends fd recvs)
  have "client_flow (s\<lparr>jsp_client_fd := fd, jsp_tohw := ring_clear (jsp_tohw s), jsp_fromhw := ring_clear (jsp_fromhw s),
       jsp_recvs := recvs, jsp_sends := sends, jsp_got := [], jsp_sent := [], jsp_port_out := [], jsp_port_in := []\<rparr>)"
    by (simp add: client_flow_def rings.carries_clear)
  then show ?case
    by (auto simp: jsp_accept_def Let_def client_flow_sending [OF welcome_frame])
next
  case (6 s) then show ?case by (simp add: frame_fields queue_data_flow)
next
  case (7 s) then show ?case by (simp add: frame_fields client_flow_sending [OF send_data_frame])
next
  case (9 s e t) then show ?case by (auto simp: transact_fields dest: transact_client_flow)
qed (simp_all add: client_flow_def jsp_server_stop_def jsp_server_close_def jsp_client_close_def)

definition example_jsp :: "unit jsp" where
  "example_jsp = \<lparr>jsp_server_fd = 3, jsp_client_fd = -1, jsp_pipe_fds = (4, 5), jsp_ipstr = asc ''::'', jsp_ipver = IPv6,
     jsp_portnum = 9944, jsp_hostname = asc ''host'',
     jsp_tohw = \<lparr>ring_buf = \<lambda>_. 0, rd_idx = 0, wr_idx = 0, ring_count = 0\<rparr>,
     jsp_fromhw = \<lparr>ring_buf = \<lambda>_. 0, rd_idx = 0, wr_idx = 0, ring_count = 0\<rparr>,
     jsp_server_running = True, jsp_target_is_running = False, jsp_tgt = unplugged_target,
     jsp_recvs = [], jsp_sends = [], jsp_got = [], jsp_sent = [], jsp_port_out = [], jsp_port_in = []\<rparr>"

text \<open>A client connects, its three bytes arrive, and it hangs up.\<close>

definition example_events :: "unit jsp_event list" where
  "example_events = [Accepted 7 [Recv_Data [65, 66], Recv_Data [67], Recv_Data []] [],
     Selected (Jsp_Ready False True), Selected (Jsp_Ready False True)]"

lemma send_all_fast: "jsp_sends s = [] \<Longrightarrow> jsp_send_all buf s = s\<lparr>jsp_sent := jsp_sent s @ buf\<rparr>"
  by (simp add: jsp_send_all_def jsp_send_loop.simps [of buf] sys_send_def)

definition welcome_text :: "'c jsp \<Rightarrow> u8 list" where
  "welcome_text s = asc ''Advanced Debug System JTAG Serial Port Server'' @ [10, 13, 0] @ jsp_hostname s @
     asc '' ('' @ [0] @ jsp_ipstr s @ asc ''), port '' @ [0] @ take 22 (dec_int (jsp_portnum s) @ [10, 10, 13])"

lemma print_welcome_fast:
  "jsp_sends s = [] \<Longrightarrow> jsp_print_welcome s = s\<lparr>jsp_sent := jsp_sent s @ welcome_text s\<rparr>"
  by (simp add: jsp_print_welcome_def send_all_fast Let_def welcome_text_def)

lemma server_append:
  "jsp_server e (as @ bs) s = do { t \<leftarrow> jsp_server e as s; jsp_server e bs t }"
  by (induction as arbitrary: s) (auto split: bind_splits)

lemmas example_simps = example_events_def jsp_step_def example_jsp_def jsp_accept_def print_welcome_fast
  ring_clear_def jsp_server_round_def jsp_handle_ready_def jsp_queue_data_from_client_def recv_tohw_def
  sys_recv_def linear_space_def ring_store_def const_simps jsp_send_data_to_client_def send_fromhw_def
  Let_def welcome_text_def

lemma example_run:
  "\<exists>t. jsp_server unplugged example_events example_jsp = Some t \<and> jsp_client_fd t = 7 \<and>
     jsp_server_running t \<and> jsp_got t = [65, 66, 67] \<and> jsp_port_out t = [] \<and>
     jsp_recvs t = [] \<and> jsp_sent t = welcome_text t \<and> ring_count (jsp_tohw t) = 3"
  by (simp add: example_simps)

lemma example_connected:
  "\<exists>s. jsp_server unplugged (take 2 example_events) example_jsp = Some s \<and> jsp_client_fd s = 7 \<and>
     jsp_server_running s"
  by (simp add: example_simps)

text \<open>A serial port that has two bytes to give and takes eight.\<close>

definition port_answer :: "bool list" where
  "port_answer = False # bytes_bits [0x28, 72, 105, 0, 0, 0, 0, 0, 0]"

definition port_env :: "tap_view board env" where
  "port_env = \<lparr>env_host = x86_64, env_hw = DBG_HW_ADVANCED, env_cable = answering_cable [] port_answer\<rparr>"

definition port_chain :: "tap_view board chain" where
  "port_chain = example_chain\<lparr>current_chain := DC_JSP, desired_chain := DC_JSP\<rparr>"

lemma port_transact:
  "\<exists>c. adbg_jsp_transact x86_64 (answering_cable [] port_answer) 0 [] port_chain =
     ((Some APP_ERR_NONE, Some (0, [72, 105])), c)"
proof -
  let ?cb = "answering_cable [] port_answer" and ?s = "snd (tap_set_shift_dr (answering_cable [] port_answer) port_chain)"
  let ?bs = "[0x28, 72, 105, 0, 0, 0, 0, 0, 0] :: u8 list"
  let ?r = "jtag_read_write_stream ?cb (replicate 3 0) (int 72) True True ?s"
  have "board_dev (cable port_chain) = \<lparr>tap = Run_Test_Idle, shifted = [], updates = []\<rparr>"
    by (simp add: port_chain_def example_chain_def init_chain_def idle_board_def)
  then have v: "board_dev (cable ?s) = \<lparr>tap = Shift_DR, shifted = [], updates = []\<rparr>"
    by (rule tap_device.shift_dr_view [OF reliable_tap.axioms(1) [OF answering_tap]])
  have g: "same_globals port_chain ?s" by simp
  have "conf ?s = example_conf"
    using same_globals_fields(1) [OF g] by (simp add: port_chain_def example_chain_def)
  then have q: "global_DR_postfix_bits (conf ?s) = int 1" by (simp add: example_conf_simps)
  have "snd (fst ?r) = bits_to_words (tdo_run tap_step (answer_tdo [] port_answer) (replicate 72 pin0)
      (tap_step pin0 (board_dev (cable ?s))))"
    using tap_device.read_write_stream_data [OF reliable_tap.axioms(1) [OF answering_tap], where n = 72 and ws = "replicate 3 0" and s = ?s and q = 1 and adjust = True and set_TMS = True] q
    by (simp add: stream_pins_zeros)
  also have "tdo_run tap_step (answer_tdo [] port_answer) (replicate 72 pin0) (tap_step pin0 (board_dev (cable ?s))) =
      bytes_bits ?bs"
    unfolding v using answer_run [of "[False]" 72 port_answer "[]"]
    by (simp add: tap_step_cases port_answer_def)
  also have "bits_to_words (bytes_bits ?bs) = [0x694828, 0, 0]" by code_simp
  finally have d: "snd (fst ?r) = [0x694828, 0, 0]" .
  have "words_to_bytes [0x694828, 0, 0] = [0x28, 72, 105, 0, 0, 0, 0, 0, 0, 0, 0, 0]" by code_simp
  moreover have "bytes_to_words (0 # replicate 9 0) = replicate 3 0" by code_simp
  moreover have "mem_byte x86_64 (0 # replicate 9 0) 8 = 0" by code_simp
  moreover have "current_chain port_chain = desired_chain port_chain" by (simp add: port_chain_def)
  ultimately show ?thesis
    using d reliable_tap.jtag_ok [OF answering_tap]
    by (simp add: adbg_jsp_transact_def select_current Let_def split_beta mem_copy_def mem_byte_def upt_rec)
qed

definition port_target :: "string \<Rightarrow> tap_view board target" where
  "port_target news = \<lparr>tdbg = \<lparr>dbg_chain = port_chain, dbg_access_mutex = Free\<rparr>, monitor_thread_running = True,
     target_is_running = True, connections = [\<lparr>server_to_monitor_fds = (3, 4), monitor_to_server_fds = (5, 6),
       to_monitor = [], to_server = news\<rparr>], pipes_mutex = False, pipe_results = [], hwp_in_use = []\<rparr>"

definition port_jsp :: "tap_view board jsp" where
  "port_jsp = \<lparr>jsp_server_fd = 3, jsp_client_fd = -1, jsp_pipe_fds = (4, 5), jsp_ipstr = asc ''::'', jsp_ipver = IPv6,
     jsp_portnum = 9944, jsp_hostname = asc ''host'',
     jsp_tohw = \<lparr>ring_buf = \<lambda>_. 0, rd_idx = 0, wr_idx = 0, ring_count = 0\<rparr>,
     jsp_fromhw = \<lparr>ring_buf = \<lambda>_. 0, rd_idx = 0, wr_idx = 0, ring_count = 0\<rparr>,
     jsp_server_running = True, jsp_target_is_running = True, jsp_tgt = port_target [],
     jsp_recvs = [], jsp_sends = [], jsp_got = [], jsp_sent = [], jsp_port_out = [], jsp_port_in = []\<rparr>"

text \<open>A client connects, the port gives its two bytes, the CPU halts, and the bytes are sent.\<close>

definition port_events :: "tap_view board jsp_event list" where
  "port_events = [Accepted 7 [] [], Selected Jsp_Timeout, Target (port_target ''H''), Selected (Jsp_Ready True False)]"

lemma port_sndrcv:
  "\<exists>d. dbg_serial_sndrcv x86_64 (answering_cable [] port_answer) 0 [] (tdbg (port_target news)) =
     ((Some APP_ERR_NONE, Some (0, [72, 105])), d)"
proof -
  obtain c where "adbg_jsp_transact x86_64 (answering_cable [] port_answer) 0 [] port_chain =
     ((Some APP_ERR_NONE, Some (0, [72, 105])), c)"
    using port_transact by blast
  moreover have "current_chain port_chain = DC_JSP" by (simp add: port_chain_def)
  ultimately show ?thesis
    by (simp add: dbg_serial_sndrcv_def port_target_def locked_free select_current on_chain_def returned_from_def)
qed

lemma port_run:
  "\<exists>t. jsp_server port_env port_events port_jsp = Some t \<and> jsp_client_fd t = 7 \<and>
     jsp_sent t = welcome_text t @ [72, 105] \<and> jsp_port_in t = [72, 105]"
proof -
  obtain d where d: "dbg_serial_sndrcv x86_64 (answering_cable [] port_answer) 0 []
      (tdbg (port_target [])) = ((Some APP_ERR_NONE, Some (0, [72, 105])), d)"
    using port_sndrcv by blast
  have two: "[0..<2] = [0, 1 :: nat]" by (simp add: upt_rec)
  show ?thesis
    by (simp add: example_simps port_events_def port_jsp_def port_env_def jsp_hardware_transact_def d
        ring_drop_def read_status_def take_status_def port_target_def [of "''H''"] jsp_monitor_status_def sys_send_def two)
qed

section \<open>The theorems\<close>

interpretation server_side: serial_inv
    "\<lambda>s. jsp_client_fd s \<noteq> -1 \<longrightarrow>
       jsp_sends s = [] \<and> ring_count (jsp_fromhw s) \<le> 8 \<and> port_flow (welcome_text s) s"
    "\<lambda>s. jsp_client_fd s \<noteq> -1 \<longrightarrow>
       jsp_sends s = [] \<and> ring_count (jsp_fromhw s) = 0 \<and> port_flow (welcome_text s) s"
    "\<lambda>sends. sends = []"
proof (unfold_locales, goal_cases)
  case (5 s sends fd recvs)
  then show ?case
    by (auto simp: jsp_accept_def Let_def print_welcome_fast welcome_text_def port_flow_def
        rings.carries_clear ring_clear_def [of "jsp_fromhw s", THEN arg_cong [where f = ring_count]])
next
  case (6 s) then show ?case
    by (simp add: frame_fields port_flow_receiving [OF queue_data_frame] welcome_text_def)
next
  case (7 s) then show ?case
    by (auto simp: frame_fields welcome_text_def dest: send_data_fast)
next
  case (9 s e t)
  show ?case
    using 9(2)
  proof (cases rule: transact_cases)
    case (2 d sent received n)
    have "ring_count (jsp_fromhw t) \<le> 8" if fd: "jsp_client_fd s \<noteq> -1"
    proof -
      obtain d' where "rings.carries (jsp_port_in s) d' (jsp_fromhw s)"
        using 9(1) fd by (auto simp: port_flow_def)
      moreover have "ring_contents (jsp_fromhw s) = []" using 9(1) fd by (simp add: ring_contents_def)
      ultimately have "length (ring_contents (ring_push received (jsp_fromhw s))) = length received"
        using 2 ring_push_appends [of "jsp_fromhw s" received]
        by (simp add: rings.carries_def const_simps flip: length_ring_contents)
      with 2 show ?thesis by simp
    qed
    then show ?thesis
      using 9 transact_port_flow [OF _ _ 9(2), of "welcome_text s"]
      by (auto simp: transact_fields [OF 9(2)] welcome_text_def)
  qed (use 9(1) in \<open>auto simp: port_flow_def welcome_text_def\<close>)
qed (simp_all add: port_flow_def welcome_text_def jsp_server_stop_def jsp_server_close_def jsp_client_close_def)

interpretation single: serial_inv
    "\<lambda>s. fd \<noteq> -1 \<longrightarrow> jsp_server_running s \<longrightarrow> jsp_client_fd s = fd"
    "\<lambda>s. fd \<noteq> -1 \<longrightarrow> jsp_server_running s \<longrightarrow> jsp_client_fd s = fd" "\<lambda>_. True" for fd
  by unfold_locales (auto simp: frame_fields transact_fields jsp_server_stop_def jsp_server_close_def jsp_client_close_def)

text \<open>
  C9: Bytes from the client to the serial port: at every moment of a connection, whatever the
  socket, the port and the other threads do, the bytes received from the client are exactly
  the bytes the port has taken, in order, followed by those that wait in the buffer, which
  holds at most 256. None is lost, repeated or reordered, although the buffer wraps around
  and the port may take fewer bytes than it is offered or fail.
\<close>

theorem serial_input_in_order:
  assumes "jsp_server e evs s = Some t" "jsp_client_fd s = -1" "jsp_client_fd t \<noteq> -1"
  shows "jsp_got t = jsp_port_out t @ ring_contents (jsp_tohw t) \<and>
    length (ring_contents (jsp_tohw t)) \<le> JSP_BUFFER_SIZE"
  using client_side.server_inv [OF _ assms(1)] assms(2,3)
  by (metis client_flow_def rings.carriesD)

theorem serial_input_in_order_witness:
  "\<exists>t. jsp_server unplugged example_events example_jsp = Some t \<and>
     jsp_got t = jsp_port_out t @ ring_contents (jsp_tohw t) \<and> jsp_got t = [65, 66, 67]"
  using serial_input_in_order [of unplugged example_events example_jsp] example_run
  by (auto simp: example_jsp_def)

text \<open>
  C20: Bytes from the serial port to the client: as long as the sockets take what they are given,
  a client sees the welcome text and then the bytes that the port gave, in order, but for the
  last ones, at most eight, which wait in the buffer for the next round. (A transaction in
  which the port announces more than eight bytes writes behind a buffer; what happens after
  that is not covered.)
\<close>

theorem serial_output_in_order:
  assumes "jsp_server e evs s = Some t" "jsp_client_fd s = -1" "jsp_client_fd t \<noteq> -1"
    and "\<And>fd recvs sends. Accepted fd recvs sends \<in> set evs \<Longrightarrow> sends = []"
  shows "\<exists>d. jsp_sent t = welcome_text t @ d \<and> jsp_port_in t = d @ ring_contents (jsp_fromhw t) \<and>
    length (ring_contents (jsp_fromhw t)) \<le> 8"
proof -
  have "ring_count (jsp_fromhw t) \<le> 8" "port_flow (welcome_text t) t"
    using server_side.server_inv [OF _ assms(1)] assms(2-4) by metis+
  then show ?thesis by (auto simp: port_flow_def dest: rings.carriesD)
qed

theorem serial_output_in_order_witness:
  "\<exists>t d. jsp_server port_env port_events port_jsp = Some t \<and> jsp_sent t = welcome_text t @ d \<and>
     jsp_port_in t = d @ ring_contents (jsp_fromhw t) \<and> d = [72, 105]"
proof -
  obtain t where t: "jsp_server port_env port_events port_jsp = Some t" "jsp_client_fd t = 7"
    "jsp_sent t = welcome_text t @ [72, 105]"
    using port_run by blast
  then show ?thesis
    using serial_output_in_order [of port_env port_events port_jsp t]
    by (auto simp: port_jsp_def port_events_def)
qed

text \<open>
  Once a client has been accepted, the server stays with it for as long as it runs: no event
  makes it go back to \<open>accept\<close>, not the end of the client's stream, not an error of the
  socket. After the first client has hung up no other can be served.
\<close>

theorem serial_one_client:
  assumes "jsp_server e evs s = Some t" "jsp_client_fd s \<noteq> -1" "jsp_server_running s" "jsp_server_running t"
  shows "jsp_client_fd t = jsp_client_fd s \<and>
    jsp_server e (evs @ [Accepted fd recvs sends]) s = Some t"
proof -
  have fd: "jsp_client_fd t = jsp_client_fd s"
    using single.server_inv [of "jsp_client_fd s" s e evs t] assms by simp
  with assms show ?thesis by (simp add: server_append jsp_step_def)
qed

text \<open>After the client's stream has ended, here in the last event.\<close>

theorem serial_one_client_witness:
  "\<exists>s t. jsp_server unplugged (take 2 example_events) example_jsp = Some s \<and>
     jsp_server unplugged (drop 2 example_events) s = Some t \<and>
     jsp_server unplugged (drop 2 example_events @ [Accepted 8 [] []]) s = Some t \<and> jsp_client_fd t = 7"
proof -
  obtain t where t: "jsp_server unplugged (take 2 example_events @ drop 2 example_events) example_jsp = Some t"
      "jsp_client_fd t = 7" "jsp_server_running t"
    using example_run by auto
  obtain s where s: "jsp_server unplugged (take 2 example_events) example_jsp = Some s" "jsp_client_fd s = 7"
      "jsp_server_running s"
    using example_connected by blast
  have "jsp_server unplugged (drop 2 example_events) s = Some t" using t(1) s(1) by (simp only: server_append bind.bind_lunit)
  with serial_one_client [of unplugged "drop 2 example_events" s t 8 "[]" "[]"] s t show ?thesis by auto
qed

section \<open>Two defects\<close>

text \<open>A transaction does not look for room: a byte that arrives when the buffer is full takes the
  place of the oldest one, and from then on the count is larger than the buffer.\<close>

lemma fromhw_overflow:
  assumes "ring_wf q" "ring_count q = 256"
  shows "ring_count (ring_push [c] q) = 257" "ring_buf (ring_push [c] q) (rd_idx q) = c"
  using assms by (auto simp: ring_wf_def const_simps)

text \<open>The service name has four digits: a port with five is served on the port of its first
  four.\<close>

lemma five_digit_port:
  assumes "10000 \<le> p" "p < 100000"
  shows "service_name p = service_name (p div 10)"
proof -
  have step: "dec_digits n = dec_digits (n div 10) @ [0x30 + of_nat (n mod 10)]" if "10 \<le> n" for n
    using that by (subst dec_digits.simps) simp
  have len: "length (dec_digits n) = 4" if "1000 \<le> n" "n < 10000" for n
    using that by (simp add: dec_digits.simps) arith
  have "nat p div 10 = nat (p div 10)" using assms by (simp add: nat_div_distrib)
  with step [of "nat p"] len [of "nat (p div 10)"] assms show ?thesis
    by (simp add: service_name_def dec_int_def)
qed

end
