(* ===== verification/Bsdl_Parse.thy ===== *)
theory Bsdl_Parse
  imports C_Scan
begin

text \<open>
  The reader of BSDL files (\<^verbatim>\<open>bsdl_parse.c\<close>). It wants four things of a file: the name of the
  device, the length of its instruction register, three of its instructions, and its ID code.

  The code works on a buffer with the whole file, in which it puts NULs behind the lines and
  capitalises words. It only moves forward, and what it changes lies in the current line, so
  the model keeps two parts of the buffer: a C string, from the current pointer to the end of
  the line, and the bytes behind the line, from \<open>filepos\<close> to the end of the file.

  The result None means that the code loops for ever, because a statement has no end; it comes
  from the loops only, which are partial functions. Where the code does something undefined, as
  following a NULL pointer or writing behind the end of a buffer, the result is \<open>Undefined\<close>.
\<close>

datatype 'a defined = Undefined | Defined 'a

definition and_defined :: "'a defined option \<Rightarrow> ('a \<Rightarrow> 'b defined option) \<Rightarrow> 'b defined option" where
  "and_defined m f = (case m of None \<Rightarrow> None | Some Undefined \<Rightarrow> Some Undefined | Some (Defined x) \<Rightarrow> f x)"

lemma and_defined_simps [simp]: "and_defined None f = None" "and_defined (Some Undefined) f = Some Undefined"
  "and_defined (Some (Defined x)) f = f x"
  by (simp_all add: and_defined_def)

section \<open>Strings\<close>

definition is_cntrl :: "u8 \<Rightarrow> bool" where
  "is_cntrl c \<longleftrightarrow> c < 0x20 \<or> c = 0x7f"

definition to_upper :: "u8 \<Rightarrow> u8" where
  "to_upper c = (if 0x61 \<le> c \<and> c \<le> 0x7a then c - 0x20 else c)"

definition strtoupper :: "u8 list \<Rightarrow> u8 list" where
  "strtoupper str = map to_upper str"

definition strchr :: "u8 \<Rightarrow> u8 list \<Rightarrow> u8 list option" where
  "strchr c str = (case dropWhile (\<lambda>d. d \<noteq> c) str of [] \<Rightarrow> None | p \<Rightarrow> Some p)"

definition strchr_s :: "u8 list \<Rightarrow> u8 list \<Rightarrow> u8 list option" where
  "strchr_s chars str = (case dropWhile (\<lambda>d. d \<notin> set chars) str of [] \<Rightarrow> None | p \<Rightarrow> Some p)"

fun strstr :: "u8 list \<Rightarrow> u8 list \<Rightarrow> u8 list option" where
  "strstr needle [] = (if needle = [] then Some [] else None)"
| "strstr needle (c # cs) = (if take (length needle) (c # cs) = needle then Some (c # cs) else strstr needle cs)"

definition strtok_r :: "u8 list \<Rightarrow> u8 list \<Rightarrow> u8 list option \<times> u8 list" where
  "strtok_r delim str =
     (case dropWhile (\<lambda>c. c \<in> set delim) str of
        [] \<Rightarrow> (None, [])
      | p \<Rightarrow> (Some (takeWhile (\<lambda>c. c \<notin> set delim) p), drop 1 (dropWhile (\<lambda>c. c \<notin> set delim) p)))"

text \<open>\<open>strtoul\<close> as it is before C23, converted to 32 bits. With base 0 a leading zero means base 8;
  there a prefix \<open>0x\<close> does not occur, because the code passes digits only.\<close>

definition strtoul :: "host \<Rightarrow> nat \<Rightarrow> u8 list \<Rightarrow> u32" where
  "strtoul h base str =
     (let (neg, body) = scan_sign (dropWhile is_space str);
          body = (if base = 16 then scan_prefix body else body);
          b = (if base = 0 then (if body \<noteq> [] \<and> hd body = 0x30 then 8 else 10) else base);
          n = digits_nat b (takeWhile (\<lambda>c. is_hex c \<and> hex (sint c) < int b) body)
      in if n \<ge> 2 ^ (8 * sizeof_ulong h) then -1 else if neg then - of_nat n else of_nat n)"

section \<open>Lines\<close>

lemma skip_comment_shorter:
  assumes "\<not> length (dropWhile is_space data) \<le> 1" "dropWhile is_space data ! 0 = 0x2d"
  shows "length (dropWhile (\<lambda>c. c \<noteq> 10 \<and> c \<noteq> 13) (dropWhile is_space data)) < length data"
proof -
  obtain c cs where c: "dropWhile is_space data = c # cs" using assms(1) by (cases "dropWhile is_space data") auto
  with assms(2) have "dropWhile (\<lambda>c. c \<noteq> 10 \<and> c \<noteq> 13) (c # cs) = dropWhile (\<lambda>c. c \<noteq> 10 \<and> c \<noteq> 13) cs" by simp
  moreover have "length (dropWhile (\<lambda>c. c \<noteq> 10 \<and> c \<noteq> 13) cs) \<le> length cs" by (rule length_dropWhile_le)
  moreover have "length (c # cs) \<le> length data" unfolding c [symmetric] by (rule length_dropWhile_le)
  ultimately show ?thesis unfolding c by (simp only: length_Cons)
qed

text \<open>The place where the next line begins: blanks and lines that are comments are skipped. Near
  the end of the file, with one byte left or none, the result is empty.\<close>

function skip_lines :: "u8 list \<Rightarrow> u8 list" where
  "skip_lines data =
     (let data = dropWhile is_space data
      in if length data \<le> 1 then []
         else if data ! 0 = 0x2d \<and> data ! 1 = 0x2d
         then skip_lines (dropWhile (\<lambda>c. c \<noteq> 10 \<and> c \<noteq> 13) data)
         else data)"
  by pat_completeness auto

termination
  by (relation "measure length", rule wf_measure) (simp only: in_measure, blast intro: skip_comment_shorter)

declare skip_lines.simps [simp del]

definition cut_comment :: "u8 list \<Rightarrow> u8 list" where
  "cut_comment line = (case strstr (asc ''--'') line of None \<Rightarrow> line | Some p \<Rightarrow> take (length line - length p) line)"

text \<open>The line ends at the first control character, which is lost. Where there is none, the last
  byte of the file is lost.\<close>

definition get_line :: "u8 list \<Rightarrow> u8 list \<times> u8 list" where
  "get_line data =
     (case skip_lines data of
        [] \<Rightarrow> ([], [])
      | d \<Rightarrow> let line = takeWhile (\<lambda>c. \<not> is_cntrl c) d
            in (cut_comment (if length line = length d then butlast line else line), drop (Suc (length line)) d))"

text \<open>The loops that take further lines until something is found.\<close>

partial_function (option) seek :: "(u8 list \<Rightarrow> u8 list option) \<Rightarrow> u8 list \<Rightarrow> u8 list
    \<Rightarrow> (u8 list \<times> u8 list) option" where [code]:
  "seek search pos rest =
     (case search pos of
        Some p \<Rightarrow> Some (p, rest)
      | None \<Rightarrow> let (pos, rest) = get_line rest in seek search pos rest)"

definition seek_end :: "u8 list \<Rightarrow> u8 list \<Rightarrow> u8 list option" where
  "seek_end pos rest = map_option snd (seek (strchr 0x3b) pos rest)"

definition seek_entity_is :: "u8 list \<Rightarrow> u8 list \<Rightarrow> (u8 list \<times> u8 list) option" where
  "seek_entity_is pos rest = do {
     (pos, rest) \<leftarrow> seek (strchr 0x3a) pos rest;
     (pos, rest) \<leftarrow> seek (strstr (asc ''entity'')) pos rest;
     seek (strstr (asc ''is'')) pos rest }"

section \<open>Statements\<close>

text \<open>The parentheses of a port list are counted in a \<open>char\<close>.\<close>

partial_function (option) port_parens :: "u8 \<Rightarrow> u8 list \<Rightarrow> u8 list \<Rightarrow> (u8 list \<times> u8 list) option" where [code]:
  "port_parens opens pos rest = do {
     (pos, rest) \<leftarrow> seek (strchr_s (asc ''()'')) pos rest;
     let opens = (if hd pos = 0x28 then opens + 1 else opens - 1);
     if opens = 0 then Some (tl pos, rest) else port_parens opens (tl pos) rest }"

definition parse_port :: "u8 list \<Rightarrow> u8 list \<Rightarrow> u8 list option" where
  "parse_port pos rest = do {
     (pos, rest) \<leftarrow> seek (strchr 0x28) pos rest;
     (pos, rest) \<leftarrow> port_parens 1 (tl pos) rest;
     seek_end pos rest }"

text \<open>Collecting the digits up to a semicolon, in an array of 128.\<close>

fun scan_digits :: "u8 list \<Rightarrow> u8 list \<Rightarrow> bool \<times> u8 list" where
  "scan_digits [] tmpbuf = (False, tmpbuf)"
| "scan_digits (c # cs) tmpbuf =
     (if is_dec c then scan_digits cs (tmpbuf @ [c])
      else if c = 0x3b then (True, tmpbuf) else scan_digits cs tmpbuf)"

partial_function (option) more_digits :: "bool \<Rightarrow> u8 list \<Rightarrow> u8 list \<Rightarrow> (u8 list \<times> u8 list) defined option" where [code]:
  "more_digits fin tmpbuf rest =
     (if length tmpbuf > 128 then Some Undefined
      else if fin then Some (Defined (tmpbuf, rest))
      else let (line, rest) = get_line rest; (fin, tmpbuf) = scan_digits line tmpbuf
           in more_digits fin tmpbuf rest)"

text \<open>Collecting what stands between quotes up to a semicolon. On the first line a semicolon counts
  between quotes, too.\<close>

fun scan_quoted :: "bool \<Rightarrow> u8 list \<Rightarrow> bool \<Rightarrow> u8 list \<Rightarrow> bool \<times> bool \<times> u8 list" where
  "scan_quoted first [] valid buf = (False, valid, buf)"
| "scan_quoted first (c # cs) valid buf =
     (if first \<and> c = 0x3b then (True, valid, buf)
      else if valid \<and> c \<noteq> 0x22 then scan_quoted first cs valid (buf @ [c])
      else if c = 0x22 then scan_quoted first cs (\<not> valid) buf
      else if c = 0x3b then (True, valid, buf)
      else scan_quoted first cs valid buf)"

text \<open>\<open>room\<close>: the size of the buffer.\<close>

partial_function (option) more_quoted :: "nat \<Rightarrow> bool \<Rightarrow> bool \<Rightarrow> u8 list \<Rightarrow> u8 list
    \<Rightarrow> (u8 list \<times> u8 list) defined option" where [code]:
  "more_quoted room fin valid buf rest =
     (if length buf > room then Some Undefined
      else if fin then Some (Defined (buf, rest))
      else let (line, rest) = get_line rest; (fin, valid, buf) = scan_quoted False line valid buf
           in more_quoted room fin valid buf rest)"

text \<open>The NUL behind the text needs room, too.\<close>

definition quoted :: "nat \<Rightarrow> u8 list \<Rightarrow> u8 list \<Rightarrow> (u8 list \<times> u8 list) defined option" where
  "quoted room pos rest =
     (let (fin, valid, buf) = scan_quoted True pos False []
      in and_defined (more_quoted room fin valid buf rest) (\<lambda>(buf, rest).
           if length buf \<ge> room then Some Undefined else Some (Defined (buf, rest))))"

section \<open>The opcodes\<close>

definition TAP_CMD_INVALID :: u32 where [const_simps]: "TAP_CMD_INVALID = 0xFFFFFFFF"

record bsdl_cmds =
  cmd_debug :: u32
  cmd_user1 :: u32
  cmd_idcode :: u32

datatype bsdl_target = Target_None | TARGET_DEBUG | TARGET_USER1 | TARGET_IDCODE

definition target_of :: "u8 list \<Rightarrow> bsdl_target" where
  "target_of token =
     (if strtoupper token = asc ''DEBUG'' then TARGET_DEBUG
      else if strtoupper token = asc ''USER1'' then TARGET_USER1
      else if strtoupper token = asc ''IDCODE'' then TARGET_IDCODE
      else Target_None)"

definition set_opcode :: "bsdl_target \<Rightarrow> u32 \<Rightarrow> bsdl_cmds \<Rightarrow> bsdl_cmds" where
  "set_opcode target opcode cmds =
     (case target of
        TARGET_DEBUG \<Rightarrow> cmds\<lparr>cmd_debug := opcode\<rparr>
      | TARGET_USER1 \<Rightarrow> cmds\<lparr>cmd_user1 := opcode\<rparr>
      | TARGET_IDCODE \<Rightarrow> cmds\<lparr>cmd_idcode := opcode\<rparr>
      | Target_None \<Rightarrow> cmds)"

text \<open>One pair of a name and an opcode; a pair of blanks only has no name, and the code follows the
  NULL pointer: the result None here, and in the loop over the pairs.\<close>

definition parse_opcode :: "host \<Rightarrow> u8 list \<Rightarrow> bsdl_cmds \<Rightarrow> bsdl_cmds option" where
  "parse_opcode h cmd cmds =
     (case strtok_r (0x20 # 9 # asc ''('') cmd of
        (None, _) \<Rightarrow> None
      | (Some token, saveptr2) \<Rightarrow>
          let target = target_of token
          in if target = Target_None then Some cmds
             else case strtok_r (0x20 # 9 # asc ''()'') saveptr2 of
                 (None, _) \<Rightarrow> Some cmds
               | (Some token, _) \<Rightarrow> Some (set_opcode target (strtoul h 2 token) cmds))"

lemma strtok_shorter: "strtok_r delim str = (Some token, save) \<Longrightarrow> length save < length str"
proof -
  assume *: "strtok_r delim str = (Some token, save)"
  then obtain c cs where c: "dropWhile (\<lambda>c. c \<in> set delim) str = c # cs" "c \<notin> set delim"
    by (auto simp: strtok_r_def split: list.splits dest: hd_dropWhile)
      (metis (mono_tags, lifting) hd_dropWhile list.distinct(1) list.sel(1))
  with * have "save = drop 1 (dropWhile (\<lambda>c. c \<notin> set delim) cs)" by (simp add: strtok_r_def)
  then have "length save \<le> length cs"
    by (metis diff_le_self length_drop length_dropWhile_le order_trans)
  moreover have "length (c # cs) \<le> length str" unfolding c(1) [symmetric] by (rule length_dropWhile_le)
  ultimately show ?thesis by simp
qed

function parse_opcodes :: "host \<Rightarrow> u8 list \<Rightarrow> bsdl_cmds \<Rightarrow> bsdl_cmds option" where
  "parse_opcodes h cmdbuf cmds =
     (case strtok_r (asc '','') cmdbuf of
        (None, _) \<Rightarrow> Some cmds
      | (Some cmd, saveptr) \<Rightarrow> (case parse_opcode h cmd cmds of
            None \<Rightarrow> None
          | Some cmds \<Rightarrow> parse_opcodes h saveptr cmds))"
  by pat_completeness auto

termination
  by (relation "measure (\<lambda>(h, cmdbuf, cmds). length cmdbuf)") (auto dest: strtok_shorter [OF sym])

declare parse_opcodes.simps [simp del]

section \<open>The file\<close>

record bsdlinfo = bsdl_cmds +
  bsdl_name :: "u8 list option"
  bsdl_idcode :: u32
  bsdl_idcode_mask :: u32
  bsdl_IR_size :: int

record bsdl_scan = bsdlinfo +
  file_rest :: "u8 list"
  found_IR_size :: bool
  found_cmds :: bool
  found_idcode :: bool

text \<open>The values start like this when the file has been read.\<close>

definition scan_start :: "u8 list \<Rightarrow> bsdl_scan" where
  "scan_start filedata = \<lparr>cmd_debug = TAP_CMD_INVALID, cmd_user1 = TAP_CMD_INVALID, cmd_idcode = TAP_CMD_INVALID,
     bsdl_name = None, bsdl_idcode = 0, bsdl_idcode_mask = 0xFFFFFFFF, bsdl_IR_size = -1,
     file_rest = filedata, found_IR_size = False, found_cmds = False, found_idcode = False\<rparr>"

definition parse_length :: "host \<Rightarrow> u8 list \<Rightarrow> bsdl_scan \<Rightarrow> bsdl_scan defined option" where
  "parse_length h pos s = do {
     (pos, rest) \<leftarrow> seek_entity_is pos (file_rest s);
     let (fin, tmpbuf) = scan_digits pos [];
     and_defined (more_digits fin tmpbuf rest) (\<lambda>(tmpbuf, rest).
       if length tmpbuf \<ge> 128 then Some Undefined
       else Some (Defined (s\<lparr>file_rest := rest, bsdl_IR_size := sint (strtoul h 0 tmpbuf), found_IR_size := True\<rparr>))) }"

text \<open>The buffer for the opcodes is as long as the part of the file behind the current line; when
  there is no memory for it, it has no room.\<close>

definition parse_opcode_attribute :: "host \<Rightarrow> u8 list \<Rightarrow> bsdl_scan \<Rightarrow> bsdl_scan defined option" where
  "parse_opcode_attribute h pos s = do {
     (pos, rest) \<leftarrow> seek_entity_is pos (file_rest s);
     let room = (if malloc_ok h (int (length rest)) then length rest else 0);
     and_defined (quoted room pos rest) (\<lambda>(cmdbuf, rest).
       case parse_opcodes h cmdbuf (bsdl_cmds.truncate s) of
         None \<Rightarrow> Some Undefined
       | Some cmds \<Rightarrow> Some (Defined (s\<lparr>file_rest := rest, cmd_debug := cmd_debug cmds, cmd_user1 := cmd_user1 cmds,
           cmd_idcode := cmd_idcode cmds, found_cmds := True\<rparr>))) }"

fun idcode_chars :: "host \<Rightarrow> u8 list \<Rightarrow> int \<Rightarrow> u32 \<times> u32 \<Rightarrow> u32 \<times> u32" where
  "idcode_chars h [] i im = im"
| "idcode_chars h (c # cs) i (idcode, msk) =
     idcode_chars h cs (i + 1)
       (if c = 0x31 then (idcode OR c_shl h 1 (31 - i), msk)
        else if to_upper c = 0x58 then (idcode, msk AND NOT (c_shl h 1 (31 - i)))
        else (idcode, msk))"

definition parse_idcode :: "host \<Rightarrow> u8 list \<Rightarrow> bsdl_scan \<Rightarrow> bsdl_scan defined option" where
  "parse_idcode h pos s = do {
     (pos, rest) \<leftarrow> seek_entity_is pos (file_rest s);
     and_defined (quoted 128 pos rest) (\<lambda>(tmpbuf, rest).
       let (idcode, msk) = idcode_chars h tmpbuf 0 (bsdl_idcode s, bsdl_idcode_mask s)
       in Some (Defined (s\<lparr>file_rest := rest, bsdl_idcode := idcode, bsdl_idcode_mask := msk, found_idcode := True\<rparr>))) }"

text \<open>An attribute without a name: the code follows the NULL pointer.\<close>

definition parse_attribute :: "host \<Rightarrow> u8 list \<Rightarrow> bsdl_scan \<Rightarrow> bsdl_scan defined option" where
  "parse_attribute h pos s =
     (case strtok_r [0x20, 9] pos of
        (None, _) \<Rightarrow> Some Undefined
      | (Some token, pos) \<Rightarrow>
          let token = strtoupper token
          in if token = asc ''INSTRUCTION_LENGTH'' then parse_length h pos s
             else if token = asc ''INSTRUCTION_OPCODE'' then parse_opcode_attribute h pos s
             else if token = asc ''IDCODE_REGISTER'' then parse_idcode h pos s
             else do { rest \<leftarrow> seek_end pos (file_rest s); Some (Defined (s\<lparr>file_rest := rest\<rparr>)) })"

definition parse_entity :: "host \<Rightarrow> u8 list \<Rightarrow> bsdl_scan \<Rightarrow> bsdl_scan" where
  "parse_entity h pos s =
     (case strtok_r [0x20, 9] pos of
        (None, _) \<Rightarrow> s
      | (Some token, _) \<Rightarrow>
          s\<lparr>bsdl_name := (if malloc_ok h (int (length token) + 1) then Some token else None)\<rparr>)"

text \<open>A statement by its first word. Constants, generics and \<open>use\<close> are skipped; there the next word
  is taken off before the semicolon is looked for.\<close>

definition parse_statement :: "host \<Rightarrow> u8 list \<Rightarrow> u8 list \<Rightarrow> bsdl_scan \<Rightarrow> bsdl_scan defined option" where
  "parse_statement h token pos s =
     (if token = asc ''ENTITY'' then Some (Defined (parse_entity h pos s))
      else if token = asc ''CONSTANT'' \<or> token = asc ''GENERIC'' then do {
        rest \<leftarrow> seek_end (snd (strtok_r [0x20, 9] pos)) (file_rest s);
        Some (Defined (s\<lparr>file_rest := rest\<rparr>)) }
      else if token = asc ''USE'' then do {
        rest \<leftarrow> seek_end (snd (strtok_r [0x20, 9, 0x3b] pos)) (file_rest s);
        Some (Defined (s\<lparr>file_rest := rest\<rparr>)) }
      else if token = asc ''PORT'' then do {
        rest \<leftarrow> parse_port pos (file_rest s);
        Some (Defined (s\<lparr>file_rest := rest\<rparr>)) }
      else if token = asc ''ATTRIBUTE'' then parse_attribute h pos s
      else Some (Defined s))"

partial_function (option) parse_loop :: "host \<Rightarrow> bsdl_scan \<Rightarrow> bsdl_scan defined option" where [code]:
  "parse_loop h s =
     (if file_rest s \<noteq> [] \<and> (\<not> found_IR_size s \<or> \<not> found_cmds s \<or> \<not> found_idcode s)
      then let (line, rest) = get_line (file_rest s); s = s\<lparr>file_rest := rest\<rparr>
           in case strtok_r [0x20, 9] line of
               (None, _) \<Rightarrow> Some (Defined s)
             | (Some token, pos) \<Rightarrow>
                 if strtoupper token = asc ''END'' then Some (Defined s)
                 else case parse_statement h (strtoupper token) pos s of
                     None \<Rightarrow> None
                   | Some Undefined \<Rightarrow> Some Undefined
                   | Some (Defined s) \<Rightarrow> parse_loop h s
      else Some (Defined s))"

text \<open>\<open>file\<close>: what is in the file, None when it cannot be opened. The result NULL is \<open>Defined None\<close>.\<close>

definition parse_extract_values :: "host \<Rightarrow> u8 list option \<Rightarrow> bsdlinfo option defined option" where
  "parse_extract_values h file =
     (case file of
        None \<Rightarrow> Some (Defined None)
      | Some filedata \<Rightarrow>
          if \<not> malloc_ok h (int (length filedata)) then Some (Defined None)
          else and_defined (parse_loop h (scan_start filedata)) (\<lambda>s.
            if \<not> malloc_ok h (if sizeof_ulong h = 8 then 40 else 32) then Some (Defined None)
            else Some (Defined (Some (bsdlinfo.truncate s)))))"

section \<open>Strings with a known beginning\<close>

text \<open>A word is not empty and has neither separators nor control characters.\<close>

definition ident :: "u8 list \<Rightarrow> bool" where
  "ident w \<longleftrightarrow> w \<noteq> [] \<and> (\<forall>c \<in> set w. \<not> is_space c \<and> \<not> is_cntrl c \<and> c \<notin> set (asc ''-,;:()'') \<union> {0x22})"

lemma strtok_word:
  assumes "w \<noteq> []" "\<forall>c \<in> set w. c \<notin> set delim" "d \<in> set delim"
  shows "strtok_r delim (w @ d # rest) = (Some w, rest)"
proof -
  obtain c cs where "w = c # cs" using assms(1) by (cases w) auto
  with assms show ?thesis by (simp add: strtok_r_def takeWhile_append2 dropWhile_append2)
qed

lemma strtok_end:
  assumes "w \<noteq> []" "\<forall>c \<in> set w. c \<notin> set delim"
  shows "strtok_r delim w = (Some w, [])"
proof -
  obtain c cs where w: "w = c # cs" using assms(1) by (cases w) auto
  have "takeWhile (\<lambda>c. c \<notin> set delim) w = w" "dropWhile (\<lambda>c. c \<notin> set delim) w = []"
    using assms(2) by (simp_all add: takeWhile_eq_all_conv dropWhile_eq_Nil_conv)
  moreover have "dropWhile (\<lambda>c. c \<in> set delim) w = w" using assms w by simp
  ultimately show ?thesis using w by (simp add: strtok_r_def)
qed

lemma strtok_skip: "d \<in> set delim \<Longrightarrow> strtok_r delim (d # s) = strtok_r delim s"
  by (simp add: strtok_r_def)

lemma strtok_none: "strtok_r delim [] = (None, [])"
  by (simp add: strtok_r_def)

lemma strchr_word: "c \<notin> set w \<Longrightarrow> strchr c (w @ c # rest) = Some (c # rest)"
  by (induction w) (auto simp: strchr_def)

lemma strstr_none: "needle = n # ns \<Longrightarrow> n \<notin> set str \<Longrightarrow> strstr needle str = None"
  by (induction str) auto

lemma get_line_word:
  assumes "c \<notin> set (asc ''-'')" "\<not> is_space c" "\<forall>x \<in> set (c # cs). \<not> is_cntrl x \<and> x \<noteq> 0x2d" "is_cntrl nl"
  shows "get_line (c # cs @ nl # rest) = (c # cs, rest)"
proof -
  have skip: "skip_lines (c # cs @ nl # rest) = c # cs @ nl # rest"
    using assms by (simp add: skip_lines.simps asc_def)
  have line: "takeWhile (\<lambda>x. \<not> is_cntrl x) (c # cs @ nl # rest) = c # cs"
    using assms(3,4) by (simp add: takeWhile_append2)
  have "cut_comment (c # cs) = c # cs"
    using assms(3) strstr_none [of "asc ''--''" "0x2d" "[0x2d]" "c # cs"]
    by (auto simp: cut_comment_def asc_def)
  with skip line show ?thesis by (simp add: get_line_def)
qed

lemma seek_found: "search pos = Some p \<Longrightarrow> seek search pos rest = Some (p, rest)"
  by (simp add: seek.simps)

lemma asc_append: "asc (a @ b) = asc a @ asc b"
  by (simp add: asc_def)

text \<open>From the name of the attribute to \<open>is\<close>.\<close>

lemma seek_entity_is_found:
  assumes "ident name"
  shows "seek_entity_is (asc ''of '' @ name @ asc '' : entity is'' @ t) rest = Some (asc ''is'' @ t, rest)"
proof -
  have colon: "0x3a \<notin> set (asc ''of '' @ name @ [0x20])"
    using assms by (auto simp: ident_def asc_def)
  have "asc ''of '' @ name @ asc '' : entity is'' @ t = (asc ''of '' @ name @ [0x20]) @ 0x3a # asc '' entity is'' @ t"
    by (simp add: asc_def)
  then have "strchr 0x3a (asc ''of '' @ name @ asc '' : entity is'' @ t) = Some (0x3a # asc '' entity is'' @ t)"
    using strchr_word [OF colon] by simp
  moreover have "strstr (asc ''entity'') (0x3a # asc '' entity is'' @ t) = Some (asc ''entity is'' @ t)"
    "strstr (asc ''is'') (asc ''entity is'' @ t) = Some (asc ''is'' @ t)"
    by (simp_all add: asc_def)
  ultimately show ?thesis by (simp add: seek_entity_is_def seek_found)
qed

section \<open>A description as it is printed\<close>

text \<open>What a description says: names and opcodes of the instructions, and the ID code with its
  open bits.\<close>

definition bits_text :: "bool list \<Rightarrow> u8 list" where
  "bits_text bs = map (\<lambda>b. if b then 0x31 else 0x30) bs"

definition bits_value :: "bool list \<Rightarrow> nat" where
  "bits_value bs = foldl (\<lambda>n b. n * 2 + (if b then 1 else 0)) 0 bs"

definition pair_text :: "u8 list \<times> bool list \<Rightarrow> u8 list" where
  "pair_text op = fst op @ asc '' ('' @ bits_text (snd op) @ asc '')''"

text \<open>The strings between the quotes: each but the last ends with a comma, and the lines are joined
  with \<open>&\<close>.\<close>

fun opcode_lines :: "(u8 list \<times> bool list) list \<Rightarrow> u8 list" where
  "opcode_lines [] = []"
| "opcode_lines [op] = [0x22] @ pair_text op @ [0x22] @ asc '';'' @ [10]"
| "opcode_lines (op # ops) = [0x22] @ pair_text op @ asc '','' @ [0x22] @ asc '' &'' @ [10] @ opcode_lines ops"

fun opcode_string :: "(u8 list \<times> bool list) list \<Rightarrow> u8 list" where
  "opcode_string [] = []"
| "opcode_string [op] = pair_text op"
| "opcode_string (op # ops) = pair_text op @ asc '','' @ opcode_string ops"

definition id_text :: "bool option list \<Rightarrow> u8 list" where
  "id_text ids = map (\<lambda>b. case b of None \<Rightarrow> 0x58 | Some True \<Rightarrow> 0x31 | Some False \<Rightarrow> 0x30) ids"

definition attribute_text :: "string \<Rightarrow> u8 list \<Rightarrow> u8 list \<Rightarrow> u8 list" where
  "attribute_text a name val = asc ''attribute '' @ asc a @ asc '' of '' @ name @ asc '' : entity is'' @ val @ [10]"

definition bsdl_text :: "u8 list \<Rightarrow> nat \<Rightarrow> (u8 list \<times> bool list) list \<Rightarrow> bool option list \<Rightarrow> u8 list" where
  "bsdl_text name ir ops ids =
     asc ''entity '' @ name @ asc '' is'' @ [10] @
     attribute_text ''INSTRUCTION_LENGTH'' name (asc '' '' @ dec_digits ir @ asc '';'') @
     attribute_text ''INSTRUCTION_OPCODE'' name [] @ opcode_lines ops @
     attribute_text ''IDCODE_REGISTER'' name (asc '' '' @ [0x22] @ id_text ids @ [0x22] @ asc '';'') @
     asc ''end '' @ name @ asc '';'' @ [10]"

section \<open>Reading it back\<close>

lemma bits_text_props: "\<forall>c \<in> set (bits_text bs). c = 0x30 \<or> c = 0x31"
  by (auto simp: bits_text_def)

lemma digits_nat_bits: "digits_nat 2 (bits_text bs) = bits_value bs"
proof -
  have "nat (hex (sint (0x31 :: u8))) = 1" "nat (hex (sint (0x30 :: u8))) = 0" by code_simp+
  then have "nat (hex (sint (if b then 0x31 else 0x30 :: u8))) = (if b then 1 else 0)" for b by simp
  then show ?thesis
    by (simp add: digits_nat_def bits_text_def bits_value_def foldl_map)
qed

lemma bits_value_bound: "bits_value bs < 2 ^ length bs"
proof (induction bs rule: rev_induct)
  case (snoc b bs) then show ?case by (cases b) (simp_all add: bits_value_def)
qed (simp add: bits_value_def)

lemma strtoul_bits:
  assumes "length bs \<le> 32" "4 \<le> sizeof_ulong h" "bs \<noteq> []"
  shows "strtoul h 2 (bits_text bs) = of_nat (bits_value bs)"
proof -
  have ok: "\<forall>c \<in> set (bits_text bs). \<not> is_space c \<and> is_hex c \<and> hex (sint c) < 2 \<and> c \<noteq> 0x2d \<and> c \<noteq> 0x2b"
  proof -
    have "list_all (\<lambda>c. \<not> is_space c \<and> is_hex c \<and> hex (sint c) < 2 \<and> c \<noteq> 0x2d \<and> c \<noteq> 0x2b) [0x30, 0x31]"
      by code_simp
    then show ?thesis using bits_text_props [of bs] by (auto simp: list_all_iff)
  qed
  obtain c cs where c: "bits_text bs = c # cs" using assms(3) by (cases bs) (auto simp: bits_text_def)
  have "scan_sign (dropWhile is_space (bits_text bs)) = (False, bits_text bs)"
    using ok c by (simp add: scan_sign_def)
  moreover have "takeWhile (\<lambda>c. is_hex c \<and> hex (sint c) < 2) (bits_text bs) = bits_text bs"
    using ok by (simp only: takeWhile_eq_all_conv) blast
  then have "digits_nat 2 (takeWhile (\<lambda>c. is_hex c \<and> hex (sint c) < 2) (bits_text bs)) = bits_value bs"
    by (simp only: digits_nat_bits)
  moreover have "bits_value bs < 2 ^ (8 * sizeof_ulong h)"
  proof -
    have "(2 :: nat) ^ length bs \<le> 2 ^ (8 * sizeof_ulong h)"
      using assms by (intro power_increasing) auto
    with bits_value_bound [of bs] show ?thesis by linarith
  qed
  ultimately show ?thesis
    by (simp add: strtoul_def Let_def)
qed

definition ops_ok :: "(u8 list \<times> bool list) list \<Rightarrow> bool" where
  "ops_ok ops \<longleftrightarrow> (\<forall>(n, bs) \<in> set ops. ident n \<and> bs \<noteq> [] \<and> length bs \<le> 32)"

definition apply_op :: "u8 list \<times> bool list \<Rightarrow> bsdl_cmds \<Rightarrow> bsdl_cmds" where
  "apply_op op = set_opcode (target_of (fst op)) (of_nat (bits_value (snd op)))"

lemma parse_pair:
  assumes "ident (fst op)" "snd op \<noteq> []" "length (snd op) \<le> 32" "4 \<le> sizeof_ulong h"
  shows "parse_opcode h (pair_text op) cmds = Some (apply_op op cmds)"
proof -
  have name: "\<forall>c \<in> set (fst op). c \<notin> set (0x20 # 9 # asc ''('')"
    using assms(1) by (auto simp: ident_def is_space_def asc_def)
  have bits: "\<forall>c \<in> set (bits_text (snd op)). c \<notin> set (0x20 # 9 # asc ''()'')"
    using bits_text_props [of "snd op"] by (auto simp: asc_def)
  have "strtok_r (0x20 # 9 # asc ''('') (pair_text op) = (Some (fst op), asc ''('' @ bits_text (snd op) @ asc '')'')"
    using strtok_word [OF _ name, of "0x20" "asc ''('' @ bits_text (snd op) @ asc '')''"] assms(1) by (simp add: pair_text_def ident_def asc_def)
  moreover have "strtok_r (0x20 # 9 # asc ''()'') (asc ''('' @ bits_text (snd op) @ asc '')'') = (Some (bits_text (snd op)), [])"
  proof -
    have "bits_text (snd op) \<noteq> []" using assms(2) by (simp add: bits_text_def)
    from strtok_word [OF this bits, of "0x29" "[]"] show ?thesis
      using strtok_skip [of "0x28" "0x20 # 9 # asc ''()''"] by (simp add: asc_def)
  qed
  moreover have "set_opcode Target_None x cmds = cmds" for x by (simp add: set_opcode_def)
  ultimately show ?thesis
    using strtoul_bits [OF assms(3,4,2)] by (simp add: parse_opcode_def apply_op_def Let_def)
qed

lemma pair_text_no_comma: "ident (fst op) \<Longrightarrow> pair_text op \<noteq> [] \<and> (\<forall>c \<in> set (pair_text op). c \<notin> set (asc '',''))"
  using bits_text_props [of "snd op"] by (auto simp: pair_text_def ident_def asc_def)

lemma parse_opcode_string:
  assumes "ops_ok ops" "4 \<le> sizeof_ulong h"
  shows "parse_opcodes h (opcode_string ops) cmds = Some (fold apply_op ops cmds)"
  using assms(1)
proof (induction ops arbitrary: cmds rule: opcode_string.induct)
  case 1 then show ?case by (simp add: parse_opcodes.simps strtok_none)
next
  case (2 op)
  then have op: "ident (fst op)" "snd op \<noteq> []" "length (snd op) \<le> 32" by (auto simp: ops_ok_def)
  with strtok_end [of "pair_text op" "asc '',''"] pair_text_no_comma [of op] show ?case
    by (simp add: parse_opcodes.simps [of h "pair_text op"] parse_opcodes.simps [of h "[]"]
        parse_pair assms(2) strtok_none)
next
  case (3 op op' ops)
  then have op: "ident (fst op)" "snd op \<noteq> []" "length (snd op) \<le> 32" and ops: "ops_ok (op' # ops)"
    by (auto simp: ops_ok_def)
  have "strtok_r (asc '','') (opcode_string (op # op' # ops)) = (Some (pair_text op), opcode_string (op' # ops))"
    using strtok_word [of "pair_text op" "asc '',''" "0x2c" "opcode_string (op' # ops)"] pair_text_no_comma [OF op(1)] by (simp add: asc_def)
  with "3.IH" [OF ops] show ?case
    by (subst parse_opcodes.simps) (simp add: parse_pair op assms(2))
qed

lemma scan_quoted_run:
  "\<forall>c \<in> set w. c \<noteq> 0x22 \<and> c \<noteq> 0x3b \<Longrightarrow> scan_quoted first (w @ t) True buf = scan_quoted first t True (buf @ w)"
  by (induction w arbitrary: buf) auto

text \<open>Between the quotes of a line.\<close>

lemma scan_quoted_string:
  assumes "\<forall>c \<in> set w. c \<noteq> 0x22 \<and> c \<noteq> 0x3b"
  shows "scan_quoted first ([0x22] @ w @ [0x22] @ t) False buf = scan_quoted first t False (buf @ w)"
  using scan_quoted_run [OF assms, of first "0x22 # t" buf] by simp

lemma pair_text_chars:
  "ident (fst op) \<Longrightarrow> \<forall>c \<in> set (pair_text op). c \<noteq> 0x22 \<and> c \<noteq> 0x3b \<and> \<not> is_cntrl c \<and> c \<noteq> 0x2d"
  using bits_text_props [of "snd op"] by (auto simp: pair_text_def ident_def asc_def is_cntrl_def)

lemma get_quoted_line:
  assumes "\<forall>c \<in> set w. \<not> is_cntrl c \<and> c \<noteq> 0x2d"
  shows "get_line ([0x22] @ w @ [10] @ rest) = ([0x22] @ w, rest)"
  using get_line_word [of "0x22" w 10 rest] assms by (simp add: is_space_def is_cntrl_def asc_def)

lemma more_opcode_lines:
  assumes "ops_ok ops" "ops \<noteq> []" "length (buf @ opcode_string ops) < room"
  shows "more_quoted room False False buf (opcode_lines ops @ rest) = Some (Defined (buf @ opcode_string ops, rest))"
  using assms
proof (induction ops arbitrary: buf rule: opcode_lines.induct)
  case (2 op)
  then have op: "\<forall>c \<in> set (pair_text op). c \<noteq> 0x22 \<and> c \<noteq> 0x3b \<and> \<not> is_cntrl c \<and> c \<noteq> 0x2d"
    by (intro pair_text_chars) (auto simp: ops_ok_def)
  have "get_line (opcode_lines [op] @ rest) = ([0x22] @ pair_text op @ [0x22] @ asc '';'', rest)"
    using get_quoted_line [of "pair_text op @ [0x22] @ asc '';''" rest] op by (simp add: asc_def is_cntrl_def)
  moreover have "scan_quoted False ([0x22] @ pair_text op @ [0x22] @ asc '';'') False buf = (True, False, buf @ pair_text op)"
    using scan_quoted_string [of "pair_text op" False "asc '';''" buf] op by (simp add: asc_def)
  ultimately show ?case using 2 by (simp add: more_quoted.simps)
next
  case (3 op op' ops)
  then have op: "\<forall>c \<in> set (pair_text op). c \<noteq> 0x22 \<and> c \<noteq> 0x3b \<and> \<not> is_cntrl c \<and> c \<noteq> 0x2d"
    by (intro pair_text_chars) (auto simp: ops_ok_def)
  let ?w = "pair_text op @ asc '',''"
  have "get_line (opcode_lines (op # op' # ops) @ rest) =
      ([0x22] @ ?w @ [0x22] @ asc '' &'', opcode_lines (op' # ops) @ rest)"
    using get_quoted_line [of "?w @ [0x22] @ asc '' &''" "opcode_lines (op' # ops) @ rest"] op
    by (simp add: asc_def is_cntrl_def)
  moreover have "scan_quoted False ([0x22] @ ?w @ [0x22] @ asc '' &'') False buf = (False, False, buf @ ?w)"
    using scan_quoted_string [of ?w False "asc '' &''" buf] op by (simp add: asc_def)
  ultimately have "more_quoted room False False buf (opcode_lines (op # op' # ops) @ rest) =
      more_quoted room False False (buf @ ?w) (opcode_lines (op' # ops) @ rest)"
    using 3(4) by (subst more_quoted.simps) simp
  with "3.IH" [of "buf @ ?w"] 3(2) 3(4) show ?case by (auto simp: ops_ok_def)
qed simp

text \<open>The instruction length.\<close>

lemma dec_props:
  assumes "is_dec c"
  shows "\<not> is_space c \<and> is_hex c \<and> hex (sint c) < 10 \<and> \<not> is_cntrl c \<and> c \<notin> {0x2d, 0x2b, 0x3b}"
proof -
  let ?P = "\<lambda>c. \<not> is_space c \<and> is_hex c \<and> hex (sint c) < 10 \<and> \<not> is_cntrl c \<and> c \<notin> {0x2d, 0x2b, 0x3b}"
  have "list_all (\<lambda>n. ?P (0x30 + of_nat n)) [0..<10]" by code_simp
  then have "?P (0x30 + of_nat n)" if "n < 10" for n
    using that unfolding list_all_iff by (metis atLeastLessThan_iff set_upt zero_le)
  moreover have "unat c - 48 < 10" "c = 0x30 + of_nat (unat c - 48)"
    using assms by (auto simp: is_dec_def word_le_nat_alt of_nat_diff)
  ultimately show ?thesis by metis
qed

lemma scan_digits_run: "\<forall>c \<in> set ds. is_dec c \<Longrightarrow> scan_digits (ds @ t) buf = scan_digits t (buf @ ds)"
  by (induction ds arbitrary: buf) auto

lemma strtoul_dec:
  assumes "0 < n" "n < 2 ^ 31" "4 \<le> sizeof_ulong h"
  shows "sint (strtoul h 0 (dec_digits n)) = int n"
proof -
  have dec: "\<forall>c \<in> set (dec_digits n). is_dec c" by (rule dec_digits_dec)
  obtain c cs where c: "dec_digits n = c # cs" by (cases "dec_digits n") auto
  have "c \<noteq> 0x30"
  proof
    assume "c = 0x30"
    then have "nat (hex (sint c)) = 0" by simp code_simp
    with dec_digits_hd [OF assms(1)] c show False by simp
  qed
  moreover have "scan_sign (dropWhile is_space (dec_digits n)) = (False, dec_digits n)"
    using dec c dec_props [of c] by (simp add: scan_sign_def)
  moreover have "takeWhile (\<lambda>c. is_hex c \<and> hex (sint c) < 10) (dec_digits n) = dec_digits n"
    using dec dec_props by (simp only: takeWhile_eq_all_conv) blast
  then have "digits_nat 10 (takeWhile (\<lambda>c. is_hex c \<and> hex (sint c) < 10) (dec_digits n)) = n"
    by (simp only: digits_nat_dec)
  moreover have "n < 2 ^ (8 * sizeof_ulong h)"
  proof -
    have "(2 :: nat) ^ 31 \<le> 2 ^ (8 * sizeof_ulong h)" using assms(3) by (intro power_increasing) auto
    with assms(2) show ?thesis by linarith
  qed
  ultimately have "strtoul h 0 (dec_digits n) = of_nat n"
    using c by (simp add: strtoul_def Let_def)
  with assms(2) show ?thesis
    by (simp add: signed_of_nat signed_take_bit_int_eq_self_iff)
qed

text \<open>The ID code: a bit is 1 where the text says so, and it counts where the text says something.\<close>

lemma idcode_chars_bits:
  assumes "length ids + k \<le> 32" "idcode_chars h (id_text ids) (int k) (w, m) = (w', m')" "j < 32"
  shows "(bit w' j \<longleftrightarrow> bit w j \<or> (31 - j \<ge> k \<and> 31 - j < k + length ids \<and> ids ! (31 - j - k) = Some True)) \<and>
    (bit m' j \<longleftrightarrow> bit m j \<and> \<not> (31 - j \<ge> k \<and> 31 - j < k + length ids \<and> ids ! (31 - j - k) = None))"
  using assms
proof (induction ids arbitrary: k w m)
  case Nil
  then show ?case by (auto simp: id_text_def)
next
  case (Cons b ids)
  let ?w = "if b = Some True then w OR push_bit (31 - k) 1 else w"
  let ?m = "if b = None then m AND NOT (push_bit (31 - k) 1) else m"
  have upper: "to_upper 0x58 = 0x58" "to_upper 0x30 \<noteq> 0x58" "(0x58 :: u8) \<noteq> 0x31" "(0x30 :: u8) \<noteq> 0x31"
    by code_simp+
  have sh: "c_shl h 1 (31 - int k) = push_bit (31 - k) 1" if "k < 32"
    using that by (simp add: c_shl_def nat_diff_distrib')
  have step: "idcode_chars h (id_text ids) (int (Suc k)) (?w, ?m) = (w', m')"
    if "length (b # ids) + k \<le> 32" "idcode_chars h (id_text (b # ids)) (int k) (w, m) = (w', m')"
    using that sh upper by (cases b) (auto simp: id_text_def add.commute split: bool.splits if_splits)
  have one: "bit (push_bit (31 - k) (1 :: u32)) j \<longleftrightarrow> k = 31 - j" if "j < 32" "k < 32"
    using that by (auto simp: bit_exp_iff)
  have shift: "(31 - j \<ge> k \<and> 31 - j < k + length (b # ids) \<and> (b # ids) ! (31 - j - k) = x) \<longleftrightarrow>
     (k = 31 - j \<and> b = x) \<or> (31 - j \<ge> Suc k \<and> 31 - j < Suc k + length ids \<and> ids ! (31 - j - Suc k) = x)" for x
  proof (cases "k < 31 - j")
    case True
    then have "31 - j - k = Suc (31 - j - Suc k)" by simp
    then have "(b # ids) ! (31 - j - k) = ids ! (31 - j - Suc k)" by (simp only: nth_Cons_Suc)
    with True show ?thesis by auto
  next
    case False
    then show ?thesis by auto
  qed
  have "length ids + Suc k \<le> 32" using Cons.prems(1) by simp
  note IH = Cons.IH [OF this step [OF Cons.prems(1,2)] Cons.prems(3)]
  show ?case
    unfolding conjunct1 [OF IH] conjunct2 [OF IH] shift
    using one [OF Cons.prems(3)] Cons.prems(1,3) by (auto simp: bit_or_iff bit_and_iff bit_not_iff)
qed

lemma id_text_chars: "\<forall>c \<in> set (id_text ids). c \<noteq> 0x22 \<and> c \<noteq> 0x3b \<and> \<not> is_cntrl c \<and> c \<noteq> 0x2d"
  by (auto simp: id_text_def is_cntrl_def split: option.splits bool.splits)

section \<open>The statements of the description\<close>

lemma attribute_line:
  assumes "ident name" "\<forall>c \<in> set (asc a) \<union> set val. \<not> is_cntrl c \<and> c \<noteq> 0x2d"
  shows "get_line (attribute_text a name val @ rest) =
    (asc ''attribute '' @ asc a @ asc '' of '' @ name @ asc '' : entity is'' @ val, rest)"
proof -
  have "get_line (0x61 # (asc ''ttribute '' @ asc a @ asc '' of '' @ name @ asc '' : entity is'' @ val) @ 10 # rest) =
      (0x61 # (asc ''ttribute '' @ asc a @ asc '' of '' @ name @ asc '' : entity is'' @ val), rest)"
    using assms by (intro get_line_word) (auto simp: asc_def is_space_def is_cntrl_def ident_def)
  then show ?thesis by (simp add: attribute_text_def asc_def)
qed

text \<open>A round of the loop on an attribute.\<close>

lemma parse_attribute_line:
  assumes "ident name" "a \<in> {''INSTRUCTION_LENGTH'', ''INSTRUCTION_OPCODE'', ''IDCODE_REGISTER''}"
    and "\<forall>c \<in> set val. \<not> is_cntrl c \<and> c \<noteq> 0x2d" "file_rest s = attribute_text a name val @ rest"
    and "\<not> found_IR_size s \<or> \<not> found_cmds s \<or> \<not> found_idcode s"
  shows "parse_loop h s =
    (let pos = asc ''of '' @ name @ asc '' : entity is'' @ val; s = s\<lparr>file_rest := rest\<rparr>
     in and_defined (if a = ''INSTRUCTION_LENGTH'' then parse_length h pos s
         else if a = ''INSTRUCTION_OPCODE'' then parse_opcode_attribute h pos s else parse_idcode h pos s) (parse_loop h))"
proof -
  let ?pos = "asc ''of '' @ name @ asc '' : entity is'' @ val"
  have a: "asc a \<noteq> []" "\<forall>c \<in> set (asc a). c \<notin> set [0x20, 9]" "strtoupper (asc a) = asc a"
    "\<forall>c \<in> set (asc a). \<not> is_cntrl c \<and> c \<noteq> 0x2d"
    using assms(2) by (auto simp: asc_def strtoupper_def to_upper_def is_cntrl_def)
  have line: "get_line (file_rest s) = (asc ''attribute'' @ 0x20 # asc a @ 0x20 # ?pos, rest)"
  proof -
    have "\<forall>c \<in> set (asc a) \<union> set val. \<not> is_cntrl c \<and> c \<noteq> 0x2d" using a(4) assms(3) by blast
    from attribute_line [OF assms(1) this] show ?thesis by (simp add: assms(4) asc_def)
  qed
  have tok1: "strtok_r [0x20, 9] (asc ''attribute'' @ 0x20 # asc a @ 0x20 # ?pos) = (Some (asc ''attribute''), asc a @ 0x20 # ?pos)"
    by (rule strtok_word) (auto simp: asc_def)
  have tok2: "strtok_r [0x20, 9] (asc a @ 0x20 # ?pos) = (Some (asc a), ?pos)"
    using a by (intro strtok_word) auto
  have upper: "strtoupper (asc ''attribute'') = asc ''ATTRIBUTE''" by code_simp
  have names: "asc ''ATTRIBUTE'' \<noteq> asc ''END''" "asc ''ATTRIBUTE'' \<noteq> asc ''ENTITY''" "asc ''ATTRIBUTE'' \<noteq> asc ''CONSTANT''"
    "asc ''ATTRIBUTE'' \<noteq> asc ''GENERIC''" "asc ''ATTRIBUTE'' \<noteq> asc ''USE''" "asc ''ATTRIBUTE'' \<noteq> asc ''PORT''"
    by (simp_all add: asc_def)
  have distinct: "asc ''INSTRUCTION_OPCODE'' \<noteq> asc ''INSTRUCTION_LENGTH''"
    "asc ''IDCODE_REGISTER'' \<noteq> asc ''INSTRUCTION_LENGTH''" "asc ''IDCODE_REGISTER'' \<noteq> asc ''INSTRUCTION_OPCODE''"
    by (simp_all add: asc_def)
  have ne: "file_rest s \<noteq> []" using assms(4) by (simp add: attribute_text_def asc_def)
  have statement: "parse_statement h (asc ''ATTRIBUTE'') (asc a @ 0x20 # ?pos) t = 
      (if a = ''INSTRUCTION_LENGTH'' then parse_length h ?pos t
       else if a = ''INSTRUCTION_OPCODE'' then parse_opcode_attribute h ?pos t else parse_idcode h ?pos t)" for t
    unfolding parse_statement_def parse_attribute_def tok2
    using assms(2) by (auto simp: names Let_def a(3) distinct)
  show ?thesis
    using assms(5) by (subst parse_loop.simps) (auto simp: ne line tok1 upper names statement and_defined_def Let_def)
qed

lemma parse_length_text:
  assumes "ident name" "0 < ir" "ir < 2 ^ 31" "4 \<le> sizeof_ulong h"
  shows "parse_length h (asc ''of '' @ name @ asc '' : entity is'' @ asc '' '' @ dec_digits ir @ asc '';'') s =
    Some (Defined (s\<lparr>bsdl_IR_size := int ir, found_IR_size := True\<rparr>))"
proof -
  have "scan_digits (asc ''is '' @ dec_digits ir @ asc '';'') [] = (True, dec_digits ir)"
  proof -
    have "scan_digits (asc ''is '' @ dec_digits ir @ asc '';'') [] = scan_digits (dec_digits ir @ asc '';'') []"
      by (simp add: asc_def is_dec_def)
    also have "\<dots> = (True, dec_digits ir)"
      using scan_digits_run [OF dec_digits_dec] by (simp add: asc_def is_dec_def)
    finally show ?thesis .
  qed
  moreover have "length (dec_digits n) \<le> k + 1" if "n < 10 ^ (k + 1)" for n k
    using that
  proof (induction k arbitrary: n)
    case 0 then show ?case by (simp add: dec_digits.simps)
  next
    case (Suc k)
    have "n div 10 < 10 ^ (k + 1)" using Suc.prems by (simp add: less_mult_imp_div_less)
    from Suc.IH [OF this] show ?case by (subst dec_digits.simps) simp
  qed
  from this [of ir 9] assms(3) have "length (dec_digits ir) < 128" by simp
  moreover have "seek_entity_is (asc ''of '' @ name @ asc '' : entity is'' @ asc '' '' @ dec_digits ir @ asc '';'') rest =
      Some (asc ''is '' @ dec_digits ir @ asc '';'', rest)" for rest
    using seek_entity_is_found [OF assms(1), of "asc '' '' @ dec_digits ir @ asc '';''"] by (simp add: asc_def)
  ultimately show ?thesis
    using strtoul_dec [OF assms(2-4)] by (simp add: parse_length_def more_digits.simps Let_def)
qed

lemma opcode_string_shorter: "ops \<noteq> [] \<Longrightarrow> length (opcode_string ops) < length (opcode_lines ops @ rest)"
  by (induction ops rule: opcode_lines.induct) (auto simp: asc_def)

lemma parse_opcode_text:
  assumes "ident name" "ops_ok ops" "ops \<noteq> []" "4 \<le> sizeof_ulong h" "\<And>n. malloc_ok h n"
    and "file_rest s = opcode_lines ops @ rest"
  shows "parse_opcode_attribute h (asc ''of '' @ name @ asc '' : entity is'') s =
    (let cmds = fold apply_op ops (bsdl_cmds.truncate s) in Some (Defined (s\<lparr>file_rest := rest, cmd_debug := cmd_debug cmds,
       cmd_user1 := cmd_user1 cmds, cmd_idcode := cmd_idcode cmds, found_cmds := True\<rparr>)))"
proof -
  have "seek_entity_is (asc ''of '' @ name @ asc '' : entity is'') r = Some (asc ''is'', r)" for r
    using seek_entity_is_found [OF assms(1), of "[]"] by simp
  moreover have "length (opcode_string ops) < length (opcode_lines ops @ rest)"
    using opcode_string_shorter [OF assms(3), of rest] .
  then have "quoted (length (opcode_lines ops @ rest)) (asc ''is'') (opcode_lines ops @ rest) = Some (Defined (opcode_string ops, rest))"
    using more_opcode_lines [OF assms(2,3), of "[]" "length (opcode_lines ops @ rest)" rest]
    by (simp add: quoted_def asc_def)
  ultimately show ?thesis
    using parse_opcode_string [OF assms(2,4)] assms(5,6) by (simp add: parse_opcode_attribute_def Let_def)
qed

lemma parse_idcode_text:
  assumes "ident name" "length ids \<le> 127"
    and "idcode_chars h (id_text ids) 0 (bsdl_idcode s, bsdl_idcode_mask s) = (w, m)"
  shows "parse_idcode h (asc ''of '' @ name @ asc '' : entity is'' @ asc '' '' @ [0x22] @ id_text ids @ [0x22] @ asc '';'') s =
    Some (Defined (s\<lparr>bsdl_idcode := w, bsdl_idcode_mask := m, found_idcode := True\<rparr>))"
proof -
  let ?t = "asc '' '' @ [0x22] @ id_text ids @ [0x22] @ asc '';''"
  have "seek_entity_is (asc ''of '' @ name @ asc '' : entity is'' @ ?t) r = Some (asc ''is'' @ ?t, r)" for r
    by (rule seek_entity_is_found [OF assms(1)])
  moreover have "scan_quoted True (asc ''is'' @ ?t) False [] = (True, False, id_text ids)"
  proof -
    have "\<forall>c \<in> set (id_text ids). c \<noteq> 0x22 \<and> c \<noteq> 0x3b" using id_text_chars by blast
    from scan_quoted_string [OF this, of True "asc '';''" "[]"] show ?thesis by (simp add: asc_def)
  qed
  then have "quoted 128 (asc ''is'' @ ?t) r = Some (Defined (id_text ids, r))" for r
    using assms(2) by (simp add: quoted_def more_quoted.simps id_text_def)
  ultimately show ?thesis
    using assms(3) by (simp add: parse_idcode_def)
qed

lemma parse_entity_line:
  assumes "ident name" "file_rest s = asc ''entity '' @ name @ asc '' is'' @ [10] @ rest" "\<not> found_IR_size s" "\<And>n. malloc_ok h n"
  shows "parse_loop h s = parse_loop h (s\<lparr>file_rest := rest, bsdl_name := Some name\<rparr>)"
proof -
  have line: "get_line (file_rest s) = (asc ''entity'' @ 0x20 # name @ 0x20 # asc ''is'', rest)"
  proof -
    have "get_line (0x65 # (asc ''ntity '' @ name @ asc '' is'') @ 10 # rest) = (0x65 # (asc ''ntity '' @ name @ asc '' is''), rest)"
      using assms(1) by (intro get_line_word) (auto simp: asc_def is_space_def is_cntrl_def ident_def)
    then show ?thesis by (simp add: assms(2) asc_def)
  qed
  have tok1: "strtok_r [0x20, 9] (asc ''entity'' @ 0x20 # name @ 0x20 # asc ''is'') = (Some (asc ''entity''), name @ 0x20 # asc ''is'')"
    by (rule strtok_word) (auto simp: asc_def)
  have tok2: "strtok_r [0x20, 9] (name @ 0x20 # asc ''is'') = (Some name, asc ''is'')"
    using assms(1) by (intro strtok_word) (auto simp: ident_def is_space_def)
  have upper: "strtoupper (asc ''entity'') = asc ''ENTITY''" "asc ''ENTITY'' \<noteq> asc ''END''" by code_simp+
  have "file_rest s \<noteq> []" by (simp add: assms(2) asc_def)
  then show ?thesis
    using assms(3)
    by (subst parse_loop.simps)
      (simp add: line tok1 upper tok2 parse_statement_def parse_entity_def assms(4))
qed

lemma idcode_bits:
  assumes "idcode_chars h (id_text ids) 0 (0, 0xFFFFFFFF) = (w, m)" "length ids = 32" "i < 32"
  shows "(bit w (31 - i) \<longleftrightarrow> ids ! i = Some True) \<and> (bit m (31 - i) \<longleftrightarrow> ids ! i \<noteq> None)"
proof -
  have "bit (0xFFFFFFFF :: u32) j" if "j < 32" for j
  proof -
    have "(0xFFFFFFFF :: u32) = - 1" by simp
    with that show ?thesis by (simp only: bit_minus_1_iff possible_bit_word) simp
  qed
  with idcode_chars_bits [of ids 0 h 0 "0xFFFFFFFF" w m "31 - i"] assms show ?thesis by simp
qed

lemma read_bsdl_text:
  assumes "ident name" "0 < ir" "ir < 2 ^ 31" "ops_ok ops" "ops \<noteq> []" "length ids = 32"
    and "4 \<le> sizeof_ulong h" "\<And>n. malloc_ok h n"
  shows "\<exists>info. parse_extract_values h (Some (bsdl_text name ir ops ids)) = Some (Defined (Some info)) \<and>
    bsdl_name info = Some name \<and> bsdl_IR_size info = int ir \<and>
    bsdl_cmds.truncate info = fold apply_op ops
      \<lparr>cmd_debug = TAP_CMD_INVALID, cmd_user1 = TAP_CMD_INVALID, cmd_idcode = TAP_CMD_INVALID\<rparr> \<and>
    (\<forall>i < 32. (bit (bsdl_idcode info) (31 - i) \<longleftrightarrow> ids ! i = Some True) \<and>
              (bit (bsdl_idcode_mask info) (31 - i) \<longleftrightarrow> ids ! i \<noteq> None))"
proof -
  define rest4 where "rest4 = asc ''end '' @ name @ asc '';'' @ [10]"
  define val3 where "val3 = asc '' '' @ [0x22] @ id_text ids @ [0x22] @ asc '';''"
  define rest3 where "rest3 = attribute_text ''IDCODE_REGISTER'' name val3 @ rest4"
  define rest2 where "rest2 = attribute_text ''INSTRUCTION_OPCODE'' name [] @ opcode_lines ops @ rest3"
  define val1 where "val1 = asc '' '' @ dec_digits ir @ asc '';''"
  define rest1 where "rest1 = attribute_text ''INSTRUCTION_LENGTH'' name val1 @ rest2"
  define cmds where "cmds = fold apply_op ops
    \<lparr>cmd_debug = TAP_CMD_INVALID, cmd_user1 = TAP_CMD_INVALID, cmd_idcode = TAP_CMD_INVALID\<rparr>"
  obtain w m where wm: "idcode_chars h (id_text ids) 0 (0, 0xFFFFFFFF) = (w, m)" by fastforce
  have layout: "bsdl_text name ir ops ids = asc ''entity '' @ name @ asc '' is'' @ [10] @ rest1"
    by (simp add: bsdl_text_def rest1_def rest2_def rest3_def rest4_def val1_def val3_def)
  define s0 where "s0 = scan_start (bsdl_text name ir ops ids)"
  define s1 where "s1 = s0\<lparr>file_rest := rest1, bsdl_name := Some name\<rparr>"
  define s2 where "s2 = s1\<lparr>file_rest := rest2, bsdl_IR_size := int ir, found_IR_size := True\<rparr>"
  define s3 where "s3 = s2\<lparr>file_rest := rest3, cmd_debug := cmd_debug cmds, cmd_user1 := cmd_user1 cmds,
    cmd_idcode := cmd_idcode cmds, found_cmds := True\<rparr>"
  define s4 where "s4 = s3\<lparr>file_rest := rest4, bsdl_idcode := w, bsdl_idcode_mask := m, found_idcode := True\<rparr>"
  note states = s0_def s1_def s2_def s3_def s4_def scan_start_def
  have step1: "parse_loop h s0 = parse_loop h s1"
    using parse_entity_line [OF assms(1), of s0 rest1 h] assms(8) by (simp add: states layout)
  have step2: "parse_loop h s1 = parse_loop h s2"
  proof -
    have v: "\<forall>c \<in> set val1. \<not> is_cntrl c \<and> c \<noteq> 0x2d"
      using dec_digits_dec [of ir] dec_props by (auto simp: val1_def asc_def is_cntrl_def)
    show ?thesis
      using parse_attribute_line [OF assms(1) _ v, of "''INSTRUCTION_LENGTH''" s1 rest2 h]
        parse_length_text [OF assms(1-3,7)]
      by (simp add: states rest1_def val1_def Let_def)
  qed
  have step3: "parse_loop h s2 = parse_loop h s3"
    using parse_attribute_line [OF assms(1), of "''INSTRUCTION_OPCODE''" "[]" s2 "opcode_lines ops @ rest3" h]
      parse_opcode_text [OF assms(1,4,5,7,8), of "s2\<lparr>file_rest := opcode_lines ops @ rest3\<rparr>" rest3]
    by (simp add: states rest2_def Let_def cmds_def bsdl_cmds.truncate_def)
  have step4: "parse_loop h s3 = parse_loop h s4"
  proof -
    have v: "\<forall>c \<in> set val3. \<not> is_cntrl c \<and> c \<noteq> 0x2d"
      using id_text_chars [of ids] by (auto simp: val3_def asc_def is_cntrl_def)
    show ?thesis
      using parse_attribute_line [OF assms(1) _ v, of "''IDCODE_REGISTER''" s3 rest4 h]
        parse_idcode_text [OF assms(1), of ids h "s3\<lparr>file_rest := rest4\<rparr>" w m] assms(6) wm
      by (simp add: states rest3_def val3_def Let_def)
  qed
  have "parse_loop h s4 = Some (Defined s4)" by (subst parse_loop.simps) (simp add: states)
  with step1 step2 step3 step4 have "parse_extract_values h (Some (bsdl_text name ir ops ids)) = Some (Defined (Some (bsdlinfo.truncate s4)))"
    using assms(8) by (simp add: parse_extract_values_def s0_def)
  then show ?thesis
    using idcode_bits [OF wm assms(6)]
    by (simp add: states bsdlinfo.truncate_def bsdl_cmds.truncate_def cmds_def)
qed

text \<open>
  C39: A BSDL file in the usual layout is read back to what it says: the name of the device, the
  length of the instruction register, for DEBUG, USER1 and IDCODE the opcode of the last
  instruction of that name in any case (or the value for "not there"), and of the ID code the
  bits that are 1 and the bits that count.
\<close>

theorem bsdl_roundtrip:
  assumes "ident name" "0 < ir" "ir < 2 ^ 31" "ops_ok ops" "ops \<noteq> []" "length ids = 32"
    and "4 \<le> sizeof_ulong h" "\<And>n. malloc_ok h n"
  shows "\<exists>info. parse_extract_values h (Some (bsdl_text name ir ops ids)) = Some (Defined (Some info)) \<and>
    bsdl_name info = Some name \<and> bsdl_IR_size info = int ir \<and>
    bsdl_cmds.truncate info = fold apply_op ops
      \<lparr>cmd_debug = TAP_CMD_INVALID, cmd_user1 = TAP_CMD_INVALID, cmd_idcode = TAP_CMD_INVALID\<rparr> \<and>
    (\<forall>i < 32. (bit (bsdl_idcode info) (31 - i) \<longleftrightarrow> ids ! i = Some True) \<and>
              (bit (bsdl_idcode_mask info) (31 - i) \<longleftrightarrow> ids ! i \<noteq> None))"
  using assms by (rule read_bsdl_text)

definition example_ops :: "(u8 list \<times> bool list) list" where
  "example_ops = [(asc ''EXTEST'', [False, False, False]), (asc ''IDCODE'', [True, True, False]), (asc ''user1'', [False, True, False])]"

theorem bsdl_roundtrip_witness:
  "\<exists>info. parse_extract_values x86_64 (Some (bsdl_text (asc ''XC3S'') 3 example_ops (replicate 31 None @ [Some True]))) =
       Some (Defined (Some info)) \<and> bsdl_IR_size info = 3 \<and> cmd_idcode info = 6 \<and> cmd_debug info = TAP_CMD_INVALID"
proof -
  have "ident (asc ''XC3S'')" "ops_ok example_ops" "example_ops \<noteq> []" "4 \<le> sizeof_ulong x86_64" "\<And>n. malloc_ok x86_64 n"
    by (code_simp, code_simp, simp_all add: example_ops_def x86_64_def x86_32_def)
  from bsdl_roundtrip [OF this(1) _ _ this(2,3) _ this(4,5), of 3 "replicate 31 None @ [Some True]"]
  obtain info where info: "parse_extract_values x86_64 (Some (bsdl_text (asc ''XC3S'') 3 example_ops (replicate 31 None @ [Some True]))) =
       Some (Defined (Some info))" "bsdl_IR_size info = 3" "bsdl_cmds.truncate info = fold apply_op example_ops
      \<lparr>cmd_debug = TAP_CMD_INVALID, cmd_user1 = TAP_CMD_INVALID, cmd_idcode = TAP_CMD_INVALID\<rparr>"
    by auto
  have "fold apply_op example_ops \<lparr>cmd_debug = TAP_CMD_INVALID, cmd_user1 = TAP_CMD_INVALID, cmd_idcode = TAP_CMD_INVALID\<rparr> =
      \<lparr>cmd_debug = TAP_CMD_INVALID, cmd_user1 = 2, cmd_idcode = 6\<rparr>"
    by code_simp
  with info show ?thesis by (simp add: bsdl_cmds.truncate_def)
qed

section \<open>Files that are not read as they are meant\<close>

text \<open>No semicolon, no end.\<close>

lemma skip_lines_set: "set (skip_lines data) \<subseteq> set data"
proof (induction data rule: skip_lines.induct)
  case (1 data)
  show ?case
    by (subst skip_lines.simps) (use 1 in \<open>auto simp: Let_def dest: set_dropWhileD\<close>)
qed

lemma get_line_set: "get_line data = (line, rest) \<Longrightarrow> set line \<subseteq> set data \<and> set rest \<subseteq> set data"
proof -
  have cut: "set (cut_comment l) \<subseteq> set l" for l
    by (auto simp: cut_comment_def split: option.split dest: in_set_takeD)
  assume "get_line data = (line, rest)"
  then have "set line \<subseteq> set (skip_lines data) \<and> set rest \<subseteq> set (skip_lines data)"
    using cut by (fastforce simp: get_line_def Let_def split: list.splits if_splits
        dest: set_takeWhileD in_set_butlastD in_set_dropD)
  then show ?thesis using skip_lines_set [of data] by blast
qed

lemma seek_none:
  assumes "c \<notin> set pos" "c \<notin> set rest"
  shows "seek (strchr c) pos rest = None"
proof -
  have chr: "strchr c p = None \<longleftrightarrow> c \<notin> set p" for p
    by (induction p) (auto simp: strchr_def)
  let ?P = "\<lambda>search pos rest (y :: u8 list \<times> u8 list). search = strchr c \<longrightarrow> c \<notin> set pos \<longrightarrow> c \<notin> set rest \<longrightarrow> False"
  have "?P (strchr c) pos rest y" if "seek (strchr c) pos rest = Some y" for y
    using that
  proof (rule seek.raw_induct [where P = ?P, rotated], intro impI, goal_cases)
    case (1 sk search pos rest y)
    obtain line rest' where l: "get_line rest = (line, rest')" by fastforce
    have none: "strchr c pos = None" using \<open>c \<notin> set pos\<close> chr by blast
    then have "sk (strchr c) line rest' = Some y" using 1(2) l \<open>search = strchr c\<close> by simp
    with 1(1) have "c \<in> set line \<or> c \<in> set rest'" by blast
    with get_line_set [OF l] \<open>c \<notin> set rest\<close> show ?case by blast
  qed
  with assms show ?thesis by (cases "seek (strchr c) pos rest") auto
qed

lemma strtok_set: "strtok_r delim str = (tok, save) \<Longrightarrow> set save \<subseteq> set str"
proof -
  assume *: "strtok_r delim str = (tok, save)"
  let ?p = "dropWhile (\<lambda>c. c \<in> set delim) str"
  have "save = [] \<or> save = drop 1 (dropWhile (\<lambda>c. c \<notin> set delim) ?p)"
    using * by (auto simp: strtok_r_def split: list.splits)
  then have "set save \<subseteq> set ?p" by (metis empty_subsetI list.set(1) in_set_dropD set_dropWhileD subsetI)
  then show ?thesis by (meson set_dropWhileD subset_iff)
qed

text \<open>The statements whose contents are not looked at: constants, generics, \<open>use\<close> clauses and the
  attributes of other names.\<close>

definition skipped :: "u8 list \<Rightarrow> u8 list \<Rightarrow> bool" where
  "skipped token pos \<longleftrightarrow> token \<in> {asc ''CONSTANT'', asc ''GENERIC'', asc ''USE''} \<or>
     token = asc ''ATTRIBUTE'' \<and> (case strtok_r [0x20, 9] pos of (None, _) \<Rightarrow> False
       | (Some a, _) \<Rightarrow> strtoupper a \<notin> {asc ''INSTRUCTION_LENGTH'', asc ''INSTRUCTION_OPCODE'', asc ''IDCODE_REGISTER''})"

lemma skipped_hangs:
  assumes "skipped token pos" "0x3b \<notin> set pos" "0x3b \<notin> set (file_rest s)"
  shows "parse_statement h token pos s = None"
proof -
  have none: "seek_end (snd (strtok_r delim pos)) (file_rest s) = None" for delim
    using assms(2,3) strtok_set [of delim pos] by (cases "strtok_r delim pos") (auto simp: seek_end_def intro!: seek_none)
  show ?thesis
    using assms(1) unfolding skipped_def
  proof
    assume "token \<in> {asc ''CONSTANT'', asc ''GENERIC'', asc ''USE''}"
    moreover have "asc ''CONSTANT'' \<noteq> asc ''ENTITY''" "asc ''GENERIC'' \<noteq> asc ''ENTITY''" "asc ''USE'' \<noteq> asc ''ENTITY''"
      "asc ''USE'' \<noteq> asc ''CONSTANT''" "asc ''USE'' \<noteq> asc ''GENERIC''"
      by (simp_all add: asc_def)
    ultimately show ?thesis by (auto simp: parse_statement_def none)
  next
    assume attr: "token = asc ''ATTRIBUTE'' \<and> (case strtok_r [0x20, 9] pos of (None, _) \<Rightarrow> False
       | (Some a, _) \<Rightarrow> strtoupper a \<notin> {asc ''INSTRUCTION_LENGTH'', asc ''INSTRUCTION_OPCODE'', asc ''IDCODE_REGISTER''})"
    then have "parse_statement h token pos s = parse_attribute h pos s"
      by (simp add: parse_statement_def) (simp add: asc_def)
    also have "\<dots> = None"
      using attr none [of "[0x20, 9]"]
      by (auto simp: parse_attribute_def Let_def split: prod.splits option.splits)
    finally show ?thesis .
  qed
qed

text \<open>The reader comes from one state of its loop to a later one, over statements that are complete.\<close>

definition more_to_read :: "bsdl_scan \<Rightarrow> u8 list \<Rightarrow> u8 list \<Rightarrow> bsdl_scan \<Rightarrow> bool" where
  "more_to_read s token pos s' \<longleftrightarrow> file_rest s \<noteq> [] \<and> (\<not> found_IR_size s \<or> \<not> found_cmds s \<or> \<not> found_idcode s) \<and>
     (\<exists>line rest tok. get_line (file_rest s) = (line, rest) \<and> strtok_r [0x20, 9] line = (Some tok, pos) \<and>
        token = strtoupper tok \<and> token \<noteq> asc ''END'' \<and> s' = s\<lparr>file_rest := rest\<rparr>)"

inductive reads_to :: "host \<Rightarrow> bsdl_scan \<Rightarrow> bsdl_scan \<Rightarrow> bool" for h where
  Here: "reads_to h s s"
| Statement: "more_to_read s token pos s' \<Longrightarrow> parse_statement h token pos s' = Some (Defined t) \<Longrightarrow>
    reads_to h t u \<Longrightarrow> reads_to h s u"

lemma parse_loop_more:
  "more_to_read s token pos s' \<Longrightarrow> parse_loop h s = and_defined (parse_statement h token pos s') (parse_loop h)"
  by (subst parse_loop.simps) (auto simp: more_to_read_def and_defined_def)

lemma parse_loop_reads: "reads_to h s t \<Longrightarrow> parse_loop h s = parse_loop h t"
  by (induction rule: reads_to.induct) (simp_all add: parse_loop_more)

text \<open>
  C40: The reader does not check for the end of the file inside a statement. When it has come,
  over any number of complete statements, to a constant, a generic, a \<open>use\<close> clause or one of
  the attributes it skips, and there is no semicolon behind it in the file,
  \<open>parse_extract_values\<close> never returns: it takes empty lines from the end of the file for ever.
  (The result None stands for that alone.)
\<close>

theorem unfinished_statement_hangs:
  assumes "malloc_ok h (int (length filedata))" "reads_to h (scan_start filedata) s"
    and "more_to_read s token pos t" "skipped token pos" "0x3b \<notin> set pos" "0x3b \<notin> set (file_rest t)"
  shows "parse_extract_values h (Some filedata) = None"
  using parse_loop_reads [OF assms(2)] parse_loop_more [OF assms(3), of h] skipped_hangs [OF assms(4-6), of h] assms(1)
  by (simp add: parse_extract_values_def)

text \<open>A file that ends inside its second statement.\<close>

theorem unfinished_statement_hangs_witness:
  "parse_extract_values x86_64 (Some (asc ''entity X is'' @ [10] @ asc ''attribute PIN_MAP of X : entity is'')) = None"
proof -
  let ?f = "asc ''entity X is'' @ [10] @ asc ''attribute PIN_MAP of X : entity is''"
  let ?l = "asc ''attribute PIN_MAP of X : entity is''"
  let ?t = "(scan_start ?l)\<lparr>bsdl_name := Some (asc ''X'')\<rparr>"
  have e: "get_line ?f = (asc ''entity X is'', ?l)" "strtok_r [0x20, 9] (asc ''entity X is'') = (Some (asc ''entity''), asc ''X is'')"
    "strtoupper (asc ''entity'') = asc ''ENTITY''" "asc ''ENTITY'' \<noteq> asc ''END''" "?f \<noteq> []"
    "strtok_r [0x20, 9] (asc ''X is'') = (Some (asc ''X''), asc ''is'')"
    by code_simp+
  have a: "get_line ?l = (asc ''attribute PIN_MAP of X : entity i'', [])" "?l \<noteq> []"
    "strtok_r [0x20, 9] (asc ''attribute PIN_MAP of X : entity i'') = (Some (asc ''attribute''), asc ''PIN_MAP of X : entity i'')"
    "strtoupper (asc ''attribute'') = asc ''ATTRIBUTE''" "asc ''ATTRIBUTE'' \<noteq> asc ''END''"
    "skipped (asc ''ATTRIBUTE'') (asc ''PIN_MAP of X : entity i'')" "0x3b \<notin> set (asc ''PIN_MAP of X : entity i'')"
    by code_simp+
  have m1: "more_to_read (scan_start ?f) (asc ''ENTITY'') (asc ''X is'') (scan_start ?l)"
    using e unfolding more_to_read_def by (force simp: scan_start_def)
  have "parse_statement x86_64 (asc ''ENTITY'') (asc ''X is'') (scan_start ?l) = Some (Defined ?t)"
    using e(6) by (simp add: parse_statement_def parse_entity_def x86_64_def x86_32_def)
  from reads_to.Statement [OF m1 this reads_to.Here] have r: "reads_to x86_64 (scan_start ?f) ?t" .
  have m2: "more_to_read ?t (asc ''ATTRIBUTE'') (asc ''PIN_MAP of X : entity i'') (?t\<lparr>file_rest := []\<rparr>)"
    using a unfolding more_to_read_def by (force simp: scan_start_def)
  show ?thesis
    by (rule unfinished_statement_hangs [OF _ r m2 a(6,7)]) (simp_all add: x86_64_def x86_32_def)
qed

text \<open>On the other hand an attribute without a name is no loop but undefined.\<close>

lemma nameless_attribute_undefined:
  "strtok_r [0x20, 9] pos = (None, rest) \<Longrightarrow> parse_statement h (asc ''ATTRIBUTE'') pos s = Some Undefined"
  by (simp add: parse_statement_def parse_attribute_def) (simp add: asc_def)

text \<open>
  After a \<open>use\<close> clause on a line of its own the next statement is lost: the semicolon is
  taken off with the name of the package, and then the next one is looked for. Where an
  attribute follows that says how long the instruction register is, the length stays unknown.
\<close>

theorem use_skips_next:
  assumes "ident p" "line = c # cs" "\<not> is_space c" "\<forall>x \<in> set line. \<not> is_cntrl x \<and> x \<noteq> 0x2d" "0x3b \<in> set line"
    and "\<not> found_IR_size s \<or> \<not> found_cmds s \<or> \<not> found_idcode s"
  shows "parse_loop h (s\<lparr>file_rest := asc ''use '' @ p @ asc '';'' @ [10] @ line @ [10] @ rest\<rparr>) =
    parse_loop h (s\<lparr>file_rest := rest\<rparr>)"
proof -
  have nl: "is_cntrl 10" by (simp add: is_cntrl_def)
  have line1: "get_line (asc ''use '' @ p @ asc '';'' @ [10] @ line @ [10] @ rest) = (asc ''use'' @ 0x20 # p @ asc '';'', line @ [10] @ rest)"
    using get_line_word [of "0x75" "asc ''se '' @ p @ asc '';''" 10 "line @ [10] @ rest"] assms(1)
    by (force simp: asc_def is_space_def is_cntrl_def ident_def)
  have line2: "get_line (line @ [10] @ rest) = (line, rest)"
    using get_line_word [of c cs 10 rest] assms(2-4) nl by (simp add: asc_def)
  have tok1: "strtok_r [0x20, 9] (asc ''use'' @ 0x20 # p @ asc '';'') = (Some (asc ''use''), p @ asc '';'')"
    by (rule strtok_word) (auto simp: asc_def)
  have tok2: "strtok_r [0x20, 9, 0x3b] (p @ asc '';'') = (Some p, [])"
    using strtok_word [of p "[0x20, 9, 0x3b]" "0x3b" "[]"] assms(1) by (auto simp: asc_def ident_def is_space_def)
  have upper: "strtoupper (asc ''use'') = asc ''USE''" "asc ''USE'' \<noteq> asc ''END''" "asc ''USE'' \<noteq> asc ''ENTITY''"
    "asc ''USE'' \<noteq> asc ''CONSTANT''" "asc ''USE'' \<noteq> asc ''GENERIC''" by code_simp+
  have "\<exists>p. strchr 0x3b line = Some p"
    using assms(5) by (induction line) (auto simp: strchr_def split: list.split)
  then have "seek_end [] (line @ [10] @ rest) = Some rest"
    using line2 by (auto simp: seek_end_def seek.simps [of _ "[]"] seek.simps [of _ line] strchr_def [of _ "[]"])
  then show ?thesis
    using assms(6) line1
    by (subst parse_loop.simps) (auto simp: asc_def [of "''use ''"] tok1 tok2 upper parse_statement_def Let_def)
qed

theorem use_skips_next_witness:
  "\<exists>s. parse_loop x86_64 (scan_start (asc ''use '' @ asc ''STD_1149_1'' @ asc '';'' @ [10] @
     asc ''attribute INSTRUCTION_LENGTH of X : entity is 3;'' @ [10] @ asc ''end X;'')) = Some (Defined s) \<and>
     bsdl_IR_size s = -1 \<and> \<not> found_IR_size s"
proof -
  let ?line = "asc ''attribute INSTRUCTION_LENGTH of X : entity is 3;''"
  have "ident (asc ''STD_1149_1'')" "\<forall>x \<in> set ?line. \<not> is_cntrl x \<and> x \<noteq> 0x2d" "0x3b \<in> set ?line" "\<not> is_space 0x61"
    by code_simp+
  moreover have "?line = 0x61 # asc ''ttribute INSTRUCTION_LENGTH of X : entity is 3;''" by code_simp
  ultimately have "parse_loop x86_64 (scan_start (asc ''use '' @ asc ''STD_1149_1'' @ asc '';'' @ [10] @ ?line @ [10] @ asc ''end X;'')) =
      parse_loop x86_64 (scan_start (asc ''end X;''))"
    using use_skips_next [of "asc ''STD_1149_1''" ?line "0x61" "asc ''ttribute INSTRUCTION_LENGTH of X : entity is 3;''" "scan_start []" x86_64 "asc ''end X;''"]
    by (simp add: scan_start_def)
  moreover have "get_line (asc ''end X;'') = (asc ''end X'', [])" "strtok_r [0x20, 9] (asc ''end X'') = (Some (asc ''end''), asc ''X'')"
    "strtoupper (asc ''end'') = asc ''END''"
    by code_simp+
  then have "parse_loop x86_64 (scan_start (asc ''end X;'')) = Some (Defined (scan_start []))"
    by (subst parse_loop.simps) (simp add: scan_start_def)
  ultimately show ?thesis by (simp add: scan_start_def)
qed

end
