(* ===== verification/Bsdl_Search.thy ===== *)
theory Bsdl_Search
  imports Bsdl_Parse
begin

text \<open>
  The search for BSDL files (\<^verbatim>\<open>bsdl.c\<close>). The files of several directories are parsed lazily: a
  question about an ID code looks at the descriptions it has, and goes on parsing where the
  last question stopped until it finds one that matches.

  The file system is a parameter: the names in a directory in the order \<open>readdir\<close> gives them,
  and the contents of the files. It does not change while the program runs, and \<open>strdup\<close> does
  not fail. The result None is a parser that does not return or does something undefined, or a
  path that overruns the scratchpad.
\<close>

record file_system =
  fs_opendir :: "u8 list \<Rightarrow> u8 list list option"
  fs_fopen :: "u8 list \<Rightarrow> u8 list option"

text \<open>Nodes of the list of descriptions do not change, so a pointer to one is its position.\<close>

record bsdl =
  bsdl_dirs :: "nat \<Rightarrow> u8 list"
  bsdl_current_dir :: int
  bsdl_open_dir :: "u8 list list option"
  bsdl_list :: "bsdlinfo list"
  bsdl_last :: "nat option"
  bsdl_scratchpad_size :: nat

definition MAX_BSDL_DIRS :: int where [const_simps]: "MAX_BSDL_DIRS = 64"
definition IDCODE_INVALID :: u32 where [const_simps]: "IDCODE_INVALID = 0xFFFFFFFF"

section \<open>Operations\<close>

definition bsdl_init :: "bsdl \<Rightarrow> bsdl" where
  "bsdl_init s = s\<lparr>bsdl_dirs := (bsdl_dirs s)(0 := asc ''/opt/bsdl'', 1 := asc ''/usr/share/bsdl'',
       2 := asc ''~/.bsdl'', 3 := asc ''.''),
     bsdl_current_dir := 3, bsdl_scratchpad_size := 64\<rparr>"

definition bsdl_add_directory :: "u8 list \<Rightarrow> bsdl \<Rightarrow> bsdl" where
  "bsdl_add_directory dirname s =
     (if bsdl_current_dir s \<ge> MAX_BSDL_DIRS - 1 then s
      else let n = bsdl_current_dir s + 1
           in s\<lparr>bsdl_current_dir := n, bsdl_dirs := (bsdl_dirs s)(nat n := dirname)\<rparr>)"

definition info_matches :: "u32 \<Rightarrow> bsdlinfo \<Rightarrow> bool" where
  "info_matches idcode ptr \<longleftrightarrow> bsdl_idcode ptr AND bsdl_idcode_mask ptr = idcode AND bsdl_idcode_mask ptr"

fun first_match :: "u32 \<Rightarrow> bsdlinfo list \<Rightarrow> nat option" where
  "first_match idcode [] = None"
| "first_match idcode (ptr # list) =
     (if info_matches idcode ptr then Some 0 else map_option Suc (first_match idcode list))"

definition strrchr :: "u8 \<Rightarrow> u8 list \<Rightarrow> u8 list option" where
  "strrchr c str = (if c \<in> set str then Some (c # rev (takeWhile (\<lambda>d. d \<noteq> c) (rev str))) else None)"

definition is_bsdl_file :: "u8 list \<Rightarrow> bool" where
  "is_bsdl_file d_name = (case strrchr 0x2e d_name of None \<Rightarrow> False
     | Some c \<Rightarrow> c = asc ''.bsd'' \<or> c = asc ''.bsdl'' \<or> c = asc ''.BSD'' \<or> c = asc ''.BSDL'')"

definition full_path :: "u8 list \<Rightarrow> u8 list \<Rightarrow> u8 list" where
  "full_path dir d_name = dir @ asc ''/'' @ d_name"

text \<open>Room for the path in the scratchpad: the size it has then, or None when \<open>realloc\<close> fails. It is
  doubled once.\<close>

definition grow_scratchpad :: "host \<Rightarrow> nat \<Rightarrow> nat \<Rightarrow> nat option" where
  "grow_scratchpad h needed pad =
     (if needed \<ge> pad then (if malloc_ok h (int (pad * 2)) then Some (pad * 2) else None) else Some pad)"

text \<open>The loop over directories and files. A directory that cannot be opened is passed by.\<close>

function parse_files :: "host \<Rightarrow> file_system \<Rightarrow> u32 \<Rightarrow> bsdl \<Rightarrow> (bsdlinfo option \<times> bsdl) option" where
  "parse_files h fs idcode s =
     (case bsdl_open_dir s of
        None \<Rightarrow>
          if bsdl_current_dir s < 0 then Some (None, s)
          else parse_files h fs idcode (s\<lparr>bsdl_open_dir := fs_opendir fs (bsdl_dirs s (nat (bsdl_current_dir s))),
            bsdl_current_dir := bsdl_current_dir s - 1\<rparr>)
      | Some [] \<Rightarrow> parse_files h fs idcode (s\<lparr>bsdl_open_dir := None\<rparr>)
      | Some (d_name # entries) \<Rightarrow>
          let s = s\<lparr>bsdl_open_dir := Some entries\<rparr>;
              dir = bsdl_dirs s (nat (bsdl_current_dir s + 1));
              needed = length d_name + length dir + 2
          in if \<not> is_bsdl_file d_name then parse_files h fs idcode s
             else case grow_scratchpad h needed (bsdl_scratchpad_size s) of
                 None \<Rightarrow> parse_files h fs idcode s
               | Some pad \<Rightarrow>
                   if needed > pad then None
                   else let s = s\<lparr>bsdl_scratchpad_size := pad\<rparr>
                        in case parse_extract_values h (fs_fopen fs (full_path dir d_name)) of
                            None \<Rightarrow> None
                          | Some Undefined \<Rightarrow> None
                          | Some (Defined None) \<Rightarrow> parse_files h fs idcode s
                          | Some (Defined (Some ptr)) \<Rightarrow>
                              let s = s\<lparr>bsdl_list := bsdl_list s @ [ptr]\<rparr>
                              in if info_matches idcode ptr
                                 then Some (Some ptr, s\<lparr>bsdl_last := Some (length (bsdl_list s) - 1)\<rparr>)
                                 else parse_files h fs idcode s)"
  by pat_completeness auto
termination
  by (relation "measures [\<lambda>(h, fs, idcode, s). nat (bsdl_current_dir s + 1),
      \<lambda>(h, fs, idcode, s). case bsdl_open_dir s of None \<Rightarrow> 0 | Some entries \<Rightarrow> Suc (length entries)]") auto

declare parse_files.simps [simp del]

definition get_bsdl_info :: "host \<Rightarrow> file_system \<Rightarrow> u32 \<Rightarrow> bsdl \<Rightarrow> (bsdlinfo option \<times> bsdl) option" where
  "get_bsdl_info h fs idcode s =
     (case bsdl_last s of
        Some i \<Rightarrow> if info_matches idcode (bsdl_list s ! i) then Some (Some (bsdl_list s ! i), s)
          else (case first_match idcode (bsdl_list s) of
              Some j \<Rightarrow> Some (Some (bsdl_list s ! j), s\<lparr>bsdl_last := Some j\<rparr>)
            | None \<Rightarrow> parse_files h fs idcode s)
      | None \<Rightarrow> (case first_match idcode (bsdl_list s) of
            Some j \<Rightarrow> Some (Some (bsdl_list s ! j), s\<lparr>bsdl_last := Some j\<rparr>)
          | None \<Rightarrow> parse_files h fs idcode s))"

definition bsdl_get :: "(bsdlinfo \<Rightarrow> 'a) \<Rightarrow> 'a \<Rightarrow> host \<Rightarrow> file_system \<Rightarrow> u32 \<Rightarrow> bsdl \<Rightarrow> ('a \<times> bsdl) option" where
  "bsdl_get field dflt h fs idcode s = do {
     (info, s) \<leftarrow> get_bsdl_info h fs idcode s;
     Some (case info of Some i \<Rightarrow> field i | None \<Rightarrow> dflt, s) }"

definition bsdl_get_name :: "host \<Rightarrow> file_system \<Rightarrow> u32 \<Rightarrow> bsdl \<Rightarrow> (u8 list option \<times> bsdl) option" where
  "bsdl_get_name = bsdl_get bsdl_name None"

definition bsdl_get_IR_size :: "host \<Rightarrow> file_system \<Rightarrow> u32 \<Rightarrow> bsdl \<Rightarrow> (int \<times> bsdl) option" where
  "bsdl_get_IR_size = bsdl_get bsdl_IR_size (-1)"

definition bsdl_get_debug_cmd :: "host \<Rightarrow> file_system \<Rightarrow> u32 \<Rightarrow> bsdl \<Rightarrow> (u32 \<times> bsdl) option" where
  "bsdl_get_debug_cmd = bsdl_get cmd_debug TAP_CMD_INVALID"

definition bsdl_get_user1_cmd :: "host \<Rightarrow> file_system \<Rightarrow> u32 \<Rightarrow> bsdl \<Rightarrow> (u32 \<times> bsdl) option" where
  "bsdl_get_user1_cmd = bsdl_get cmd_user1 TAP_CMD_INVALID"

definition bsdl_get_idcode_cmd :: "host \<Rightarrow> file_system \<Rightarrow> u32 \<Rightarrow> bsdl \<Rightarrow> (u32 \<times> bsdl) option" where
  "bsdl_get_idcode_cmd = bsdl_get cmd_idcode TAP_CMD_INVALID"

section \<open>Asking a catalogue\<close>

text \<open>What the rest of the program relies on: behind the state stands a fixed collection of entries,
  an answer is one of them that fits, and there is no answer only if none fits.\<close>

locale catalogue =
  fixes ask :: "'k \<Rightarrow> 's \<Rightarrow> ('v option \<times> 's) option" and entries :: "'s \<Rightarrow> 'v list"
    and fits :: "'k \<Rightarrow> 'v \<Rightarrow> bool" and wf :: "'s \<Rightarrow> bool"
  assumes ask: "wf s \<Longrightarrow> \<exists>r t. ask k s = Some (r, t) \<and> wf t \<and> entries t = entries s \<and>
      (case r of None \<Rightarrow> \<forall>v \<in> set (entries s). \<not> fits k v | Some v \<Rightarrow> v \<in> set (entries s) \<and> fits k v)"

fun ask_all :: "('k \<Rightarrow> 's \<Rightarrow> ('v option \<times> 's) option) \<Rightarrow> 'k list \<Rightarrow> 's \<Rightarrow> ('v option list \<times> 's) option" where
  "ask_all ask [] s = Some ([], s)"
| "ask_all ask (k # ks) s = do { (r, s) \<leftarrow> ask k s; (rs, s) \<leftarrow> ask_all ask ks s; Some (r # rs, s) }"

context catalogue
begin

definition answers :: "'v list \<Rightarrow> 'k \<Rightarrow> 'v option \<Rightarrow> bool" where
  "answers vs k r \<longleftrightarrow> (case r of None \<Rightarrow> \<forall>v \<in> set vs. \<not> fits k v | Some v \<Rightarrow> v \<in> set vs \<and> fits k v)"

lemma ask_all_answers:
  "wf s \<Longrightarrow> \<exists>rs t. ask_all ask ks s = Some (rs, t) \<and> wf t \<and> entries t = entries s \<and>
     list_all2 (answers (entries s)) ks rs"
proof (induction ks arbitrary: s)
  case (Cons k ks)
  obtain r t where t: "ask k s = Some (r, t)" "wf t" "entries t = entries s" "answers (entries s) k r"
    using ask [OF Cons.prems, of k] by (auto simp: answers_def)
  with Cons.IH [OF t(2)] show ?case by fastforce
qed simp

text \<open>One entry fits: it is the answer.\<close>

lemma ask_unique:
  "wf s \<Longrightarrow> v \<in> set (entries s) \<Longrightarrow> fits k v \<Longrightarrow> (\<And>u. u \<in> set (entries s) \<Longrightarrow> fits k u \<Longrightarrow> u = v) \<Longrightarrow>
     \<exists>t. ask k s = Some (Some v, t) \<and> wf t \<and> entries t = entries s"
  using ask [of s k] by (metis (mono_tags, lifting) not_None_eq option.simps(4,5))

end

section \<open>The descriptions behind the state\<close>

definition file_info :: "host \<Rightarrow> file_system \<Rightarrow> u8 list \<Rightarrow> u8 list \<Rightarrow> bsdlinfo list" where
  "file_info h fs dir d_name =
     (if is_bsdl_file d_name
      then case parse_extract_values h (fs_fopen fs (full_path dir d_name)) of Some (Defined (Some ptr)) \<Rightarrow> [ptr] | _ \<Rightarrow> []
      else [])"

definition dir_infos :: "host \<Rightarrow> file_system \<Rightarrow> u8 list \<Rightarrow> u8 list list option \<Rightarrow> bsdlinfo list" where
  "dir_infos h fs dir entries = (case entries of None \<Rightarrow> [] | Some ns \<Rightarrow> concat (map (file_info h fs dir) ns))"

definition open_name :: "bsdl \<Rightarrow> u8 list" where
  "open_name s = bsdl_dirs s (nat (bsdl_current_dir s + 1))"

definition bsdl_library :: "host \<Rightarrow> file_system \<Rightarrow> bsdl \<Rightarrow> bsdlinfo list" where
  "bsdl_library h fs s = bsdl_list s @ dir_infos h fs (open_name s) (bsdl_open_dir s) @
     concat (map (\<lambda>k. dir_infos h fs (bsdl_dirs s k) (fs_opendir fs (bsdl_dirs s k))) (rev [0..<nat (bsdl_current_dir s + 1)]))"

text \<open>Every BSDL file that is still to come has a path that fits, and the parser returns on it.\<close>

definition readable :: "host \<Rightarrow> file_system \<Rightarrow> u8 list \<Rightarrow> u8 list list option \<Rightarrow> bool" where
  "readable h fs dir entries \<longleftrightarrow> (\<forall>ns d_name. entries = Some ns \<longrightarrow> d_name \<in> set ns \<longrightarrow> is_bsdl_file d_name \<longrightarrow>
     length d_name + length dir + 2 < 64 \<and> (\<exists>r. parse_extract_values h (fs_fopen fs (full_path dir d_name)) = Some (Defined r)))"

definition bsdl_wf :: "host \<Rightarrow> file_system \<Rightarrow> bsdl \<Rightarrow> bool" where
  "bsdl_wf h fs s \<longleftrightarrow> (\<forall>i. bsdl_last s = Some i \<longrightarrow> i < length (bsdl_list s)) \<and> 64 \<le> bsdl_scratchpad_size s \<and>
     readable h fs (open_name s) (bsdl_open_dir s) \<and>
     (\<forall>k < nat (bsdl_current_dir s + 1). readable h fs (bsdl_dirs s k) (fs_opendir fs (bsdl_dirs s k)))"

lemma first_match_Some: "first_match k l = Some j \<Longrightarrow> j < length l \<and> info_matches k (l ! j)"
  by (induction l arbitrary: j) (auto split: if_splits)

lemma first_match_None: "first_match k l = None \<longleftrightarrow> (\<forall>i \<in> set l. \<not> info_matches k i)"
  by (induction l) auto

text \<open>A result that answers the question \<open>k\<close> from the library \<open>lib\<close> and keeps it.\<close>

definition answered :: "host \<Rightarrow> file_system \<Rightarrow> bsdlinfo list \<Rightarrow> u32 \<Rightarrow> (bsdlinfo option \<times> bsdl) option \<Rightarrow> bool" where
  "answered h fs lib k m \<longleftrightarrow> (\<exists>r t. m = Some (r, t) \<and> bsdl_wf h fs t \<and> bsdl_library h fs t = lib \<and>
     (case r of None \<Rightarrow> \<forall>v \<in> set lib. \<not> info_matches k v | Some v \<Rightarrow> v \<in> set lib \<and> info_matches k v))"

text \<open>The search loop answers from what is still to come.\<close>

lemma parse_files_answers:
  assumes "bsdl_wf h fs s" "\<forall>i \<in> set (bsdl_list s). \<not> info_matches k i"
  shows "answered h fs (bsdl_library h fs s) k (parse_files h fs k s)"
  using assms
proof (induction h fs k s rule: parse_files.induct)
  case (1 h fs k s)
  show ?case
  proof (cases "bsdl_open_dir s")
    case None
    show ?thesis
    proof (cases "bsdl_current_dir s < 0")
      case True
      with None "1.prems" show ?thesis
        by (subst parse_files.simps) (simp add: bsdl_library_def dir_infos_def answered_def)
    next
      case False
      let ?t = "s\<lparr>bsdl_open_dir := fs_opendir fs (bsdl_dirs s (nat (bsdl_current_dir s))),
        bsdl_current_dir := bsdl_current_dir s - 1\<rparr>"
      have n: "nat (bsdl_current_dir s + 1) = Suc (nat (bsdl_current_dir s))" using False by simp
      have "bsdl_wf h fs ?t" using "1.prems"(1) None False by (auto simp: bsdl_wf_def open_name_def n)
      moreover have "bsdl_library h fs ?t = bsdl_library h fs s"
        using None False by (simp add: bsdl_library_def open_name_def n dir_infos_def)
      moreover have "parse_files h fs k s = parse_files h fs k ?t"
        using None False by (subst parse_files.simps) simp
      ultimately show ?thesis using "1.IH"(1) [OF None False] "1.prems"(2) by simp
    qed
  next
    case (Some names)
    show ?thesis
    proof (cases names)
      case Nil
      let ?t = "s\<lparr>bsdl_open_dir := None\<rparr>"
      have "bsdl_wf h fs ?t" using "1.prems"(1) by (auto simp: bsdl_wf_def open_name_def readable_def)
      moreover have "bsdl_library h fs ?t = bsdl_library h fs s"
        using Some Nil by (simp add: bsdl_library_def open_name_def dir_infos_def)
      moreover have "parse_files h fs k s = parse_files h fs k ?t"
        using Some Nil by (subst parse_files.simps) simp
      ultimately show ?thesis using "1.IH"(2) [OF Some Nil] "1.prems"(2) by simp
    next
      case (Cons d_name entries)
      let ?s = "s\<lparr>bsdl_open_dir := Some entries\<rparr>"
      let ?dir = "bsdl_dirs ?s (nat (bsdl_current_dir ?s + 1))"
      let ?needed = "length d_name + length ?dir + 2"
      note IH = "1.IH"(3-) [OF Some Cons refl refl refl]
      have dir: "?dir = open_name s" by (simp add: open_name_def)
      have wf: "bsdl_wf h fs ?s"
        using "1.prems"(1) Some Cons by (auto simp: bsdl_wf_def open_name_def readable_def)
      have lib: "bsdl_library h fs s = bsdl_list s @ file_info h fs ?dir d_name @
          (dir_infos h fs ?dir (Some entries) @ concat (map (\<lambda>k. dir_infos h fs (bsdl_dirs s k) (fs_opendir fs (bsdl_dirs s k)))
            (rev [0..<nat (bsdl_current_dir s + 1)])))"
        using Some Cons by (simp add: bsdl_library_def open_name_def dir_infos_def)
      show ?thesis
      proof (cases "is_bsdl_file d_name")
        case False
        then have "parse_files h fs k s = parse_files h fs k ?s"
          using Some Cons by (subst parse_files.simps) (simp add: Let_def)
        moreover have "bsdl_library h fs ?s = bsdl_library h fs s"
          unfolding lib using False by (simp add: file_info_def bsdl_library_def open_name_def)
        ultimately show ?thesis using IH(1) [OF False wf] "1.prems"(2) by simp
      next
        case True
        with "1.prems"(1) Some Cons have ok: "?needed < 64" "64 \<le> bsdl_scratchpad_size s"
            "\<exists>r. parse_extract_values h (fs_fopen fs (full_path ?dir d_name)) = Some (Defined r)"
          by (auto simp: bsdl_wf_def readable_def open_name_def)
        then have pad: "grow_scratchpad h ?needed (bsdl_scratchpad_size ?s) = Some (bsdl_scratchpad_size s)"
          "\<not> ?needed > bsdl_scratchpad_size s"
          by (simp_all add: grow_scratchpad_def)
        have s: "?s\<lparr>bsdl_scratchpad_size := bsdl_scratchpad_size s\<rparr> = ?s" by simp
        obtain r where r: "parse_extract_values h (fs_fopen fs (full_path ?dir d_name)) = Some (Defined r)"
          using ok(3) by auto
        show ?thesis
        proof (cases r)
          case None
          then have "parse_files h fs k s = parse_files h fs k ?s"
            using Some Cons True pad r s by (subst parse_files.simps) (simp add: Let_def)
          moreover have "bsdl_library h fs ?s = bsdl_library h fs s"
            unfolding lib using None r by (simp add: file_info_def bsdl_library_def open_name_def)
          ultimately show ?thesis using IH(3) [of "bsdl_scratchpad_size s"] True pad r None wf "1.prems"(2) by simp
        next
          case info: (Some ptr)
          let ?t = "?s\<lparr>bsdl_list := bsdl_list s @ [ptr]\<rparr>"
          have wf': "bsdl_wf h fs ?t" using wf by (auto simp: bsdl_wf_def open_name_def)
          have lib': "bsdl_library h fs ?t = bsdl_library h fs s"
            unfolding lib using info r True by (simp add: file_info_def bsdl_library_def open_name_def)
          show ?thesis
          proof (cases "info_matches k ptr")
            case match: True
            let ?u = "?t\<lparr>bsdl_last := Some (length (bsdl_list s))\<rparr>"
            have "parse_files h fs k s = Some (Some ptr, ?u)"
              using Some Cons True pad r s info match by (subst parse_files.simps) (simp add: Let_def)
            moreover have "bsdl_wf h fs ?u" using wf' by (auto simp: bsdl_wf_def open_name_def)
            moreover have "bsdl_library h fs ?u = bsdl_library h fs s"
              using lib' by (simp add: bsdl_library_def open_name_def)
            moreover have "ptr \<in> set (bsdl_library h fs s)"
              unfolding lib' [symmetric] by (simp add: bsdl_library_def)
            ultimately show ?thesis using match by (simp add: answered_def)
          next
            case no: False
            then have "parse_files h fs k s = parse_files h fs k ?t"
              using Some Cons True pad r s info by (subst parse_files.simps) (simp add: Let_def)
            then show ?thesis
              using IH(4) [of "bsdl_scratchpad_size s" ?s "Defined r" r ptr ?t] True pad r info no wf' lib' "1.prems"(2) by simp
          qed
        qed
      qed
    qed
  qed
qed

lemma get_bsdl_info_answers:
  assumes "bsdl_wf h fs s"
  shows "answered h fs (bsdl_library h fs s) k (get_bsdl_info h fs k s)"
proof -
  have known: "answered h fs (bsdl_library h fs s) k (Some (Some (bsdl_list s ! j), s\<lparr>bsdl_last := Some j\<rparr>))"
    if "j < length (bsdl_list s)" "info_matches k (bsdl_list s ! j)" for j
    using assms that by (auto simp: answered_def bsdl_wf_def open_name_def bsdl_library_def)
  have search: "answered h fs (bsdl_library h fs s) k (case first_match k (bsdl_list s) of
      Some j \<Rightarrow> Some (Some (bsdl_list s ! j), s\<lparr>bsdl_last := Some j\<rparr>) | None \<Rightarrow> parse_files h fs k s)"
    using known first_match_Some parse_files_answers [OF assms] first_match_None
    by (auto split: option.split)
  show ?thesis
  proof (cases "bsdl_last s")
    case None
    then show ?thesis using search by (simp add: get_bsdl_info_def)
  next
    case (Some i)
    then have i: "i < length (bsdl_list s)" "s\<lparr>bsdl_last := Some i\<rparr> = s" using assms by (auto simp: bsdl_wf_def)
    with known [of i] search Some show ?thesis by (simp add: get_bsdl_info_def)
  qed
qed

interpretation files: catalogue "get_bsdl_info h fs" "bsdl_library h fs" info_matches "bsdl_wf h fs" for h fs
  by unfold_locales (use get_bsdl_info_answers in \<open>simp add: answered_def\<close>)

text \<open>
  C38: The lazy search is complete and sound. Let the library be the descriptions that are known and
  those in the files of all directories still to be read, in reverse order of the
  directories. Then any sequence of questions about ID codes comes back, each with a
  description of the library that matches the code, or with none when there is no such
  description; and the library stays the same, whatever has been parsed and remembered on the
  way.
\<close>

theorem bsdl_answers:
  assumes "bsdl_wf h fs s"
  shows "\<exists>rs t. ask_all (get_bsdl_info h fs) codes s = Some (rs, t) \<and> bsdl_library h fs t = bsdl_library h fs s \<and>
    list_all2 (\<lambda>code r. case r of
        None \<Rightarrow> \<forall>info \<in> set (bsdl_library h fs s). \<not> info_matches code info
      | Some info \<Rightarrow> info \<in> set (bsdl_library h fs s) \<and> info_matches code info) codes rs"
  using files.ask_all_answers [OF assms, of codes] unfolding files.answers_def by blast

text \<open>One directory with one BSDL file, for a device whose ID code begins with 1.\<close>

definition example_file :: "u8 list" where
  "example_file = asc ''attribute IDCODE_REGISTER of X : entity is '' @ [0x22, 0x31, 0x22] @ asc '';'' @ [10] @ asc ''end X;''"

definition example_info :: bsdlinfo where
  "example_info = \<lparr>cmd_debug = TAP_CMD_INVALID, cmd_user1 = TAP_CMD_INVALID, cmd_idcode = TAP_CMD_INVALID,
     bsdl_name = None, bsdl_idcode = 0x80000000, bsdl_idcode_mask = 0xFFFFFFFF, bsdl_IR_size = -1\<rparr>"

definition example_fs :: file_system where
  "example_fs = \<lparr>fs_opendir = \<lambda>d. if d = asc ''.'' then Some [asc ''README'', asc ''x.bsd''] else None,
     fs_fopen = \<lambda>p. if p = asc ''./x.bsd'' then Some example_file else None\<rparr>"

definition example_bsdl :: bsdl where
  "example_bsdl = bsdl_init \<lparr>bsdl_dirs = \<lambda>_. [], bsdl_current_dir = 0, bsdl_open_dir = None, bsdl_list = [],
     bsdl_last = None, bsdl_scratchpad_size = 0\<rparr>"

lemma example_file_parsed: "parse_extract_values x86_64 (Some example_file) = Some (Defined (Some example_info))"
  by code_simp

lemma example_bsdl_wf: "bsdl_wf x86_64 example_fs example_bsdl"
proof -
  have "\<not> is_bsdl_file (asc ''README'')" "full_path (asc ''.'') (asc ''x.bsd'') = asc ''./x.bsd''"
    "length (asc ''x.bsd'') + length (asc ''.'') + 2 < 64" by code_simp+
  then have "readable x86_64 example_fs dir (fs_opendir example_fs dir)" for dir
    using example_file_parsed by (auto simp: readable_def example_fs_def)
  then show ?thesis by (simp add: bsdl_wf_def example_bsdl_def bsdl_init_def) (simp add: readable_def)
qed

lemma example_library: "bsdl_library x86_64 example_fs example_bsdl = [example_info]"
proof -
  have "\<not> is_bsdl_file (asc ''README'')" "is_bsdl_file (asc ''x.bsd'')" "full_path (asc ''.'') (asc ''x.bsd'') = asc ''./x.bsd''"
    "asc ''~/.bsdl'' \<noteq> asc ''.''" "asc ''/usr/share/bsdl'' \<noteq> asc ''.''" "asc ''/opt/bsdl'' \<noteq> asc ''.''"
    by code_simp+
  then show ?thesis
    by (simp add: bsdl_library_def example_bsdl_def bsdl_init_def dir_infos_def example_fs_def file_info_def
        example_file_parsed upt_rec)
qed

theorem bsdl_answers_witness:
  "\<exists>t. ask_all (get_bsdl_info x86_64 example_fs) [0x80000000, 1] example_bsdl = Some ([Some example_info, None], t)"
proof -
  have "info_matches 0x80000000 example_info" "\<not> info_matches 1 example_info" by code_simp+
  with bsdl_answers [OF example_bsdl_wf, of "[0x80000000, 1]"] show ?thesis
    by (auto simp: example_library list_all2_Cons1 split: option.splits)
qed

text \<open>The scratchpad is doubled once only: a path more than twice its size is written behind its end.\<close>

lemma long_path_overruns:
  assumes "bsdl_open_dir s = Some (d_name # entries)" "is_bsdl_file d_name"
    and "length d_name + length (open_name s) + 2 > 2 * bsdl_scratchpad_size s" "malloc_ok h (int (bsdl_scratchpad_size s * 2))"
  shows "parse_files h fs k s = None"
  using assms by (subst parse_files.simps) (simp add: open_name_def grow_scratchpad_def Let_def mult.commute)

end
