(* ===== verification/Bridge_Config.thy ===== *)
theory Bridge_Config
  imports Bsdl_Search Jtag_Enum Dbg_Api
begin

text \<open>
  The configuration of the scan chain at the start of the program (\<open>configure_chain\<close> in
  \<^verbatim>\<open>adv_jtag_bridge.c\<close>): it enumerates the chain, asks the BSDL files and the command line what
  the devices are like, tells the scan-chain layer where the target is, and puts the target's
  debug command into its instruction register.

  Here the BSDL files, the enumeration and the operations on the TAP meet. The locale
  \<open>chip_chain\<close> is a cable with a chain of chips that is seen both as the data registers the
  enumeration reads and as the instruction registers the TAP operations write.
\<close>

section \<open>State\<close>

text \<open>The options of the command line; \<open>idcodes\<close> with \<open>num_devices\<close> is the list \<open>device_ids\<close>, and
  \<open>cmd_line_ir_sizes\<close> with \<open>num_ir_sets\<close> the list \<open>ir_sets\<close>.\<close>

record bridge_opts =
  target_dev_pos :: u32
  do_selftest :: bool
  ir_reallocs :: nat
  ir_sets :: "(int \<times> int) list"
  cmd_line_cmd_debug :: int
  rsp_port :: "u8 list option"
  jsp_port :: "u8 list option"
  hwp_port :: "u8 list option"
  force_alt_vjtag :: int

record 'c bridge = bridge_opts +
  device_ids :: "u32 list"
  bsdl_files :: bsdl
  jtag :: "'c chain"

definition ALTERA_MANUFACTURER_ID :: u32 where [const_simps]: "ALTERA_MANUFACTURER_ID = 0x6E"
definition XILINX_MANUFACTURER_ID :: u32 where [const_simps]: "XILINX_MANUFACTURER_ID = 0x49"

definition on_jtag :: "('c chain \<Rightarrow> 'c chain) \<Rightarrow> 'c bridge \<Rightarrow> 'c bridge" where
  "on_jtag f s = s\<lparr>jtag := f (jtag s)\<rparr>"

definition ask_bsdl :: "(u32 \<Rightarrow> bsdl \<Rightarrow> ('a \<times> bsdl) option) \<Rightarrow> u32 \<Rightarrow> 'c bridge \<Rightarrow> ('a \<times> 'c bridge) outcome" where
  "ask_bsdl f idcode s = and_then (if_returns (f idcode (bsdl_files s)))
     (\<lambda>(r, db). Returns (r, s\<lparr>bsdl_files := db\<rparr>))"

definition device_id :: "int \<Rightarrow> 'c bridge \<Rightarrow> u32" where
  "device_id devidx s = device_ids s ! nat devidx"

definition manuf_id :: "u32 \<Rightarrow> u32" where
  "manuf_id idcode = drop_bit 1 idcode AND 0x7FF"

section \<open>What the devices are like\<close>

text \<open>The length of an instruction register: the last setting of the command line for the device,
  else what the BSDL files say.\<close>

definition get_IR_size :: "host \<Rightarrow> file_system \<Rightarrow> int \<Rightarrow> 'c bridge \<Rightarrow> (int \<times> 'c bridge) outcome" where
  "get_IR_size h fs devidx s =
     and_then (if device_id devidx s \<noteq> IDCODE_INVALID then ask_bsdl (bsdl_get_IR_size h fs) (device_id devidx s) s
               else Returns (-1, s))
       (\<lambda>(retval, s).
          let retval = fold (\<lambda>(dev_index, ir_length) r. if dev_index = devidx then ir_length else r) (ir_sets s) retval
          in if retval < 0 then Exits 1 else Returns (retval, s))"

definition get_debug_cmd :: "host \<Rightarrow> file_system \<Rightarrow> int \<Rightarrow> 'c bridge \<Rightarrow> (u32 \<times> 'c bridge) outcome" where
  "get_debug_cmd h fs devidx s =
     (let idcode = device_id devidx s
      in and_then
           (if idcode \<noteq> IDCODE_INVALID
            then if manuf_id idcode = XILINX_MANUFACTURER_ID then ask_bsdl (bsdl_get_user1_cmd h fs) idcode s
                 else ask_bsdl (bsdl_get_debug_cmd h fs) idcode s
            else Returns (TAP_CMD_INVALID, s))
           (\<lambda>(retval, s). Returns (if cmd_line_cmd_debug s \<ge> 0 then word_of_int (cmd_line_cmd_debug s) else retval, s)))"

section \<open>The steps of \<open>configure_chain\<close>\<close>

definition enumerate_devices :: "host \<Rightarrow> 'c jtag_cable \<Rightarrow> 'c bridge \<Rightarrow> 'c bridge outcome" where
  "enumerate_devices h cb s =
     (let (e1, c) = tap_reset cb (jtag s);
          ((e2, codes), c) = jtag_enumerate_chain h cb c
      in if e1 OR e2 \<noteq> APP_ERR_NONE then Exits 1
         else Returns (s\<lparr>jtag := c, device_ids := (case codes of Some ids \<Rightarrow> ids | None \<Rightarrow> [])\<rparr>))"

text \<open>The table of the devices is printed, which asks for the name and the length of each.\<close>

fun list_devices :: "host \<Rightarrow> file_system \<Rightarrow> u32 list \<Rightarrow> 'c bridge \<Rightarrow> 'c bridge outcome" where
  "list_devices h fs [] s = Returns s"
| "list_devices h fs (idcode # ids) s =
     (if idcode = IDCODE_INVALID then list_devices h fs ids s
      else and_then (ask_bsdl (bsdl_get_name h fs) idcode s) (\<lambda>(_, s).
           and_then (ask_bsdl (bsdl_get_IR_size h fs) idcode s) (\<lambda>(_, s).
           list_devices h fs ids s)))"

text \<open>The sum of the lengths is an \<open>int\<close>; if it overflows, the result is undefined.\<close>

fun set_IR_bits :: "host \<Rightarrow> file_system \<Rightarrow> nat list \<Rightarrow> int \<Rightarrow> 'c bridge \<Rightarrow> 'c bridge outcome" where
  "set_IR_bits h fs [] bits s = Returns (on_jtag (config_set_IR_prefix_bits bits) s)"
| "set_IR_bits h fs (i # is) bits s =
     (if i = unat (target_dev_pos s)
      then set_IR_bits h fs is 0 (on_jtag (config_set_IR_postfix_bits bits) s)
      else and_then (get_IR_size h fs (int i) s) (\<lambda>(n, s).
           if bits + n \<ge> 2 ^ 31 then Hangs else set_IR_bits h fs is (bits + n) s))"

definition set_chain_sizes :: "host \<Rightarrow> file_system \<Rightarrow> 'c bridge \<Rightarrow> 'c bridge outcome" where
  "set_chain_sizes h fs s =
     (let t = uint (target_dev_pos s); n = length (device_ids s)
      in and_then (get_IR_size h fs t s) (\<lambda>(size, s).
         and_then (set_IR_bits h fs [0..<n] 0 (on_jtag (config_set_IR_size size) s)) (\<lambda>s.
         Returns (on_jtag (config_set_DR_postfix_bits t) (on_jtag (config_set_DR_prefix_bits (int n - t - 1)) s)))))"

definition set_debug_mode :: "host \<Rightarrow> file_system \<Rightarrow> 'c bridge \<Rightarrow> 'c bridge outcome" where
  "set_debug_mode h fs s =
     (let t = uint (target_dev_pos s); manuf = manuf_id (device_id t s); force = force_alt_vjtag s
      in and_then
           (if force = -1 \<or> (force = 0 \<and> manuf \<noteq> ALTERA_MANUFACTURER_ID)
            then and_then (get_debug_cmd h fs t s) (\<lambda>(cmd, s).
                 if cmd = TAP_CMD_INVALID then Exits 1 else Returns (on_jtag (config_set_debug_cmd cmd) s))
            else Returns s)
           (\<lambda>s. let s = (if manuf = XILINX_MANUFACTURER_ID then on_jtag (config_set_xilinx_bscan 1) s else s)
                in Returns (on_jtag (config_set_alt_vjtag
                     (if force = 1 then 1 else if force = -1 then 0
                      else if manuf = ALTERA_MANUFACTURER_ID then 1 else 0)) s)))"

text \<open>A difference between the ID codes is only reported.\<close>

definition check_idcode :: "host \<Rightarrow> file_system \<Rightarrow> 'c jtag_cable \<Rightarrow> 'c bridge \<Rightarrow> 'c bridge outcome" where
  "check_idcode h fs cb s =
     and_then (ask_bsdl (bsdl_get_idcode_cmd h fs) (device_id (uint (target_dev_pos s)) s) s) (\<lambda>(cmd, s).
     if cmd = TAP_CMD_INVALID then Returns s
     else let ((err, id_read), c) = jtag_get_idcode h cb cmd (jtag s)
          in if err \<noteq> APP_ERR_NONE then Exits 1 else Returns (s\<lparr>jtag := c\<rparr>))"

definition enable_debug :: "host \<Rightarrow> 'c jtag_cable \<Rightarrow> 'c bridge \<Rightarrow> 'c bridge outcome" where
  "enable_debug h cb s =
     (let (err, c) = tap_enable_debug_module h cb (jtag s)
      in if err \<noteq> 0 then Exits 1 else Returns (s\<lparr>jtag := c\<rparr>))"

definition configure_chain :: "host \<Rightarrow> debug_hardware \<Rightarrow> file_system \<Rightarrow> 'c jtag_cable \<Rightarrow> 'c bridge \<Rightarrow> 'c bridge outcome" where
  "configure_chain h hw fs cb s =
     and_then (enumerate_devices h cb s) (\<lambda>s.
     and_then (list_devices h fs (device_ids s) s) (\<lambda>s.
     if hw = DBG_HW_LEGACY \<and> length (device_ids s) > 1 then Exits 0
     else if unat (target_dev_pos s) \<ge> length (device_ids s) then Exits 1
     else and_then (set_chain_sizes h fs s) (\<lambda>s.
          and_then (set_debug_mode h fs s) (\<lambda>s.
          and_then (check_idcode h fs cb s)
          (enable_debug h cb)))))"

section \<open>Asking about the devices\<close>

text \<open>The collection \<open>lib\<close> of descriptions behind the state.\<close>

definition knows :: "host \<Rightarrow> file_system \<Rightarrow> bsdlinfo list \<Rightarrow> 'c bridge \<Rightarrow> bool" where
  "knows h fs lib s \<longleftrightarrow> bsdl_wf h fs (bsdl_files s) \<and> bsdl_library h fs (bsdl_files s) = lib"

lemma knows_update [simp]:
  "knows h fs lib (s\<lparr>jtag := c\<rparr>) = knows h fs lib s"
  "knows h fs lib (s\<lparr>device_ids := ids\<rparr>) = knows h fs lib s"
  "knows h fs lib (on_jtag f s) = knows h fs lib s"
  "knows h fs lib (s\<lparr>bsdl_files := db\<rparr>) \<longleftrightarrow> bsdl_wf h fs db \<and> bsdl_library h fs db = lib"
  by (simp_all add: knows_def on_jtag_def)

text \<open>Every matching description has the value \<open>x\<close>, and there is one.\<close>

definition described :: "bsdlinfo list \<Rightarrow> u32 \<Rightarrow> (bsdlinfo \<Rightarrow> 'a) \<Rightarrow> 'a \<Rightarrow> bool" where
  "described lib idcode field x \<longleftrightarrow> (\<exists>info \<in> set lib. info_matches idcode info) \<and>
     (\<forall>info \<in> set lib. info_matches idcode info \<longrightarrow> field info = x)"

lemma ask_bsdl_answers:
  assumes "knows h fs lib s"
  obtains x db where "ask_bsdl (bsdl_get field dflt h fs) idcode s = Returns (x, s\<lparr>bsdl_files := db\<rparr>)"
    and "knows h fs lib (s\<lparr>bsdl_files := db\<rparr>)" and "\<And>y. described lib idcode field y \<Longrightarrow> x = y"
    and "x = dflt \<or> (\<exists>info \<in> set lib. info_matches idcode info \<and> x = field info)"
proof -
  from files.ask [of h fs "bsdl_files s" idcode] assms obtain r db where
    r: "get_bsdl_info h fs idcode (bsdl_files s) = Some (r, db)" "bsdl_wf h fs db" "bsdl_library h fs db = lib"
      "case r of None \<Rightarrow> \<forall>v \<in> set lib. \<not> info_matches idcode v | Some v \<Rightarrow> v \<in> set lib \<and> info_matches idcode v"
    unfolding knows_def by blast
  show thesis
    by (rule that [of "case r of Some i \<Rightarrow> field i | None \<Rightarrow> dflt" db])
      (use r in \<open>auto simp: ask_bsdl_def bsdl_get_def knows_def described_def split: option.splits\<close>)
qed

text \<open>What is known of the length of a device's instruction register, and of its debug command.\<close>

definition length_setting :: "(int \<times> int) list \<Rightarrow> nat \<Rightarrow> int list" where
  "length_setting sets i = map snd (filter (\<lambda>p. fst p = int i) sets)"

definition length_known :: "bsdlinfo list \<Rightarrow> (int \<times> int) list \<Rightarrow> nat \<Rightarrow> u32 \<Rightarrow> int \<Rightarrow> bool" where
  "length_known lib sets i idcode n \<longleftrightarrow> 0 \<le> n \<and>
     (if length_setting sets i = [] then idcode \<noteq> IDCODE_INVALID \<and> described lib idcode bsdl_IR_size n
      else n = last (length_setting sets i))"

definition cmd_known :: "bsdlinfo list \<Rightarrow> int \<Rightarrow> u32 \<Rightarrow> u32 \<Rightarrow> bool" where
  "cmd_known lib cmd_line idcode cmd \<longleftrightarrow> cmd \<noteq> TAP_CMD_INVALID \<and>
     (if cmd_line \<ge> 0 then cmd = word_of_int cmd_line
      else idcode \<noteq> IDCODE_INVALID \<and>
        described lib idcode (if manuf_id idcode = XILINX_MANUFACTURER_ID then cmd_user1 else cmd_debug) cmd)"

lemma fold_settings:
  "fold (\<lambda>(dev_index, ir_length) r. if dev_index = int i then ir_length else r) sets r =
     (if length_setting sets i = [] then r else last (length_setting sets i))"
  by (induction sets arbitrary: r) (auto simp: length_setting_def)

lemma get_IR_size_known:
  assumes "knows h fs lib s" "length_known lib (ir_sets s) i (device_ids s ! i) n"
  obtains db where "get_IR_size h fs (int i) s = Returns (n, s\<lparr>bsdl_files := db\<rparr>)"
    and "knows h fs lib (s\<lparr>bsdl_files := db\<rparr>)"
proof (cases "device_ids s ! i = IDCODE_INVALID")
  case True
  have "s\<lparr>bsdl_files := bsdl_files s\<rparr> = s" by simp
  with True assms show thesis
    by (intro that [of "bsdl_files s"])
      (simp_all add: get_IR_size_def device_id_def fold_settings length_known_def split: if_splits)
next
  case False
  from ask_bsdl_answers [OF assms(1), of bsdl_IR_size "-1" "device_ids s ! i"] obtain x db where
    x: "ask_bsdl (bsdl_get_IR_size h fs) (device_ids s ! i) s = Returns (x, s\<lparr>bsdl_files := db\<rparr>)"
      "knows h fs lib (s\<lparr>bsdl_files := db\<rparr>)" "\<And>y. described lib (device_ids s ! i) bsdl_IR_size y \<Longrightarrow> x = y"
    unfolding bsdl_get_IR_size_def by metis
  with False assms(2) show thesis
    by (intro that [of db])
      (auto simp: get_IR_size_def device_id_def fold_settings length_known_def split: if_splits)
qed

lemma get_debug_cmd_known:
  assumes "knows h fs lib s" "cmd_known lib (cmd_line_cmd_debug s) (device_ids s ! i) cmd"
  obtains db where "get_debug_cmd h fs (int i) s = Returns (cmd, s\<lparr>bsdl_files := db\<rparr>)"
    and "knows h fs lib (s\<lparr>bsdl_files := db\<rparr>)"
proof (cases "device_ids s ! i = IDCODE_INVALID")
  case True
  have "s\<lparr>bsdl_files := bsdl_files s\<rparr> = s" by simp
  with True assms show thesis
    by (intro that [of "bsdl_files s"]) (simp_all add: get_debug_cmd_def device_id_def cmd_known_def split: if_splits)
next
  case False
  let ?field = "if manuf_id (device_ids s ! i) = XILINX_MANUFACTURER_ID then cmd_user1 else cmd_debug"
  from ask_bsdl_answers [OF assms(1), of ?field TAP_CMD_INVALID "device_ids s ! i"] obtain x db where
    x: "ask_bsdl (bsdl_get ?field TAP_CMD_INVALID h fs) (device_ids s ! i) s = Returns (x, s\<lparr>bsdl_files := db\<rparr>)"
      "knows h fs lib (s\<lparr>bsdl_files := db\<rparr>)" "\<And>y. described lib (device_ids s ! i) ?field y \<Longrightarrow> x = y"
    by metis
  with False assms(2) show thesis
    by (intro that [of db])
      (auto simp: get_debug_cmd_def device_id_def cmd_known_def bsdl_get_user1_cmd_def bsdl_get_debug_cmd_def
        split: if_splits)
qed

lemma list_devices_returns:
  "knows h fs lib s \<Longrightarrow> \<exists>db. list_devices h fs ids s = Returns (s\<lparr>bsdl_files := db\<rparr>) \<and> knows h fs lib (s\<lparr>bsdl_files := db\<rparr>)"
proof (induction ids arbitrary: s)
  case Nil
  have "s\<lparr>bsdl_files := bsdl_files s\<rparr> = s" by simp
  with Nil show ?case by (metis list_devices.simps(1))
next
  case (Cons k ids)
  show ?case
  proof (cases "k = IDCODE_INVALID")
    case True
    with Cons show ?thesis by simp
  next
    case False
    from ask_bsdl_answers [OF Cons.prems, of bsdl_name None k] obtain x1 d1 where
      1: "ask_bsdl (bsdl_get_name h fs) k s = Returns (x1, s\<lparr>bsdl_files := d1\<rparr>)" "knows h fs lib (s\<lparr>bsdl_files := d1\<rparr>)"
      unfolding bsdl_get_name_def by metis
    from ask_bsdl_answers [OF 1(2), of bsdl_IR_size "-1" k] obtain x2 d2 where
      2: "ask_bsdl (bsdl_get_IR_size h fs) k (s\<lparr>bsdl_files := d1\<rparr>) = Returns (x2, s\<lparr>bsdl_files := d1, bsdl_files := d2\<rparr>)"
        "knows h fs lib (s\<lparr>bsdl_files := d1, bsdl_files := d2\<rparr>)"
      unfolding bsdl_get_IR_size_def by blast
    from Cons.IH [OF 2(2)] False 1 2 show ?thesis by auto
  qed
qed

section \<open>The place of the target on the chain\<close>

definition known_lengths :: "bsdlinfo list \<Rightarrow> (nat \<Rightarrow> nat) \<Rightarrow> 'c bridge \<Rightarrow> bool" where
  "known_lengths lib len s \<longleftrightarrow>
     (\<forall>i < length (device_ids s). length_known lib (ir_sets s) i (device_ids s ! i) (int (len i))) \<and>
     sum_list (map len [0..<length (device_ids s)]) < 2 ^ 31"

lemma set_IR_bits_run:
  assumes "knows h fs lib s" "\<And>i. i \<in> set xs \<Longrightarrow> i \<noteq> unat (target_dev_pos s)"
    and "\<And>i. i \<in> set xs \<Longrightarrow> length_known lib (ir_sets s) i (device_ids s ! i) (int (len i))"
    and "k + sum_list (map len xs) < 2 ^ 31"
  shows "\<exists>db. set_IR_bits h fs (xs @ ys) (int k) s =
      set_IR_bits h fs ys (int (k + sum_list (map len xs))) (s\<lparr>bsdl_files := db\<rparr>) \<and> knows h fs lib (s\<lparr>bsdl_files := db\<rparr>)"
  using assms
proof (induction xs arbitrary: k s)
  case Nil
  have "s\<lparr>bsdl_files := bsdl_files s\<rparr> = s" by simp
  with Nil show ?case by (metis append_Nil list.simps(8) sum_list.Nil add.right_neutral)
next
  case (Cons i xs)
  from get_IR_size_known [OF Cons.prems(1), of i "int (len i)"] Cons.prems(3) obtain d1 where
    1: "get_IR_size h fs (int i) s = Returns (int (len i), s\<lparr>bsdl_files := d1\<rparr>)" "knows h fs lib (s\<lparr>bsdl_files := d1\<rparr>)"
    by auto
  have "\<exists>db. set_IR_bits h fs (xs @ ys) (int (k + len i)) (s\<lparr>bsdl_files := d1\<rparr>) =
        set_IR_bits h fs ys (int (k + len i + sum_list (map len xs))) (s\<lparr>bsdl_files := d1, bsdl_files := db\<rparr>) \<and>
      knows h fs lib (s\<lparr>bsdl_files := d1, bsdl_files := db\<rparr>)"
    by (rule Cons.IH) (use 1(2) Cons.prems in \<open>simp_all add: add.assoc\<close>)
  moreover have "\<not> int k + int (len i) \<ge> 2 ^ 31" using Cons.prems(4) by simp
  ultimately show ?case using 1(1) Cons.prems(2) [of i] by (auto simp: add.assoc)
qed

text \<open>The configuration that describes the place of the target.\<close>

definition placed :: "nat list \<Rightarrow> nat \<Rightarrow> jtag_conf \<Rightarrow> jtag_conf" where
  "placed lens t cf = cf\<lparr>global_IR_size := int (lens ! t),
     global_IR_postfix_bits := int (sum_list (take t lens)), global_IR_prefix_bits := int (sum_list (drop (Suc t) lens)),
     global_DR_prefix_bits := int (length lens - Suc t), global_DR_postfix_bits := int t\<rparr>"

lemma set_chain_sizes_known:
  assumes "knows h fs lib s" "known_lengths lib len s" "unat (target_dev_pos s) < length (device_ids s)"
  obtains db where "set_chain_sizes h fs s = Returns (s\<lparr>bsdl_files := db, jtag := (jtag s)\<lparr>conf :=
        placed (map len [0..<length (device_ids s)]) (unat (target_dev_pos s)) (conf (jtag s))\<rparr>\<rparr>)"
    and "knows h fs lib (s\<lparr>bsdl_files := db\<rparr>)"
proof -
  define t n where tn: "t = unat (target_dev_pos s)" "n = length (device_ids s)"
  have t: "uint (target_dev_pos s) = int t" "t < n" using assms(3) by (simp_all add: tn)
  have split: "[0..<n] = [0..<t] @ t # [Suc t..<n]"
    using t(2) by (metis less_imp_le_nat upt_add_eq_append upt_conv_Cons le_add_diff_inverse zero_le)
  from assms(2) have len: "\<And>i. i < n \<Longrightarrow> length_known lib (ir_sets s) i (device_ids s ! i) (int (len i))"
      "sum_list (map len [0..<t]) + len t + sum_list (map len [Suc t..<n]) < 2 ^ 31"
    unfolding known_lengths_def tn(2) [symmetric] by (simp_all add: split)
  from get_IR_size_known [OF assms(1) len(1) [OF t(2)]] obtain d1 where
    1: "get_IR_size h fs (int t) s = Returns (int (len t), s\<lparr>bsdl_files := d1\<rparr>)" "knows h fs lib (s\<lparr>bsdl_files := d1\<rparr>)"
    by blast
  let ?s1 = "on_jtag (config_set_IR_size (int (len t))) (s\<lparr>bsdl_files := d1\<rparr>)"
  have "\<exists>db. set_IR_bits h fs ([0..<t] @ t # [Suc t..<n]) (int 0) ?s1 =
        set_IR_bits h fs (t # [Suc t..<n]) (int (0 + sum_list (map len [0..<t]))) (?s1\<lparr>bsdl_files := db\<rparr>) \<and>
      knows h fs lib (?s1\<lparr>bsdl_files := db\<rparr>)"
    by (rule set_IR_bits_run) (use 1(2) len t in \<open>simp_all add: on_jtag_def tn(1)\<close>)
  then obtain d2 where 2: "set_IR_bits h fs [0..<n] 0 ?s1 =
      set_IR_bits h fs (t # [Suc t..<n]) (int (sum_list (map len [0..<t]))) (?s1\<lparr>bsdl_files := d2\<rparr>)"
      "knows h fs lib (?s1\<lparr>bsdl_files := d2\<rparr>)"
    unfolding split by auto
  let ?s2 = "on_jtag (config_set_IR_postfix_bits (int (sum_list (map len [0..<t])))) (?s1\<lparr>bsdl_files := d2\<rparr>)"
  have "\<exists>db. set_IR_bits h fs ([Suc t..<n] @ []) (int 0) ?s2 =
        set_IR_bits h fs [] (int (0 + sum_list (map len [Suc t..<n]))) (?s2\<lparr>bsdl_files := db\<rparr>) \<and>
      knows h fs lib (?s2\<lparr>bsdl_files := db\<rparr>)"
    by (rule set_IR_bits_run) (use 2(2) len t in \<open>simp_all add: on_jtag_def tn(1)\<close>)
  then obtain d3 where 3: "set_IR_bits h fs [Suc t..<n] 0 ?s2 =
      set_IR_bits h fs [] (int (sum_list (map len [Suc t..<n]))) (?s2\<lparr>bsdl_files := d3\<rparr>)"
      "knows h fs lib (?s2\<lparr>bsdl_files := d3\<rparr>)"
    by auto
  have "set_IR_bits h fs [0..<n] 0 ?s1 =
      Returns (on_jtag (config_set_IR_prefix_bits (int (sum_list (map len [Suc t..<n])))) (?s2\<lparr>bsdl_files := d3\<rparr>))"
    using 2(1) 3(1) by (simp add: on_jtag_def tn(1))
  moreover have "map len [0..<n] ! t = len t" "take t (map len [0..<n]) = map len [0..<t]"
      "drop (Suc t) (map len [0..<n]) = map len [Suc t..<n]" "int (n - Suc t) = int n - int t - 1"
    using t(2) by (simp_all add: take_map take_upt drop_map drop_upt of_nat_diff)
  ultimately show thesis
    using 1 3(2)
    by (intro that [of d3])
      (simp_all add: set_chain_sizes_def Let_def t(1) tn(2) [symmetric] placed_def on_jtag_def config_set_IR_size_def
        config_set_IR_postfix_bits_def config_set_IR_prefix_bits_def config_set_DR_prefix_bits_def
        config_set_DR_postfix_bits_def knows_def tn(1) [symmetric])
qed

lemma set_debug_mode_known:
  assumes "knows h fs lib s" "cmd_known lib (cmd_line_cmd_debug s) (device_ids s ! unat (target_dev_pos s)) cmd"
    and "force_alt_vjtag s = -1 \<or> force_alt_vjtag s = 0 \<and>
      manuf_id (device_ids s ! unat (target_dev_pos s)) \<noteq> ALTERA_MANUFACTURER_ID"
  obtains db x where "set_debug_mode h fs s = Returns (s\<lparr>bsdl_files := db, jtag := (jtag s)\<lparr>conf :=
        (conf (jtag s))\<lparr>global_jtag_cmd_debug := cmd, global_altera_virtual_jtag := False, global_xilinx_bscan := x\<rparr>\<rparr>\<rparr>)"
    and "knows h fs lib (s\<lparr>bsdl_files := db\<rparr>)"
proof -
  have t: "uint (target_dev_pos s) = int (unat (target_dev_pos s))" by simp
  from get_debug_cmd_known [OF assms(1,2)] obtain db where
    db: "get_debug_cmd h fs (int (unat (target_dev_pos s))) s = Returns (cmd, s\<lparr>bsdl_files := db\<rparr>)"
      "knows h fs lib (s\<lparr>bsdl_files := db\<rparr>)"
    by blast
  define x where "x = (if manuf_id (device_ids s ! unat (target_dev_pos s)) = XILINX_MANUFACTURER_ID
    then True else global_xilinx_bscan (conf (jtag s)))"
  have cmd: "cmd \<noteq> TAP_CMD_INVALID" using assms(2) by (simp add: cmd_known_def)
  have "set_debug_mode h fs s = Returns (s\<lparr>bsdl_files := db, jtag := (jtag s)\<lparr>conf :=
      (conf (jtag s))\<lparr>global_jtag_cmd_debug := cmd, global_altera_virtual_jtag := False, global_xilinx_bscan := x\<rparr>\<rparr>\<rparr>)"
    using assms(3) db(1) cmd unfolding set_debug_mode_def t Let_def
    by (auto simp: device_id_def on_jtag_def config_set_debug_cmd_def config_set_xilinx_bscan_def
        config_set_alt_vjtag_def x_def)
  then show thesis using db(2) by (rule that)
qed

section \<open>The TAP during the configuration\<close>

context reliable_tap
begin

lemma set_ir_ok: "malloc_ok h ((c_div (global_IR_size (conf s) + global_IR_prefix_bits (conf s)
    + global_IR_postfix_bits (conf s)) 32 + 1) * 4) \<Longrightarrow> fst (tap_set_ir h cb ir s) = APP_ERR_NONE"
  unfolding tap_set_ir_def Let_def split_beta
  by (simp del: err_seq.simps, rule err_seq_none) auto

text \<open>Reading an ID code ends in Run-Test/Idle and changes no setting.\<close>

lemma get_idcode_idle:
  assumes "at_idle (view (dev (cable s))) u" "ir_sizes (conf s) n p a"
    and "global_DR_postfix_bits (conf s) = int q" "global_DR_prefix_bits (conf s) = int k" "\<And>n. malloc_ok h n"
  shows "\<exists>u'. at_idle (view (dev (cable (snd (jtag_get_idcode h cb cmd s))))) u'"
    and "fst (fst (jtag_get_idcode h cb cmd s)) = APP_ERR_NONE"
    and "conf (snd (jtag_get_idcode h cb cmd s)) = conf s"
proof -
  let ?s0 = "s\<lparr>conf := (conf s)\<lparr>global_altera_virtual_jtag := False\<rparr>\<rparr>"
  let ?s1 = "snd (tap_set_ir h cb cmd ?s0)"
  let ?s2 = "snd (tap_set_shift_dr cb ?s1)"
  let ?s3 = "snd (jtag_read_write_stream cb [0] 32 True True ?s2)"
  let ?s4 = "snd (err_seq [jtag_write_bit cb TMS, jtag_write_bit cb 0] ?s3)"
  obtain sh where v: "view (dev (cable ?s0)) = \<lparr>tap = Run_Test_Idle, shifted = sh, updates = u\<rparr>"
    using at_idleD [OF assms(1)] by auto
  have sizes: "ir_sizes (conf ?s0) n p a" using assms(2) by (simp add: ir_sizes_def)
  note ir = set_ir_view [OF v sizes assms(5) refl]
  have c1: "conf ?s1 = conf ?s0" using same_globals_fields(1) [OF ir(2)] by simp
  have c2: "conf ?s2 = conf ?s0" using same_globals_fields(1) [OF same_globals_jtag(4)] c1 by metis
  have c3: "conf ?s3 = conf ?s0" using same_globals_fields(1) [OF same_globals_read_stream] c2 by metis
  have c4: "conf ?s4 = conf ?s0"
  proof -
    have "same_globals ?s3 ?s4" by (rule same_globals_err_seq) auto
    from same_globals_fields(1) [OF this] c3 show ?thesis by metis
  qed
  note dr = shift_dr_view [OF ir(1)]
  have q: "global_DR_postfix_bits (conf ?s2) = int q" "global_DR_prefix_bits (conf ?s2) = int k"
    using assms(3,4) by (simp_all add: c2)
  from exit_to_idle_view [OF read_write_stream_view [OF dr _ _ q, of 32 "[0]" True True, simplified]]
  have "\<exists>u'. at_idle (view (dev (cable ?s4))) u'" unfolding tap_exit_to_idle_def by (auto simp: at_idle_def)
  then show "\<exists>u'. at_idle (view (dev (cable (snd (jtag_get_idcode h cb cmd s))))) u'"
    by (simp add: jtag_get_idcode_def Let_def split_beta del: err_seq.simps)
  have "fst (tap_set_ir h cb cmd ?s0) = APP_ERR_NONE" by (rule set_ir_ok) (rule assms(5))
  moreover have "fst (err_seq [jtag_write_bit cb TMS, jtag_write_bit cb 0] ?s3) = APP_ERR_NONE"
    by (rule err_seq_none) auto
  ultimately show "fst (fst (jtag_get_idcode h cb cmd s)) = APP_ERR_NONE"
    by (simp add: jtag_get_idcode_def Let_def split_beta del: err_seq.simps)
  show "conf (snd (jtag_get_idcode h cb cmd s)) = conf s"
    using c4 by (simp add: jtag_get_idcode_def Let_def split_beta del: err_seq.simps)
qed

end

text \<open>A chain of chips, seen by its data registers and by its TAP.\<close>

locale chip_chain = reliable_tap cb dev dstep dtdo view
  for cb :: "'c jtag_cable" and dev :: "'c \<Rightarrow> 'd" and dstep :: "pin \<Rightarrow> 'd \<Rightarrow> 'd"
    and dtdo :: "'d \<Rightarrow> bool" and view :: "'d \<Rightarrow> tap_view" +
  fixes scan :: "'d \<Rightarrow> scan_dev"
  assumes scan_step: "scan (dstep p d) = scan_step p (scan d)"
    and scan_tdo: "dtdo d = scan_tdo (scan d)"
    and scan_tap: "scan_tap (scan d) = tap (view d)"
begin

lemma scan_fold: "scan (fold dstep ps d) = fold scan_step ps (scan d)"
  by (induction ps arbitrary: d) (simp_all add: scan_step)

lemma scan_run: "tdo_run dstep dtdo ps d = tdo_run scan_step scan_tdo ps (scan d)"
  by (induction ps arbitrary: d) (simp_all add: scan_step scan_tdo)

end

sublocale chip_chain \<subseteq> registers: scan_cable cb "\<lambda>c. scan (dev c)"
  by unfold_locales
    (auto simp: bit_out bit_inout bit_inout_tdo stream_out stream_inout stream_inout_tdo flush_dev bit_out_ok bit_inout_ok
      stream_out_ok stream_inout_ok scan_step scan_tdo scan_fold scan_run)

section \<open>The whole configuration\<close>

lemma scan_cap_fold [simp]: "scan_cap (fold scan_step ps d) = scan_cap d"
  by (induction ps arbitrary: d) (simp_all add: scan_step_def)

lemma placed_sizes: "0 < lens ! t \<Longrightarrow> lens ! t \<le> 32 \<Longrightarrow>
    ir_sizes (placed lens t cf) (lens ! t) (sum_list (take t lens)) (sum_list (drop (Suc t) lens))"
  by (simp add: ir_sizes_def placed_def)

context chip_chain
begin

lemma enumerate_devices_chips:
  assumes "scan_cap (scan (dev (cable (jtag s)))) = chain_bits ds" "ds \<noteq> []" "\<forall>d \<in> set ds. legal_chip d"
    and "length ds \<le> MAX_DEVICES" "\<And>n. malloc_ok h n"
  obtains c u where "enumerate_devices h cb s = Returns (s\<lparr>jtag := c, device_ids := map chip_code ds\<rparr>)"
    and "at_idle (view (dev (cable c))) u"
proof -
  let ?c1 = "snd (tap_reset cb (jtag s))"
  have ok: "fst (tap_reset cb (jtag s)) = APP_ERR_NONE"
    by (simp add: tap_reset_def Let_def split_beta del: err_seq.simps, rule err_seq_none) auto
  have dev: "dev (cable ?c1) = fold dstep reset_pins (dev (cable (jtag s)))"
    by (rule tap_reset_dev [OF clocked_cable_axioms])
  then have idle: "scan_tap (scan (dev (cable ?c1))) = Run_Test_Idle"
    using reset_pins_idle [of True "view (dev (cable (jtag s)))"] by (simp add: scan_tap view_fold)
  have cap: "scan_cap (scan (dev (cable ?c1))) = chain_bits ds"
    using assms(1) by (simp add: dev scan_fold)
  from enumerate_chain [OF registers.scan_cable_axioms idle cap assms(2-5)]
  have "fst (jtag_enumerate_chain h cb ?c1) = (APP_ERR_NONE, Some (map chip_code ds))"
    "tap (view (dev (cable (snd (jtag_enumerate_chain h cb ?c1))))) = Run_Test_Idle"
    by (simp_all add: scan_tap)
  then show thesis
    using ok by (intro that [of "snd (jtag_enumerate_chain h cb ?c1)"])
      (simp_all add: enumerate_devices_def Let_def split_beta at_idle_def)
qed

lemma check_idcode_idle:
  assumes "knows h fs lib s" "at_idle (view (dev (cable (jtag s)))) u" "ir_sizes (conf (jtag s)) n p a"
    and "global_DR_postfix_bits (conf (jtag s)) = int q" "global_DR_prefix_bits (conf (jtag s)) = int k" "\<And>n. malloc_ok h n"
  obtains db c u' where "check_idcode h fs cb s = Returns (s\<lparr>bsdl_files := db, jtag := c\<rparr>)"
    and "conf c = conf (jtag s)" "at_idle (view (dev (cable c))) u'"
proof -
  obtain cmd db where db: "ask_bsdl (bsdl_get_idcode_cmd h fs) (device_id (uint (target_dev_pos s)) s) s =
      Returns (cmd, s\<lparr>bsdl_files := db\<rparr>)"
    unfolding bsdl_get_idcode_cmd_def using ask_bsdl_answers [OF assms(1)] by metis
  note id = get_idcode_idle [OF assms(2-6)]
  have same: "s\<lparr>bsdl_files := db\<rparr> = s\<lparr>bsdl_files := db, jtag := jtag s\<rparr>" by simp
  show thesis
  proof (cases "cmd = TAP_CMD_INVALID")
    case True
    with db have "check_idcode h fs cb s = Returns (s\<lparr>bsdl_files := db, jtag := jtag s\<rparr>)"
      by (simp add: check_idcode_def)
    then show thesis using assms(2) that by blast
  next
    case False
    from id(1) [of cmd] obtain u' where "at_idle (view (dev (cable (snd (jtag_get_idcode h cb cmd (jtag s)))))) u'" by blast
    with False db id(2,3) [of cmd] show thesis
      by (intro that [of "snd (jtag_get_idcode h cb cmd (jtag s))" db u'])
        (simp_all add: check_idcode_def Let_def split_beta)
  qed
qed

lemma enable_debug_loads:
  assumes "at_idle (view (dev (cable (jtag s)))) u" "ir_sizes (conf (jtag s)) n p a"
    and "\<not> global_altera_virtual_jtag (conf (jtag s))" "\<And>n. malloc_ok h n" "p mod 32 + n < 32 \<or> saturates_shifts h"
  obtains c where "enable_debug h cb s = Returns (s\<lparr>jtag := c\<rparr>)" and "conf c = conf (jtag s)"
    and "at_idle (view (dev (cable c)))
      (u @ [IR_Update (replicate p True @ word_bits n (global_jtag_cmd_debug (conf (jtag s))) @ replicate a True)])"
proof -
  obtain sh where v: "view (dev (cable (jtag s))) = \<lparr>tap = Run_Test_Idle, shifted = sh, updates = u\<rparr>"
    using at_idleD [OF assms(1)] by blast
  let ?c = "snd (tap_set_ir h cb (global_jtag_cmd_debug (conf (jtag s))) (jtag s))"
  note ir = set_ir_view [OF v assms(2,4) refl, of "global_jtag_cmd_debug (conf (jtag s))"]
  show thesis
  proof (rule that [of ?c])
    show "enable_debug h cb s = Returns (s\<lparr>jtag := ?c\<rparr>)"
      using assms(3) set_ir_ok [OF assms(4), where s = "jtag s"]
      by (simp add: enable_debug_def tap_enable_debug_module_def Let_def split_beta)
    show "conf ?c = conf (jtag s)" using same_globals_fields(1) [OF ir(2)] by simp
    show "at_idle (view (dev (cable ?c)))
        (u @ [IR_Update (replicate p True @ word_bits n (global_jtag_cmd_debug (conf (jtag s))) @ replicate a True)])"
      using ir(1) stream_bits_ir_chain [OF assms(2,5)] by simp
  qed
qed

end

lemma settings_known:
  assumes "knows h fs lib s" "known_lengths lib len s" "lens = map len [0..<length (device_ids s)]"
    and "t = unat (target_dev_pos s)" "t < length (device_ids s)"
    and "cmd_known lib (cmd_line_cmd_debug s) (device_ids s ! t) cmd"
    and "force_alt_vjtag s = -1 \<or> force_alt_vjtag s = 0 \<and> manuf_id (device_ids s ! t) \<noteq> ALTERA_MANUFACTURER_ID"
  obtains s1 s2 cf where "set_chain_sizes h fs s = Returns s1" "set_debug_mode h fs s1 = Returns s2" "knows h fs lib s2"
    and "device_ids s2 = device_ids s" "cable (jtag s2) = cable (jtag s)" "conf (jtag s2) = placed lens t cf"
    and "global_jtag_cmd_debug (conf (jtag s2)) = cmd" "\<not> global_altera_virtual_jtag (conf (jtag s2))"
proof -
  obtain d1 where "set_chain_sizes h fs s = Returns (s\<lparr>bsdl_files := d1, jtag := (jtag s)\<lparr>conf :=
        placed (map len [0..<length (device_ids s)]) (unat (target_dev_pos s)) (conf (jtag s))\<rparr>\<rparr>)"
      "knows h fs lib (s\<lparr>bsdl_files := d1\<rparr>)"
    by (rule set_chain_sizes_known [OF assms(1,2)]) (use assms(4,5) in auto)
  then obtain s1 where s1: "set_chain_sizes h fs s = Returns s1" "knows h fs lib s1"
      and s1_eq: "s1 = s\<lparr>bsdl_files := d1, jtag := (jtag s)\<lparr>conf := placed lens t (conf (jtag s))\<rparr>\<rparr>"
    unfolding assms(3,4) by simp
  obtain d2 x where s2: "set_debug_mode h fs s1 = Returns (s1\<lparr>bsdl_files := d2, jtag := (jtag s1)\<lparr>conf :=
        (conf (jtag s1))\<lparr>global_jtag_cmd_debug := cmd, global_altera_virtual_jtag := False, global_xilinx_bscan := x\<rparr>\<rparr>\<rparr>)"
      "knows h fs lib (s1\<lparr>bsdl_files := d2\<rparr>)"
    by (rule set_debug_mode_known [OF s1(2), of cmd]) (use assms(4,6,7) in \<open>simp_all add: s1_eq\<close>)
  let ?cf = "(conf (jtag s))\<lparr>global_jtag_cmd_debug := cmd, global_altera_virtual_jtag := False, global_xilinx_bscan := x\<rparr>"
  show thesis
    using s2(2) by (intro that [OF s1(1) s2(1), of ?cf]) (simp_all add: s1_eq placed_def)
qed

context chip_chain
begin

lemma configure_known:
  assumes chips: "scan_cap (scan (dev (cable (jtag s)))) = chain_bits ds" "ds \<noteq> []" "\<forall>d \<in> set ds. legal_chip d"
      "length ds \<le> MAX_DEVICES"
    and lib: "knows h fs lib s" and lengths: "known_lengths lib len (s\<lparr>device_ids := map chip_code ds\<rparr>)"
    and lens: "lens = map len [0..<length ds]"
    and target: "t = unat (target_dev_pos s)" "t < length ds" "0 < lens ! t" "lens ! t \<le> 32"
    and cmd: "cmd_known lib (cmd_line_cmd_debug s) (chip_code (ds ! t)) cmd"
    and mode: "force_alt_vjtag s = -1 \<or> force_alt_vjtag s = 0 \<and> manuf_id (chip_code (ds ! t)) \<noteq> ALTERA_MANUFACTURER_ID"
    and hw: "hw = DBG_HW_LEGACY \<longrightarrow> length ds = 1"
    and host: "sum_list (take t lens) mod 32 + lens ! t < 32 \<or> saturates_shifts h" "\<And>n. malloc_ok h n"
  shows "\<exists>s' cf u. configure_chain h hw fs cb s = Returns s' \<and> device_ids s' = map chip_code ds \<and>
    conf (jtag s') = placed lens t cf \<and> at_idle (view (dev (cable (jtag s')))) (u @ [IR_Update
      (replicate (sum_list (take t lens)) True @ word_bits (lens ! t) cmd @ replicate (sum_list (drop (Suc t) lens)) True)])"
proof -
  let ?p = "sum_list (take t lens)" and ?a = "sum_list (drop (Suc t) lens)" and ?n = "lens ! t"
  obtain c1 u1 where enum: "enumerate_devices h cb s = Returns (s\<lparr>jtag := c1, device_ids := map chip_code ds\<rparr>)"
      "at_idle (view (dev (cable c1))) u1"
    by (rule enumerate_devices_chips [OF chips host(2)])
  define s1 where "s1 = s\<lparr>jtag := c1, device_ids := map chip_code ds\<rparr>"
  have k1: "knows h fs lib s1" using lib by (simp add: s1_def)
  obtain d2 where listed: "list_devices h fs (device_ids s1) s1 = Returns (s1\<lparr>bsdl_files := d2\<rparr>)"
      "knows h fs lib (s1\<lparr>bsdl_files := d2\<rparr>)"
    using list_devices_returns [OF k1] by blast
  have l: "known_lengths lib len (s1\<lparr>bsdl_files := d2\<rparr>)"
    using lengths by (simp add: known_lengths_def s1_def)
  obtain s3 s4 cf where set: "set_chain_sizes h fs (s1\<lparr>bsdl_files := d2\<rparr>) = Returns s3" "set_debug_mode h fs s3 = Returns s4"
      "knows h fs lib s4" "device_ids s4 = map chip_code ds" "cable (jtag s4) = cable c1" "conf (jtag s4) = placed lens t cf"
      "global_jtag_cmd_debug (conf (jtag s4)) = cmd" "\<not> global_altera_virtual_jtag (conf (jtag s4))"
    by (rule settings_known [OF listed(2) l, of lens t cmd]) (use lens target cmd mode in \<open>simp_all add: s1_def\<close>)
  have sz: "ir_sizes (conf (jtag s4)) ?n ?p ?a" using target(3,4) unfolding set(6) by (rule placed_sizes)
  have dr: "global_DR_postfix_bits (conf (jtag s4)) = int t" "global_DR_prefix_bits (conf (jtag s4)) = int (length lens - Suc t)"
    by (simp_all add: set(6) placed_def)
  have idle: "at_idle (view (dev (cable (jtag s4)))) u1" using enum(2) set(5) by simp
  obtain d5 c5 u5 where check: "check_idcode h fs cb s4 = Returns (s4\<lparr>bsdl_files := d5, jtag := c5\<rparr>)"
      "conf c5 = conf (jtag s4)" "at_idle (view (dev (cable c5))) u5"
    by (rule check_idcode_idle [OF set(3) idle sz dr host(2)])
  let ?s5 = "s4\<lparr>bsdl_files := d5, jtag := c5\<rparr>"
  have "at_idle (view (dev (cable (jtag ?s5)))) u5" "ir_sizes (conf (jtag ?s5)) ?n ?p ?a"
      "\<not> global_altera_virtual_jtag (conf (jtag ?s5))"
    using check(2,3) sz set(8) by simp_all
  from enable_debug_loads [OF this host(2,1)] check(2) set(7) obtain c6 where
    debug: "enable_debug h cb ?s5 = Returns (?s5\<lparr>jtag := c6\<rparr>)" "conf c6 = conf (jtag s4)"
      "at_idle (view (dev (cable c6))) (u5 @ [IR_Update (replicate ?p True @ word_bits ?n cmd @ replicate ?a True)])"
    by auto
  have "configure_chain h hw fs cb s = Returns (?s5\<lparr>jtag := c6\<rparr>)"
    using enum(1) listed(1) set(1,2) check(1) debug(1) hw target
    by (simp add: configure_chain_def s1_def)
  with debug(2,3) set(4,6) show ?thesis by auto
qed

end

section \<open>Whatever happens on the way\<close>

text \<open>On any cable, with any files: what a step leaves alone.\<close>

definition same_setup :: "'c bridge \<Rightarrow> 'c bridge \<Rightarrow> bool" where
  "same_setup s t \<longleftrightarrow> device_ids t = device_ids s \<and> bridge_opts.truncate t = bridge_opts.truncate s"

lemma same_setup_refl [simp]: "same_setup s s"
  and same_setup_updates [simp]: "same_setup s (t\<lparr>bsdl_files := db\<rparr>) = same_setup s t"
    "same_setup s (t\<lparr>jtag := c\<rparr>) = same_setup s t" "same_setup s (on_jtag f t) = same_setup s t"
    "same_setup (s\<lparr>bsdl_files := db\<rparr>) t = same_setup s t"
  and same_setup_trans: "same_setup s t \<Longrightarrow> same_setup t u \<Longrightarrow> same_setup s u"
  by (simp_all add: same_setup_def bridge_opts.truncate_def on_jtag_def)

lemma same_setupD:
  "same_setup s t \<Longrightarrow> device_ids t = device_ids s \<and> target_dev_pos t = target_dev_pos s \<and>
     force_alt_vjtag t = force_alt_vjtag s"
  by (simp add: same_setup_def bridge_opts.truncate_def)

lemma ask_bsdl_frame: "ask_bsdl f k s = Returns (x, t) \<Longrightarrow> \<exists>db. t = s\<lparr>bsdl_files := db\<rparr>"
  by (auto simp: ask_bsdl_def and_then_Returns split: prod.splits)

lemma get_IR_size_frame: "get_IR_size h fs i s = Returns (n, t) \<Longrightarrow> 0 \<le> n \<and> (\<exists>db. t = s\<lparr>bsdl_files := db\<rparr>)"
  by (auto simp: get_IR_size_def and_then_Returns Let_def split: if_splits dest!: ask_bsdl_frame)
    (metis bridge.surjective bridge.update_convs(2))+

lemma get_debug_cmd_frame: "get_debug_cmd h fs i s = Returns (cmd, t) \<Longrightarrow> \<exists>db. t = s\<lparr>bsdl_files := db\<rparr>"
  by (auto simp: get_debug_cmd_def and_then_Returns Let_def split: if_splits dest!: ask_bsdl_frame)
    (metis bridge.surjective bridge.update_convs(2))+

lemma list_devices_frame: "list_devices h fs ids s = Returns t \<Longrightarrow> same_setup s t \<and> jtag t = jtag s"
proof (induction ids arbitrary: s)
  case (Cons k ids)
  show ?case
  proof (cases "k = IDCODE_INVALID")
    case False
    with Cons.prems obtain d where "list_devices h fs ids (s\<lparr>bsdl_files := d\<rparr>) = Returns t"
      by (auto simp: and_then_Returns dest!: ask_bsdl_frame)
    from Cons.IH [OF this] show ?thesis by simp
  qed (use Cons in simp)
qed simp

text \<open>The operations on the TAP keep the settings.\<close>

lemma conf_jtag [simp]:
  "conf (snd (jtag_write_bit cb p s)) = conf s" "conf (snd (jtag_write_stream cb ws n l s)) = conf s"
  "conf (snd (tap_set_shift_dr cb s)) = conf s" "conf (snd (jtag_read_write_stream cb ws n a l s)) = conf s"
  by (rule same_globals_fields(1), simp)+

lemma conf_err_seq: "(\<And>f s. f \<in> set fs \<Longrightarrow> conf (snd (f s)) = conf s) \<Longrightarrow> conf (snd (err_seq fs s)) = conf s"
  by (induction fs arbitrary: s) (auto simp: Let_def split_beta)

lemma conf_set_ir [simp]: "conf (snd (tap_set_ir h cb ir s)) = conf s"
  unfolding tap_set_ir_def Let_def split_beta
  by (simp del: err_seq.simps) (auto simp del: err_seq.simps intro!: trans [OF conf_err_seq])

lemma conf_enable [simp]: "conf (snd (tap_enable_debug_module h cb s)) = conf s"
  by (auto simp: tap_enable_debug_module_def simp del: err_seq.simps intro!: conf_err_seq)

lemma conf_get_idcode [simp]: "conf (snd (jtag_get_idcode h cb cmd s)) = conf s"
  by (simp add: jtag_get_idcode_def Let_def split_beta)

lemma set_IR_bits_frame:
  assumes "set_IR_bits h fs is b s = Returns t" "0 \<le> b" "b < 2 ^ 31"
    and "unat (target_dev_pos s) \<in> set is \<or>
      0 \<le> global_IR_postfix_bits (conf (jtag s)) \<and> global_IR_postfix_bits (conf (jtag s)) < 2 ^ 31"
  shows "same_setup s t \<and> (\<exists>a p. conf (jtag t) =
      (conf (jtag s))\<lparr>global_IR_prefix_bits := a, global_IR_postfix_bits := p\<rparr> \<and> 0 \<le> a \<and> a < 2 ^ 31 \<and> 0 \<le> p \<and> p < 2 ^ 31)"
  using assms
proof (induction "is" arbitrary: b s)
  case Nil
  then have "conf (jtag t) = (conf (jtag s))\<lparr>global_IR_prefix_bits := b,
      global_IR_postfix_bits := global_IR_postfix_bits (conf (jtag s))\<rparr>" "same_setup s t"
    by (auto simp: on_jtag_def config_set_IR_prefix_bits_def)
  with Nil.prems show ?case by fastforce
next
  case (Cons i "is")
  show ?case
  proof (cases "i = unat (target_dev_pos s)")
    case True
    let ?s = "on_jtag (config_set_IR_postfix_bits b) s"
    have "set_IR_bits h fs is 0 ?s = Returns t" using Cons.prems(1) True by simp
    from Cons.IH [OF this] Cons.prems(2,3) show ?thesis
      by (auto simp: on_jtag_def config_set_IR_postfix_bits_def same_setup_def bridge_opts.truncate_def)
  next
    case False
    with Cons.prems(1) obtain n u where u: "get_IR_size h fs (int i) s = Returns (n, u)" "b + n < 2 ^ 31"
        "set_IR_bits h fs is (b + n) u = Returns t"
      by (auto simp: and_then_Returns split: if_splits)
    from get_IR_size_frame [OF u(1)] obtain db where db: "0 \<le> n" "u = s\<lparr>bsdl_files := db\<rparr>" by blast
    from Cons.IH [OF u(3) _ u(2)] Cons.prems(2,4) False db show ?thesis
      by (auto simp: same_setup_def bridge_opts.truncate_def)
  qed
qed

text \<open>Settings that fit a chain of \<open>n\<close> devices with the target at position \<open>t\<close>.\<close>

definition fits_chain :: "nat \<Rightarrow> nat \<Rightarrow> jtag_conf \<Rightarrow> bool" where
  "fits_chain n t cf \<longleftrightarrow> t < n \<and> global_DR_postfix_bits cf = int t \<and> global_DR_prefix_bits cf = int (n - Suc t) \<and>
     0 \<le> global_IR_size cf \<and> 0 \<le> global_IR_prefix_bits cf \<and> global_IR_prefix_bits cf < 2 ^ 31 \<and>
     0 \<le> global_IR_postfix_bits cf \<and> global_IR_postfix_bits cf < 2 ^ 31"

lemma set_chain_sizes_frame:
  assumes "set_chain_sizes h fs s = Returns t" "unat (target_dev_pos s) < length (device_ids s)"
  shows "same_setup s t \<and> fits_chain (length (device_ids s)) (unat (target_dev_pos s)) (conf (jtag t))"
proof -
  from assms(1) obtain size s1 s2 where steps: "get_IR_size h fs (uint (target_dev_pos s)) s = Returns (size, s1)"
      "set_IR_bits h fs [0..<length (device_ids s)] 0 (on_jtag (config_set_IR_size size) s1) = Returns s2"
      "t = on_jtag (config_set_DR_postfix_bits (uint (target_dev_pos s)))
        (on_jtag (config_set_DR_prefix_bits (int (length (device_ids s)) - uint (target_dev_pos s) - 1)) s2)"
    by (auto simp: set_chain_sizes_def and_then_Returns Let_def)
  from get_IR_size_frame [OF steps(1)] obtain db where "0 \<le> size" "s1 = s\<lparr>bsdl_files := db\<rparr>" by blast
  with set_IR_bits_frame [OF steps(2)] assms(2) show ?thesis
    by (auto simp: steps(3) on_jtag_def config_set_IR_size_def config_set_DR_postfix_bits_def
        config_set_DR_prefix_bits_def fits_chain_def same_setup_def bridge_opts.truncate_def)
qed

lemma set_debug_mode_frame:
  assumes "set_debug_mode h fs s = Returns t" "force_alt_vjtag s \<in> {-1, 0, 1}"
  shows "same_setup s t \<and> (\<exists>cmd alt x. conf (jtag t) = (conf (jtag s))\<lparr>global_jtag_cmd_debug := cmd,
      global_altera_virtual_jtag := alt, global_xilinx_bscan := x\<rparr> \<and> (alt \<or> cmd \<noteq> TAP_CMD_INVALID))"
proof -
  let ?manuf = "manuf_id (device_id (uint (target_dev_pos s)) s)"
  let ?mode = "if force_alt_vjtag s = 1 then 1 else if force_alt_vjtag s = -1 then 0
    else if ?manuf = ALTERA_MANUFACTURER_ID then 1 else 0 :: u8"
  from assms(1) obtain u where u: "(if force_alt_vjtag s = -1 \<or> (force_alt_vjtag s = 0 \<and> ?manuf \<noteq> ALTERA_MANUFACTURER_ID)
        then and_then (get_debug_cmd h fs (uint (target_dev_pos s)) s) (\<lambda>(cmd, s).
          if cmd = TAP_CMD_INVALID then Exits 1 else Returns (on_jtag (config_set_debug_cmd cmd) s))
        else Returns s) = Returns u"
      "t = on_jtag (config_set_alt_vjtag ?mode)
        (if ?manuf = XILINX_MANUFACTURER_ID then on_jtag (config_set_xilinx_bscan 1) u else u)"
    unfolding set_debug_mode_def Let_def and_then_Returns by blast
  have "same_setup s u \<and> (\<exists>cmd. conf (jtag u) = (conf (jtag s))\<lparr>global_jtag_cmd_debug := cmd\<rparr> \<and>
      (?mode = 1 \<or> cmd \<noteq> TAP_CMD_INVALID))"
  proof (cases "force_alt_vjtag s = -1 \<or> (force_alt_vjtag s = 0 \<and> ?manuf \<noteq> ALTERA_MANUFACTURER_ID)")
    case True
    with u(1) show ?thesis
      by (auto simp: and_then_Returns on_jtag_def config_set_debug_cmd_def same_setup_def bridge_opts.truncate_def
          split: if_splits dest!: get_debug_cmd_frame)
  next
    case False
    with u(1) assms(2) show ?thesis by (auto intro!: exI [of _ "global_jtag_cmd_debug (conf (jtag s))"])
  qed
  then obtain cmd where cmd: "same_setup s u" "conf (jtag u) = (conf (jtag s))\<lparr>global_jtag_cmd_debug := cmd\<rparr>"
      "?mode = 1 \<or> cmd \<noteq> TAP_CMD_INVALID"
    by blast
  define mode x where "mode = ?mode" and "x = (?manuf = XILINX_MANUFACTURER_ID \<or> global_xilinx_bscan (conf (jtag u)))"
  have "conf (jtag t) = (conf (jtag s))\<lparr>global_jtag_cmd_debug := cmd, global_altera_virtual_jtag := mode \<noteq> 0,
      global_xilinx_bscan := x\<rparr>"
    unfolding u(2) mode_def [symmetric] x_def
    by (simp add: cmd(2) on_jtag_def config_set_alt_vjtag_def config_set_xilinx_bscan_def)
  moreover have "mode \<noteq> 0 \<or> cmd \<noteq> TAP_CMD_INVALID" using cmd(3) unfolding mode_def [symmetric] by auto
  moreover have "same_setup s t" using cmd(1) unfolding u(2) by simp
  ultimately show ?thesis by blast
qed

section \<open>A device of unknown length\<close>

definition length_unknown :: "bsdlinfo list \<Rightarrow> (int \<times> int) list \<Rightarrow> nat \<Rightarrow> u32 \<Rightarrow> bool" where
  "length_unknown lib sets i idcode \<longleftrightarrow> length_setting sets i = [] \<and>
     (idcode = IDCODE_INVALID \<or> (\<forall>info \<in> set lib. info_matches idcode info \<longrightarrow> bsdl_IR_size info < 0))"

lemma get_IR_size_unknown:
  assumes "knows h fs lib s" "length_unknown lib (ir_sets s) i (device_ids s ! i)"
  shows "get_IR_size h fs (int i) s = Exits 1"
proof (cases "device_ids s ! i = IDCODE_INVALID")
  case True
  with assms(2) show ?thesis by (simp add: get_IR_size_def device_id_def fold_settings length_unknown_def)
next
  case False
  from ask_bsdl_answers [OF assms(1), of bsdl_IR_size "-1" "device_ids s ! i"] obtain x db where
    x: "ask_bsdl (bsdl_get_IR_size h fs) (device_ids s ! i) s = Returns (x, s\<lparr>bsdl_files := db\<rparr>)"
      "x = -1 \<or> (\<exists>info \<in> set lib. info_matches (device_ids s ! i) info \<and> x = bsdl_IR_size info)"
    unfolding bsdl_get_IR_size_def by metis
  with False assms(2) have "x < 0" by (auto simp: length_unknown_def)
  with x(1) False assms(2) show ?thesis
    by (simp add: get_IR_size_def device_id_def fold_settings length_unknown_def)
qed

lemma set_IR_bits_unknown:
  assumes "knows h fs lib s" "i \<in> set is" "i \<noteq> unat (target_dev_pos s)" "length_unknown lib (ir_sets s) i (device_ids s ! i)"
    and "\<And>j. j \<in> set is \<Longrightarrow> j \<noteq> i \<Longrightarrow> length_known lib (ir_sets s) j (device_ids s ! j) (int (len j))"
    and "k + sum_list (map len is) < 2 ^ 31"
  shows "set_IR_bits h fs is (int k) s = Exits 1"
  using assms
proof (induction "is" arbitrary: k s)
  case (Cons j "is")
  consider "j = i" | "j = unat (target_dev_pos s)" | "j \<noteq> i" "j \<noteq> unat (target_dev_pos s)" by blast
  then show ?case
  proof cases
    case 1
    with Cons.prems(3) get_IR_size_unknown [OF Cons.prems(1,4)] show ?thesis by simp
  next
    case 2
    have "set_IR_bits h fs is (int 0) (on_jtag (config_set_IR_postfix_bits (int k)) s) = Exits 1"
      by (rule Cons.IH) (use Cons.prems 2 in \<open>auto simp: on_jtag_def\<close>)
    with 2 show ?thesis by simp
  next
    case 3
    from get_IR_size_known [OF Cons.prems(1) Cons.prems(5) [OF _ 3(1)]] obtain db where
      db: "get_IR_size h fs (int j) s = Returns (int (len j), s\<lparr>bsdl_files := db\<rparr>)" "knows h fs lib (s\<lparr>bsdl_files := db\<rparr>)"
      by auto
    have "set_IR_bits h fs is (int (k + len j)) (s\<lparr>bsdl_files := db\<rparr>) = Exits 1"
      by (rule Cons.IH) (use Cons.prems 3 db(2) in auto)
    moreover have "\<not> int k + int (len j) \<ge> 2 ^ 31" using Cons.prems(6) by simp
    ultimately show ?thesis using 3(2) db(1) by simp
  qed
qed simp

lemma set_chain_sizes_unknown:
  assumes "knows h fs lib s" "i < length (device_ids s)" "length_unknown lib (ir_sets s) i (device_ids s ! i)"
    and "\<And>j. j < length (device_ids s) \<Longrightarrow> j \<noteq> i \<Longrightarrow> length_known lib (ir_sets s) j (device_ids s ! j) (int (len j))"
    and "sum_list (map len [0..<length (device_ids s)]) < 2 ^ 31" "unat (target_dev_pos s) < length (device_ids s)"
  shows "set_chain_sizes h fs s = Exits 1"
proof (cases "i = unat (target_dev_pos s)")
  case True
  with get_IR_size_unknown [OF assms(1,3)] show ?thesis by (simp add: set_chain_sizes_def)
next
  case False
  from get_IR_size_known [OF assms(1) assms(4) [OF assms(6)]] False obtain db where
    db: "get_IR_size h fs (uint (target_dev_pos s)) s = Returns (int (len (unat (target_dev_pos s))), s\<lparr>bsdl_files := db\<rparr>)"
      "knows h fs lib (s\<lparr>bsdl_files := db\<rparr>)"
    by auto
  let ?s = "on_jtag (config_set_IR_size (int (len (unat (target_dev_pos s))))) (s\<lparr>bsdl_files := db\<rparr>)"
  have "set_IR_bits h fs [0..<length (device_ids s)] (int 0) ?s = Exits 1"
    by (rule set_IR_bits_unknown [of h fs lib _ i]) (use assms False db(2) in \<open>auto simp: on_jtag_def\<close>)
  with db(1) show ?thesis by (simp add: set_chain_sizes_def)
qed

section \<open>Properties\<close>

text \<open>
  C1: \<open>configure_chain\<close> leads to the target. Take any chain of chips, with or without ID
  codes, such that for every chip a setting of the command line or the BSDL files tell the
  length of its instruction register and for the target also the debug command, and that is not
  in the virtual JTAG mode. Then the program goes on; it knows the ID codes of all chips; the
  settings of the scan-chain layer are those of the target's place; and the last thing that
  happened to the instruction registers is that the target's was loaded with the debug
  command and all others with BYPASS.
\<close>

theorem configure_selects_debug:
  assumes board: "chip_chain cb dev dstep dtdo view scan"
    and chips: "scan_cap (scan (dev (cable (jtag s)))) = chain_bits ds" "ds \<noteq> []" "\<forall>d \<in> set ds. legal_chip d"
      "length ds \<le> MAX_DEVICES"
    and lib: "knows h fs lib s" and lengths: "known_lengths lib len (s\<lparr>device_ids := map chip_code ds\<rparr>)"
    and lens: "lens = map len [0..<length ds]"
    and target: "t = unat (target_dev_pos s)" "t < length ds" "0 < lens ! t" "lens ! t \<le> 32"
    and cmd: "cmd_known lib (cmd_line_cmd_debug s) (chip_code (ds ! t)) cmd"
    and mode: "force_alt_vjtag s = -1 \<or> force_alt_vjtag s = 0 \<and> manuf_id (chip_code (ds ! t)) \<noteq> ALTERA_MANUFACTURER_ID"
    and hw: "hw = DBG_HW_LEGACY \<longrightarrow> length ds = 1"
    and host: "sum_list (take t lens) mod 32 + lens ! t < 32 \<or> saturates_shifts h" "\<And>n. malloc_ok h n"
  shows "\<exists>s' cf u. configure_chain h hw fs cb s = Returns s' \<and> device_ids s' = map chip_code ds \<and>
    conf (jtag s') = placed lens t cf \<and> at_idle (view (dev (cable (jtag s')))) (u @ [IR_Update
      (replicate (sum_list (take t lens)) True @ word_bits (lens ! t) cmd @ replicate (sum_list (drop (Suc t) lens)) True)])"
  using assms by (rule chip_chain.configure_known)

text \<open>A board with a chain of chips on the parallel-port cable: the data registers of the chips, and
  what their TAPs have shifted in and updated.\<close>

record chip_board = scan_dev +
  brd_shifted :: "bool list"
  brd_updates :: "update list"

definition board_view :: "chip_board \<Rightarrow> tap_view" where
  "board_view b = \<lparr>tap = scan_tap b, shifted = brd_shifted b, updates = brd_updates b\<rparr>"

definition board_step :: "pin \<Rightarrow> chip_board \<Rightarrow> chip_board" where
  "board_step p b = (let v = tap_step p (board_view b)
     in scan_dev.extend (scan_step p (scan_dev.truncate b)) \<lparr>brd_shifted = shifted v, brd_updates = updates v\<rparr>)"

definition board_tdo :: "chip_board \<Rightarrow> bool" where
  "board_tdo b = scan_tdo (scan_dev.truncate b)"

interpretation xess_chips: chip_chain "xess_cable_driver x86_64 ini (board_port xess_wiring board_step board_tdo)"
    board_dev board_step board_tdo board_view scan_dev.truncate for ini
  by unfold_locales
    (auto simp: board_view_def board_step_def board_tdo_def scan_dev.truncate_def scan_dev.extend_def scan_step_def
      tap_step_def Let_def)

text \<open>Two chips: the first is described by a BSDL file, the second is known to the command line.\<close>

definition chip_ids :: "bool option list" where
  "chip_ids = map Some (rev (word_bits 32 (0x14951185 :: u32)))"

definition chip_fs :: file_system where
  "chip_fs = \<lparr>fs_opendir = \<lambda>d. if d = asc ''.'' then Some [asc ''chip.bsd''] else None,
     fs_fopen = \<lambda>p. Some (bsdl_text (asc ''CHIP'') 4 [(asc ''DEBUG'', [True, False, False, False])] chip_ids)\<rparr>"

lemma chip_ids_bits: "i < 32 \<Longrightarrow> chip_ids ! i = Some (bit (0x14951185 :: u32) (31 - i))"
  by (simp add: chip_ids_def rev_nth word_bits_def)

lemma chip_file:
  obtains info where "parse_extract_values x86_64 (fs_fopen chip_fs p) = Some (Defined (Some info))" "bsdl_IR_size info = 4"
    and "cmd_debug info = 8" "info_matches 0x14951185 info"
proof -
  have ok: "ident (asc ''CHIP'')" "ops_ok [(asc ''DEBUG'', [True, False, False, False])]"
      "4 \<le> sizeof_ulong x86_64" "length chip_ids = 32"
    by (code_simp, code_simp, simp_all add: x86_64_def x86_32_def chip_ids_def)
  from read_bsdl_text [OF ok(1) _ _ ok(2) _ ok(4,3) malloc_x86, of 4] obtain info where
    info: "parse_extract_values x86_64 (fs_fopen chip_fs p) = Some (Defined (Some info))" "bsdl_IR_size info = 4"
      "bsdl_cmds.truncate info = fold apply_op [(asc ''DEBUG'', [True, False, False, False])]
        \<lparr>cmd_debug = TAP_CMD_INVALID, cmd_user1 = TAP_CMD_INVALID, cmd_idcode = TAP_CMD_INVALID\<rparr>"
      "\<And>i. i < 32 \<Longrightarrow> bit (bsdl_idcode info) (31 - i) \<longleftrightarrow> chip_ids ! i = Some True"
    by (auto simp: chip_fs_def)
  have "bsdl_cmds.truncate info = \<lparr>cmd_debug = 8, cmd_user1 = TAP_CMD_INVALID, cmd_idcode = TAP_CMD_INVALID\<rparr>"
    unfolding info(3) by code_simp
  then have cmd: "cmd_debug info = 8" by (simp add: bsdl_cmds.truncate_def)
  have "bsdl_idcode info = 0x14951185"
  proof (rule bit_word_eqI)
    fix n assume "n < LENGTH(32)"
    then have "n < 32" "31 - (31 - n) = n" "31 - n < 32" by simp_all
    then show "bit (bsdl_idcode info) n = bit (0x14951185 :: u32) n"
      using info(4) [of "31 - n"] chip_ids_bits [of "31 - n"] by simp
  qed
  then have "info_matches 0x14951185 info" by (simp add: info_matches_def)
  with info(1,2) cmd show thesis by (rule that)
qed

lemma chip_library:
  obtains info where "bsdl_wf x86_64 chip_fs example_bsdl" "bsdl_library x86_64 chip_fs example_bsdl = [info]"
    and "bsdl_IR_size info = 4" "cmd_debug info = 8" "info_matches 0x14951185 info"
proof -
  obtain info where info: "parse_extract_values x86_64 (fs_fopen chip_fs p) = Some (Defined (Some info))" "bsdl_IR_size info = 4"
      "cmd_debug info = 8" "info_matches 0x14951185 info" for p
    using chip_file unfolding chip_fs_def by (metis file_system.select_convs(2))
  have names: "is_bsdl_file (asc ''chip.bsd'')" "length (asc ''chip.bsd'') + length (asc ''.'') + 2 < 64"
    "asc ''~/.bsdl'' \<noteq> asc ''.''" "asc ''/usr/share/bsdl'' \<noteq> asc ''.''" "asc ''/opt/bsdl'' \<noteq> asc ''.''"
    by code_simp+
  have "readable x86_64 chip_fs dir (fs_opendir chip_fs dir)" for dir
    using info(1) names(2) by (auto simp: readable_def chip_fs_def split: if_splits)
  then have "bsdl_wf x86_64 chip_fs example_bsdl"
    by (simp add: bsdl_wf_def example_bsdl_def bsdl_init_def) (simp add: readable_def)
  moreover have "dir_infos x86_64 chip_fs (asc ''.'') (fs_opendir chip_fs (asc ''.'')) = [info]"
    using info(1) names(1) by (simp add: dir_infos_def file_info_def chip_fs_def)
  moreover have "fs_opendir chip_fs dir = None" if "dir \<noteq> asc ''.''" for dir
    using that by (simp add: chip_fs_def)
  moreover have "dir_infos x86_64 chip_fs dir None = []" for dir
    by (simp add: dir_infos_def)
  ultimately show thesis
    using info(2-4) names by (intro that) (simp_all add: bsdl_library_def example_bsdl_def bsdl_init_def upt_rec)
qed

definition chip_cable :: "chip_board board jtag_cable" where
  "chip_cable = xess_cable_driver x86_64 (\<lambda>s. (APP_ERR_NONE, s)) (board_port xess_wiring board_step board_tdo)"

definition chip_bridge :: "chip_board board bridge" where
  "chip_bridge = \<lparr>target_dev_pos = 0, do_selftest = False, ir_reallocs = 0, ir_sets = [(1, 5)], cmd_line_cmd_debug = -1,
     rsp_port = None, jsp_port = None, hwp_port = None, force_alt_vjtag = 0, device_ids = [], bsdl_files = example_bsdl,
     jtag = init_chain \<lparr>lines = 0, board_dev = \<lparr>scan_tap = Test_Logic_Reset, scan_reg = [],
       scan_cap = chain_bits [Idcode 0x14951185, Bypass], brd_shifted = [], brd_updates = []\<rparr>\<rparr>\<rparr>"

lemma chip_bridge_knows:
  obtains lib where "knows x86_64 chip_fs lib chip_bridge"
    and "known_lengths lib (\<lambda>i. if i = 0 then 4 else 5) (chip_bridge\<lparr>device_ids := map chip_code [Idcode 0x14951185, Bypass]\<rparr>)"
    and "cmd_known lib (cmd_line_cmd_debug chip_bridge) (chip_code ([Idcode 0x14951185, Bypass] ! 0)) 8"
proof -
  obtain info where info: "bsdl_wf x86_64 chip_fs example_bsdl" "bsdl_library x86_64 chip_fs example_bsdl = [info]"
      "bsdl_IR_size info = 4" "cmd_debug info = 8" "info_matches 0x14951185 info"
    by (rule chip_library)
  have manuf: "manuf_id 0x14951185 = 0xC2" by (simp add: manuf_id_def)
  show thesis
  proof (rule that [of "[info]"])
    show "knows x86_64 chip_fs [info] chip_bridge" using info(1,2) by (simp add: knows_def chip_bridge_def)
    show "known_lengths [info] (\<lambda>i. if i = 0 then 4 else 5) (chip_bridge\<lparr>device_ids := map chip_code [Idcode 0x14951185, Bypass]\<rparr>)"
      using info(3,5)
      by (auto simp: known_lengths_def length_known_def length_setting_def described_def chip_bridge_def less_Suc_eq
          const_simps upt_rec)
    show "cmd_known [info] (cmd_line_cmd_debug chip_bridge) (chip_code ([Idcode 0x14951185, Bypass] ! 0)) 8"
      using info(4,5) by (simp add: cmd_known_def chip_bridge_def manuf const_simps described_def)
  qed
qed

lemma chip_board_chain: "chip_chain chip_cable board_dev board_step board_tdo board_view scan_dev.truncate"
  unfolding chip_cable_def by (rule xess_chips.chip_chain_axioms)

theorem configure_selects_debug_witness:
  "\<exists>s' u. configure_chain x86_64 DBG_HW_ADVANCED chip_fs chip_cable chip_bridge = Returns s' \<and>
     brd_updates (board_dev (cable (jtag s'))) = u @ [IR_Update ([False, False, False, True] @ replicate 5 True)]"
proof -
  obtain lib where k: "knows x86_64 chip_fs lib chip_bridge"
      "known_lengths lib (\<lambda>i. if i = 0 then 4 else 5) (chip_bridge\<lparr>device_ids := map chip_code [Idcode 0x14951185, Bypass]\<rparr>)"
      "cmd_known lib (cmd_line_cmd_debug chip_bridge) (chip_code ([Idcode 0x14951185, Bypass] ! 0)) 8"
    by (rule chip_bridge_knows)
  have bits: "word_bits 4 (8 :: u32) = [False, False, False, True]" "manuf_id 0x14951185 = 0xC2"
    by (simp_all add: word_bits_def upt_rec manuf_id_def)
  have "\<exists>s' cf u. configure_chain x86_64 DBG_HW_ADVANCED chip_fs chip_cable chip_bridge = Returns s' \<and>
      device_ids s' = map chip_code [Idcode 0x14951185, Bypass] \<and> conf (jtag s') = placed [4, 5] 0 cf \<and>
      at_idle (board_view (board_dev (cable (jtag s')))) (u @ [IR_Update
        (replicate (sum_list (take 0 [4, 5])) True @ word_bits ([4, 5] ! 0) 8 @ replicate (sum_list (drop (Suc 0) [4, 5])) True)])"
    by (rule configure_selects_debug [OF chip_board_chain _ _ _ _ k(1,2) _ _ _ _ _ k(3)])
      (simp_all add: chip_bridge_def init_chain_def bits_word_def upt_rec const_simps bits(2) scan_dev.truncate_def)
  then show ?thesis by (auto simp: bits(1) at_idle_def board_view_def)
qed

lemma configure_chain_fits:
  assumes "configure_chain h hw fs cb s = Returns s'" "force_alt_vjtag s \<in> {-1, 0, 1}"
  shows "fits_chain (length (device_ids s')) (unat (target_dev_pos s)) (conf (jtag s')) \<and>
    (global_altera_virtual_jtag (conf (jtag s')) \<or> global_jtag_cmd_debug (conf (jtag s')) \<noteq> TAP_CMD_INVALID) \<and>
    (hw = DBG_HW_LEGACY \<longrightarrow> length (device_ids s') = 1) \<and> bridge_opts.truncate s' = bridge_opts.truncate s"
proof -
  from assms(1) obtain s1 s2 s3 s4 s5 where steps: "enumerate_devices h cb s = Returns s1"
      "list_devices h fs (device_ids s1) s1 = Returns s2" "\<not> (hw = DBG_HW_LEGACY \<and> length (device_ids s2) > 1)"
      "unat (target_dev_pos s2) < length (device_ids s2)" "set_chain_sizes h fs s2 = Returns s3"
      "set_debug_mode h fs s3 = Returns s4" "check_idcode h fs cb s4 = Returns s5" "enable_debug h cb s5 = Returns s'"
    unfolding configure_chain_def and_then_Returns by (auto simp: and_then_Returns split: if_splits)
  have opts: "target_dev_pos s1 = target_dev_pos s" "force_alt_vjtag s1 = force_alt_vjtag s"
    using steps(1) by (auto simp: enumerate_devices_def Let_def split: prod.splits if_splits)
  have 2: "same_setup s1 s2" using list_devices_frame [OF steps(2)] by blast
  note 3 = set_chain_sizes_frame [OF steps(5,4)]
  have "force_alt_vjtag s3 \<in> {-1, 0, 1}" using same_setupD [OF 2] same_setupD [OF conjunct1 [OF 3]] opts assms(2) by simp
  note 4 = set_debug_mode_frame [OF steps(6) this]
  have 5: "conf (jtag s5) = conf (jtag s4)" "same_setup s4 s5"
    using steps(7) by (auto simp: check_idcode_def and_then_Returns Let_def split_beta split: if_splits dest!: ask_bsdl_frame)
  have 6: "conf (jtag s') = conf (jtag s5)" "same_setup s5 s'"
    using steps(8) by (auto simp: enable_debug_def Let_def split_beta split: if_splits)
  have "device_ids s' = device_ids s2" "target_dev_pos s2 = target_dev_pos s"
    using 2 3 4 5(2) 6(2) opts by (simp_all add: same_setup_def bridge_opts.truncate_def)
  moreover obtain cmd alt x where conf4: "conf (jtag s4) = (conf (jtag s3))\<lparr>global_jtag_cmd_debug := cmd,
      global_altera_virtual_jtag := alt, global_xilinx_bscan := x\<rparr>" "alt \<or> cmd \<noteq> TAP_CMD_INVALID"
    using 4 by blast
  moreover have "fits_chain n t (conf (jtag s4)) = fits_chain n t (conf (jtag s3))" for n t
    by (simp add: conf4(1) fits_chain_def)
  moreover have "length (device_ids s2) = 1" if "hw = DBG_HW_LEGACY" using that steps(3,4) by linarith
  moreover have "bridge_opts.truncate s1 = bridge_opts.truncate s"
    using steps(1) by (auto simp: enumerate_devices_def Let_def bridge_opts.truncate_def split: prod.splits if_splits)
  then have "bridge_opts.truncate s' = bridge_opts.truncate s"
    using 2 3 4 5(2) 6(2) by (simp add: same_setup_def)
  ultimately show ?thesis
    using conjunct2 [OF 3] by (simp add: 5(1) 6(1))
qed

text \<open>
  C37: Whatever cable is used, whatever it reports, and whatever the BSDL files and the command line
  say: if \<open>configure_chain\<close> goes on, the settings of the scan-chain layer fit the chain it found. The
  target is one of the devices, the devices before it and behind it add up to all others, no
  length is negative or has overflowed, a debug command is there unless virtual JTAG is in
  use, and with legacy hardware there is just one device.
\<close>

theorem configuration_fits:
  assumes "configure_chain h hw fs cb s = Returns s'" "force_alt_vjtag s \<in> {-1, 0, 1}"
  shows "fits_chain (length (device_ids s')) (unat (target_dev_pos s)) (conf (jtag s')) \<and>
    (global_altera_virtual_jtag (conf (jtag s')) \<or> global_jtag_cmd_debug (conf (jtag s')) \<noteq> TAP_CMD_INVALID) \<and>
    (hw = DBG_HW_LEGACY \<longrightarrow> length (device_ids s') = 1)"
  using configure_chain_fits [OF assms] by blast

theorem configuration_fits_witness:
  "\<exists>s'. configure_chain x86_64 DBG_HW_ADVANCED chip_fs chip_cable chip_bridge = Returns s' \<and>
     fits_chain (length (device_ids s')) 0 (conf (jtag s'))"
proof -
  obtain lib where k: "knows x86_64 chip_fs lib chip_bridge"
      "known_lengths lib (\<lambda>i. if i = 0 then 4 else 5) (chip_bridge\<lparr>device_ids := map chip_code [Idcode 0x14951185, Bypass]\<rparr>)"
      "cmd_known lib (cmd_line_cmd_debug chip_bridge) (chip_code ([Idcode 0x14951185, Bypass] ! 0)) 8"
    by (rule chip_bridge_knows)
  have "manuf_id 0x14951185 = 0xC2" by (simp add: manuf_id_def)
  then have "\<exists>s'. configure_chain x86_64 DBG_HW_ADVANCED chip_fs chip_cable chip_bridge = Returns s'"
    using chip_chain.configure_known [OF chip_board_chain _ _ _ _ k(1,2) _ _ _ _ _ k(3), of "[4, 5]" DBG_HW_ADVANCED]
    by (auto simp: chip_bridge_def init_chain_def bits_word_def upt_rec const_simps scan_dev.truncate_def)
  then obtain s' where s': "configure_chain x86_64 DBG_HW_ADVANCED chip_fs chip_cable chip_bridge = Returns s'" by blast
  from configuration_fits [OF this] have "fits_chain (length (device_ids s')) 0 (conf (jtag s'))"
    by (simp add: chip_bridge_def)
  with s' show ?thesis by blast
qed

text \<open>
  A chain with a chip whose instruction register has an unknown length, to the command line and
  to the BSDL files, cannot be worked with, even if the chip is not the target: the program
  ends with the exit status 1.
\<close>

theorem unknown_length_exits:
  assumes "chip_chain cb dev dstep dtdo view scan"
    and chips: "scan_cap (scan (dev (cable (jtag s)))) = chain_bits ds" "ds \<noteq> []" "\<forall>d \<in> set ds. legal_chip d"
      "length ds \<le> MAX_DEVICES" "\<And>n. malloc_ok h n"
    and lib: "knows h fs lib s" and unknown: "i < length ds" "length_unknown lib (ir_sets s) i (chip_code (ds ! i))"
    and others: "\<And>j. j < length ds \<Longrightarrow> j \<noteq> i \<Longrightarrow> length_known lib (ir_sets s) j (chip_code (ds ! j)) (int (len j))"
      "sum_list (map len [0..<length ds]) < 2 ^ 31"
    and target: "unat (target_dev_pos s) < length ds" and hw: "hw = DBG_HW_LEGACY \<longrightarrow> length ds = 1"
  shows "configure_chain h hw fs cb s = Exits 1"
proof -
  obtain c u where enum: "enumerate_devices h cb s = Returns (s\<lparr>jtag := c, device_ids := map chip_code ds\<rparr>)"
    by (rule chip_chain.enumerate_devices_chips [OF assms(1) chips])
  define t where "t = s\<lparr>jtag := c, device_ids := map chip_code ds\<rparr>"
  have "knows h fs lib t" using lib by (simp add: t_def)
  then obtain db where db: "list_devices h fs (device_ids t) t = Returns (t\<lparr>bsdl_files := db\<rparr>)"
      "knows h fs lib (t\<lparr>bsdl_files := db\<rparr>)"
    using list_devices_returns by blast
  have "set_chain_sizes h fs (t\<lparr>bsdl_files := db\<rparr>) = Exits 1"
    by (rule set_chain_sizes_unknown [OF db(2), of i len]) (use unknown others target in \<open>auto simp: t_def\<close>)
  with enum db(1) target hw show ?thesis by (simp add: configure_chain_def t_def)
qed

theorem unknown_length_exits_witness:
  "configure_chain x86_64 DBG_HW_ADVANCED chip_fs chip_cable (chip_bridge\<lparr>ir_sets := []\<rparr>) = Exits 1"
proof -
  obtain lib where k: "knows x86_64 chip_fs lib chip_bridge"
      "known_lengths lib (\<lambda>i. if i = 0 then 4 else 5) (chip_bridge\<lparr>device_ids := map chip_code [Idcode 0x14951185, Bypass]\<rparr>)"
    by (rule chip_bridge_knows)
  have len: "length_known lib [(1, 5)] 0 0x14951185 4"
    using k(2) by (auto simp: known_lengths_def chip_bridge_def dest!: spec [of _ 0])
  have "length_setting [(1, 5)] 0 = length_setting [] 0" by (simp add: length_setting_def)
  with len have len0: "length_known lib [] 0 0x14951185 4" by (simp add: length_known_def)
  show ?thesis
    by (rule unknown_length_exits [OF chip_board_chain, where ds = "[Idcode 0x14951185, Bypass]" and i = 1 and
          len = "\<lambda>_. 4" and lib = lib])
      (use k(1) len0 in \<open>auto simp: knows_def chip_bridge_def init_chain_def bits_word_def upt_rec const_simps
        scan_dev.truncate_def length_unknown_def length_setting_def less_Suc_eq\<close>)
qed

end
