(* ===== verification/Self_Test.thy ===== *)
theory Self_Test
  imports Dbg_Api
begin

text \<open>
  The self test of the connection (\<^verbatim>\<open>or32_selftest.c\<close>). It stops the CPU, tests the memory, then
  puts a small program into it, lets the CPU run the program step by step and up to traps, and
  compares the sum of the registers it reads with a constant. The functions are stated over the
  record of the calls of the debug API they use, \<open>debug_port\<close>; \<open>api_port\<close> is the record of the
  calls in \<open>Dbg_Api\<close>.

  The second half is about a target: an OpenRISC CPU with its memory, as far as the instructions of
  the test and the registers of its debug unit go. On every port that behaves like such a target, the
  self test succeeds.
\<close>

section \<open>The calls of the API\<close>

record 's debug_port =
  port_wb_read32 :: "u32 \<Rightarrow> u32 \<Rightarrow> 's \<Rightarrow> (u32 option \<times> u32) \<times> 's"
  port_wb_write32 :: "u32 \<Rightarrow> u32 \<Rightarrow> 's \<Rightarrow> u32 option \<times> 's"
  port_wb_read_block32 :: "u32 \<Rightarrow> u8 list \<Rightarrow> int \<Rightarrow> 's \<Rightarrow> (u32 option \<times> u8 list) \<times> 's"
  port_wb_read_block16 :: "u32 \<Rightarrow> u8 list \<Rightarrow> int \<Rightarrow> 's \<Rightarrow> (u32 option \<times> u8 list) \<times> 's"
  port_wb_read_block8 :: "u32 \<Rightarrow> u8 list \<Rightarrow> int \<Rightarrow> 's \<Rightarrow> (u32 option \<times> u8 list) \<times> 's"
  port_wb_write_block32 :: "u32 \<Rightarrow> u8 list \<Rightarrow> int \<Rightarrow> 's \<Rightarrow> (u32 option \<times> u8 list) \<times> 's"
  port_wb_write_block16 :: "u32 \<Rightarrow> u8 list \<Rightarrow> int \<Rightarrow> 's \<Rightarrow> (u32 option \<times> u8 list) \<times> 's"
  port_wb_write_block8 :: "u32 \<Rightarrow> u8 list \<Rightarrow> int \<Rightarrow> 's \<Rightarrow> u32 option \<times> 's"
  port_cpu0_read :: "u32 \<Rightarrow> u32 \<Rightarrow> 's \<Rightarrow> (u32 option \<times> u32) \<times> 's"
  port_cpu0_write :: "u32 \<Rightarrow> u32 \<Rightarrow> 's \<Rightarrow> u32 option \<times> 's"
  port_cpu0_read_ctrl :: "u32 \<Rightarrow> u8 \<Rightarrow> 's \<Rightarrow> (u32 option \<times> u8) \<times> 's"
  port_cpu0_write_ctrl :: "u32 \<Rightarrow> u8 \<Rightarrow> 's \<Rightarrow> u32 option \<times> 's"

definition api_port :: "host \<Rightarrow> debug_hardware \<Rightarrow> 'c jtag_cable \<Rightarrow> 'c dbg debug_port" where
  "api_port h hw cb =
     \<lparr>port_wb_read32 = dbg_wb_read32 h hw cb,
      port_wb_write32 = dbg_wb_write32 h hw cb,
      port_wb_read_block32 = dbg_wb_read_block32 h hw cb,
      port_wb_read_block16 = dbg_wb_read_block16 h hw cb,
      port_wb_read_block8 = dbg_wb_read_block8 h hw cb,
      port_wb_write_block32 = dbg_wb_write_block32 h hw cb,
      port_wb_write_block16 = dbg_wb_write_block16 h hw cb,
      port_wb_write_block8 = dbg_wb_write_block8 h hw cb,
      port_cpu0_read = dbg_cpu0_read h hw cb,
      port_cpu0_write = dbg_cpu0_write h hw cb,
      port_cpu0_read_ctrl = dbg_cpu0_read_ctrl h hw cb,
      port_cpu0_write_ctrl = dbg_cpu0_write_ctrl h hw cb\<rparr>"

text \<open>A call that fails, and one that has ended the process already, end it with the status 1.\<close>

type_synonym ('a, 's) test_step = "'s \<Rightarrow> ('a \<times> 's) outcome"

definition check :: "u32 option \<Rightarrow> 'a \<times> 's \<Rightarrow> ('a \<times> 's) outcome" where
  "check i r = (if i = Some APP_ERR_NONE then Returns r else Exits 1)"

definition done_with :: "'a \<Rightarrow> ('a, 's) test_step" where
  "done_with x s = Returns (x, s)"

definition then_do :: "('a, 's) test_step \<Rightarrow> ('a \<Rightarrow> ('b, 's) test_step) \<Rightarrow> ('b, 's) test_step" where
  "then_do m f s = and_then (m s) (\<lambda>(x, s). f x s)"

primrec do_all :: "(unit, 's) test_step list \<Rightarrow> (unit, 's) test_step" where
  "do_all [] = done_with ()"
| "do_all (m # ms) = then_do m (\<lambda>_. do_all ms)"

definition wr32 :: "'s debug_port \<Rightarrow> u32 \<Rightarrow> u32 \<Rightarrow> (unit, 's) test_step" where
  "wr32 p adr data s = (let (e, s) = port_wb_write32 p adr data s in check e ((), s))"

definition rd32 :: "'s debug_port \<Rightarrow> u32 \<Rightarrow> u32 \<Rightarrow> (u32, 's) test_step" where
  "rd32 p adr data s = (let ((e, data), s) = port_wb_read32 p adr data s in check e (data, s))"

definition cpu_wr :: "'s debug_port \<Rightarrow> u32 \<Rightarrow> u32 \<Rightarrow> (unit, 's) test_step" where
  "cpu_wr p adr data s = (let (e, s) = port_cpu0_write p adr data s in check e ((), s))"

definition cpu_rd :: "'s debug_port \<Rightarrow> u32 \<Rightarrow> u32 \<Rightarrow> (u32, 's) test_step" where
  "cpu_rd p adr data s = (let ((e, data), s) = port_cpu0_read p adr data s in check e (data, s))"

definition ctrl_wr :: "'s debug_port \<Rightarrow> u32 \<Rightarrow> u8 \<Rightarrow> (unit, 's) test_step" where
  "ctrl_wr p adr data s = (let (e, s) = port_cpu0_write_ctrl p adr data s in check e ((), s))"

definition ctrl_rd :: "'s debug_port \<Rightarrow> u32 \<Rightarrow> u8 \<Rightarrow> (u8, 's) test_step" where
  "ctrl_rd p adr data s = (let ((e, data), s) = port_cpu0_read_ctrl p adr data s in check e (data, s))"

text \<open>A block that is longer than the array it is read into overwrites what lies behind; this is
  undefined.\<close>

definition blk :: "(u32 \<Rightarrow> u8 list \<Rightarrow> int \<Rightarrow> 's \<Rightarrow> (u32 option \<times> u8 list) \<times> 's) \<Rightarrow>
    u32 \<Rightarrow> u8 list \<Rightarrow> int \<Rightarrow> (u8 list, 's) test_step" where
  "blk f adr buf len s = (let ((e, out), s) = f adr buf len s
     in if length buf < length out then Hangs else check e (out, s))"

section \<open>The tests\<close>

text \<open>The local variables are not initialised. A call that succeeds overwrites the whole variable, so
  the value 0 they are given here is never seen.\<close>

definition CPU_OP_ADR :: u32 where [const_simps]: "CPU_OP_ADR = 0"
definition MC_BASE_ADDR :: u32 where [const_simps]: "MC_BASE_ADDR = 0x93000000"
definition SDRAM_BASE :: u32 where [const_simps]: "SDRAM_BASE = 0"
definition SDRAM_SIZE :: u32 where [const_simps]: "SDRAM_SIZE = 0x400"
definition SRAM_BASE :: u32 where [const_simps]: "SRAM_BASE = 0"
definition SRAM_SIZE :: u32 where [const_simps]: "SRAM_SIZE = 0x04000000"
definition FLASH_BASE_ADDR :: u32 where [const_simps]: "FLASH_BASE_ADDR = 0xf0000000"
definition FLASH_BAR_VAL :: u32 where [const_simps]: "FLASH_BAR_VAL = FLASH_BASE_ADDR"
definition SDRAM_BAR_VAL :: u32 where [const_simps]: "SDRAM_BAR_VAL = SDRAM_BASE"
definition SDRAM_AMR_VAL :: u32 where [const_simps]: "SDRAM_AMR_VAL = NOT (SDRAM_SIZE - 1)"

definition stall_cpus :: "'s debug_port \<Rightarrow> (u32, 's) test_step" where
  "stall_cpus p =
     then_do (ctrl_wr p 0 0x01) (\<lambda>_.
     then_do (ctrl_rd p 0 0) (\<lambda>stalled.
     done_with (if stalled AND 0x1 = 0 then APP_ERR_TEST_FAIL else APP_ERR_NONE)))"

definition write_list :: "'s debug_port \<Rightarrow> u32 \<Rightarrow> (u32 \<times> u32) list \<Rightarrow> (unit, 's) test_step" where
  "write_list p base ws = do_all (map (\<lambda>(offset, data). wr32 p (base + offset) data) ws)"

text \<open>Reads one address after the other into the same variable.\<close>

primrec read_list :: "'s debug_port \<Rightarrow> u32 \<Rightarrow> u32 list \<Rightarrow> u32 \<Rightarrow> (u32, 's) test_step" where
  "read_list p base [] insn = done_with insn"
| "read_list p base (offset # offsets) insn =
     then_do (rd32 p (base + offset) insn) (read_list p base offsets)"

text \<open>The memory controller.\<close>

definition MC_BAR_0 :: u32 where [const_simps]: "MC_BAR_0 = 0x00"
definition MC_AMR_0 :: u32 where [const_simps]: "MC_AMR_0 = 0x04"
definition MC_WTR_0 :: u32 where [const_simps]: "MC_WTR_0 = 0x30"
definition MC_RTR_0 :: u32 where [const_simps]: "MC_RTR_0 = 0x34"
definition MC_OSR :: u32 where [const_simps]: "MC_OSR = 0xe8"
definition MC_BAR_1 :: u32 where [const_simps]: "MC_BAR_1 = 0x08"
definition MC_BAR_4 :: u32 where [const_simps]: "MC_BAR_4 = 0x80"
definition MC_AMR_1 :: u32 where [const_simps]: "MC_AMR_1 = 0x0c"
definition MC_AMR_4 :: u32 where [const_simps]: "MC_AMR_4 = 0x84"
definition MC_CCR_1 :: u32 where [const_simps]: "MC_CCR_1 = 0x24"
definition MC_CCR_4 :: u32 where [const_simps]: "MC_CCR_4 = 0xa0"
definition MC_RATR :: u32 where [const_simps]: "MC_RATR = 0xb0"
definition MC_RCDR :: u32 where [const_simps]: "MC_RCDR = 0xc8"
definition MC_RCTR :: u32 where [const_simps]: "MC_RCTR = 0xb4"
definition MC_REFCTR :: u32 where [const_simps]: "MC_REFCTR = 0xc4"
definition MC_PTR :: u32 where [const_simps]: "MC_PTR = 0xbc"
definition MC_RRDR :: u32 where [const_simps]: "MC_RRDR = 0xb8"
definition MC_RIR :: u32 where [const_simps]: "MC_RIR = 0xcc"
definition MC_ORR :: u32 where [const_simps]: "MC_ORR = 0xe4"
definition FLASH_AMR_VAL :: u32 where [const_simps]: "FLASH_AMR_VAL = 0xf0000000"
definition FLASH_WTR_VAL :: u32 where [const_simps]: "FLASH_WTR_VAL = 0x00011009"
definition FLASH_RTR_VAL :: u32 where [const_simps]: "FLASH_RTR_VAL = 0x01002009"
definition SDRAM_RATR_VAL :: u32 where [const_simps]: "SDRAM_RATR_VAL = 0x00000006"
definition SDRAM_RCDR_VAL :: u32 where [const_simps]: "SDRAM_RCDR_VAL = 0x00000002"
definition SDRAM_RCTR_VAL :: u32 where [const_simps]: "SDRAM_RCTR_VAL = 0x00000006"
definition SDRAM_REFCTR_VAL :: u32 where [const_simps]: "SDRAM_REFCTR_VAL = 0x00000006"
definition SDRAM_PTR_VAL :: u32 where [const_simps]: "SDRAM_PTR_VAL = 0x00000001"
definition SDRAM_RRDR_VAL :: u32 where [const_simps]: "SDRAM_RRDR_VAL = 0x00000000"
definition SDRAM_RIR_VAL :: u32 where [const_simps]: "SDRAM_RIR_VAL = 0x000000C0"

definition init_mc :: "'s debug_port \<Rightarrow> (unit, 's) test_step" where
  "init_mc p =
     then_do (write_list p MC_BASE_ADDR
       ([(MC_BAR_0, FLASH_BAR_VAL AND 0xffff0000), (MC_AMR_0, FLASH_AMR_VAL AND 0xffff0000),
         (MC_WTR_0, FLASH_WTR_VAL), (MC_RTR_0, FLASH_RTR_VAL), (MC_OSR, 0x40000000),
         (MC_BAR_4, SDRAM_BAR_VAL AND 0xffff0000), (MC_AMR_4, SDRAM_AMR_VAL AND 0xffff0000),
         (MC_CCR_4, 0x00bf0005), (MC_RATR, SDRAM_RATR_VAL), (MC_RCDR, SDRAM_RCDR_VAL),
         (MC_RCTR, SDRAM_RCTR_VAL), (MC_REFCTR, SDRAM_REFCTR_VAL), (MC_PTR, SDRAM_PTR_VAL),
         (MC_RRDR, SDRAM_RRDR_VAL), (MC_RIR, SDRAM_RIR_VAL), (MC_OSR, 0x5e000000), (MC_ORR, 0x5e000000),
         (MC_OSR, 0x6e000000)]
        @ replicate 8 (MC_ORR, 0x6e000000)
        @ [(MC_OSR, 0x7e000033), (MC_ORR, 0x7e000033), (MC_CCR_4, 0xc0bf0005)])) (\<lambda>_.
     then_do (rd32 p (MC_BASE_ADDR + MC_CCR_4) 0) (\<lambda>insn.
     done_with ()))"

definition init_sram :: "'s debug_port \<Rightarrow> (unit, 's) test_step" where
  "init_sram p = write_list p MC_BASE_ADDR
     [(MC_BAR_1, SRAM_BASE AND 0xffff0000), (MC_AMR_1, NOT (SRAM_SIZE - 1) AND 0xffff0000), (MC_CCR_1, 0xc020001f)]"

function doublings :: "nat \<Rightarrow> nat \<Rightarrow> nat list" where
  "doublings i n = (if 0 < i \<and> i < n then i # doublings (2 * i) n else [])"
  by pat_completeness auto
termination by (relation "measure (\<lambda>(i, n). n - i)") auto

primrec compare_words :: "'s debug_port \<Rightarrow> nat list \<Rightarrow> (u32, 's) test_step" where
  "compare_words p [] = done_with APP_ERR_NONE"
| "compare_words p (i # is) =
     then_do (rd32 p (SDRAM_BASE + of_nat i) 0) (\<lambda>insn.
     if i \<noteq> unat insn then done_with APP_ERR_TEST_FAIL else compare_words p is)"

text \<open>The blocks of \<open>test_sdram\<close>: a block is written, read back and compared.\<close>

definition block_test :: "(u8 list, 's) test_step \<Rightarrow> (u8 list \<Rightarrow> (u8 list, 's) test_step) \<Rightarrow> u8 list
    \<Rightarrow> (u32, 's) test_step \<Rightarrow> (u32, 's) test_step" where
  "block_test write_block read_block data next_test =
     then_do write_block (\<lambda>buf.
     then_do (read_block buf) (\<lambda>out.
     if take (length data) out \<noteq> data then done_with APP_ERR_TEST_FAIL else next_test))"

definition data4 :: "u8 list" where
  "data4 = words_to_bytes (map (\<lambda>i. push_bit 24 (of_nat (4 * i + 3)) OR push_bit 16 (of_nat (4 * i + 2))
     OR push_bit 8 (of_nat (4 * i + 1)) OR of_nat (4 * i)) [0..<0x20 div 4])"

definition data2 :: "u8 list" where
  "data2 = concat (map (\<lambda>i. half_to_bytes (push_bit 8 (of_nat (4 * i + 1)) OR of_nat (4 * i))) [0..<0x20 div 2])"

definition data1 :: "u8 list" where
  "data1 = map (\<lambda>i. of_nat (4 * i)) [0..<0x20]"

definition test_sdram :: "'s debug_port \<Rightarrow> (u32, 's) test_step" where
  "test_sdram p =
     (let is = doublings 0x10 (unat (SDRAM_SIZE + SDRAM_BASE))
      in then_do (write_list p SDRAM_BASE (map (\<lambda>i. (of_nat i, of_nat i)) is)) (\<lambda>_.
         then_do (compare_words p is) (\<lambda>r.
         if r \<noteq> APP_ERR_NONE then done_with r
         else block_test (blk (port_wb_write_block32 p) SDRAM_BASE data4 0x20)
                (\<lambda>buf. blk (port_wb_read_block32 p) SDRAM_BASE buf 0x20) data4
             (block_test (blk (port_wb_write_block16 p) SDRAM_BASE data2 0x20)
                (\<lambda>buf. blk (port_wb_read_block16 p) SDRAM_BASE buf 0x20) data2
             (block_test (\<lambda>s. let (e, s) = port_wb_write_block8 p SDRAM_BASE data1 0x20 s in check e (data1, s))
                (\<lambda>buf. blk (port_wb_read_block8 p) SDRAM_BASE buf 0x20) data1
             (done_with APP_ERR_NONE))))))"

definition write_and_read :: "'s debug_port \<Rightarrow> u32 \<Rightarrow> (u32, 's) test_step \<Rightarrow> (u32, 's) test_step" where
  "write_and_read p w next_test =
     then_do (wr32 p (SDRAM_BASE + 0) w) (\<lambda>_.
     then_do (rd32 p (SDRAM_BASE + 0) 0) (\<lambda>insn.
     if insn \<noteq> w then done_with APP_ERR_TEST_FAIL else next_test))"

definition test_sdram_2 :: "'s debug_port \<Rightarrow> (u32, 's) test_step" where
  "test_sdram_2 p =
     write_and_read p 0x12345678 (
     write_and_read p 0x11112222 (
     then_do (write_list p SDRAM_BASE
       [(0x04, 0x33334444), (0x08, 0x55556666), (0x0c, 0x77778888), (0x10, 0x9999aaaa),
        (0x14, 0xbbbbcccc), (0x18, 0xddddeeee), (0x1c, 0xffff0000), (0x20, 0xdeadbeef)]) (\<lambda>_.
     then_do (read_list p SDRAM_BASE [0x00, 0x04, 0x08, 0x0c, 0x10, 0x14, 0x18, 0x1c, 0x20] 0) (\<lambda>insn.
     done_with (if insn \<noteq> 0xdeadbeef then APP_ERR_TEST_FAIL else APP_ERR_NONE)))))"

definition test_sram :: "'s debug_port \<Rightarrow> (u32, 's) test_step" where
  "test_sram p =
     then_do (write_list p SRAM_BASE
       [(0x00, 0x11112222), (0x04, 0x33334444), (0x08, 0x55556666), (0x0c, 0x77778888), (0x10, 0x9999aaaa),
        (0x14, 0xbbbbcccc), (0x18, 0xddddeeee), (0x1c, 0xffff0000), (0x20, 0xdedababa)]) (\<lambda>_.
     then_do (read_list p SRAM_BASE [0x00, 0x04, 0x08, 0x0c, 0x10, 0x14, 0x18, 0x1c, 0x20] 0) (\<lambda>ins.
     done_with (if ins \<noteq> 0xdedababa then APP_ERR_TEST_FAIL else APP_ERR_NONE)))"

section \<open>The test of the CPU\<close>

text \<open>The loop that waits for the CPU to stop; None is a CPU that never does.\<close>

partial_function (option) stall_loop :: "'s debug_port \<Rightarrow> u8 \<Rightarrow> 's \<Rightarrow> (u8 \<times> 's) outcome option" where
  "stall_loop p stalled s =
     (case ctrl_rd p CPU_OP_ADR stalled s of
        Hangs \<Rightarrow> Some Hangs
      | Exits c \<Rightarrow> Some (Exits c)
      | Returns (stalled, s) \<Rightarrow>
          if stalled AND 1 \<noteq> 0 then Some (Returns (stalled, s)) else stall_loop p stalled s)"

definition wait_stalled :: "'s debug_port \<Rightarrow> (u8, 's) test_step" where
  "wait_stalled p s = (case stall_loop p 0 s of None \<Rightarrow> Hangs | Some r \<Rightarrow> r)"

definition unstall :: "'s debug_port \<Rightarrow> (unit, 's) test_step" where
  "unstall p =
     then_do (ctrl_wr p CPU_OP_ADR 0x00) (\<lambda>_.
     then_do (wait_stalled p) (\<lambda>_. done_with ()))"

definition read_state :: "'s debug_port \<Rightarrow> u32 \<Rightarrow> (u32, 's) test_step" where
  "read_state p result =
     then_do (cpu_rd p (push_bit 11 0 + 16) 0) (\<lambda>npc.
     then_do (cpu_rd p (push_bit 11 0 + 18) 0) (\<lambda>ppc.
     then_do (cpu_rd p 0x401 0) (\<lambda>r1.
     done_with (npc + ppc + r1 + result))))"

text \<open>One of the six blocks of the test that put a trap at an address and start the CPU.\<close>

definition trap_at :: "'s debug_port \<Rightarrow> u32 \<Rightarrow> u32 option \<Rightarrow> u32 \<Rightarrow> (u32, 's) test_step" where
  "trap_at p adr start result =
     then_do (rd32 p (SDRAM_BASE + adr) 0) (\<lambda>insn.
     then_do (wr32 p (SDRAM_BASE + adr) 0x21000001) (\<lambda>_.
     then_do (case start of None \<Rightarrow> done_with () | Some pc \<Rightarrow> cpu_wr p (push_bit 11 0 + 16) (SDRAM_BASE + pc)) (\<lambda>_.
     then_do (unstall p) (\<lambda>_.
     then_do (read_state p result) (\<lambda>result.
     then_do (wr32 p (SDRAM_BASE + adr) insn) (\<lambda>_.
     done_with result))))))"

definition test_program :: "(u32 \<times> u32) list" where
  "test_program =
     [(0x00, 0xe0000005), (0x04, 0x9c200000), (0x08, 0x18400000), (0x0c, 0xa8420030), (0x10, 0x9c210001),
      (0x14, 0x9c210001), (0x18, 0xd4020800), (0x1c, 0x9c210001), (0x20, 0x84620000), (0x24, 0x03fffffb),
      (0x28, 0xe0211800)]"

definition test_or1k_cpu0 :: "'s debug_port \<Rightarrow> (u32, 's) test_step" where
  "test_or1k_cpu0 p =
     then_do (write_list p SDRAM_BASE test_program) (\<lambda>_.
     then_do (cpu_wr p (push_bit 11 0 + 17) 0x01) (\<lambda>_.
     then_do (cpu_wr p (push_bit 11 6 + 20) 0x2000) (\<lambda>_.
     then_do (cpu_wr p (push_bit 11 0 + 16) SDRAM_BASE) (\<lambda>_.
     then_do (cpu_wr p (push_bit 11 6 + 16) (push_bit 22 1)) (\<lambda>_.
     then_do (do_all (replicate 11 (unstall p))) (\<lambda>_.
     then_do (read_state p 0) (\<lambda>result.
     then_do (cpu_wr p (push_bit 11 6 + 16) 0) (\<lambda>_.
     then_do (trap_at p 0x28 None result) (\<lambda>result.
     then_do (trap_at p 0x24 (Some 0x10) result) (\<lambda>result.
     then_do (trap_at p 0x20 (Some 0x24) result) (\<lambda>result.
     then_do (trap_at p 0x1c (Some 0x20) result) (\<lambda>result.
     then_do (trap_at p 0x20 (Some 0x1c) result) (\<lambda>result.
     then_do (trap_at p 0x10 (Some 0x20) result) (\<lambda>result.
     then_do (cpu_wr p (push_bit 11 6 + 16) (push_bit 22 1)) (\<lambda>_.
     then_do (do_all (replicate 5 (unstall p))) (\<lambda>_.
     then_do (read_state p result) (\<lambda>result.
     then_do (cpu_wr p (push_bit 11 0 + 16) (SDRAM_BASE + 0x24)) (\<lambda>_.
     then_do (do_all (replicate 2 (unstall p))) (\<lambda>_.
     then_do (read_state p result) (\<lambda>result.
     done_with (if result XOR 0xdeaddae1 \<noteq> 0xdeaddead then APP_ERR_TEST_FAIL else APP_ERR_NONE)))))))))))))))))))))"

text \<open>The tests that the file selects: \<open>TEST_SRAM\<close> and \<open>TEST_OR1K\<close>.\<close>

definition dbg_test :: "'s debug_port \<Rightarrow> (u32, 's) test_step" where
  "dbg_test p =
     then_do (stall_cpus p) (\<lambda>success.
     if success = APP_ERR_NONE
     then then_do (test_sram p) (\<lambda>r1.
          then_do (test_or1k_cpu0 p) (\<lambda>r2.
          done_with (success OR r1 OR r2)))
     else done_with APP_ERR_TEST_FAIL)"

section \<open>The target of the test\<close>

text \<open>An OpenRISC CPU and its memory, with the registers the test uses: the program counters, the
  branch that waits for its delay slot, and of the debug unit the step bit of DMR1, the trap bit of DSR
  and whether the CPU is stalled. Instructions the test does not contain are a parameter, \<open>other\<close>.\<close>

record or1k =
  mem :: "u32 \<Rightarrow> u32"
  gpr :: "u32 \<Rightarrow> u32"
  npc :: u32
  ppc :: u32
  branch :: "u32 option"
  single_step :: bool
  trap_stalls :: bool
  stalled :: bool

definition field :: "nat \<Rightarrow> nat \<Rightarrow> u32 \<Rightarrow> u32" where
  "field lo len i = take_bit len (drop_bit lo i)"

definition signed16 :: "u32 \<Rightarrow> u32" where
  "signed16 i = scast (ucast i :: 16 word)"

definition signed26 :: "u32 \<Rightarrow> u32" where
  "signed26 i = scast (ucast i :: 26 word)"

text \<open>The effect of an instruction, when the program counters have been moved on.\<close>

definition or1k_exec :: "(u32 \<Rightarrow> or1k \<Rightarrow> or1k) \<Rightarrow> u32 \<Rightarrow> or1k \<Rightarrow> or1k" where
  "or1k_exec other i m =
     (let opcode = field 26 6 i; d = field 21 5 i; ra = gpr m (field 16 5 i); rb = gpr m (field 11 5 i);
          set_d = (\<lambda>x. m\<lparr>gpr := (gpr m)(d := x)\<rparr>)
      in if opcode = 0x00 then m\<lparr>branch := Some (ppc m + push_bit 2 (signed26 i))\<rparr>
         else if opcode = 0x06 \<and> \<not> bit i 16 then set_d (push_bit 16 (field 0 16 i))
         else if field 16 16 i = 0x2100 \<and> trap_stalls m then m\<lparr>stalled := True\<rparr>
         else if opcode = 0x21 then set_d (mem m (ra + signed16 i))
         else if opcode = 0x27 then set_d (ra + signed16 i)
         else if opcode = 0x2a then set_d (ra OR field 0 16 i)
         else if opcode = 0x35
         then m\<lparr>mem := (mem m)(ra + signed16 (push_bit 11 (field 21 5 i) OR field 0 11 i) := rb)\<rparr>
         else if opcode = 0x38 \<and> field 0 10 i = 0x0 then set_d (ra + rb)
         else if opcode = 0x38 \<and> field 0 10 i = 0x5 then set_d (ra XOR rb)
         else other i m)"

definition or1k_step :: "(u32 \<Rightarrow> or1k \<Rightarrow> or1k) \<Rightarrow> or1k \<Rightarrow> or1k" where
  "or1k_step other m =
     (if stalled m then m
      else let t = or1k_exec other (mem m (npc m)) (m\<lparr>ppc := npc m, branch := None,
             npc := (case branch m of Some a \<Rightarrow> a | None \<Rightarrow> npc m + 4)\<rparr>)
           in if single_step m then t\<lparr>stalled := True\<rparr> else t)"

text \<open>Special registers: 16 is the next PC, 18 the previous PC, 17 the supervision register, 0x401 is R1;
  the group 6 is the debug unit.\<close>

definition spr_write :: "u32 \<Rightarrow> u32 \<Rightarrow> or1k \<Rightarrow> or1k" where
  "spr_write a d m =
     (if a = 16 then m\<lparr>npc := d, branch := None\<rparr>
      else if a = push_bit 11 6 + 16 then m\<lparr>single_step := bit d 22\<rparr>
      else if a = push_bit 11 6 + 20 then m\<lparr>trap_stalls := bit d 13\<rparr>
      else m)"

definition spr_read :: "u32 \<Rightarrow> or1k \<Rightarrow> u32" where
  "spr_read a m = (if a = 16 then npc m else if a = 18 then ppc m else gpr m (a - 0x400))"

definition answers :: "('s \<Rightarrow> or1k) \<Rightarrow> (u32 option \<times> 'd) \<times> 's \<Rightarrow> 'd \<Rightarrow> or1k \<Rightarrow> bool" where
  "answers view r x t \<longleftrightarrow> fst (fst r) = Some APP_ERR_NONE \<and> snd (fst r) = x \<and> view (snd r) = t"

definition accepts :: "('s \<Rightarrow> or1k) \<Rightarrow> u32 option \<times> 's \<Rightarrow> or1k \<Rightarrow> bool" where
  "accepts view r t \<longleftrightarrow> fst r = Some APP_ERR_NONE \<and> view (snd r) = t"

text \<open>A port behind which such a target works: the memory and the registers can be read and written while
  the CPU is stalled. It stalls when it is told to; it runs when it is told to, and executes at least
  one instruction between two reads of its state, and any number.\<close>

definition or1k_target :: "'s debug_port \<Rightarrow> ('s \<Rightarrow> or1k) \<Rightarrow> (u32 \<Rightarrow> or1k \<Rightarrow> or1k) \<Rightarrow> bool" where
  "or1k_target p view other \<longleftrightarrow>
     (\<forall>s a w. stalled (view s) \<and> a AND 3 = 0 \<longrightarrow>
        answers view (port_wb_read32 p a w s) (mem (view s) a) (view s) \<and>
        accepts view (port_wb_write32 p a w s) ((view s)\<lparr>mem := (mem (view s))(a := w)\<rparr>)) \<and>
     (\<forall>s a w. stalled (view s) \<and> a \<in> {16, 17, push_bit 11 6 + 16, push_bit 11 6 + 20} \<longrightarrow>
        accepts view (port_cpu0_write p a w s) (spr_write a w (view s))) \<and>
     (\<forall>s a w. stalled (view s) \<and> a \<in> {16, 18, 0x401} \<longrightarrow>
        answers view (port_cpu0_read p a w s) (spr_read a (view s)) (view s)) \<and>
     (\<forall>s. \<exists>n. accepts view (port_cpu0_write_ctrl p 0 1 s) (((or1k_step other ^^ n) (view s))\<lparr>stalled := True\<rparr>)) \<and>
     (\<forall>s. stalled (view s) \<longrightarrow>
        (\<exists>n. accepts view (port_cpu0_write_ctrl p 0 0 s) ((or1k_step other ^^ n) ((view s)\<lparr>stalled := False\<rparr>)))) \<and>
     (\<forall>s w. \<exists>n > 0. \<exists>x. answers view (port_cpu0_read_ctrl p 0 w s) x ((or1k_step other ^^ n) (view s)) \<and>
        (x AND 1 \<noteq> 0 \<longleftrightarrow> stalled ((or1k_step other ^^ n) (view s))))"

section \<open>Runs of the test on a target\<close>

definition reaches :: "('s \<Rightarrow> or1k) \<Rightarrow> ('a, 's) test_step \<Rightarrow> or1k \<Rightarrow> 'a \<Rightarrow> or1k \<Rightarrow> bool" where
  "reaches view A m x t \<longleftrightarrow> (\<forall>s. view s = m \<longrightarrow> (\<exists>s'. A s = Returns (x, s') \<and> view s' = t))"

lemma reaches_then:
  "reaches view A m x t \<Longrightarrow> reaches view (f x) t y u \<Longrightarrow> reaches view (then_do A f) m y u"
  by (fastforce simp: reaches_def then_do_def)

lemma reaches_done: "x = y \<Longrightarrow> t = m \<Longrightarrow> reaches view (done_with x) m y t"
  by (simp add: reaches_def done_with_def)

lemma reaches_chain:
  assumes "\<exists>t. reaches view A m x t \<and> R t" "\<And>t. R t \<Longrightarrow> \<exists>u. reaches view (f x) t y u \<and> Q u"
  shows "\<exists>u. reaches view (then_do A f) m y u \<and> Q u"
proof -
  obtain t where "reaches view A m x t" "R t" using assms(1) by blast
  with assms(2) obtain u where "reaches view (f x) t y u" "Q u" by blast
  have "reaches view (then_do A f) m y u" by (rule reaches_then) fact+
  with \<open>Q u\<close> show ?thesis by blast
qed

lemma reaches_first:
  assumes "reaches view A m x t" "\<exists>u. reaches view (f x) t y u \<and> Q u"
  shows "\<exists>u. reaches view (then_do A f) m y u \<and> Q u"
proof (rule reaches_chain)
  show "\<exists>u. reaches view A m x u \<and> u = t" using assms(1) by blast
qed (use assms(2) in blast)

lemma reaches_nil: "t = m \<Longrightarrow> reaches view (do_all []) m () t"
  by (simp add: reaches_done)

lemma reaches_cons:
  "reaches view A m () t \<Longrightarrow> reaches view (do_all As) t () u \<Longrightarrow> reaches view (do_all (A # As)) m () u"
  by (simp add: reaches_then)

lemma step_stalled [simp]: "stalled m \<Longrightarrow> or1k_step other m = m"
  by (simp add: or1k_step_def)

lemma steps_stalled [simp]: "stalled m \<Longrightarrow> (or1k_step other ^^ n) m = m"
  by (induction n) simp_all

text \<open>Once it is stalled the CPU stays where it is, so all runs that reach a stall reach the same.\<close>

lemma steps_agree:
  assumes "stalled ((or1k_step other ^^ k) m)" "k \<le> n"
  shows "(or1k_step other ^^ n) m = (or1k_step other ^^ k) m"
  using assms funpow_add [of "n - k" k "or1k_step other"] by simp

lemma stalls_agree:
  assumes "stalled ((or1k_step other ^^ k) m)" "stalled ((or1k_step other ^^ n) m)"
  shows "(or1k_step other ^^ n) m = (or1k_step other ^^ k) m"
proof (cases "k \<le> n")
  case True
  with assms(1) show ?thesis by (rule steps_agree)
next
  case False
  then have "n \<le> k" by simp
  with assms(2) show ?thesis by (rule steps_agree [symmetric])
qed

lemma steps_steps: "(or1k_step other ^^ n) ((or1k_step other ^^ l) m) = (or1k_step other ^^ (n + l)) m"
  by (simp add: funpow_add)

lemma or1k_targetD:
  assumes "or1k_target p view other"
  shows target_memory: "\<And>s a w. stalled (view s) \<Longrightarrow> a AND 3 = 0 \<Longrightarrow>
        answers view (port_wb_read32 p a w s) (mem (view s) a) (view s) \<and>
        accepts view (port_wb_write32 p a w s) ((view s)\<lparr>mem := (mem (view s))(a := w)\<rparr>)"
    and target_spr_write: "\<And>s a w. stalled (view s) \<Longrightarrow> a \<in> {16, 17, push_bit 11 6 + 16, push_bit 11 6 + 20} \<Longrightarrow>
        accepts view (port_cpu0_write p a w s) (spr_write a w (view s))"
    and target_spr_read: "\<And>s a w. stalled (view s) \<Longrightarrow> a \<in> {16, 18, 0x401} \<Longrightarrow>
        answers view (port_cpu0_read p a w s) (spr_read a (view s)) (view s)"
    and target_stall: "\<And>s. \<exists>n. accepts view (port_cpu0_write_ctrl p 0 1 s) (((or1k_step other ^^ n) (view s))\<lparr>stalled := True\<rparr>)"
    and target_run: "\<And>s. stalled (view s) \<Longrightarrow>
        \<exists>n. accepts view (port_cpu0_write_ctrl p 0 0 s) ((or1k_step other ^^ n) ((view s)\<lparr>stalled := False\<rparr>))"
    and target_poll: "\<And>s w. \<exists>n > 0. \<exists>x. answers view (port_cpu0_read_ctrl p 0 w s) x ((or1k_step other ^^ n) (view s)) \<and>
        (x AND 1 \<noteq> 0 \<longleftrightarrow> stalled ((or1k_step other ^^ n) (view s)))"
proof -
  note t = assms [unfolded or1k_target_def]
  note t2 = conjunct2 [OF t]
  note t3 = conjunct2 [OF t2]
  note t4 = conjunct2 [OF t3]
  note t5 = conjunct2 [OF t4]
  show "stalled (view s) \<Longrightarrow> a AND 3 = 0 \<Longrightarrow>
      answers view (port_wb_read32 p a w s) (mem (view s) a) (view s) \<and>
      accepts view (port_wb_write32 p a w s) ((view s)\<lparr>mem := (mem (view s))(a := w)\<rparr>)" for s a w
    by (rule conjunct1 [OF t, THEN spec, THEN spec, THEN spec, THEN mp, OF conjI])
  show "stalled (view s) \<Longrightarrow> a \<in> {16, 17, push_bit 11 6 + 16, push_bit 11 6 + 20} \<Longrightarrow>
      accepts view (port_cpu0_write p a w s) (spr_write a w (view s))" for s a w
    by (rule conjunct1 [OF t2, THEN spec, THEN spec, THEN spec, THEN mp, OF conjI])
  show "stalled (view s) \<Longrightarrow> a \<in> {16, 18, 0x401} \<Longrightarrow>
      answers view (port_cpu0_read p a w s) (spr_read a (view s)) (view s)" for s a w
    by (rule conjunct1 [OF t3, THEN spec, THEN spec, THEN spec, THEN mp, OF conjI])
  show "\<exists>n. accepts view (port_cpu0_write_ctrl p 0 1 s) (((or1k_step other ^^ n) (view s))\<lparr>stalled := True\<rparr>)" for s
    by (rule conjunct1 [OF t4, THEN spec])
  show "stalled (view s) \<Longrightarrow>
      \<exists>n. accepts view (port_cpu0_write_ctrl p 0 0 s) ((or1k_step other ^^ n) ((view s)\<lparr>stalled := False\<rparr>))" for s
    by (rule conjunct1 [OF t5, THEN spec, THEN mp])
  show "\<exists>n > 0. \<exists>x. answers view (port_cpu0_read_ctrl p 0 w s) x ((or1k_step other ^^ n) (view s)) \<and>
      (x AND 1 \<noteq> 0 \<longleftrightarrow> stalled ((or1k_step other ^^ n) (view s)))" for s w
    by (rule conjunct2 [OF t5, THEN spec, THEN spec])
qed

lemma reaches_rd32:
  assumes "or1k_target p view other" "stalled m" "a AND 3 = 0" "x = mem m a" "t = m"
  shows "reaches view (rd32 p a w) m x t"
  using target_memory [OF assms(1) _ assms(3), of _ w] assms(2,4,5)
  by (auto simp: reaches_def rd32_def answers_def check_def Let_def split_beta)

lemma reaches_wr32:
  assumes "or1k_target p view other" "stalled m" "a AND 3 = 0" "t = m\<lparr>mem := (mem m)(a := w)\<rparr>"
  shows "reaches view (wr32 p a w) m () t"
  using target_memory [OF assms(1) _ assms(3), of _ w] assms(2,4)
  by (auto simp: reaches_def wr32_def accepts_def check_def Let_def split_beta)

lemma reaches_cpu_rd:
  assumes "or1k_target p view other" "stalled m" "a \<in> {16, 18, 0x401}"
  shows "reaches view (cpu_rd p a w) m (spr_read a m) m"
  using target_spr_read [OF assms(1) _ assms(3), of _ w] assms(2)
  unfolding reaches_def cpu_rd_def answers_def check_def Let_def split_beta by auto

lemma reaches_cpu_wr:
  assumes "or1k_target p view other" "stalled m" "a \<in> {16, 17, push_bit 11 6 + 16, push_bit 11 6 + 20}" "t = spr_write a w m"
  shows "reaches view (cpu_wr p a w) m () t"
  using target_spr_write [OF assms(1) _ assms(3), of _ w] assms(2,4)
  unfolding reaches_def cpu_wr_def accepts_def check_def Let_def split_beta by auto

lemma stall_loop_target:
  assumes p: "or1k_target p view other"
  shows "stalled ((or1k_step other ^^ k) (view s)) \<Longrightarrow>
    \<exists>x s'. stall_loop p w s = Some (Returns (x, s')) \<and> view s' = (or1k_step other ^^ k) (view s)"
proof (induction k arbitrary: w s rule: less_induct)
  case (less k)
  obtain n x where n: "n > 0" "answers view (port_cpu0_read_ctrl p 0 w s) x ((or1k_step other ^^ n) (view s))"
      "x AND 1 \<noteq> 0 \<longleftrightarrow> stalled ((or1k_step other ^^ n) (view s))"
    using target_poll [OF p, of w s] by blast
  then obtain s1 where s1: "ctrl_rd p CPU_OP_ADR w s = Returns (x, s1)" "view s1 = (or1k_step other ^^ n) (view s)"
    unfolding ctrl_rd_def CPU_OP_ADR_def answers_def check_def Let_def split_beta by auto
  show ?case
  proof (cases "stalled (view s1)")
    case True
    with s1(2) have "(or1k_step other ^^ n) (view s) = (or1k_step other ^^ k) (view s)"
      by (intro stalls_agree [OF less.prems]) simp
    with True s1 n(3) show ?thesis by (simp add: stall_loop.simps)
  next
    case False
    then have "n < k"
      using steps_agree [OF less.prems, of n] less.prems s1(2) by (cases "k \<le> n") simp_all
    then have "(or1k_step other ^^ (k - n)) (view s1) = (or1k_step other ^^ k) (view s)"
      by (simp add: s1(2) steps_steps)
    with less.IH [of "k - n" s1 x] less.prems n(1) \<open>n < k\<close> obtain y s' where
      "stall_loop p x s1 = Some (Returns (y, s'))" "view s' = (or1k_step other ^^ k) (view s)" by auto
    with False s1 n(3) show ?thesis by (simp add: stall_loop.simps)
  qed
qed

lemma reaches_unstall:
  assumes p: "or1k_target p view other" and "stalled m" "stalled ((or1k_step other ^^ k) (m\<lparr>stalled := False\<rparr>))"
  shows "reaches view (unstall p) m () ((or1k_step other ^^ k) (m\<lparr>stalled := False\<rparr>))"
  unfolding reaches_def
proof (intro allI impI)
  fix s assume s: "view s = m"
  let ?m = "m\<lparr>stalled := False\<rparr>"
  obtain n where "accepts view (port_cpu0_write_ctrl p 0 0 s) ((or1k_step other ^^ n) ?m)"
    using target_run [OF p, of s] assms(2) s by auto
  then obtain s1 where s1: "ctrl_wr p CPU_OP_ADR 0 s = Returns ((), s1)" "view s1 = (or1k_step other ^^ n) ?m"
    unfolding ctrl_wr_def CPU_OP_ADR_def accepts_def check_def Let_def split_beta by auto
  have "(or1k_step other ^^ k) (view s1) = (or1k_step other ^^ k) ?m"
    using steps_agree [OF assms(3), of "k + n"] by (simp add: s1(2) steps_steps)
  with stall_loop_target [OF p, of k s1 0] assms(3) obtain x s' where
    "stall_loop p 0 s1 = Some (Returns (x, s'))" "view s' = (or1k_step other ^^ k) ?m" by auto
  with s1(1) show "\<exists>s'. unstall p s = Returns ((), s') \<and> view s' = (or1k_step other ^^ k) ?m"
    by (simp add: unstall_def then_do_def wait_stalled_def done_with_def)
qed

lemma reaches_read_state:
  assumes "or1k_target p view other" "stalled m" "x = npc m + ppc m + gpr m 1 + result" "t = m"
  shows "reaches view (read_state p result) m x t"
  unfolding read_state_def assms(3,4)
  by (rule reaches_then [OF reaches_cpu_rd [OF assms(1,2)] reaches_then [OF reaches_cpu_rd [OF assms(1,2)]
      reaches_then [OF reaches_cpu_rd [OF assms(1,2)] reaches_done]]]) (simp_all add: spr_read_def)

lemma reaches_trap_at:
  assumes p: "or1k_target p view other" and m: "stalled m" "adr AND 3 = 0"
    and m1: "m1 = (case start of None \<Rightarrow> m\<lparr>mem := (mem m)(adr := 0x21000001)\<rparr>
      | Some pc \<Rightarrow> m\<lparr>mem := (mem m)(adr := 0x21000001), npc := pc, branch := None\<rparr>)"
    and m2: "m2 = (or1k_step other ^^ k) (m1\<lparr>stalled := False\<rparr>)" "stalled m2"
    and x: "x = npc m2 + ppc m2 + gpr m2 1 + result" "t = m2\<lparr>mem := (mem m2)(adr := mem m adr)\<rparr>"
  shows "reaches view (trap_at p adr start result) m x t"
proof -
  have "stalled m1" using m(1) m1 by (simp split: option.split)
  have start: "reaches view (case start of None \<Rightarrow> done_with ()
      | Some pc \<Rightarrow> cpu_wr p (push_bit 11 0 + 16) (0 + pc)) (m\<lparr>mem := (mem m)(adr := 0x21000001)\<rparr>) () m1"
    using m(1) by (cases start) (auto simp: m1 const_simps spr_write_def intro!: reaches_done reaches_cpu_wr [OF p])
  have run: "reaches view (unstall p) m1 () m2"
    using m2(2) unfolding m2(1) by (intro reaches_unstall [OF p \<open>stalled m1\<close>])
  have adr: "(0 + adr) AND 3 = 0" using m(2) by simp
  show ?thesis
    unfolding trap_at_def SDRAM_BASE_def x
    by (rule reaches_then [OF reaches_rd32 [OF p m(1) adr refl refl]],
        rule reaches_then [OF reaches_wr32 [OF p m(1) adr refl]], rule reaches_then, unfold add_0_left,
        rule start [unfolded add_0_left], rule reaches_then [OF run],
        rule reaches_then [OF reaches_read_state [OF p m2(2) refl refl]],
        rule reaches_then [OF reaches_wr32 [OF p m2(2) m(2) refl] reaches_done [OF refl refl]])
qed

section \<open>The instructions of the test\<close>

definition after :: "or1k \<Rightarrow> or1k" where
  "after m = m\<lparr>ppc := npc m, branch := None, npc := (case branch m of Some a \<Rightarrow> a | None \<Rightarrow> npc m + 4),
     stalled := single_step m\<rparr>"

lemmas exec_defs = or1k_step_def or1k_exec_def field_def signed16_def signed26_def after_def Let_def

lemma test_steps:
  assumes "\<not> stalled m"
  shows "mem m (npc m) = 0xe0000005 \<Longrightarrow> or1k_step other m = (after m)\<lparr>gpr := (gpr m)(0 := 0)\<rparr>"
    and "mem m (npc m) = 0x9c200000 \<Longrightarrow> or1k_step other m = (after m)\<lparr>gpr := (gpr m)(1 := gpr m 0)\<rparr>"
    and "mem m (npc m) = 0x18400000 \<Longrightarrow> or1k_step other m = (after m)\<lparr>gpr := (gpr m)(2 := 0)\<rparr>"
    and "mem m (npc m) = 0xa8420030 \<Longrightarrow> or1k_step other m = (after m)\<lparr>gpr := (gpr m)(2 := gpr m 2 OR 0x30)\<rparr>"
    and "mem m (npc m) = 0x9c210001 \<Longrightarrow> or1k_step other m = (after m)\<lparr>gpr := (gpr m)(1 := gpr m 1 + 1)\<rparr>"
    and "mem m (npc m) = 0xd4020800 \<Longrightarrow> or1k_step other m = (after m)\<lparr>mem := (mem m)(gpr m 2 := gpr m 1)\<rparr>"
    and "mem m (npc m) = 0x84620000 \<Longrightarrow> or1k_step other m = (after m)\<lparr>gpr := (gpr m)(3 := mem m (gpr m 2))\<rparr>"
    and "mem m (npc m) = 0x03fffffb \<Longrightarrow> or1k_step other m = (after m)\<lparr>branch := Some (npc m - 0x14)\<rparr>"
    and "mem m (npc m) = 0xe0211800 \<Longrightarrow> or1k_step other m = (after m)\<lparr>gpr := (gpr m)(1 := gpr m 1 + gpr m 3)\<rparr>"
    and "mem m (npc m) = 0x21000001 \<Longrightarrow> trap_stalls m \<Longrightarrow> or1k_step other m = (after m)\<lparr>stalled := True\<rparr>"
  using assms by (simp_all add: exec_defs bit_simps)

text \<open>The target while the test runs: the program is in memory, with a trap at \<open>tr\<close> perhaps; \<open>G\<close> are the
  registers and \<open>v\<close> is the word at 0x30.\<close>

definition program_in :: "u32 option \<Rightarrow> (u32 \<Rightarrow> u32) \<Rightarrow> bool" where
  "program_in tr M \<longleftrightarrow> (\<forall>(a, w) \<in> set test_program. M a = (if tr = Some a then 0x21000001 else w))"

definition running :: "u32 option \<Rightarrow> u32 \<Rightarrow> bool \<Rightarrow> bool \<Rightarrow> u32 \<Rightarrow> u32 option \<Rightarrow> (u32 \<Rightarrow> u32) \<Rightarrow> u32 \<Rightarrow> or1k \<Rightarrow> bool" where
  "running tr q step st pc b G v m \<longleftrightarrow>
     program_in tr (mem m) \<and> trap_stalls m \<and> ppc m = q \<and> single_step m = step \<and> stalled m = st \<and> npc m = pc \<and> branch m = b \<and> gpr m = G \<and> mem m 0x30 = v"

definition next_pc :: "u32 \<Rightarrow> u32 option \<Rightarrow> u32" where
  "next_pc pc b = (case b of Some a \<Rightarrow> a | None \<Rightarrow> pc + 4)"

lemma program_word: "(a, w) \<in> set test_program \<Longrightarrow> a \<noteq> 0x30 \<and> a AND 3 = 0"
  by (auto simp: test_program_def)

lemma program_unique:
  assumes "(a, w) \<in> set test_program" "(a, w') \<in> set test_program"
  shows "w = w'"
proof -
  have "distinct (map fst test_program)" by (simp add: test_program_def)
  from map_of_is_SomeI [OF this assms(1)] map_of_is_SomeI [OF this assms(2)] show ?thesis by simp
qed

lemma program_in_data: "program_in tr M \<Longrightarrow> program_in tr (M(0x30 := v))"
  using program_word by (fastforce simp: program_in_def)

lemma program_in_trap:
  assumes "(a, w) \<in> set test_program"
  shows "program_in None M \<Longrightarrow> program_in (Some a) (M(a := 0x21000001))"
    and "program_in (Some a) M \<Longrightarrow> program_in None (M(a := w))"
  using program_unique [OF assms] by (auto simp: program_in_def split: if_splits)

lemma running_after:
  "running tr q step False pc b G v m \<Longrightarrow> running tr pc step step (next_pc pc b) None G v (after m)"
  by (auto simp add: running_def after_def next_pc_def)

lemma running_updates:
  assumes "running tr q step st pc b G v m"
  shows "running tr q step st pc b G' v (m\<lparr>gpr := G'\<rparr>)" "running tr q step st pc b' G v (m\<lparr>branch := b'\<rparr>)"
    "running tr q step st' pc b G v (m\<lparr>stalled := st'\<rparr>)"
    "running tr q step st pc b G v' (m\<lparr>mem := (mem m)(0x30 := v')\<rparr>)"
    "running tr q step' st pc b G v (m\<lparr>single_step := step'\<rparr>)"
    "running tr q step st pc' None G v (m\<lparr>npc := pc', branch := None\<rparr>)"
  using assms by (simp_all add: running_def program_in_data)

lemma running_trap:
  assumes "(a, w) \<in> set test_program"
  shows "running None q step st pc b G v m \<Longrightarrow> running (Some a) q step st pc b G v (m\<lparr>mem := (mem m)(a := 0x21000001)\<rparr>)"
    and "running (Some a) q step st pc b G v m \<Longrightarrow> running None q step st pc b G v (m\<lparr>mem := (mem m)(a := w)\<rparr>)"
    and "running None q step st pc b G v m \<Longrightarrow> mem m a = w" "a AND 3 = 0"
  using program_word [OF assms] program_in_trap [OF assms] assms by (auto simp: running_def program_in_def)

lemma running_fetch:
  assumes "running tr q step st pc b G v m" "(pc, w) \<in> set test_program"
  shows "mem m (npc m) = (if tr = Some pc then 0x21000001 else w)"
  using assms by (auto simp: running_def program_in_def)

lemma run_step:
  assumes "running tr q step False pc b G v m" "tr \<noteq> Some pc" "pc' = next_pc pc b"
  shows "pc = 0x00 \<Longrightarrow> running tr pc step step pc' None (G(0 := 0)) v (or1k_step other m)"
    and "pc = 0x04 \<Longrightarrow> running tr pc step step pc' None (G(1 := G 0)) v (or1k_step other m)"
    and "pc = 0x08 \<Longrightarrow> running tr pc step step pc' None (G(2 := 0)) v (or1k_step other m)"
    and "pc = 0x0c \<Longrightarrow> running tr pc step step pc' None (G(2 := G 2 OR 0x30)) v (or1k_step other m)"
    and "pc \<in> {0x10, 0x14, 0x1c} \<Longrightarrow> running tr pc step step pc' None (G(1 := G 1 + 1)) v (or1k_step other m)"
    and "pc = 0x18 \<Longrightarrow> G 2 = 0x30 \<Longrightarrow> running tr pc step step pc' None G (G 1) (or1k_step other m)"
    and "pc = 0x20 \<Longrightarrow> G 2 = 0x30 \<Longrightarrow> running tr pc step step pc' None (G(3 := v)) v (or1k_step other m)"
    and "pc = 0x24 \<Longrightarrow> running tr pc step step pc' (Some 0x10) G v (or1k_step other m)"
    and "pc = 0x28 \<Longrightarrow> running tr pc step step pc' None (G(1 := G 1 + G 3)) v (or1k_step other m)"
proof -
  note upd = running_updates [OF running_after [OF assms(1)], folded assms(3)]
  have m: "\<not> stalled m" "gpr m = G" "mem m 0x30 = v" "npc m = pc" using assms(1) by (simp_all add: running_def)
  note fetch = running_fetch [OF assms(1)]
  have after: "gpr (after m) = G" "mem (after m) = mem m" using m by (simp_all add: after_def)
  have insn: "\<And>w. (pc, w) \<in> set test_program \<Longrightarrow> mem m (npc m) = w"
    using fetch assms(2) by simp
  show "pc = 0x00 \<Longrightarrow> running tr pc step step pc' None (G(0 := 0)) v (or1k_step other m)"
    using insn [of "0xe0000005"] upd(1) by (simp add: test_program_def test_steps(1) m)
  show "pc = 0x04 \<Longrightarrow> running tr pc step step pc' None (G(1 := G 0)) v (or1k_step other m)"
    using insn [of "0x9c200000"] upd(1) by (simp add: test_program_def test_steps(2) m)
  show "pc = 0x08 \<Longrightarrow> running tr pc step step pc' None (G(2 := 0)) v (or1k_step other m)"
    using insn [of "0x18400000"] upd(1) by (simp add: test_program_def test_steps(3) m)
  show "pc = 0x0c \<Longrightarrow> running tr pc step step pc' None (G(2 := G 2 OR 0x30)) v (or1k_step other m)"
    using insn [of "0xa8420030"] upd(1) by (simp add: test_program_def test_steps(4) m)
  show "pc \<in> {0x10, 0x14, 0x1c} \<Longrightarrow> running tr pc step step pc' None (G(1 := G 1 + 1)) v (or1k_step other m)"
    using insn [of "0x9c210001"] upd(1) by (auto simp: test_program_def test_steps(5) m)
  show "pc = 0x18 \<Longrightarrow> G 2 = 0x30 \<Longrightarrow> running tr pc step step pc' None G (G 1) (or1k_step other m)"
    using insn [of "0xd4020800"] upd(4) by (simp add: test_program_def test_steps(6) m after)
  show "pc = 0x20 \<Longrightarrow> G 2 = 0x30 \<Longrightarrow> running tr pc step step pc' None (G(3 := v)) v (or1k_step other m)"
    using insn [of "0x84620000"] upd(1) by (simp add: test_program_def test_steps(7) m)
  show "pc = 0x24 \<Longrightarrow> running tr pc step step pc' (Some 0x10) G v (or1k_step other m)"
    using insn [of "0x03fffffb"] upd(2) by (simp add: test_program_def test_steps(8) m)
  show "pc = 0x28 \<Longrightarrow> running tr pc step step pc' None (G(1 := G 1 + G 3)) v (or1k_step other m)"
    using insn [of "0xe0211800"] upd(1) by (simp add: test_program_def test_steps(9) m)
qed

lemma run_trap:
  assumes "running (Some pc) q step False pc b G v m" "(pc, w) \<in> set test_program"
  shows "running (Some pc) pc step True (next_pc pc b) None G v (or1k_step other m)"
  using running_updates(3) [OF running_after [OF assms(1)]] running_fetch [OF assms] assms(1)
    test_steps(10) [of m other] by (simp add: running_def)

text \<open>The program, one instruction after the other.\<close>

lemma next_pc_simps [simp]: "next_pc pc None = pc + 4" "next_pc pc (Some a) = a"
  by (simp_all add: next_pc_def)

lemma program_steps:
  "running tr q step False 0x00 None G v m \<Longrightarrow> tr \<noteq> Some 0x00 \<Longrightarrow>
     running tr 0x00 step step 0x04 None (G(0 := 0)) v (or1k_step other m)"
  "running tr q step False 0x04 None G v m \<Longrightarrow> tr \<noteq> Some 0x04 \<Longrightarrow>
     running tr 0x04 step step 0x08 None (G(1 := G 0)) v (or1k_step other m)"
  "running tr q step False 0x08 None G v m \<Longrightarrow> tr \<noteq> Some 0x08 \<Longrightarrow>
     running tr 0x08 step step 0x0c None (G(2 := 0)) v (or1k_step other m)"
  "running tr q step False 0x0c None G v m \<Longrightarrow> tr \<noteq> Some 0x0c \<Longrightarrow>
     running tr 0x0c step step 0x10 None (G(2 := G 2 OR 0x30)) v (or1k_step other m)"
  "running tr q step False 0x10 None G v m \<Longrightarrow> tr \<noteq> Some 0x10 \<Longrightarrow>
     running tr 0x10 step step 0x14 None (G(1 := G 1 + 1)) v (or1k_step other m)"
  "running tr q step False 0x14 None G v m \<Longrightarrow> tr \<noteq> Some 0x14 \<Longrightarrow>
     running tr 0x14 step step 0x18 None (G(1 := G 1 + 1)) v (or1k_step other m)"
  "running tr q step False 0x18 None G v m \<Longrightarrow> tr \<noteq> Some 0x18 \<Longrightarrow> G 2 = 0x30 \<Longrightarrow>
     running tr 0x18 step step 0x1c None G (G 1) (or1k_step other m)"
  "running tr q step False 0x1c None G v m \<Longrightarrow> tr \<noteq> Some 0x1c \<Longrightarrow>
     running tr 0x1c step step 0x20 None (G(1 := G 1 + 1)) v (or1k_step other m)"
  "running tr q step False 0x20 None G v m \<Longrightarrow> tr \<noteq> Some 0x20 \<Longrightarrow> G 2 = 0x30 \<Longrightarrow>
     running tr 0x20 step step 0x24 None (G(3 := v)) v (or1k_step other m)"
  "running tr q step False 0x24 None G v m \<Longrightarrow> tr \<noteq> Some 0x24 \<Longrightarrow>
     running tr 0x24 step step 0x28 (Some 0x10) G v (or1k_step other m)"
  "running tr q step False 0x28 (Some 0x10) G v m \<Longrightarrow> tr \<noteq> Some 0x28 \<Longrightarrow>
     running tr 0x28 step step 0x10 None (G(1 := G 1 + G 3)) v (or1k_step other m)"
  by (erule (1) run_step; simp; fail)+

text \<open>The blocks of the test. A block with a trap runs up to it; a stretch of single steps executes one
  instruction at a time.\<close>

lemma trap_block:
  assumes p: "or1k_target p view other" and adr: "(adr, w) \<in> set test_program"
    and m: "running None q False True pc b G v m"
    and pc: "pc1 = (case start of None \<Rightarrow> pc | Some a \<Rightarrow> a)" "b1 = (case start of None \<Rightarrow> b | Some a \<Rightarrow> None)"
    and run: "\<And>t. running (Some adr) q False False pc1 b1 G v t \<Longrightarrow>
      running (Some adr) q2 False True pc2 b2 G2 v2 ((or1k_step other ^^ k) t)"
    and x: "x = pc2 + q2 + G2 1 + result"
  shows "\<exists>t. reaches view (trap_at p adr start result) m x t \<and> running None q2 False True pc2 b2 G2 v2 t"
proof -
  let ?m1 = "case start of None \<Rightarrow> m\<lparr>mem := (mem m)(adr := 0x21000001)\<rparr>
      | Some pc \<Rightarrow> m\<lparr>mem := (mem m)(adr := 0x21000001), npc := pc, branch := None\<rparr>"
  let ?m2 = "(or1k_step other ^^ k) (?m1\<lparr>stalled := False\<rparr>)"
  note set = running_trap(1) [OF adr m]
  have "running (Some adr) q False False pc1 b1 G v (?m1\<lparr>stalled := False\<rparr>)"
    using running_updates(3) [OF set] running_updates(3) [OF running_updates(6) [OF set]]
    by (cases start) (simp_all add: pc)
  then have m2: "running (Some adr) q2 False True pc2 b2 G2 v2 ?m2" by (rule run)
  then have st: "stalled ?m2" "npc ?m2 = pc2" "ppc ?m2 = q2" "gpr ?m2 = G2" by (simp_all add: running_def)
  have "stalled m" using m by (simp add: running_def)
  have "reaches view (trap_at p adr start result) m x (?m2\<lparr>mem := (mem ?m2)(adr := w)\<rparr>)"
    by (rule reaches_trap_at [OF p \<open>stalled m\<close> running_trap(4) [OF adr] refl refl st(1)])
      (simp_all only: x st running_trap(3) [OF adr m])
  with running_trap(2) [OF adr m2] show ?thesis by blast
qed

lemma step_block:
  assumes p: "or1k_target p view other" and m: "running None q True True pc b G v m"
    and run: "\<And>t. running None q True False pc b G v t \<Longrightarrow> running None q2 True True pc2 b2 G2 v2 (or1k_step other t)"
    and rest: "\<And>t. running None q2 True True pc2 b2 G2 v2 t \<Longrightarrow>
      \<exists>u. reaches view (do_all (replicate n (unstall p))) t () u \<and> Q u"
  shows "\<exists>u. reaches view (do_all (replicate (Suc n) (unstall p))) m () u \<and> Q u"
proof -
  let ?t = "or1k_step other (m\<lparr>stalled := False\<rparr>)"
  have t: "running None q2 True True pc2 b2 G2 v2 ?t" by (rule run [OF running_updates(3) [OF m]])
  have "stalled m" "stalled ?t" using m t by (simp_all add: running_def)
  then have "reaches view (unstall p) m () ?t" using reaches_unstall [OF p, of m 1] by simp
  moreover obtain u where "reaches view (do_all (replicate n (unstall p))) ?t () u" "Q u" using rest [OF t] by blast
  ultimately show ?thesis by (auto simp only: replicate.simps intro: reaches_cons)
qed

lemma run_on:
  assumes "running tr q step False pc b G v m"
    and "\<And>t. running tr q step False pc b G v t \<Longrightarrow> running tr q2 step st2 pc2 b2 G2 v2 (or1k_step other t)"
    and "\<And>t. running tr q2 step st2 pc2 b2 G2 v2 t \<Longrightarrow> running tr q3 step st3 pc3 b3 G3 v3 ((or1k_step other ^^ n) t)"
  shows "running tr q3 step st3 pc3 b3 G3 v3 ((or1k_step other ^^ Suc n) m)"
  using assms(3) [OF assms(2) [OF assms(1)]] by (simp add: funpow_Suc_right del: funpow.simps)

lemma run_end: "running tr q step st pc b G v m \<Longrightarrow> G = G' \<Longrightarrow> v = v' \<Longrightarrow>
    running tr q step st pc b G' v' ((or1k_step other ^^ 0) m)"
  by simp

lemma trap_steps:
  "running (Some 0x10) q step False 0x10 None G v m \<Longrightarrow> running (Some 0x10) 0x10 step True 0x14 None G v (or1k_step other m)"
  "running (Some 0x1c) q step False 0x1c None G v m \<Longrightarrow> running (Some 0x1c) 0x1c step True 0x20 None G v (or1k_step other m)"
  "running (Some 0x20) q step False 0x20 None G v m \<Longrightarrow> running (Some 0x20) 0x20 step True 0x24 None G v (or1k_step other m)"
  "running (Some 0x24) q step False 0x24 None G v m \<Longrightarrow> running (Some 0x24) 0x24 step True 0x28 None G v (or1k_step other m)"
  "running (Some 0x28) q step False 0x28 (Some 0x10) G v m \<Longrightarrow> running (Some 0x28) 0x28 step True 0x10 None G v (or1k_step other m)"
  using run_trap [where other = other] by (fastforce simp: test_program_def)+

lemma step_end:
  assumes "running None q True True pc b G v m" "G = G'" "v = v'"
  shows "\<exists>u. reaches view (do_all (replicate 0 (unstall p))) m () u \<and> running None q True True pc b G' v' u"
  using assms reaches_nil by auto

lemma step_runs:
  assumes p: "or1k_target p view other"
  shows "running None q True True 0 None G v m \<Longrightarrow> \<exists>u. reaches view (do_all (replicate 11 (unstall p))) m () u \<and>
      running None 0x28 True True 0x10 None (G(0 := 0, 1 := 5, 2 := 0x30, 3 := 2)) 2 u"
    and "running None q True True 0x14 None G v m \<Longrightarrow> G 2 = 0x30 \<Longrightarrow>
      \<exists>u. reaches view (do_all (replicate 5 (unstall p))) m () u \<and>
      running None 0x24 True True 0x28 (Some 0x10) (G(1 := G 1 + 2, 3 := G 1 + 1)) (G 1 + 1) u"
    and "running None q True True 0x24 None G v m \<Longrightarrow> \<exists>u. reaches view (do_all (replicate 2 (unstall p))) m () u \<and>
      running None 0x28 True True 0x10 None (G(1 := G 1 + G 3)) v u"
  unfolding numeral_nat
  by (rule step_block [OF p] step_end | assumption | erule program_steps | (simp add: fun_eq_iff; fail))+

text \<open>What each of the six blocks with a trap computes, and how many instructions it takes.\<close>

lemma trap_runs:
  assumes "G 2 = 0x30"
  shows "running (Some 0x28) q False False 0x10 None G v m \<Longrightarrow> running (Some 0x28) 0x28 False True 0x10 None
      (G(1 := G 1 + 3, 3 := G 1 + 2)) (G 1 + 2) ((or1k_step other ^^ 7) m)"
    and "running (Some 0x24) q False False 0x10 None G v m \<Longrightarrow> running (Some 0x24) 0x24 False True 0x28 None
      (G(1 := G 1 + 3, 3 := G 1 + 2)) (G 1 + 2) ((or1k_step other ^^ 6) m)"
    and "running (Some 0x20) q False False 0x24 None G v m \<Longrightarrow> running (Some 0x20) 0x20 False True 0x24 None
      (G(1 := G 1 + G 3 + 3)) (G 1 + G 3 + 2) ((or1k_step other ^^ 7) m)"
    and "running (Some 0x1c) q False False 0x20 None G v m \<Longrightarrow> running (Some 0x1c) 0x1c False True 0x20 None
      (G(1 := G 1 + v + 2, 3 := v)) (G 1 + v + 2) ((or1k_step other ^^ 7) m)"
    and "running (Some 0x20) q False False 0x1c None G v m \<Longrightarrow> running (Some 0x20) 0x20 False True 0x24 None
      (G(1 := G 1 + 1)) v ((or1k_step other ^^ 2) m)"
    and "running (Some 0x10) q False False 0x20 None G v m \<Longrightarrow> running (Some 0x10) 0x10 False True 0x14 None
      (G(1 := G 1 + v, 3 := v)) v ((or1k_step other ^^ 4) m)"
  unfolding numeral_nat
  by (rule run_on run_end | assumption | erule trap_steps | erule program_steps | (simp add: assms fun_eq_iff; fail))+

text \<open>The target between two blocks: \<open>r\<close> is R1, \<open>x\<close> is R3.\<close>

definition paused :: "u32 \<Rightarrow> bool \<Rightarrow> u32 \<Rightarrow> u32 option \<Rightarrow> u32 \<Rightarrow> u32 \<Rightarrow> u32 \<Rightarrow> or1k \<Rightarrow> bool" where
  "paused q step pc b r x v m \<longleftrightarrow> (\<exists>G. running None q step True pc b G v m \<and> G 1 = r \<and> G 2 = 0x30 \<and> G 3 = x)"

lemma pausedI: "running None q step True pc b G v m \<Longrightarrow> G 1 = r \<Longrightarrow> G 2 = 0x30 \<Longrightarrow> G 3 = x \<Longrightarrow> paused q step pc b r x v m"
  unfolding paused_def by blast

lemma paused_stalled: "paused q step pc b r x v m \<Longrightarrow> stalled m"
  by (auto simp: paused_def running_def)

lemma paused_trap:
  assumes p: "or1k_target p view other" and adr: "(adr, w) \<in> set test_program"
    and m: "paused q False pc b r x v m"
    and pc: "pc1 = (case start of None \<Rightarrow> pc | Some a \<Rightarrow> a)" "b1 = (case start of None \<Rightarrow> b | Some a \<Rightarrow> None)"
    and run: "\<And>G t. G 2 = 0x30 \<Longrightarrow> G 1 = r \<Longrightarrow> G 3 = x \<Longrightarrow> running (Some adr) q False False pc1 b1 G v t \<Longrightarrow>
      running (Some adr) q2 False True pc2 b2 (G(1 := r2, 3 := x2)) v2 ((or1k_step other ^^ k) t)"
  shows "\<exists>t. reaches view (trap_at p adr start result) m (pc2 + q2 + r2 + result) t \<and> paused q2 False pc2 b2 r2 x2 v2 t"
proof -
  obtain G where G: "running None q False True pc b G v m" "G 1 = r" "G 2 = 0x30" "G 3 = x"
    using m by (auto simp: paused_def)
  have "\<exists>t. reaches view (trap_at p adr start result) m (pc2 + q2 + r2 + result) t \<and>
      running None q2 False True pc2 b2 (G(1 := r2, 3 := x2)) v2 t"
    by (rule trap_block [OF p adr G(1) pc run [OF G(3,2,4)]]) simp_all
  then show ?thesis using G(3) by (auto intro!: pausedI)
qed

lemma trap_blocks:
  assumes p: "or1k_target p view other"
  shows "paused q False 0x10 None r x v m \<Longrightarrow> \<exists>t. reaches view (trap_at p 0x28 None result) m (0x10 + 0x28 + (r + 3) + result) t \<and>
      paused 0x28 False 0x10 None (r + 3) (r + 2) (r + 2) t"
    and "paused q False pc b r x v m \<Longrightarrow> \<exists>t. reaches view (trap_at p 0x24 (Some 0x10) result) m (0x28 + 0x24 + (r + 3) + result) t \<and>
      paused 0x24 False 0x28 None (r + 3) (r + 2) (r + 2) t"
    and "paused q False pc b r x v m \<Longrightarrow> \<exists>t. reaches view (trap_at p 0x20 (Some 0x24) result) m (0x24 + 0x20 + (r + x + 3) + result) t \<and>
      paused 0x20 False 0x24 None (r + x + 3) x (r + x + 2) t"
    and "paused q False pc b r x v m \<Longrightarrow> \<exists>t. reaches view (trap_at p 0x1c (Some 0x20) result) m (0x20 + 0x1c + (r + v + 2) + result) t \<and>
      paused 0x1c False 0x20 None (r + v + 2) v (r + v + 2) t"
    and "paused q False pc b r x v m \<Longrightarrow> \<exists>t. reaches view (trap_at p 0x20 (Some 0x1c) result) m (0x24 + 0x20 + (r + 1) + result) t \<and>
      paused 0x20 False 0x24 None (r + 1) x v t"
    and "paused q False pc b r x v m \<Longrightarrow> \<exists>t. reaches view (trap_at p 0x10 (Some 0x20) result) m (0x14 + 0x10 + (r + v) + result) t \<and>
      paused 0x10 False 0x14 None (r + v) v v t"
  by (rule paused_trap [OF p], simp add: test_program_def, assumption, rule refl, rule refl,
      simp only: option.case, drule (1) trap_runs [where other = other], simp add: fun_upd_idem)+

section \<open>The whole test\<close>

lemma reaches_write_list:
  assumes p: "or1k_target p view other"
  shows "stalled m \<Longrightarrow> \<forall>(a, w) \<in> set ws. (base + a) AND 3 = 0 \<Longrightarrow>
    reaches view (write_list p base ws) m () (m\<lparr>mem := fold (\<lambda>(a, w) M. M(base + a := w)) ws (mem m)\<rparr>)"
proof (induction ws arbitrary: m)
  case Nil
  then show ?case by (simp add: write_list_def reaches_done)
next
  case (Cons x ws)
  obtain a w where x: "x = (a, w)" by force
  let ?m = "m\<lparr>mem := (mem m)(base + a := w)\<rparr>"
  have 1: "reaches view (wr32 p (base + a) w) m () ?m"
    using Cons.prems by (intro reaches_wr32 [OF p]) (simp_all add: x)
  have "reaches view (write_list p base ws) ?m () (?m\<lparr>mem := fold (\<lambda>(a, w) M. M(base + a := w)) ws (mem ?m)\<rparr>)"
    using Cons.prems by (intro Cons.IH) simp_all
  then have 2: "reaches view (write_list p base ws) ?m () (m\<lparr>mem := fold (\<lambda>(a, w) M. M(base + a := w)) (x # ws) (mem m)\<rparr>)"
    by (simp add: x)
  show ?case using reaches_then [OF 1 2] unfolding write_list_def x list.map do_all.simps prod.case .
qed

lemma reaches_read_list:
  assumes p: "or1k_target p view other" and m: "stalled m"
  shows "\<forall>a \<in> set as. (base + a) AND 3 = 0 \<Longrightarrow>
    reaches view (read_list p base as w) m (fold (\<lambda>a _. mem m (base + a)) as w) m"
proof (induction as arbitrary: w)
  case Nil
  then show ?case by (simp add: reaches_done)
next
  case (Cons a as)
  have "reaches view (rd32 p (base + a) w) m (mem m (base + a)) m"
    using Cons.prems by (intro reaches_rd32 [OF p m]) simp_all
  from reaches_then [OF this Cons.IH] Cons.prems show ?case by simp
qed

lemma reaches_stall_cpus:
  assumes p: "or1k_target p view other"
  shows "\<exists>s'. stall_cpus p s = Returns (APP_ERR_NONE, s') \<and> stalled (view s')"
proof -
  obtain n where "accepts view (port_cpu0_write_ctrl p 0 1 s) (((or1k_step other ^^ n) (view s))\<lparr>stalled := True\<rparr>)"
    using target_stall [OF p] by blast
  then obtain s1 where s1: "ctrl_wr p 0 1 s = Returns ((), s1)" "stalled (view s1)"
    unfolding ctrl_wr_def accepts_def check_def Let_def split_beta by auto
  obtain k x where "answers view (port_cpu0_read_ctrl p 0 0 s1) x ((or1k_step other ^^ k) (view s1))"
      "x AND 1 \<noteq> 0 \<longleftrightarrow> stalled ((or1k_step other ^^ k) (view s1))"
    using target_poll [OF p, of 0 s1] by blast
  with s1(2) obtain s2 where "ctrl_rd p 0 0 s1 = Returns (x, s2)" "stalled (view s2)" "x AND 1 \<noteq> 0"
    unfolding ctrl_rd_def answers_def check_def Let_def split_beta by auto
  with s1(1) show ?thesis by (auto simp: stall_cpus_def then_do_def done_with_def)
qed

lemma reaches_test_sram:
  assumes p: "or1k_target p view other" and m: "stalled m"
  shows "\<exists>M. reaches view (test_sram p) m APP_ERR_NONE (m\<lparr>mem := M\<rparr>)"
  unfolding test_sram_def
  by (rule exI, rule reaches_then [OF reaches_write_list [OF p m] reaches_then [OF reaches_read_list [OF p] reaches_done]])
    (simp_all add: m const_simps)

lemma set_pc:
  assumes p: "or1k_target p view other" and m: "running None q step True pc b G v m"
  shows "\<exists>t. reaches view (cpu_wr p (push_bit 11 0 + 16) a) m () t \<and> running None q step True a None G v t"
proof (intro exI conjI)
  show "reaches view (cpu_wr p (push_bit 11 0 + 16) a) m () (m\<lparr>npc := a, branch := None\<rparr>)"
    using m by (intro reaches_cpu_wr [OF p]) (simp_all add: spr_write_def running_def)
qed (rule running_updates(6) [OF m])

lemma set_step:
  assumes p: "or1k_target p view other" and m: "running None q step True pc b G v m" and "step' = bit a 22"
  shows "\<exists>t. reaches view (cpu_wr p (push_bit 11 6 + 16) a) m () t \<and> running None q step' True pc b G v t"
proof (intro exI conjI)
  show "reaches view (cpu_wr p (push_bit 11 6 + 16) a) m () (m\<lparr>single_step := step'\<rparr>)"
    using m by (intro reaches_cpu_wr [OF p]) (simp_all add: spr_write_def running_def assms(3))
qed (rule running_updates(5) [OF m])

lemma paused_settings:
  assumes p: "or1k_target p view other" and m: "paused q step pc b r x v m"
  shows "\<exists>t. reaches view (cpu_wr p (push_bit 11 0 + 16) a) m () t \<and> paused q step a None r x v t"
    and "\<exists>t. reaches view (cpu_wr p (push_bit 11 6 + 16) 0) m () t \<and> paused q False pc b r x v t"
    and "\<exists>t. reaches view (cpu_wr p (push_bit 11 6 + 16) (push_bit 22 1)) m () t \<and> paused q True pc b r x v t"
    and "\<exists>t. reaches view (read_state p result) m (pc + q + r + result) t \<and> paused q step pc b r x v t"
proof -
  obtain G where G: "running None q step True pc b G v m" "G 1 = r" "G 2 = 0x30" "G 3 = x"
    using m by (auto simp: paused_def)
  show "\<exists>t. reaches view (cpu_wr p (push_bit 11 0 + 16) a) m () t \<and> paused q step a None r x v t"
    using set_pc [OF p G(1)] pausedI [OF _ G(2-4)] by blast
  show "\<exists>t. reaches view (cpu_wr p (push_bit 11 6 + 16) 0) m () t \<and> paused q False pc b r x v t"
    using set_step [OF p G(1), of False 0] pausedI [OF _ G(2-4)] by auto
  show "\<exists>t. reaches view (cpu_wr p (push_bit 11 6 + 16) (push_bit 22 1)) m () t \<and> paused q True pc b r x v t"
    using set_step [OF p G(1), of True "push_bit 22 1"] pausedI [OF _ G(2-4)] by (auto simp: bit_simps)
  have "reaches view (read_state p result) m (pc + q + r + result) m"
    using G(1,2) by (intro reaches_read_state [OF p]) (simp_all add: running_def)
  with m show "\<exists>t. reaches view (read_state p result) m (pc + q + r + result) t \<and> paused q step pc b r x v t" by blast
qed

lemma paused_steps:
  assumes p: "or1k_target p view other"
  shows "running None q True True 0 None G v m \<Longrightarrow> \<exists>t. reaches view (do_all (replicate 11 (unstall p))) m () t \<and>
      paused 0x28 True 0x10 None 5 2 2 t"
    and "paused q True 0x14 None r x v m \<Longrightarrow> \<exists>t. reaches view (do_all (replicate 5 (unstall p))) m () t \<and>
      paused 0x24 True 0x28 (Some 0x10) (r + 2) (r + 1) (r + 1) t"
    and "paused q True 0x24 None r x v m \<Longrightarrow> \<exists>t. reaches view (do_all (replicate 2 (unstall p))) m () t \<and>
      paused 0x28 True 0x10 None (r + x) x v t"
proof -
  show "running None q True True 0 None G v m \<Longrightarrow> \<exists>t. reaches view (do_all (replicate 11 (unstall p))) m () t \<and>
      paused 0x28 True 0x10 None 5 2 2 t"
    by (drule step_runs(1) [OF p]) (elim exE conjE, intro exI conjI, assumption, erule pausedI, simp_all)
next
  assume "paused q True 0x14 None r x v m"
  then obtain G where G: "running None q True True 0x14 None G v m" "G 1 = r" "G 2 = 0x30" "G 3 = x"
    by (auto simp: paused_def)
  obtain t where "reaches view (do_all (replicate 5 (unstall p))) m () t"
    "running None 0x24 True True 0x28 (Some 0x10) (G(1 := G 1 + 2, 3 := G 1 + 1)) (G 1 + 1) t"
    using step_runs(2) [OF p G(1,3)] by blast
  moreover from this(2) have "paused 0x24 True 0x28 (Some 0x10) (r + 2) (r + 1) (r + 1) t"
    unfolding G(2) by (rule pausedI) (simp_all add: G)
  ultimately show "\<exists>t. reaches view (do_all (replicate 5 (unstall p))) m () t \<and>
      paused 0x24 True 0x28 (Some 0x10) (r + 2) (r + 1) (r + 1) t" by blast
next
  assume "paused q True 0x24 None r x v m"
  then obtain G where G: "running None q True True 0x24 None G v m" "G 1 = r" "G 2 = 0x30" "G 3 = x"
    by (auto simp: paused_def)
  obtain t where "reaches view (do_all (replicate 2 (unstall p))) m () t"
    "running None 0x28 True True 0x10 None (G(1 := G 1 + G 3)) v t"
    using step_runs(3) [OF p G(1)] by blast
  moreover from this(2) have "paused 0x28 True 0x10 None (r + x) x v t"
    by (rule pausedI) (simp_all add: G)
  ultimately show "\<exists>t. reaches view (do_all (replicate 2 (unstall p))) m () t \<and>
      paused 0x28 True 0x10 None (r + x) x v t" by blast
qed

lemma reaches_test_or1k:
  assumes p: "or1k_target p view other" and m: "stalled m"
  shows "\<exists>t. reaches view (test_or1k_cpu0 p) m APP_ERR_NONE t \<and> stalled t"
proof -
  let ?m1 = "m\<lparr>mem := fold (\<lambda>(a, w) M. M(0 + a := w)) test_program (mem m)\<rparr>"
  let ?m2 = "?m1\<lparr>trap_stalls := True\<rparr>"
  have 1: "reaches view (write_list p 0 test_program) m () ?m1"
    by (rule reaches_write_list [OF p m]) (simp add: test_program_def)
  have 2: "reaches view (cpu_wr p (push_bit 11 0 + 17) 1) ?m1 () ?m1"
    and 3: "reaches view (cpu_wr p (push_bit 11 6 + 20) 0x2000) ?m1 () ?m2"
    by (rule reaches_cpu_wr [OF p]; simp add: m spr_write_def bit_simps)+
  have m2: "running None (ppc m) (single_step m) True (npc m) (branch m) (gpr m) (mem m 0x30) ?m2"
    by (simp add: running_def program_in_def test_program_def m)
  have on: "True = bit (push_bit 22 1 :: u32) 22" by (simp add: bit_simps)
  show ?thesis
    unfolding test_or1k_cpu0_def SDRAM_BASE_def add_0_left
    by (rule reaches_first [OF 1], rule reaches_first [OF 2], rule reaches_first [OF 3], rule reaches_chain [OF set_pc [OF p m2]],
        rule reaches_chain, erule set_step [OF p _ on],
        (rule reaches_chain, erule paused_steps [OF p] trap_blocks [OF p] paused_settings [OF p])+,
        rule exI, rule conjI, rule reaches_done, simp, rule refl, erule paused_stalled)
qed

text \<open>
  C3: On every port that behaves like an OpenRISC CPU with a memory, in whatever state the CPU is
  when the test starts, the self test ends and reports success, and leaves the CPU stalled. The values
  that the test expects after each block are thus the right ones, and no wait for the CPU goes on for ever.
\<close>

theorem selftest_passes:
  assumes p: "or1k_target p view other"
  shows "\<exists>s'. dbg_test p s = Returns (APP_ERR_NONE, s') \<and> stalled (view s')"
proof -
  obtain s1 where s1: "stall_cpus p s = Returns (APP_ERR_NONE, s1)" "stalled (view s1)"
    using reaches_stall_cpus [OF p] by blast
  obtain M where "reaches view (test_sram p) (view s1) APP_ERR_NONE ((view s1)\<lparr>mem := M\<rparr>)"
    using reaches_test_sram [OF p s1(2)] by blast
  then obtain s2 where s2: "test_sram p s1 = Returns (APP_ERR_NONE, s2)" "stalled (view s2)"
    using s1(2) by (auto simp: reaches_def)
  obtain t where "reaches view (test_or1k_cpu0 p) (view s2) APP_ERR_NONE t" "stalled t"
    using reaches_test_or1k [OF p s2(2)] by blast
  then obtain s3 where "test_or1k_cpu0 p s2 = Returns (APP_ERR_NONE, s3)" "stalled (view s3)"
    by (auto simp: reaches_def)
  with s1(1) s2(1) show ?thesis by (simp add: dbg_test_def then_do_def done_with_def const_simps)
qed

text \<open>The target itself as a port, which executes one instruction before each read of its state.\<close>

definition or1k_port :: "(u32 \<Rightarrow> or1k \<Rightarrow> or1k) \<Rightarrow> or1k debug_port" where
  "or1k_port other =
     \<lparr>port_wb_read32 = \<lambda>a w m. ((Some APP_ERR_NONE, mem m a), m),
      port_wb_write32 = \<lambda>a w m. (Some APP_ERR_NONE, m\<lparr>mem := (mem m)(a := w)\<rparr>),
      port_wb_read_block32 = \<lambda>a buf n m. ((Some APP_ERR_NONE, buf), m),
      port_wb_read_block16 = \<lambda>a buf n m. ((Some APP_ERR_NONE, buf), m),
      port_wb_read_block8 = \<lambda>a buf n m. ((Some APP_ERR_NONE, buf), m),
      port_wb_write_block32 = \<lambda>a buf n m. ((Some APP_ERR_NONE, buf), m),
      port_wb_write_block16 = \<lambda>a buf n m. ((Some APP_ERR_NONE, buf), m),
      port_wb_write_block8 = \<lambda>a buf n m. (Some APP_ERR_NONE, m),
      port_cpu0_read = \<lambda>a w m. ((Some APP_ERR_NONE, spr_read a m), m),
      port_cpu0_write = \<lambda>a w m. (Some APP_ERR_NONE, spr_write a w m),
      port_cpu0_read_ctrl = \<lambda>a w m. ((Some APP_ERR_NONE, of_bool (stalled (or1k_step other m))), or1k_step other m),
      port_cpu0_write_ctrl = \<lambda>a w m. (Some APP_ERR_NONE, m\<lparr>stalled := w AND 1 \<noteq> 0\<rparr>)\<rparr>"

lemma or1k_port_target: "or1k_target (or1k_port other) (\<lambda>m. m) other"
proof -
  have poll: "stalled (or1k_step other m) \<Longrightarrow> \<exists>n > 0. or1k_step other m = (or1k_step other ^^ n) m \<and> stalled ((or1k_step other ^^ n) m)"
    "\<not> stalled (or1k_step other m) \<Longrightarrow> \<exists>n > 0. or1k_step other m = (or1k_step other ^^ n) m \<and> \<not> stalled ((or1k_step other ^^ n) m)" for m
    by (rule exI [of _ 1], simp)+
  have run: "\<exists>n. m\<lparr>stalled := b\<rparr> = ((or1k_step other ^^ n) m)\<lparr>stalled := b\<rparr>"
    "\<exists>n. m\<lparr>stalled := b\<rparr> = (or1k_step other ^^ n) (m\<lparr>stalled := b\<rparr>)" for m b
    by (rule exI [of _ 0], simp)+
  show ?thesis
    unfolding or1k_target_def answers_def accepts_def or1k_port_def
    by (intro conjI allI impI) (simp_all add: run poll)
qed

definition example_or1k :: or1k where
  "example_or1k = \<lparr>mem = (\<lambda>_. 0x15000000), gpr = (\<lambda>_. 0), npc = 0x100, ppc = 0, branch = None,
     single_step = False, trap_stalls = False, stalled = False\<rparr>"

theorem selftest_passes_witness:
  "\<exists>m. dbg_test (or1k_port (\<lambda>_ m. m)) example_or1k = Returns (APP_ERR_NONE, m) \<and> stalled m"
  using selftest_passes [OF or1k_port_target] by blast

section \<open>What the memory tests do not see\<close>

text \<open>A memory of which only the word at 0x20 works: it loses all other words, and answers whatever it
  likes for them.\<close>

definition one_word_port :: "(u32 \<Rightarrow> u32) \<Rightarrow> u32 debug_port" where
  "one_word_port junk =
     \<lparr>port_wb_read32 = \<lambda>a w m. ((Some APP_ERR_NONE, if a = 0x20 then m else junk a), m),
      port_wb_write32 = \<lambda>a w m. (Some APP_ERR_NONE, if a = 0x20 then w else m),
      port_wb_read_block32 = \<lambda>a buf n m. ((Some APP_ERR_NONE, buf), m),
      port_wb_read_block16 = \<lambda>a buf n m. ((Some APP_ERR_NONE, buf), m),
      port_wb_read_block8 = \<lambda>a buf n m. ((Some APP_ERR_NONE, buf), m),
      port_wb_write_block32 = \<lambda>a buf n m. ((Some APP_ERR_NONE, buf), m),
      port_wb_write_block16 = \<lambda>a buf n m. ((Some APP_ERR_NONE, buf), m),
      port_wb_write_block8 = \<lambda>a buf n m. (Some APP_ERR_NONE, m),
      port_cpu0_read = \<lambda>a w m. ((Some APP_ERR_NONE, w), m),
      port_cpu0_write = \<lambda>a w m. (Some APP_ERR_NONE, m),
      port_cpu0_read_ctrl = \<lambda>a w m. ((Some APP_ERR_NONE, w), m),
      port_cpu0_write_ctrl = \<lambda>a w m. (Some APP_ERR_NONE, m)\<rparr>"

text \<open>
  The memory test passes on it: it reads nine words into one variable, and only the last is compared.
\<close>

theorem sram_test_one_word: "test_sram (one_word_port junk) m = Returns (APP_ERR_NONE, 0xdedababa)"
  by (simp add: test_sram_def write_list_def then_do_def done_with_def wr32_def rd32_def check_def
      one_word_port_def const_simps)

text \<open>
  The block test of \<open>test_sdram\<close> asks for 32 words, where the array has eight: on a port that reads as
  many words as it is asked for, what lies behind the array is overwritten.
\<close>

lemma reaches_compare_words:
  assumes p: "or1k_target p view other" and m: "stalled m"
  shows "\<forall>i \<in> set ns. mem m (of_nat i) = of_nat i \<and> of_nat i AND (3 :: u32) = 0 \<and> i < 2 ^ 32 \<Longrightarrow>
    reaches view (compare_words p ns) m APP_ERR_NONE m"
proof (induction ns)
  case Nil
  then show ?case by (simp add: reaches_done)
next
  case (Cons i ns)
  have 1: "reaches view (rd32 p (SDRAM_BASE + of_nat i) 0) m (of_nat i) m"
    using Cons.prems by (intro reaches_rd32 [OF p m]) (simp_all add: const_simps)
  have "i = unat (of_nat i :: u32)" using Cons.prems by (simp add: unat_of_nat take_bit_nat_eq_self)
  with Cons show ?case by (auto intro: reaches_then [OF 1])
qed

theorem sdram_test_overruns:
  assumes p: "or1k_target p view other" and s: "stalled (view s)"
    and wr: "\<And>s. \<exists>s'. port_wb_write_block32 p 0 data4 0x20 s = ((Some APP_ERR_NONE, data4), s')"
    and rd: "\<And>s. length (snd (fst (port_wb_read_block32 p 0 data4 0x20 s))) = 0x80"
  shows "test_sdram p s = Hangs"
proof -
  let ?ns = "[0x10, 0x20, 0x40, 0x80, 0x100, 0x200]"
  let ?m = "(view s)\<lparr>mem := fold (\<lambda>(a, w) M. M(SDRAM_BASE + a := w)) (map (\<lambda>i. (of_nat i, of_nat i)) ?ns) (mem (view s))\<rparr>"
  have ns: "doublings 0x10 (unat (SDRAM_SIZE + SDRAM_BASE)) = ?ns" by (simp add: const_simps)
  have "reaches view (write_list p SDRAM_BASE (map (\<lambda>i. (of_nat i, of_nat i)) ?ns)) (view s) () ?m"
    by (rule reaches_write_list [OF p s]) (simp add: const_simps)
  then obtain s1 where s1: "write_list p SDRAM_BASE (map (\<lambda>i. (of_nat i, of_nat i)) ?ns) s = Returns ((), s1)" "view s1 = ?m"
    unfolding reaches_def by blast
  have "reaches view (compare_words p ?ns) ?m APP_ERR_NONE ?m"
    by (rule reaches_compare_words [OF p]) (simp_all add: s const_simps)
  then obtain s2 where s2: "compare_words p ?ns s1 = Returns (APP_ERR_NONE, s2)"
    using s1(2) unfolding reaches_def by blast
  obtain s3 where s3: "port_wb_write_block32 p 0 data4 0x20 s2 = ((Some APP_ERR_NONE, data4), s3)"
    using wr by blast
  have "length data4 = 32" by (simp add: data4_def)
  with rd [of s3] s3 have "block_test (blk (port_wb_write_block32 p) 0 data4 0x20)
      (\<lambda>buf. blk (port_wb_read_block32 p) 0 buf 0x20) data4 next s2 = Hangs" for "next"
    unfolding block_test_def then_do_def blk_def check_def Let_def split_beta by simp
  then show ?thesis
    unfolding test_sdram_def ns Let_def
    by (simp only: then_do_def s1(1) [unfolded SDRAM_BASE_def] s2 and_then.simps prod.case SDRAM_BASE_def refl
        simp_thms if_False)
qed

end
