(* ===== verification/Bridge_Main.thy ===== *)
theory Bridge_Main
  imports Bridge_Config Self_Test
begin

text \<open>
  The start of the program (\<open>main\<close>, \<open>parse_args\<close> and \<open>get_ir_opts\<close> in \<^verbatim>\<open>adv_jtag_bridge.c\<close>), up to the
  point where the servers are started: the command line, the choice of the cable, the
  configuration of the chain, the self test and the numbers of the ports.

  \<open>getopt\<close> belongs to the library: what it finds on the command line is a parameter,
  \<open>command_line\<close>. The JTAG serial port is enabled, as it is by default.
\<close>

section \<open>The command line\<close>

text \<open>\<open>main_options\<close> are the options \<open>getopt\<close> returns one after the other, up to the first argument that is
  none, and \<open>arguments\<close> the rest. \<open>cable_getopt\<close> is what it returns for the options of a cable, in the
  arguments behind the first; a character that is not among them is \<open>?\<close>.\<close>

record command_line =
  main_options :: "(char \<times> string) list"
  arguments :: "string list"
  cable_getopt :: "string \<Rightarrow> (char \<times> string) list"

definition IR_START_SETS :: nat where [const_simps]: "IR_START_SETS = 16"
definition default_port :: "u8 list" where "default_port = asc ''9999''"
definition default_jspport :: "u8 list" where "default_jspport = asc ''9944''"
definition default_hwpport :: "u8 list" where "default_hwpport = asc ''9928''"

definition get_ir_opts :: "host \<Rightarrow> u8 list \<Rightarrow> (int \<times> int) outcome" where
  "get_ir_opts h optstr =
     (case strstr (asc '':'') optstr of
        None \<Rightarrow> Exits 1
      | Some ptr \<Rightarrow> Returns (sint (strtoul h 10 (take (length optstr - length ptr) optstr)), sint (strtoul h 10 (drop 1 ptr))))"

definition add_ir_set :: "host \<Rightarrow> u8 list \<Rightarrow> 'c bridge \<Rightarrow> 'c bridge outcome" where
  "add_ir_set h optarg s =
     and_then (get_ir_opts h optarg) (\<lambda>set.
     if length (ir_sets s) \<ge> IR_START_SETS * 2 ^ ir_reallocs s
     then if malloc_ok h (int (IR_START_SETS * 2 ^ (ir_reallocs s + 1)) * 8)
          then Returns (s\<lparr>ir_reallocs := ir_reallocs s + 1, ir_sets := ir_sets s @ [set]\<rparr>)
          else Exits 1
     else Returns (s\<lparr>ir_sets := ir_sets s @ [set]\<rparr>))"

definition parse_option :: "host \<Rightarrow> char \<Rightarrow> string \<Rightarrow> 'c bridge \<Rightarrow> 'c bridge outcome" where
  "parse_option h c optarg s =
     (let arg = asc optarg
      in if c = CHR ''h'' then Exits 0
         else if c = CHR ''g'' then Returns (s\<lparr>rsp_port := Some arg\<rparr>)
         else if c = CHR ''j'' then Returns (s\<lparr>jsp_port := Some arg\<rparr>)
         else if c = CHR ''w'' then Returns (s\<lparr>hwp_port := Some arg\<rparr>)
         else if c = CHR ''x'' then Returns (s\<lparr>target_dev_pos := word_of_int (atoi h optarg)\<rparr>)
         else if c = CHR ''l'' then add_ir_set h arg s
         else if c = CHR ''c'' then Returns (s\<lparr>cmd_line_cmd_debug := sint (strtoul h 16 arg)\<rparr>)
         else if c = CHR ''v'' then Returns (on_jtag (config_set_vjtag_cmd_vir (strtoul h 16 arg)) s)
         else if c = CHR ''r'' then Returns (on_jtag (config_set_vjtag_cmd_vdr (strtoul h 16 arg)) s)
         else if c = CHR ''t'' then Returns (s\<lparr>do_selftest := True\<rparr>)
         else if c = CHR ''a'' then Returns (s\<lparr>force_alt_vjtag := if atoi h optarg = 1 then 1 else -1\<rparr>)
         else if c = CHR ''b'' then Returns (s\<lparr>bsdl_files := bsdl_add_directory arg (bsdl_files s)\<rparr>)
         else Exits 1)"

fun parse_options :: "host \<Rightarrow> (char \<times> string) list \<Rightarrow> 'c bridge \<Rightarrow> 'c bridge outcome" where
  "parse_options h [] s = Returns s"
| "parse_options h ((c, optarg) # opts) s = and_then (parse_option h c optarg s) (parse_options h opts)"

definition default_ports :: "'c bridge \<Rightarrow> 'c bridge" where
  "default_ports s = s\<lparr>
     rsp_port := (case rsp_port s of None \<Rightarrow> Some default_port | p \<Rightarrow> p),
     jsp_port := (case jsp_port s of None \<Rightarrow> Some default_jspport | p \<Rightarrow> p),
     hwp_port := (case hwp_port s of None \<Rightarrow> Some default_hwpport | p \<Rightarrow> p)\<rparr>"

text \<open>The first argument that names a cable selects it.\<close>

fun find_cable :: "'c jtag_cable list \<Rightarrow> string list \<Rightarrow> 'c jtag_cable option" where
  "find_cable cables [] = None"
| "find_cable cables (arg # args) =
     (let (err, in_use) = cable_select arg cables None
      in if err = APP_ERR_NONE then in_use else find_cable cables args)"

fun parse_cable_options :: "'c jtag_cable \<Rightarrow> (char \<times> string) list \<Rightarrow> 'c bridge \<Rightarrow> 'c bridge outcome" where
  "parse_cable_options cb [] s = Returns s"
| "parse_cable_options cb ((c, optarg) # opts) s =
     (if c = CHR ''?'' then Exits 1
      else let (err, t) = cable_parse_opt cb c optarg (cable (jtag s))
           in if err \<noteq> APP_ERR_NONE then Exits 1
              else parse_cable_options cb opts (on_jtag (\<lambda>ch. ch\<lparr>cable := t\<rparr>) s))"

definition parse_args :: "host \<Rightarrow> 'c jtag_cable list \<Rightarrow> command_line \<Rightarrow> 'c bridge \<Rightarrow> ('c jtag_cable \<times> 'c bridge) outcome" where
  "parse_args h cables cl s =
     (let s = s\<lparr>rsp_port := None, jsp_port := None, force_alt_vjtag := 0, cmd_line_cmd_debug := -1\<rparr>
      in and_then (parse_options h (main_options cl) s) (\<lambda>s.
         let s = default_ports s
         in case find_cable cables (arguments cl) of
              None \<Rightarrow> Exits 1
            | Some cb \<Rightarrow>
                and_then (case cable_get_args (Some cb) of None \<Rightarrow> Returns s
                          | Some args \<Rightarrow> parse_cable_options cb (cable_getopt cl args) s)
                  (\<lambda>s. Returns (cb, s))))"

section \<open>The main program\<close>

text \<open>\<open>strtol\<close> with base 10 as the GNU library has it, with the text behind the number.\<close>

definition strtol10 :: "host \<Rightarrow> u8 list \<Rightarrow> int \<times> u8 list" where
  "strtol10 h str =
     (let (neg, body) = scan_sign (dropWhile is_space str);
          ds = takeWhile is_dec body;
          n = int (digits_nat 10 ds);
          top = 2 ^ (8 * sizeof_ulong h - 1)
      in if ds = [] then (0, str)
         else (if neg then max (- n) (- top) else min n (top - 1), drop (length ds) body))"

text \<open>Where the text for a server is not a number, the number of the GDB server becomes the default of that
  server. The GDB server has its number by then, so this has no effect.\<close>

definition rsp_port_number :: "host \<Rightarrow> u8 list \<Rightarrow> int outcome" where
  "rsp_port_number h port =
     (let (n, rest) = strtol10 h port
      in if rest = [] then Returns n
         else let (n, rest) = strtol10 h default_port in if rest = [] then Returns n else Exits (-1))"

definition other_port_number :: "host \<Rightarrow> u8 list \<Rightarrow> u8 list \<Rightarrow> int outcome" where
  "other_port_number h port dflt =
     (let (n, rest) = strtol10 h port
      in if rest = [] then Returns n
         else if snd (strtol10 h dflt) = [] then Returns n else Exits (-1))"

definition run_selftest :: "host \<Rightarrow> debug_hardware \<Rightarrow> 'c jtag_cable \<Rightarrow> 'c bridge \<Rightarrow> 'c bridge outcome" where
  "run_selftest h hw cb s =
     (if do_selftest s
      then and_then (dbg_test (api_port h hw cb) \<lparr>dbg_chain = jtag s, dbg_access_mutex = Free\<rparr>) (\<lambda>(r, d).
           if r \<noteq> APP_ERR_NONE then Exits 1 else Returns (s\<lparr>jtag := dbg_chain d\<rparr>))
      else Returns s)"

text \<open>\<open>main\<close> up to the start of the servers: the result has the arguments of \<open>rsp_init\<close>, \<open>jsp_init\<close> and
  \<open>hwp_init\<close>, which are of type \<open>int\<close>.\<close>

record port_numbers =
  rsp_portNum :: int
  jsp_portNum :: int
  hwp_portNum :: int

definition to_int :: "int \<Rightarrow> int" where
  "to_int n = sint (word_of_int n :: u32)"

definition text_of :: "u8 list option \<Rightarrow> u8 list" where
  "text_of p = (case p of None \<Rightarrow> [] | Some t \<Rightarrow> t)"

definition bridge_main :: "host \<Rightarrow> debug_hardware \<Rightarrow> file_system \<Rightarrow> cable_build \<Rightarrow> (driver \<Rightarrow> 'c jtag_cable)
    \<Rightarrow> command_line \<Rightarrow> 'c bridge \<Rightarrow> ('c jtag_cable \<times> port_numbers \<times> 'c bridge) outcome" where
  "bridge_main h hw fs b drivers cl s =
     (let s = s\<lparr>bsdl_files := bsdl_init (bsdl_files s)\<rparr>
      in if \<not> malloc_ok h (int IR_START_SETS * 8) then Exits 1
         else and_then (parse_args h (cable_setup b drivers) cl s) (\<lambda>(cb, s).
           let (err, t) = cable_init cb (cable (jtag s))
           in if err \<noteq> APP_ERR_NONE then Exits 1
              else and_then (configure_chain h hw fs cb (on_jtag (\<lambda>ch. ch\<lparr>cable := t\<rparr>) s)) (\<lambda>s.
                   and_then (run_selftest h hw cb s) (\<lambda>s.
                   and_then (rsp_port_number h (text_of (rsp_port s))) (\<lambda>r.
                   and_then (other_port_number h (text_of (jsp_port s)) default_jspport) (\<lambda>j.
                   and_then (other_port_number h (text_of (hwp_port s)) default_hwpport) (\<lambda>w.
                   Returns (cb, \<lparr>rsp_portNum = to_int r, jsp_portNum = to_int j, hwp_portNum = to_int w\<rparr>, s))))))))"

section \<open>What the options do\<close>

text \<open>The argument of the last option \<open>c\<close>.\<close>

definition last_arg :: "char \<Rightarrow> (char \<times> string) list \<Rightarrow> u8 list option \<Rightarrow> u8 list option" where
  "last_arg c opts r = fold (\<lambda>(d, a) r. if d = c then Some (asc a) else r) opts r"

lemma last_arg_simps [simp]: "last_arg c [] r = r"
  "last_arg c ((d, a) # opts) r = last_arg c opts (if d = c then Some (asc a) else r)"
  by (simp_all add: last_arg_def)

lemma add_ir_set_frame: "add_ir_set h arg s = Returns t \<Longrightarrow> rsp_port t = rsp_port s \<and> jsp_port t = jsp_port s \<and>
    hwp_port t = hwp_port s \<and> do_selftest t = do_selftest s \<and> force_alt_vjtag t = force_alt_vjtag s"
  by (auto simp: add_ir_set_def and_then_Returns split: if_splits)

lemma parse_option_frame:
  assumes "parse_option h c arg s = Returns t"
  shows "rsp_port t = (if c = CHR ''g'' then Some (asc arg) else rsp_port s)"
    and "jsp_port t = (if c = CHR ''j'' then Some (asc arg) else jsp_port s)"
    and "hwp_port t = (if c = CHR ''w'' then Some (asc arg) else hwp_port s)"
    and "do_selftest t \<longleftrightarrow> do_selftest s \<or> c = CHR ''t''"
    and "force_alt_vjtag s \<in> {-1, 0, 1} \<Longrightarrow> force_alt_vjtag t \<in> {-1, 0, 1}"
  using assms by (auto simp: parse_option_def Let_def on_jtag_def dest: add_ir_set_frame split: if_splits)

lemma parse_options_frame:
  assumes "parse_options h opts s = Returns t"
  shows "rsp_port t = last_arg CHR ''g'' opts (rsp_port s)" and "jsp_port t = last_arg CHR ''j'' opts (jsp_port s)"
    and "hwp_port t = last_arg CHR ''w'' opts (hwp_port s)" and "do_selftest t \<longleftrightarrow> do_selftest s \<or> CHR ''t'' \<in> fst ` set opts"
    and "force_alt_vjtag s \<in> {-1, 0, 1} \<Longrightarrow> force_alt_vjtag t \<in> {-1, 0, 1}"
proof -
  have "rsp_port t = last_arg CHR ''g'' opts (rsp_port s) \<and> jsp_port t = last_arg CHR ''j'' opts (jsp_port s) \<and>
      hwp_port t = last_arg CHR ''w'' opts (hwp_port s) \<and> (do_selftest t \<longleftrightarrow> do_selftest s \<or> CHR ''t'' \<in> fst ` set opts) \<and>
      (force_alt_vjtag s \<in> {-1, 0, 1} \<longrightarrow> force_alt_vjtag t \<in> {-1, 0, 1})"
    using assms
  proof (induction opts arbitrary: s)
    case (Cons x opts)
    obtain c arg where x: "x = (c, arg)" by force
    with Cons.prems obtain u where u: "parse_option h c arg s = Returns u" "parse_options h opts u = Returns t"
      by (auto simp: and_then_Returns)
    note IH = Cons.IH [OF u(2)] and frame = parse_option_frame [OF u(1)]
    from IH frame show ?case by (auto simp: x)
  qed simp
  then show "rsp_port t = last_arg CHR ''g'' opts (rsp_port s)" "jsp_port t = last_arg CHR ''j'' opts (jsp_port s)"
    "hwp_port t = last_arg CHR ''w'' opts (hwp_port s)" "do_selftest t \<longleftrightarrow> do_selftest s \<or> CHR ''t'' \<in> fst ` set opts"
    "force_alt_vjtag s \<in> {-1, 0, 1} \<Longrightarrow> force_alt_vjtag t \<in> {-1, 0, 1}"
    by blast+
qed

lemma parse_cable_options_frame:
  "parse_cable_options cb opts s = Returns t \<Longrightarrow> bridge_opts.truncate t = bridge_opts.truncate s"
proof (induction opts arbitrary: s)
  case (Cons x opts)
  obtain c arg where "x = (c, arg)" by force
  with Cons show ?case
    by (fastforce simp: Let_def split_beta on_jtag_def bridge_opts.truncate_def split: if_splits)
qed simp

lemma find_cable_Some:
  "find_cable cables args = Some cb \<Longrightarrow> cb \<in> set cables \<and> cable_name cb \<in> set args"
proof (induction args)
  case (Cons arg args)
  obtain err u where sel: "cable_select arg cables None = (err, u)" by force
  show ?case
  proof (cases "err = APP_ERR_NONE")
    case True
    with Cons.prems sel have "u = Some cb" by simp
    with cable_select_Some [of arg cables None u] sel True show ?thesis by auto
  next
    case False
    with Cons sel show ?thesis by simp
  qed
qed simp

lemma last_arg_default:
  "last_arg c opts (Some d) = Some (case last_arg c opts None of None \<Rightarrow> d | Some a \<Rightarrow> a)"
proof -
  have "last_arg c opts r = (case last_arg c opts None of None \<Rightarrow> r | Some a \<Rightarrow> Some a)" for r
  proof (induction opts arbitrary: r)
    case (Cons x opts)
    obtain d a where x: "x = (d, a)" by force
    show ?case
      unfolding x last_arg_simps by (subst (1 2) Cons.IH) (simp split: option.split)
  qed simp
  from this [of "Some d"] show ?thesis by (simp split: option.split)
qed

lemma parse_args_frame:
  assumes "parse_args h cables cl s = Returns (cb, t)"
  shows "cb \<in> set cables" "cable_name cb \<in> set (arguments cl)" "force_alt_vjtag t \<in> {-1, 0, 1}"
    and "do_selftest t \<longleftrightarrow> do_selftest s \<or> CHR ''t'' \<in> fst ` set (main_options cl)"
    and "rsp_port t = last_arg CHR ''g'' (main_options cl) (Some default_port)"
    and "jsp_port t = last_arg CHR ''j'' (main_options cl) (Some default_jspport)"
    and "hwp_port s = None \<Longrightarrow> hwp_port t = last_arg CHR ''w'' (main_options cl) (Some default_hwpport)"
proof -
  let ?s = "s\<lparr>rsp_port := None, jsp_port := None, force_alt_vjtag := 0, cmd_line_cmd_debug := -1\<rparr>"
  from assms obtain u where u1: "parse_options h (main_options cl) ?s = Returns u"
      and rest: "(case find_cable cables (arguments cl) of None \<Rightarrow> Exits 1
        | Some cb \<Rightarrow> and_then (case cable_get_args (Some cb) of None \<Rightarrow> Returns (default_ports u)
            | Some args \<Rightarrow> parse_cable_options cb (cable_getopt cl args) (default_ports u)) (\<lambda>s. Returns (cb, s))) = Returns (cb, t)"
    unfolding parse_args_def Let_def and_then_Returns by blast
  from rest obtain d where d: "find_cable cables (arguments cl) = Some d"
      "and_then (parse_cable_options d (cable_getopt cl (cable_opts d)) (default_ports u)) (\<lambda>s. Returns (d, s)) = Returns (cb, t)"
    by (simp add: cable_get_args_def split: option.splits)
  then have u: "parse_options h (main_options cl) ?s = Returns u" "find_cable cables (arguments cl) = Some cb"
      "bridge_opts.truncate t = bridge_opts.truncate (default_ports u)"
    using u1 parse_cable_options_frame by (fastforce simp: and_then_Returns)+
  show "cb \<in> set cables" "cable_name cb \<in> set (arguments cl)" using find_cable_Some [OF u(2)] by simp_all
  have t: "force_alt_vjtag t = force_alt_vjtag u" "do_selftest t = do_selftest u" "rsp_port t = rsp_port (default_ports u)"
      "jsp_port t = jsp_port (default_ports u)" "hwp_port t = hwp_port (default_ports u)"
    using u(3) by (simp_all add: bridge_opts.truncate_def default_ports_def)
  note frame = parse_options_frame [OF u(1)]
  show "force_alt_vjtag t \<in> {-1, 0, 1}" using frame(5) t(1) by simp
  show "do_selftest t \<longleftrightarrow> do_selftest s \<or> CHR ''t'' \<in> fst ` set (main_options cl)" using frame(4) t(2) by simp
  show "rsp_port t = last_arg CHR ''g'' (main_options cl) (Some default_port)"
    "jsp_port t = last_arg CHR ''j'' (main_options cl) (Some default_jspport)"
    using frame(1,2) by (simp_all add: t default_ports_def last_arg_default split: option.split)
  show "hwp_port s = None \<Longrightarrow> hwp_port t = last_arg CHR ''w'' (main_options cl) (Some default_hwpport)"
    using frame(3) by (simp add: t default_ports_def last_arg_default split: option.split)
qed

section \<open>Decimal numbers\<close>

lemma dec_start: "scan_sign (dropWhile is_space (dec_digits n @ rest)) = (False, dec_digits n @ rest)"
proof -
  obtain c cs where c: "dec_digits n = c # cs" by (cases "dec_digits n") auto
  with dec_digits_dec [of n] dec_props [of c] show ?thesis by (simp add: scan_sign_def)
qed

lemma ulong_bound:
  assumes "4 \<le> sizeof_ulong h"
  shows "2 ^ 31 \<le> (2 :: int) ^ (8 * sizeof_ulong h - 1)" "2 ^ 31 \<le> (2 :: nat) ^ (8 * sizeof_ulong h)"
  using assms by (intro power_increasing; simp)+

lemma strtol10_dec:
  assumes "n < 2 ^ 31" "4 \<le> sizeof_ulong h"
  shows "strtol10 h (dec_digits n) = (int n, [])"
proof -
  have take: "takeWhile is_dec (dec_digits n) = dec_digits n"
    using dec_digits_dec by (simp add: takeWhile_eq_all_conv)
  have "int n < 2 ^ 31" using assms(1) by simp
  with ulong_bound(1) [OF assms(2)] have "int n \<le> 2 ^ (8 * sizeof_ulong h - 1) - 1" by linarith
  then show ?thesis
    using dec_start [of n "[]"] by (simp add: strtol10_def take digits_nat_dec Let_def min_absorb1)
qed

lemma to_int_small: "n < 2 ^ 31 \<Longrightarrow> to_int (int n) = int n"
  by (simp add: to_int_def signed_of_nat signed_take_bit_int_eq_self_iff)

lemma strtoul10_dec:
  assumes "n < 2 ^ 31" "4 \<le> sizeof_ulong h" "rest = [] \<or> \<not> is_hex (hd rest)"
  shows "sint (strtoul h 10 (dec_digits n @ rest)) = int n"
proof -
  have dec: "\<forall>c \<in> set (dec_digits n). is_hex c \<and> hex (sint c) < 10" using dec_digits_dec dec_props by blast
  then have "takeWhile (\<lambda>c. is_hex c \<and> hex (sint c) < 10) (dec_digits n @ rest) = dec_digits n"
    using assms(3) by (cases rest) (auto simp: takeWhile_append2)
  moreover have "n < 2 ^ (8 * sizeof_ulong h)" using assms(1) ulong_bound(2) [OF assms(2)] by linarith
  ultimately have "strtoul h 10 (dec_digits n @ rest) = of_nat n"
    by (simp add: strtoul_def dec_start digits_nat_dec Let_def)
  with assms(1) show ?thesis by (simp add: signed_of_nat signed_take_bit_int_eq_self_iff)
qed

text \<open>The option \<open>-l\<close> is read back to the index and the length it was written with.\<close>

theorem ir_opts_roundtrip:
  assumes "i < 2 ^ 31" "n < 2 ^ 31" "4 \<le> sizeof_ulong h"
  shows "get_ir_opts h (dec_digits i @ asc '':'' @ dec_digits n) = Returns (int i, int n)"
proof -
  have no: "\<forall>c \<in> set (dec_digits i). c \<noteq> 0x3a"
    using dec_digits_dec [of i] by (auto simp: is_dec_def)
  have "strstr (asc '':'') (ds @ asc '':'' @ rest) = Some (asc '':'' @ rest)" if "\<forall>c \<in> set ds. c \<noteq> 0x3a" for ds rest
    using that by (induction ds) (auto simp: asc_def)
  from this [OF no] have "strstr (asc '':'') (dec_digits i @ asc '':'' @ dec_digits n) = Some (asc '':'' @ dec_digits n)" .
  moreover have "drop 1 (asc '':'' @ dec_digits n) = dec_digits n" by (simp add: asc_def)
  ultimately show ?thesis
    using strtoul10_dec [OF assms(1,3), of "[]"] strtoul10_dec [OF assms(2,3), of "[]"]
    by (simp add: get_ir_opts_def)
qed

text \<open>A text that is no number gives the serial port server and the watchpoint server the port 0, not their
  default.\<close>

lemma bad_port_is_zero:
  assumes "c \<noteq> 0x2d" "c \<noteq> 0x2b" "\<not> is_space c" "\<not> is_dec c" "4 \<le> sizeof_ulong h"
  shows "other_port_number h (c # cs) default_jspport = Returns 0"
    and "rsp_port_number h (c # cs) = Returns 9999"
proof -
  have "dec_digits 9944 = default_jspport" "dec_digits 9999 = default_port"
    by (simp_all add: dec_digits.simps default_jspport_def default_port_def asc_def)
  then have d: "strtol10 h default_jspport = (9944, [])" "strtol10 h default_port = (9999, [])"
    using strtol10_dec [of 9944 h] strtol10_dec [of 9999 h] assms(5) by simp_all
  have "strtol10 h (c # cs) = (0, c # cs)"
    using assms by (simp add: strtol10_def scan_sign_def)
  with d show "other_port_number h (c # cs) default_jspport = Returns 0" "rsp_port_number h (c # cs) = Returns 9999"
    by (simp_all add: other_port_number_def rsp_port_number_def)
qed

section \<open>When the servers start\<close>

text \<open>The steps of \<open>main\<close> that have gone well when it returns here.\<close>

lemma bridge_main_steps:
  assumes "bridge_main h hw fs b drivers cl s = Returns (cb, ports, s')"
  obtains s1 s2 t r j w where "parse_args h (cable_setup b drivers) cl (s\<lparr>bsdl_files := bsdl_init (bsdl_files s)\<rparr>) = Returns (cb, s1)"
    and "cable_init cb (cable (jtag s1)) = (APP_ERR_NONE, t)"
    and "configure_chain h hw fs cb (on_jtag (\<lambda>ch. ch\<lparr>cable := t\<rparr>) s1) = Returns s2"
    and "run_selftest h hw cb s2 = Returns s'"
    and "rsp_port_number h (text_of (rsp_port s')) = Returns r"
    and "other_port_number h (text_of (jsp_port s')) default_jspport = Returns j"
    and "other_port_number h (text_of (hwp_port s')) default_hwpport = Returns w"
    and "ports = \<lparr>rsp_portNum = to_int r, jsp_portNum = to_int j, hwp_portNum = to_int w\<rparr>"
proof -
  from assms obtain x where x: "parse_args h (cable_setup b drivers) cl (s\<lparr>bsdl_files := bsdl_init (bsdl_files s)\<rparr>) = Returns x"
      and rest: "(case x of (cb, s) \<Rightarrow> let (err, t) = cable_init cb (cable (jtag s)) in
        if err \<noteq> APP_ERR_NONE then Exits 1
        else and_then (configure_chain h hw fs cb (on_jtag (\<lambda>ch. ch\<lparr>cable := t\<rparr>) s)) (\<lambda>s.
             and_then (run_selftest h hw cb s) (\<lambda>s.
             and_then (rsp_port_number h (text_of (rsp_port s))) (\<lambda>r.
             and_then (other_port_number h (text_of (jsp_port s)) default_jspport) (\<lambda>j.
             and_then (other_port_number h (text_of (hwp_port s)) default_hwpport) (\<lambda>w.
             Returns (cb, \<lparr>rsp_portNum = to_int r, jsp_portNum = to_int j, hwp_portNum = to_int w\<rparr>, s))))))) =
        Returns (cb, ports, s')"
    unfolding bridge_main_def Let_def by (fastforce simp: and_then_Returns split: if_splits)
  obtain c s1 where s1: "x = (c, s1)" by force
  obtain err t where t: "cable_init c (cable (jtag s1)) = (err, t)" by force
  from rest obtain s2 r j w where *: "c = cb" "err = APP_ERR_NONE" "configure_chain h hw fs c (on_jtag (\<lambda>ch. ch\<lparr>cable := t\<rparr>) s1) = Returns s2"
      "run_selftest h hw c s2 = Returns s'" "rsp_port_number h (text_of (rsp_port s')) = Returns r"
      "other_port_number h (text_of (jsp_port s')) default_jspport = Returns j"
      "other_port_number h (text_of (hwp_port s')) default_hwpport = Returns w"
      "ports = \<lparr>rsp_portNum = to_int r, jsp_portNum = to_int j, hwp_portNum = to_int w\<rparr>"
    unfolding s1 by (auto simp: t and_then_Returns split: if_splits)
  show thesis
    by (rule that [of s1 t s2 r j w]) (use x t s1 * in \<open>simp_all only:\<close>)
qed

lemma port_numbers_dec:
  assumes "n < 2 ^ 31" "4 \<le> sizeof_ulong h"
  shows "rsp_port_number h (dec_digits n) = Returns m \<Longrightarrow> to_int m = int n"
    and "other_port_number h (dec_digits n) dflt = Returns m \<Longrightarrow> to_int m = int n"
  using strtol10_dec [OF assms] to_int_small [OF assms(1)]
  by (auto simp: rsp_port_number_def other_port_number_def)

lemma run_selftest_opts: "run_selftest h hw cb s = Returns t \<Longrightarrow> bridge_opts.truncate t = bridge_opts.truncate s"
  by (auto simp: run_selftest_def and_then_Returns bridge_opts.truncate_def split: if_splits)

text \<open>
  C2: When the program comes to the point where it starts its servers, whatever the command line, the
  files and the cable: the cable is one of the drivers and is named on the command line; the chain
  has been configured with settings that fit it; if the option \<open>-t\<close> is given, the self test has
  succeeded on that chain; and each server gets the last port number given for it, or its default.
\<close>

theorem bridge_starts:
  assumes main: "bridge_main h hw fs b drivers cl s = Returns (cb, ports, s')"
    and init: "hwp_port s = None" "\<not> do_selftest s" "4 \<le> sizeof_ulong h"
  shows "cb \<in> set (cable_setup b drivers) \<and> cable_name cb \<in> set (arguments cl) \<and>
    (\<exists>c. fits_chain (length (device_ids s')) (unat (target_dev_pos s')) (conf c) \<and>
      (hw = DBG_HW_LEGACY \<longrightarrow> length (device_ids s') = 1) \<and>
      (if CHR ''t'' \<in> fst ` set (main_options cl)
       then \<exists>d. dbg_test (api_port h hw cb) \<lparr>dbg_chain = c, dbg_access_mutex = Free\<rparr> = Returns (APP_ERR_NONE, d) \<and>
         jtag s' = dbg_chain d
       else jtag s' = c)) \<and>
    (\<forall>n < 2 ^ 31.
      (last_arg CHR ''g'' (main_options cl) (Some default_port) = Some (dec_digits n) \<longrightarrow> rsp_portNum ports = int n) \<and>
      (last_arg CHR ''j'' (main_options cl) (Some default_jspport) = Some (dec_digits n) \<longrightarrow> jsp_portNum ports = int n) \<and>
      (last_arg CHR ''w'' (main_options cl) (Some default_hwpport) = Some (dec_digits n) \<longrightarrow> hwp_portNum ports = int n))"
proof -
  obtain s1 s2 t r j w where steps: "parse_args h (cable_setup b drivers) cl (s\<lparr>bsdl_files := bsdl_init (bsdl_files s)\<rparr>) = Returns (cb, s1)"
      "configure_chain h hw fs cb (on_jtag (\<lambda>ch. ch\<lparr>cable := t\<rparr>) s1) = Returns s2" "run_selftest h hw cb s2 = Returns s'"
      "rsp_port_number h (text_of (rsp_port s')) = Returns r"
      "other_port_number h (text_of (jsp_port s')) default_jspport = Returns j"
      "other_port_number h (text_of (hwp_port s')) default_hwpport = Returns w"
      "ports = \<lparr>rsp_portNum = to_int r, jsp_portNum = to_int j, hwp_portNum = to_int w\<rparr>"
    by (rule bridge_main_steps [OF main])
  note args = parse_args_frame [OF steps(1)]
  have "force_alt_vjtag (on_jtag (\<lambda>ch. ch\<lparr>cable := t\<rparr>) s1) \<in> {-1, 0, 1}" using args(3) by (simp add: on_jtag_def)
  note fits = configure_chain_fits [OF steps(2) this]
  have "bridge_opts.truncate s' = bridge_opts.truncate s2" by (rule run_selftest_opts [OF steps(3)])
  with fits have opts: "rsp_port s' = rsp_port s1" "jsp_port s' = jsp_port s1" "hwp_port s' = hwp_port s1"
      "target_dev_pos s' = target_dev_pos s1" "do_selftest s2 = do_selftest s1"
    by (simp_all add: bridge_opts.truncate_def on_jtag_def)
  have test: "device_ids s' = device_ids s2" "if do_selftest s2
      then \<exists>d. dbg_test (api_port h hw cb) \<lparr>dbg_chain = jtag s2, dbg_access_mutex = Free\<rparr> = Returns (APP_ERR_NONE, d) \<and>
        jtag s' = dbg_chain d
      else jtag s' = jtag s2"
    using steps(3) by (auto simp: run_selftest_def and_then_Returns split: if_splits)
  have t: "do_selftest s2 \<longleftrightarrow> CHR ''t'' \<in> fst ` set (main_options cl)" using args(4) opts(5) init(2) by simp
  have "\<exists>c. fits_chain (length (device_ids s')) (unat (target_dev_pos s')) (conf c) \<and>
      (hw = DBG_HW_LEGACY \<longrightarrow> length (device_ids s') = 1) \<and>
      (if CHR ''t'' \<in> fst ` set (main_options cl)
       then \<exists>d. dbg_test (api_port h hw cb) \<lparr>dbg_chain = c, dbg_access_mutex = Free\<rparr> = Returns (APP_ERR_NONE, d) \<and>
         jtag s' = dbg_chain d
       else jtag s' = c)"
    using fits test by (intro exI [of _ "jtag s2"]) (simp add: t opts on_jtag_def)
  moreover have "rsp_portNum ports = int n"
    if "n < 2 ^ 31" "last_arg CHR ''g'' (main_options cl) (Some default_port) = Some (dec_digits n)" for n
    using steps(4) port_numbers_dec(1) [OF that(1) init(3)] by (simp add: opts args(5) that(2) text_of_def steps(7))
  moreover have "jsp_portNum ports = int n"
    if "n < 2 ^ 31" "last_arg CHR ''j'' (main_options cl) (Some default_jspport) = Some (dec_digits n)" for n
    using steps(5) port_numbers_dec(2) [OF that(1) init(3)] by (simp add: opts args(6) that(2) text_of_def steps(7))
  moreover have "hwp_portNum ports = int n"
    if "n < 2 ^ 31" "last_arg CHR ''w'' (main_options cl) (Some default_hwpport) = Some (dec_digits n)" for n
    using steps(6) port_numbers_dec(2) [OF that(1) init(3)] args(7) init(1)
    by (simp add: opts that(2) text_of_def steps(7))
  ultimately show ?thesis using args(1,2) by blast
qed

text \<open>A run of the program on the board with two chips, with the length of the second one given on the command
  line.\<close>

definition example_line :: command_line where
  "example_line = \<lparr>main_options = [(CHR ''l'', ''1:5''), (CHR ''j'', ''8000'')], arguments = [''xess''], cable_getopt = \<lambda>_. []\<rparr>"

definition example_build :: cable_build where
  "example_build = \<lparr>support_parallel_cables = True, support_usb_cables = False, support_ftdi_cables = False\<rparr>"

lemma example_args:
  "parse_args x86_64 (cable_setup example_build (\<lambda>_. chip_cable)) example_line (chip_bridge\<lparr>ir_sets := []\<rparr>) =
     Returns (chip_cable, chip_bridge\<lparr>rsp_port := Some default_port, jsp_port := Some (asc ''8000''),
       hwp_port := Some default_hwpport\<rparr>)"
proof -
  have "asc ''1:5'' = dec_digits 1 @ asc '':'' @ dec_digits 5" by (simp add: dec_digits.simps asc_def)
  moreover have "4 \<le> sizeof_ulong x86_64" by (simp add: x86_64_def x86_32_def)
  ultimately have ir: "get_ir_opts x86_64 (asc ''1:5'') = Returns (1, 5)"
    using ir_opts_roundtrip [of 1 5 x86_64] by simp
  have name: "cable_name chip_cable = ''xess''" "cable_opts chip_cable = ''d:''"
    by (simp_all add: chip_cable_def xess_cable_driver_def bitbang_cable_def Let_def)
  have cable: "find_cable (cable_setup example_build (\<lambda>_. chip_cable)) (arguments example_line) = Some chip_cable"
    by (simp add: cable_setup_def name example_line_def example_build_def Let_def)
  let ?s = "chip_bridge\<lparr>ir_sets := [], rsp_port := None, jsp_port := None, force_alt_vjtag := 0, cmd_line_cmd_debug := -1\<rparr>"
  have opts: "parse_options x86_64 (main_options example_line) ?s = Returns (chip_bridge\<lparr>jsp_port := Some (asc ''8000'')\<rparr>)"
    by (simp add: example_line_def parse_option_def add_ir_set_def ir chip_bridge_def const_simps Let_def)
  have ports: "default_ports (chip_bridge\<lparr>jsp_port := Some (asc ''8000'')\<rparr>) = chip_bridge\<lparr>rsp_port := Some default_port,
      jsp_port := Some (asc ''8000''), hwp_port := Some default_hwpport\<rparr>"
    by (simp add: default_ports_def chip_bridge_def)
  have none: "cable_getopt example_line args = []" for args by (simp add: example_line_def)
  show ?thesis
    unfolding parse_args_def Let_def opts and_then.simps ports cable option.case cable_get_args_def option.map none
    by simp
qed

lemma example_configured:
  "\<exists>s'. configure_chain x86_64 DBG_HW_ADVANCED chip_fs chip_cable (chip_bridge\<lparr>rsp_port := a, jsp_port := b, hwp_port := w\<rparr>) =
     Returns s'"
proof -
  obtain lib where k: "knows x86_64 chip_fs lib chip_bridge"
      "known_lengths lib (\<lambda>i. if i = 0 then 4 else 5) (chip_bridge\<lparr>device_ids := map chip_code [Idcode 0x14951185, Bypass]\<rparr>)"
      "cmd_known lib (cmd_line_cmd_debug chip_bridge) (chip_code ([Idcode 0x14951185, Bypass] ! 0)) 8"
    by (rule chip_bridge_knows)
  let ?s = "chip_bridge\<lparr>rsp_port := a, jsp_port := b, hwp_port := w\<rparr>"
  have 1: "knows x86_64 chip_fs lib ?s" using k(1) by (simp add: knows_def)
  have 2: "known_lengths lib (\<lambda>i. if i = 0 then 4 else 5) (?s\<lparr>device_ids := map chip_code [Idcode 0x14951185, Bypass]\<rparr>)"
    using k(2) by (simp add: known_lengths_def)
  have 3: "cmd_known lib (cmd_line_cmd_debug ?s) (chip_code ([Idcode 0x14951185, Bypass] ! 0)) 8" using k(3) by simp
  have "manuf_id 0x14951185 = 0xC2" by (simp add: manuf_id_def)
  then show ?thesis
    using chip_chain.configure_known [OF chip_board_chain _ _ _ _ 1 2 _ _ _ _ _ 3, of "[4, 5]" DBG_HW_ADVANCED]
    by (auto simp: chip_bridge_def init_chain_def bits_word_def upt_rec const_simps scan_dev.truncate_def)
qed

theorem bridge_starts_witness:
  "\<exists>ports s'. bridge_main x86_64 DBG_HW_ADVANCED chip_fs example_build (\<lambda>_. chip_cable) example_line
      (chip_bridge\<lparr>ir_sets := []\<rparr>) = Returns (chip_cable, ports, s') \<and> rsp_portNum ports = 9999 \<and> jsp_portNum ports = 8000"
proof -
  let ?s = "chip_bridge\<lparr>rsp_port := Some default_port, jsp_port := Some (asc ''8000''), hwp_port := Some default_hwpport\<rparr>"
  have digits: "default_port = dec_digits 9999" "asc ''8000'' = dec_digits 8000" "default_hwpport = dec_digits 9928"
    "default_jspport = dec_digits 9944"
    by (simp_all add: dec_digits.simps default_port_def default_hwpport_def default_jspport_def asc_def)
  have long: "4 \<le> sizeof_ulong x86_64" by (simp add: x86_64_def x86_32_def)
  obtain s2 where s2: "configure_chain x86_64 DBG_HW_ADVANCED chip_fs chip_cable ?s = Returns s2"
    using example_configured by blast
  have "force_alt_vjtag ?s \<in> {-1, 0, 1}" by (simp add: chip_bridge_def)
  from configure_chain_fits [OF s2 this] have opts: "rsp_port s2 = rsp_port ?s" "jsp_port s2 = jsp_port ?s"
      "hwp_port s2 = hwp_port ?s" "do_selftest s2 = do_selftest ?s"
    by (simp_all add: bridge_opts.truncate_def)
  have init: "bsdl_init (bsdl_files (chip_bridge\<lparr>ir_sets := []\<rparr>)) = bsdl_files (chip_bridge\<lparr>ir_sets := []\<rparr>)"
    by (simp add: chip_bridge_def example_bsdl_def bsdl_init_def fun_upd_twist)
  have cable: "cable_init chip_cable c = (APP_ERR_NONE, c)" for c
    by (simp add: cable_init_def chip_cable_def xess_cable_driver_def bitbang_cable_def Let_def)
  have same: "on_jtag (\<lambda>ch. ch\<lparr>cable := cable (jtag ?s)\<rparr>) ?s = ?s" by (simp add: on_jtag_def)
  have ports: "rsp_port_number x86_64 (text_of (rsp_port s2)) = Returns 9999"
      "other_port_number x86_64 (text_of (jsp_port s2)) default_jspport = Returns 8000"
      "other_port_number x86_64 (text_of (hwp_port s2)) default_hwpport = Returns 9928"
    using strtol10_dec [of 9999, OF _ long] strtol10_dec [of 8000, OF _ long] strtol10_dec [of 9928, OF _ long]
    by (simp_all add: opts text_of_def digits rsp_port_number_def other_port_number_def)
  have start: "(chip_bridge\<lparr>ir_sets := []\<rparr>)\<lparr>bsdl_files := bsdl_files (chip_bridge\<lparr>ir_sets := []\<rparr>)\<rparr> = chip_bridge\<lparr>ir_sets := []\<rparr>"
    by simp
  have "\<not> do_selftest s2" by (simp add: opts chip_bridge_def)
  then have main: "\<exists>ports. bridge_main x86_64 DBG_HW_ADVANCED chip_fs example_build (\<lambda>_. chip_cable) example_line
      (chip_bridge\<lparr>ir_sets := []\<rparr>) = Returns (chip_cable, ports, s2)"
    using ports malloc_x86
    unfolding bridge_main_def Let_def init start example_args
    by (simp only: and_then.simps prod.case cable same s2 run_selftest_def simp_thms if_False if_True) simp
  then obtain ports where main: "bridge_main x86_64 DBG_HW_ADVANCED chip_fs example_build (\<lambda>_. chip_cable) example_line
      (chip_bridge\<lparr>ir_sets := []\<rparr>) = Returns (chip_cable, ports, s2)" by blast
  have "hwp_port (chip_bridge\<lparr>ir_sets := []\<rparr>) = None" "\<not> do_selftest (chip_bridge\<lparr>ir_sets := []\<rparr>)"
    by (simp_all add: chip_bridge_def)
  note started = bridge_starts [OF main this long, THEN conjunct2, THEN conjunct2, THEN conjunct2]
  have "rsp_portNum ports = int 9999 \<and> jsp_portNum ports = int 8000"
    using started [THEN spec [of _ 9999]] started [THEN spec [of _ 8000]] by (simp add: example_line_def digits)
  with main show ?thesis by auto
qed

end
