(* ===== verification/Blaster_Stream.thy ===== *)
theory Blaster_Stream
  imports Cable_Parallel C_Scan
begin

text \<open>
  What the fast drivers for the Altera USB Blaster (\<^verbatim>\<open>cable_usbblaster.c\<close> and \<^verbatim>\<open>cable_ft245.c\<close>)
  have in common. Their stream functions are the same text but for a few calls, which are the
  entries of the record \<open>burst_driver\<close>: whole bytes go to the adapter in packets of 64 bytes, the bits
  behind them one by one.

  The locale \<open>fast_driver\<close> says what these calls have to do. Inside it the streams are shown to
  clock the device as the bit-bang functions of the cable layer do, and a read of up to 62 bytes to
  return the bits of TDO; of a longer one, sixteen bits are always 0.
\<close>

section \<open>What the two fast drivers share\<close>

definition USBBLASTER_MAX_WRITE :: nat where [const_simps]: "USBBLASTER_MAX_WRITE = 63"
definition USBBLASTER_MAX_READ :: nat where [const_simps]: "USBBLASTER_MAX_READ = 62"

text \<open>\<open>sscanf\<close> with \<open>%x\<close> into a variable that has no value yet. At the end of the text it
  returns \<open>EOF\<close>, which the drivers take for success.\<close>

definition scan_id :: "host \<Rightarrow> string \<Rightarrow> u32 option" where
  "scan_id h str =
     (if dropWhile is_space (asc str) = [] then Some (rd (bytes_to_words (map (stray h) [0..<4])) 0)
      else map_option (\<lambda>(n, _). ucast n) (scan_hex None (asc str)))"

text \<open>Whole bytes to shift, and bits to send one by one.\<close>

definition stream_split :: "int \<Rightarrow> bool \<Rightarrow> u32 \<times> u32" where
  "stream_split len_bits set_last_bit =
     (let bytes_to_transfer = word_of_int (c_div len_bits 8);
          leftover_bit_length = word_of_int len_bits - bytes_to_transfer * 8
      in if leftover_bit_length = 0 \<and> set_last_bit then (bytes_to_transfer - 1, leftover_bit_length + 8)
         else (bytes_to_transfer, leftover_bit_length))"

definition leftover :: "u32 list \<Rightarrow> u32 \<Rightarrow> u32" where
  "leftover stream bytes_to_transfer =
     drop_bit (8 * (unat bytes_to_transfer mod 4)) (rd stream (unat bytes_to_transfer div 4)) AND 0xFF"

text \<open>The loops are the same in both drivers; \<open>send\<close> passes a packet on and tells whether all of
  it was taken. The data are the bytes of the words of the stream on a little-endian host.\<close>

function write_chunks :: "(u8 list \<Rightarrow> 'c \<Rightarrow> bool \<times> 'c) \<Rightarrow> nat \<Rightarrow> u8 list \<Rightarrow> 'c act" where
  "write_chunks send bytes_remaining xfer_ptr c =
     (if bytes_remaining = 0 then (APP_ERR_NONE, c)
      else let bytes_this_xfer = min bytes_remaining USBBLASTER_MAX_WRITE;
               packet = (0x80 OR (of_nat bytes_this_xfer AND 0x3F)) # take bytes_this_xfer xfer_ptr;
               (ok, c) = send packet c
           in if \<not> ok then (APP_ERR_USB, c)
              else write_chunks send (bytes_remaining - bytes_this_xfer) (drop bytes_this_xfer xfer_ptr) c)"
  by pat_completeness auto
termination
  by (relation "measure (\<lambda>(_, n, _, _). n)") (auto simp: USBBLASTER_MAX_WRITE_def)

declare write_chunks.simps [simp del]

text \<open>\<open>i\<close> counts the bytes of one read, but \<open>total_bytes_received\<close> those of all.\<close>

definition or_bytes :: "u32 \<Rightarrow> u8 list \<Rightarrow> u32 list \<Rightarrow> u32 list" where
  "or_bytes total_bytes_received bs instream =
     fold (\<lambda>(i, b) ws. let k = unat (total_bytes_received + of_nat i) div 4
                       in ws[k := rd ws k OR push_bit (8 * (i mod 4)) (ucast b)])
       (enumerate 0 bs) instream"

text \<open>\<open>fetch n\<close> asks for \<open>n\<close> bytes of data; it gives the data and their number, or None for an
  error of the library. The result None of the loop means that it goes on for ever, the inner None
  that it met an error.\<close>

type_synonym 'c fetch = "u32 \<Rightarrow> 'c \<Rightarrow> (u8 list \<times> int) option \<times> 'c"

partial_function (option) receive :: "'c fetch \<Rightarrow> nat \<Rightarrow> u32 \<Rightarrow> nat \<Rightarrow> u32 \<Rightarrow> u32 list \<Rightarrow> 'c
    \<Rightarrow> ((u32 list \<times> u32) option \<times> 'c) option" where
  "receive fetch bytes_this_xfer bytes_received retries got instream c =
     (case fetch (of_nat bytes_this_xfer - bytes_received) c of
        (None, c) \<Rightarrow> Some (None, c)
      | (Some (bs, n), c) \<Rightarrow>
          let retries = (if n > 0 then 0 else retries + 1);
              instream = or_bytes got bs instream;
              bytes_received = bytes_received + word_of_int n;
              got = got + word_of_int n
          in if bytes_received < of_nat bytes_this_xfer \<and> retries < 15
             then receive fetch bytes_this_xfer bytes_received retries got instream c
             else Some (Some (instream, got), c))"

partial_function (option) read_chunks :: "(u8 list \<Rightarrow> 'c \<Rightarrow> bool \<times> 'c) \<Rightarrow> 'c fetch \<Rightarrow> nat \<Rightarrow> u8 list
    \<Rightarrow> u32 \<Rightarrow> u32 list \<Rightarrow> 'c \<Rightarrow> (u32 list option \<times> 'c) option" where
  "read_chunks send fetch bytes_remaining xfer_ptr got instream c =
     (if bytes_remaining = 0 then Some (Some instream, c)
      else let bytes_this_xfer = min bytes_remaining USBBLASTER_MAX_READ;
               packet = (0xC0 OR (of_nat bytes_this_xfer AND 0x3F)) # take bytes_this_xfer xfer_ptr;
               (ok, c) = send packet c
           in if \<not> ok then Some (None, c)
              else case receive fetch bytes_this_xfer 0 0 got instream c of
                     None \<Rightarrow> None
                   | Some (None, c) \<Rightarrow> Some (None, c)
                   | Some (Some (instream, got), c) \<Rightarrow>
                       read_chunks send fetch (bytes_remaining - bytes_this_xfer) (drop bytes_this_xfer xfer_ptr)
                         got instream c)"

text \<open>Clearing \<open>instream\<close> counts with an \<open>unsigned char\<close>, which never reaches 256.\<close>

definition clear_instream :: "int \<Rightarrow> u32 list option" where
  "clear_instream len_bits =
     (if c_div len_bits 32 < 256 then Some (replicate (nat (c_div (len_bits + 31) 32)) 0) else None)"

text \<open>The bits behind the last whole byte, which are read one by one.\<close>

definition put_leftover :: "u32 \<Rightarrow> u32 list \<Rightarrow> u32 list \<Rightarrow> u32 list" where
  "put_leftover bytes_to_transfer leftovers_received instream =
     (let k = unat bytes_to_transfer div 4
      in instream[k := rd instream k OR
           push_bit (8 * (unat bytes_to_transfer mod 4)) (rd leftovers_received 0 AND 0xFF)])"

section \<open>The stream functions\<close>

text \<open>The calls in which the two drivers differ. \<open>bit_driver\<close> has the entries that the common
  functions use.\<close>

record 'c burst_driver =
  bit_driver :: "'c jtag_cable"
  clock_down :: "'c act"
  reopen :: "'c act"
  send_packet :: "u8 list \<Rightarrow> 'c \<Rightarrow> bool \<times> 'c"
  fetch_bytes :: "'c fetch"
  burst_done :: "'c \<Rightarrow> 'c"
  read_failed :: "'c \<Rightarrow> 'c"

text \<open>The result of the leftover bits replaces the errors so far.\<close>

definition burst_write_stream :: "host \<Rightarrow> 'c burst_driver \<Rightarrow> u32 list \<Rightarrow> int \<Rightarrow> bool \<Rightarrow> 'c act" where
  "burst_write_stream h F stream len_bits set_last_bit c =
     (let (bytes_to_transfer, leftover_bit_length) = stream_split len_bits set_last_bit
      in if bytes_to_transfer = 0
         then cable_common_write_stream h (bit_driver F) stream len_bits set_last_bit c
         else let (err, c) = clock_down F c;
                  leftover_bits = leftover stream bytes_to_transfer;
                  (rv, c) = reopen F c
              in if rv \<noteq> APP_ERR_NONE then (rv, c)
                 else let (e, c) = write_chunks (send_packet F) (nat (sint bytes_to_transfer))
                                     (words_to_bytes stream) c;
                          err = err OR e;
                          c = burst_done F c
                      in if leftover_bit_length \<noteq> 0
                         then cable_common_write_stream h (bit_driver F) [leftover_bits]
                                (uint leftover_bit_length) set_last_bit c
                         else (err, c))"

text \<open>None: the call does not come back. The words of an array that an error leaves unfinished are
  of no use to the caller and are not modelled.\<close>

definition burst_read_stream :: "host \<Rightarrow> 'c burst_driver \<Rightarrow> u32 list \<Rightarrow> int \<Rightarrow> bool \<Rightarrow> 'c
    \<Rightarrow> ((u32 \<times> u32 list) \<times> 'c) option" where
  "burst_read_stream h F outstream len_bits set_last_bit c =
     (let (bytes_to_transfer, leftover_bit_length) = stream_split len_bits set_last_bit
      in if bytes_to_transfer = 0
         then Some (cable_common_read_stream h (bit_driver F) outstream len_bits set_last_bit c)
         else let (retval, c) = clock_down F c
              in do {
                   instream \<leftarrow> clear_instream len_bits;
                   let leftover_bits = leftover outstream bytes_to_transfer;
                   let (rv, c) = reopen F c;
                   if rv \<noteq> APP_ERR_NONE then Some ((rv, instream), c)
                   else do {
                     (r, c) \<leftarrow> read_chunks (send_packet F) (fetch_bytes F)
                       (nat (sint bytes_to_transfer)) (words_to_bytes outstream) 0 instream c;
                     (case r of
                        None \<Rightarrow> Some ((APP_ERR_USB, instream), read_failed F c)
                      | Some instream \<Rightarrow>
                          let c = burst_done F c
                          in if leftover_bit_length \<noteq> 0
                             then let ((e, left), c) = cable_common_read_stream h (bit_driver F)
                                        [leftover_bits] (uint leftover_bit_length) set_last_bit c
                                  in Some ((retval OR e, put_leftover bytes_to_transfer left instream), c)
                             else Some ((retval, instream), c))
                   }
                 })"

section \<open>The protocol of the adapter\<close>

text \<open>The clock cycles of the bytes that are shifted out, and the bits of TDO as bytes.\<close>

definition shift_pins :: "bool \<Rightarrow> u8 list \<Rightarrow> pin list" where
  "shift_pins tms bs = map (\<lambda>t. Pin tms t False) (bytes_bits bs)"

definition bits_bytes :: "bool list \<Rightarrow> u8 list" where
  "bits_bytes ts = map (\<lambda>i. horner_sum of_bool 2 (take 8 (drop (8 * i) ts))) [0..<length ts div 8]"

section \<open>Streams in bytes\<close>

lemma nth_stream_bytes:
  assumes "k < 32 * length ws"
  shows "bytes_bits (words_to_bytes ws) ! k = stream_bit ws k"
proof -
  have d: "k div 8 div 4 = k div 32" by (simp add: div_mult2_eq [of k 8 4, symmetric])
  have m: "8 * (k div 8 mod 4) + k mod 8 = k mod 32" using mod_mult2_eq [of k 8 4] by simp
  have "k div 8 < 4 * length ws" using assms by linarith
  then have "bytes_bits (words_to_bytes ws) ! k =
      bit (ucast (drop_bit (8 * (k div 8 mod 4)) (ws ! (k div 32))) :: u8) (k mod 8)"
    using assms by (simp add: nth_bytes_bits nth_words_to_bytes d)
  also have "\<dots> = bit (ws ! (k div 32)) (8 * (k div 8 mod 4) + k mod 8)"
    by (simp add: bit_unsigned_iff bit_drop_bit_eq)
  finally show ?thesis
    using assms by (simp add: m stream_bit_def rd_def less_mult_imp_div_less mult.commute)
qed

lemma bytes_bits_take_drop:
  "bytes_bits (take m bs) = take (8 * m) (bytes_bits bs)" "bytes_bits (drop m bs) = drop (8 * m) (bytes_bits bs)"
proof -
  let ?a = "bytes_bits (take m bs)" and ?b = "bytes_bits (drop m bs)"
  have "take (8 * m) (?a @ ?b) = ?a \<and> drop (8 * m) (?a @ ?b) = ?b"
  proof (cases "m \<le> length bs")
    case True
    then have "length ?a = 8 * m" by simp
    then show ?thesis by (simp add: append_eq_conv_conj)
  next
    case False
    then have "?b = []" by (simp add: bytes_bits_def)
    with False show ?thesis by simp
  qed
  moreover have "?a @ ?b = bytes_bits bs" by (metis append_take_drop_id bytes_bits_append)
  ultimately show "?a = take (8 * m) (bytes_bits bs)" "?b = drop (8 * m) (bytes_bits bs)"
    by (simp_all only:)
qed

text \<open>The pins of a stretch of a stream without TMS.\<close>

definition data_pins :: "u32 list \<Rightarrow> nat \<Rightarrow> nat \<Rightarrow> pin list" where
  "data_pins ws i j = map (\<lambda>k. Pin False (stream_bit ws k) False) [i..<j]"

lemma length_data_pins [simp]: "length (data_pins ws i j) = j - i"
  by (simp add: data_pins_def)

lemma shift_pins_simps [simp]: "shift_pins tms [] = []"
    "shift_pins tms (as @ bs) = shift_pins tms as @ shift_pins tms bs" "length (shift_pins tms bs) = 8 * length bs"
proof -
  show "shift_pins tms [] = []" by (simp add: shift_pins_def bytes_bits_def)
qed (simp_all add: shift_pins_def)

lemma shift_pins_stream:
  assumes "m \<le> 4 * length ws"
  shows "shift_pins False (take m (words_to_bytes ws)) = data_pins ws 0 (8 * m)"
  by (rule nth_equalityI)
    (use assms in \<open>auto simp: shift_pins_def data_pins_def bytes_bits_take_drop nth_stream_bytes\<close>)

lemma stream_split_nat:
  assumes "0 < n" "n < 2 ^ 31"
  obtains B r where "stream_split (int n) l = (of_nat B, of_nat r)" "n = 8 * B + r" "r \<le> 8" "l \<Longrightarrow> 0 < r"
    and "B < 2 ^ 28"
proof -
  have w: "word_of_int (c_div (int n) 8) = (of_nat (n div 8) :: u32)"
    by (simp add: c_div_nonneg zdiv_int [symmetric, of n 8, simplified])
  have r: "of_nat n - of_nat (n div 8) * 8 = (of_nat (n mod 8) :: u32)"
  proof -
    have "(of_nat n :: u32) = of_nat (n div 8 * 8 + n mod 8)" by simp
    also have "\<dots> = of_nat (n div 8) * 8 + of_nat (n mod 8)" by (simp only: of_nat_add of_nat_mult of_nat_numeral)
    finally show ?thesis by simp
  qed
  have z: "(of_nat (n mod 8) :: u32) = 0 \<longleftrightarrow> n mod 8 = 0"
  proof -
    have "unat (of_nat (n mod 8) :: u32) = n mod 8"
      by (simp add: unsigned_of_nat take_bit_eq_mod)
    then show ?thesis by (cases "n mod 8 = 0") (simp, metis unsigned_0)
  qed
  have d: "n = 8 * (n div 8) + n mod 8" "n div 8 < 2 ^ 28" "n mod 8 < 8" using assms by auto
  show thesis
  proof (cases "n mod 8 = 0 \<and> l")
    case True
    with assms(1) d have "0 < n div 8" by auto
    then obtain B where B: "n div 8 = Suc B" by (cases "n div 8") auto
    have "stream_split (int n) l = (of_nat B, of_nat 8)"
      using True z r by (simp add: stream_split_def Let_def w B)
    then show thesis by (rule that) (use True d B in auto)
  next
    case False
    have "word_of_int (int n) - of_nat (n div 8) * 8 = (of_nat (n mod 8) :: u32)"
      using r by simp
    with False z have "stream_split (int n) l = (of_nat (n div 8), of_nat (n mod 8))"
      by (simp only: stream_split_def Let_def w) auto
    then show thesis by (rule that) (use False d in auto)
  qed
qed

lemma stream_bit_leftover:
  assumes "k < 8" "B < 2 ^ 28"
  shows "stream_bit [leftover ws (of_nat B)] k = stream_bit ws (8 * B + k)"
proof -
  have u: "unat (of_nat B :: u32) = B"
    using assms(2) by (simp add: unsigned_of_nat take_bit_nat_eq_self)
  have "(8 * B + k) div 32 = B div 4" "(8 * B + k) mod 32 = 8 * (B mod 4) + k"
    using assms(1) div_mult2_eq [of "8 * B + k" 8 4] mod_mult2_eq [of "8 * B + k" 8 4] by simp_all
  moreover have "bit (0xFF :: u32) k = (k < 8)"
    using bit_mask_iff [where 'a = u32, of 8 k] assms(1) by (simp add: mask_eq_exp_minus_1)
  ultimately show ?thesis
    using assms(1) by (simp add: stream_bit_def rd_def leftover_def u bit_and_iff bit_drop_bit_eq)
qed

lemma stream_pins_leftover:
  assumes "n = 8 * B + r" "r \<le> 8" "l \<Longrightarrow> 0 < r" "B < 2 ^ 28"
  shows "stream_pins ws n l = data_pins ws 0 (8 * B) @ stream_pins [leftover ws (of_nat B)] r l"
proof (rule nth_equalityI)
  fix k assume k: "k < length (stream_pins ws n l)"
  show "stream_pins ws n l ! k = (data_pins ws 0 (8 * B) @ stream_pins [leftover ws (of_nat B)] r l) ! k"
  proof (cases "k < 8 * B")
    case True
    then have "l \<Longrightarrow> Suc k \<noteq> n" using assms(1,3) by auto
    with True k assms(1) show ?thesis
      by (auto simp: data_pins_def nth_append stream_pins_def)
  next
    case False
    with k assms(1,2) stream_bit_leftover [OF _ assms(4), of "k - 8 * B" ws] show ?thesis
      by (auto simp: data_pins_def nth_append stream_pins_def)
  qed
qed (simp add: assms(1) data_pins_def)

text \<open>Bytes of the bits of TDO.\<close>

lemma length_bits_bytes [simp]: "length (bits_bytes ts) = length ts div 8"
  by (simp add: bits_bytes_def)

lemma bit_bits_bytes:
  assumes "i < length ts div 8" "k < 8"
  shows "bit (bits_bytes ts ! i) k = ts ! (8 * i + k)"
proof -
  have "8 * i + k < length ts" using assms by linarith
  with assms show ?thesis
    by (auto simp: bits_bytes_def bit_horner_sum_bit_word_iff)
qed

lemma bits_bytes_append:
  assumes "length ts = 8 * m"
  shows "bits_bytes (ts @ us) = bits_bytes ts @ bits_bytes us"
proof (rule nth_equalityI)
  show "length (bits_bytes (ts @ us)) = length (bits_bytes ts @ bits_bytes us)" by (simp add: assms)
  fix i assume "i < length (bits_bytes (ts @ us))"
  then have i: "i < m + length us div 8" by (simp add: assms)
  show "bits_bytes (ts @ us) ! i = (bits_bytes ts @ bits_bytes us) ! i"
  proof (cases "i < m")
    case True
    then have "take 8 (drop (8 * i) (ts @ us)) = take 8 (drop (8 * i) ts)" by (simp add: assms)
    with True i assms show ?thesis by (simp add: bits_bytes_def nth_append)
  next
    case False
    then have "8 * i - 8 * m = 8 * (i - m)" by simp
    moreover have "[0..<length us div 8] ! (i - m) = i - m" using False i by simp
    ultimately show ?thesis using False i assms by (simp add: bits_bytes_def nth_append)
  qed
qed

section \<open>The loops over packets\<close>

text \<open>What the loops need of \<open>send\<close> and \<open>fetch\<close>.\<close>

locale byte_shifter =
  fixes send :: "u8 list \<Rightarrow> 'c \<Rightarrow> bool \<times> 'c"
    and fetch :: "'c fetch"
    and shifting :: "'c \<Rightarrow> bool"
    and dev :: "'c \<Rightarrow> 'd"
    and dstep :: "pin \<Rightarrow> 'd \<Rightarrow> 'd"
    and dtdo :: "'d \<Rightarrow> bool"
  assumes send_write: "shifting c \<Longrightarrow> length bs \<le> USBBLASTER_MAX_WRITE \<Longrightarrow>
       \<exists>c'. send ((0x80 OR (of_nat (length bs) AND 0x3F)) # bs) c = (True, c') \<and> shifting c' \<and>
         dev c' = fold dstep (shift_pins False bs) (dev c)"
    and send_read: "shifting c \<Longrightarrow> 0 < length bs \<Longrightarrow> length bs \<le> USBBLASTER_MAX_READ \<Longrightarrow>
       \<exists>c1 c'. send ((0xC0 OR (of_nat (length bs) AND 0x3F)) # bs) c = (True, c1) \<and>
         receive fetch (length bs) 0 0 got ins c1 = Some (Some (or_bytes got (bits_bytes
           (tdo_run dstep dtdo (shift_pins False bs) (dev c))) ins, got + of_nat (length bs)), c') \<and>
         shifting c' \<and> dev c' = fold dstep (shift_pins False bs) (dev c)"

text \<open>What the read loop makes of the bytes of TDO.\<close>

function or_chunks :: "u32 \<Rightarrow> u8 list \<Rightarrow> u32 list \<Rightarrow> u32 list" where
  "or_chunks got bs ins =
     (if bs = [] then ins
      else or_chunks (got + of_nat (min (length bs) USBBLASTER_MAX_READ)) (drop USBBLASTER_MAX_READ bs)
             (or_bytes got (take USBBLASTER_MAX_READ bs) ins))"
  by pat_completeness auto
termination
  by (relation "measure (\<lambda>(_, bs, _). length bs)") (auto simp: USBBLASTER_MAX_READ_def)

declare or_chunks.simps [simp del]

lemma or_chunks_Nil [simp]: "or_chunks got [] ins = ins"
  by (simp add: or_chunks.simps)

lemma or_chunks_first:
  assumes "as \<noteq> []" "length as = min (length (as @ bs)) USBBLASTER_MAX_READ"
  shows "or_chunks got (as @ bs) ins = or_chunks (got + of_nat (length as)) bs (or_bytes got as ins)"
proof (cases "bs = []")
  case True
  with assms(2) have "length as \<le> USBBLASTER_MAX_READ" by simp
  with True assms(1) show ?thesis by (subst or_chunks.simps) (simp add: min_absorb1)
next
  case False
  with assms(2) have "length as = USBBLASTER_MAX_READ" by (cases bs) (auto simp: min_def split: if_splits)
  with assms(1) show ?thesis by (subst or_chunks.simps) (simp add: min_absorb2)
qed

context byte_shifter
begin

lemma write_chunks_run:
  "shifting c \<Longrightarrow> n \<le> length data \<Longrightarrow> \<exists>c'. write_chunks send n data c = (APP_ERR_NONE, c') \<and> shifting c' \<and>
     dev c' = fold dstep (shift_pins False (take n data)) (dev c)"
proof (induction n arbitrary: data c rule: less_induct)
  case (less n)
  show ?case
  proof (cases "n = 0")
    case True
    with less.prems show ?thesis by (simp add: write_chunks.simps)
  next
    case False
    let ?m = "min n USBBLASTER_MAX_WRITE"
    have l: "length (take ?m data) = ?m" using less.prems(2) by simp
    obtain c1 where c1: "send ((0x80 OR (of_nat ?m AND 0x3F)) # take ?m data) c = (True, c1)" "shifting c1"
        "dev c1 = fold dstep (shift_pins False (take ?m data)) (dev c)"
      using send_write [OF less.prems(1), of "take ?m data"] unfolding l by auto
    have "n - ?m < n" using False by (simp add: USBBLASTER_MAX_WRITE_def)
    moreover have "n - ?m \<le> length (drop ?m data)" using less.prems(2) by (simp add: diff_le_mono)
    ultimately obtain c' where
      c': "write_chunks send (n - ?m) (drop ?m data) c1 = (APP_ERR_NONE, c')" "shifting c'"
        "dev c' = fold dstep (shift_pins False (take (n - ?m) (drop ?m data))) (dev c1)"
      using less.IH [OF _ c1(2)] by blast
    have "take n data = take ?m data @ take (n - ?m) (drop ?m data)"
      by (metis le_add_diff_inverse min.cobounded1 take_add)
    with c1 c' False show ?thesis
      by (subst write_chunks.simps) (simp add: Let_def)
  qed
qed

lemma read_chunks_run:
  "shifting c \<Longrightarrow> n \<le> length data \<Longrightarrow> \<exists>c'. read_chunks send fetch n data got ins c =
     Some (Some (or_chunks got (bits_bytes (tdo_run dstep dtdo (shift_pins False (take n data)) (dev c))) ins), c') \<and>
     shifting c' \<and> dev c' = fold dstep (shift_pins False (take n data)) (dev c)"
proof (induction n arbitrary: data c got ins rule: less_induct)
  case (less n)
  show ?case
  proof (cases "n = 0")
    case True
    with less.prems show ?thesis by (simp add: read_chunks.simps bits_bytes_def)
  next
    case False
    let ?m = "min n USBBLASTER_MAX_READ"
    let ?a = "take ?m data" and ?b = "take (n - ?m) (drop ?m data)"
    let ?as = "bits_bytes (tdo_run dstep dtdo (shift_pins False ?a) (dev c))"
    have l: "length ?a = ?m" "length ?b = n - ?m" using less.prems(2) by simp_all
    have m: "0 < ?m" using False by (simp add: USBBLASTER_MAX_READ_def)
    with send_read [OF less.prems(1), of ?a got ins] obtain c1 c2 where
      c2: "send ((0xC0 OR (of_nat ?m AND 0x3F)) # ?a) c = (True, c1)"
        "receive fetch ?m 0 0 got ins c1 = Some (Some (or_bytes got ?as ins, got + of_nat ?m), c2)"
        "shifting c2" "dev c2 = fold dstep (shift_pins False ?a) (dev c)"
      unfolding l(1) by auto
    have "n - ?m < n" using m by simp
    moreover have "n - ?m \<le> length (drop ?m data)" using less.prems(2) by (simp add: diff_le_mono)
    ultimately obtain c' where
      c': "read_chunks send fetch (n - ?m) (drop ?m data) (got + of_nat ?m) (or_bytes got ?as ins) c2 =
          Some (Some (or_chunks (got + of_nat ?m) (bits_bytes (tdo_run dstep dtdo (shift_pins False ?b) (dev c2)))
            (or_bytes got ?as ins)), c')" "shifting c'" "dev c' = fold dstep (shift_pins False ?b) (dev c2)"
      using less.IH [OF _ c2(3)] by blast
    have ab: "take n data = ?a @ ?b"
      by (metis le_add_diff_inverse min.cobounded1 take_add)
    have "bits_bytes (tdo_run dstep dtdo (shift_pins False (take n data)) (dev c)) =
        ?as @ bits_bytes (tdo_run dstep dtdo (shift_pins False ?b) (dev c2))"
      unfolding ab c2(4) shift_pins_simps tdo_run_append
      by (rule bits_bytes_append [where m = ?m]) (use less.prems(2) in \<open>simp add: min_def\<close>)
    moreover have "or_chunks got (?as @ bits_bytes (tdo_run dstep dtdo (shift_pins False ?b) (dev c2))) ins =
        or_chunks (got + of_nat ?m) (bits_bytes (tdo_run dstep dtdo (shift_pins False ?b) (dev c2))) (or_bytes got ?as ins)"
    proof -
      let ?bs = "bits_bytes (tdo_run dstep dtdo (shift_pins False ?b) (dev c2))"
      have as: "length ?as = ?m" and bs: "length ?bs = n - ?m"
        unfolding length_bits_bytes length_tdo_run shift_pins_simps l by simp_all
      have ne: "?as \<noteq> []"
      proof
        assume "?as = []"
        with as have "?m = 0" by (metis list.size(3))
        with m show False by simp
      qed
      have "length ?as = min (length (?as @ ?bs)) USBBLASTER_MAX_READ"
        unfolding length_append as bs by simp
      from or_chunks_first [OF ne this, of got ins] show ?thesis by (simp only: as)
    qed
    ultimately show ?thesis
      using c2 c' False by (subst read_chunks.simps) (simp add: Let_def ab)
  qed
qed

end

lemma header_bits:
  assumes "m \<le> 63"
  shows "unat ((0x80 OR (of_nat m AND 0x3F) :: u8) AND 0x3F) = m" "unat ((0xC0 OR (of_nat m AND 0x3F) :: u8) AND 0x3F) = m"
    and "bit (0x80 OR (of_nat m AND 0x3F) :: u8) 7" "\<not> bit (0x80 OR (of_nat m AND 0x3F) :: u8) 6"
    and "bit (0xC0 OR (of_nat m AND 0x3F) :: u8) 7" "bit (0xC0 OR (of_nat m AND 0x3F) :: u8) 6"
proof -
  have "list_all (\<lambda>m. unat ((0x80 OR (of_nat m AND 0x3F) :: u8) AND 0x3F) = m \<and> unat ((0xC0 OR (of_nat m AND 0x3F) :: u8) AND 0x3F) = m \<and>
      bit (0x80 OR (of_nat m AND 0x3F) :: u8) 7 \<and> \<not> bit (0x80 OR (of_nat m AND 0x3F) :: u8) 6 \<and>
      bit (0xC0 OR (of_nat m AND 0x3F) :: u8) 7 \<and> bit (0xC0 OR (of_nat m AND 0x3F) :: u8) 6) [0..<64]"
    by code_simp
  with assms show "unat ((0x80 OR (of_nat m AND 0x3F) :: u8) AND 0x3F) = m" "unat ((0xC0 OR (of_nat m AND 0x3F) :: u8) AND 0x3F) = m"
    "bit (0x80 OR (of_nat m AND 0x3F) :: u8) 7" "\<not> bit (0x80 OR (of_nat m AND 0x3F) :: u8) 6"
    "bit (0xC0 OR (of_nat m AND 0x3F) :: u8) 7" "bit (0xC0 OR (of_nat m AND 0x3F) :: u8) 6"
    by (auto simp: list_all_iff)
qed

section \<open>What a read gathers\<close>

lemma length_or_bytes [simp]: "length (or_bytes got bs ins) = length ins"
proof -
  have "length (fold (\<lambda>(i, b) ws. let k = unat (got + of_nat i) div 4 in ws[k := f k i b ws]) xs ins) = length ins" for f xs
    by (induction xs arbitrary: ins) (auto simp: Let_def)
  then show ?thesis by (simp add: or_bytes_def)
qed

lemma or_bytes_snoc:
  "or_bytes got (bs @ [b]) ins =
     (let k = unat (got + of_nat (length bs)) div 4; ws = or_bytes got bs ins
      in ws[k := rd ws k OR push_bit (8 * (length bs mod 4)) (ucast b)])"
proof -
  have "enumerate 0 (bs @ [b]) = enumerate 0 bs @ [(length bs, b)]"
    by (simp add: enumerate_append_eq [of 0 bs "[b]"])
  then show ?thesis by (simp add: or_bytes_def Let_def)
qed

lemma ex_nth_snoc:
  "(\<exists>i < length (bs @ [b]). P i ((bs @ [b]) ! i)) \<longleftrightarrow> (\<exists>i < length bs. P i (bs ! i)) \<or> P (length bs) b"
proof -
  have "(\<exists>i < length bs. P i ((bs @ [b]) ! i)) \<longleftrightarrow> (\<exists>i < length bs. P i (bs ! i))"
    by (rule ex_cong) (simp add: nth_append)
  then show ?thesis by (auto simp: Ex_less_Suc)
qed

lemma bit_push_byte: "bit (push_bit q (ucast (b :: u8)) :: u32) k \<longleftrightarrow> q \<le> k \<and> k < 32 \<and> bit b (k - q)"
  using bit_imp_le_length [of b "k - q"] by (auto simp: bit_push_bit_iff bit_unsigned_iff)

text \<open>Every byte goes into the word its number among all bytes names, at the place its number in
  the read names.\<close>

lemma bit_or_bytes:
  "j < length ins \<Longrightarrow> bit (or_bytes got bs ins ! j) k \<longleftrightarrow> bit (ins ! j) k \<or>
     (\<exists>i < length bs. unat (got + of_nat i) div 4 = j \<and> 8 * (i mod 4) \<le> k \<and> k < 32 \<and> bit (bs ! i) (k - 8 * (i mod 4)))"
proof (induction bs rule: rev_induct)
  case (snoc b bs)
  let ?n = "length bs"
  define Q where "Q i x \<longleftrightarrow> unat (got + of_nat i) div 4 = j \<and> 8 * (i mod 4) \<le> k \<and> k < 32 \<and> bit x (k - 8 * (i mod 4))"
    for i and x :: u8
  have IH: "bit (or_bytes got bs ins ! j) k \<longleftrightarrow> bit (ins ! j) k \<or> (\<exists>i < ?n. Q i (bs ! i))"
    using snoc.IH [OF snoc.prems] by (simp only: Q_def)
  have n: "Q ?n b \<longleftrightarrow> unat (got + of_nat ?n) div 4 = j \<and> bit (push_bit (8 * (?n mod 4)) (ucast b) :: u32) k"
    unfolding Q_def bit_push_byte by (rule refl)
  have "or_bytes got (bs @ [b]) ins ! j = (if unat (got + of_nat ?n) div 4 = j
      then or_bytes got bs ins ! j OR push_bit (8 * (?n mod 4)) (ucast b) else or_bytes got bs ins ! j)"
    using snoc.prems by (simp add: or_bytes_snoc Let_def nth_list_update rd_def)
  then have "bit (or_bytes got (bs @ [b]) ins ! j) k \<longleftrightarrow> bit (or_bytes got bs ins ! j) k \<or> Q ?n b"
    unfolding n by (cases "unat (got + of_nat ?n) div 4 = j") (simp_all only: if_True if_False bit_or_iff simp_thms)
  moreover have "(\<exists>i < length (bs @ [b]). Q i ((bs @ [b]) ! i)) \<longleftrightarrow> (\<exists>i < ?n. Q i (bs ! i)) \<or> Q ?n b"
    by (rule ex_nth_snoc)
  ultimately show ?case
    unfolding Q_def [symmetric] using IH by blast
qed (simp add: or_bytes_def)

lemma unat_of_nat_u32: "n < 2 ^ 32 \<Longrightarrow> unat (of_nat n :: u32) = n"
  by (simp add: unsigned_of_nat take_bit_nat_eq_self)

text \<open>One read into cleared words keeps every byte.\<close>

lemma bit_or_bytes_first:
  assumes "j < w" "length bs \<le> 63"
  shows "bit (or_bytes 0 bs (replicate w 0) ! j) k \<longleftrightarrow>
     k < 32 \<and> 4 * j + k div 8 < length bs \<and> bit (bs ! (4 * j + k div 8)) (k mod 8)"
proof -
  have "(i div 4 = j \<and> 8 * (i mod 4) \<le> k \<and> k < 32 \<and> bit (bs ! i) (k - 8 * (i mod 4))) \<longleftrightarrow>
      k < 32 \<and> i = 4 * j + k div 8 \<and> bit (bs ! i) (k mod 8)" for i
  proof
    assume l: "i div 4 = j \<and> 8 * (i mod 4) \<le> k \<and> k < 32 \<and> bit (bs ! i) (k - 8 * (i mod 4))"
    then have "k - 8 * (i mod 4) < 8" using bit_imp_le_length [of "bs ! i" "k - 8 * (i mod 4)"] by simp
    with l have q: "k div 8 = i mod 4" by linarith
    then have "k mod 8 = k - 8 * (i mod 4)" using minus_mult_div_eq_mod [of k 8] by simp
    with l show "k < 32 \<and> i = 4 * j + k div 8 \<and> bit (bs ! i) (k mod 8)"
      using q l mult_div_mod_eq [of 4 i] by simp
  next
    assume r: "k < 32 \<and> i = 4 * j + k div 8 \<and> bit (bs ! i) (k mod 8)"
    then have "k div 8 < 4" by auto
    with r have "i div 4 = j" "i mod 4 = k div 8" by simp_all
    moreover have "k mod 8 = k - 8 * (k div 8)" using minus_mult_div_eq_mod [of k 8] by simp
    ultimately show "i div 4 = j \<and> 8 * (i mod 4) \<le> k \<and> k < 32 \<and> bit (bs ! i) (k - 8 * (i mod 4))"
      using r by auto
  qed
  moreover have "i < length bs \<Longrightarrow> unat (0 + of_nat i :: u32) = i" for i
    using unat_of_nat_u32 [of i] assms(2) by simp
  ultimately show ?thesis
    using assms(1) by (simp add: bit_or_bytes) metis
qed

text \<open>Of a longer stream, the upper half of word 15 stays as it was: the last two bytes of the first
  read go to its lower half, and so do the first two bytes of the second.\<close>

lemma length_or_chunks [simp]: "length (or_chunks got bs ins) = length ins"
  by (induction got bs ins rule: or_chunks.induct) (subst or_chunks.simps, simp)

lemma or_chunks_late:
  "16 \<le> unat got div 4 \<Longrightarrow> unat got + length bs < 2 ^ 32 \<Longrightarrow> 15 < length ins \<Longrightarrow>
   bit (or_chunks got bs ins ! 15) k = bit (ins ! 15) k"
proof (induction got bs ins rule: or_chunks.induct)
  case (1 got bs ins)
  show ?case
  proof (cases "bs = []")
    case False
    let ?m = "min (length bs) USBBLASTER_MAX_READ"
    have u: "i \<le> length bs \<Longrightarrow> unat (got + of_nat i) = unat got + i" for i
      using 1(3) by (simp add: unat_word_ariths(1) unat_of_nat_u32)
    have "bit (or_bytes got (take USBBLASTER_MAX_READ bs) ins ! 15) k = bit (ins ! 15) k"
      using 1(2,4) by (auto simp: bit_or_bytes u)
    then show ?thesis
      using 1(1) [OF False] 1(2-4) u [of ?m] False by (subst or_chunks.simps) (auto simp: min_def)
  qed simp
qed

lemma or_chunks_long:
  assumes "length bs < 2 ^ 28" "15 < w" "16 \<le> k"
  shows "\<not> bit (or_chunks 0 bs (replicate w 0) ! 15) k"
proof -
  let ?i1 = "or_bytes 0 (take 62 bs) (replicate w 0)"
  have 1: "\<not> bit (?i1 ! 15) k"
  proof
    assume "bit (?i1 ! 15) k"
    then have "4 * 15 + k div 8 < length (take 62 bs)" using assms(2) by (simp add: bit_or_bytes_first)
    with assms(3) div_le_mono [of 16 k 8] show False by simp
  qed
  show ?thesis
  proof (cases "length bs \<le> 62")
    case True
    with 1 show ?thesis by (cases "bs = []") (subst or_chunks.simps, simp add: USBBLASTER_MAX_READ_def min_absorb1 assms(2))+
  next
    case False
    let ?bs = "drop 62 bs"
    let ?i2 = "or_bytes 62 (take 62 ?bs) ?i1"
    have r: "or_chunks 0 bs (replicate w 0) = or_chunks 62 ?bs ?i1"
      using False by (subst or_chunks.simps) (auto simp: USBBLASTER_MAX_READ_def min_absorb2)
    have "\<not> bit (?i2 ! 15) k"
    proof
      assume "bit (?i2 ! 15) k"
      with 1 assms(2) obtain i where i: "i < 62" "unat (62 + of_nat i :: u32) div 4 = 15" "8 * (i mod 4) \<le> k"
          "k < 32" "bit (take 62 ?bs ! i) (k - 8 * (i mod 4))"
        by (auto simp: bit_or_bytes)
      have "unat (62 + of_nat i :: u32) = 62 + i"
        using unat_of_nat_u32 [of "62 + i"] i(1) by simp
      with i(2) have "i < 2" by simp
      then have "8 * (i mod 4) < 16 - 7" by simp
      with bit_imp_le_length [OF i(5)] assms(3) show False by simp
    qed
    moreover have "or_chunks 62 ?bs ?i1 = or_chunks (62 + of_nat (min (length ?bs) 62)) (drop 62 ?bs) ?i2"
      using False by (subst or_chunks.simps) (simp add: USBBLASTER_MAX_READ_def)
    ultimately show ?thesis
    proof (cases "length ?bs \<le> 62")
      case True
      then have "drop 62 ?bs = []" by simp
      with \<open>\<not> bit (?i2 ! 15) k\<close> \<open>or_chunks 62 ?bs ?i1 = _\<close> show ?thesis by (simp only: r or_chunks_Nil) simp
    next
      case False
      then have "min (length ?bs) 62 = 62" by simp
      moreover have "bit (or_chunks 124 (drop 62 ?bs) ?i2 ! 15) k = bit (?i2 ! 15) k"
        by (rule or_chunks_late) (use assms in simp_all)
      ultimately show ?thesis
        using \<open>\<not> bit (?i2 ! 15) k\<close> \<open>or_chunks 62 ?bs ?i1 = _\<close> by (simp only: r) simp
    qed
  qed
qed

lemma no_trst_stream: "p \<in> set (stream_pins ws n l) \<Longrightarrow> no_trst p = p"
  by (auto simp: stream_pins_def no_trst_def)

lemma fold_no_trst:
  "fold (\<lambda>p. dstep (no_trst p)) (stream_pins ws n l) d = fold dstep (stream_pins ws n l) d"
  by (rule List.fold_cong) (simp_all add: no_trst_stream)

lemma tdo_run_no_trst:
  "tdo_run (\<lambda>p. dstep (no_trst p)) dtdo (stream_pins ws n l) d = tdo_run dstep dtdo (stream_pins ws n l) d"
proof -
  have "\<forall>p \<in> set ps. no_trst p = p \<Longrightarrow> tdo_run (\<lambda>p. dstep (no_trst p)) dtdo ps d = tdo_run dstep dtdo ps d" for ps
    by (induction ps arbitrary: d) simp_all
  then show ?thesis by (simp add: no_trst_stream)
qed

lemma of_nat_word_facts:
  fixes B :: nat
  assumes "B < 2 ^ 31"
  shows "(of_nat B :: u32) = 0 \<longleftrightarrow> B = 0" "uint (of_nat B :: u32) = int B" "nat (sint (of_nat B :: u32)) = B"
    "unat (of_nat B :: u32) = B"
proof -
  have u: "unat (of_nat B :: u32) = B" using assms by (simp add: unat_of_nat_u32)
  then show "unat (of_nat B :: u32) = B" .
  show "(of_nat B :: u32) = 0 \<longleftrightarrow> B = 0"
  proof
    assume "(of_nat B :: u32) = 0"
    with u show "B = 0" by (metis unsigned_0)
  qed simp
  have "uint (of_nat B :: u32) = int (unat (of_nat B :: u32))" by simp
  then show i: "uint (of_nat B :: u32) = int B" using u by simp
  have "sint (of_nat B :: u32) = uint (of_nat B :: u32)"
    using assms by (subst sint_uint) (simp add: i signed_take_bit_int_eq_self)
  then show "nat (sint (of_nat B :: u32)) = B" using i by simp
qed

text \<open>Up to 62 bytes the words are the bits of TDO.\<close>

lemma bit_gathered:
  assumes "8 * B \<le> length ts" "B \<le> 62" "j < w"
  shows "bit (or_chunks 0 (bits_bytes (take (8 * B) ts)) (replicate w 0) ! j) k \<longleftrightarrow>
    k < 32 \<and> 4 * j + k div 8 < B \<and> ts ! (32 * j + k)"
proof -
  let ?bs = "bits_bytes (take (8 * B) ts)"
  have l: "length ?bs = B" using assms(1) by simp
  have "or_chunks 0 ?bs (replicate w 0) = or_bytes 0 ?bs (replicate w 0)"
  proof (cases "?bs = []")
    case False
    with l assms(2) show ?thesis by (subst or_chunks.simps) (simp add: USBBLASTER_MAX_READ_def)
  qed (simp add: or_bytes_def)
  moreover have "4 * j + k div 8 < B \<Longrightarrow> bit (?bs ! (4 * j + k div 8)) (k mod 8) = ts ! (32 * j + k)"
  proof -
    assume i: "4 * j + k div 8 < B"
    have "8 * (4 * j + k div 8) + k mod 8 = 32 * j + k" by simp
    moreover from this i have "32 * j + k < 8 * B" by linarith
    ultimately show ?thesis
      using bit_bits_bytes [of "4 * j + k div 8" "take (8 * B) ts" "k mod 8"] i assms(1)
      by (simp add: add.commute)
  qed
  ultimately show ?thesis
    using bit_or_bytes_first [OF assms(3), of ?bs k] l assms(2) by auto
qed

lemma length_put_leftover [simp]: "length (put_leftover B left ins) = length ins"
  by (simp add: put_leftover_def Let_def)

lemma bit_and_0xFF: "bit ((x :: u32) AND 0xFF) q \<longleftrightarrow> q < 8 \<and> bit x q"
proof -
  have "x AND 0xFF = take_bit 8 x" by (simp add: take_bit_eq_mask mask_eq_exp_minus_1)
  then show ?thesis by (simp only: bit_take_bit_iff)
qed

lemma bit_put_leftover:
  assumes "j < length ins" "B < 2 ^ 31"
  shows "bit (put_leftover (of_nat B) left ins ! j) k \<longleftrightarrow> bit (ins ! j) k \<or>
    j = B div 4 \<and> k < 32 \<and> k div 8 = B mod 4 \<and> bit (rd left 0) (k mod 8)"
proof -
  let ?q = "8 * (B mod 4)" and ?b = "rd left 0 AND 0xFF"
  have d: "?q \<le> k \<and> k - ?q < 8 \<longleftrightarrow> k div 8 = B mod 4"
    using mult_div_mod_eq [of 8 k] mod_less_divisor [of 8 k] by linarith
  have m: "k div 8 = B mod 4 \<Longrightarrow> k - ?q = k mod 8"
    using minus_mult_div_eq_mod [of k 8] by simp
  have "bit (push_bit ?q ?b) k \<longleftrightarrow> k < 32 \<and> (?q \<le> k \<and> k - ?q < 8) \<and> bit (rd left 0) (k - ?q)"
    by (simp only: bit_push_bit_iff bit_and_0xFF) auto
  then have p: "bit (push_bit ?q ?b) k \<longleftrightarrow> k < 32 \<and> k div 8 = B mod 4 \<and> bit (rd left 0) (k mod 8)"
    unfolding d using m by metis
  have "put_leftover (of_nat B) left ins ! j = (if j = B div 4 then ins ! j OR push_bit ?q ?b else ins ! j)"
    using assms(1) by (auto simp: put_leftover_def Let_def of_nat_word_facts(4) [OF assms(2)] rd_def [of ins])
  with p show ?thesis
    by (cases "j = B div 4") (simp_all only: if_True if_False bit_or_iff simp_thms)
qed

lemma gathered_words:
  assumes "length ts = n" "n = 8 * B + r" "r \<le> 8" "B \<le> 62"
  defines "ins \<equiv> or_chunks 0 (bits_bytes (take (8 * B) ts)) (replicate ((n + 31) div 32) 0)"
  shows "(if r = 0 then ins else put_leftover (of_nat B) (bits_to_words (drop (8 * B) ts)) ins) = bits_to_words ts"
    (is "?l = _")
proof (rule nth_equalityI)
  show "length ?l = length (bits_to_words ts)" by (simp add: ins_def assms(1))
  fix j assume "j < length ?l"
  then have j: "j < (n + 31) div 32" by (simp add: ins_def split: if_splits)
  show "?l ! j = bits_to_words ts ! j"
  proof (rule bit_word_eqI)
    fix k assume "k < LENGTH(32)"
    then have k: "k < 32" by simp
    have g: "bit (ins ! j) k \<longleftrightarrow> 4 * j + k div 8 < B \<and> ts ! (32 * j + k)"
      unfolding ins_def by (subst bit_gathered) (use assms j k in auto)
    have t: "bit (bits_to_words ts ! j) k \<longleftrightarrow> 32 * j + k < n \<and> ts ! (32 * j + k)"
      using j k assms(1) by (simp add: nth_bits_to_words bit_chunk)
    have kk: "32 * j + k = 8 * (4 * j + k div 8) + k mod 8" by simp
    show "bit (?l ! j) k = bit (bits_to_words ts ! j) k"
    proof (cases "r = 0")
      case True
      have "4 * j + k div 8 < B \<longleftrightarrow> 32 * j + k < n" using kk True assms(2) by linarith
      with True g t show ?thesis by simp
    next
      case False
      have "rd (bits_to_words (drop (8 * B) ts)) 0 = bits_word (take 32 (drop (8 * B) ts))"
        using False assms(1,2) nth_bits_to_words [of 0 "drop (8 * B) ts"]
        by (cases r) (simp_all add: rd_def bits_word_def)
      then have l: "bit (rd (bits_to_words (drop (8 * B) ts)) 0) (k mod 8) \<longleftrightarrow> k mod 8 < r \<and> ts ! (8 * B + k mod 8)"
        using assms(1,2) mod_less_divisor [of 8 k] by (auto simp: bit_bits_word simp del: mod_less_divisor)
      have q: "j = B div 4 \<and> k div 8 = B mod 4 \<longleftrightarrow> 4 * j + k div 8 = B"
        using k mult_div_mod_eq [of 4 B] by auto
      have lj: "j < length ins" using j by (simp add: ins_def)
      have "bit (?l ! j) k \<longleftrightarrow> 4 * j + k div 8 < B \<and> ts ! (32 * j + k) \<or>
          4 * j + k div 8 = B \<and> k mod 8 < r \<and> ts ! (8 * B + k mod 8)"
        using bit_put_leftover [of j ins B "bits_to_words (drop (8 * B) ts)" k] lj assms(4) False k g l q by auto
      moreover have "4 * j + k div 8 = B \<Longrightarrow> 8 * B + k mod 8 = 32 * j + k" using kk by simp
      moreover have "32 * j + k < n \<longleftrightarrow> 4 * j + k div 8 < B \<or> 4 * j + k div 8 = B \<and> k mod 8 < r"
        using kk assms(2,3) mod_less_divisor [of 8 k]
        by (cases "4 * j + k div 8 = B"; cases "4 * j + k div 8 < B") auto
      ultimately show ?thesis unfolding t by metis
    qed
  qed
qed

text \<open>A read of 8192 bits or more does not come back, whatever the adapter does.\<close>

lemma burst_read_hangs:
  assumes "8192 \<le> n" "n < 2 ^ 31"
  shows "burst_read_stream h F ws (int n) l c = None"
proof -
  have n: "0 < n" using assms(1) by simp
  obtain B r where s: "stream_split (int n) l = (of_nat B, of_nat r)" "n = 8 * B + r" "r \<le> 8" "B < 2 ^ 28"
    using stream_split_nat [OF n assms(2)] by metis
  then have "(of_nat B :: u32) \<noteq> 0" using of_nat_word_facts(1) [of B] assms(1) by simp
  moreover have "clear_instream (int n) = None"
    using assms(1) by (simp add: clear_instream_def c_div_nonneg)
  ultimately show ?thesis
    by (simp add: burst_read_stream_def s(1) split_beta)
qed

section \<open>The streams of a fast driver\<close>

text \<open>\<open>ready\<close> holds between the calls of the driver, \<open>shifting\<close> between packets.\<close>

locale fast_driver =
  bits: bit_cable h "bit_driver F" dev "\<lambda>p. dstep (no_trst p)" dtdo ready +
  shifter: byte_shifter "send_packet F" "fetch_bytes F" shifting dev dstep dtdo
  for h and F :: "'c burst_driver" and dev :: "'c \<Rightarrow> 'd" and dstep dtdo ready shifting +
  assumes clock_down: "ready c \<Longrightarrow> \<exists>c1. clock_down F c = (APP_ERR_NONE, c1) \<and> shifting c1 \<and> dev c1 = dev c"
    and reopen: "shifting c \<Longrightarrow> reopen F c = (APP_ERR_NONE, c)"
    and burst_done: "shifting c \<Longrightarrow> ready (burst_done F c) \<and> dev (burst_done F c) = dev c"
begin

lemma write_stream:
  assumes "ready c" "0 < n" "n \<le> 32 * length ws" "n < 2 ^ 31"
  shows "\<exists>c'. burst_write_stream h F ws (int n) l c = (APP_ERR_NONE, c') \<and> ready c' \<and>
    dev c' = fold dstep (stream_pins ws n l) (dev c)"
proof -
  obtain B r where s: "stream_split (int n) l = (of_nat B, of_nat r)" "n = 8 * B + r" "r \<le> 8" "l \<Longrightarrow> 0 < r" "B < 2 ^ 28"
    using stream_split_nat [OF assms(2,4)] by metis
  let ?s = "burst_write_stream h F ws (int n) l c"
  note B = of_nat_word_facts [of B] and r = of_nat_word_facts [of r]
  show ?thesis
  proof (cases "B = 0")
    case True
    with s(2,3) assms(2) obtain m where m: "n = Suc m" "m < 32" by (cases n) auto
    have e: "?s = cable_common_write_stream h (bit_driver F) ws (int (Suc m)) l c"
      using True s(1) by (simp add: burst_write_stream_def m(1) [symmetric])
    from bits.write_stream [OF assms(1) disjI2 [OF m(2)], of ws l] show ?thesis
      unfolding e by (intro exI [of _ "snd _"]) (simp add: m(1) fold_no_trst prod_eq_iff)
  next
    case False
    obtain c1 where c1: "clock_down F c = (APP_ERR_NONE, c1)" "shifting c1" "dev c1 = dev c"
      using clock_down [OF assms(1)] by blast
    have "B \<le> 4 * length ws" using s(2) assms(3) by simp
    with shifter.write_chunks_run [OF c1(2), of B "words_to_bytes ws"] obtain c2 where
      c2: "write_chunks (send_packet F) B (words_to_bytes ws) c1 = (APP_ERR_NONE, c2)" "shifting c2"
        "dev c2 = fold dstep (data_pins ws 0 (8 * B)) (dev c1)"
      by (auto simp: shift_pins_stream)
    have pins: "stream_pins ws n l = data_pins ws 0 (8 * B) @ stream_pins [leftover ws (of_nat B)] r l"
      by (rule stream_pins_leftover) (use s in auto)
    note c3 = burst_done [OF c2(2)]
    have e: "?s = (if r \<noteq> 0 then cable_common_write_stream h (bit_driver F) [leftover ws (of_nat B)] (int r) l (burst_done F c2)
        else (APP_ERR_NONE, burst_done F c2))"
      using False B r s(3,5) by (simp add: burst_write_stream_def s(1) c1(1) reopen [OF c1(2)] c2(1))
    show ?thesis
    proof (cases r)
      case 0
      have "stream_pins [leftover ws (of_nat B)] 0 l = []" by (simp add: stream_pins_def)
      with 0 c1(3) c2(3) c3 show ?thesis by (simp add: e pins)
    next
      case (Suc m)
      with s(3) have "m < 32" by simp
      from bits.write_stream [OF conjunct1 [OF c3] disjI2 [OF this], of "[leftover ws (of_nat B)]" l] c1(3) c2(3) c3 Suc
      show ?thesis
        by (intro exI [of _ "snd _"]) (simp add: e pins fold_no_trst prod_eq_iff)
    qed
  qed
qed

lemma read_stream_few:
  assumes "ready c" "stream_split (int (Suc m)) l = (0, r)" "m < 32"
  shows "\<exists>c'. burst_read_stream h F ws (int (Suc m)) l c =
      Some ((APP_ERR_NONE, bits_to_words (tdo_run dstep dtdo (stream_pins ws (Suc m) l) (dev c))), c') \<and>
    ready c' \<and> dev c' = fold dstep (stream_pins ws (Suc m) l) (dev c)"
proof -
  let ?r = "cable_common_read_stream h (bit_driver F) ws (int (Suc m)) l c"
  have e: "burst_read_stream h F ws (int (Suc m)) l c = Some ?r"
    unfolding burst_read_stream_def assms(2) by simp
  note rs = bits.read_stream [OF assms(1) disjI2 [OF assms(3)], of ws l]
  from rs show ?thesis
    unfolding e by (intro exI [of _ "snd ?r"]) (simp add: fold_no_trst tdo_run_no_trst prod_eq_iff)
qed

text \<open>What a read leaves in the array; the state of the device is right in any case.\<close>

lemma read_stream_gathers:
  assumes "ready c" "0 < n" "n \<le> 32 * length ws" "n < 8192"
    and "stream_split (int n) l = (of_nat B, of_nat r)" "n = 8 * B + r" "r \<le> 8" "l \<Longrightarrow> 0 < r" "0 < B"
  defines "ts \<equiv> tdo_run dstep dtdo (stream_pins ws n l) (dev c)"
  defines "gathered \<equiv> or_chunks 0 (bits_bytes (take (8 * B) ts)) (replicate ((n + 31) div 32) 0)"
  shows "\<exists>c'. burst_read_stream h F ws (int n) l c = Some ((APP_ERR_NONE, if r = 0 then gathered
      else put_leftover (of_nat B) (bits_to_words (drop (8 * B) ts)) gathered), c') \<and>
    ready c' \<and> dev c' = fold dstep (stream_pins ws n l) (dev c)"
proof -
  have b: "B < 2 ^ 28" using assms(4,6) by simp
  note B = of_nat_word_facts [of B] and r = of_nat_word_facts [of r]
  let ?left = "[leftover ws (of_nat B)]"
  obtain c1 where c1: "clock_down F c = (APP_ERR_NONE, c1)" "shifting c1" "dev c1 = dev c"
    using clock_down [OF assms(1)] by blast
  have pins: "stream_pins ws n l = data_pins ws 0 (8 * B) @ stream_pins ?left r l"
    by (rule stream_pins_leftover) (use assms b in auto)
  have ts: "take (8 * B) ts = tdo_run dstep dtdo (data_pins ws 0 (8 * B)) (dev c)"
      "drop (8 * B) ts = tdo_run dstep dtdo (stream_pins ?left r l) (fold dstep (data_pins ws 0 (8 * B)) (dev c))"
    by (simp_all add: ts_def pins tdo_run_append)
  have bl: "B \<le> 4 * length ws" using assms(3,6) by simp
  with shifter.read_chunks_run [OF c1(2), of B "words_to_bytes ws" 0 "replicate ((n + 31) div 32) 0"] obtain c2 where
    c2: "read_chunks (send_packet F) (fetch_bytes F) B (words_to_bytes ws) 0 (replicate ((n + 31) div 32) 0) c1 =
        Some (Some gathered, c2)" "shifting c2" "dev c2 = fold dstep (data_pins ws 0 (8 * B)) (dev c1)"
    by (auto simp: shift_pins_stream gathered_def ts c1(3))
  note c3 = burst_done [OF c2(2)]
  have d: "nat (c_div (int n + 31) 32) = (n + 31) div 32" "c_div (int n) 32 < 256"
    using assms(4) by (simp_all add: c_div_nonneg)
  have e: "burst_read_stream h F ws (int n) l c =
      (if r \<noteq> 0 then let ((e, left), c) = cable_common_read_stream h (bit_driver F) ?left (int r) l (burst_done F c2)
         in Some ((e, put_leftover (of_nat B) left gathered), c) else Some ((APP_ERR_NONE, gathered), burst_done F c2))"
    using assms(7,9) b B r
    by (simp add: burst_read_stream_def assms(5) c1(1) reopen [OF c1(2)] c2(1) clear_instream_def d)
  show ?thesis
  proof (cases r)
    case 0
    have "stream_pins ?left 0 l = []" by (simp add: stream_pins_def)
    with 0 c1(3) c2(3) c3 show ?thesis by (simp add: e pins)
  next
    case (Suc m)
    with assms(7) have "m < 32" by simp
    note rs = bits.read_stream [OF conjunct1 [OF c3] disjI2 [OF this], of ?left l]
    let ?r = "cable_common_read_stream h (bit_driver F) ?left (int (Suc m)) l (burst_done F c2)"
    have "fst ?r = (APP_ERR_NONE, bits_to_words (drop (8 * B) ts))"
      using rs(1) c1(3) c2(3) c3 by (simp add: ts Suc tdo_run_no_trst)
    with rs(2,3) c1(3) c2(3) c3 show ?thesis
      by (intro exI [of _ "snd ?r"]) (auto simp: e pins Suc fold_no_trst Let_def split_beta)
  qed
qed

lemma read_stream:
  assumes "ready c" "0 < n" "n \<le> 32 * length ws" "n < 504"
  shows "\<exists>c'. burst_read_stream h F ws (int n) l c =
      Some ((APP_ERR_NONE, bits_to_words (tdo_run dstep dtdo (stream_pins ws n l) (dev c))), c') \<and>
    ready c' \<and> dev c' = fold dstep (stream_pins ws n l) (dev c)"
proof -
  obtain B r where s: "stream_split (int n) l = (of_nat B, of_nat r)" "n = 8 * B + r" "r \<le> 8" "l \<Longrightarrow> 0 < r"
  proof -
    have "n < 2 ^ 31" using assms(4) by simp
    from stream_split_nat [OF assms(2) this] that show thesis by metis
  qed
  show ?thesis
  proof (cases "B = 0")
    case True
    with s assms(2) obtain m where "n = Suc m" "m < 32" by (cases n) auto
    with read_stream_few [OF assms(1), of m l "of_nat r" ws] s(1) True show ?thesis by simp
  next
    case False
    then have B: "0 < B" "B \<le> 62" using s(2) assms(4) by simp_all
    have n: "n < 8192" using assms(4) by simp
    let ?ts = "tdo_run dstep dtdo (stream_pins ws n l) (dev c)"
    have "length ?ts = n" by simp
    from gathered_words [OF this s(2,3) B(2)] read_stream_gathers [OF assms(1-3) n s(1-4) B(1)] show ?thesis
      by auto
  qed
qed

lemma read_stream_long:
  assumes "ready c" "513 \<le> n" "n \<le> 32 * length ws" "n < 8192"
  shows "\<exists>ins c'. burst_read_stream h F ws (int n) l c = Some ((APP_ERR_NONE, ins), c') \<and>
    length ins = (n + 31) div 32 \<and> (\<forall>k \<ge> 16. \<not> bit (ins ! 15) k) \<and>
    ready c' \<and> dev c' = fold dstep (stream_pins ws n l) (dev c)"
proof -
  have n: "0 < n" "n < 2 ^ 31" using assms(2,4) by simp_all
  obtain B r where s: "stream_split (int n) l = (of_nat B, of_nat r)" "n = 8 * B + r" "r \<le> 8" "l \<Longrightarrow> 0 < r"
    using stream_split_nat [OF n] by metis
  have B: "0 < B" "64 \<le> B" "B < 2 ^ 28" "15 < (n + 31) div 32" using s(2,3) assms(2,4) by simp_all
  let ?ts = "tdo_run dstep dtdo (stream_pins ws n l) (dev c)"
  let ?g = "or_chunks 0 (bits_bytes (take (8 * B) ?ts)) (replicate ((n + 31) div 32) 0)"
  have g: "16 \<le> k \<Longrightarrow> \<not> bit (?g ! 15) k" for k
    by (rule or_chunks_long) (use B s(2) in simp_all)
  moreover have "16 \<le> k \<Longrightarrow> \<not> bit (put_leftover (of_nat B) left ?g ! 15) k" for left k
  proof -
    have "B div 4 \<noteq> 15" using B(2) by linarith
    moreover assume "16 \<le> k"
    ultimately show ?thesis using bit_put_leftover [of 15 ?g B left k] B g by simp
  qed
  ultimately show ?thesis
    using read_stream_gathers [OF assms(1) n(1) assms(3,4) s(1-4) B(1)] by (cases "r = 0") auto
qed

end

end
