(* ===== verification/Cable_Usbblaster.thy ===== *)
theory Cable_Usbblaster
  imports Blaster_Stream
begin

text \<open>
  The driver for the Altera USB Blaster over libusb (\<^verbatim>\<open>cable_usbblaster.c\<close>). The library is a
  parameter, the record \<open>usb\<close> of the functions that the driver calls.

  The locale \<open>blaster_adapter\<close> states the protocol of the adapter as the comments of \<^verbatim>\<open>cable_ft245.c\<close>
  write it down: a byte with bit 7 clear sets the lines, and asks for TDO if bit 6 is set; a byte
  with bit 7 set says how many of the bytes behind it are to be shifted out, and whether the bits
  of TDO are wanted. \<open>libusb_adapter\<close> adds how the library carries it, and gives the contract
  of a fast driver. It is interpreted on an adapter with a device behind it.
\<close>

section \<open>The driver over libusb\<close>

definition USBBLASTER_CMD_TCK :: u8 where [const_simps]: "USBBLASTER_CMD_TCK = 0x01"
definition USBBLASTER_CMD_TMS :: u8 where [const_simps]: "USBBLASTER_CMD_TMS = 0x02"
definition USBBLASTER_CMD_nCS :: u8 where [const_simps]: "USBBLASTER_CMD_nCS = 0x08"
definition USBBLASTER_CMD_TDI :: u8 where [const_simps]: "USBBLASTER_CMD_TDI = 0x10"
definition USBBLASTER_CMD_OE :: u8 where [const_simps]: "USBBLASTER_CMD_OE = 0x20"
definition USBBLASTER_CMD_READ :: u8 where [const_simps]: "USBBLASTER_CMD_READ = 0x40"

text \<open>The calls of libusb. A read gives at most as many bytes as were asked for; None is a
  negative result. \<open>timer_checks\<close> says how often the timer of \<open>open_cable\<close> is asked before it
  has run down; calls whose result is only reported have none here.\<close>

record 'u usb =
  usb_find_device :: "u32 \<Rightarrow> u32 \<Rightarrow> 'u \<Rightarrow> bool \<times> 'u"
  usb_open :: "'u \<Rightarrow> bool \<times> 'u"
  usb_reset :: "'u \<Rightarrow> 'u"
  usb_close :: "'u \<Rightarrow> 'u"
  usb_set_configuration :: "'u \<Rightarrow> int \<times> 'u"
  usb_claim_interface :: "'u \<Rightarrow> int \<times> 'u"
  usb_release_interface :: "'u \<Rightarrow> 'u"
  usb_start_interface :: "'u \<Rightarrow> 'u"
  usb_firmware_version :: "'u \<Rightarrow> bool \<times> 'u"
  usb_bulk_write :: "u8 list \<Rightarrow> 'u \<Rightarrow> int \<times> 'u"
  usb_bulk_read :: "nat \<Rightarrow> 'u \<Rightarrow> u8 list option \<times> 'u"
  timer_checks :: nat

record 'u usbblaster =
  h_device :: bool
  clock_is_high :: bool
  altera_vid :: u32
  altera_pid :: u32
  usb_side :: 'u

definition on_usb :: "('u \<Rightarrow> 'r \<times> 'u) \<Rightarrow> 'u usbblaster \<Rightarrow> 'r \<times> 'u usbblaster" where
  "on_usb f c = (let (r, u) = f (usb_side c) in (r, c\<lparr>usb_side := u\<rparr>))"

definition bulk_write :: "'u usb \<Rightarrow> u8 list \<Rightarrow> 'u usbblaster \<Rightarrow> int \<times> 'u usbblaster" where
  "bulk_write U bs = on_usb (usb_bulk_write U bs)"

definition bulk_read :: "'u usb \<Rightarrow> nat \<Rightarrow> 'u usbblaster \<Rightarrow> u8 list option \<times> 'u usbblaster" where
  "bulk_read U n c = (let (r, c) = on_usb (usb_bulk_read U n) c in (map_option (take n) r, c))"

definition usbblaster_enumerate_bus :: "'u usb \<Rightarrow> 'u usbblaster act" where
  "usbblaster_enumerate_bus U c =
     (let (found, c) = on_usb (usb_find_device U (altera_vid c) (altera_pid c)) c
      in (if found then APP_ERR_NONE else APP_ERR_CABLENOTFOUND, c))"

text \<open>The result is the number of checks the timer has left.\<close>

fun claim_interface :: "'u usb \<Rightarrow> nat \<Rightarrow> 'u usbblaster \<Rightarrow> nat \<times> 'u usbblaster" where
  "claim_interface U 0 c = (0, c)"
| "claim_interface U (Suc k) c =
     (let (r, c) = on_usb (usb_claim_interface U) c in if r \<noteq> 0 then claim_interface U k c else (k, c))"

definition cable_usbblaster_open_cable :: "'u usb \<Rightarrow> 'u usbblaster act" where
  "cable_usbblaster_open_cable U c =
     (let (opened, c) = on_usb (usb_open U) c; c = c\<lparr>h_device := opened\<rparr>
      in if \<not> opened then (APP_ERR_USB, c)
         else let (r, c) = on_usb (usb_set_configuration U) c
              in if r \<noteq> 0 then (APP_ERR_USB, c\<lparr>h_device := False, usb_side := usb_close U (usb_side c)\<rparr>)
                 else let (k, c) = claim_interface U (timer_checks U) c
                      in (if k = 0 then APP_ERR_USB else APP_ERR_NONE, c))"

definition cable_usbblaster_close_cable :: "'u usb \<Rightarrow> 'u usbblaster \<Rightarrow> 'u usbblaster" where
  "cable_usbblaster_close_cable U c =
     (if h_device c
      then c\<lparr>h_device := False, usb_side := usb_close U (usb_release_interface U (usb_side c))\<rparr>
      else c)"

definition open_if_necessary :: "'u usb \<Rightarrow> 'u usbblaster act" where
  "open_if_necessary U c = (if h_device c then (APP_ERR_NONE, c) else cable_usbblaster_open_cable U c)"

definition cable_usbblaster_init :: "'u usb \<Rightarrow> 'u usbblaster act" where
  "cable_usbblaster_init U c =
     (let (err, c) = usbblaster_enumerate_bus U c
      in if err \<noteq> 0 then (err, c)
         else let (opened, c) = on_usb (usb_open U) c; c = c\<lparr>h_device := opened\<rparr>
              in if \<not> opened then (APP_ERR_USB, c)
                 else let c = c\<lparr>usb_side := usb_close U (usb_reset U (usb_side c))\<rparr>;
                          (err, c) = usbblaster_enumerate_bus U c
                      in if err \<noteq> 0 then (err, c)
                         else let (err, c) = cable_usbblaster_open_cable U c
                              in if err \<noteq> APP_ERR_NONE then (err, c)
                                 else let c = c\<lparr>usb_side := usb_start_interface U (usb_side c)\<rparr>;
                                          (ok, c) = on_usb (usb_firmware_version U) c
                                      in if \<not> ok then (APP_ERR_USB, c\<lparr>usb_side := usb_close U (usb_side c)\<rparr>)
                                         else (APP_ERR_NONE, snd (bulk_read U 2 c)))"

definition usbblaster_cmd :: "u8 \<Rightarrow> u8 \<Rightarrow> u8" where
  "usbblaster_cmd out v =
     (let out = (if v AND TCLK_BIT \<noteq> 0 then out OR USBBLASTER_CMD_TCK else out);
          out = (if v AND TDI_BIT \<noteq> 0 then out OR USBBLASTER_CMD_TDI else out)
      in if v AND TMS_BIT \<noteq> 0 then out OR USBBLASTER_CMD_TMS else out)"

definition cable_usbblaster_out :: "'u usb \<Rightarrow> u8 \<Rightarrow> 'u usbblaster act" where
  "cable_usbblaster_out U v c =
     (let (rv, c) = open_if_necessary U c
      in if rv \<noteq> APP_ERR_NONE then (rv, c)
         else let (rv, c) = bulk_write U [usbblaster_cmd (USBBLASTER_CMD_OE OR USBBLASTER_CMD_nCS) v] c
              in (if rv \<noteq> 1 then APP_ERR_USB else APP_ERR_NONE, c\<lparr>clock_is_high := v AND TCLK_BIT \<noteq> 0\<rparr>))"

text \<open>At most \<open>k\<close> reads. If all of them bring only the two status bytes, the bit is the 0 that the
  array was filled with, and no error is reported. After an error the caller's variable keeps
  what was in it.\<close>

fun read_tdo :: "host \<Rightarrow> 'u usb \<Rightarrow> nat \<Rightarrow> 'u usbblaster \<Rightarrow> (u32 \<times> u8) \<times> 'u usbblaster" where
  "read_tdo h U 0 c = ((APP_ERR_NONE, 0), c)"
| "read_tdo h U (Suc k) c =
     (case bulk_read U 3 c of
        (None, c) \<Rightarrow> ((APP_ERR_USB, stray h 0), cable_usbblaster_close_cable U c)
      | (Some bs, c) \<Rightarrow> if length bs < 3 then read_tdo h U k c else ((APP_ERR_NONE, bs ! 2 AND 1), c))"

definition cable_usbblaster_inout :: "host \<Rightarrow> 'u usb \<Rightarrow> u8 \<Rightarrow> 'u usbblaster \<Rightarrow> (u32 \<times> u8) \<times> 'u usbblaster" where
  "cable_usbblaster_inout h U v c =
     (let (rv, c) = open_if_necessary U c
      in if rv \<noteq> APP_ERR_NONE then ((rv, stray h 0), c)
         else let (rv, c) = bulk_write U
                    [usbblaster_cmd (USBBLASTER_CMD_OE OR USBBLASTER_CMD_nCS OR USBBLASTER_CMD_READ) v] c
              in if rv \<noteq> 1 then ((APP_ERR_USB, stray h 0), cable_usbblaster_close_cable U c)
                 else read_tdo h U 20 (c\<lparr>clock_is_high := v AND TCLK_BIT \<noteq> 0\<rparr>))"

definition cable_usbblaster_opt :: "host \<Rightarrow> char \<Rightarrow> string \<Rightarrow> 'u usbblaster act" where
  "cable_usbblaster_opt h o1 str c =
     (if o1 = CHR ''p''
      then case scan_id h str of None \<Rightarrow> (APP_ERR_BAD_PARAM, c) | Some n \<Rightarrow> (APP_ERR_NONE, c\<lparr>altera_pid := n\<rparr>)
      else if o1 = CHR ''v''
      then case scan_id h str of None \<Rightarrow> (APP_ERR_BAD_PARAM, c) | Some n \<Rightarrow> (APP_ERR_NONE, c\<lparr>altera_vid := n\<rparr>)
      else (APP_ERR_BAD_PARAM, c))"

text \<open>The entries of the driver's record that the common functions call.\<close>

definition id_help :: string where
  "id_help = ''-p [PID] Alteranate PID for USB device (hex value)'' @ CHR 0x0A # CHR 0x09
     # ''-v [VID] Alternate VID for USB device (hex value)'' @ [CHR 0x0A]"

definition usbblaster_bits :: "host \<Rightarrow> 'u usb \<Rightarrow> 'u usbblaster jtag_cable" where
  "usbblaster_bits h U = bitbang_cable h ''usbblaster'' (cable_usbblaster_inout h U)
     (cable_usbblaster_out U) (cable_usbblaster_init U) (cable_usbblaster_opt h) ''p:v:'' id_help"

definition usbblaster_send :: "'u usb \<Rightarrow> u8 list \<Rightarrow> 'u usbblaster \<Rightarrow> bool \<times> 'u usbblaster" where
  "usbblaster_send U bs c = (let (rv, c) = bulk_write U bs c in (rv = int (length bs), c))"

text \<open>Two status bytes come before the data of every read.\<close>

definition usbblaster_fetch :: "'u usb \<Rightarrow> 'u usbblaster fetch" where
  "usbblaster_fetch U n c =
     (let (r, c) = bulk_read U (unat (n + 2)) c in (map_option (\<lambda>bs. (drop 2 bs, int (length bs) - 2)) r, c))"

definition usbblaster_burst :: "host \<Rightarrow> 'u usb \<Rightarrow> 'u usbblaster burst_driver" where
  "usbblaster_burst h U =
     \<lparr>bit_driver = usbblaster_bits h U,
      clock_down = \<lambda>c. if clock_is_high c then cable_usbblaster_out U 0 c else (APP_ERR_NONE, c),
      reopen = open_if_necessary U,
      send_packet = usbblaster_send U,
      fetch_bytes = usbblaster_fetch U,
      burst_done = \<lambda>c. c\<lparr>clock_is_high := False\<rparr>,
      read_failed = cable_usbblaster_close_cable U\<rparr>"

definition cable_usbblaster_write_stream :: "host \<Rightarrow> 'u usb \<Rightarrow> u32 list \<Rightarrow> int \<Rightarrow> bool \<Rightarrow> 'u usbblaster act" where
  "cable_usbblaster_write_stream h U = burst_write_stream h (usbblaster_burst h U)"

definition cable_usbblaster_read_stream :: "host \<Rightarrow> 'u usb \<Rightarrow> u32 list \<Rightarrow> int \<Rightarrow> bool \<Rightarrow> 'u usbblaster
    \<Rightarrow> ((u32 \<times> u32 list) \<times> 'u usbblaster) option" where
  "cable_usbblaster_read_stream h U = burst_read_stream h (usbblaster_burst h U)"

section \<open>The protocol\<close>

text \<open>\<open>put\<close> is the effect of a packet on the adapter. In byte-shift mode the clock starts low, TMS
  stays as it is, and the answers come behind those that wait already.\<close>

locale blaster_adapter =
  fixes adev :: "'u \<Rightarrow> 'd"
    and atck atms :: "'u \<Rightarrow> bool"
    and answers :: "'u \<Rightarrow> u8 list"
    and put :: "u8 list \<Rightarrow> 'u \<Rightarrow> 'u"
    and dstep :: "pin \<Rightarrow> 'd \<Rightarrow> 'd"
    and dtdo :: "'d \<Rightarrow> bool"
  assumes lines_dev: "\<not> bit b 7 \<Longrightarrow> adev (put [b] u) =
       (if bit b 0 \<and> \<not> atck u then dstep (Pin (bit b 1) (bit b 4) False) (adev u) else adev u)"
    and lines_pins: "\<not> bit b 7 \<Longrightarrow> atck (put [b] u) = bit b 0" "\<not> bit b 7 \<Longrightarrow> atms (put [b] u) = bit b 1"
    and lines_quiet: "\<not> bit b 7 \<Longrightarrow> \<not> bit b 6 \<Longrightarrow> answers (put [b] u) = answers u"
    and lines_tdo: "\<not> bit b 7 \<Longrightarrow> bit b 6 \<Longrightarrow>
       \<exists>a. answers (put [b] u) = answers u @ [a] \<and> bit a 0 = dtdo (adev u)"
    and shift_dev: "bit b 7 \<Longrightarrow> unat (b AND 0x3F) = length bs \<Longrightarrow> \<not> atck u \<Longrightarrow>
       adev (put (b # bs) u) = fold dstep (shift_pins (atms u) bs) (adev u)"
    and shift_lines: "bit b 7 \<Longrightarrow> unat (b AND 0x3F) = length bs \<Longrightarrow> \<not> atck u \<Longrightarrow>
       \<not> atck (put (b # bs) u) \<and> atms (put (b # bs) u) = atms u"
    and shift_answers: "bit b 7 \<Longrightarrow> unat (b AND 0x3F) = length bs \<Longrightarrow> \<not> atck u \<Longrightarrow>
       answers (put (b # bs) u) = answers u @
         (if bit b 6 then bits_bytes (tdo_run dstep dtdo (shift_pins (atms u) bs) (adev u)) else [])"

text \<open>libusb hands packets of up to 64 bytes on. A read brings two status bytes and, after some
  reads without data (\<open>lag\<close>), all the answers it has room for.\<close>

locale libusb_adapter = blaster_adapter +
  fixes U :: "'a usb"
    and lag :: "'a \<Rightarrow> nat"
  assumes usb_write: "length bs \<le> 64 \<Longrightarrow> usb_bulk_write U bs u = (int (length bs), put bs u)"
    and usb_lag: "lag (put bs u) < 15"
    and usb_wait: "0 < lag u \<Longrightarrow> 2 \<le> n \<Longrightarrow> \<exists>x y u'. usb_bulk_read U n u = (Some [x, y], u') \<and>
       answers u' = answers u \<and> lag u' < lag u \<and> adev u' = adev u \<and> atck u' = atck u \<and> atms u' = atms u"
    and usb_data: "lag u = 0 \<Longrightarrow> 2 \<le> n \<Longrightarrow> \<exists>x y u'. usb_bulk_read U n u = (Some (x # y # take (n - 2) (answers u)), u') \<and>
       answers u' = drop (n - 2) (answers u) \<and> adev u' = adev u \<and> atck u' = atck u \<and> atms u' = atms u"

lemma cmd_bits:
  "bit (usbblaster_cmd out v) 0 = (bit out 0 \<or> bit v 0)"
  "bit (usbblaster_cmd out v) (Suc 0) = (bit out (Suc 0) \<or> bit v 3)"
  "bit (usbblaster_cmd out v) 4 = (bit out 4 \<or> bit v 2)"
  "bit (usbblaster_cmd out v) 6 = bit out 6" "bit (usbblaster_cmd out v) 7 = bit out 7"
  by (auto simp: usbblaster_cmd_def const_simps line_bit bit_simps)

definition blaster_ready :: "('u \<Rightarrow> bool) \<Rightarrow> ('u \<Rightarrow> bool) \<Rightarrow> ('u \<Rightarrow> u8 list) \<Rightarrow> 'u usbblaster \<Rightarrow> bool" where
  "blaster_ready tck tms ans c \<longleftrightarrow> h_device c \<and> ans (usb_side c) = [] \<and>
     (\<not> clock_is_high c \<longrightarrow> \<not> tck (usb_side c) \<and> \<not> tms (usb_side c))"

lemma usb_side_clock: "c\<lparr>usb_side := x, clock_is_high := y\<rparr> = c\<lparr>clock_is_high := y, usb_side := x\<rparr>"
  by simp

context libusb_adapter
begin

lemma out_put:
  "h_device c \<Longrightarrow> cable_usbblaster_out U v c = (APP_ERR_NONE, c\<lparr>clock_is_high := bit v 0,
     usb_side := put [usbblaster_cmd (USBBLASTER_CMD_OE OR USBBLASTER_CMD_nCS) v] (usb_side c)\<rparr>)"
  by (simp add: cable_usbblaster_out_def open_if_necessary_def bulk_write_def on_usb_def usb_write
      line_bit TCLK_BIT_def)

lemma read_tdo_answer:
  "answers (usb_side c) = [a] \<Longrightarrow> lag (usb_side c) < k \<Longrightarrow>
   \<exists>u. read_tdo h U k c = ((APP_ERR_NONE, of_bool (bit a 0)), c\<lparr>usb_side := u\<rparr>) \<and> answers u = [] \<and>
     adev u = adev (usb_side c) \<and> atck u = atck (usb_side c) \<and> atms u = atms (usb_side c)"
proof (induction k arbitrary: c)
  case (Suc k)
  show ?case
  proof (cases "lag (usb_side c) = 0")
    case True
    from usb_data [OF this, of 3] Suc.prems(1) show ?thesis
      by (auto simp: bulk_read_def on_usb_def and_1_cases)
  next
    case False
    with usb_wait [of "usb_side c" 3] obtain x y u where
      u: "usb_bulk_read U 3 (usb_side c) = (Some [x, y], u)" "answers u = answers (usb_side c)"
        "lag u < lag (usb_side c)" "adev u = adev (usb_side c)" "atck u = atck (usb_side c)" "atms u = atms (usb_side c)"
      by auto
    then show ?thesis
      using Suc.IH [of "c\<lparr>usb_side := u\<rparr>"] Suc.prems by (simp add: bulk_read_def on_usb_def)
  qed
qed simp

lemma inout_put:
  assumes "h_device c" "answers (usb_side c) = []" "\<not> atck (usb_side c)"
  obtains u where "cable_usbblaster_inout h U v c =
      ((APP_ERR_NONE, of_bool (dtdo (adev (usb_side c)))), c\<lparr>clock_is_high := bit v 0, usb_side := u\<rparr>)"
    and "answers u = []" "atck u = bit v 0" "atms u = bit v 3"
    and "adev u = (if bit v 0 then dstep (Pin (bit v 3) (bit v 2) False) (adev (usb_side c)) else adev (usb_side c))"
proof -
  let ?b = "usbblaster_cmd (USBBLASTER_CMD_OE OR USBBLASTER_CMD_nCS OR USBBLASTER_CMD_READ) v"
  let ?u = "put [?b] (usb_side c)"
  let ?c = "c\<lparr>clock_is_high := bit v 0, usb_side := ?u\<rparr>"
  have b: "\<not> bit ?b 7" "bit ?b 6" "bit ?b 0 = bit v 0" "bit ?b (Suc 0) = bit v 3" "bit ?b 4 = bit v 2"
    by (simp_all add: cmd_bits const_simps bit_simps)
  obtain a where a: "answers ?u = [a]" "bit a 0 = dtdo (adev (usb_side c))"
    using lines_tdo [OF b(1,2), of "usb_side c"] assms(2) by auto
  have "lag (usb_side ?c) < 20" using usb_lag [of "[?b]" "usb_side c"] by simp
  moreover have "answers (usb_side ?c) = [a]" using a(1) by simp
  ultimately obtain u where u: "read_tdo h U 20 ?c = ((APP_ERR_NONE, of_bool (bit a 0)), ?c\<lparr>usb_side := u\<rparr>)"
      "answers u = []" "adev u = adev ?u" "atck u = atck ?u" "atms u = atms ?u"
    using read_tdo_answer [of ?c a 20 h] by auto
  show thesis
    by (rule that [of u])
      (use u a(2) assms b lines_dev [OF b(1), of "usb_side c"] lines_pins [OF b(1)] in
        \<open>simp_all add: cable_usbblaster_inout_def open_if_necessary_def bulk_write_def on_usb_def usb_write
          line_bit TCLK_BIT_def usb_side_clock\<close>)
qed

lemma bits_out:
  assumes "blaster_ready atck atms answers c"
  shows "fst (bit_out_func (usbblaster_bits h U) p c) = APP_ERR_NONE \<and>
    blaster_ready atck atms answers (snd (bit_out_func (usbblaster_bits h U) p c)) \<and>
    adev (usb_side (snd (bit_out_func (usbblaster_bits h U) p c))) =
      dstep (no_trst (packet_pin p)) (adev (usb_side c))"
proof -
  let ?d = "packet_data p" and ?x = "USBBLASTER_CMD_OE OR USBBLASTER_CMD_nCS"
  have x: "\<not> bit ?x 7" "\<not> bit ?x 6" "\<not> bit ?x 0" "\<not> bit ?x (Suc 0)" "\<not> bit ?x 4"
    by (simp_all add: const_simps bit_simps)
  have "no_trst (packet_pin p) = Pin (bit ?d 3) (bit ?d 2) False"
    by (simp add: packet_data_pin [symmetric] data_pin_def no_trst_def)
  then show ?thesis
    using assms x packet_data_low [of p]
    by (simp add: usbblaster_bits_def bitbang_knot cable_common_write_bit_def Let_def out_put blaster_ready_def
        cmd_bits or_tck_bits lines_dev lines_pins lines_quiet)
qed

lemma bits_inout:
  assumes "blaster_ready atck atms answers c"
  shows "fst (bit_inout_func (usbblaster_bits h U) p c) = (APP_ERR_NONE, of_bool (dtdo (adev (usb_side c)))) \<and>
    blaster_ready atck atms answers (snd (bit_inout_func (usbblaster_bits h U) p c)) \<and>
    adev (usb_side (snd (bit_inout_func (usbblaster_bits h U) p c))) =
      dstep (no_trst (packet_pin p)) (adev (usb_side c))"
proof -
  let ?d = "packet_data p" and ?x = "USBBLASTER_CMD_OE OR USBBLASTER_CMD_nCS"
  let ?c = "c\<lparr>clock_is_high := False, usb_side := put [usbblaster_cmd ?x ?d] (usb_side c)\<rparr>"
  have x: "\<not> bit ?x 7" "\<not> bit ?x 6" "\<not> bit ?x 0" "\<not> bit ?x (Suc 0)" "\<not> bit ?x 4"
    by (simp_all add: const_simps bit_simps)
  have c: "h_device ?c" "answers (usb_side ?c) = []" "\<not> atck (usb_side ?c)" "adev (usb_side ?c) = adev (usb_side c)"
    using assms x packet_data_low [of p]
    by (simp_all add: blaster_ready_def cmd_bits lines_dev lines_pins lines_quiet)
  obtain u where u: "cable_usbblaster_inout h U (?d OR TCLK_BIT) ?c =
      ((APP_ERR_NONE, of_bool (dtdo (adev (usb_side ?c)))), ?c\<lparr>clock_is_high := True, usb_side := u\<rparr>)"
      "answers u = []" "adev u = dstep (Pin (bit ?d 3) (bit ?d 2) False) (adev (usb_side ?c))"
    using inout_put [OF c(1-3), of h "?d OR TCLK_BIT"] by (auto simp: or_tck_bits)
  have "no_trst (packet_pin p) = Pin (bit ?d 3) (bit ?d 2) False"
    by (simp add: packet_data_pin [symmetric] data_pin_def no_trst_def)
  then show ?thesis
    using assms u c packet_data_low [of p]
    by (simp add: usbblaster_bits_def bitbang_knot cable_common_read_write_bit_def Let_def out_put blaster_ready_def)
qed

end

sublocale libusb_adapter \<subseteq> bits: bit_cable h "usbblaster_bits h U" "\<lambda>c. adev (usb_side c)"
    "\<lambda>p. dstep (no_trst p)" dtdo "blaster_ready atck atms answers" for h
  by unfold_locales (simp_all add: bits_out bits_inout)


definition blaster_shifting :: "('u \<Rightarrow> bool) \<Rightarrow> ('u \<Rightarrow> bool) \<Rightarrow> ('u \<Rightarrow> u8 list) \<Rightarrow> 'u usbblaster \<Rightarrow> bool" where
  "blaster_shifting tck tms ans c \<longleftrightarrow> h_device c \<and> ans (usb_side c) = [] \<and> \<not> tck (usb_side c) \<and> \<not> tms (usb_side c)"

lemma shifting_ready: "blaster_shifting tck tms ans c \<Longrightarrow> blaster_ready tck tms ans (c\<lparr>clock_is_high := b\<rparr>)"
  by (simp add: blaster_shifting_def blaster_ready_def)

context libusb_adapter
begin

lemma send_put: "length bs \<le> 64 \<Longrightarrow> usbblaster_send U bs c = (True, c\<lparr>usb_side := put bs (usb_side c)\<rparr>)"
  by (simp add: usbblaster_send_def bulk_write_def on_usb_def usb_write)

lemma receive_whole:
  "length (answers (usb_side c)) = m \<Longrightarrow> 0 < m \<Longrightarrow> m \<le> USBBLASTER_MAX_READ \<Longrightarrow> lag (usb_side c) + retries < 15 \<Longrightarrow>
   \<exists>u. receive (usbblaster_fetch U) m 0 retries got ins c =
       Some (Some (or_bytes got (answers (usb_side c)) ins, got + of_nat m), c\<lparr>usb_side := u\<rparr>) \<and>
     answers u = [] \<and> adev u = adev (usb_side c) \<and> atck u = atck (usb_side c) \<and> atms u = atms (usb_side c)"
proof (induction "lag (usb_side c)" arbitrary: c retries rule: less_induct)
  case less
  have m: "unat (of_nat m + 2 :: u32) = m + 2" "(0 :: u32) < of_nat m"
    using less.prems(2,3) unat_of_nat_u32 [of "m + 2"] unat_of_nat_u32 [of m]
    by (simp_all add: USBBLASTER_MAX_READ_def word_less_nat_alt add.commute)
  show ?case
  proof (cases "lag (usb_side c) = 0")
    case True
    from usb_data [OF this, of "m + 2"] obtain x y u where
      u: "usb_bulk_read U (m + 2) (usb_side c) = (Some (x # y # take m (answers (usb_side c))), u)"
        "answers u = drop m (answers (usb_side c))" "adev u = adev (usb_side c)" "atck u = atck (usb_side c)"
        "atms u = atms (usb_side c)"
      by auto
    have f: "usbblaster_fetch U (of_nat m) c = (Some (answers (usb_side c), int m), c\<lparr>usb_side := u\<rparr>)"
      using u(1) less.prems(1) by (simp add: usbblaster_fetch_def bulk_read_def on_usb_def m(1))
    show ?thesis
      by (intro exI [of _ u], subst receive.simps) (use u less.prems(1,2) in \<open>simp add: f\<close>)
  next
    case False
    with usb_wait [of "usb_side c" "m + 2"] obtain x y u where
      u: "usb_bulk_read U (m + 2) (usb_side c) = (Some [x, y], u)" "answers u = answers (usb_side c)"
        "lag u < lag (usb_side c)" "adev u = adev (usb_side c)" "atck u = atck (usb_side c)" "atms u = atms (usb_side c)"
      by auto
    have f: "usbblaster_fetch U (of_nat m) c = (Some ([], 0), c\<lparr>usb_side := u\<rparr>)"
      using u(1) by (simp add: usbblaster_fetch_def bulk_read_def on_usb_def m(1))
    have "lag (usb_side (c\<lparr>usb_side := u\<rparr>)) < lag (usb_side c)" using u(3) by simp
    from less.hyps [OF this, of "retries + 1"] less.prems u show ?thesis
      by (subst receive.simps) (simp add: f m(2) or_bytes_def)
  qed
qed

lemma libusb_send_write:
  assumes "blaster_shifting atck atms answers c" "length bs \<le> USBBLASTER_MAX_WRITE"
  shows "\<exists>c'. usbblaster_send U ((0x80 OR (of_nat (length bs) AND 0x3F)) # bs) c = (True, c') \<and>
    blaster_shifting atck atms answers c' \<and>
    adev (usb_side c') = fold dstep (shift_pins False bs) (adev (usb_side c))"
proof -
  let ?b = "0x80 OR (of_nat (length bs) AND 0x3F) :: u8"
  have l: "length bs \<le> 63" using assms(2) by (simp add: USBBLASTER_MAX_WRITE_def)
  note b = header_bits [OF l]
  show ?thesis
    using assms(1) l shift_dev [OF b(3,1), of "usb_side c"] shift_lines [OF b(3,1), of "usb_side c"]
      shift_answers [OF b(3,1), of "usb_side c"]
    by (simp add: send_put blaster_shifting_def b(4))
qed

lemma libusb_send_read:
  assumes "blaster_shifting atck atms answers c" "0 < length bs" "length bs \<le> USBBLASTER_MAX_READ"
  shows "\<exists>c1 c'. usbblaster_send U ((0xC0 OR (of_nat (length bs) AND 0x3F)) # bs) c = (True, c1) \<and>
    receive (usbblaster_fetch U) (length bs) 0 0 got ins c1 = Some (Some (or_bytes got (bits_bytes
      (tdo_run dstep dtdo (shift_pins False bs) (adev (usb_side c)))) ins, got + of_nat (length bs)), c') \<and>
    blaster_shifting atck atms answers c' \<and>
    adev (usb_side c') = fold dstep (shift_pins False bs) (adev (usb_side c))"
proof -
  let ?b = "0xC0 OR (of_nat (length bs) AND 0x3F) :: u8"
  let ?u = "put (?b # bs) (usb_side c)"
  let ?as = "bits_bytes (tdo_run dstep dtdo (shift_pins False bs) (adev (usb_side c)))"
  have l: "length bs \<le> 63" using assms(3) by (simp add: USBBLASTER_MAX_READ_def)
  note b = header_bits [OF l]
  have u: "answers ?u = ?as" "adev ?u = fold dstep (shift_pins False bs) (adev (usb_side c))"
      "\<not> atck ?u" "\<not> atms ?u"
    using assms(1) shift_dev [OF b(5,2), of "usb_side c"] shift_lines [OF b(5,2), of "usb_side c"]
      shift_answers [OF b(5,2), of "usb_side c"]
    by (simp_all add: blaster_shifting_def b(6))
  let ?c1 = "c\<lparr>usb_side := ?u\<rparr>"
  have "length (answers (usb_side ?c1)) = length bs" "lag (usb_side ?c1) + 0 < 15"
    using usb_lag by (simp_all add: u(1))
  from receive_whole [OF this(1) assms(2,3) this(2), of got ins] obtain u' where
    u': "receive (usbblaster_fetch U) (length bs) 0 0 got ins ?c1 =
        Some (Some (or_bytes got ?as ins, got + of_nat (length bs)), ?c1\<lparr>usb_side := u'\<rparr>)"
      "answers u' = []" "adev u' = adev ?u" "atck u' = atck ?u" "atms u' = atms ?u"
    by (auto simp: u(1))
  show ?thesis
    by (rule exI [of _ ?c1], rule exI [of _ "?c1\<lparr>usb_side := u'\<rparr>"])
      (use l u u' assms(1) in \<open>simp add: send_put blaster_shifting_def\<close>)
qed


text \<open>Lowering the clock makes the adapter ready to shift.\<close>

lemma lower_clock:
  assumes "blaster_ready atck atms answers c"
  obtains c1 where "(if clock_is_high c then cable_usbblaster_out U 0 c else (APP_ERR_NONE, c)) = (APP_ERR_NONE, c1)"
    and "blaster_shifting atck atms answers c1" and "adev (usb_side c1) = adev (usb_side c)"
proof (cases "clock_is_high c")
  case True
  let ?x = "USBBLASTER_CMD_OE OR USBBLASTER_CMD_nCS"
  have x: "\<not> bit ?x 7" "\<not> bit ?x 6" "\<not> bit ?x 0" "\<not> bit ?x (Suc 0)" "\<not> bit ?x 4"
    by (simp_all add: const_simps bit_simps)
  show thesis
    by (rule that [of "snd (cable_usbblaster_out U 0 c)"])
      (use assms True x in \<open>simp_all add: out_put blaster_ready_def blaster_shifting_def cmd_bits lines_dev
        lines_pins lines_quiet\<close>)
next
  case False
  with assms show thesis
    by (intro that [of c]) (simp_all add: blaster_ready_def blaster_shifting_def)
qed

end

sublocale libusb_adapter \<subseteq> shifter: byte_shifter "usbblaster_send U" "usbblaster_fetch U"
    "blaster_shifting atck atms answers" "\<lambda>c. adev (usb_side c)" dstep dtdo
  by unfold_locales (rule libusb_send_write libusb_send_read; assumption)+

text \<open>The driver is a fast driver.\<close>

sublocale libusb_adapter \<subseteq> fast: fast_driver h "usbblaster_burst h U" "\<lambda>c. adev (usb_side c)" dstep dtdo
    "blaster_ready atck atms answers" "blaster_shifting atck atms answers" for h
proof -
  have b: "bit_cable (bit_driver (usbblaster_burst h U)) (\<lambda>c. adev (usb_side c)) (\<lambda>p. dstep (no_trst p)) dtdo
      (blaster_ready atck atms answers)"
    unfolding usbblaster_burst_def burst_driver.simps by (rule bits.bit_cable_axioms)
  have s: "byte_shifter (send_packet (usbblaster_burst h U)) (fetch_bytes (usbblaster_burst h U))
      (blaster_shifting atck atms answers) (\<lambda>c. adev (usb_side c)) dstep dtdo"
    unfolding usbblaster_burst_def burst_driver.simps by (rule shifter.byte_shifter_axioms)
  show "fast_driver (usbblaster_burst h U) (\<lambda>c. adev (usb_side c)) dstep dtdo
      (blaster_ready atck atms answers) (blaster_shifting atck atms answers)"
  proof (intro fast_driver.intro b s fast_driver_axioms.intro)
    fix c assume "blaster_ready atck atms answers c"
    then obtain c1 where
      "(if clock_is_high c then cable_usbblaster_out U 0 c else (APP_ERR_NONE, c)) = (APP_ERR_NONE, c1)"
      "blaster_shifting atck atms answers c1" "adev (usb_side c1) = adev (usb_side c)"
      by (rule lower_clock)
    then show "\<exists>c1. clock_down (usbblaster_burst h U) c = (APP_ERR_NONE, c1) \<and> blaster_shifting atck atms answers c1 \<and>
        adev (usb_side c1) = adev (usb_side c)"
      unfolding usbblaster_burst_def burst_driver.simps by blast
  next
    fix c assume "blaster_shifting atck atms answers c"
    then show "reopen (usbblaster_burst h U) c = (APP_ERR_NONE, c)"
      and "blaster_ready atck atms answers (burst_done (usbblaster_burst h U) c) \<and>
        adev (usb_side (burst_done (usbblaster_burst h U) c)) = adev (usb_side c)"
      by (simp_all add: usbblaster_burst_def open_if_necessary_def shifting_ready)
        (simp_all add: blaster_shifting_def open_if_necessary_def)
  qed
qed

section \<open>An adapter\<close>

text \<open>An adapter that follows the protocol, with a device behind it; it delivers an answer after \<open>n\<close>
  reads without data. A burst that begins with the clock high loses the edge of its first bit.\<close>

record 'd adapter =
  adapter_dev :: 'd
  adapter_tck :: bool
  adapter_tms :: bool
  adapter_answers :: "u8 list"
  adapter_lag :: nat

definition adapter_lines :: "(pin \<Rightarrow> 'd \<Rightarrow> 'd) \<Rightarrow> ('d \<Rightarrow> bool) \<Rightarrow> u8 \<Rightarrow> 'd adapter \<Rightarrow> 'd adapter" where
  "adapter_lines dstep dtdo b a = a\<lparr>
     adapter_dev := (if bit b 0 \<and> \<not> adapter_tck a then dstep (Pin (bit b 1) (bit b 4) False) (adapter_dev a)
                     else adapter_dev a),
     adapter_tck := bit b 0, adapter_tms := bit b 1,
     adapter_answers := adapter_answers a @ (if bit b 6 then [of_bool (dtdo (adapter_dev a))] else [])\<rparr>"

definition adapter_shift :: "(pin \<Rightarrow> 'd \<Rightarrow> 'd) \<Rightarrow> ('d \<Rightarrow> bool) \<Rightarrow> bool \<Rightarrow> u8 list \<Rightarrow> 'd adapter \<Rightarrow> 'd adapter" where
  "adapter_shift dstep dtdo want bs a =
     (let pins = shift_pins (adapter_tms a) bs; pins = (if adapter_tck a then drop 1 pins else pins)
      in a\<lparr>adapter_dev := fold dstep pins (adapter_dev a), adapter_tck := False,
           adapter_answers := adapter_answers a @
             (if want then bits_bytes (tdo_run dstep dtdo pins (adapter_dev a)) else [])\<rparr>)"

definition adapter_put :: "nat \<Rightarrow> (pin \<Rightarrow> 'd \<Rightarrow> 'd) \<Rightarrow> ('d \<Rightarrow> bool) \<Rightarrow> u8 list \<Rightarrow> 'd adapter \<Rightarrow> 'd adapter" where
  "adapter_put n dstep dtdo packet a =
     (case packet of [] \<Rightarrow> a
      | b # bs \<Rightarrow> if bit b 7 then adapter_shift dstep dtdo (bit b 6) (take (unat (b AND 0x3F)) bs) a
                  else fold (adapter_lines dstep dtdo) packet a)\<lparr>adapter_lag := n\<rparr>"

definition adapter_get :: "nat \<Rightarrow> 'd adapter \<Rightarrow> u8 list option \<times> 'd adapter" where
  "adapter_get n a =
     (if adapter_lag a > 0 then (Some (take n [0x31, 0x60]), a\<lparr>adapter_lag := adapter_lag a - 1\<rparr>)
      else (Some (take n (0x31 # 0x60 # adapter_answers a)),
            a\<lparr>adapter_answers := drop (n - 2) (adapter_answers a)\<rparr>))"

definition adapter_usb :: "nat \<Rightarrow> (pin \<Rightarrow> 'd \<Rightarrow> 'd) \<Rightarrow> ('d \<Rightarrow> bool) \<Rightarrow> 'd adapter usb" where
  "adapter_usb n dstep dtdo =
     \<lparr>usb_find_device = \<lambda>_ _ a. (True, a), usb_open = \<lambda>a. (True, a), usb_reset = \<lambda>a. a, usb_close = \<lambda>a. a,
      usb_set_configuration = \<lambda>a. (0, a), usb_claim_interface = \<lambda>a. (0, a), usb_release_interface = \<lambda>a. a,
      usb_start_interface = \<lambda>a. a, usb_firmware_version = \<lambda>a. (True, a),
      usb_bulk_write = \<lambda>bs a. (int (length bs), adapter_put n dstep dtdo bs a),
      usb_bulk_read = adapter_get, timer_checks = 2\<rparr>"

lemma adapter_blaster:
  "n < 15 \<Longrightarrow> libusb_adapter adapter_dev adapter_tck adapter_tms adapter_answers (adapter_put n dstep dtdo) dstep dtdo
     (adapter_usb n dstep dtdo) adapter_lag"
  by unfold_locales
    (auto simp: adapter_put_def adapter_lines_def adapter_shift_def adapter_usb_def adapter_get_def Let_def
      take_Cons' numeral_2_eq_2 split: list.splits)

interpretation blaster: libusb_adapter adapter_dev adapter_tck adapter_tms adapter_answers "adapter_put 3 dstep dtdo"
    dstep dtdo "adapter_usb 3 dstep dtdo" adapter_lag for dstep dtdo
  by (rule adapter_blaster) simp

section \<open>What the driver does\<close>

definition usbblaster_on :: "'u \<Rightarrow> 'u usbblaster" where
  "usbblaster_on u = \<lparr>h_device = True, clock_is_high = True, altera_vid = 0x09FB, altera_pid = 0x6001, usb_side = u\<rparr>"

definition adapter_on :: "'d \<Rightarrow> 'd adapter" where
  "adapter_on d = \<lparr>adapter_dev = d, adapter_tck = False, adapter_tms = False, adapter_answers = [], adapter_lag = 0\<rparr>"

lemma adapter_on_ready: "blaster_ready adapter_tck adapter_tms adapter_answers (usbblaster_on (adapter_on d))"
  by (simp add: blaster_ready_def usbblaster_on_def adapter_on_def)

context libusb_adapter
begin

lemma short_streams:
  assumes "blaster_ready atck atms answers c" "0 < n" "n \<le> 32 * length ws" "n < 2 ^ 31"
  shows "(\<exists>c'. cable_usbblaster_write_stream h U ws (int n) l c = (APP_ERR_NONE, c') \<and>
      blaster_ready atck atms answers c' \<and>
      adev (usb_side c') = fold dstep (stream_pins ws n l) (adev (usb_side c))) \<and>
    (n < 504 \<longrightarrow> (\<exists>c'. cable_usbblaster_read_stream h U ws (int n) l c =
        Some ((APP_ERR_NONE, bits_to_words (tdo_run dstep dtdo (stream_pins ws n l) (adev (usb_side c)))), c') \<and>
      blaster_ready atck atms answers c' \<and>
      adev (usb_side c') = fold dstep (stream_pins ws n l) (adev (usb_side c))))"
  unfolding cable_usbblaster_write_stream_def cable_usbblaster_read_stream_def
  by (intro conjI impI fast.write_stream fast.read_stream) (use assms in simp_all)

lemma long_read:
  assumes "blaster_ready atck atms answers c" "513 \<le> n" "n \<le> 32 * length ws" "n < 8192"
  shows "\<exists>ins c'. cable_usbblaster_read_stream h U ws (int n) l c = Some ((APP_ERR_NONE, ins), c') \<and>
    length ins = (n + 31) div 32 \<and> (\<forall>k \<ge> 16. \<not> bit (ins ! 15) k) \<and> blaster_ready atck atms answers c' \<and>
    adev (usb_side c') = fold dstep (stream_pins ws n l) (adev (usb_side c))"
  unfolding cable_usbblaster_read_stream_def by (rule fast.read_stream_long) (use assms in simp_all)

end

text \<open>C4: on an adapter that follows the protocol, a write of any length in
  byte-shift mode clocks the device once per bit with TDI from the stream and TMS with the last
  bit, exactly as the bit-bang functions would, and leaves the driver ready for the next call. A
  read of fewer than 504 bits does the same and returns the TDO values before these clocks. No
  such thing holds of longer reads: they lose bits, as \<open>usbblaster_long_read\<close> shows below.\<close>

theorem usbblaster_streams:
  assumes "libusb_adapter adev atck atms answers put dstep dtdo U lag"
    and "blaster_ready atck atms answers c" and "0 < n" "n \<le> 32 * length ws" "n < 2 ^ 31"
  shows "(\<exists>c'. cable_usbblaster_write_stream h U ws (int n) l c = (APP_ERR_NONE, c') \<and>
      blaster_ready atck atms answers c' \<and>
      adev (usb_side c') = fold dstep (stream_pins ws n l) (adev (usb_side c))) \<and>
    (n < 504 \<longrightarrow> (\<exists>c'. cable_usbblaster_read_stream h U ws (int n) l c =
        Some ((APP_ERR_NONE, bits_to_words (tdo_run dstep dtdo (stream_pins ws n l) (adev (usb_side c)))), c') \<and>
      blaster_ready atck atms answers c' \<and>
      adev (usb_side c') = fold dstep (stream_pins ws n l) (adev (usb_side c))))"
  using assms(2-5) by (rule libusb_adapter.short_streams [OF assms(1)])

text \<open>A device that passes TDI on after two clocks.\<close>

theorem usbblaster_streams_witness:
  "\<exists>c'. cable_usbblaster_read_stream x86_64 (adapter_usb 3 (\<lambda>p d. tl d @ [pin_tdi p]) hd) [0xBEEF1234, 0x5] 35 True
      (usbblaster_on (adapter_on [True, False])) = Some ((APP_ERR_NONE, [0xFBBC48D1, 0x6]), c')"
proof -
  let ?step = "\<lambda>p d. tl d @ [pin_tdi p]"
  have "bits_to_words (tdo_run ?step hd (stream_pins [0xBEEF1234, 0x5] 35 True) [True, False]) = [0xFBBC48D1, 0x6]"
    by code_simp
  then show ?thesis
    using usbblaster_streams [where n = 35 and ws = "[0xBEEF1234, 0x5]" and h = x86_64 and l = True,
      OF blaster.libusb_adapter_axioms [where dstep = ?step and dtdo = hd] adapter_on_ready [of "[True, False]"]]
    by (auto simp: usbblaster_on_def adapter_on_def)
qed

text \<open>of a read of 513 bits or more, below 8192, bits 496 to 511 are always 0,
  whatever the device sends, although the call reports success and has clocked the device as it
  should. The first two bytes of the second packet are stored where the last two bytes of the first
  one are.\<close>

theorem usbblaster_long_read:
  assumes "libusb_adapter adev atck atms answers put dstep dtdo U lag"
    and "blaster_ready atck atms answers c" and "513 \<le> n" "n \<le> 32 * length ws" "n < 8192"
  shows "\<exists>ins c'. cable_usbblaster_read_stream h U ws (int n) l c = Some ((APP_ERR_NONE, ins), c') \<and>
    length ins = (n + 31) div 32 \<and> (\<forall>k \<ge> 16. \<not> bit (ins ! 15) k) \<and> blaster_ready atck atms answers c' \<and>
    adev (usb_side c') = fold dstep (stream_pins ws n l) (adev (usb_side c))"
  using assms(2-5) by (rule libusb_adapter.long_read [OF assms(1)])

text \<open>A device whose TDO is always high.\<close>

theorem usbblaster_long_read_witness:
  "\<exists>ins c'. cable_usbblaster_read_stream x86_64 (adapter_usb 3 (\<lambda>_ d. d) (\<lambda>_. True)) (replicate 17 0) 520 True
      (usbblaster_on (adapter_on ())) = Some ((APP_ERR_NONE, ins), c') \<and> \<not> bit (ins ! 15) 16"
  using usbblaster_long_read [where n = 520 and ws = "replicate 17 0" and h = x86_64 and l = True,
    OF blaster.libusb_adapter_axioms [where dstep = "\<lambda>_ d. d" and dtdo = "\<lambda>_. True"] adapter_on_ready [of "()"]]
  by fastforce

end
