(* ===== verification/Cable_Ft245.thy ===== *)
theory Cable_Ft245
  imports Cable_Usbblaster
begin

text \<open>
  The driver for the USB Blaster over libftdi (\<^verbatim>\<open>cable_ft245.c\<close>). The library is the record \<open>ftdi\<close>; it
  takes the status bytes out of what is read. The streams are those of a fast driver, and the
  record of the driver has the streams of the cable layer as an alternative: they agree.
\<close>

section \<open>The driver\<close>





















section \<open>The library\<close>









section \<open>An adapter\<close>





section \<open>The alternatives\<close>




end
