(* ===== verification/Cable_Sim.thy ===== *)
theory Cable_Sim
  imports Cable_Parallel C_Scan
begin

text \<open>
  The drivers for simulators (\<^verbatim>\<open>cable_sim.c\<close>): \<open>vpi\<close> talks to a module inside the simulator over a
  socket, \<open>rtl_sim\<close> exchanges two files with a test bench. Both wait for answers without a limit, so
  a call need not come back.

  The locale \<open>vpi_peer\<close> is the protocol of the socket: an acknowledgement for every value of the
  pins, the value of TDO for 0x80, and some byte for 0x81 once a while has passed. With such a
  peer the driver is a cable.
\<close>

section \<open>Calls that may not come back\<close>

text \<open>A driver whose state is None hangs in a call; nothing happens any more.\<close>

definition strict :: "'r \<Rightarrow> ('c \<Rightarrow> ('r \<times> 'c) option) \<Rightarrow> 'c option \<Rightarrow> 'r \<times> 'c option" where
  "strict r f c = (case Option.bind c f of None \<Rightarrow> (r, None) | Some (r, c) \<Rightarrow> (r, Some c))"

lemma strict_Some [simp]: "f c = Some (r, c') \<Longrightarrow> strict r' f (Some c) = (r, Some c')"
  by (simp add: strict_def)

lemma strict_None [simp]: "strict r f None = (r, None)" "f c = None \<Longrightarrow> strict r f (Some c) = (r, None)"
  by (simp_all add: strict_def)

section \<open>The VPI driver\<close>

datatype peer_answer = Peer_Error | Peer_End | Peer_Byte u8

record 'u socket =
  sock_connect :: "string \<Rightarrow> u16 \<Rightarrow> 'u \<Rightarrow> bool \<times> 'u"
  sock_send :: "u8 \<Rightarrow> 'u \<Rightarrow> 'u"
  sock_recv :: "'u \<Rightarrow> (peer_answer \<times> 'u) option"

record 'u vpi =
  vpi_port :: int
  vpi_server :: string
  vpi_comm :: 'u

definition vpi_defaults :: "'u \<Rightarrow> 'u vpi" where
  "vpi_defaults u = \<lparr>vpi_port = 4567, vpi_server = ''localhost'', vpi_comm = u\<rparr>"

definition vpi_send :: "'u socket \<Rightarrow> u8 \<Rightarrow> 'u vpi \<Rightarrow> 'u vpi" where
  "vpi_send N b c = c\<lparr>vpi_comm := sock_send N b (vpi_comm c)\<rparr>"

definition vpi_recv :: "'u socket \<Rightarrow> 'u vpi \<Rightarrow> (peer_answer \<times> 'u vpi) option" where
  "vpi_recv N c = map_option (\<lambda>(r, u). (r, c\<lparr>vpi_comm := u\<rparr>)) (sock_recv N (vpi_comm c))"

text \<open>Whether the socket, the name or the connection fails, the result is the same.\<close>

definition cable_vpi_init :: "'u socket \<Rightarrow> 'u vpi \<Rightarrow> (u32 \<times> 'u vpi) option" where
  "cable_vpi_init N c =
     (let (ok, u) = sock_connect N (vpi_server c) (word_of_int (vpi_port c)) (vpi_comm c)
      in Some (if ok then APP_ERR_NONE else APP_ERR_CONNECT, c\<lparr>vpi_comm := u\<rparr>))"

text \<open>A wrong answer, an error and the end of the connection are only reported.\<close>

definition cable_vpi_wait :: "'u socket \<Rightarrow> 'u vpi \<Rightarrow> 'u vpi option" where
  "cable_vpi_wait N c = map_option snd (vpi_recv N (vpi_send N 0x81 c))"

text \<open>At the end of the connection \<open>recv\<close> leaves \<open>ack\<close> as it was.\<close>

partial_function (option) wait_ack :: "'u socket \<Rightarrow> u8 \<Rightarrow> u8 \<Rightarrow> 'u vpi \<Rightarrow> (bool \<times> 'u vpi) option" where
  "wait_ack N value ack c = do {
     (r, c) \<leftarrow> vpi_recv N c;
     if r = Peer_Error then Some (False, c)
     else let ack = (case r of Peer_Byte b \<Rightarrow> b | _ \<Rightarrow> ack)
          in if ack = value OR 0x10 then Some (True, c) else wait_ack N value ack c
   }"

definition cable_vpi_out :: "host \<Rightarrow> 'u socket \<Rightarrow> u8 \<Rightarrow> 'u vpi \<Rightarrow> (u32 \<times> 'u vpi) option" where
  "cable_vpi_out h N value c = do {
     (ok, c) \<leftarrow> wait_ack N value (stray h 0) (vpi_send N value c);
     if \<not> ok then Some (APP_ERR_CONNECT, c)
     else do { c \<leftarrow> cable_vpi_wait N c; Some (APP_ERR_NONE, c) }
   }"

text \<open>Without an answer the bit is the request itself, and the result of \<open>cable_vpi_out\<close> is dropped.\<close>

definition cable_vpi_inout :: "host \<Rightarrow> 'u socket \<Rightarrow> u8 \<Rightarrow> 'u vpi \<Rightarrow> ((u32 \<times> u8) \<times> 'u vpi) option" where
  "cable_vpi_inout h N value c = do {
     (r, c) \<leftarrow> vpi_recv N (vpi_send N 0x80 c);
     let dat = (case r of Peer_Byte b \<Rightarrow> b | _ \<Rightarrow> 0x80);
     (_, c) \<leftarrow> cable_vpi_out h N value c;
     c \<leftarrow> cable_vpi_wait N c;
     Some ((APP_ERR_NONE, dat), c)
   }"

text \<open>The program ends after an error here, so what a failing allocation leaves is not modelled.\<close>

definition cable_vpi_opt :: "host \<Rightarrow> char \<Rightarrow> string \<Rightarrow> 'u vpi \<Rightarrow> (u32 \<times> 'u vpi) option" where
  "cable_vpi_opt h o1 str c = Some
     (if o1 = CHR ''p''
      then let port = atoi h str
           in (if port = 0 then APP_ERR_BAD_PARAM else APP_ERR_NONE, c\<lparr>vpi_port := port\<rparr>)
      else if o1 = CHR ''s''
      then if malloc_ok h (int (length str + 1)) then (APP_ERR_NONE, c\<lparr>vpi_server := str\<rparr>)
           else (APP_ERR_MALLOC, c)
      else (APP_ERR_BAD_PARAM, c))"

definition vpi_help :: string where
  "vpi_help = ''-p [port] Port number that the VPI module is listening on'' @ CHR 0x0A # CHR 0x09
     # ''-s [server] Server that the VPI module is running on'' @ [CHR 0x0A]"

definition vpi_cable_driver :: "host \<Rightarrow> 'u socket \<Rightarrow> 'u vpi option jtag_cable" where
  "vpi_cable_driver h N = bitbang_cable h ''vpi''
     (\<lambda>v. strict (APP_ERR_NONE, 0) (cable_vpi_inout h N v)) (\<lambda>v. strict APP_ERR_NONE (cable_vpi_out h N v))
     (strict APP_ERR_NONE (cable_vpi_init N)) (\<lambda>o1 str. strict APP_ERR_NONE (cable_vpi_opt h o1 str))
     ''s:p:'' vpi_help"

text \<open>When the peer has closed the connection, the driver asks for ever for an acknowledgement; when
  the connection has failed, a read reports success and gives its own request as the bit.\<close>

lemma closed_peer_hangs:
  assumes "\<And>u. \<exists>u'. sock_recv N u = Some (Peer_End, u')" and "stray h 0 \<noteq> v OR 0x10"
  shows "cable_vpi_out h N v c = None"
proof -
  let ?P = "\<lambda>N' v' a c y. N' = N \<and> v' = v \<and> a \<noteq> v OR 0x10 \<longrightarrow> False"
  have "?P N v a c y" if "wait_ack N v a c = Some y" for a c y
    using that
  proof (rule wait_ack.raw_induct [where P = ?P, rotated], intro impI, goal_cases)
    case (1 wa N' v' a c y)
    obtain u' where "sock_recv N (vpi_comm c) = Some (Peer_End, u')" using assms(1) by blast
    then have "wa N v a (c\<lparr>vpi_comm := u'\<rparr>) = Some y"
      using 1(2) \<open>N' = N \<and> v' = v \<and> a \<noteq> v OR 0x10\<close> by (auto simp: vpi_recv_def)
    with 1(1) \<open>N' = N \<and> v' = v \<and> a \<noteq> v OR 0x10\<close> show ?case by blast
  qed
  with assms(2) have "wait_ack N v (stray h 0) c = None" for c
    by (metis option.exhaust)
  then show ?thesis by (simp add: cable_vpi_out_def)
qed

lemma failed_peer_unnoticed:
  assumes "\<And>u. sock_recv N u = Some (Peer_Error, u)"
  shows "\<exists>c'. cable_vpi_inout h N v c = Some ((APP_ERR_NONE, 0x80), c')"
    and "\<exists>c'. cable_vpi_out h N v c = Some (APP_ERR_CONNECT, c')"
proof -
  have w: "wait_ack N v a c = Some (False, c)" for a c
    by (subst wait_ack.simps) (simp add: vpi_recv_def assms)
  show "\<exists>c'. cable_vpi_inout h N v c = Some ((APP_ERR_NONE, 0x80), c')"
    by (simp add: cable_vpi_inout_def cable_vpi_out_def cable_vpi_wait_def vpi_recv_def assms w)
  show "\<exists>c'. cable_vpi_out h N v c = Some (APP_ERR_CONNECT, c')"
    by (simp add: cable_vpi_out_def w)
qed

section \<open>The driver for a test bench\<close>

text \<open>\<open>put_file\<close> replaces the contents of a file, and tells whether it could be opened; \<open>get_file\<close>
  reads one. Time passes between the calls.\<close>

record 'u files =
  put_file :: "string \<Rightarrow> string \<Rightarrow> 'u \<Rightarrow> bool \<times> 'u"
  get_file :: "string \<Rightarrow> 'u \<Rightarrow> string option \<times> 'u"

record 'u rtl =
  gdb_in :: string
  gdb_out :: string
  rtl_side :: 'u

definition rtl_defaults :: "'u \<Rightarrow> 'u rtl" where
  "rtl_defaults u = \<lparr>gdb_in = ''gdb_in.dat'', gdb_out = ''gdb_out.dat'', rtl_side = u\<rparr>"

definition rtl_put :: "'u files \<Rightarrow> string \<Rightarrow> string \<Rightarrow> 'u rtl \<Rightarrow> bool \<times> 'u rtl" where
  "rtl_put F path contents c = (let (ok, u) = put_file F path contents (rtl_side c) in (ok, c\<lparr>rtl_side := u\<rparr>))"

definition rtl_get :: "'u files \<Rightarrow> string \<Rightarrow> 'u rtl \<Rightarrow> string option \<times> 'u rtl" where
  "rtl_get F path c = (let (r, u) = get_file F path (rtl_side c) in (r, c\<lparr>rtl_side := u\<rparr>))"

definition cable_rtl_sim_init :: "'u files \<Rightarrow> 'u rtl \<Rightarrow> (u32 \<times> 'u rtl) option" where
  "cable_rtl_sim_init F c =
     (let (ok, c) = rtl_put F (gdb_in c) [] c in Some (if ok then APP_ERR_NONE else APP_ERR_INIT_FAILED, c))"

definition hex_upper :: "nat \<Rightarrow> char" where
  "hex_upper n = (if n < 10 then char_of (48 + n) else char_of (55 + n))"

text \<open>A file that cannot be opened gives a null pointer, which is used: None. At the end of an empty
  file \<open>fscanf\<close> returns \<open>EOF\<close> and leaves \<open>num_read\<close> alone.\<close>

partial_function (option) wait_file :: "'u files \<Rightarrow> u8 \<Rightarrow> u32 \<Rightarrow> 'u rtl \<Rightarrow> 'u rtl option" where
  "wait_file F value num_read c =
     (let (r, c) = rtl_get F (gdb_out c) c
      in do {
           text \<leftarrow> r;
           let matched = map_option (\<lambda>(n, _). ucast n :: u32) (scan_hex None (asc text));
           let num_read = (case matched of Some n \<Rightarrow> n | None \<Rightarrow> num_read);
           let again = (matched = None \<and> dropWhile is_space (asc text) \<noteq> [] \<or> num_read \<noteq> ucast (0x10 OR value));
           if again then wait_file F value num_read c else Some c
         })"

definition cable_rtl_sim_out :: "host \<Rightarrow> 'u files \<Rightarrow> u8 \<Rightarrow> 'u rtl \<Rightarrow> (u32 \<times> 'u rtl) option" where
  "cable_rtl_sim_out h F value c =
     (let (ok1, c) = rtl_put F (gdb_in c) [CHR ''F'', CHR 0x0A] c
      in if \<not> ok1 then None
         else let (ok2, c) = rtl_put F (gdb_out c)
                     [hex_upper (unat value div 16), hex_upper (unat value mod 16), CHR 0x0A] c
              in if \<not> ok2 then None
                 else do {
                   c \<leftarrow> wait_file F value (rd (bytes_to_words (map (stray h) [0..<4])) 0) c;
                   Some (APP_ERR_NONE, c)
                 })"

partial_function (option) wait_bit :: "'u files \<Rightarrow> 'u rtl \<Rightarrow> (bool \<times> 'u rtl) option" where
  "wait_bit F c =
     (let (r, c) = rtl_get F (gdb_in c) c
      in case r of
           Some (ch # _) \<Rightarrow> if ch = CHR ''0'' then Some (False, c) else if ch = CHR ''1'' then Some (True, c)
                            else wait_bit F c
         | _ \<Rightarrow> wait_bit F c)"

definition cable_rtl_sim_inout :: "host \<Rightarrow> 'u files \<Rightarrow> u8 \<Rightarrow> 'u rtl \<Rightarrow> ((u32 \<times> u8) \<times> 'u rtl) option" where
  "cable_rtl_sim_inout h F value c = do {
     (b, c) \<leftarrow> wait_bit F c;
     (_, c) \<leftarrow> cable_rtl_sim_out h F value c;
     Some ((APP_ERR_NONE, of_bool b), c)
   }"

definition cable_rtl_sim_opt :: "host \<Rightarrow> char \<Rightarrow> string \<Rightarrow> 'u rtl \<Rightarrow> (u32 \<times> 'u rtl) option" where
  "cable_rtl_sim_opt h o1 str c =
     (if o1 = CHR ''d''
      then if malloc_ok h (int (length str + 12)) \<and> malloc_ok h (int (length str + 13))
           then Some (APP_ERR_NONE, c\<lparr>gdb_in := str @ ''/gdb_in.dat'', gdb_out := str @ ''/gdb_out.dat''\<rparr>)
           else Some (APP_ERR_MALLOC, c)
      else Some (APP_ERR_BAD_PARAM, c))"

definition rtl_help :: string where
  "rtl_help = ''-d [directory] Directory in which gdb_in.dat/gdb_out.dat may be found'' @ [CHR 0x0A]"

definition rtl_cable_driver :: "host \<Rightarrow> 'u files \<Rightarrow> 'u rtl option jtag_cable" where
  "rtl_cable_driver h F = bitbang_cable h ''rtl_sim''
     (\<lambda>v. strict (APP_ERR_NONE, 0) (cable_rtl_sim_inout h F v))
     (\<lambda>v. strict APP_ERR_NONE (cable_rtl_sim_out h F v)) (strict APP_ERR_NONE (cable_rtl_sim_init F))
     (\<lambda>o1 str. strict APP_ERR_NONE (cable_rtl_sim_opt h o1 str)) ''d:'' rtl_help"

section \<open>The protocol of the socket\<close>

text \<open>\<open>idle\<close>: no answer is on its way; \<open>started\<close>: the lines have been set before, so that the peer
  measures the time since.\<close>

locale vpi_peer =
  fixes N :: "'u socket"
    and pdev :: "'u \<Rightarrow> 'd"
    and ptck :: "'u \<Rightarrow> bool"
    and idle started :: "'u \<Rightarrow> bool"
    and dstep :: "pin \<Rightarrow> 'd \<Rightarrow> 'd"
    and dtdo :: "'d \<Rightarrow> bool"
  assumes set_lines: "idle u \<Longrightarrow> \<not> bit v 7 \<Longrightarrow>
       \<exists>u'. sock_recv N (sock_send N v u) = Some (Peer_Byte (v OR 0x10), u') \<and> idle u' \<and> started u' \<and>
         ptck u' = bit v 0 \<and> pdev u' = (if bit v 0 \<and> \<not> ptck u then dstep (data_pin v) (pdev u) else pdev u)"
    and wait_time: "idle u \<Longrightarrow> started u \<Longrightarrow>
       \<exists>b u'. sock_recv N (sock_send N 0x81 u) = Some (Peer_Byte b, u') \<and> idle u' \<and> started u' \<and>
         ptck u' = ptck u \<and> pdev u' = pdev u"
    and ask_tdo: "idle u \<Longrightarrow>
       \<exists>u'. sock_recv N (sock_send N 0x80 u) = Some (Peer_Byte (of_bool (dtdo (pdev u))), u') \<and> idle u' \<and>
         ptck u' = ptck u \<and> pdev u' = pdev u"
begin

lemma vpi_wait:
  assumes "idle (vpi_comm c)" "started (vpi_comm c)"
  shows "\<exists>u. cable_vpi_wait N c = Some (c\<lparr>vpi_comm := u\<rparr>) \<and> idle u \<and> started u \<and>
    ptck u = ptck (vpi_comm c) \<and> pdev u = pdev (vpi_comm c)"
  using wait_time [OF assms] by (auto simp: cable_vpi_wait_def vpi_send_def vpi_recv_def)

lemma vpi_out:
  assumes "idle (vpi_comm c)" "\<not> bit v 7"
  shows "\<exists>u. cable_vpi_out h N v c = Some (APP_ERR_NONE, c\<lparr>vpi_comm := u\<rparr>) \<and> idle u \<and> started u \<and>
    ptck u = bit v 0 \<and> pdev u = (if bit v 0 \<and> \<not> ptck (vpi_comm c) then dstep (data_pin v) (pdev (vpi_comm c))
      else pdev (vpi_comm c))"
proof -
  obtain u1 where u1: "sock_recv N (sock_send N v (vpi_comm c)) = Some (Peer_Byte (v OR 0x10), u1)"
      "idle u1" "started u1" "ptck u1 = bit v 0"
      "pdev u1 = (if bit v 0 \<and> \<not> ptck (vpi_comm c) then dstep (data_pin v) (pdev (vpi_comm c)) else pdev (vpi_comm c))"
    using set_lines [OF assms] by blast
  have "wait_ack N v a (vpi_send N v c) = Some (True, c\<lparr>vpi_comm := u1\<rparr>)" for a
    by (subst wait_ack.simps) (simp add: vpi_recv_def vpi_send_def u1(1))
  with u1 vpi_wait [of "c\<lparr>vpi_comm := u1\<rparr>"] show ?thesis
    by (auto simp: cable_vpi_out_def)
qed

lemma vpi_inout:
  assumes "idle (vpi_comm c)" "\<not> bit v 7"
  shows "\<exists>u. cable_vpi_inout h N v c =
      Some ((APP_ERR_NONE, of_bool (dtdo (pdev (vpi_comm c)))), c\<lparr>vpi_comm := u\<rparr>) \<and> idle u \<and> ptck u = bit v 0 \<and>
    pdev u = (if bit v 0 \<and> \<not> ptck (vpi_comm c) then dstep (data_pin v) (pdev (vpi_comm c)) else pdev (vpi_comm c))"
proof -
  obtain u1 where u1: "sock_recv N (sock_send N 0x80 (vpi_comm c)) = Some (Peer_Byte (of_bool (dtdo (pdev (vpi_comm c)))), u1)"
      "idle u1" "ptck u1 = ptck (vpi_comm c)" "pdev u1 = pdev (vpi_comm c)"
    using ask_tdo [OF assms(1)] by blast
  obtain u2 where u2: "cable_vpi_out h N v (c\<lparr>vpi_comm := u1\<rparr>) = Some (APP_ERR_NONE, c\<lparr>vpi_comm := u2\<rparr>)"
      "idle u2" "started u2" "ptck u2 = bit v 0"
      "pdev u2 = (if bit v 0 \<and> \<not> ptck (vpi_comm c) then dstep (data_pin v) (pdev (vpi_comm c)) else pdev (vpi_comm c))"
    using vpi_out [of "c\<lparr>vpi_comm := u1\<rparr>" v h] assms(2) u1 by auto
  have "vpi_recv N (vpi_send N 0x80 c) = Some (Peer_Byte (of_bool (dtdo (pdev (vpi_comm c)))), c\<lparr>vpi_comm := u1\<rparr>)"
    by (simp add: vpi_recv_def vpi_send_def u1(1))
  with u2 vpi_wait [of "c\<lparr>vpi_comm := u2\<rparr>"] show ?thesis
    by (auto simp: cable_vpi_inout_def)
qed

end

definition vpi_idle :: "('u \<Rightarrow> bool) \<Rightarrow> 'u vpi option \<Rightarrow> bool" where
  "vpi_idle idle c \<longleftrightarrow> (\<exists>u. c = Some u \<and> idle (vpi_comm u))"

definition vpi_dev :: "('u \<Rightarrow> 'd) \<Rightarrow> 'u vpi option \<Rightarrow> 'd" where
  "vpi_dev pdev c = pdev (vpi_comm (the c))"

lemma packet_data_high: "\<not> bit (packet_data p) 7" "\<not> bit (packet_data p OR TCLK_BIT) 7"
  by (auto simp: packet_data_def Let_def const_simps bit_simps)

text \<open>No call hangs and no call fails.\<close>

sublocale vpi_peer \<subseteq> cable: bit_cable h "vpi_cable_driver h N" "vpi_dev pdev" dstep dtdo "vpi_idle idle" for h
proof
  fix c :: "'u vpi option" and p
  assume "vpi_idle idle c"
  then obtain s where s: "c = Some s" "idle (vpi_comm s)" by (auto simp: vpi_idle_def)
  let ?d = "packet_data p"
  obtain u1 where u1: "cable_vpi_out h N ?d s = Some (APP_ERR_NONE, s\<lparr>vpi_comm := u1\<rparr>)" "idle u1"
      "\<not> ptck u1" "pdev u1 = pdev (vpi_comm s)"
    using vpi_out [OF s(2), of ?d h] packet_data_high [of p] packet_data_low [of p] by auto
  have d: "data_pin (?d OR TCLK_BIT) = packet_pin p"
    using packet_data_pin [of p] by (simp add: data_pin_def or_tck_bits)
  have i: "idle (vpi_comm (s\<lparr>vpi_comm := u1\<rparr>))" using u1(2) by simp
  obtain u2 where u2: "cable_vpi_out h N (?d OR TCLK_BIT) (s\<lparr>vpi_comm := u1\<rparr>) = Some (APP_ERR_NONE, s\<lparr>vpi_comm := u2\<rparr>)"
      "idle u2" "pdev u2 = dstep (packet_pin p) (pdev (vpi_comm s))"
    using vpi_out [OF i packet_data_high(2) [of p], of h] u1(3,4) by (auto simp: or_tck_bits d)
  obtain u3 where u3: "cable_vpi_inout h N (?d OR TCLK_BIT) (s\<lparr>vpi_comm := u1\<rparr>) =
      Some ((APP_ERR_NONE, of_bool (dtdo (pdev (vpi_comm s)))), s\<lparr>vpi_comm := u3\<rparr>)"
      "idle u3" "pdev u3 = dstep (packet_pin p) (pdev (vpi_comm s))"
    using vpi_inout [OF i packet_data_high(2) [of p], of h] u1(3,4) by (auto simp: or_tck_bits d)
  show "fst (bit_out_func (vpi_cable_driver h N) p c) = APP_ERR_NONE \<and>
      vpi_idle idle (snd (bit_out_func (vpi_cable_driver h N) p c)) \<and>
      vpi_dev pdev (snd (bit_out_func (vpi_cable_driver h N) p c)) = dstep (packet_pin p) (vpi_dev pdev c)"
    using u1 u2 by (simp add: s(1) vpi_cable_driver_def bitbang_knot cable_common_write_bit_def Let_def vpi_idle_def vpi_dev_def)
  show "fst (bit_inout_func (vpi_cable_driver h N) p c) = (APP_ERR_NONE, of_bool (dtdo (vpi_dev pdev c))) \<and>
      vpi_idle idle (snd (bit_inout_func (vpi_cable_driver h N) p c)) \<and>
      vpi_dev pdev (snd (bit_inout_func (vpi_cable_driver h N) p c)) = dstep (packet_pin p) (vpi_dev pdev c)"
    using u1 u3
    by (simp add: s(1) vpi_cable_driver_def bitbang_knot cable_common_read_write_bit_def Let_def vpi_idle_def vpi_dev_def)
qed

end
