(* ===== verification/Sim_Module.thy ===== *)
theory Sim_Module
  imports Cable_Sim
begin

text \<open>
  The module that a Verilog simulator loads (\<^verbatim>\<open>sim_lib/src/jp-io-vpi.c\<close>), and the test bench that
  calls it (\<^verbatim>\<open>sim_rtl/dbg_comm_vpi.v\<close>). The bench asks for a byte in every unit of time, tells the
  module when TDO changes, and after 21 edges of the system clock that the time is up.

  Nothing is said about the order of these events but that neither kind ever stops
  (\<open>fair_simulation\<close>). The driver and the module then always come to an agreement: the pair is a
  \<open>vpi_peer\<close>.
\<close>

section \<open>The module\<close>

text \<open>The argument of a system task: none, something else, a net with its value, or a register.\<close>

datatype vpi_arg = No_Arg | Other_Arg | Net u32 u32 | Reg

text \<open>Besides its variables, the state of the socket: a client that waits to be accepted, the bytes
  that have arrived, and those sent. The buffers have room for the few bytes of a request.\<close>

record jp =
  vpi_out :: u8
  jp_got_con :: bool
  count_comp :: bool
  jp_waiting :: bool
  jp_caller :: bool
  jp_arrived :: "u8 list"
  jp_sent :: "u8 list"

definition jp_send :: "u8 \<Rightarrow> jp \<Rightarrow> jp" where
  "jp_send b m = m\<lparr>jp_sent := jp_sent m @ [b]\<rparr>"

text \<open>\<open>ok\<close>: the argument is there, and the port can be opened.\<close>

definition init_sock :: "bool \<Rightarrow> jp \<Rightarrow> jp" where
  "init_sock ok m = (if ok then m\<lparr>jp_got_con := False, jp_waiting := False\<rparr> else m)"

definition jp_check_con :: "jp \<Rightarrow> bool \<times> jp" where
  "jp_check_con m =
     (if jp_caller m then (True, m\<lparr>jp_caller := False, jp_got_con := True\<rparr>) else (False, m))"

definition vpi_jp_out :: "vpi_arg \<Rightarrow> jp \<Rightarrow> jp" where
  "vpi_jp_out xx m =
     (case xx of Net aval bval \<Rightarrow> if bval AND 1 \<noteq> 0 then m else m\<lparr>vpi_out := ucast (aval AND 1)\<rparr> | _ \<Rightarrow> m)"

text \<open>The first component is the value put into the register.\<close>

definition vpi_jp_in :: "vpi_arg \<Rightarrow> jp \<Rightarrow> u32 option \<times> jp" where
  "vpi_jp_in xx m =
     (let (got_con, m) = (if jp_got_con m then (True, m) else jp_check_con m)
      in if \<not> got_con then (None, m)
         else case jp_arrived m of
             [] \<Rightarrow> (None, m)
           | dat # bs \<Rightarrow>
               let m = m\<lparr>jp_arrived := bs\<rparr>
               in if dat AND 0x80 \<noteq> 0 \<and> dat AND 0x7F = 0 then (None, jp_send (vpi_out m) m)
                  else if dat AND 0x80 \<noteq> 0 \<and> dat AND 0x7F = 1
                  then (None, if count_comp m then jp_send 0xFF m else m\<lparr>jp_waiting := True\<rparr>)
                  else if xx \<noteq> Reg then (None, m)
                  else (Some ((ucast dat AND 0xF) OR 0x10), (jp_send (dat OR 0x10) m)\<lparr>count_comp := False\<rparr>))"

definition jp_wait_time :: "jp \<Rightarrow> jp" where
  "jp_wait_time m =
     (if jp_waiting m then (jp_send 0xFF m)\<lparr>jp_waiting := False\<rparr> else m)\<lparr>count_comp := True\<rparr>"

section \<open>The test bench\<close>

definition TIMEOUT_COUNT :: nat where [const_simps]: "TIMEOUT_COUNT = 20"

record 'd bench =
  bench_jp :: jp
  in_word_r :: u8
  clk_count :: nat
  bench_dev :: 'd

text \<open>A value in the register goes to the pins; a device whose TCK rises takes a step, and a change of
  TDO is passed on. The assignments to the pins and the block that waits for TDO have no delay, so
  with a device that has none either all of it happens before the \<^verbatim>\<open>#1\<close> that ends the event.\<close>

definition drive_pins :: "(pin \<Rightarrow> 'd \<Rightarrow> 'd) \<Rightarrow> ('d \<Rightarrow> bool) \<Rightarrow> u32 \<Rightarrow> 'd bench \<Rightarrow> 'd bench" where
  "drive_pins dstep dtdo memory b =
     (let w = ucast (memory AND 0xF);
          d = (if bit w 0 \<and> \<not> bit (in_word_r b) 0 then dstep (data_pin w) (bench_dev b) else bench_dev b)
      in b\<lparr>in_word_r := w, clk_count := 0, bench_dev := d,
           bench_jp := (if dtdo d \<noteq> dtdo (bench_dev b) then vpi_jp_out (Net (of_bool (dtdo d)) 0) (bench_jp b)
                        else bench_jp b)\<rparr>)"

datatype sim_event = Command_Poll | Clock_Edge

definition bench_event :: "(pin \<Rightarrow> 'd \<Rightarrow> 'd) \<Rightarrow> ('d \<Rightarrow> bool) \<Rightarrow> sim_event \<Rightarrow> 'd bench \<Rightarrow> 'd bench" where
  "bench_event dstep dtdo e b =
     (case e of
        Command_Poll \<Rightarrow>
          (case vpi_jp_in Reg (bench_jp b) of
             (None, m) \<Rightarrow> b\<lparr>bench_jp := m\<rparr>
           | (Some memory, m) \<Rightarrow> drive_pins dstep dtdo memory (b\<lparr>bench_jp := m\<rparr>))
      | Clock_Edge \<Rightarrow>
          if clk_count b < TIMEOUT_COUNT then b\<lparr>clk_count := clk_count b + 1\<rparr>
          else if clk_count b = TIMEOUT_COUNT
          then b\<lparr>bench_jp := jp_wait_time (bench_jp b), clk_count := clk_count b + 1\<rparr>
          else b)"

section \<open>The socket between driver and module\<close>

text \<open>Event number \<open>n\<close> is \<open>sched n\<close>. After a byte has been sent, \<open>pace\<close> events pass before the
  driver goes on; a driver that waits lets them pass until there is an answer.\<close>

record 'd sim_world =
  sim_bench :: "'d bench"
  sim_now :: nat

fun bench_run :: "(pin \<Rightarrow> 'd \<Rightarrow> 'd) \<Rightarrow> ('d \<Rightarrow> bool) \<Rightarrow> (nat \<Rightarrow> sim_event) \<Rightarrow> nat \<Rightarrow> nat \<Rightarrow> 'd bench \<Rightarrow> 'd bench" where
  "bench_run dstep dtdo sched n 0 b = b"
| "bench_run dstep dtdo sched n (Suc k) b =
     bench_run dstep dtdo sched (Suc n) k (bench_event dstep dtdo (sched n) b)"

definition sim_send :: "(pin \<Rightarrow> 'd \<Rightarrow> 'd) \<Rightarrow> ('d \<Rightarrow> bool) \<Rightarrow> (nat \<Rightarrow> sim_event) \<Rightarrow> (nat \<Rightarrow> nat)
    \<Rightarrow> u8 \<Rightarrow> 'd sim_world \<Rightarrow> 'd sim_world" where
  "sim_send dstep dtdo sched pace v w =
     (let b = sim_bench w; m = bench_jp b; n = sim_now w
      in \<lparr>sim_bench = bench_run dstep dtdo sched n (pace n) (b\<lparr>bench_jp := m\<lparr>jp_arrived := jp_arrived m @ [v]\<rparr>\<rparr>),
          sim_now = n + pace n\<rparr>)"

partial_function (option) sim_recv :: "(pin \<Rightarrow> 'd \<Rightarrow> 'd) \<Rightarrow> ('d \<Rightarrow> bool) \<Rightarrow> (nat \<Rightarrow> sim_event)
    \<Rightarrow> 'd sim_world \<Rightarrow> (peer_answer \<times> 'd sim_world) option" where
  "sim_recv dstep dtdo sched w =
     (let b = sim_bench w; m = bench_jp b
      in case jp_sent m of
           a # bs \<Rightarrow> Some (Peer_Byte a, w\<lparr>sim_bench := b\<lparr>bench_jp := m\<lparr>jp_sent := bs\<rparr>\<rparr>\<rparr>)
         | [] \<Rightarrow> sim_recv dstep dtdo sched
                   \<lparr>sim_bench = bench_event dstep dtdo (sched (sim_now w)) b, sim_now = sim_now w + 1\<rparr>)"

definition sim_socket :: "(pin \<Rightarrow> 'd \<Rightarrow> 'd) \<Rightarrow> ('d \<Rightarrow> bool) \<Rightarrow> (nat \<Rightarrow> sim_event) \<Rightarrow> (nat \<Rightarrow> nat)
    \<Rightarrow> 'd sim_world socket" where
  "sim_socket dstep dtdo sched pace =
     \<lparr>sock_connect = \<lambda>_ _ w. (True, w\<lparr>sim_bench := (sim_bench w)\<lparr>bench_jp := (bench_jp (sim_bench w))\<lparr>jp_caller := True\<rparr>\<rparr>\<rparr>),
      sock_send = sim_send dstep dtdo sched pace, sock_recv = sim_recv dstep dtdo sched\<rparr>"

section \<open>Fair simulations\<close>

locale fair_simulation =
  fixes dstep :: "pin \<Rightarrow> 'd \<Rightarrow> 'd"
    and dtdo :: "'d \<Rightarrow> bool"
    and sched :: "nat \<Rightarrow> sim_event"
    and pace :: "nat \<Rightarrow> nat"
  assumes fair: "\<exists>m \<ge> n. sched m = e"
begin

abbreviation event :: "sim_event \<Rightarrow> 'd bench \<Rightarrow> 'd bench" where "event \<equiv> bench_event dstep dtdo"
abbreviation run :: "nat \<Rightarrow> nat \<Rightarrow> 'd bench \<Rightarrow> 'd bench" where "run \<equiv> bench_run dstep dtdo sched"

text \<open>\<open>R\<close> holds some time after \<open>I\<close>, and nothing has been sent before.\<close>

definition leads :: "('d bench \<Rightarrow> bool) \<Rightarrow> ('d bench \<Rightarrow> bool) \<Rightarrow> bool" where
  "leads I R \<longleftrightarrow> (\<forall>n b. I b \<longrightarrow> (\<exists>k. R (run n k b) \<and> (\<forall>j < k. jp_sent (bench_jp (run n j b)) = [])))"

lemma run_add: "run n (j + k) b = run (n + j) k (run n j b)"
  by (induction j arbitrary: n b) simp_all

lemma leads_trans:
  assumes "leads I M" "leads M R"
  shows "leads I R"
  unfolding leads_def
proof (intro allI impI)
  fix n b assume "I b"
  with assms(1) obtain j where j: "M (run n j b)" "\<forall>i < j. jp_sent (bench_jp (run n i b)) = []"
    unfolding leads_def by blast
  with assms(2) obtain k where k: "R (run (n + j) k (run n j b))"
      "\<forall>i < k. jp_sent (bench_jp (run (n + j) i (run n j b))) = []"
    unfolding leads_def by blast
  have "jp_sent (bench_jp (run n i b)) = []" if "i < j + k" for i
  proof (cases "i < j")
    case False
    then have "run n i b = run (n + j) (i - j) (run n j b)" by (simp flip: run_add)
    with k(2) that False show ?thesis by simp
  qed (use j(2) in blast)
  with k(1) show "\<exists>k. R (run n k b) \<and> (\<forall>i < k. jp_sent (bench_jp (run n i b)) = [])"
    by (intro exI [of _ "j + k"]) (simp add: run_add)
qed

text \<open>The event \<open>e\<close> brings \<open>R\<close> closer, and no other event undoes what has been reached.\<close>

lemma leads_by:
  fixes mu :: "'d bench \<Rightarrow> nat"
  assumes silent: "\<And>b. I b \<Longrightarrow> jp_sent (bench_jp b) = []"
    and keeps: "\<And>b e'. I b \<Longrightarrow> R (event e' b) \<or> I (event e' b) \<and> mu (event e' b) \<le> mu b"
    and nearer: "\<And>b. I b \<Longrightarrow> R (event e b) \<or> I (event e b) \<and> mu (event e b) < mu b"
  shows "leads I R"
  unfolding leads_def
proof (intro allI impI)
  fix n b assume "I b"
  obtain m where "m \<ge> n" "sched m = e" using fair by blast
  then show "\<exists>k. R (run n k b) \<and> (\<forall>j < k. jp_sent (bench_jp (run n j b)) = [])"
    using \<open>I b\<close>
  proof (induction "(mu b, m - n)" arbitrary: n m b
      rule: wf_induct_rule [OF wf_lex_prod [OF wf_less_than wf_less_than], case_names less])
    case less
    let ?b = "event (sched n) b"
    have one: "R ?b \<Longrightarrow> ?case"
      using silent [OF less.prems(3)] by (intro exI [of _ 1]) simp
    have later: ?case if "\<exists>k. R (run (Suc n) k ?b) \<and> (\<forall>j < k. jp_sent (bench_jp (run (Suc n) j ?b)) = [])"
    proof -
      from that obtain k where k: "R (run (Suc n) k ?b)" "\<forall>j < k. jp_sent (bench_jp (run (Suc n) j ?b)) = []"
        by blast
      have "jp_sent (bench_jp (run n j b)) = []" if "j < Suc k" for j
        using silent [OF less.prems(3)] k(2) that by (cases j) simp_all
      with k(1) show ?thesis by (intro exI [of _ "Suc k"]) simp
    qed
    show ?case
    proof (cases "R ?b")
      case False
      show ?thesis
      proof (cases "m = n")
        case True
        with less.prems(2) nearer [OF less.prems(3)] False have i: "I ?b" "mu ?b < mu b" by auto
        obtain m' where m': "m' \<ge> Suc n" "sched m' = e" using fair by blast
        show ?thesis
          by (rule later, rule less.hyps [OF _ m' i(1)]) (simp add: i(2))
      next
        case False
        with less.prems(1) have m: "m \<ge> Suc n" "m - Suc n < m - n" by auto
        have i: "I ?b" "mu ?b \<le> mu b"
          using keeps [OF less.prems(3), of "sched n"] \<open>\<not> R ?b\<close> by auto
        show ?thesis
          by (rule later, rule less.hyps [OF _ m(1) less.prems(2) i(1)]) (use i(2) m(2) in auto)
      qed
    qed (rule one)
  qed
qed

lemma leads_or: "leads M R \<Longrightarrow> leads (\<lambda>b. M b \<or> R b) R"
  unfolding leads_def by (metis bench_run.simps(1) less_nat_zero_code)

lemma recv_run:
  assumes "\<forall>j < k. jp_sent (bench_jp (run n j b)) = []" "jp_sent (bench_jp (run n k b)) = [a]"
  shows "sim_recv dstep dtdo sched \<lparr>sim_bench = b, sim_now = n\<rparr> = Some (Peer_Byte a,
    \<lparr>sim_bench = (run n k b)\<lparr>bench_jp := (bench_jp (run n k b))\<lparr>jp_sent := []\<rparr>\<rparr>, sim_now = n + k\<rparr>)"
  using assms
proof (induction k arbitrary: n b)
  case 0
  then show ?case by (subst sim_recv.simps) simp
next
  case (Suc k)
  then have "jp_sent (bench_jp b) = []" by force
  moreover have "\<forall>j < k. jp_sent (bench_jp (run (Suc n) j (event (sched n) b))) = []"
    using Suc.prems(1) by (metis Suc_less_eq bench_run.simps(2))
  ultimately show ?case
    using Suc.IH [of "Suc n" "event (sched n) b"] Suc.prems(2) by (subst sim_recv.simps) simp
qed

text \<open>A byte and its answer.\<close>

lemma exchange:
  assumes "leads I R"
    and stable: "\<And>b e. R b \<Longrightarrow> R (event e b)"
    and sent: "\<And>b. R b \<Longrightarrow> jp_sent (bench_jp b) = [a]"
    and start: "I ((sim_bench w)\<lparr>bench_jp := (bench_jp (sim_bench w))\<lparr>jp_arrived := jp_arrived (bench_jp (sim_bench w)) @ [v]\<rparr>\<rparr>)"
  shows "\<exists>b n. R b \<and> sock_recv (sim_socket dstep dtdo sched pace) (sock_send (sim_socket dstep dtdo sched pace) v w) =
    Some (Peer_Byte a, \<lparr>sim_bench = b\<lparr>bench_jp := (bench_jp b)\<lparr>jp_sent := []\<rparr>\<rparr>, sim_now = n\<rparr>)"
proof -
  let ?n = "sim_now w" and ?p = "pace (sim_now w)"
  let ?b = "(sim_bench w)\<lparr>bench_jp := (bench_jp (sim_bench w))\<lparr>jp_arrived := jp_arrived (bench_jp (sim_bench w)) @ [v]\<rparr>\<rparr>"
  obtain k where k: "R (run ?n k ?b)" "\<forall>j < k. jp_sent (bench_jp (run ?n j ?b)) = []"
    using assms(1) start unfolding leads_def by blast
  have keep: "R (run n j b)" if "R b" for n j b
    using that by (induction j arbitrary: n b) (simp_all add: stable)
  let ?j = "k - ?p"
  have r: "R (run (?n + ?p) ?j (run ?n ?p ?b))"
  proof (cases "?p \<le> k")
    case True
    with k(1) show ?thesis by (simp flip: run_add)
  next
    case False
    then have "R (run (?n + k) (?p - k) (run ?n k ?b))" using keep k(1) by blast
    with False show ?thesis by (simp flip: run_add)
  qed
  have s: "\<forall>j < ?j. jp_sent (bench_jp (run (?n + ?p) j (run ?n ?p ?b))) = []"
    using k(2) by (simp flip: run_add add: less_diff_conv add.commute)
  show ?thesis
    by (intro exI [of _ "run (?n + ?p) ?j (run ?n ?p ?b)"] exI [of _ "?n + ?p + ?j"])
      (use r recv_run [OF s sent [OF r]] in \<open>simp add: sim_socket_def sim_send_def Let_def\<close>)
qed

end

text \<open>The module has a client, owes it nothing, and knows the value of TDO.\<close>

definition bench_quiet :: "('d \<Rightarrow> bool) \<Rightarrow> 'd bench \<Rightarrow> bool" where
  "bench_quiet dtdo b \<longleftrightarrow>
     (let m = bench_jp b
      in (jp_got_con m \<or> jp_caller m) \<and> \<not> jp_waiting m \<and> vpi_out m = of_bool (dtdo (bench_dev b)))"

definition bench_timed :: "'d bench \<Rightarrow> bool" where
  "bench_timed b \<longleftrightarrow> count_comp (bench_jp b) \<or> clk_count b \<le> TIMEOUT_COUNT"

definition sim_idle :: "('d \<Rightarrow> bool) \<Rightarrow> 'd sim_world \<Rightarrow> bool" where
  "sim_idle dtdo w \<longleftrightarrow> bench_quiet dtdo (sim_bench w) \<and> jp_arrived (bench_jp (sim_bench w)) = [] \<and>
     jp_sent (bench_jp (sim_bench w)) = []"

lemma byte_high: "\<not> bit v 7 \<Longrightarrow> v AND 0x80 = (0 :: u8)"
  using and_exp_eq_0_iff_not_bit [of v 7] by simp

lemma memory_pins:
  fixes v :: u8
  defines "w \<equiv> ucast (((ucast v AND 0xF) OR 0x10 :: u32) AND 0xF) :: u8"
  shows "bit w 0 = bit v 0" "data_pin w = data_pin v"
  by (auto simp: w_def data_pin_def bit_simps bit_numeral_rec)

text \<open>What holds until the module has answered, and from then on.\<close>

definition asked :: "('d \<Rightarrow> bool) \<Rightarrow> u8 \<Rightarrow> 'd \<Rightarrow> bool \<Rightarrow> 'd bench \<Rightarrow> bool" where
  "asked dtdo v d tck b \<longleftrightarrow> bench_quiet dtdo b \<and> jp_arrived (bench_jp b) = [v] \<and> jp_sent (bench_jp b) = [] \<and>
     bench_dev b = d \<and> bit (in_word_r b) 0 = tck"

definition answered :: "('d \<Rightarrow> bool) \<Rightarrow> u8 \<Rightarrow> 'd \<Rightarrow> bool \<Rightarrow> 'd bench \<Rightarrow> bool" where
  "answered dtdo a d tck b \<longleftrightarrow> bench_quiet dtdo b \<and> jp_arrived (bench_jp b) = [] \<and> jp_sent (bench_jp b) = [a] \<and>
     bench_dev b = d \<and> bit (in_word_r b) 0 = tck"

definition counting :: "('d \<Rightarrow> bool) \<Rightarrow> 'd \<Rightarrow> bool \<Rightarrow> 'd bench \<Rightarrow> bool" where
  "counting dtdo d tck b \<longleftrightarrow> (let m = bench_jp b
     in (jp_got_con m \<or> jp_caller m) \<and> jp_waiting m \<and> vpi_out m = of_bool (dtdo (bench_dev b)) \<and>
        jp_arrived m = [] \<and> jp_sent m = []) \<and> clk_count b \<le> TIMEOUT_COUNT \<and> bench_dev b = d \<and> bit (in_word_r b) 0 = tck"

lemmas bench_defs = bench_event_def bench_quiet_def bench_timed_def vpi_jp_in_def jp_check_con_def jp_send_def
  jp_wait_time_def Let_def

lemma answered_stable:
  "answered dtdo a d tck b \<Longrightarrow> answered dtdo a d tck (bench_event dstep dtdo e b)"
  "answered dtdo a d tck b \<Longrightarrow> bench_timed b \<Longrightarrow> bench_timed (bench_event dstep dtdo e b)"
  by (cases e; auto simp: answered_def bench_defs)+

lemma asked_edge:
  "asked dtdo v d tck b \<Longrightarrow> asked dtdo v d tck (bench_event dstep dtdo Clock_Edge b)"
  "asked dtdo v d tck b \<Longrightarrow> bench_timed b \<Longrightarrow> bench_timed (bench_event dstep dtdo Clock_Edge b)"
  by (auto simp: asked_def bench_defs)

lemma asked_lines:
  fixes dstep :: "pin \<Rightarrow> 'd \<Rightarrow> 'd"
  assumes "asked dtdo v d tck b" "\<not> bit v 7"
  defines "d' \<equiv> if bit v 0 \<and> \<not> tck then dstep (data_pin v) d else d"
  shows "answered dtdo (v OR 0x10) d' (bit v 0) (bench_event dstep dtdo Command_Poll b)"
    and "bench_timed (bench_event dstep dtdo Command_Poll b)"
  using assms(1) byte_high [OF assms(2)]
  by (auto simp: asked_def answered_def d'_def bench_defs drive_pins_def memory_pins vpi_jp_out_def)

lemma asked_tdo:
  "asked dtdo 0x80 d tck b \<Longrightarrow> answered dtdo (of_bool (dtdo d)) d tck (bench_event dstep dtdo Command_Poll b)"
  by (auto simp: asked_def answered_def bench_defs)

lemma asked_wait:
  assumes "asked dtdo 0x81 d tck b" "bench_timed b"
  shows "counting dtdo d tck (bench_event dstep dtdo Command_Poll b) \<or>
    answered dtdo 0xFF d tck (bench_event dstep dtdo Command_Poll b) \<and>
    bench_timed (bench_event dstep dtdo Command_Poll b)"
  using assms by (auto simp: asked_def answered_def counting_def bench_defs)

lemma counting_poll: "counting dtdo d tck b \<Longrightarrow> counting dtdo d tck (bench_event dstep dtdo Command_Poll b)"
  by (auto simp: counting_def bench_defs)

lemma counting_edge:
  fixes dstep :: "pin \<Rightarrow> 'd \<Rightarrow> 'd"
  assumes "counting dtdo d tck b"
  defines "b' \<equiv> bench_event dstep dtdo Clock_Edge b"
  shows "answered dtdo 0xFF d tck b' \<and> bench_timed b' \<or>
    counting dtdo d tck b' \<and> TIMEOUT_COUNT - clk_count b' < TIMEOUT_COUNT - clk_count b"
  using assms(1) by (auto simp: b'_def answered_def counting_def bench_defs)

section \<open>Driver, module and test bench\<close>

context fair_simulation
begin

lemma silent: "asked dtdo v d tck b \<Longrightarrow> jp_sent (bench_jp b) = []" "counting dtdo d tck b \<Longrightarrow> jp_sent (bench_jp b) = []"
  by (auto simp: asked_def counting_def Let_def)

lemma leads_lines:
  assumes "\<not> bit v 7"
  shows "leads (asked dtdo v d tck) (\<lambda>b. answered dtdo (v OR 0x10)
      (if bit v 0 \<and> \<not> tck then dstep (data_pin v) d else d) (bit v 0) b \<and> bench_timed b)"
proof (rule leads_by [where e = Command_Poll and mu = "\<lambda>_. 0"])
  fix b e' assume b: "asked dtdo v d tck b"
  show "jp_sent (bench_jp b) = []" by (rule silent(1) [OF b])
  show "(answered dtdo (v OR 0x10) (if bit v 0 \<and> \<not> tck then dstep (data_pin v) d else d) (bit v 0) (event e' b) \<and>
      bench_timed (event e' b)) \<or> asked dtdo v d tck (event e' b) \<and> (0 :: nat) \<le> 0"
    using asked_lines [OF b assms] asked_edge [OF b] by (cases e') auto
  show "(answered dtdo (v OR 0x10) (if bit v 0 \<and> \<not> tck then dstep (data_pin v) d else d) (bit v 0) (event Command_Poll b) \<and>
      bench_timed (event Command_Poll b)) \<or> asked dtdo v d tck (event Command_Poll b) \<and> (0 :: nat) < 0"
    using asked_lines [OF b assms] by blast
qed

lemma leads_tdo: "leads (asked dtdo 0x80 d tck) (answered dtdo (of_bool (dtdo d)) d tck)"
proof (rule leads_by [where e = Command_Poll and mu = "\<lambda>_. 0"])
  fix b e' assume b: "asked dtdo 0x80 d tck b"
  show "jp_sent (bench_jp b) = []" by (rule silent(1) [OF b])
  show "answered dtdo (of_bool (dtdo d)) d tck (event e' b) \<or> asked dtdo 0x80 d tck (event e' b) \<and> (0 :: nat) \<le> 0"
    using asked_tdo [OF b] asked_edge(1) [OF b] by (cases e') auto
  show "answered dtdo (of_bool (dtdo d)) d tck (event Command_Poll b) \<or>
      asked dtdo 0x80 d tck (event Command_Poll b) \<and> (0 :: nat) < 0"
    using asked_tdo [OF b] by blast
qed

lemma leads_count: "leads (counting dtdo d tck) (\<lambda>b. answered dtdo 0xFF d tck b \<and> bench_timed b)"
proof (rule leads_by [where e = Clock_Edge and mu = "\<lambda>b. TIMEOUT_COUNT - clk_count b"])
  fix b e' assume b: "counting dtdo d tck b"
  show "jp_sent (bench_jp b) = []" by (rule silent(2) [OF b])
  have "clk_count (event Command_Poll b) = clk_count b"
    using b by (auto simp: counting_def bench_defs)
  with counting_poll [OF b] counting_edge [OF b]
  show "(answered dtdo 0xFF d tck (event e' b) \<and> bench_timed (event e' b)) \<or>
      counting dtdo d tck (event e' b) \<and> TIMEOUT_COUNT - clk_count (event e' b) \<le> TIMEOUT_COUNT - clk_count b"
    by (cases e') (auto intro: less_imp_le)
  show "(answered dtdo 0xFF d tck (event Clock_Edge b) \<and> bench_timed (event Clock_Edge b)) \<or>
      counting dtdo d tck (event Clock_Edge b) \<and>
      TIMEOUT_COUNT - clk_count (event Clock_Edge b) < TIMEOUT_COUNT - clk_count b"
    using counting_edge [OF b] by blast
qed

lemma leads_wait:
  "leads (\<lambda>b. asked dtdo 0x81 d tck b \<and> bench_timed b) (\<lambda>b. answered dtdo 0xFF d tck b \<and> bench_timed b)"
proof (rule leads_trans [OF leads_by [where e = Command_Poll and mu = "\<lambda>_. 0"] leads_or [OF leads_count]])
  fix b e' assume b: "asked dtdo 0x81 d tck b \<and> bench_timed b"
  show "jp_sent (bench_jp b) = []" using silent(1) b by blast
  show "(counting dtdo d tck (event e' b) \<or> answered dtdo 0xFF d tck (event e' b) \<and> bench_timed (event e' b)) \<or>
      (asked dtdo 0x81 d tck (event e' b) \<and> bench_timed (event e' b)) \<and> (0 :: nat) \<le> 0"
    using asked_wait [of dtdo d tck b dstep] asked_edge [of dtdo "0x81" d tck b dstep] b by (cases e') auto
  show "(counting dtdo d tck (event Command_Poll b) \<or>
        answered dtdo 0xFF d tck (event Command_Poll b) \<and> bench_timed (event Command_Poll b)) \<or>
      (asked dtdo 0x81 d tck (event Command_Poll b) \<and> bench_timed (event Command_Poll b)) \<and> (0 :: nat) < 0"
    using asked_wait [of dtdo d tck b dstep] b by blast
qed

end

text \<open>The driver takes the answer.\<close>

definition taken :: "'d bench \<Rightarrow> nat \<Rightarrow> 'd sim_world" where
  "taken b n = \<lparr>sim_bench = b\<lparr>bench_jp := (bench_jp b)\<lparr>jp_sent := []\<rparr>\<rparr>, sim_now = n\<rparr>"

lemma taken_idle:
  assumes "answered dtdo a d tck b"
  shows "sim_idle dtdo (taken b n)" "bench_dev (sim_bench (taken b n)) = d" "bit (in_word_r (sim_bench (taken b n))) 0 = tck"
  using assms by (auto simp: taken_def answered_def sim_idle_def bench_quiet_def Let_def)

lemma taken_timed: "bench_timed (sim_bench (taken b n)) = bench_timed b"
  by (simp add: taken_def bench_timed_def)

lemma answered_sent: "answered dtdo a d tck b \<Longrightarrow> jp_sent (bench_jp b) = [a]"
  by (simp add: answered_def)

text \<open>Whatever the order of the events, the module keeps the protocol.\<close>

sublocale fair_simulation \<subseteq> vpi_peer "sim_socket dstep dtdo sched pace" "\<lambda>w. bench_dev (sim_bench w)"
    "\<lambda>w. bit (in_word_r (sim_bench w)) 0" "sim_idle dtdo" "\<lambda>w. bench_timed (sim_bench w)" dstep dtdo
proof
  fix w :: "'d sim_world" and v :: u8
  let ?N = "sim_socket dstep dtdo sched pace" and ?d = "bench_dev (sim_bench w)" and ?t = "bit (in_word_r (sim_bench w)) 0"
  let ?b = "\<lambda>v. (sim_bench w)\<lparr>bench_jp := (bench_jp (sim_bench w))\<lparr>jp_arrived := jp_arrived (bench_jp (sim_bench w)) @ [v]\<rparr>\<rparr>"
  assume i: "sim_idle dtdo w"
  then have a: "asked dtdo v ?d ?t (?b v)" for v
    by (simp add: sim_idle_def asked_def bench_quiet_def Let_def)
  {
    assume "\<not> bit v 7"
    let ?d' = "if bit v 0 \<and> \<not> ?t then dstep (data_pin v) ?d else ?d"
    have "\<exists>b n. (answered dtdo (v OR 0x10) ?d' (bit v 0) b \<and> bench_timed b) \<and>
        sock_recv ?N (sock_send ?N v w) = Some (Peer_Byte (v OR 0x10), taken b n)"
      unfolding taken_def
      by (rule exchange [OF leads_lines [OF \<open>\<not> bit v 7\<close>] _ _ a]) (blast intro: answered_stable answered_sent)+
    then obtain b n where b: "answered dtdo (v OR 0x10) ?d' (bit v 0) b \<and> bench_timed b"
      and r: "sock_recv ?N (sock_send ?N v w) = Some (Peer_Byte (v OR 0x10), taken b n)"
      by blast
    show "\<exists>w'. sock_recv ?N (sock_send ?N v w) = Some (Peer_Byte (v OR 0x10), w') \<and> sim_idle dtdo w' \<and>
        bench_timed (sim_bench w') \<and> bit (in_word_r (sim_bench w')) 0 = bit v 0 \<and> bench_dev (sim_bench w') = ?d'"
      using b taken_idle [OF conjunct1 [OF b], of n]
      by (intro exI [of _ "taken b n"]) (simp only: r taken_timed simp_thms)
  }
  {
    assume "bench_timed (sim_bench w)"
    with a have "asked dtdo 0x81 ?d ?t (?b 0x81) \<and> bench_timed (?b 0x81)"
      by (simp add: bench_timed_def)
    have "\<exists>b n. (answered dtdo 0xFF ?d ?t b \<and> bench_timed b) \<and>
        sock_recv ?N (sock_send ?N 0x81 w) = Some (Peer_Byte 0xFF, taken b n)"
      unfolding taken_def
      by (rule exchange [OF leads_wait _ _ \<open>asked dtdo 0x81 ?d ?t (?b 0x81) \<and> bench_timed (?b 0x81)\<close>])
        (blast intro: answered_stable answered_sent)+
    then obtain b n where b: "answered dtdo 0xFF ?d ?t b \<and> bench_timed b"
      and r: "sock_recv ?N (sock_send ?N 0x81 w) = Some (Peer_Byte 0xFF, taken b n)"
      by blast
    show "\<exists>b w'. sock_recv ?N (sock_send ?N 0x81 w) = Some (Peer_Byte b, w') \<and> sim_idle dtdo w' \<and>
        bench_timed (sim_bench w') \<and> bit (in_word_r (sim_bench w')) 0 = ?t \<and> bench_dev (sim_bench w') = ?d"
      using b taken_idle [OF conjunct1 [OF b], of n]
      by (intro exI [of _ "0xFF"] exI [of _ "taken b n"]) (simp add: r taken_timed)
  }
  have "\<exists>b n. answered dtdo (of_bool (dtdo ?d)) ?d ?t b \<and>
      sock_recv ?N (sock_send ?N 0x80 w) = Some (Peer_Byte (of_bool (dtdo ?d)), taken b n)"
    unfolding taken_def
    by (rule exchange [OF leads_tdo _ _ a]) (blast intro: answered_stable(1) answered_sent)+
  then obtain b n where b: "answered dtdo (of_bool (dtdo ?d)) ?d ?t b"
    and r: "sock_recv ?N (sock_send ?N 0x80 w) = Some (Peer_Byte (of_bool (dtdo ?d)), taken b n)"
    by blast
  show "\<exists>w'. sock_recv ?N (sock_send ?N 0x80 w) = Some (Peer_Byte (of_bool (dtdo ?d)), w') \<and> sim_idle dtdo w' \<and>
      bit (in_word_r (sim_bench w')) 0 = ?t \<and> bench_dev (sim_bench w') = ?d"
    using taken_idle [OF b, of n] by (intro exI [of _ "taken b n"]) (simp add: r)
qed

text \<open>A simulator that polls for commands and moves its clock in turns, and a driver that is slower.\<close>

definition turns :: "nat \<Rightarrow> sim_event" where
  "turns n = (if even n then Command_Poll else Clock_Edge)"

lemma turns_fair: "\<exists>m \<ge> n. turns m = e"
proof (cases e)
  case Command_Poll
  then show ?thesis by (intro exI [of _ "2 * n"]) (simp add: turns_def)
next
  case Clock_Edge
  then show ?thesis by (intro exI [of _ "2 * n + 1"]) (simp add: turns_def)
qed

interpretation in_turns: fair_simulation dstep dtdo turns "\<lambda>n. n mod 3" for dstep dtdo
  by unfold_locales (rule turns_fair)

text \<open>The state after \<open>$jp_init\<close> and the first change of TDO, with a driver that has connected.\<close>

definition sim_start :: "('d \<Rightarrow> bool) \<Rightarrow> 'd \<Rightarrow> 'd sim_world" where
  "sim_start dtdo d =
     \<lparr>sim_bench = \<lparr>bench_jp = vpi_jp_out (Net (of_bool (dtdo d)) 0) (init_sock True
        \<lparr>vpi_out = 0, jp_got_con = False, count_comp = False, jp_waiting = False, jp_caller = True,
         jp_arrived = [], jp_sent = []\<rparr>),
        in_word_r = 0, clk_count = TIMEOUT_COUNT + 1, bench_dev = d\<rparr>,
      sim_now = 0\<rparr>"

lemma sim_start_idle: "sim_idle dtdo (sim_start dtdo d)"
  by (auto simp: sim_start_def sim_idle_def bench_quiet_def vpi_jp_out_def init_sock_def)

context fair_simulation
begin

lemma streams:
  fixes ws :: "u32 list" and l :: bool
  assumes "sim_idle dtdo (vpi_comm c)" "0 < n" "masks_shifts h \<or> n \<le> 32"
  defines "cb \<equiv> vpi_cable_driver h (sim_socket dstep dtdo sched pace)"
    and "pins \<equiv> stream_pins ws n l" and "d \<equiv> bench_dev (sim_bench (vpi_comm c))"
  shows "\<exists>c'. cable_write_stream cb ws (int n) l (Some c) = (APP_ERR_NONE, Some c') \<and>
      sim_idle dtdo (vpi_comm c') \<and> bench_dev (sim_bench (vpi_comm c')) = fold dstep pins d"
    and "\<exists>c'. cable_read_write_stream cb ws (int n) l (Some c) =
        ((APP_ERR_NONE, bits_to_words (tdo_run dstep dtdo pins d)), Some c') \<and>
      sim_idle dtdo (vpi_comm c') \<and> bench_dev (sim_bench (vpi_comm c')) = fold dstep pins d"
proof -
  obtain m where m: "n = Suc m" using assms(2) by (cases n) auto
  have i: "vpi_idle (sim_idle dtdo) (Some c)" using assms(1) by (simp add: vpi_idle_def)
  have s: "masks_shifts h \<or> m < 32" using assms(3) m by auto
  have e: "stream_out_func cb = cable_common_write_stream h cb" "stream_inout_func cb = cable_common_read_stream h cb"
    by (simp_all add: cb_def vpi_cable_driver_def bitbang_knot)
  show "\<exists>c'. cable_write_stream cb ws (int n) l (Some c) = (APP_ERR_NONE, Some c') \<and>
      sim_idle dtdo (vpi_comm c') \<and> bench_dev (sim_bench (vpi_comm c')) = fold dstep pins d"
    using cable.write_stream [OF i s, of ws l, folded cb_def]
    by (auto simp: cable_write_stream_def e m pins_def d_def vpi_idle_def vpi_dev_def prod_eq_iff)
  show "\<exists>c'. cable_read_write_stream cb ws (int n) l (Some c) =
        ((APP_ERR_NONE, bits_to_words (tdo_run dstep dtdo pins d)), Some c') \<and>
      sim_idle dtdo (vpi_comm c') \<and> bench_dev (sim_bench (vpi_comm c')) = fold dstep pins d"
    using cable.read_stream [OF i s, of ws l, folded cb_def]
    by (auto simp: cable_read_write_stream_def e m pins_def d_def vpi_idle_def vpi_dev_def prod_eq_iff)
qed

end

text \<open>C5: the driver, the module in the simulator and the test bench always finish.
  Whatever the order in which the simulator polls for commands and moves its clock, as long as
  neither stops for ever, and however late the driver looks for an answer, a stream comes back
  without an error, clocks the simulated device once per bit, returns the TDO values before these
  clocks, and leaves no message on the way.\<close>

theorem vpi_streams_complete:
  fixes dstep :: "pin \<Rightarrow> 'd \<Rightarrow> 'd" and pace :: "nat \<Rightarrow> nat" and ws :: "u32 list" and l :: bool
  assumes "\<And>n e. \<exists>m \<ge> n. sched m = e"
    and "sim_idle dtdo (vpi_comm c)" and "0 < n" and "masks_shifts h \<or> n \<le> 32"
  defines "cb \<equiv> vpi_cable_driver h (sim_socket dstep dtdo sched pace)"
    and "pins \<equiv> stream_pins ws n l" and "d \<equiv> bench_dev (sim_bench (vpi_comm c))"
  shows "(\<exists>c'. cable_write_stream cb ws (int n) l (Some c) = (APP_ERR_NONE, Some c') \<and>
      sim_idle dtdo (vpi_comm c') \<and> bench_dev (sim_bench (vpi_comm c')) = fold dstep pins d) \<and>
    (\<exists>c'. cable_read_write_stream cb ws (int n) l (Some c) =
        ((APP_ERR_NONE, bits_to_words (tdo_run dstep dtdo pins d)), Some c') \<and>
      sim_idle dtdo (vpi_comm c') \<and> bench_dev (sim_bench (vpi_comm c')) = fold dstep pins d)"
proof -
  have "fair_simulation sched" by unfold_locales (rule assms(1))
  from fair_simulation.streams [OF this assms(2-4)] show ?thesis
    unfolding cb_def pins_def d_def by blast
qed

theorem vpi_streams_complete_witness:
  "\<exists>c'. cable_read_write_stream (vpi_cable_driver x86_64
      (sim_socket (\<lambda>p d. tl d @ [pin_tdi p]) hd turns (\<lambda>n. n mod 3))) [0xBEEF1234, 0x5] 35 True
      (Some (vpi_defaults (sim_start hd [True, False]))) = ((APP_ERR_NONE, [0xFBBC48D1, 0x6]), Some c')"
proof -
  let ?step = "\<lambda>p d. tl d @ [pin_tdi p]"
  have "bits_to_words (tdo_run ?step hd (stream_pins [0xBEEF1234, 0x5] 35 True) [True, False]) = [0xFBBC48D1, 0x6]"
    by code_simp
  then show ?thesis
    using vpi_streams_complete [where n = 35 and ws = "[0xBEEF1234, 0x5]" and h = x86_64 and l = True and dtdo = hd
        and dstep = ?step and sched = turns and pace = "\<lambda>n. n mod 3" and c = "vpi_defaults (sim_start hd [True, False])"]
      turns_fair sim_start_idle [of hd "[True, False]"] masks_shifts_x86
    by (auto simp: vpi_defaults_def sim_start_def)
qed

end
