(* ===== verification/Image_Tools.thy ===== *)
theory Image_Tools
  imports C_Scan
begin

text \<open>
  The tools that turn the binary image of a program into the text files that boards and
  simulators load (\<^verbatim>\<open>src/software/utils\<close>): \<^verbatim>\<open>bin2c.c\<close>, \<^verbatim>\<open>bin2hex.c\<close>, \<^verbatim>\<open>bin2srec.c\<close>,
  \<^verbatim>\<open>bin2flimg.c\<close> and \<^verbatim>\<open>bin2vmem.c\<close>. A tool is a function of its arguments and of the files to its exit
  code and what it prints to the standard output, or None when it never ends.

  What they print is compared with what a reader of the format makes of it.
\<close>

section \<open>Numbers and pieces\<close>

text \<open>\<open>%.kx\<close>: at least \<open>k\<close> digits.\<close>

definition hex_prec :: "nat \<Rightarrow> nat \<Rightarrow> u8 list" where
  "hex_prec k n = replicate (k - length (hexnum n)) 0x30 @ hexnum n"

definition byte_hex :: "u8 \<Rightarrow> u8 list" where
  "byte_hex c = hex_prec 2 (unat c)"

text \<open>The pieces of \<open>n\<close> bytes, the last of which may be shorter.\<close>

function chunks :: "nat \<Rightarrow> 'a list \<Rightarrow> 'a list list" where
  "chunks n xs = (if n = 0 \<or> xs = [] then [] else take n xs # chunks n (drop n xs))"
  by pat_completeness auto
termination
  by (relation "measure (\<lambda>(_, xs). length xs)") auto

declare chunks.simps [simp del]

text \<open>What \<open>n\<close> calls of \<open>fgetc\<close> give when 0 is taken at the end of the file.\<close>

definition padded :: "nat \<Rightarrow> u8 list \<Rightarrow> u8 list" where
  "padded n bs = take n bs @ replicate (n - length bs) 0"

section \<open>bin2c\<close>

fun bin2c_data :: "nat \<Rightarrow> u8 list \<Rightarrow> u8 list" where
  "bin2c_data i [] = []"
| "bin2c_data i (c # cs) =
     asc ''0x'' @ byte_hex c @ asc '', '' @ (if i mod 32 = 0 then [0x0A] else []) @ bin2c_data (i + 1) cs"

definition bin2c :: "u8 list \<Rightarrow> (int \<times> u8 list) option" where
  "bin2c stdin = Some (0,
     asc ''#ifdef HAVE_CONFIG_H'' @ [0x0A] @ asc ''# include '' @ [0x22] @ asc ''config.h'' @ [0x22, 0x0A]
     @ asc ''#endif'' @ [0x0A, 0x0A] @ asc ''#ifdef EMBED'' @ [0x0A] @ asc ''unsigned char flash_data[] = {'' @ [0x0A]
     @ bin2c_data 0 stdin @ asc '' };'' @ [0x0A] @ asc ''#endif'' @ [0x0A])"

section \<open>bin2hex\<close>

text \<open>\<open>i\<close> bytes are on the line so far.\<close>

fun print_hex :: "int \<Rightarrow> int \<Rightarrow> u8 list \<Rightarrow> u8 list" where
  "print_hex bytes_per_line i [] = []"
| "print_hex bytes_per_line i (c # cs) =
     byte_hex c @ (if i + 1 = bytes_per_line then 0x0A # print_hex bytes_per_line 0 cs
                   else print_hex bytes_per_line (i + 1) cs)"

definition size_word :: "u32 \<Rightarrow> u8 list" where
  "size_word image_size =
     [ucast (drop_bit 24 image_size), ucast (drop_bit 16 image_size), ucast (drop_bit 8 image_size), ucast image_size]"

definition bin2hex :: "host \<Rightarrow> (string \<Rightarrow> u8 list option) \<Rightarrow> string list \<Rightarrow> (int \<times> u8 list) option" where
  "bin2hex h fs args = Some
     (if length args < 2 then (1, [])
      else let write_size_word = (length args = 3 \<and> args ! 2 = ''-size_word'');
               bytes_per_line = atoi h (args ! 1)
           in if bytes_per_line = 0 \<or> bytes_per_line > 8 then (1, [])
              else case fs (args ! 0) of
                     None \<Rightarrow> (1, [])
                   | Some bs \<Rightarrow>
                       let data = print_hex bytes_per_line 0 (drop 4 bs);
                           image_size = (of_nat (length bs) + 3) AND 0xFFFFFFFC
                       in if \<not> write_size_word then (0, data)
                          else if image_size < 8 then (1, [])
                          else (0, print_hex bytes_per_line 0 (size_word image_size) @ data))"

section \<open>bin2srec\<close>

definition INIT_ADDR :: u64 where [const_simps]: "INIT_ADDR = 0x100100"

definition srec_checksum :: "u64 \<Rightarrow> u8 list \<Rightarrow> u8" where
  "srec_checksum addr cs =
     foldl (-) 0xFF cs - ucast (addr AND 0xFF) - ucast (drop_bit 8 addr AND 0xFF) - ucast (drop_bit 16 addr AND 0xFF) - 0x14"

definition srec_line :: "u64 \<Rightarrow> u8 list \<Rightarrow> u8 list" where
  "srec_line addr cs =
     asc ''S214'' @ hex_prec 6 (unat addr) @ concat (map byte_hex cs) @ byte_hex (srec_checksum addr cs)"

text \<open>The loop ends when a read has met the end of the file.\<close>

function srec_loop :: "u64 \<Rightarrow> u8 list \<Rightarrow> u8 list" where
  "srec_loop addr bs =
     srec_line addr (padded 16 bs) @ [0x0D, 0x0A] @ (if length bs < 16 then [] else srec_loop (addr + 16) (drop 16 bs))"
  by pat_completeness auto
termination
  by (relation "measure (\<lambda>(_, bs). length bs)") auto

declare srec_loop.simps [simp del]

definition bin2srec :: "(string \<Rightarrow> u8 list option) \<Rightarrow> string list \<Rightarrow> (int \<times> u8 list) option" where
  "bin2srec fs args = Some
     (if length args \<noteq> 1 then (1, [])
      else case fs (args ! 0) of None \<Rightarrow> (1, []) | Some bs \<Rightarrow> (0, srec_loop INIT_ADDR bs))"

section \<open>bin2flimg\<close>

definition flimg_word :: "host \<Rightarrow> u8 list \<Rightarrow> u64" where
  "flimg_word h cs = foldl (\<lambda>word c. take_bit (8 * sizeof_ulong h) (push_bit 8 word + ucast c)) 0 cs"

definition flimg_line :: "host \<Rightarrow> nat \<Rightarrow> u8 list \<Rightarrow> u8 list" where
  "flimg_line h width cs =
     hex_prec (if width = 1 then 2 else if width = 2 then 4 else 8) (unat (flimg_word h cs))"

text \<open>Without a width no byte is read, so the end of the file is never met.\<close>

function flimg_loop :: "host \<Rightarrow> nat \<Rightarrow> u8 list \<Rightarrow> u8 list option" where
  "flimg_loop h width bs =
     (if width = 0 then None
      else if length bs < width then Some (flimg_line h width (padded width bs) @ [0x0A])
      else map_option (\<lambda>out. flimg_line h width (padded width bs) @ [0x0A] @ out) (flimg_loop h width (drop width bs)))"
  by pat_completeness auto
termination
  by (relation "measure (\<lambda>(_, _, bs). length bs)") auto

declare flimg_loop.simps [simp del]

definition bin2flimg :: "host \<Rightarrow> (string \<Rightarrow> u8 list option) \<Rightarrow> string list \<Rightarrow> (int \<times> u8 list) option" where
  "bin2flimg h fs args =
     (if length args \<noteq> 2 then Some (1, [])
      else case fs (args ! 1) of
             None \<Rightarrow> Some (1, [])
           | Some bs \<Rightarrow> map_option (Pair 0) (flimg_loop h (nat (atoi h (args ! 0))) bs))"

section \<open>bin2vmem\<close>

definition WORDS_PER_LINE :: nat where [const_simps]: "WORDS_PER_LINE = 4"
definition BYTES_PER_WORD :: nat where [const_simps]: "BYTES_PER_WORD = 4"

fun vmem_loop :: "u32 \<Rightarrow> nat \<Rightarrow> nat \<Rightarrow> bool \<Rightarrow> u8 list \<Rightarrow> u8 list" where
  "vmem_loop current_addr word_counter byte_counter starting_new_line [] = []"
| "vmem_loop current_addr word_counter byte_counter starting_new_line (c # cs) =
     (let line = (if starting_new_line then 0x40 # hex_prec 8 (unat current_addr) else []);
          current_addr = (if starting_new_line then current_addr + of_nat WORDS_PER_LINE else current_addr);
          space = (if byte_counter = 0 then [0x20] else []);
          byte_counter = byte_counter + 1;
          (word_counter, byte_counter) =
            (if byte_counter = BYTES_PER_WORD then (word_counter + 1, 0) else (word_counter, byte_counter));
          out = line @ space @ byte_hex c
      in if word_counter = WORDS_PER_LINE
         then out @ [0x0A] @ vmem_loop current_addr 0 byte_counter True cs
         else out @ vmem_loop current_addr word_counter byte_counter False cs)"

text \<open>The option to write the size first is never set.\<close>

definition bin2vmem :: "(string \<Rightarrow> u8 list option) \<Rightarrow> string list \<Rightarrow> (int \<times> u8 list) option" where
  "bin2vmem fs args = Some
     (if length args < 1 then (1, [])
      else case fs (args ! 0) of None \<Rightarrow> (1, []) | Some bs \<Rightarrow> (0, vmem_loop 0 0 0 True bs))"

section \<open>Digits\<close>

lemma hexnum_byte: "hex_prec 2 (unat c) = ascii2hex [c]"
proof -
  have c: "unat c < 256" using unsigned_less [of c, where 'a = nat] by simp
  have d: "unat (drop_bit 4 c AND 0xF) = unat c div 16" "unat (c AND 0xF) = unat c mod 16"
  proof -
    have "unat (drop_bit 4 c) = unat c div 16" by (simp add: drop_bit_eq_div unat_div)
    moreover have "unat (x AND 0xF) = unat x mod 16" for x :: u8
      by (simp add: and_15 take_bit_eq_mod unat_mod)
    ultimately show "unat (drop_bit 4 c AND 0xF) = unat c div 16" "unat (c AND 0xF) = unat c mod 16"
      using c by auto
  qed
  show ?thesis
  proof (cases "unat c < 16")
    case True
    then have "hexnum (unat c) = [hexchars ! unat c]" by (subst hexnum.simps) simp
    with True show ?thesis by (simp add: hex_prec_def d) (simp add: hexchars_list)
  next
    case False
    with c have "hexnum (unat c) = [hexchars ! (unat c div 16), hexchars ! (unat c mod 16)]"
      by (subst hexnum.simps, subst hexnum.simps) auto
    then show ?thesis by (simp add: hex_prec_def d)
  qed
qed

lemma byte_hex_ascii: "byte_hex c = ascii2hex [c]" "concat (map byte_hex cs) = ascii2hex cs"
  by (induction cs) (simp_all add: byte_hex_def hexnum_byte)

lemma length_byte_hex [simp]: "length (byte_hex c) = 2"
  by (simp add: byte_hex_ascii)

lemma hexchars_zero: "hexchars ! 0 = 0x30"
  by (simp add: hexchars_list)

lemma hex_prec_digit:
  assumes "0 < k"
  shows "hex_prec (Suc k) n = hex_prec k (n div 16) @ [hexchars ! (n mod 16)]"
proof (cases "n < 16")
  case True
  have "hexnum n = [hexchars ! n]" "hexnum 0 = [0x30]"
    using True by (subst hexnum.simps, simp add: hexchars_zero)+
  with True assms show ?thesis
    by (cases k) (simp_all add: hex_prec_def replicate_append_same)
next
  case False
  have "hexnum n = hexnum (n div 16) @ [hexchars ! (n mod 16)]"
    using False by (subst hexnum.simps) simp
  then show ?thesis by (simp add: hex_prec_def)
qed

lemma hex_prec_byte:
  assumes "0 < k"
  shows "hex_prec (k + 2) (256 * n + unat c) = hex_prec k n @ ascii2hex [c]"
proof -
  have c: "unat c < 256" using unsigned_less [of c, where 'a = nat] by simp
  have "(256 * n + unat c) div 16 = 16 * n + unat c div 16" "(256 * n + unat c) mod 16 = unat c mod 16"
    by (simp_all add: mod_add_eq [symmetric] mod_mult_eq [symmetric])
  moreover have "(16 * n + unat c div 16) div 16 = n" "(16 * n + unat c div 16) mod 16 = unat c div 16"
    using c by auto
  moreover have "hex_prec 2 (unat c) = [hexchars ! (unat c div 16), hexchars ! (unat c mod 16)]"
  proof -
    have "hex_prec 2 (unat c) = hex_prec 1 (unat c div 16) @ [hexchars ! (unat c mod 16)]"
      using hex_prec_digit [of 1 "unat c"] by (simp add: numeral_2_eq_2)
    moreover have "hexnum (unat c div 16) = [hexchars ! (unat c div 16)]"
      using c by (subst hexnum.simps) auto
    ultimately show ?thesis by (simp add: hex_prec_def)
  qed
  ultimately show ?thesis
    using assms hex_prec_digit [of "Suc k" "256 * n + unat c"] hex_prec_digit [of k "16 * n + unat c div 16"]
    by (simp add: hexnum_byte)
qed

text \<open>A number from its bytes, the highest first.\<close>

definition bytes_nat :: "u8 list \<Rightarrow> nat" where
  "bytes_nat cs = foldl (\<lambda>n c. 256 * n + unat c) 0 cs"

lemma bytes_nat_snoc: "bytes_nat (cs @ [c]) = 256 * bytes_nat cs + unat c"
  by (simp add: bytes_nat_def)

lemma bytes_nat_less: "bytes_nat cs < 256 ^ length cs"
proof (induction cs rule: rev_induct)
  case (snoc c cs)
  have "unat c < 256" using unsigned_less [of c, where 'a = nat] by simp
  with snoc show ?case by (simp add: bytes_nat_snoc)
qed (simp add: bytes_nat_def)

lemma hex_prec_bytes: "cs \<noteq> [] \<Longrightarrow> hex_prec (2 * length cs) (bytes_nat cs) = ascii2hex cs"
proof (induction cs rule: rev_induct)
  case (snoc c cs)
  have a: "ascii2hex (xs @ ys) = ascii2hex xs @ ascii2hex ys" for xs ys
    by (induction xs) simp_all
  show ?case
  proof (cases "cs = []")
    case True
    then show ?thesis by (simp add: bytes_nat_def hexnum_byte)
  next
    case False
    with snoc.IH hex_prec_byte [of "2 * length cs" "bytes_nat cs" c] show ?thesis
      by (simp add: bytes_nat_snoc a)
  qed
qed simp

lemma digits_no_break: "0x0A \<notin> set (ascii2hex cs)" "0x0D \<notin> set (ascii2hex cs)" "0x20 \<notin> set (ascii2hex cs)"
proof -
  have "list_all (\<lambda>n. hexchars ! n \<notin> {0x0A, 0x0D, 0x20}) [0..<16]" by code_simp
  then have t: "hexchars ! n \<notin> {0x0A, 0x0D, 0x20}" if "n < 16" for n
    using that by (auto simp: list_all_iff)
  have c: "hexchars ! unat (c AND (0xF :: u8)) \<notin> {0x0A, 0x0D, 0x20}" for c
    by (rule t) (simp add: unat_and_15)
  have "0x0A \<noteq> hexchars ! unat (c AND (0xF :: u8))" "0x0D \<noteq> hexchars ! unat (c AND (0xF :: u8))"
    "0x20 \<noteq> hexchars ! unat (c AND (0xF :: u8))" for c
    using c [of c] by simp_all
  then show "0x0A \<notin> set (ascii2hex cs)" "0x0D \<notin> set (ascii2hex cs)" "0x20 \<notin> set (ascii2hex cs)"
    by (induction cs) simp_all
qed

section \<open>Pieces\<close>

lemma concat_chunks: "0 < n \<Longrightarrow> concat (chunks n xs) = xs"
  by (induction n xs rule: chunks.induct) (subst chunks.simps, auto)

lemma chunks_Nil [simp]: "chunks n [] = []"
  by (subst chunks.simps) simp

lemma chunks_append: "length xs = n \<Longrightarrow> xs \<noteq> [] \<Longrightarrow> chunks n (xs @ ys) = xs # chunks n ys"
  by (subst chunks.simps) auto

lemma chunks_short: "xs \<noteq> [] \<Longrightarrow> length xs \<le> n \<Longrightarrow> chunks n xs = [xs]"
  by (subst chunks.simps) (cases n; auto)

lemma length_padded [simp]: "length (padded n bs) = n"
  by (simp add: padded_def)

lemma ascii2hex_append [simp]: "ascii2hex (xs @ ys) = ascii2hex xs @ ascii2hex ys"
  by (induction xs) simp_all

text \<open>A file read in pieces of \<open>n\<close> bytes until a read has met its end: there is always a piece that is
  filled up with zeros, and it has nothing else in it when the length is a multiple of \<open>n\<close>.\<close>

definition filled :: "nat \<Rightarrow> u8 list \<Rightarrow> u8 list" where
  "filled n bs = bs @ replicate (n - length bs mod n) 0"

lemma chunks_filled:
  assumes "0 < n"
  shows "chunks n (filled n bs) = padded n bs # (if length bs < n then [] else chunks n (filled n (drop n bs)))"
proof (cases "length bs < n")
  case True
  then have "length (filled n bs) = n" "filled n bs = padded n bs" by (simp_all add: filled_def padded_def)
  moreover from this(1) assms have "filled n bs \<noteq> []" by auto
  ultimately show ?thesis using True chunks_short [of "filled n bs" n] by auto
next
  case False
  then have "filled n bs = take n bs @ filled n (drop n bs)"
    by (simp add: filled_def le_mod_geq)
  moreover have "take n bs = padded n bs" "take n bs \<noteq> []" using False assms by (auto simp: padded_def)
  ultimately show ?thesis
    using False chunks_append [of "padded n bs" n "filled n (drop n bs)"] by simp
qed

section \<open>What the readers make of the output\<close>

subsection \<open>S-records\<close>

text \<open>A record of type S2: the number of bytes behind it, an address of three bytes, the data and a
  checksum that makes the sum of all of them 255. The result is the address with the data.\<close>

definition srec_record :: "u8 list \<Rightarrow> (nat \<times> u8 list) option" where
  "srec_record line =
     (if take 2 line \<noteq> asc ''S2'' then None
      else case hex2ascii (drop 2 line) of
             count # a # b # c # rest \<Rightarrow>
               if unat count = length rest + 3 \<and> rest \<noteq> [] \<and> sum_list (count # a # b # c # rest) = 0xFF
               then Some (bytes_nat [a, b, c], butlast rest) else None
           | _ \<Rightarrow> None)"

lemma foldl_minus: "foldl (-) x cs = x - sum_list cs" for x :: u8
  by (induction cs arbitrary: x) (simp_all add: diff_diff_eq)

lemma addr_bytes:
  fixes addr :: u64
  assumes "unat addr < 2 ^ 24"
  defines "a \<equiv> ucast (drop_bit 16 addr AND 0xFF) :: u8" and "b \<equiv> ucast (drop_bit 8 addr AND 0xFF) :: u8"
    and "c \<equiv> ucast (addr AND 0xFF) :: u8"
  shows "bytes_nat [a, b, c] = unat addr"
proof -
  have m: "unat (ucast (x AND 0xFF) :: u8) = unat x mod 256" for x :: u64
  proof -
    have "x AND 0xFF = take_bit 8 x" by (simp add: take_bit_eq_mask mask_eq_exp_minus_1)
    then show ?thesis by (simp add: unsigned_ucast_eq unsigned_take_bit_eq take_bit_eq_mod unat_mod)
  qed
  have "unat (drop_bit k addr) = unat addr div 2 ^ k" for k
  proof -
    have "unat (drop_bit k addr) = drop_bit k (unat addr)"
      using assms(1) by (simp add: unsigned_drop_bit_eq take_bit_nat_eq_self)
    then show ?thesis by (simp only: drop_bit_eq_div [of k "unat addr"])
  qed
  then have "unat a = unat addr div 65536" "unat b = unat addr div 256 mod 256" "unat c = unat addr mod 256"
    using assms(1) by (auto simp: a_def b_def c_def m)
  moreover have "unat addr div 256 div 256 = unat addr div 65536" by (simp add: div_mult2_eq [symmetric])
  moreover have "256 * (unat addr div 256 div 256) + unat addr div 256 mod 256 = unat addr div 256" by simp
  moreover have "256 * (unat addr div 256) + unat addr mod 256 = unat addr" by simp
  ultimately show ?thesis by (simp add: bytes_nat_def del: mult_div_mod_eq)
qed

lemma srec_record_line:
  assumes "unat addr < 2 ^ 24" "length cs = 16"
  shows "srec_record (srec_line addr cs) = Some (unat addr, cs)" and "0x0D \<notin> set (srec_line addr cs)"
    and "0x0A \<notin> set (srec_line addr cs)"
proof -
  define a b c :: u8 where "a = ucast (drop_bit 16 addr AND 0xFF)" and "b = ucast (drop_bit 8 addr AND 0xFF)"
    and "c = ucast (addr AND 0xFF)"
  define k where "k = srec_checksum addr cs"
  have n: "bytes_nat [a, b, c] = unat addr"
    using addr_bytes [OF assms(1)] by (simp add: a_def b_def c_def)
  have "hex_prec 6 (unat addr) = ascii2hex [a, b, c]"
    using hex_prec_bytes [of "[a, b, c]"] n by simp
  moreover have "asc ''S214'' = asc ''S2'' @ ascii2hex [0x14]"
    by (simp add: asc_def hexchars_list)
  ultimately have l: "srec_line addr cs = asc ''S2'' @ ascii2hex ([0x14, a, b, c] @ cs @ [k])"
    by (simp add: srec_line_def byte_hex_ascii k_def)
  have "sum_list (0x14 # a # b # c # cs @ [k]) = 0xFF"
    by (simp add: k_def srec_checksum_def foldl_minus a_def b_def c_def)
  moreover have "hex2ascii (ascii2hex (0x14 # a # b # c # cs @ [k])) = 0x14 # a # b # c # cs @ [k]"
    by (rule hex2ascii_ascii2hex)
  ultimately show "srec_record (srec_line addr cs) = Some (unat addr, cs)"
    using assms(2) n by (simp add: srec_record_def l asc_def del: ascii2hex.simps ascii2hex_append)
  show "0x0D \<notin> set (srec_line addr cs)" "0x0A \<notin> set (srec_line addr cs)"
    using digits_no_break by (simp_all add: l asc_def del: ascii2hex.simps ascii2hex_append)
qed

lemma srec_loop_lines:
  "srec_loop (addr + 16 * of_nat k) bs = concat (map (\<lambda>(i, l). srec_line (addr + 16 * of_nat i) l @ [0x0D, 0x0A])
     (enumerate k (chunks 16 (filled 16 bs))))"
proof (induction "length bs" arbitrary: bs k rule: less_induct)
  case less
  have a: "addr + 16 * of_nat k + 16 = addr + 16 * of_nat (Suc k)" by (simp add: algebra_simps)
  show ?case
  proof (cases "length bs < 16")
    case True
    then show ?thesis by (subst srec_loop.simps) (simp add: chunks_filled)
  next
    case False
    with less.hyps [of "drop 16 bs" "Suc k"] show ?thesis
      by (subst srec_loop.simps) (simp add: chunks_filled [of 16 bs] a)
  qed
qed

lemma chunks_filled_length: "0 < n \<Longrightarrow> l \<in> set (chunks n (filled n bs)) \<Longrightarrow> length l = n"
proof (induction "length bs" arbitrary: bs rule: less_induct)
  case less
  show ?case
  proof (cases "length bs < n")
    case False
    with less.hyps [of "drop n bs"] less.prems chunks_filled [OF less.prems(1), of bs] show ?thesis by auto
  qed (use less.prems chunks_filled [OF less.prems(1), of bs] in simp)
qed

lemma length_chunks_filled: "0 < n \<Longrightarrow> length (chunks n (filled n bs)) = length bs div n + 1"
proof (induction "length bs" arbitrary: bs rule: less_induct)
  case less
  then show ?case by (subst chunks_filled) (auto simp: le_div_geq)
qed

subsection \<open>Words\<close>

lemma unat_flimg_word:
  assumes "length cs \<le> 4" "4 \<le> sizeof_ulong h"
  shows "unat (flimg_word h cs) = bytes_nat cs"
  using assms(1)
proof (induction cs rule: rev_induct)
  case Nil
  then show ?case by (simp add: flimg_word_def bytes_nat_def)
next
  case (snoc c cs)
  let ?w = "flimg_word h cs"
  have c: "unat c < 256" using unsigned_less [of c, where 'a = nat] by simp
  have w: "unat ?w = bytes_nat cs" using snoc by simp
  have "bytes_nat cs < 256 ^ length cs" by (rule bytes_nat_less)
  also have "\<dots> \<le> 256 ^ 3" using snoc.prems by (intro power_increasing) auto
  finally have less: "bytes_nat cs < 2 ^ 24" by simp
  have p: "unat (push_bit 8 ?w) = 256 * bytes_nat cs"
    using less by (simp add: push_bit_eq_mult unat_mult_lem [THEN iffD1] w)
  have "unat (push_bit 8 ?w + ucast c) = 256 * bytes_nat cs + unat c"
    using less c by (simp add: unat_word_ariths p unsigned_ucast_eq take_bit_nat_eq_self)
  moreover have "256 * bytes_nat cs + unat c < 2 ^ (8 * sizeof_ulong h)"
  proof -
    have "256 * bytes_nat cs + unat c < 2 ^ 32" using less c by simp
    also have "(2 :: nat) ^ 32 \<le> 2 ^ (8 * sizeof_ulong h)" using assms(2) by (intro power_increasing) auto
    finally show ?thesis .
  qed
  ultimately have "unat (take_bit (8 * sizeof_ulong h) (push_bit 8 ?w + ucast c)) = 256 * bytes_nat cs + unat c"
    by (simp only: unsigned_take_bit_eq take_bit_nat_eq_self)
  then show ?case by (simp add: bytes_nat_snoc) (simp add: flimg_word_def)
qed

lemma flimg_line_bytes:
  assumes "width \<in> {1, 2, 4}" "length cs = width" "4 \<le> sizeof_ulong h"
  shows "flimg_line h width cs = ascii2hex cs"
proof -
  have "cs \<noteq> []" using assms(1,2) by auto
  from hex_prec_bytes [OF this] assms show ?thesis
    by (auto simp: flimg_line_def unat_flimg_word)
qed

lemma flimg_loop_lines:
  assumes "width \<in> {1, 2, 4}" "4 \<le> sizeof_ulong h"
  shows "flimg_loop h width bs = Some (concat (map (\<lambda>l. ascii2hex l @ [0x0A]) (chunks width (filled width bs))))"
proof (induction "length bs" arbitrary: bs rule: less_induct)
  case less
  have w: "0 < width" using assms(1) by auto
  have l: "flimg_line h width (padded width bs) = ascii2hex (padded width bs)"
    by (rule flimg_line_bytes) (use assms in simp_all)
  show ?case
  proof (cases "length bs < width")
    case True
    with w l show ?thesis by (subst flimg_loop.simps) (simp add: chunks_filled)
  next
    case False
    with w l less.hyps [of "drop width bs"] show ?thesis
      by (subst flimg_loop.simps) (simp add: chunks_filled [of width bs])
  qed
qed

subsection \<open>Lines of bytes and words\<close>

lemma print_hex_short: "length cs < n - i \<Longrightarrow> print_hex (int n) (int i) cs = ascii2hex cs"
proof (induction cs arbitrary: i)
  case (Cons c cs)
  then have "int i + 1 \<noteq> int n" "int i + 1 = int (Suc i)" by auto
  with Cons.IH [of "Suc i"] Cons.prems show ?case by (simp add: byte_hex_ascii add.commute)
qed simp

lemma print_hex_line:
  "cs \<noteq> [] \<Longrightarrow> length cs = n - i \<Longrightarrow>
   print_hex (int n) (int i) (cs @ rest) = ascii2hex cs @ 0x0A # print_hex (int n) 0 rest"
proof (induction cs arbitrary: i)
  case (Cons c cs)
  show ?case
  proof (cases "cs = []")
    case True
    with Cons.prems have "int i + 1 = int n" by simp
    with True show ?thesis by (simp add: byte_hex_ascii)
  next
    case False
    with Cons.prems have "int i + 1 \<noteq> int n" "int i + 1 = int (Suc i)" by (cases cs; auto)+
    with Cons.IH [of "Suc i"] Cons.prems False show ?thesis by (simp add: byte_hex_ascii add.commute)
  qed
qed simp

text \<open>A break behind every full line.\<close>

lemma print_hex_lines:
  assumes "0 < n"
  shows "print_hex (int n) 0 bs = concat (map (\<lambda>l. ascii2hex l @ (if length l = n then [0x0A] else [])) (chunks n bs))"
proof (induction "length bs" arbitrary: bs rule: less_induct)
  case less
  show ?case
  proof (cases "length bs < n")
    case True
    with print_hex_short [of bs n 0] assms chunks_short [of bs n] show ?thesis
      by (cases "bs = []") auto
  next
    case False
    then have t: "length (take n bs) = n" "take n bs \<noteq> []" using assms by auto
    with print_hex_line [of "take n bs" n 0 "drop n bs"] less.hyps [of "drop n bs"] False assms
      chunks_append [OF t, of "drop n bs"]
    show ?thesis by auto
  qed
qed

lemma print_hex_digits: "filter (\<lambda>c. c \<noteq> 0x0A) (print_hex n i bs) = ascii2hex bs"
proof -
  have f: "filter (\<lambda>c. c \<noteq> 0x0A) (ascii2hex cs) = ascii2hex cs" for cs
    using digits_no_break(1) [of cs] by (intro filter_True) auto
  have "filter (\<lambda>c. c \<noteq> 0x0A) (byte_hex c) = byte_hex c" for c
    using f [of "[c]"] by (simp only: byte_hex_ascii)
  moreover have "ascii2hex (c # cs) = byte_hex c @ ascii2hex cs" for c cs by (simp add: byte_hex_ascii)
  ultimately show ?thesis
    by (induction n i bs rule: print_hex.induct) (simp_all del: ascii2hex.simps(2))
qed

text \<open>The words of a line; \<open>k\<close> bytes of the current word are there already.\<close>

fun word_text :: "nat \<Rightarrow> u8 list \<Rightarrow> u8 list" where
  "word_text k [] = []"
| "word_text k (c # cs) = (if k = 0 then [0x20] else []) @ byte_hex c @ word_text ((k + 1) mod 4) cs"

lemma vmem_short:
  "k < 4 \<Longrightarrow> 4 * w + k + length cs < 16 \<Longrightarrow> vmem_loop a w k False cs = word_text k cs"
proof (induction cs arbitrary: w k)
  case (Cons c cs)
  show ?case
  proof (cases "k = 3")
    case True
    with Cons.prems have "Suc w \<noteq> 4" by simp
    with True Cons.IH [of 0 "Suc w"] Cons.prems show ?thesis by (simp add: const_simps)
  next
    case False
    with Cons.IH [of "Suc k" w] Cons.prems show ?thesis by (simp add: const_simps Let_def)
  qed
qed simp

lemma vmem_full:
  "k < 4 \<Longrightarrow> 4 * w + k + length cs = 16 \<Longrightarrow> cs \<noteq> [] \<Longrightarrow>
   vmem_loop a w k False (cs @ rest) = word_text k cs @ 0x0A # vmem_loop a 0 0 True rest"
proof (induction cs arbitrary: w k)
  case (Cons c cs)
  show ?case
  proof (cases "cs = []")
    case True
    with Cons.prems have "4 * w + k = 15" by simp
    with Cons.prems(1) have "k = 3" "w = 3" by presburger+
    with True show ?thesis by (simp add: const_simps)
  next
    case False
    show ?thesis
    proof (cases "k = 3")
      case True
      with Cons.prems False have "Suc w \<noteq> 4" by (cases cs) auto
      with True Cons.IH [of 0 "Suc w"] Cons.prems False show ?thesis by (simp add: const_simps)
    next
      case k: False
      with Cons.IH [of "Suc k" w] Cons.prems False show ?thesis by (simp add: const_simps Let_def)
    qed
  qed
qed simp

lemma word_text_words: "word_text 0 cs = concat (map (\<lambda>w. 0x20 # ascii2hex w) (chunks 4 cs))"
proof (induction "length cs" arbitrary: cs rule: less_induct)
  case less
  show ?case
  proof (cases "length cs < 4")
    case True
    have c: "cs \<in> {[]} \<or> (\<exists>a. cs = [a]) \<or> (\<exists>a b. cs = [a, b]) \<or> (\<exists>a b c. cs = [a, b, c])"
      using True by (cases cs; cases "tl cs"; cases "tl (tl cs)"; cases "tl (tl (tl cs))") auto
    then show ?thesis
      by (auto simp: chunks_short byte_hex_ascii)
  next
    case False
    then obtain a b c d rest where cs: "cs = [a, b, c, d] @ rest"
      by (cases cs; cases "tl cs"; cases "tl (tl cs)"; cases "tl (tl (tl cs))") auto
    with less.hyps [of rest] chunks_append [of "[a, b, c, d]" 4 rest] show ?thesis
      by (simp add: byte_hex_ascii)
  qed
qed

text \<open>The format: a line for every sixteen bytes, with the number of its first word and the words.\<close>

definition vmem_line :: "nat \<Rightarrow> u8 list \<Rightarrow> u8 list" where
  "vmem_line k l = 0x40 # hex_prec 8 (4 * k) @ concat (map (\<lambda>w. 0x20 # ascii2hex w) (chunks 4 l))"

lemma vmem_loop_first:
  "cs \<noteq> [] \<Longrightarrow> vmem_loop a 0 0 True cs = 0x40 # hex_prec 8 (unat a) @ vmem_loop (a + 4) 0 0 False cs"
  by (cases cs) (simp_all add: const_simps)

lemma vmem_loop_lines:
  assumes "4 * (k + length bs) < 2 ^ 32"
  shows "vmem_loop (of_nat (4 * k)) 0 0 True bs = concat (map (\<lambda>(i, l). vmem_line i l @ (if length l = 16 then [0x0A] else []))
    (enumerate k (chunks 16 bs)))"
  using assms
proof (induction "length bs" arbitrary: bs k rule: less_induct)
  case less
  have u: "unat (of_nat (4 * k) :: u32) = 4 * k"
    using less.prems by (subst unat_of_nat) simp
  have a: "of_nat (4 * k) + 4 = (of_nat (4 * Suc k) :: u32)" by (simp add: algebra_simps)
  show ?case
  proof (cases "bs = []")
    case False
    note first = vmem_loop_first [OF this, of "of_nat (4 * k)", unfolded u a]
    show ?thesis
    proof (cases "length bs < 16")
      case True
      with False show ?thesis
        using vmem_short [of 0 0 bs "of_nat (4 * Suc k)"] chunks_short [OF False, of 16]
        by (simp only: first) (simp add: vmem_line_def word_text_words)
    next
      case long: False
      then have t: "length (take 16 bs) = 16" "take 16 bs \<noteq> []" using False by auto
      have "vmem_loop (of_nat (4 * Suc k)) 0 0 False (take 16 bs @ drop 16 bs) =
          word_text 0 (take 16 bs) @ 0x0A # vmem_loop (of_nat (4 * Suc k)) 0 0 True (drop 16 bs)"
        by (rule vmem_full) (use t in simp_all)
      with first less.hyps [of "drop 16 bs" "Suc k"] less.prems long t chunks_append [OF t, of "drop 16 bs"]
      show ?thesis by (simp add: vmem_line_def word_text_words)
    qed
  qed simp
qed

section \<open>Properties of the tools\<close>

text \<open>C29: the S-records that \<^verbatim>\<open>bin2srec\<close> prints are read back to the image. Every line
  is a record of type S2 with a right checksum, the addresses follow each other from 0x100100 on, and
  the data are the bytes of the file, filled up with zeros: there is always one record that the end
  of the file cuts off, which has only zeros when the length is a multiple of 16.\<close>

theorem srec_roundtrip:
  assumes "fs name = Some bs" and "length bs < 0xEFEF0"
  shows "\<exists>lines. bin2srec fs [name] = Some (0, concat (map (\<lambda>l. l @ [0x0D, 0x0A]) lines)) \<and>
    (\<forall>l \<in> set lines. 0x0D \<notin> set l \<and> 0x0A \<notin> set l) \<and> length lines = length bs div 16 + 1 \<and>
    map srec_record lines =
      map (\<lambda>(i, l). Some (0x100100 + 16 * i, l)) (enumerate 0 (chunks 16 (bs @ replicate (16 - length bs mod 16) 0)))"
proof -
  let ?pieces = "enumerate 0 (chunks 16 (filled 16 bs))"
  let ?line = "\<lambda>(i, l). srec_line (INIT_ADDR + 16 * of_nat i) l"
  have piece: "unat (INIT_ADDR + 16 * of_nat i) = 0x100100 + 16 * i \<and> 0x100100 + 16 * i < 2 ^ 24 \<and> length l = 16"
    if "(i, l) \<in> set ?pieces" for i l
  proof -
    from that have "i < length bs div 16 + 1" "l \<in> set (chunks 16 (filled 16 bs))"
      by (auto simp: in_set_enumerate_eq length_chunks_filled)
    then have "i < 0xEFF0" "length l = 16" using assms(2) chunks_filled_length [of 16 l bs] by auto
    then show ?thesis by (simp add: INIT_ADDR_def unat_word_ariths unat_of_nat)
  qed
  have r: "srec_record (?line p) = (\<lambda>(i, l). Some (0x100100 + 16 * i, l)) p \<and> 0x0D \<notin> set (?line p) \<and> 0x0A \<notin> set (?line p)"
    if "p \<in> set ?pieces" for p
    using that piece [of "fst p" "snd p"] srec_record_line [of "INIT_ADDR + 16 * of_nat (fst p)" "snd p"]
    by (auto simp: split_beta)
  have "bin2srec fs [name] = Some (0, concat (map (\<lambda>l. l @ [0x0D, 0x0A]) (map ?line ?pieces)))"
    using srec_loop_lines [of INIT_ADDR 0 bs] assms(1) by (simp add: bin2srec_def split_def comp_def)
  with r show ?thesis
    by (intro exI [of _ "map ?line ?pieces"]) (auto simp: length_chunks_filled filled_def [symmetric])
qed

theorem srec_roundtrip_witness:
  "\<exists>lines. bin2srec [''a'' \<mapsto> [1, 2, 3]] [''a''] = Some (0, concat (map (\<lambda>l. l @ [0x0D, 0x0A]) lines)) \<and>
    map srec_record lines = [Some (0x100100, [1, 2, 3] @ replicate 13 0)]"
proof -
  let ?bs = "[1, 2, 3] :: u8 list"
  have "chunks 16 (?bs @ replicate (16 - length ?bs mod 16) 0) = [?bs @ replicate 13 0]"
    by (subst chunks_short) simp_all
  then have e: "map (\<lambda>(i, l). Some (0x100100 + 16 * i, l)) (enumerate 0 (chunks 16 (?bs @ replicate (16 - length ?bs mod 16) 0)))
      = [Some (0x100100, ?bs @ replicate 13 0)]"
    by (simp only: enumerate_simps list.map split add_0_right mult_0_right)
  have f: "[''a'' \<mapsto> ?bs] ''a'' = Some ?bs" "length ?bs < 0xEFEF0" by simp_all
  from srec_roundtrip [of "[''a'' \<mapsto> ?bs]" "''a''" ?bs, OF f, unfolded e] show ?thesis
    by (rule ex_forward) (elim conjE, intro conjI; assumption)
qed

text \<open>C30: \<^verbatim>\<open>bin2vmem\<close> prints its format. The counters of the loop over the bytes give a line
  for every sixteen bytes, with the number of its first word, up to four words of up to four bytes,
  and a break when it is full.\<close>

theorem vmem_format:
  assumes "fs name = Some bs" and "length bs < 2 ^ 30"
  shows "bin2vmem fs (name # args) = Some (0, concat (map (\<lambda>(i, l). vmem_line i l @ (if length l = 16 then [0x0A] else []))
    (enumerate 0 (chunks 16 bs))))"
  using vmem_loop_lines [of 0 bs] assms by (simp add: bin2vmem_def)

theorem vmem_format_witness:
  "bin2vmem [''a'' \<mapsto> [1, 2, 3, 4, 5]] [''a''] = Some (0, asc ''@00000000 01020304 05'')"
proof -
  have "concat (map (\<lambda>(i, l). vmem_line i l @ (if length l = 16 then [0x0A] else []))
    (enumerate 0 (chunks 16 [1, 2, 3, 4, 5]))) = asc ''@00000000 01020304 05''"
    by code_simp
  then show ?thesis
    using vmem_format [of "[''a'' \<mapsto> [1, 2, 3, 4, 5]]" "''a''" "[1, 2, 3, 4, 5]" "[]"] by simp
qed

text \<open>\<^verbatim>\<open>bin2hex\<close> prints the size, when asked to, and the bytes of the file from the fifth on;
  \<^verbatim>\<open>bin2flimg\<close> prints words with the first byte highest.\<close>

lemma hex_digits:
  assumes "fs name = Some bs" "atoi h n = int w" "0 < w" "w \<le> 8"
  shows "\<exists>out. bin2hex h fs [name, n] = Some (0, out) \<and> hex2ascii (filter (\<lambda>c. c \<noteq> 0x0A) out) = drop 4 bs \<and>
    out = concat (map (\<lambda>l. ascii2hex l @ (if length l = w then [0x0A] else [])) (chunks w (drop 4 bs)))"
  using assms print_hex_lines [OF assms(3), of "drop 4 bs"]
  by (simp add: bin2hex_def print_hex_digits hex2ascii_ascii2hex flip: print_hex_lines)

lemma hex_size:
  assumes "fs name = Some bs" "atoi h n = int w" "0 < w" "w \<le> 8" "5 \<le> length bs" "length bs < 2 ^ 31"
  shows "\<exists>out. bin2hex h fs [name, n, ''-size_word''] = Some (0, out) \<and>
    hex2ascii (filter (\<lambda>c. c \<noteq> 0x0A) out) = size_word (of_nat (4 * ((length bs + 3) div 4))) @ drop 4 bs"
proof -
  let ?x = "of_nat (length bs) + 3 :: u32"
  have u: "unat ?x = length bs + 3" using assms(6) by (simp add: unat_word_ariths unat_of_nat)
  have s: "2 \<le> n \<Longrightarrow> Suc (Suc (n - 2)) = n" for n :: nat by arith
  have "x AND NOT (mask 2) = push_bit 2 (drop_bit 2 x)" for x :: u32
    by (rule bit_word_eqI) (auto simp: bit_simps s)
  moreover have "(0xFFFFFFFC :: u32) = NOT (mask 2)" by (simp add: mask_eq_exp_minus_1)
  ultimately have "?x AND 0xFFFFFFFC = push_bit 2 (drop_bit 2 ?x)" by metis
  also have "\<dots> = of_nat (4 * (unat ?x div 4))"
  proof -
    have "drop_bit 2 ?x = of_nat (unat (drop_bit 2 ?x))" by simp
    also have "unat (drop_bit 2 ?x) = unat ?x div 4" by (simp add: drop_bit_eq_div unat_div)
    finally show ?thesis by (simp add: push_bit_eq_mult)
  qed
  finally have x: "?x AND 0xFFFFFFFC = of_nat (4 * ((length bs + 3) div 4))" by (simp only: u)
  have "unat (of_nat (4 * ((length bs + 3) div 4)) :: u32) = 4 * ((length bs + 3) div 4)"
    using assms(6) by (subst unat_of_nat) simp
  with assms(5) have "\<not> (of_nat (4 * ((length bs + 3) div 4)) :: u32) < 8" by (simp add: word_less_nat_alt)
  with assms(1-4) x show ?thesis
    by (simp add: bin2hex_def Let_def print_hex_digits hex2ascii_ascii2hex flip: ascii2hex_append)
qed

lemma flimg_words:
  assumes "fs name = Some bs" "atoi h n = int w" "w \<in> {1, 2, 4}" "4 \<le> sizeof_ulong h"
  shows "bin2flimg h fs [n, name] = Some (0, concat (map (\<lambda>l. ascii2hex l @ [0x0A]) (chunks w (filled w bs))))"
  using assms by (simp add: bin2flimg_def flimg_loop_lines)

lemma flimg_never_ends:
  "fs name = Some bs \<Longrightarrow> atoi h n \<le> 0 \<Longrightarrow> bin2flimg h fs [n, name] = None"
  by (simp add: bin2flimg_def flimg_loop.simps)

end
