(* ===== verification/Spec2Isabelle.thy ===== *)
theory Spec2Isabelle
  imports Jtag_Enum Cable_Parallel Rsp_Requests Jsp_Server Bridge_Main Cable_Ft245 Sim_Module Image_Tools
begin

text \<open>
  \<^bold>\<open>Verification of the advanced JTAG bridge\<close>

  The program (\<^verbatim>\<open>src/hardware/cores/adv_debug_sys/Software/adv_jtag_bridge\<close>; file names below
  are relative to it) connects GDB to an OpenRISC CPU over JTAG. Its parts form a stack. A
  cable driver moves single bits to the TAP of the chip; the cable layer turns streams of bits
  into calls of the driver; the scan-chain layer knows the TAP states and the other devices
  on the chain; above it two debug units, the advanced one and the legacy one, read and write
  CPU registers and memory in packets guarded by CRCs; the debug API serialises the accesses
  of all threads. On top run a thread that watches whether the CPU has halted, and three
  servers: one speaks the GDB remote serial protocol, one lends the hardware watchpoints to
  external programs, one relays the JTAG serial port to a telnet client. The servers talk to the
  watching thread through pipes, and the first two share the table of watchpoints in use.

  \<^bold>\<open>Theories and sources\<close>

  \<^item> \<open>Bridge_Prelude\<close>: error codes (\<^verbatim>\<open>errcodes.c\<close>), the host machine, word and list lemmas, the
    collections \<open>const_simps\<close> and \<open>clock_simps\<close>.
  \<^item> \<open>Cable_Common\<close> (\<^verbatim>\<open>cable_common.c\<close>) and \<open>Cable_Parallel\<close> (\<^verbatim>\<open>cable_parallel.c\<close>): a driver is the
    record of its functions, as in C. The locales \<open>clocked_cable\<close>, \<open>reliable_cable\<close> and
    \<open>bitbang_driver\<close> say what the layers above rely on; the three parallel-port drivers are
    interpretations. \<open>bit_cable\<close> is the contract of drivers with a state of their own.
  \<^item> \<open>Blaster_Stream\<close>, \<open>Cable_Usbblaster\<close> (\<^verbatim>\<open>cable_usbblaster.c\<close>), \<open>Cable_Ft245\<close> (\<^verbatim>\<open>cable_ft245.c\<close>): the
    drivers for the USB Blaster, which send whole bytes in packets. \<open>byte_shifter\<close> and
    \<open>fast_driver\<close> are what the common loops need; \<open>blaster_adapter\<close> is the protocol of the adapter,
    \<open>libusb_adapter\<close> and \<open>ftdi_adapter\<close> carry it over the libraries, and are interpreted on an
    adapter with a device behind it.
  \<^item> \<open>Cable_Sim\<close> (\<^verbatim>\<open>cable_sim.c\<close>), \<open>Sim_Module\<close> (\<^verbatim>\<open>sim_lib/src/jp-io-vpi.c\<close>, \<^verbatim>\<open>sim_rtl/dbg_comm_vpi.v\<close>):
    the drivers for simulators, and the other end of the socket. \<open>vpi_peer\<close> is the protocol between
    them; \<open>fair_simulation\<close> shows that the module keeps it whatever the order of events.
  \<^item> \<open>Chain_Commands\<close> (\<^verbatim>\<open>chain_commands.c\<close>), \<open>Jtag_Tap\<close>, \<open>Jtag_Enum\<close>: the operations on the
    chain, against the TAP controller of IEEE 1149.1 and against chains of chips with ID
    codes. Resetting reaches Run-Test/Idle from every state; setting the instruction register
    loads the command into one device and BYPASS into the others; enumeration finds every chip.
  \<^item> \<open>Adv_Dbg\<close>, \<open>Adv_Crc\<close>, \<open>Adv_Burst\<close> (\<^verbatim>\<open>adv_dbg_commands.c\<close>): the commands of the advanced
    debug unit, the algebra of its CRC, and what its burst reads and writes send and return,
    bit by bit, on every module and word size, with the way they go on after a bus error.
  \<^item> \<open>Legacy_Dbg\<close> (\<^verbatim>\<open>legacy_dbg_commands.c\<close>), \<open>Dbg_Api\<close> (\<^verbatim>\<open>dbg_api.c\<close>): the legacy unit, and the API
    over both with its byte order. Every function of the API takes the mutex, flushes the cable and
    gives the mutex back on each of its own returns, as in C, and all of them are shown to do so.
  \<^item> \<open>Hw_Monitor\<close> (\<^verbatim>\<open>hardware_monitor.c\<close>): the watching thread with its connections, pipes and mutex;
    every step of the thread and of its clients, their invariant over all interleavings of
    these steps, and what one round does with a command. A registration is two steps, the test
    for room and the part under the mutex (\<open>register_check\<close>, \<open>register_locked\<close>), so that other
    threads can come in between.
  \<^item> \<open>Rsp_Codec\<close>, \<open>Rsp_Link\<close>, \<open>Link_Frame\<close>: the packets that the first two servers exchange. The locales
    \<open>client_link\<close>, \<open>total_link\<close> and \<open>link_inv\<close> are what the packet routines need of the
    function that closes a client; they give the bounds of the buffer, termination, and the
    conditions that every routine keeps. \<open>C_Scan\<close> is the part of \<open>sscanf\<close> the servers use.
  \<^item> \<open>Rsp_Hash\<close>: the matchpoint table, shown to refine a finite map (\<open>keyed_table\<close>).
  \<^item> \<open>Spr_Access\<close>, \<open>Hwp_Server\<close> (\<^verbatim>\<open>spr-defs.h\<close>, \<^verbatim>\<open>hwp_server.c\<close>): the registers, the calls of the API
    by a server, the watchpoint server and the pool of watchpoints (\<open>number_pool\<close>).
  \<^item> \<open>Rsp_Server\<close> (\<^verbatim>\<open>rsp-server.c\<close>): the GDB server, one definition per function. \<open>Rsp_Table\<close> shows
    for every handler what it keeps of the matchpoints and watchpoints (\<open>insert_inv\<close>,
    \<open>removal_inv\<close>), \<open>Rsp_Props\<close> draws the invariants of the server from that, \<open>Rsp_Requests\<close>
    states the effect of single requests. A detach is a list of steps (\<open>detach_steps\<close>), and what
    becomes of it is shown for every way the monitor's rounds come in between (\<open>interleaved\<close>). \<open>Unplugged\<close> is the smallest target they run on.
  \<^item> \<open>Jsp_Server\<close> (\<^verbatim>\<open>jsp_server.c\<close>): the serial port server. Its two ring buffers are queues
    (\<open>byte_queue\<close>); \<open>serial_inv\<close> is a condition that every event around its thread keeps, and
    gives the order of the bytes in both directions.
  \<^item> \<open>Bsdl_Parse\<close> (\<^verbatim>\<open>bsdl_parse.c\<close>): the reader of BSDL files, with the round trip of what it reads.
    \<open>Bsdl_Search\<close> (\<^verbatim>\<open>bsdl.c\<close>): the lazy search through directories and files; its answers are those of
    a fixed collection of descriptions (\<open>catalogue\<close>, interpreted as \<open>files\<close>).
  \<^item> \<open>Bridge_Config\<close> (\<^verbatim>\<open>adv_jtag_bridge.c\<close>): the configuration of the chain from the ID codes, the
    files and the options. \<open>chip_chain\<close> is what it needs of the chips.
  \<^item> \<open>Self_Test\<close> (\<^verbatim>\<open>or32_selftest.c\<close>): the self test, over the calls of the API it uses. On every port that
    behaves like an OpenRISC CPU with memory (\<open>or1k_target\<close>) it passes; the program it runs on the CPU is
    followed instruction by instruction.
  \<^item> \<open>Bridge_Main\<close> (\<^verbatim>\<open>adv_jtag_bridge.c\<close>): the command line and the main program up to the start of the servers,
    where cable, configuration and self test come together.
  \<^item> \<open>Image_Tools\<close> (\<^verbatim>\<open>src/software/utils\<close>): the programs that turn images into text files, which are
    not part of the bridge, and what a reader makes of their output.

  \<^bold>\<open>State and effects\<close>

  State is passed explicitly: \<open>chain\<close> holds the globals of the lower layers with the cable's
  own state in it, \<open>dbg\<close> adds the mutex of the API, \<open>target\<close> the watching thread, and the
  servers' records extend the \<open>link\<close> to their client. What the program is told by its
  surroundings is data: the TDO line is the answer of a device to the clocks it has seen, the
  results of \<open>read\<close>, \<open>write\<close>, \<open>poll\<close>, \<open>select\<close>, \<open>accept\<close> and \<open>pipe\<close> are lists or arguments,
  and everything C leaves open (long shifts, bytes behind arrays, uninitialised variables,
  the size of \<open>unsigned long\<close>, failing \<open>malloc\<close>) is a field of \<open>host\<close>. Error codes are the
  program's own words. Machine integers have their width and wrap around.

  The result None means that a call does not come back: the process has ended, a read waits
  for ever, a loop goes on for ever, or a mutex is never released; the transfer of the serial
  port also gives None where a received count above eight would write behind the buffer. Where
  ending and hanging are told apart, the result is an \<open>outcome\<close>: \<open>Hangs\<close>, \<open>Exits\<close> or \<open>Returns\<close>. The
  reader of BSDL files has None for a loop without end alone and \<open>Undefined\<close> for what C leaves
  undefined. Taking the mutex of the API that is not free blocks (\<open>Stuck\<close>), and so does giving
  back one that is not held. Loops that end are recursive functions with a measure; loops over the socket are \<open>partial_function\<close>s, and that they return when the client
  hangs up is a theorem. No fuel is used.

  \<^bold>\<open>What is not modelled\<close>

  Messages to the terminal; the FT2232 and XPC drivers (\<^verbatim>\<open>cable_ft2232.c\<close>,
  \<^verbatim>\<open>cable_xpc_dlc9.c\<close>); \<^verbatim>\<open>cable_usbblaster_ftdi.c\<close>, which is not part of any build; \<open>getopt\<close>, whose
  answers are a parameter. Two threads interleave between the parts of the API and of the monitor
  that hold a mutex, and between the test for room of a registration and its locked part; the
  servers' own variables belong to one thread each, apart from \<open>hwp_in_use\<close>, which the code shares
  without a lock and the model changes in single steps. Interleavings inside one request of a
  server are followed for the detach only. The device behind the test bench of the simulator
  shows its TDO without a delay of its own. Of the Xilinx workaround for bursts the code is
  modelled, but no theorem is stated.
\<close>

end
